(* ===== verification/Prelude.thy ===== *)
theory Prelude
  imports Main "HOL-Library.Sublist" "HOL-Library.Multiset"
begin

text \<open>
  Shared vocabulary of the development: byte strings, the arithmetic of \<open>size_t\<close>, the
  searches of \<open>std::string_view\<close>, the character classes of the C locale, and the number
  conversions \<open>std::to_chars\<close> and \<open>std::from_chars\<close> as far as RuKh uses them.

  A \<open>std::string\<close>, a \<open>std::string_view\<close> and a buffer of \<open>unsigned char\<close> are all
  lists of \<^typ>\<open>char\<close> (8 bits each). A \<open>size_t\<close> is a \<^typ>\<open>nat\<close>; wherever the code adds or
  subtracts values that can leave the 64-bit range, the wrap-around is written out with
  \<open>sz_add\<close> and \<open>sz_sub\<close>.
\<close>

type_synonym bytes = "char list"
type_synonym headers = "(string \<times> string) list"

named_theorems find_simps \<open>results of the string searches\<close>
named_theorems sz_simps \<open>64-bit arithmetic that does not wrap\<close>

section \<open>64-bit sizes\<close>

definition sz_limit :: nat where
  "sz_limit = 2 ^ 64"

definition sz_add :: "nat \<Rightarrow> nat \<Rightarrow> nat" where
  "sz_add a b = (a + b) mod sz_limit"

definition sz_sub :: "nat \<Rightarrow> nat \<Rightarrow> nat" where
  "sz_sub a b = (a + sz_limit - b) mod sz_limit"

lemma sz_limit_pos [simp]: "0 < sz_limit"
  by (simp add: sz_limit_def)

lemma sz_add_nowrap [sz_simps]: "a + b < sz_limit \<Longrightarrow> sz_add a b = a + b"
  by (simp add: sz_add_def)

lemma sz_sub_nowrap [sz_simps]:
  assumes "b \<le> a" "a < sz_limit"
  shows "sz_sub a b = a - b"
proof -
  have "a + sz_limit - b = (a - b) + sz_limit" using assms by simp
  then have "sz_sub a b = (a - b) mod sz_limit" by (simp add: sz_sub_def)
  also have "\<dots> = a - b" using assms by (intro mod_less) simp
  finally show ?thesis .
qed

lemma sz_sub_self [simp]: "a < sz_limit \<Longrightarrow> sz_sub a a = 0"
  by (simp add: sz_sub_nowrap)

lemma sz_sub_0 [simp]: "a < sz_limit \<Longrightarrow> sz_sub a 0 = a"
  by (simp add: sz_sub_nowrap)

lemma sz_add_less [simp]: "sz_add a b < sz_limit"
  by (simp add: sz_add_def)

lemma sz_sub_less [simp]: "sz_sub a b < sz_limit"
  by (simp add: sz_sub_def)

section \<open>Searching\<close>

text \<open>\<open>find_idx P\<close> is \<open>find\<close>/\<open>find_if\<close>/\<open>find_first_of\<close>: the index of the first byte that
  satisfies \<open>P\<close>; \<open>None\<close> is \<open>npos\<close>. \<open>find_sub\<close> is \<open>find(str)\<close> and \<open>std::search\<close>.\<close>

fun find_idx :: "('a \<Rightarrow> bool) \<Rightarrow> 'a list \<Rightarrow> nat option" where
  "find_idx P [] = None"
| "find_idx P (x # xs) = (if P x then Some 0 else map_option Suc (find_idx P xs))"

abbreviation find_char :: "'a \<Rightarrow> 'a list \<Rightarrow> nat option" where
  "find_char c \<equiv> find_idx (\<lambda>x. x = c)"

fun find_sub :: "'a list \<Rightarrow> 'a list \<Rightarrow> nat option" where
  "find_sub p [] = (if p = [] then Some 0 else None)"
| "find_sub p (x # xs) = (if prefix p (x # xs) then Some 0 else map_option Suc (find_sub p xs))"

lemma find_idx_None [find_simps]: "find_idx P xs = None \<longleftrightarrow> (\<forall>x \<in> set xs. \<not> P x)"
  by (induction xs) auto

lemma find_idx_SomeD:
  "find_idx P xs = Some i \<Longrightarrow> i < length xs \<and> P (xs ! i) \<and> (\<forall>x \<in> set (take i xs). \<not> P x)"
  by (induction xs arbitrary: i) (auto split: if_splits)

lemma find_idx_takeWhile: "find_idx P xs = Some i \<Longrightarrow> take i xs = takeWhile (\<lambda>x. \<not> P x) xs"
  by (induction xs arbitrary: i) (auto split: if_splits)

lemma find_idx_less: "find_idx P xs = Some i \<Longrightarrow> i < length xs"
  by (simp add: find_idx_SomeD)

lemma find_idx_append [find_simps]:
  "find_idx P (xs @ ys) =
     (case find_idx P xs of Some i \<Rightarrow> Some i | None \<Rightarrow> map_option ((+) (length xs)) (find_idx P ys))"
proof (induction xs)
  case Nil
  show ?case by (cases "find_idx P ys") simp_all
next
  case (Cons x xs)
  then show ?case by (cases "find_idx P ys") (auto split: option.splits)
qed

lemma find_idx_here: "\<forall>x \<in> set xs. \<not> P x \<Longrightarrow> P y \<Longrightarrow> find_idx P (xs @ y # ys) = Some (length xs)"
  by (induction xs) auto

lemma find_idx_split:
  "find_idx P xs = Some i \<Longrightarrow> xs = take i xs @ xs ! i # drop (Suc i) xs"
  by (meson find_idx_less id_take_nth_drop)

lemma find_sub_SomeD:
  "find_sub p xs = Some i \<Longrightarrow> i + length p \<le> length xs \<and> prefix p (drop i xs)"
  by (induction p xs arbitrary: i rule: find_sub.induct)
     (auto split: if_splits dest: prefix_length_le)

lemma find_sub_le: "find_sub p xs = Some i \<Longrightarrow> i + length p \<le> length xs"
  by (simp add: find_sub_SomeD)

lemma find_sub_first:
  "find_sub p xs = Some i \<Longrightarrow> j < i \<Longrightarrow> \<not> prefix p (drop j xs)"
proof (induction p xs arbitrary: i j rule: find_sub.induct)
  case (2 p x xs)
  then show ?case by (cases j) (auto split: if_splits)
qed (auto split: if_splits)

lemma find_sub_None: "find_sub p xs = None \<Longrightarrow> \<not> prefix p (drop j xs)"
proof (induction p xs arbitrary: j rule: find_sub.induct)
  case (2 p x xs)
  then show ?case by (cases j) (auto split: if_splits)
qed (auto split: if_splits)

lemma find_sub_exists: "prefix p (drop j xs) \<Longrightarrow> \<exists>i. find_sub p xs = Some i \<and> i \<le> j"
proof -
  assume pre: "prefix p (drop j xs)"
  obtain i where i: "find_sub p xs = Some i"
    using pre find_sub_None [of p xs j] by (cases "find_sub p xs") auto
  moreover have "i \<le> j"
    using find_sub_first [OF i, of j] pre by (cases "j < i") auto
  ultimately show ?thesis by blast
qed

lemma find_sub_eqI:
  assumes "prefix p (drop i xs)" and "\<And>j. j < i \<Longrightarrow> \<not> prefix p (drop j xs)"
  shows "find_sub p xs = Some i"
proof -
  obtain k where k: "find_sub p xs = Some k" "k \<le> i" using find_sub_exists assms(1) by blast
  have "\<not> k < i" using assms(2) find_sub_SomeD [OF k(1)] by blast
  with k show ?thesis by simp
qed

lemma find_sub_Nil [simp]: "find_sub [] xs = Some 0"
  by (cases xs) auto

lemma find_sub_append_Some: "find_sub p xs = Some i \<Longrightarrow> find_sub p (xs @ ys) = Some i"
proof (induction p xs arbitrary: i rule: find_sub.induct)
  case (1 p)
  then show ?case by (auto split: if_splits)
next
  case (2 p x xs)
  show ?case
  proof (cases "prefix p (x # xs)")
    case True
    then have "prefix p (x # xs @ ys)" by (metis append_Cons prefix_prefix)
    then show ?thesis using 2 True by simp
  next
    case False
    then obtain k where k: "find_sub p xs = Some k" "i = Suc k" using 2 by auto
    have le: "k + length p \<le> length xs" using find_sub_le k by blast
    have "\<not> prefix p (x # xs @ ys)"
    proof
      assume "prefix p (x # xs @ ys)"
      then have "p = take (length p) (x # xs @ ys)" by (auto simp: prefix_def)
      then have "p = take (length p) (x # xs)" using le
        by (metis Suc_leD add_leD2 append_Cons append_eq_conv_conj length_Cons
            not_less_eq_eq nat_le_linear take_append take_all_iff append_Nil2 diff_is_0_eq take_0)
      then have "prefix p (x # xs)" by (metis take_is_prefix)
      then show False using False by simp
    qed
    then show ?thesis using 2 False k by simp
  qed
qed

section \<open>Bytes\<close>

definition byte :: "nat \<Rightarrow> char" where
  "byte n = char_of n"

abbreviation CR :: char where "CR \<equiv> CHR 0x0D"
abbreviation LF :: char where "LF \<equiv> CHR 0x0A"
abbreviation HT :: char where "HT \<equiv> CHR 0x09"
abbreviation NUL :: char where "NUL \<equiv> CHR 0x00"
abbreviation crlf :: bytes where "crlf \<equiv> [CR, LF]"
abbreviation crlf2 :: bytes where "crlf2 \<equiv> [CR, LF, CR, LF]"

definition c_isdigit :: "char \<Rightarrow> bool" where
  "c_isdigit c \<longleftrightarrow> 48 \<le> (of_char c :: nat) \<and> (of_char c :: nat) \<le> 57"

definition c_isupper :: "char \<Rightarrow> bool" where
  "c_isupper c \<longleftrightarrow> 65 \<le> (of_char c :: nat) \<and> (of_char c :: nat) \<le> 90"

definition c_islower :: "char \<Rightarrow> bool" where
  "c_islower c \<longleftrightarrow> 97 \<le> (of_char c :: nat) \<and> (of_char c :: nat) \<le> 122"

definition c_isalnum :: "char \<Rightarrow> bool" where
  "c_isalnum c \<longleftrightarrow> c_isdigit c \<or> c_isupper c \<or> c_islower c"

definition c_isspace :: "char \<Rightarrow> bool" where
  "c_isspace c \<longleftrightarrow> (of_char c :: nat) = 32 \<or> (9 \<le> (of_char c :: nat) \<and> (of_char c :: nat) \<le> 13)"

definition c_tolower :: "char \<Rightarrow> char" where
  "c_tolower c = (if c_isupper c then char_of ((of_char c :: nat) + 32) else c)"

lemma c_tolower_not_upper [simp]: "\<not> c_isupper (c_tolower c)"
proof (cases "c_isupper c")
  case True
  then have b: "65 \<le> (of_char c :: nat)" "(of_char c :: nat) \<le> 90" by (simp_all add: c_isupper_def)
  have "(of_char (char_of ((of_char c :: nat) + 32)) :: nat) = of_char c + 32"
    using b by simp
  then show ?thesis using True b by (simp add: c_tolower_def c_isupper_def)
qed (simp add: c_tolower_def)

lemma c_tolower_idem [simp]: "c_tolower (c_tolower c) = c_tolower c"
  by (simp add: c_tolower_def [of "c_tolower c"])

section \<open>Numbers and text\<close>

definition digit_char :: "nat \<Rightarrow> char" where
  "digit_char d = char_of (if d < 10 then 48 + d else 87 + d)"

definition digit_val :: "nat \<Rightarrow> char \<Rightarrow> nat option" where
  "digit_val base c =
     (let n = (of_char c :: nat);
          v = (if 48 \<le> n \<and> n \<le> 57 then n - 48
               else if 97 \<le> n \<and> n \<le> 122 then n - 87
               else if 65 \<le> n \<and> n \<le> 90 then n - 55 else base)
      in if v < base then Some v else None)"

text \<open>\<open>std::to_chars\<close> and \<open>std::to_string\<close> on an unsigned value.\<close>

fun to_base :: "nat \<Rightarrow> nat \<Rightarrow> string" where
  "to_base b n = (if b < 2 \<or> n < b then [digit_char n] else to_base b (n div b) @ [digit_char (n mod b)])"

declare to_base.simps [simp del]

abbreviation to_dec :: "nat \<Rightarrow> string" where "to_dec \<equiv> to_base 10"
abbreviation to_hex :: "nat \<Rightarrow> string" where "to_hex \<equiv> to_base 16"

text \<open>
  \<open>std::from_chars\<close> into a \<open>size_t\<close>: the longest run of digits is read; no digit is
  \<open>invalid_argument\<close>, a value that does not fit is \<open>result_out_of_range\<close>. The number of
  characters read is the returned pointer.
\<close>

datatype from_chars_result = FcInvalid | FcOutOfRange nat | FcOk nat nat

definition digits_value :: "nat \<Rightarrow> string \<Rightarrow> nat" where
  "digits_value b ds = foldl (\<lambda>a c. a * b + the (digit_val b c)) 0 ds"

definition from_chars :: "nat \<Rightarrow> string \<Rightarrow> from_chars_result" where
  "from_chars b s =
     (let ds = takeWhile (\<lambda>c. digit_val b c \<noteq> None) s in
      if ds = [] then FcInvalid
      else if digits_value b ds < sz_limit then FcOk (digits_value b ds) (length ds)
      else FcOutOfRange (length ds))"

lemma digit_val_char: "d < b \<Longrightarrow> b \<le> 16 \<Longrightarrow> digit_val b (digit_char d) = Some d"
proof -
  assume d: "d < b" "b \<le> 16"
  have code: "(of_char (digit_char d) :: nat) = (if d < 10 then 48 + d else 87 + d)"
    using d by (simp add: digit_char_def)
  show ?thesis using d by (cases "d < 10") (simp_all add: digit_val_def code)
qed

lemma to_base_nonempty [simp]: "to_base b n \<noteq> []"
  by (subst to_base.simps) simp

lemma digits_value_snoc: "digits_value b (ds @ [c]) = digits_value b ds * b + the (digit_val b c)"
  by (simp add: digits_value_def)

lemma to_base_value:
  assumes "2 \<le> b" "b \<le> 16"
  shows "digits_value b (to_base b n) = n \<and> (\<forall>c \<in> set (to_base b n). digit_val b c \<noteq> None)"
  using assms
proof (induction b n rule: to_base.induct)
  case (1 b n)
  show ?case
  proof (cases "n < b")
    case True
    then show ?thesis using "1.prems"
      by (simp add: to_base.simps [of b n] digits_value_def digit_val_char)
  next
    case False
    then have IH: "digits_value b (to_base b (n div b)) = n div b"
      "\<forall>c \<in> set (to_base b (n div b)). digit_val b c \<noteq> None"
      using 1 by auto
    have "n mod b < b" using "1.prems" by simp
    then show ?thesis using False IH "1.prems"
      by (simp add: to_base.simps [of b n] digits_value_snoc digit_val_char)
  qed
qed

lemma from_chars_to_base:
  assumes "2 \<le> b" "b \<le> 16" "n < sz_limit" "rest = [] \<or> digit_val b (hd rest) = None"
  shows "from_chars b (to_base b n @ rest) = FcOk n (length (to_base b n))"
proof -
  have all: "\<forall>c \<in> set (to_base b n). digit_val b c \<noteq> None" and v: "digits_value b (to_base b n) = n"
    using to_base_value [OF assms(1,2)] by auto
  have "takeWhile (\<lambda>c. digit_val b c \<noteq> None) rest = []"
    using assms(4) by (cases rest) auto
  then have "takeWhile (\<lambda>c. digit_val b c \<noteq> None) (to_base b n @ rest) = to_base b n"
    using all by (simp add: takeWhile_append2)
  then show ?thesis using v assms(3) by (simp add: from_chars_def)
qed

text \<open>The number of digits of a value.\<close>

lemma length_to_base_less: "n < b \<Longrightarrow> length (to_base b n) = 1"
  by (simp add: to_base.simps [of b n])

lemma length_to_base_step: "2 \<le> b \<Longrightarrow> b \<le> n \<Longrightarrow> length (to_base b n) = Suc (length (to_base b (n div b)))"
  by (simp add: to_base.simps [of b n])

lemma length_to_base_pow:
  assumes "2 \<le> b" "b ^ k \<le> n" "n < b ^ Suc k"
  shows "length (to_base b n) = Suc k"
  using assms
proof (induction k arbitrary: n)
  case 0
  then show ?case by (simp add: length_to_base_less)
next
  case (Suc k)
  have "b \<le> n"
  proof -
    have "b ^ 1 \<le> b ^ Suc k" using Suc.prems(1) by (intro power_increasing) auto
    also have "b ^ Suc k \<le> n" by (rule Suc.prems(2))
    finally show ?thesis by simp
  qed
  moreover have "b ^ k \<le> n div b"
    using Suc.prems by (simp add: less_eq_div_iff_mult_less_eq mult.commute)
  moreover have "n div b < b ^ Suc k"
    using Suc.prems by (simp add: less_mult_imp_div_less mult.commute)
  ultimately show ?case using Suc.IH [of "n div b"] Suc.prems(1) by (simp add: length_to_base_step)
qed

section \<open>Sorting by a key\<close>

text \<open>
  \<open>std::sort\<close> promises a sorted permutation and nothing on the order of equivalent
  elements. Code that sorts takes the sort as an argument that satisfies this contract.
\<close>

definition sorts_by :: "('a \<Rightarrow> 'a \<Rightarrow> bool) \<Rightarrow> ('a list \<Rightarrow> 'a list) \<Rightarrow> bool" where
  "sorts_by lt srt \<longleftrightarrow>
     (\<forall>xs. mset (srt xs) = mset xs \<and> sorted_wrt (\<lambda>a b. \<not> lt b a) (srt xs))"

end
