(* ===== verification/Config.thy ===== *)
theory Config
  imports Prelude
begin

text \<open>
  Server settings and exceptions: \<open>rukh/include/rukh/ServerConfig.hpp\<close> and
  \<open>rukh/include/rukh/Exceptions.hpp\<close>.

  The settings are mutable static members, so they are a record that every operation takes;
  \<open>default_config\<close> holds the values the program starts with. Theorems hold for every
  setting unless they name \<open>default_config\<close>.
\<close>

definition KB :: nat where "KB = 1024"
definition MB :: nat where "MB = 1024 * KB"
definition GB :: nat where "GB = 1024 * MB"

record server_config =
  INACTIVITY_TIMEOUT_S :: nat
  FORMATION_TIMEOUT_S :: nat
  GRACEFUL_SHUTDOWN_TIMEOUT_S :: nat
  CONNECTION_CLOSE_MAX_BYTES :: nat
  GRACEFUL_CONNECTION_CLOSE_TIMEOUT_S :: nat
  SINGLE_READ_BYTES :: nat
  MAX_HEADER_BYTES :: nat
  MAX_CONTENT_LENGTH :: nat
  MAX_TE_CHUNK_LENGTH :: nat
  MAX_TE_LENGTH :: nat
  MAX_WRITE_BUFFER_BYTES :: nat
  FILE_CONTENT_CACHE_THRESHOLD :: nat
  FILE_BUFFERING_THRESHOLD :: nat
  MAX_MULTIPART_CONTENT_LENGTH :: nat
  MAX_MULTIPART_TE_LENGTH :: nat
  MAX_MULTIPART_FIELD_SIZE :: nat
  MAX_MULTIPART_FILE_SIZE :: nat
  MAX_MULTIPART_PART_HEADER_SIZE :: nat
  MAX_MULTIPART_PARTS :: nat
  MAX_MULTIPART_BOUNDARY_LENGTH :: nat
  MULTIPART_BUFFER_SIZE :: nat
  ENABLE_STATIC_COMPRESSION :: bool
  STATIC_STREAM_CHUNK_SIZE :: nat
  COMPRESS_MIN_BYTES :: nat
  CONNECTION_LIMIT :: nat
  serverName :: string
  serverLine :: string

definition default_config :: server_config where
  "default_config = \<lparr>
     INACTIVITY_TIMEOUT_S = 20,
     FORMATION_TIMEOUT_S = 120,
     GRACEFUL_SHUTDOWN_TIMEOUT_S = 20,
     CONNECTION_CLOSE_MAX_BYTES = 16 * KB,
     GRACEFUL_CONNECTION_CLOSE_TIMEOUT_S = 2,
     SINGLE_READ_BYTES = 1 * KB,
     MAX_HEADER_BYTES = 8 * KB,
     MAX_CONTENT_LENGTH = 1 * MB,
     MAX_TE_CHUNK_LENGTH = 1 * MB,
     MAX_TE_LENGTH = 10 * MB,
     MAX_WRITE_BUFFER_BYTES = 32 * MB,
     FILE_CONTENT_CACHE_THRESHOLD = 64 * KB,
     FILE_BUFFERING_THRESHOLD = 64 * KB,
     MAX_MULTIPART_CONTENT_LENGTH = 50 * MB,
     MAX_MULTIPART_TE_LENGTH = 50 * MB,
     MAX_MULTIPART_FIELD_SIZE = 64 * KB,
     MAX_MULTIPART_FILE_SIZE = 20 * MB,
     MAX_MULTIPART_PART_HEADER_SIZE = 8 * KB,
     MAX_MULTIPART_PARTS = 256,
     MAX_MULTIPART_BOUNDARY_LENGTH = 64,
     MULTIPART_BUFFER_SIZE = 4 * KB,
     ENABLE_STATIC_COMPRESSION = True,
     STATIC_STREAM_CHUNK_SIZE = 8 * MB,
     COMPRESS_MIN_BYTES = 512 * KB,
     CONNECTION_LIMIT = 100000,
     serverName = ''rukh/v2.9.0'',
     serverLine = ''server: rukh/v2.9.0'' @ crlf \<rparr>"

section \<open>Exceptions\<close>

text \<open>
  The exception classes the modelled code throws, each with the data of its constructor:
  message, and for the two HTTP exceptions the status code and the \<open>fatal\<close> flag (a fatal
  exception closes the connection). \<open>BadAccess\<close> stands for the exceptions that
  \<open>std::get\<close> and \<open>std::expected::value\<close> throw on the wrong alternative, \<open>OutOfRange\<close> for the one of \<open>substr\<close>.
\<close>

datatype exn =
    SocketException string
  | EpollException string
  | ServerException string int bool
  | HandlerException string int bool
  | CompressorException string
  | ConnectionException string
  | DatabaseException string
  | OrmException string
  | InvalidArgument string
  | RuntimeError string
  | BadAccess
  | OutOfRange

text \<open>The constructors' default arguments.\<close>

definition serverException :: "string \<Rightarrow> int \<Rightarrow> exn" where
  "serverException msg code = ServerException msg code True"

definition handlerException :: "string \<Rightarrow> int \<Rightarrow> exn" where
  "handlerException msg code = HandlerException msg code False"

definition setServerName :: "string \<Rightarrow> server_config \<Rightarrow> exn + server_config" where
  "setServerName name cfg =
     (if name = [] then Inl (RuntimeError ''Server name cannot be empty'')
      else Inr (cfg\<lparr>serverName := name, serverLine := ''server: '' @ name @ crlf\<rparr>))"

text \<open>A result that may be an exception, and the sequencing of such results.\<close>

type_synonym 'a result = "exn + 'a"

fun bind_result :: "'a result \<Rightarrow> ('a \<Rightarrow> 'b result) \<Rightarrow> 'b result" where
  "bind_result (Inl e) f = Inl e"
| "bind_result (Inr x) f = f x"

lemma bind_result_Inr:
  "bind_result r f = Inr y \<longleftrightarrow> (\<exists>x. r = Inr x \<and> f x = Inr y)"
  by (cases r) auto

lemma bind_result_Inl:
  "bind_result r f = Inl e \<longleftrightarrow> r = Inl e \<or> (\<exists>x. r = Inr x \<and> f x = Inl e)"
  by (cases r) auto

lemma server_line_invariant:
  "setServerName name cfg = Inr cfg' \<Longrightarrow> serverLine cfg' = ''server: '' @ serverName cfg' @ crlf"
  by (auto simp: setServerName_def split: if_splits)

end
