(* ===== verification/StringUtils.thy ===== *)
theory StringUtils
  imports Prelude
begin

text \<open>
  \<open>rukh/include/rukh/stringUtils.hpp\<close> and \<open>rukh/include/rukh/utils.hpp\<close>: the string helpers and
  the lookups in vectors of pairs that the HTTP layer is written with. The lemmas show that
  splitting loses nothing (\<open>str_join_split\<close>), that the number of digits computed by comparison
  is the length of the printed number (\<open>digit_count_length\<close>), and what the lookups return.
\<close>

section \<open>stringUtils.hpp\<close>

fun gcs_loop :: "nat \<Rightarrow> string list \<Rightarrow> string \<Rightarrow> string" where
  "gcs_loop i [] result = result"
| "gcs_loop i (s # ss) result =
     gcs_loop (Suc i) ss ((if i > 0 then result @ '', '' else result) @ s)"

definition getCommaSeparatedString :: "string list \<Rightarrow> string" where
  "getCommaSeparatedString strings = (if strings = [] then [] else gcs_loop 0 strings [])"

definition icontains :: "string \<Rightarrow> string \<Rightarrow> bool" where
  "icontains haystack needle =
     (if needle = [] then True
      else if length haystack < length needle then False
      else find_sub (map c_tolower needle) (map c_tolower haystack) \<noteq> None)"

definition toLowerCase :: "string \<Rightarrow> string" where
  "toLowerCase s = map c_tolower s"

text \<open>\<open>std::views::split\<close>: nothing for an empty string, otherwise the pieces between
  delimiters, an empty piece at either end included.\<close>

function split_loop :: "string \<Rightarrow> string \<Rightarrow> string list" where
  "split_loop d s =
     (if d = [] then map (\<lambda>c. [c]) s
      else case find_sub d s of
        None \<Rightarrow> [s]
      | Some i \<Rightarrow> take i s # split_loop d (drop (i + length d) s))"
  by pat_completeness auto
termination
proof (relation "measure (\<lambda>(d, s). length s)")
  fix d s :: string and i
  assume "d \<noteq> []" "find_sub d s = Some i"
  then show "((d, drop (i + length d) s), d, s) \<in> measure (\<lambda>(d, s). length s)"
    using find_sub_le [of d s i] by (cases d) auto
qed simp

declare split_loop.simps [simp del]

definition str_split :: "string \<Rightarrow> string \<Rightarrow> string list" where
  "str_split s d = (if s = [] then [] else split_loop d s)"

definition trim :: "string \<Rightarrow> string" where
  "trim s = rev (dropWhile c_isspace (rev (dropWhile c_isspace s)))"

section \<open>utils.hpp\<close>

definition digit_count :: "int \<Rightarrow> nat" where
  "digit_count x =
     (let v = nat \<bar>x\<bar> in
      if v \<ge> 1000000000 then 10
      else if v \<ge> 100000000 then 9
      else if v \<ge> 10000000 then 8
      else if v \<ge> 1000000 then 7
      else if v \<ge> 100000 then 6
      else if v \<ge> 10000 then 5
      else if v \<ge> 1000 then 4
      else if v \<ge> 100 then 3
      else if v \<ge> 10 then 2
      else 1)"

definition getOrDefault :: "('k \<times> 'v) list \<Rightarrow> 'k \<Rightarrow> 'v \<Rightarrow> 'v" where
  "getOrDefault m key defaultValue = (case map_of m key of Some v \<Rightarrow> v | None \<Rightarrow> defaultValue)"

text \<open>The code takes a default and never uses it: a missing key gives the empty string.\<close>

definition getLastOrDefault :: "headers \<Rightarrow> string \<Rightarrow> string \<Rightarrow> string" where
  "getLastOrDefault mp key defaultValue = (case map_of (rev mp) key of Some v \<Rightarrow> v | None \<Rightarrow> [])"

fun getAllValues :: "headers \<Rightarrow> string \<Rightarrow> string list" where
  "getAllValues [] key = []"
| "getAllValues ((k, v) # mp) key = (if k = key then v # getAllValues mp key else getAllValues mp key)"

text \<open>A JSON object of pairs: a later value of a key replaces an earlier one.\<close>

definition toJsonObject :: "headers \<Rightarrow> (string \<Rightarrow> string option)" where
  "toJsonObject pairs = fold (\<lambda>(k, v) j. j(k \<mapsto> v)) pairs Map.empty"

text \<open>The monotonic clock in nanoseconds, from the fields of a \<open>timespec\<close>.\<close>

definition steady_now :: "int \<Rightarrow> int \<Rightarrow> int" where
  "steady_now tv_sec tv_nsec = tv_sec * 1000000000 + tv_nsec"

section \<open>Joining and splitting\<close>

fun str_join :: "string \<Rightarrow> string list \<Rightarrow> string" where
  "str_join d [] = []"
| "str_join d [s] = s"
| "str_join d (s # ss) = s @ d @ str_join d ss"

lemma str_join_Cons: "ss \<noteq> [] \<Longrightarrow> str_join d (s # ss) = s @ d @ str_join d ss"
  by (cases ss) auto

lemma gcs_loop_Suc: "gcs_loop (Suc i) ss r = r @ concat (map (\<lambda>s. '', '' @ s) ss)"
  by (induction ss arbitrary: i r) auto

lemma str_join_concat: "str_join d (s # ss) = s @ concat (map (\<lambda>s. d @ s) ss)"
  by (induction ss arbitrary: s) auto

lemma getCommaSeparatedString_join: "getCommaSeparatedString ss = str_join '', '' ss"
proof (cases ss)
  case (Cons s ss')
  then show ?thesis
    by (simp add: getCommaSeparatedString_def gcs_loop_Suc str_join_concat del: str_join.simps)
qed (simp add: getCommaSeparatedString_def)

text \<open>The capacity reserved for the joined string is exactly its length.\<close>

lemma getCommaSeparatedString_reserve:
  "ss \<noteq> [] \<Longrightarrow> length (getCommaSeparatedString ss) = 2 * (length ss - 1) + sum_list (map length ss)"
  unfolding getCommaSeparatedString_join
  by (induction "'', '' :: string" ss rule: str_join.induct) auto

lemma split_loop_nonempty: "d \<noteq> [] \<Longrightarrow> split_loop d s \<noteq> []"
  by (subst split_loop.simps) (simp split: option.splits)

lemma take_delim_drop:
  assumes "find_sub d s = Some i"
  shows "take i s @ d @ drop (i + length d) s = s"
proof -
  have "d = take (length d) (drop i s)"
    using find_sub_SomeD [OF assms] by (auto simp: prefix_def)
  then have "d @ drop (i + length d) s = drop i s"
    by (metis add.commute append_take_drop_id drop_drop)
  then show ?thesis by simp
qed

lemma str_join_split_loop: "d \<noteq> [] \<Longrightarrow> str_join d (split_loop d s) = s"
proof (induction d s rule: split_loop.induct)
  case (1 d s)
  show ?case
  proof (cases "find_sub d s")
    case None
    then show ?thesis using "1.prems" by (simp add: split_loop.simps [of d s])
  next
    case (Some i)
    then have "str_join d (split_loop d (drop (i + length d) s)) = drop (i + length d) s"
      using 1 by simp
    then show ?thesis using Some "1.prems"
      by (simp add: split_loop.simps [of d s] str_join_Cons split_loop_nonempty take_delim_drop)
  qed
qed

lemma find_sub_take_None:
  assumes "find_sub d s = Some i" "d \<noteq> []"
  shows "find_sub d (take i s) = None"
proof (rule ccontr)
  assume "find_sub d (take i s) \<noteq> None"
  then obtain j where j: "find_sub d (take i s) = Some j" by auto
  then have "j + length d \<le> i" using find_sub_le [OF j] by simp
  then have "j < i" using assms(2) by (cases d) auto
  moreover have "prefix d (drop j s)"
    using find_sub_SomeD [OF j] by (metis append_take_drop_id drop_append prefix_prefix)
  ultimately show False using find_sub_first [OF assms(1)] by blast
qed

lemma split_loop_no_delim: "d \<noteq> [] \<Longrightarrow> p \<in> set (split_loop d s) \<Longrightarrow> find_sub d p = None"
proof (induction d s rule: split_loop.induct)
  case (1 d s)
  then show ?case
    by (cases "find_sub d s") (auto simp: split_loop.simps [of d s] find_sub_take_None)
qed

lemma str_split_join:
  assumes "d \<noteq> []"
  shows "str_join d (str_split s d) = s \<and> (\<forall>p \<in> set (str_split s d). find_sub d p = None)"
  using assms by (auto simp: str_split_def str_join_split_loop split_loop_no_delim)

lemma find_sub_single: "find_sub [c] s = find_char c s"
  by (induction s) auto

section \<open>Trimming\<close>

lemma trim_ends:
  "trim s \<noteq> [] \<Longrightarrow> \<not> c_isspace (hd (trim s)) \<and> \<not> c_isspace (last (trim s))"
proof -
  assume ne: "trim s \<noteq> []"
  let ?t = "dropWhile c_isspace s"
  let ?u = "dropWhile c_isspace (rev ?t)"
  have u: "?u \<noteq> []" using ne by (simp add: trim_def)
  have "\<not> c_isspace (hd ?u)" using hd_dropWhile u by blast
  moreover have "hd (rev ?u) = hd ?t"
  proof -
    obtain w where w: "rev ?t = w @ ?u" by (metis takeWhile_dropWhile_id)
    then have "?t = rev ?u @ rev w" by (metis rev_append rev_rev_ident)
    then show ?thesis using u by (metis hd_append2 rev_is_Nil_conv)
  qed
  moreover have "?t \<noteq> []" using u by (metis dropWhile.simps(1) rev.simps(1))
  then have "\<not> c_isspace (hd ?t)" using hd_dropWhile by blast
  ultimately show ?thesis using u by (simp add: trim_def last_rev)
qed

lemma trim_id:
  assumes "s = [] \<or> \<not> c_isspace (hd s) \<and> \<not> c_isspace (last s)"
  shows "trim s = s"
proof (cases "s = []")
  case False
  then have "dropWhile c_isspace s = s" using assms by (cases s) auto
  moreover have "dropWhile c_isspace (rev s) = rev s"
    using assms False by (cases "rev s") (auto simp: last_rev [symmetric])
  ultimately show ?thesis by (simp add: trim_def)
qed (simp add: trim_def)

lemma trim_idem [simp]: "trim (trim s) = trim s"
  by (rule trim_id) (use trim_ends in blast)

lemma length_trim_le: "length (trim s) \<le> length s"
proof -
  have "length (trim s) \<le> length (rev (dropWhile c_isspace s))"
    using length_dropWhile_le [of c_isspace "rev (dropWhile c_isspace s)"] by (simp add: trim_def)
  then show ?thesis using length_dropWhile_le [of c_isspace s] by simp
qed

lemma trim_append_leading_space:
  "c_isspace c \<Longrightarrow> trim (c # s) = trim s"
  by (simp add: trim_def)

section \<open>Digits\<close>

text \<open>\<open>digit_count\<close> computes the printed length of every non-negative \<open>int\<close> below \<open>10 ^ 10\<close>.\<close>

lemma digit_count_length:
  assumes "n < 10000000000"
  shows "digit_count (int n) = length (to_dec n)"
proof -
  consider k where "k < (9::nat)" "10 ^ Suc k \<le> n" "n < 10 ^ Suc (Suc k)" | "n < 10"
  proof (cases "n < 10")
    case False
    define k where "k = (LEAST k. n < 10 ^ Suc (Suc k))"
    have ex: "n < 10 ^ Suc (Suc 8)" using assms by simp
    have "n < 10 ^ Suc (Suc k)" unfolding k_def by (rule LeastI [of _ 8]) (rule ex)
    moreover have "k \<le> 8" unfolding k_def by (rule Least_le) (rule ex)
    moreover have "10 ^ Suc k \<le> n"
    proof (cases k)
      case 0
      then show ?thesis using False by simp
    next
      case (Suc j)
      then have "\<not> n < 10 ^ Suc (Suc j)" unfolding k_def by (metis lessI not_less_Least)
      then show ?thesis using Suc by simp
    qed
    ultimately show ?thesis using that(1) [of k] by simp
  qed (use that in blast)
  then show ?thesis
  proof cases
    case 1
    then have "length (to_dec n) = Suc (Suc k)" by (intro length_to_base_pow) simp_all
    moreover have "k \<in> {0, 1, 2, 3, 4, 5, 6, 7, 8}" using 1(1) by auto
    ultimately show ?thesis using 1(2,3) by (auto simp: digit_count_def)
  next
    case 2
    then show ?thesis by (simp add: digit_count_def length_to_base_less)
  qed
qed

section \<open>Lookups in a vector of pairs\<close>

lemma getAllValues_filter: "getAllValues mp key = map snd (filter (\<lambda>p. fst p = key) mp)"
  by (induction mp key rule: getAllValues.induct) auto

lemma getAllValues_append: "getAllValues (xs @ ys) key = getAllValues xs key @ getAllValues ys key"
  by (simp add: getAllValues_filter)

lemma getAllValues_Nil_iff: "getAllValues mp key = [] \<longleftrightarrow> key \<notin> fst ` set mp"
  by (induction mp key rule: getAllValues.induct) auto

lemma getLastOrDefault_last:
  "getLastOrDefault mp key d = (if getAllValues mp key = [] then [] else last (getAllValues mp key))"
proof (induction mp rule: rev_induct)
  case (snoc p mp)
  then show ?case by (cases p) (auto simp: getLastOrDefault_def getAllValues_append)
qed (simp add: getLastOrDefault_def)

lemma toJsonObject_last: "toJsonObject pairs k = map_of (rev pairs) k"
  unfolding toJsonObject_def by (induction pairs rule: rev_induct) auto

lemma toJsonObject_lookup: "getLastOrDefault pairs k d = (case toJsonObject pairs k of Some v \<Rightarrow> v | None \<Rightarrow> [])"
  by (simp add: getLastOrDefault_def toJsonObject_last)

lemma toLowerCase_idem [simp]: "toLowerCase (toLowerCase s) = toLowerCase s"
  by (simp add: toLowerCase_def)

lemma length_toLowerCase [simp]: "length (toLowerCase s) = length s"
  by (simp add: toLowerCase_def)

end
