(* ===== verification/Ranges.thy ===== *)
theory Ranges
  imports HttpUtils
begin

text \<open>
  Byte ranges: \<open>HttpRequest::getRanges\<close> (\<open>rukh/src/http/HttpRequest.cpp\<close>) on the text of a
  \<open>Range\<close> header, and \<open>validateAndCleanRanges\<close> (\<open>rukh/include/rukh/http/httpUtils.hpp\<close>).

  \<open>requested fs r\<close> is what a range asks for of a file of \<open>fs\<close> bytes. The lemmas show that
  cleaning fails exactly when some range asks for nothing, and otherwise yields sorted, separated
  intervals inside the file that denote the same bytes.
\<close>

type_synonym byte_range = "nat option \<times> nat option"

section \<open>Parsing the header\<close>

text \<open>One turn of the loop: the range before the next comma, and the rest.\<close>

definition range_number :: "string \<Rightarrow> nat option" where
  "range_number s = (case from_chars 10 s of FcOk v _ \<Rightarrow> Some v | _ \<Rightarrow> None)"

definition range_text :: "string \<Rightarrow> string" where
  "range_text rangeHeader =
     (case find_char CHR '','' rangeHeader of None \<Rightarrow> rangeHeader | Some i \<Rightarrow> take i rangeHeader)"

definition range_rest :: "string \<Rightarrow> string" where
  "range_rest rangeHeader =
     (case find_char CHR '','' rangeHeader of None \<Rightarrow> [] | Some i \<Rightarrow> drop (i + 1) rangeHeader)"

lemma range_rest_shorter: "h \<noteq> [] \<Longrightarrow> length (range_rest h) < length h"
  by (auto simp: range_rest_def split: option.splits)

function parse_ranges :: "string \<Rightarrow> byte_range list \<Rightarrow> byte_range list" where
  "parse_ranges rangeHeader ranges =
     (if rangeHeader = [] then ranges
      else case find_char CHR ''-'' (range_text rangeHeader) of
        None \<Rightarrow> []
      | Some dash \<Rightarrow>
          (case (range_number (take dash (range_text rangeHeader)),
                 range_number (drop (dash + 1) (range_text rangeHeader))) of
             (None, None) \<Rightarrow> parse_ranges (range_rest rangeHeader) ranges
           | r \<Rightarrow> parse_ranges (range_rest rangeHeader) (ranges @ [r])))"
  by pat_completeness auto
termination
  by (relation "measure (\<lambda>(h, r). length h)") (auto simp: range_rest_shorter)

declare parse_ranges.simps [simp del]

definition getRanges :: "string \<Rightarrow> byte_range list" where
  "getRanges rangeHeader =
     (if rangeHeader = [] then []
      else case find_sub ''bytes='' rangeHeader of
        None \<Rightarrow> []
      | Some rangestart \<Rightarrow> parse_ranges (drop (rangestart + 6) rangeHeader) [])"

lemma range_number_bound: "range_number s = Some v \<Longrightarrow> v < sz_limit"
  by (auto simp: range_number_def from_chars_def Let_def split: from_chars_result.splits if_splits)

text \<open>Every parsed range has a bound, and both bounds are \<open>size_t\<close> values.\<close>

definition range_ok :: "byte_range \<Rightarrow> bool" where
  "range_ok r \<longleftrightarrow> r \<noteq> (None, None) \<and> (\<forall>v. fst r = Some v \<or> snd r = Some v \<longrightarrow> v < sz_limit)"

lemma parse_ranges_ok:
  "(\<forall>r \<in> set ranges. range_ok r) \<Longrightarrow> \<forall>r \<in> set (parse_ranges h ranges). range_ok r"
proof (induction "length h" arbitrary: h ranges rule: less_induct)
  case less
  show ?case
  proof (cases "h = [] \<or> find_char CHR ''-'' (range_text h) = None")
    case True
    then show ?thesis using less.prems by (auto simp: parse_ranges.simps [of h ranges])
  next
    case False
    then obtain dash where d: "h \<noteq> []" "find_char CHR ''-'' (range_text h) = Some dash" by auto
    define st where "st = range_number (take dash (range_text h))"
    define en where "en = range_number (drop (dash + 1) (range_text h))"
    define rs where "rs = (if st = None \<and> en = None then ranges else ranges @ [(st, en)])"
    have "st \<noteq> None \<or> en \<noteq> None \<Longrightarrow> range_ok (st, en)"
      using range_number_bound by (auto simp: range_ok_def st_def en_def)
    then have ok: "\<forall>r \<in> set rs. range_ok r" using less.prems by (auto simp: rs_def)
    have step: "parse_ranges h ranges = parse_ranges (range_rest h) rs"
      using d by (auto simp: parse_ranges.simps [of h ranges] rs_def st_def en_def split: option.splits)
    show ?thesis
      unfolding step by (rule less.hyps [OF range_rest_shorter [OF d(1)] ok])
  qed
qed

section \<open>Cleaning\<close>

text \<open>
  The loop body on one range. For an open range \<open>a-\<close> the code compares \<open>*end\<close> before it checks
  that \<open>end\<close> holds a value; \<open>junk\<close> is whatever that read yields.
\<close>

definition check_range :: "nat \<Rightarrow> nat \<times> nat \<Rightarrow> (nat \<times> nat) option" where
  "check_range fileSize r =
     (if fst r > snd r then None else if fst r \<ge> fileSize then None else Some r)"

definition clean_range :: "nat \<Rightarrow> nat \<Rightarrow> byte_range \<Rightarrow> (nat \<times> nat) option" where
  "clean_range junk fileSize r =
     (case r of
        (None, None) \<Rightarrow> None
      | (None, Some e) \<Rightarrow>
          check_range fileSize (if e \<ge> fileSize then 0 else sz_sub fileSize e, sz_sub fileSize 1)
      | (Some s, e) \<Rightarrow>
          let payload = (case e of Some v \<Rightarrow> v | None \<Rightarrow> junk);
              payload' = (if payload \<ge> fileSize then sz_sub fileSize 1 else payload);
              e' = (if e = None then sz_sub fileSize 1 else payload')
          in check_range fileSize (s, e'))"

fun clean_ranges :: "nat \<Rightarrow> nat \<Rightarrow> byte_range list \<Rightarrow> (nat \<times> nat) list option" where
  "clean_ranges junk fileSize [] = Some []"
| "clean_ranges junk fileSize (r # rs) =
     (case clean_range junk fileSize r of
        None \<Rightarrow> None
      | Some p \<Rightarrow> map_option ((#) p) (clean_ranges junk fileSize rs))"

text \<open>The merge loop; its first argument is \<open>merged.back()\<close>.\<close>

fun merge_into :: "nat \<times> nat \<Rightarrow> (nat \<times> nat) list \<Rightarrow> (nat \<times> nat) list" where
  "merge_into (ms, me) [] = [(ms, me)]"
| "merge_into (ms, me) ((cs, ce) # r) =
     (if cs \<le> sz_add me 1 then merge_into (ms, max me ce) r
      else (ms, me) # merge_into (cs, ce) r)"

text \<open>\<open>None\<close> is \<open>return false\<close>; the callers then do not look at the ranges.\<close>

definition validateAndCleanRanges ::
  "((nat \<times> nat) list \<Rightarrow> (nat \<times> nat) list) \<Rightarrow> nat \<Rightarrow> byte_range list \<Rightarrow> nat \<Rightarrow> (nat \<times> nat) list option" where
  "validateAndCleanRanges sort_ranges junk ranges fileSize =
     (if ranges = [] then Some []
      else case clean_ranges junk fileSize ranges of
        None \<Rightarrow> None
      | Some rs \<Rightarrow>
          (case sort_ranges rs of [] \<Rightarrow> Some [] | r # rest \<Rightarrow> Some (merge_into r rest)))"

section \<open>What a range asks for\<close>

definition requested :: "nat \<Rightarrow> byte_range \<Rightarrow> nat set" where
  "requested fs r =
     (case r of
        (None, None) \<Rightarrow> {}
      | (None, Some n) \<Rightarrow> {fs - n..<fs}
      | (Some s, None) \<Rightarrow> {s..<fs}
      | (Some s, Some e) \<Rightarrow> {s..e} \<inter> {..<fs})"

definition bytes_of :: "(nat \<times> nat) list \<Rightarrow> nat set" where
  "bytes_of rs = (\<Union>(s, e) \<in> set rs. {s..e})"

lemma bytes_of_simps [simp]:
  "bytes_of [] = {}" "bytes_of ((s, e) # rs) = {s..e} \<union> bytes_of rs"
  by (auto simp: bytes_of_def)

lemma sz_sub_1: "0 < fs \<Longrightarrow> fs < sz_limit \<Longrightarrow> sz_sub fs 1 = fs - 1"
  by (rule sz_sub_nowrap) simp_all

lemma interval_empty: "{s..e} \<inter> {..<fs} = {} \<longleftrightarrow> e < s \<or> fs \<le> s" for s e fs :: nat
  by (cases "s \<in> {s..e} \<inter> {..<fs}") auto

lemma clean_range_Some:
  assumes "fs < sz_limit" "clean_range junk fs r = Some (s, e)"
  shows "requested fs r = {s..e} \<and> s \<le> e \<and> e < fs"
proof (cases "fs = 0")
  case True
  then show ?thesis using assms(2)
    by (auto simp: clean_range_def check_range_def Let_def split: option.splits prod.splits if_splits)
next
  case False
  then have 1: "sz_sub fs 1 = fs - 1" using assms(1) sz_sub_1 [of fs] by blast
  show ?thesis using assms False
    by (cases r; cases "fst r"; cases "snd r")
       (auto simp: clean_range_def check_range_def Let_def requested_def 1 [unfolded One_nat_def] 1
          sz_sub_nowrap split: if_splits)
qed

lemma clean_range_None:
  assumes "fs < sz_limit"
  shows "clean_range junk fs r = None \<longleftrightarrow> requested fs r = {}"
proof (cases "fs = 0")
  case True
  then show ?thesis
    by (cases r; cases "fst r"; cases "snd r")
       (auto simp: clean_range_def check_range_def Let_def requested_def)
next
  case False
  then have 1: "sz_sub fs 1 = fs - 1" using assms sz_sub_1 [of fs] by blast
  show ?thesis using assms False
    by (cases r; cases "fst r"; cases "snd r")
       (auto simp: clean_range_def check_range_def Let_def requested_def 1 [unfolded One_nat_def] 1
          sz_sub_nowrap interval_empty)
qed

lemma clean_ranges_Some:
  assumes "fs < sz_limit" "clean_ranges junk fs rs = Some ps"
  shows "bytes_of ps = (\<Union>r \<in> set rs. requested fs r) \<and> (\<forall>(s, e) \<in> set ps. s \<le> e \<and> e < fs)
    \<and> length ps = length rs"
  using assms(2)
proof (induction rs arbitrary: ps)
  case (Cons r rs)
  then obtain s e ps' where "clean_range junk fs r = Some (s, e)" "clean_ranges junk fs rs = Some ps'"
    "ps = (s, e) # ps'"
    by (auto split: option.splits)
  moreover from this have "requested fs r = {s..e} \<and> s \<le> e \<and> e < fs"
    using clean_range_Some [OF assms(1)] by blast
  ultimately show ?case using Cons.IH [of ps'] by simp
qed simp

lemma clean_ranges_None:
  assumes "fs < sz_limit"
  shows "clean_ranges junk fs rs = None \<longleftrightarrow> (\<exists>r \<in> set rs. requested fs r = {})"
proof (induction rs)
  case (Cons r rs)
  show ?case
  proof (cases "clean_range junk fs r")
    case None
    then show ?thesis using clean_range_None [OF assms, of junk r] by simp
  next
    case (Some p)
    then have "requested fs r \<noteq> {}" using clean_range_None [OF assms, of junk r] by simp
    then show ?thesis using Some Cons by simp
  qed
qed simp

lemma clean_ranges_junk: "fs < sz_limit \<Longrightarrow> clean_ranges junk fs rs = clean_ranges junk' fs rs"
proof (induction rs)
  case (Cons r rs)
  have "clean_range junk fs r = clean_range junk' fs r"
    by (auto simp: clean_range_def Let_def split: prod.splits option.splits)
  then show ?case using Cons by (simp split: option.split)
qed simp

section \<open>Merging\<close>

lemma merge_into_ge: "sorted_wrt (\<lambda>a b. fst a \<le> fst b) (r # rs) \<Longrightarrow>
    p \<in> set (merge_into r rs) \<Longrightarrow> fst r \<le> fst p"
proof (induction r rs rule: merge_into.induct)
  case (2 ms me cs ce r)
  show ?case
  proof (cases "cs \<le> sz_add me 1")
    case True
    then show ?thesis using 2 by auto
  next
    case False
    then have "p = (ms, me) \<or> cs \<le> fst p" using 2 by auto
    then show ?thesis using "2.prems" by auto
  qed
qed auto

lemma merge_into_correct:
  assumes "sorted_wrt (\<lambda>a b. fst a \<le> fst b) (r # rs)" "\<forall>(s, e) \<in> set (r # rs). s \<le> e \<and> e < fs"
    and "fs < sz_limit"
  shows "bytes_of (merge_into r rs) = bytes_of (r # rs)
    \<and> sorted_wrt (\<lambda>a b. snd a + 1 < fst b) (merge_into r rs)
    \<and> (\<forall>(s, e) \<in> set (merge_into r rs). s \<le> e \<and> e < fs)"
  using assms(1,2)
proof (induction r rs rule: merge_into.induct)
  case (2 ms me cs ce r)
  have add: "sz_add me 1 = me + 1" using "2.prems"(2) assms(3) by (auto simp: sz_simps)
  show ?case
  proof (cases "cs \<le> sz_add me 1")
    case True
    have un: "{ms..max me ce} = {ms..me} \<union> {cs..ce}"
      using True add "2.prems" by (auto simp: max_def)
    have s: "sorted_wrt (\<lambda>a b. fst a \<le> fst b) ((ms, max me ce) # r)"
      "\<forall>(s, e) \<in> set ((ms, max me ce) # r). s \<le> e \<and> e < fs"
      using "2.prems" by auto
    show ?thesis using "2.IH"(1) [OF True s] True un by (auto simp: Un_assoc)
  next
    case False
    have s: "sorted_wrt (\<lambda>a b. fst a \<le> fst b) ((cs, ce) # r)"
      "\<forall>(s, e) \<in> set ((cs, ce) # r). s \<le> e \<and> e < fs"
      using "2.prems" by auto
    have "\<forall>p \<in> set (merge_into (cs, ce) r). me + 1 < fst p"
      using merge_into_ge [OF s(1)] False add by fastforce
    then show ?thesis using "2.IH"(2) [OF False s] False "2.prems" by auto
  qed
qed auto

lemma sorts_by_fst:
  fixes srt :: "(nat \<times> nat) list \<Rightarrow> (nat \<times> nat) list"
  assumes "sorts_by (\<lambda>a b. fst a < fst b) srt"
  shows "sorted_wrt (\<lambda>a b. fst a \<le> fst b) (srt rs) \<and> set (srt rs) = set rs \<and> length (srt rs) = length rs"
proof -
  have "mset (srt rs) = mset rs" "sorted_wrt (\<lambda>a b. \<not> fst b < fst a) (srt rs)"
    using assms by (auto simp: sorts_by_def)
  moreover from this have "length (srt rs) = length rs" "set (srt rs) = set rs"
    by (auto dest: mset_eq_length mset_eq_setD)
  ultimately show ?thesis by (simp add: not_less)
qed

lemma sort_key_sorts_by: "sorts_by (\<lambda>a b. fst a < fst b) (sort_key fst)"
proof -
  have "sorted_wrt (\<lambda>a b. \<not> fst b < fst a) (sort_key fst xs)" for xs :: "('a :: linorder \<times> 'b) list"
    using sorted_sort_key [of fst xs] by (simp add: sorted_map not_less)
  then show ?thesis by (simp add: sorts_by_def)
qed

lemma validate_Some:
  assumes srt: "sorts_by (\<lambda>a b. fst a < fst b) srt" and fs: "fs < sz_limit"
    and v: "validateAndCleanRanges srt junk rs fs = Some out"
  shows "bytes_of out = (\<Union>r \<in> set rs. requested fs r)
    \<and> sorted_wrt (\<lambda>a b. snd a + 1 < fst b) out
    \<and> (\<forall>(s, e) \<in> set out. s \<le> e \<and> e < fs)"
proof (cases "rs = []")
  case True
  then show ?thesis using v by (auto simp: validateAndCleanRanges_def)
next
  case False
  then obtain ps where ps: "clean_ranges junk fs rs = Some ps"
    using v by (auto simp: validateAndCleanRanges_def split: option.splits)
  note clean = clean_ranges_Some [OF fs ps]
  note sorted = sorts_by_fst [OF srt, of ps]
  have "srt ps \<noteq> []" using sorted clean False by (metis length_0_conv)
  then obtain r rest where r: "srt ps = r # rest" by (cases "srt ps") auto
  then have out: "out = merge_into r rest"
    using v ps False by (simp add: validateAndCleanRanges_def)
  have eq: "bytes_of (r # rest) = bytes_of ps"
    using sorted r by (simp only: bytes_of_def)
  have set: "set (r # rest) = set ps" using sorted r by simp
  have bounded: "\<forall>(s, e) \<in> set (r # rest). s \<le> e \<and> e < fs"
    unfolding set using clean by blast
  have "sorted_wrt (\<lambda>a b. fst a \<le> fst b) (r # rest)" using sorted r by simp
  from merge_into_correct [OF this bounded fs] show ?thesis
    unfolding out eq using clean by simp
qed

lemma validate_None:
  assumes "fs < sz_limit"
  shows "validateAndCleanRanges srt junk rs fs = None \<longleftrightarrow> (\<exists>r \<in> set rs. requested fs r = {})"
  using clean_ranges_None [OF assms, of junk rs]
  by (auto simp: validateAndCleanRanges_def split: option.splits list.splits)

end
