(* ===== verification/HeaderStore.thy ===== *)
theory HeaderStore
  imports StringUtils
begin

text \<open>
  \<open>rukh/include/rukh/http/HeaderStore.hpp\<close>, and the interface that it shares with the header
  operations of \<open>HttpRequest\<close>: a multi-map of headers in arrival order whose keys are stored in
  lower case, with some keys that hold one value only. The locale \<open>header_map\<close> states the laws of
  the three updates; its lemmas give what each lookup returns after each update and that no update
  ever stores a singleton header twice.
\<close>

section \<open>The interface\<close>

definition singletons_once :: "(string \<Rightarrow> bool) \<Rightarrow> headers \<Rightarrow> bool" where
  "singletons_once single hs \<longleftrightarrow> (\<forall>k. single k \<longrightarrow> length (getAllValues hs k) \<le> 1)"

definition lower_keys :: "headers \<Rightarrow> bool" where
  "lower_keys hs \<longleftrightarrow> (\<forall>(k, v) \<in> set hs. toLowerCase k = k)"

lemma singletons_once_Nil [simp]: "singletons_once single []"
  by (simp add: singletons_once_def)

lemma lower_keys_Nil [simp]: "lower_keys []"
  by (simp add: lower_keys_def)

lemma getAllValues_removed: "getAllValues (filter (\<lambda>p. fst p \<noteq> k) hs) k' =
    (if k' = k then [] else getAllValues hs k')"
  by (induction hs k' rule: getAllValues.induct) auto

locale header_map =
  fixes entries :: "'s \<Rightarrow> headers"
    and single :: "string \<Rightarrow> bool"
    and set_lower :: "string \<Rightarrow> string \<Rightarrow> 's \<Rightarrow> 's"
    and add_lower :: "string \<Rightarrow> string \<Rightarrow> 's \<Rightarrow> 's"
    and remove :: "string \<Rightarrow> 's \<Rightarrow> 's"
  assumes entries_set: "entries (set_lower k v s) = filter (\<lambda>p. fst p \<noteq> k) (entries s) @ [(k, v)]"
    and entries_add: "entries (add_lower k v s) =
      (if single k \<and> getAllValues (entries s) k \<noteq> [] then entries s else entries s @ [(k, v)])"
    and entries_remove: "entries (remove n s) = filter (\<lambda>p. fst p \<noteq> toLowerCase n) (entries s)"
begin

lemma values_set: "getAllValues (entries (set_lower k v s)) k' =
    (if k' = k then [v] else getAllValues (entries s) k')"
  by (simp add: entries_set getAllValues_append getAllValues_removed)

lemma values_add: "getAllValues (entries (add_lower k v s)) k' =
    (if k' = k \<and> \<not> (single k \<and> getAllValues (entries s) k \<noteq> []) then getAllValues (entries s) k @ [v]
     else getAllValues (entries s) k')"
  by (simp add: entries_add getAllValues_append)

lemma values_remove: "getAllValues (entries (remove n s)) k' =
    (if k' = toLowerCase n then [] else getAllValues (entries s) k')"
  by (simp add: entries_remove getAllValues_removed)

lemma once_set: "singletons_once single (entries s) \<Longrightarrow> singletons_once single (entries (set_lower k v s))"
  by (simp add: singletons_once_def values_set)

lemma once_add: "singletons_once single (entries s) \<Longrightarrow> singletons_once single (entries (add_lower k v s))"
  by (auto simp: singletons_once_def values_add)

lemma once_remove: "singletons_once single (entries s) \<Longrightarrow> singletons_once single (entries (remove n s))"
  by (simp add: singletons_once_def values_remove)

lemma lower_set: "lower_keys (entries s) \<Longrightarrow> toLowerCase k = k \<Longrightarrow> lower_keys (entries (set_lower k v s))"
  by (auto simp: lower_keys_def entries_set)

lemma lower_add: "lower_keys (entries s) \<Longrightarrow> toLowerCase k = k \<Longrightarrow> lower_keys (entries (add_lower k v s))"
  by (auto simp: lower_keys_def entries_add)

lemmas values_simps = values_set values_add values_remove

end

section \<open>HeaderStore\<close>

type_synonym header_store = headers

definition hs_singletonHeaders :: "string list" where
  "hs_singletonHeaders =
     [''content-length'', ''content-type'', ''transfer-encoding'', ''date'', ''server'', ''location'']"

definition hs_getHeader :: "header_store \<Rightarrow> string \<Rightarrow> string" where
  "hs_getHeader hs name = getLastOrDefault hs (toLowerCase name) []"

definition hs_getHeaderLower :: "header_store \<Rightarrow> string \<Rightarrow> string" where
  "hs_getHeaderLower hs name = getLastOrDefault hs name []"

definition hs_getHeaders :: "header_store \<Rightarrow> string \<Rightarrow> string list" where
  "hs_getHeaders hs name = getAllValues hs (toLowerCase name)"

definition hs_getHeadersLower :: "header_store \<Rightarrow> string \<Rightarrow> string list" where
  "hs_getHeadersLower hs name = getAllValues hs name"

definition hs_setHeader :: "string \<Rightarrow> string \<Rightarrow> header_store \<Rightarrow> header_store" where
  "hs_setHeader name value hs =
     (let lowerKey = toLowerCase name in filter (\<lambda>p. fst p \<noteq> lowerKey) hs @ [(lowerKey, value)])"

definition hs_setHeaderLower :: "string \<Rightarrow> string \<Rightarrow> header_store \<Rightarrow> header_store" where
  "hs_setHeaderLower lowercaseKey value hs = filter (\<lambda>p. fst p \<noteq> lowercaseKey) hs @ [(lowercaseKey, value)]"

definition hs_addHeader :: "string \<Rightarrow> string \<Rightarrow> header_store \<Rightarrow> header_store" where
  "hs_addHeader name value hs =
     (let key = toLowerCase name in
      if key \<in> set hs_singletonHeaders then
        if find_idx (\<lambda>p. fst p = key) hs = None then hs @ [(key, value)] else hs
      else hs @ [(key, value)])"

definition hs_addHeaderLower :: "string \<Rightarrow> string \<Rightarrow> header_store \<Rightarrow> header_store" where
  "hs_addHeaderLower lowercaseKey value hs =
     (if lowercaseKey \<in> set hs_singletonHeaders then
        if find_idx (\<lambda>p. fst p = lowercaseKey) hs = None then hs @ [(lowercaseKey, value)] else hs
      else hs @ [(lowercaseKey, value)])"

definition hs_removeHeader :: "string \<Rightarrow> header_store \<Rightarrow> header_store" where
  "hs_removeHeader name hs = (let key = toLowerCase name in filter (\<lambda>p. fst p \<noteq> key) hs)"

definition hs_setCacheControl :: "string \<Rightarrow> header_store \<Rightarrow> header_store" where
  "hs_setCacheControl cacheControlHeader = hs_setHeaderLower ''cache-control'' cacheControlHeader"

definition hs_setContentRange :: "nat \<Rightarrow> nat \<Rightarrow> nat \<Rightarrow> header_store \<Rightarrow> header_store" where
  "hs_setContentRange start end filesize =
     hs_setHeaderLower ''content-range''
       (''bytes '' @ to_dec start @ ''-'' @ to_dec end @ ''/'' @ to_dec filesize)"

lemma find_key_None: "find_idx (\<lambda>p. fst p = k) hs = None \<longleftrightarrow> getAllValues hs k = []"
  by (induction hs k rule: getAllValues.induct) auto

interpretation hs: header_map "\<lambda>hs. hs" "\<lambda>k. k \<in> set hs_singletonHeaders"
  hs_setHeaderLower hs_addHeaderLower hs_removeHeader
  by unfold_locales
     (auto simp: hs_setHeaderLower_def hs_addHeaderLower_def hs_removeHeader_def find_key_None)

text \<open>The variants that take a name of any case are the ones on its lower-case form.\<close>

lemma hs_setHeader_lower: "hs_setHeader name value = hs_setHeaderLower (toLowerCase name) value"
  by (simp add: fun_eq_iff hs_setHeader_def hs_setHeaderLower_def Let_def)

lemma hs_addHeader_lower: "hs_addHeader name value = hs_addHeaderLower (toLowerCase name) value"
  by (simp add: fun_eq_iff hs_addHeader_def hs_addHeaderLower_def Let_def)

lemma hs_get_after_set:
  "hs_getHeaderLower (hs_setHeaderLower k v hs) k' = (if k' = k then v else hs_getHeaderLower hs k')"
  by (simp add: hs_getHeaderLower_def getLastOrDefault_last hs.values_set)

end
