(* ===== verification/ConnectionIO.thy ===== *)
theory ConnectionIO
  imports Config
begin

text \<open>
  The buffered connection of \<open>rukh/include/rukh/net/ConnectionIO.hpp\<close> over the non-blocking
  socket of \<open>rukh/src/net/TcpStream.cpp\<close>.

  The peer and the kernel are two scripts of events: \<open>rx\<close> says what the next calls of
  \<open>recv\<close> find, \<open>tx\<close> what the next calls of \<open>send\<close> accept; \<open>sent\<close> is what the kernel took.
  A wait for readiness ends by a timeout when the script says so or has nothing more; the flag
  \<open>tl_timed_out\<close> is the executor's thread-local flag, which is set by the wait and keeps its value until the
  next one.

  The locale \<open>byte_queue\<close> is the interface of a buffer whose front is erased lazily; it is
  interpreted on the read buffer and on the write buffer. The lemmas on \<open>drain\<close> and \<open>io_read\<close>
  show that no byte is lost, duplicated or reordered between the script and the buffer.
\<close>

section \<open>The socket\<close>

datatype rx_event = RxData bytes | RxPause | RxTimeout | RxClosed | RxError

datatype tx_event = TxTake nat | TxTimeout | TxError

datatype receive_result = RcvData bytes | RcvClosed | RcvWouldBlock | RcvError

text \<open>\<open>TcpStream::receive\<close> into a span of \<open>k\<close> bytes.\<close>

fun receive :: "nat \<Rightarrow> rx_event list \<Rightarrow> receive_result \<times> rx_event list" where
  "receive k [] = (RcvWouldBlock, [])"
| "receive k (RxData bs # r) =
     (if bs = [] then receive k r
      else if k = 0 then (RcvClosed, RxData bs # r)
      else if length bs \<le> k then (RcvData bs, r)
      else (RcvData (take k bs), RxData (drop k bs) # r))"
| "receive k (RxPause # r) = (RcvWouldBlock, r)"
| "receive k (RxTimeout # r) = (RcvWouldBlock, RxTimeout # r)"
| "receive k (RxClosed # r) = (RcvClosed, RxClosed # r)"
| "receive k (RxError # r) = (RcvError, RxError # r)"

text \<open>\<open>TcpStream::send\<close>: the number of bytes taken, 0 when it would block, \<open>None\<close> on an error.\<close>

fun send :: "bytes \<Rightarrow> tx_event list \<Rightarrow> nat option \<times> tx_event list" where
  "send bs [] = (Some 0, [])"
| "send bs (TxTake n # r) = (Some (min n (length bs)), r)"
| "send bs (TxTimeout # r) = (Some 0, TxTimeout # r)"
| "send bs (TxError # r) = (None, TxError # r)"

fun wait_rx :: "rx_event list \<Rightarrow> bool \<times> rx_event list" where
  "wait_rx [] = (True, [])"
| "wait_rx (RxTimeout # r) = (True, r)"
| "wait_rx (e # r) = (False, e # r)"

fun wait_tx :: "tx_event list \<Rightarrow> bool \<times> tx_event list" where
  "wait_tx [] = (True, [])"
| "wait_tx (TxTimeout # r) = (True, r)"
| "wait_tx (e # r) = (False, e # r)"

text \<open>The bytes a script still delivers, and its size.\<close>

fun rx_data :: "rx_event list \<Rightarrow> bytes" where
  "rx_data [] = []"
| "rx_data (RxData bs # r) = bs @ rx_data r"
| "rx_data (e # r) = rx_data r"

fun rx_size :: "rx_event list \<Rightarrow> nat" where
  "rx_size [] = 0"
| "rx_size (RxData bs # r) = Suc (length bs + rx_size r)"
| "rx_size (e # r) = Suc (rx_size r)"

lemma receive_data:
  "receive k es = (RcvData bs, es') \<Longrightarrow>
     rx_data es = bs @ rx_data es' \<and> bs \<noteq> [] \<and> length bs \<le> k \<and> rx_size es' < rx_size es"
proof (induction k es rule: receive.induct)
  case (2 k bs' r)
  then show ?case by (auto split: if_splits)
qed auto

lemma receive_would_block:
  "receive k es = (RcvWouldBlock, es') \<Longrightarrow>
     rx_data es' = rx_data es \<and> rx_size es' \<le> rx_size es \<and>
     (es' = [] \<or> hd es' = RxTimeout \<or> rx_size es' < rx_size es)"
proof (induction k es rule: receive.induct)
  case (2 k bs r)
  then show ?case by (auto split: if_splits)
qed auto

lemma receive_end:
  "receive k es = (r, es') \<Longrightarrow> r = RcvClosed \<or> r = RcvError \<Longrightarrow> rx_data es' = rx_data es \<and> rx_size es' \<le> rx_size es"
  by (induction k es rule: receive.induct) (auto split: if_splits)

definition rx_ends :: "rx_event list \<Rightarrow> bool" where
  "rx_ends es \<longleftrightarrow> RxClosed \<in> set es \<or> RxError \<in> set es"

lemma receive_ends:
  "receive k es = (r, es') \<Longrightarrow> (rx_ends es' \<longrightarrow> rx_ends es) \<and> (r = RcvClosed \<or> r = RcvError \<longrightarrow> k = 0 \<or> rx_ends es)"
  by (induction k es rule: receive.induct) (auto simp: rx_ends_def split: if_splits)

lemma wait_rx_ends: "wait_rx es = (b, es') \<Longrightarrow> rx_ends es' \<longrightarrow> rx_ends es"
  by (cases es rule: wait_rx.cases) (auto simp: rx_ends_def)

lemma wait_rx_data: "wait_rx es = (b, es') \<Longrightarrow> rx_data es' = rx_data es \<and> rx_size es' \<le> rx_size es"
  by (cases es rule: wait_rx.cases) auto

lemma wait_rx_ready: "wait_rx es = (False, es') \<Longrightarrow> es' = es \<and> es \<noteq> [] \<and> hd es \<noteq> RxTimeout"
  by (cases es rule: wait_rx.cases) auto

section \<open>The buffers\<close>

record conn_io =
  readBuffer :: bytes
  readOffset :: nat
  writeBuffer :: bytes
  writeOffset :: nat
  rx :: "rx_event list"
  tx :: "tx_event list"
  sent :: bytes
  tl_timed_out :: bool

definition getReadBufferSize :: "conn_io \<Rightarrow> nat" where
  "getReadBufferSize io = length (readBuffer io) - readOffset io"

definition getWriteBufferSize :: "conn_io \<Rightarrow> nat" where
  "getWriteBufferSize io = length (writeBuffer io) - writeOffset io"

definition hasPendingWrites :: "conn_io \<Rightarrow> bool" where
  "hasPendingWrites io \<longleftrightarrow> getWriteBufferSize io > 0"

text \<open>The bytes from \<open>readBufferBegin()\<close> to \<open>readBufferEnd()\<close>, and the same for writing.\<close>

definition readView :: "conn_io \<Rightarrow> bytes" where
  "readView io = drop (readOffset io) (readBuffer io)"

definition writeView :: "conn_io \<Rightarrow> bytes" where
  "writeView io = drop (writeOffset io) (writeBuffer io)"

definition getReadBufferString :: "conn_io \<Rightarrow> int \<Rightarrow> string" where
  "getReadBufferString io end =
     (if end < 0 then drop (readOffset io) (readBuffer io)
      else take (nat end) (drop (readOffset io) (readBuffer io)))"

definition enqueue :: "bytes \<Rightarrow> conn_io \<Rightarrow> conn_io" where
  "enqueue data io = io\<lparr>writeBuffer := writeBuffer io @ data\<rparr>"

definition eraseFromReadBuffer :: "nat \<Rightarrow> conn_io \<Rightarrow> conn_io" where
  "eraseFromReadBuffer n io =
     (let off = readOffset io + n in
      if off > length (readBuffer io) div 2
      then io\<lparr>readBuffer := drop off (readBuffer io), readOffset := 0\<rparr>
      else io\<lparr>readOffset := off\<rparr>)"

definition eraseFromWriteBuffer :: "nat \<Rightarrow> conn_io \<Rightarrow> conn_io" where
  "eraseFromWriteBuffer n io =
     (let off = writeOffset io + n in
      if off > length (writeBuffer io) div 2
      then io\<lparr>writeBuffer := drop off (writeBuffer io), writeOffset := 0\<rparr>
      else io\<lparr>writeOffset := off\<rparr>)"

text \<open>The offsets stay inside their buffers, so the differences above are those of \<open>size_t\<close>.\<close>

definition io_ok :: "conn_io \<Rightarrow> bool" where
  "io_ok io \<longleftrightarrow> readOffset io \<le> length (readBuffer io) \<and> writeOffset io \<le> length (writeBuffer io)"

definition append_read :: "bytes \<Rightarrow> conn_io \<Rightarrow> conn_io" where
  "append_read bs io = io\<lparr>readBuffer := readBuffer io @ bs\<rparr>"

section \<open>The interface of a lazily erased buffer\<close>

locale byte_queue =
  fixes content :: "'s \<Rightarrow> bytes"
    and valid :: "'s \<Rightarrow> bool"
    and size_of :: "'s \<Rightarrow> nat"
    and enq :: "bytes \<Rightarrow> 's \<Rightarrow> 's"
    and deq :: "nat \<Rightarrow> 's \<Rightarrow> 's"
  assumes size_of: "valid s \<Longrightarrow> size_of s = length (content s)"
    and content_enq: "valid s \<Longrightarrow> content (enq bs s) = content s @ bs"
    and valid_enq: "valid s \<Longrightarrow> valid (enq bs s)"
    and content_deq: "valid s \<Longrightarrow> n \<le> length (content s) \<Longrightarrow> content (deq n s) = drop n (content s)"
    and valid_deq: "valid s \<Longrightarrow> n \<le> length (content s) \<Longrightarrow> valid (deq n s)"
begin

text \<open>Any run of additions and removals that never removes more than is there.\<close>

fun run :: "(bytes + nat) list \<Rightarrow> 's \<Rightarrow> 's" where
  "run [] s = s"
| "run (Inl bs # ops) s = run ops (enq bs s)"
| "run (Inr n # ops) s = run ops (deq n s)"

fun added :: "(bytes + nat) list \<Rightarrow> bytes" where
  "added [] = []"
| "added (Inl bs # ops) = bs @ added ops"
| "added (Inr n # ops) = added ops"

fun removed :: "(bytes + nat) list \<Rightarrow> nat" where
  "removed [] = 0"
| "removed (Inl bs # ops) = removed ops"
| "removed (Inr n # ops) = n + removed ops"

fun covered :: "nat \<Rightarrow> (bytes + nat) list \<Rightarrow> bool" where
  "covered k [] = True"
| "covered k (Inl bs # ops) = covered (k + length bs) ops"
| "covered k (Inr n # ops) = (n \<le> k \<and> covered (k - n) ops)"

lemma fifo:
  "valid s \<Longrightarrow> covered (size_of s) ops \<Longrightarrow>
     valid (run ops s) \<and> content (run ops s) = drop (removed ops) (content s @ added ops)"
proof (induction ops arbitrary: s rule: added.induct)
  case (2 bs ops)
  then show ?case by (simp add: size_of content_enq valid_enq)
next
  case (3 n ops)
  then have n: "n \<le> length (content s)" by (simp add: size_of)
  then have d: "content (deq n s) = drop n (content s)" "valid (deq n s)"
    using "3.prems"(1) by (simp_all add: content_deq valid_deq)
  have "drop n (content s) @ added ops = drop n (content s @ added ops)" using n by simp
  then show ?case using "3.IH" [OF d(2)] "3.prems" d n
    by (simp add: size_of add.commute)
qed simp

lemma size_deq: "valid s \<Longrightarrow> n \<le> size_of s \<Longrightarrow> size_of (deq n s) = size_of s - n"
  by (simp add: size_of content_deq valid_deq)

lemma size_enq: "valid s \<Longrightarrow> size_of (enq bs s) = size_of s + length bs"
  by (simp add: size_of content_enq valid_enq)

end

lemma erase_read_view: "readView (eraseFromReadBuffer n io) = drop n (readView io)"
  by (simp add: eraseFromReadBuffer_def readView_def Let_def add.commute)

lemma erase_write_view: "writeView (eraseFromWriteBuffer n io) = drop n (writeView io)"
  by (simp add: eraseFromWriteBuffer_def writeView_def Let_def add.commute)

lemma erase_read_ok: "io_ok io \<Longrightarrow> io_ok (eraseFromReadBuffer n io)"
  by (auto simp: eraseFromReadBuffer_def io_ok_def Let_def)

lemma erase_write_ok: "io_ok io \<Longrightarrow> io_ok (eraseFromWriteBuffer n io)"
  by (auto simp: eraseFromWriteBuffer_def io_ok_def Let_def)

interpretation rq: byte_queue readView io_ok getReadBufferSize append_read eraseFromReadBuffer
  by unfold_locales
     (auto simp: erase_read_view erase_read_ok, auto simp: readView_def getReadBufferSize_def append_read_def io_ok_def)

interpretation wq: byte_queue writeView io_ok getWriteBufferSize enqueue eraseFromWriteBuffer
  by unfold_locales
     (auto simp: erase_write_view erase_write_ok, auto simp: writeView_def getWriteBufferSize_def enqueue_def io_ok_def)

section \<open>Reading\<close>

datatype read_result = DATA | CLOSED | WOULD_BLOCK | BUFFER_LIMIT_EXCEEDED | READ_ERROR | READ_TIMED_OUT

text \<open>
  The loop of \<open>drainIntoReadBuffer\<close>, with its variable \<open>gotData\<close>. On \<open>CLOSED\<close> and \<open>ERROR\<close>
  the code returns before it shrinks the buffer again, so the room it made stays, zero-filled.
\<close>

function drain_loop :: "bool \<Rightarrow> nat \<Rightarrow> nat \<Rightarrow> conn_io \<Rightarrow> read_result \<times> conn_io" where
  "drain_loop gotData targetSize maxBufferSize io =
     (let currentSize = getReadBufferSize io in
      if currentSize \<ge> maxBufferSize then (BUFFER_LIMIT_EXCEEDED, io)
      else if currentSize \<ge> targetSize then (DATA, io)
      else
        let spaceToAllow = min (maxBufferSize - currentSize) (targetSize - currentSize) in
        (case receive spaceToAllow (rx io) of
           (RcvData bs, rx') \<Rightarrow>
             drain_loop True targetSize maxBufferSize (io\<lparr>readBuffer := readBuffer io @ bs, rx := rx'\<rparr>)
         | (RcvWouldBlock, rx') \<Rightarrow> (if gotData then DATA else WOULD_BLOCK, io\<lparr>rx := rx'\<rparr>)
         | (RcvClosed, rx') \<Rightarrow>
             (CLOSED, io\<lparr>readBuffer := readBuffer io @ replicate spaceToAllow NUL, rx := rx'\<rparr>)
         | (RcvError, rx') \<Rightarrow>
             (READ_ERROR, io\<lparr>readBuffer := readBuffer io @ replicate spaceToAllow NUL, rx := rx'\<rparr>)))"
  by pat_completeness auto
termination
  by (relation "measure (\<lambda>(g, t, m, io). rx_size (rx io))") (auto dest!: sym [of "(RcvData _, _)"] receive_data)

declare drain_loop.simps [simp del]

definition drainIntoReadBuffer :: "nat \<Rightarrow> nat \<Rightarrow> conn_io \<Rightarrow> read_result \<times> conn_io" where
  "drainIntoReadBuffer targetSize maxBufferSize io = drain_loop False targetSize maxBufferSize io"

text \<open>Suspension until the socket is readable: \<open>Executor::waitForRead\<close>.\<close>

definition waitForRead :: "conn_io \<Rightarrow> conn_io" where
  "waitForRead io = (case wait_rx (rx io) of (b, rx') \<Rightarrow> io\<lparr>rx := rx', tl_timed_out := b\<rparr>)"

definition waitForWrite :: "conn_io \<Rightarrow> conn_io" where
  "waitForWrite io = (case wait_tx (tx io) of (b, tx') \<Rightarrow> io\<lparr>tx := tx', tl_timed_out := b\<rparr>)"

text \<open>\<open>co_await io.read(targetSize, maxBufferSize)\<close>: the three methods of \<open>ReadDataAwaitable\<close>.\<close>

definition io_read :: "nat \<Rightarrow> nat \<Rightarrow> conn_io \<Rightarrow> read_result \<times> conn_io" where
  "io_read targetSize maxBufferSize io =
     (let targetBytes = getReadBufferSize io + targetSize;
          (result, io1) = drainIntoReadBuffer targetBytes maxBufferSize io in
      if result \<noteq> WOULD_BLOCK then (result, io1)
      else
        let io2 = waitForRead io1 in
        if tl_timed_out io2 then (READ_TIMED_OUT, io2)
        else drainIntoReadBuffer targetBytes maxBufferSize io2)"

text \<open>What one attempt does, for every outcome.\<close>

definition read_step :: "nat \<Rightarrow> nat \<Rightarrow> conn_io \<Rightarrow> read_result \<times> conn_io \<Rightarrow> bool" where
  "read_step t m io res \<longleftrightarrow>
     (let io' = snd res in
      io_ok io' \<and> prefix (readView io) (readView io')
      \<and> writeView io' = writeView io \<and> sent io' = sent io \<and> tx io' = tx io
      \<and> rx_size (rx io') \<le> rx_size (rx io)
      \<and> length (readView io') \<le> max (length (readView io)) (min t m)
      \<and> (fst res \<notin> {CLOSED, READ_ERROR} \<longrightarrow>
           readView io' @ rx_data (rx io') = readView io @ rx_data (rx io)))"

lemma readView_append:
  "io_ok io \<Longrightarrow> readView (io\<lparr>readBuffer := readBuffer io @ bs, rx := es\<rparr>) = readView io @ bs"
  by (simp add: readView_def io_ok_def)

lemma length_readView: "getReadBufferSize io = length (readView io)"
  by (simp add: readView_def getReadBufferSize_def)

lemma length_writeView: "getWriteBufferSize io = length (writeView io)"
  by (simp add: writeView_def getWriteBufferSize_def)

lemma read_step_refl: "io_ok io \<Longrightarrow> read_step t m io (r, io)"
  by (simp add: read_step_def Let_def)

lemma read_step_trans:
  assumes "read_step t m io (DATA, io1)" "read_step t m io1 (r, io2)"
  shows "read_step t m io (r, io2)"
proof -
  have "length (readView io2) \<le> max (length (readView io)) (min t m)"
    using assms by (auto simp: read_step_def Let_def)
  then show ?thesis using assms unfolding read_step_def Let_def
    by (auto intro: prefix_order.trans)
qed

lemma drain_loop_step: "io_ok io \<Longrightarrow> read_step t m io (drain_loop g t m io)"
proof (induction g t m io rule: drain_loop.induct)
  case (1 g t m io)
  let ?cur = "getReadBufferSize io"
  let ?k = "min (m - ?cur) (t - ?cur)"
  show ?case
  proof (cases "?cur \<ge> m \<or> ?cur \<ge> t")
    case True
    then show ?thesis using "1.prems"
      by (auto simp: drain_loop.simps [of g t m io] Let_def read_step_refl)
  next
    case False
    obtain rr es where r: "receive ?k (rx io) = (rr, es)" by fastforce
    show ?thesis
    proof (cases rr)
      case (RcvData bs)
      let ?io = "io\<lparr>readBuffer := readBuffer io @ bs, rx := es\<rparr>"
      note d = receive_data [OF r [unfolded RcvData]]
      have ok: "io_ok ?io" using "1.prems" by (simp add: io_ok_def)
      have k: "?k \<le> min t m - ?cur" by auto
      have "length (readView ?io) \<le> max (length (readView io)) (min t m)"
        using d k False by (simp add: readView_append [OF "1.prems"] length_readView le_max_iff_disj) linarith
      then have s: "read_step t m io (DATA, ?io)"
        using "1.prems" ok d
        by (simp add: read_step_def readView_append Let_def writeView_def)
      have "read_step t m ?io (drain_loop True t m ?io)"
        using "1.IH" [OF refl _ _ refl r [symmetric] RcvData] ok False by auto
      then have "read_step t m io (drain_loop True t m ?io)"
        using read_step_trans [OF s] by (cases "drain_loop True t m ?io") auto
      then show ?thesis using False r RcvData
        by (simp add: drain_loop.simps [of g t m io] Let_def)
    next
      case RcvWouldBlock
      then show ?thesis using False r "1.prems" receive_would_block [of ?k "rx io" es]
        by (auto simp: drain_loop.simps [of g t m io] Let_def read_step_def readView_def writeView_def io_ok_def)
    next
      case RcvClosed
      then show ?thesis using False r "1.prems" receive_end [OF r]
        by (auto simp: drain_loop.simps [of g t m io] Let_def read_step_def readView_append writeView_def
            length_readView) (auto simp: io_ok_def)
    next
      case RcvError
      then show ?thesis using False r "1.prems" receive_end [OF r]
        by (auto simp: drain_loop.simps [of g t m io] Let_def read_step_def readView_append writeView_def
            length_readView) (auto simp: io_ok_def)
    qed
  qed
qed

lemma drain_step: "io_ok io \<Longrightarrow> read_step t m io (drainIntoReadBuffer t m io)"
  by (simp add: drainIntoReadBuffer_def drain_loop_step)

lemma drain_loop_size: "drain_loop g t m io = (r, io') \<Longrightarrow> rx_size (rx io') \<le> rx_size (rx io)"
proof (induction g t m io rule: drain_loop.induct)
  case (1 g t m io)
  let ?cur = "getReadBufferSize io"
  let ?k = "min (m - ?cur) (t - ?cur)"
  show ?case
  proof (cases "?cur \<ge> m \<or> ?cur \<ge> t")
    case True
    then show ?thesis using "1.prems"
      by (auto simp: drain_loop.simps [of g t m io] Let_def split: if_splits)
  next
    case False
    obtain rr es where rcv: "receive ?k (rx io) = (rr, es)" by fastforce
    show ?thesis
    proof (cases rr)
      case (RcvData bs)
      let ?io = "io\<lparr>readBuffer := readBuffer io @ bs, rx := es\<rparr>"
      have "drain_loop True t m ?io = (r, io')"
        using "1.prems" False rcv RcvData by (simp add: drain_loop.simps [of g t m io] Let_def)
      then have "rx_size (rx io') \<le> rx_size (rx ?io)"
        using "1.IH" [OF refl _ _ refl rcv [symmetric] RcvData] False by auto
      then show ?thesis using receive_data [OF rcv [unfolded RcvData]] by simp
    qed (use "1.prems" False rcv receive_would_block [of ?k "rx io" es] receive_end [OF rcv]
        in \<open>auto simp: drain_loop.simps [of g t m io] Let_def split: if_splits\<close>)
  qed
qed

text \<open>Outcomes: \<open>DATA\<close> comes with progress, \<open>WOULD_BLOCK\<close> consumes a pause or ends in a wait.\<close>

lemma drain_loop_result:
  "drain_loop g t m io = (r, io') \<Longrightarrow>
     r \<noteq> READ_TIMED_OUT
     \<and> (r = DATA \<longrightarrow> g \<or> getReadBufferSize io \<ge> t \<or> rx_size (rx io') < rx_size (rx io))
     \<and> (r = WOULD_BLOCK \<longrightarrow> \<not> g \<and> (rx io' = [] \<or> hd (rx io') = RxTimeout \<or> rx_size (rx io') < rx_size (rx io)))
     \<and> (r = BUFFER_LIMIT_EXCEEDED \<longrightarrow> m \<le> getReadBufferSize io')
     \<and> (rx_ends (rx io') \<longrightarrow> rx_ends (rx io)) \<and> (r = CLOSED \<or> r = READ_ERROR \<longrightarrow> rx_ends (rx io))"
proof (induction g t m io rule: drain_loop.induct)
  case (1 g t m io)
  let ?cur = "getReadBufferSize io"
  let ?k = "min (m - ?cur) (t - ?cur)"
  show ?case
  proof (cases "?cur \<ge> m \<or> ?cur \<ge> t")
    case True
    then show ?thesis using "1.prems"
      by (auto simp: drain_loop.simps [of g t m io] Let_def split: if_splits)
  next
    case False
    then have k: "?k \<noteq> 0" by simp
    obtain rr es where rcv: "receive ?k (rx io) = (rr, es)" by fastforce
    note ends = receive_ends [OF rcv]
    show ?thesis
    proof (cases rr)
      case (RcvData bs)
      let ?io = "io\<lparr>readBuffer := readBuffer io @ bs, rx := es\<rparr>"
      note d = receive_data [OF rcv [unfolded RcvData]]
      have l: "drain_loop True t m ?io = (r, io')"
        using "1.prems" False rcv RcvData by (simp add: drain_loop.simps [of g t m io] Let_def)
      have "rx_size (rx io') \<le> rx_size (rx ?io)" using drain_loop_size [OF l] .
      then show ?thesis using "1.IH" [OF refl _ _ refl rcv [symmetric] RcvData l] False d ends by auto
    next
      case RcvWouldBlock
      then show ?thesis using "1.prems" False rcv ends receive_would_block [of ?k "rx io" es]
        by (auto simp: drain_loop.simps [of g t m io] Let_def split: if_splits)
    qed (use "1.prems" False rcv ends k in \<open>auto simp: drain_loop.simps [of g t m io] Let_def\<close>)
  qed
qed

lemma io_read_step: "io_ok io \<Longrightarrow> read_step (length (readView io) + t) m io (io_read t m io)"
proof -
  assume ok: "io_ok io"
  let ?T = "getReadBufferSize io + t"
  obtain r io1 where d: "drainIntoReadBuffer ?T m io = (r, io1)" by fastforce
  have s: "read_step ?T m io (r, io1)" using drain_step [OF ok, of ?T m] d by simp
  show ?thesis
  proof (cases "r = WOULD_BLOCK")
    case False
    then show ?thesis using d s by (simp add: io_read_def Let_def length_readView)
  next
    case True
    let ?io = "waitForRead io1"
    have w: "rx_data (rx ?io) = rx_data (rx io1)" "rx_size (rx ?io) \<le> rx_size (rx io1)"
      by (auto simp: waitForRead_def wait_rx_data split: prod.splits)
    have v: "readView ?io = readView io1" "writeView ?io = writeView io1" "sent ?io = sent io1"
      "tx ?io = tx io1" "io_ok ?io = io_ok io1"
      by (auto simp: waitForRead_def readView_def writeView_def io_ok_def split: prod.splits)
    have s1: "read_step ?T m io (DATA, ?io)" "read_step ?T m io (READ_TIMED_OUT, ?io)"
      using s w v True by (auto simp: read_step_def Let_def)
    then have "io_ok ?io" by (simp add: read_step_def Let_def)
    then have "read_step ?T m io (drainIntoReadBuffer ?T m ?io)"
      using read_step_trans [OF s1(1)] drain_step [of ?io ?T m] by (cases "drainIntoReadBuffer ?T m ?io") auto
    then show ?thesis using d s1(2) True by (simp add: io_read_def Let_def length_readView)
  qed
qed

text \<open>A read that asks for something and neither fails nor hits the limit makes progress.\<close>

lemma io_read_result:
  assumes "io_read t m io = (r, io')" "0 < t"
  shows "(r = DATA \<or> r = WOULD_BLOCK \<longrightarrow> rx_size (rx io') < rx_size (rx io))
    \<and> (r = BUFFER_LIMIT_EXCEEDED \<longrightarrow> m \<le> getReadBufferSize io')
    \<and> (rx_ends (rx io') \<longrightarrow> rx_ends (rx io)) \<and> (r = CLOSED \<or> r = READ_ERROR \<longrightarrow> rx_ends (rx io))"
proof -
  let ?T = "getReadBufferSize io + t"
  obtain r1 io1 where d: "drain_loop False ?T m io = (r1, io1)" by fastforce
  note res = drain_loop_result [OF d]
  show ?thesis
  proof (cases "r1 = WOULD_BLOCK")
    case False
    then show ?thesis using assms d res by (auto simp: io_read_def Let_def drainIntoReadBuffer_def)
  next
    case True
    obtain b es where w: "wait_rx (rx io1) = (b, es)" by fastforce
    then have io2: "waitForRead io1 = io1\<lparr>rx := es, tl_timed_out := b\<rparr>" by (simp add: waitForRead_def)
    have ends: "rx_ends es \<longrightarrow> rx_ends (rx io)" using wait_rx_ends [OF w] res by blast
    show ?thesis
    proof (cases b)
      case True
      then have r: "r = READ_TIMED_OUT" "io' = waitForRead io1"
        using assms d io2 \<open>r1 = WOULD_BLOCK\<close> by (auto simp: io_read_def Let_def drainIntoReadBuffer_def)
      have "rx io' = es" by (simp add: r io2)
      then show ?thesis using ends r by simp
    next
      case False
      then have es: "es = rx io1" "es \<noteq> []" "hd es \<noteq> RxTimeout" using wait_rx_ready [of "rx io1" es] w by auto
      then have less: "rx_size es < rx_size (rx io)" using res True by auto
      have d2: "drain_loop False ?T m (io1\<lparr>rx := es, tl_timed_out := b\<rparr>) = (r, io')"
        using assms(1) d io2 True False by (simp add: io_read_def Let_def drainIntoReadBuffer_def)
      show ?thesis using drain_loop_result [OF d2] drain_loop_size [OF d2] less ends by auto
    qed
  qed
qed

lemma drain_loop_blocked: "drain_loop g t m io = (WOULD_BLOCK, io') \<Longrightarrow> \<not> g \<and> readView io' = readView io
    \<and> rx_data (rx io') = rx_data (rx io)"
proof (cases "getReadBufferSize io \<ge> m \<or> getReadBufferSize io \<ge> t")
  case False
  let ?k = "min (m - getReadBufferSize io) (t - getReadBufferSize io)"
  assume d: "drain_loop g t m io = (WOULD_BLOCK, io')"
  obtain rr es where rcv: "receive ?k (rx io) = (rr, es)" by fastforce
  show ?thesis
  proof (cases rr)
    case (RcvData bs)
    then have "drain_loop True t m (io\<lparr>readBuffer := readBuffer io @ bs, rx := es\<rparr>) = (WOULD_BLOCK, io')"
      using d False rcv by (simp add: drain_loop.simps [of g t m io] Let_def)
    from drain_loop_result [OF this] show ?thesis by simp
  qed (use d False rcv receive_would_block [of ?k "rx io" es]
      in \<open>auto simp: drain_loop.simps [of g t m io] Let_def readView_def split: if_splits\<close>)
qed (auto simp: drain_loop.simps [of g t m io] Let_def split: if_splits)

text \<open>A script without timeouts and without an end of the connection: bytes in any segmentation.\<close>

definition calm :: "rx_event list \<Rightarrow> bool" where
  "calm es \<longleftrightarrow> (\<forall>e \<in> set es. e = RxPause \<or> (\<exists>bs. e = RxData bs))"

lemma calm_no_end: "calm es \<Longrightarrow> \<not> rx_ends es"
  by (auto simp: calm_def rx_ends_def)

lemma receive_calm: "receive k es = (r, es') \<Longrightarrow> calm es \<Longrightarrow> calm es'"
  by (induction k es rule: receive.induct) (auto simp: calm_def split: if_splits)

lemma wait_rx_calm: "wait_rx es = (b, es') \<Longrightarrow> calm es \<Longrightarrow> es' = es \<and> (b \<longrightarrow> es = [])"
  by (cases es rule: wait_rx.cases) (auto simp: calm_def)

lemma drain_loop_calm: "drain_loop g t m io = (r, io') \<Longrightarrow> calm (rx io) \<Longrightarrow> calm (rx io')"
proof (induction g t m io rule: drain_loop.induct)
  case (1 g t m io)
  show ?case
  proof (cases "getReadBufferSize io \<ge> m \<or> getReadBufferSize io \<ge> t")
    case True
    then show ?thesis using "1.prems" by (auto simp: drain_loop.simps [of g t m io] Let_def split: if_splits)
  next
    case False
    obtain rr es where rcv:
      "receive (min (m - getReadBufferSize io) (t - getReadBufferSize io)) (rx io) = (rr, es)" by fastforce
    have c: "calm es" using receive_calm [OF rcv] "1.prems" by blast
    show ?thesis
    proof (cases rr)
      case (RcvData bs)
      then have "drain_loop True t m (io\<lparr>readBuffer := readBuffer io @ bs, rx := es\<rparr>) = (r, io')"
        using "1.prems" False rcv by (simp add: drain_loop.simps [of g t m io] Let_def)
      then show ?thesis using "1.IH" [OF refl _ _ refl rcv [symmetric] RcvData] False c by auto
    qed (use "1.prems" False rcv c in \<open>auto simp: drain_loop.simps [of g t m io] Let_def\<close>)
  qed
qed

lemma io_read_calm:
  assumes "io_read t m io = (r, io')" "calm (rx io)" "0 < t"
  shows "calm (rx io') \<and> r \<notin> {CLOSED, READ_ERROR} \<and> (r = READ_TIMED_OUT \<longrightarrow> rx_data (rx io) = [])"
proof -
  let ?T = "getReadBufferSize io + t"
  obtain r1 io1 where d: "drain_loop False ?T m io = (r1, io1)" by fastforce
  have c1: "calm (rx io1)" using drain_loop_calm [OF d assms(2)] .
  obtain b es where w: "wait_rx (rx io1) = (b, es)" by fastforce
  note wc = wait_rx_calm [OF w c1]
  have no: "r \<notin> {CLOSED, READ_ERROR}"
    using io_read_result [OF assms(1,3)] calm_no_end [OF assms(2)] by auto
  show ?thesis
  proof (cases "r1 = WOULD_BLOCK")
    case False
    then show ?thesis using assms(1) d no c1 drain_loop_result [OF d]
      by (auto simp: io_read_def Let_def drainIntoReadBuffer_def)
  next
    case True
    note blocked = drain_loop_blocked [OF d [unfolded True]]
    show ?thesis
    proof (cases b)
      case True
      then show ?thesis using assms(1) d no c1 wc w blocked \<open>r1 = WOULD_BLOCK\<close>
        by (auto simp: io_read_def Let_def drainIntoReadBuffer_def waitForRead_def)
    next
      case False
      then have d2: "drain_loop False ?T m (io1\<lparr>rx := es, tl_timed_out := b\<rparr>) = (r, io')"
        using assms(1) d w True by (simp add: io_read_def Let_def drainIntoReadBuffer_def waitForRead_def)
      show ?thesis using drain_loop_calm [OF d2] drain_loop_result [OF d2] wc c1 no by auto
    qed
  qed
qed

lemma drain_loop_frame:
  "drain_loop g t m io = (r, io') \<Longrightarrow> tl_timed_out io' = tl_timed_out io \<and> writeBuffer io' = writeBuffer io \<and> writeOffset io' = writeOffset io
     \<and> r \<noteq> READ_TIMED_OUT"
proof (induction g t m io rule: drain_loop.induct)
  case (1 g t m io)
  obtain rr es where rcv:
    "receive (min (m - getReadBufferSize io) (t - getReadBufferSize io)) (rx io) = (rr, es)" by fastforce
  show ?case
  proof (cases "getReadBufferSize io \<ge> m \<or> getReadBufferSize io \<ge> t \<or> (\<forall>bs. rr \<noteq> RcvData bs)")
    case True
    then show ?thesis using "1.prems" rcv
      by (cases rr) (auto simp: drain_loop.simps [of g t m io] Let_def split: if_splits)
  next
    case False
    then obtain bs where bs: "rr = RcvData bs" by blast
    then have "drain_loop True t m (io\<lparr>readBuffer := readBuffer io @ bs, rx := es\<rparr>) = (r, io')"
      using "1.prems" False rcv by (simp add: drain_loop.simps [of g t m io] Let_def)
    then show ?thesis using "1.IH" [OF refl _ _ refl rcv [symmetric] bs] False by auto
  qed
qed

text \<open>A read that does not time out clears the flag if it waits, and never touches the write buffer.\<close>

lemma io_read_frame:
  assumes "io_read t m io = (r, io')" "r \<noteq> READ_TIMED_OUT"
  shows "(tl_timed_out io' \<longrightarrow> tl_timed_out io) \<and> writeBuffer io' = writeBuffer io \<and> writeOffset io' = writeOffset io"
proof -
  obtain r1 io1 where d: "drain_loop False (getReadBufferSize io + t) m io = (r1, io1)" by fastforce
  note f = drain_loop_frame [OF d]
  show ?thesis
  proof (cases "r1 = WOULD_BLOCK")
    case False
    then show ?thesis using assms d f by (simp add: io_read_def Let_def drainIntoReadBuffer_def)
  next
    case True
    have w: "writeBuffer (waitForRead io1) = writeBuffer io1" "writeOffset (waitForRead io1) = writeOffset io1" by (simp_all add: waitForRead_def split: prod.split)
    have "\<not> tl_timed_out (waitForRead io1)" using assms d True by (auto simp: io_read_def Let_def drainIntoReadBuffer_def)
    moreover from this have "drain_loop False (getReadBufferSize io + t) m (waitForRead io1) = (r, io')"
      using assms(1) d True by (simp add: io_read_def Let_def drainIntoReadBuffer_def)
    ultimately show ?thesis using drain_loop_frame f w by fastforce
  qed
qed

section \<open>Writing\<close>

text \<open>\<open>flushFromWriteBuffer\<close>; one event of the script per \<open>send\<close>.\<close>

function flushFromWriteBuffer :: "conn_io \<Rightarrow> bool \<times> conn_io" where
  "flushFromWriteBuffer io =
     (if \<not> hasPendingWrites io then (True, io)
      else
        (case send (writeView io) (tx io) of
           (None, tx') \<Rightarrow> (False, io\<lparr>tx := tx'\<rparr>)
         | (Some n, tx') \<Rightarrow>
             if n = 0 then (True, io\<lparr>tx := tx'\<rparr>)
             else flushFromWriteBuffer
               (eraseFromWriteBuffer n (io\<lparr>tx := tx', sent := sent io @ take n (writeView io)\<rparr>))))"
  by pat_completeness auto

lemma send_take:
  "send bs es = (Some n, es') \<Longrightarrow> n \<le> length bs \<and> (n \<noteq> 0 \<longrightarrow> length es' < length es)"
  by (cases "(bs, es)" rule: send.cases) auto

lemma tx_erase [simp]: "tx (eraseFromWriteBuffer n io) = tx io" "sent (eraseFromWriteBuffer n io) = sent io"
  "rx (eraseFromWriteBuffer n io) = rx io" "readView (eraseFromWriteBuffer n io) = readView io"
  "tl_timed_out (eraseFromWriteBuffer n io) = tl_timed_out io"
  by (simp_all add: eraseFromWriteBuffer_def Let_def readView_def)

termination flushFromWriteBuffer
  by (relation "measure (\<lambda>io. length (tx io))") (auto dest!: sym [of "(Some _, _)"] send_take)

declare flushFromWriteBuffer.simps [simp del]

lemma writeView_erased:
  "writeView (eraseFromWriteBuffer n (io\<lparr>tx := es, sent := u\<rparr>)) = drop n (writeView io)"
  by (simp add: erase_write_view) (simp add: writeView_def)

lemma readView_sent: "readView (io\<lparr>tx := es, sent := u\<rparr>) = readView io"
  by (simp add: readView_def)

lemma hasPendingWrites_view: "hasPendingWrites io \<longleftrightarrow> writeView io \<noteq> []"
  by (simp add: hasPendingWrites_def length_writeView)

text \<open>What leaves the buffer is what the kernel takes, in order; reading is not affected.\<close>

definition write_step :: "conn_io \<Rightarrow> conn_io \<Rightarrow> bool" where
  "write_step io io' \<longleftrightarrow>
     sent io' @ writeView io' = sent io @ writeView io \<and> prefix (sent io) (sent io')
     \<and> readView io' = readView io \<and> rx io' = rx io
     \<and> (io_ok io \<longrightarrow> io_ok io') \<and> length (tx io') \<le> length (tx io)"

lemma write_step_refl: "write_step io io"
  by (simp add: write_step_def)

lemma write_step_trans: "write_step io io1 \<Longrightarrow> write_step io1 io2 \<Longrightarrow> write_step io io2"
  unfolding write_step_def by (auto intro: prefix_order.trans)

lemma flush_step:
  "flushFromWriteBuffer io = (b, io') \<Longrightarrow>
     write_step io io' \<and> tl_timed_out io' = tl_timed_out io \<and>
     (b \<longrightarrow> hasPendingWrites io' \<longrightarrow> tx io' = [] \<or> hd (tx io') = TxTimeout \<or> length (tx io') < length (tx io))"
proof (induction io rule: flushFromWriteBuffer.induct)
  case (1 io)
  show ?case
  proof (cases "hasPendingWrites io")
    case False
    then show ?thesis using "1.prems" by (simp add: flushFromWriteBuffer.simps [of io] write_step_refl)
  next
    case True
    obtain sn es where sn: "send (writeView io) (tx io) = (sn, es)" by fastforce
    have len: "length es \<le> length (tx io)" and block: "sn = Some 0 \<longrightarrow> es = [] \<or> hd es = TxTimeout \<or> length es < length (tx io)"
      using sn by (cases "(writeView io, tx io)" rule: send.cases; auto)+
    have plain: "write_step io (io\<lparr>tx := es\<rparr>)"
      using len by (simp add: write_step_def writeView_def readView_def io_ok_def)
    show ?thesis
    proof (cases "\<exists>n. sn = Some n \<and> n \<noteq> 0")
      case True
      then obtain n where n: "sn = Some n" "n \<noteq> 0" by blast
      let ?io = "eraseFromWriteBuffer n (io\<lparr>tx := es, sent := sent io @ take n (writeView io)\<rparr>)"
      have st: "write_step io ?io"
        using len readView_sent by (auto simp: write_step_def writeView_erased intro!: erase_write_ok)
          (auto simp: io_ok_def)
      have l: "flushFromWriteBuffer ?io = (b, io')"
        using "1.prems" \<open>hasPendingWrites io\<close> sn n by (simp add: flushFromWriteBuffer.simps [of io])
      have less: "length es < length (tx io)" using send_take sn n by blast
      show ?thesis
        using "1.IH" [OF _ sn [symmetric] n l] \<open>hasPendingWrites io\<close> write_step_trans [OF st] less
        by (auto simp: write_step_def)
    next
      case False
      then show ?thesis using "1.prems" \<open>hasPendingWrites io\<close> sn plain block
        by (cases sn) (auto simp: flushFromWriteBuffer.simps [of io])
    qed
  qed
qed

datatype write_result = WOK | WERROR | WTIMED_OUT

text \<open>
  \<open>co_await io.write()\<close>: \<open>await_resume\<close> also runs when nothing was suspended, and then reads a
  \<open>tl_timed_out\<close> that belongs to an earlier wait of the same resumption.
\<close>

definition io_write :: "conn_io \<Rightarrow> write_result \<times> conn_io" where
  "io_write io =
     (let (ok, io1) = flushFromWriteBuffer io in
      if \<not> ok then (WERROR, io1)
      else
        let io2 = (if hasPendingWrites io1 then waitForWrite io1 else io1) in
        if tl_timed_out io2 then (WTIMED_OUT, io2)
        else
          let (ok', io3) = flushFromWriteBuffer io2 in
          (if ok' then WOK else WERROR, io3))"

lemma wait_write_step: "write_step io (waitForWrite io)"
  by (cases "tx io" rule: wait_tx.cases)
     (auto simp: waitForWrite_def write_step_def writeView_def readView_def io_ok_def)

lemma io_write_step: "io_write io = (r, io') \<Longrightarrow> write_step io io'"
proof -
  assume w: "io_write io = (r, io')"
  obtain b io1 where f: "flushFromWriteBuffer io = (b, io1)" by fastforce
  let ?io2 = "if hasPendingWrites io1 then waitForWrite io1 else io1"
  obtain b' io3 where f': "flushFromWriteBuffer ?io2 = (b', io3)" by fastforce
  have s1: "write_step io io1" using flush_step [OF f] by blast
  have s2: "write_step io ?io2" using write_step_trans [OF s1] wait_write_step s1 by auto
  have s3: "write_step io io3" using write_step_trans [OF s2] flush_step [OF f'] by blast
  show ?thesis using w f f' s1 s2 s3 by (auto simp: io_write_def Let_def split: if_splits)
qed

lemma io_write_progress:
  assumes "io_write io = (WOK, io')" "hasPendingWrites io'"
  shows "length (tx io') < length (tx io)"
proof -
  obtain b io1 where f: "flushFromWriteBuffer io = (b, io1)" by fastforce
  have b: "b" using assms(1) f by (auto simp: io_write_def split: if_splits)
  show ?thesis
  proof (cases "hasPendingWrites io1")
    case False
    then have "io' = io1" using assms f b
      by (auto simp: io_write_def Let_def flushFromWriteBuffer.simps [of io1] split: if_splits)
    then show ?thesis using False assms(2) by simp
  next
    case True
    obtain t es where w: "wait_tx (tx io1) = (t, es)" by fastforce
    have t: "\<not> t" using assms f b True w
      by (auto simp: io_write_def Let_def waitForWrite_def split: if_splits prod.splits)
    then have es: "es = tx io1" "es \<noteq> []" "hd es \<noteq> TxTimeout"
      using w by (cases "tx io1" rule: wait_tx.cases; auto)+
    have less: "length (tx io1) < length (tx io)" using flush_step [OF f] b True es by auto
    obtain b' io3 where f': "flushFromWriteBuffer (io1\<lparr>tx := es, tl_timed_out := t\<rparr>) = (b', io3)" by fastforce
    then have "io' = io3" using assms f b True w t
      by (auto simp: io_write_def Let_def waitForWrite_def split: if_splits)
    then show ?thesis using flush_step [OF f'] less es by (auto simp: write_step_def)
  qed
qed

text \<open>\<open>while (io.hasPendingWrites()) if (co_await io.write() != OK) co_return\<close>.\<close>

function writeAll :: "conn_io \<Rightarrow> write_result \<times> conn_io" where
  "writeAll io =
     (if \<not> hasPendingWrites io then (WOK, io)
      else
        let (r, io') = io_write io in
        if r \<noteq> WOK then (r, io') else writeAll io')"
  by pat_completeness auto
termination
  by (relation "measure (\<lambda>io. if hasPendingWrites io then Suc (length (tx io)) else 0)")
     (auto dest!: sym [of "(WOK, _)"] io_write_progress)

declare writeAll.simps [simp del]

lemma writeAll_step:
  "writeAll io = (r, io') \<Longrightarrow> write_step io io' \<and> (r = WOK \<longrightarrow> writeView io' = [])"
proof (induction io rule: writeAll.induct)
  case (1 io)
  obtain w io1 where w: "io_write io = (w, io1)" by fastforce
  have s: "write_step io io1" using io_write_step w by blast
  show ?case
  proof (cases "hasPendingWrites io \<and> w = WOK")
    case True
    then have "writeAll io1 = (r, io')" using "1.prems" w by (simp add: writeAll.simps [of io])
    then have "write_step io1 io' \<and> (r = WOK \<longrightarrow> writeView io' = [])"
      using "1.IH" [OF _ w [symmetric] refl] True by simp
    then show ?thesis using write_step_trans [OF s] by blast
  next
    case False
    then show ?thesis using "1.prems" w s
      by (auto simp: writeAll.simps [of io] write_step_refl hasPendingWrites_view split: if_splits)
  qed
qed

text \<open>A peer that takes everything: the loop ends with an empty buffer.\<close>

fun room :: "tx_event list \<Rightarrow> nat" where
  "room [] = 0"
| "room (TxTake n # r) = n + room r"
| "room (e # r) = 0"

definition accepts :: "nat \<Rightarrow> conn_io \<Rightarrow> bool" where
  "accepts k io \<longleftrightarrow> set (tx io) \<subseteq> range TxTake \<and> length (writeView io) + k \<le> room (tx io) \<and> \<not> tl_timed_out io"

lemma accepts_wait: "accepts 0 io \<Longrightarrow> hasPendingWrites io \<Longrightarrow> waitForWrite io = io"
  by (cases "tx io" rule: wait_tx.cases) (auto simp: accepts_def waitForWrite_def hasPendingWrites_view)

lemma flush_accepts: "flushFromWriteBuffer io = (b, io') \<Longrightarrow> accepts 0 io \<Longrightarrow> b \<and> accepts 0 io'"
proof (induction io rule: flushFromWriteBuffer.induct)
  case (1 io)
  show ?case
  proof (cases "hasPendingWrites io")
    case False
    then show ?thesis using "1.prems" by (simp add: flushFromWriteBuffer.simps [of io])
  next
    case True
    then obtain n es where tx: "tx io = TxTake n # es"
      using "1.prems"(2) by (cases "tx io") (auto simp: accepts_def hasPendingWrites_view)
    let ?k = "min n (length (writeView io))"
    have sn: "send (writeView io) (tx io) = (Some ?k, es)" by (simp add: tx)
    show ?thesis
    proof (cases "?k = 0")
      case True
      then show ?thesis using "1.prems" \<open>hasPendingWrites io\<close> sn tx
        by (auto simp: flushFromWriteBuffer.simps [of io] accepts_def writeView_def hasPendingWrites_view)
    next
      case False
      let ?io = "eraseFromWriteBuffer ?k (io\<lparr>tx := es, sent := sent io @ take ?k (writeView io)\<rparr>)"
      have "accepts 0 ?io" using "1.prems"(2) tx by (auto simp: accepts_def writeView_erased)
      moreover have "flushFromWriteBuffer ?io = (b, io')"
        using "1.prems"(1) True sn False by (simp add: flushFromWriteBuffer.simps [of io])
      ultimately show ?thesis using "1.IH" [OF _ sn [symmetric] refl] True False by simp
    qed
  qed
qed

lemma io_write_accepts: "io_write io = (r, io') \<Longrightarrow> accepts 0 io \<Longrightarrow> r = WOK \<and> accepts 0 io'"
proof -
  assume w: "io_write io = (r, io')" and a: "accepts 0 io"
  obtain b io1 where f: "flushFromWriteBuffer io = (b, io1)" by fastforce
  note f1 = flush_accepts [OF f a]
  let ?io2 = "if hasPendingWrites io1 then waitForWrite io1 else io1"
  have io2: "?io2 = io1" using accepts_wait f1 by simp
  obtain b' io3 where f': "flushFromWriteBuffer io1 = (b', io3)" by fastforce
  show ?thesis using w f f1 f' io2 flush_accepts [OF f'] by (auto simp: io_write_def Let_def accepts_def)
qed

lemma writeAll_accepts: "accepts 0 io \<Longrightarrow> fst (writeAll io) = WOK"
proof (induction io rule: writeAll.induct)
  case (1 io)
  obtain r io1 where w: "io_write io = (r, io1)" by fastforce
  then show ?case using "1.IH" [OF _ w [symmetric] refl] io_write_accepts [OF w] "1.prems"
    by (simp add: writeAll.simps [of io])
qed

text \<open>A peer that takes the whole buffer at once: one event, and no wait.\<close>

lemma flush_done: "writeView io = [] \<Longrightarrow> flushFromWriteBuffer io = (True, io)"
  by (simp add: flushFromWriteBuffer.simps [of io] hasPendingWrites_view)

lemma writeAll_once:
  assumes "tx io = TxTake n # es" "length (writeView io) \<le> n" "\<not> tl_timed_out io" "writeView io \<noteq> []"
    "writeAll io = (r, io')"
  shows "tx io' = es \<and> \<not> tl_timed_out io'"
proof -
  define io1 where "io1 = eraseFromWriteBuffer (length (writeView io)) (io\<lparr>tx := es, sent := sent io @ writeView io\<rparr>)"
  have v: "writeView io1 = []" by (simp add: io1_def writeView_erased)
  have sn: "send (writeView io) (tx io) = (Some (length (writeView io)), es)" using assms(2) by (simp add: assms(1) min_def)
  have f: "flushFromWriteBuffer io = (True, io1)"
    using assms(4) sn flush_done [OF v] by (simp add: flushFromWriteBuffer.simps [of io] hasPendingWrites_view io1_def)
  have w: "io_write io = (WOK, io1)"
    using f v flush_done [OF v] assms(3) by (simp add: io_write_def Let_def hasPendingWrites_view) (simp add: io1_def)
  have "writeAll io = (WOK, io1)"
    using assms(4) v w by (simp add: writeAll.simps [of io] writeAll.simps [of io1] hasPendingWrites_view)
  then show ?thesis using assms(3,5) by (simp add: io1_def)
qed

text \<open>The written front never exceeds half of the buffer, so a buffer that was written out is empty again.\<close>

definition half :: "conn_io \<Rightarrow> bool" where
  "half io \<longleftrightarrow> writeOffset io \<le> length (writeBuffer io) div 2"

lemma half_erase: "half (eraseFromWriteBuffer n io)"
  by (simp add: half_def eraseFromWriteBuffer_def Let_def)

lemma half_append: "half io \<Longrightarrow> half (io\<lparr>writeBuffer := writeBuffer io @ bs\<rparr>)"
  by (simp add: half_def)

lemma half_empty: "half io \<Longrightarrow> writeView io = [] \<Longrightarrow> writeBuffer io = []"
proof -
  assume "half io" "writeView io = []"
  then have "length (writeBuffer io) \<le> length (writeBuffer io) div 2"
    unfolding half_def writeView_def drop_eq_Nil by linarith
  then have "length (writeBuffer io) = 0" by linarith
  then show ?thesis by simp
qed

lemma flush_half: "flushFromWriteBuffer io = (b, io') \<Longrightarrow> half io \<Longrightarrow> half io'"
proof (induction io rule: flushFromWriteBuffer.induct)
  case (1 io)
  obtain sn es where sn: "send (writeView io) (tx io) = (sn, es)" by fastforce
  have h: "half (io\<lparr>tx := es\<rparr>)" using "1.prems"(2) by (simp add: half_def)
  show ?case
  proof (cases "hasPendingWrites io \<and> (\<exists>n. sn = Some n \<and> n \<noteq> 0)")
    case True
    then obtain n where n: "sn = Some n" "n \<noteq> 0" by blast
    then show ?thesis using "1.IH" [OF _ sn [symmetric] n] "1.prems"(1) True sn half_erase
      by (simp add: flushFromWriteBuffer.simps [of io])
  next
    case False
    then show ?thesis using "1.prems" sn h
      by (cases sn) (auto simp: flushFromWriteBuffer.simps [of io] split: if_splits)
  qed
qed

lemma half_wait: "half (waitForWrite io) = half io"
  by (simp add: waitForWrite_def half_def split: prod.split)

lemma io_write_half: "io_write io = (r, io') \<Longrightarrow> half io \<Longrightarrow> half io'"
  by (auto simp: io_write_def Let_def half_wait dest!: flush_half split: if_splits prod.splits)

lemma writeAll_half: "writeAll io = (r, io') \<Longrightarrow> half io \<Longrightarrow> half io'"
proof (induction io rule: writeAll.induct)
  case (1 io)
  obtain w io1 where w: "io_write io = (w, io1)" by fastforce
  show ?case using "1.IH" [OF _ w [symmetric] refl] io_write_half [OF w] "1.prems" w
    by (auto simp: writeAll.simps [of io] split: if_splits)
qed

section \<open>Closing and sending files\<close>

function discard_loop :: "nat \<Rightarrow> nat \<Rightarrow> rx_event list \<Rightarrow> bool \<times> rx_event list" where
  "discard_loop maxBytes bytesRead es =
     (case receive 4096 es of
        (RcvData bs, es') \<Rightarrow>
          if bytesRead + length bs \<ge> maxBytes then (True, es')
          else discard_loop maxBytes (bytesRead + length bs) es'
      | (RcvWouldBlock, es') \<Rightarrow> (False, es')
      | (_, es') \<Rightarrow> (True, es'))"
  by pat_completeness auto
termination
  by (relation "measure (\<lambda>(m, n, es). rx_size es)") (auto dest!: sym [of "(RcvData _, _)"] receive_data)

declare discard_loop.simps [simp del]

definition drainDiscard :: "nat \<Rightarrow> conn_io \<Rightarrow> bool \<times> conn_io" where
  "drainDiscard maxBytes io =
     (case discard_loop maxBytes 0 (rx io) of (done, es) \<Rightarrow> (done, io\<lparr>rx := es\<rparr>))"

text \<open>\<open>co_await io.awaitClientFin(deadline, maxBytes)\<close>.\<close>

definition awaitClientFin :: "nat \<Rightarrow> conn_io \<Rightarrow> conn_io" where
  "awaitClientFin maxBytes io =
     (let (done, io1) = drainDiscard maxBytes io in
      if done then io1
      else
        let io2 = waitForRead io1 in
        if tl_timed_out io2 then io2 else snd (drainDiscard maxBytes io2))"

lemma discard_loop_bound:
  "discard_loop m n es = (d, es') \<Longrightarrow> n < m \<Longrightarrow>
     \<exists>bs. rx_data es = bs @ rx_data es' \<and> n + length bs < m + 4096"
proof (induction m n es rule: discard_loop.induct)
  case (1 m n es)
  obtain rr es1 where rcv: "receive 4096 es = (rr, es1)" by fastforce
  show ?case
  proof (cases rr)
    case (RcvData bs)
    note d = receive_data [OF rcv [unfolded RcvData]]
    show ?thesis
    proof (cases "n + length bs \<ge> m")
      case True
      then show ?thesis using "1.prems" rcv RcvData d by (auto simp: discard_loop.simps [of m n es])
    next
      case False
      then obtain bs' where "rx_data es1 = bs' @ rx_data es'" "n + length bs + length bs' < m + 4096"
        using "1.IH" [OF rcv [symmetric] RcvData] "1.prems" rcv RcvData
        by (auto simp: discard_loop.simps [of m n es])
      then show ?thesis using d by (intro exI [of _ "bs @ bs'"]) simp
    qed
  qed (use "1.prems" rcv receive_would_block [of 4096 es es1] receive_end [OF rcv]
      in \<open>auto simp: discard_loop.simps [of m n es]\<close>)
qed

text \<open>
  \<open>TcpStream::sendFile\<close> of \<open>count\<close> bytes from \<open>offset\<close>. A wait whose deadline passed is followed by
  another attempt, so a peer that never reads keeps the coroutine forever: then the value is \<open>None\<close>.
  \<open>Inl\<close> is the negated \<open>errno\<close>, \<open>Inr\<close> the number of bytes sent.
\<close>

datatype sendfile_result = SfAgain | SfError | SfSent nat

fun sendfile :: "nat \<Rightarrow> nat \<Rightarrow> tx_event list \<Rightarrow> sendfile_result \<times> tx_event list" where
  "sendfile avail k [] = (SfAgain, [])"
| "sendfile avail k (TxTake n # r) = (if n = 0 then SfAgain else SfSent (min n (min avail k)), r)"
| "sendfile avail k (TxTimeout # r) = (SfAgain, TxTimeout # r)"
| "sendfile avail k (TxError # r) = (SfError, TxError # r)"

partial_function (option) sendFile_loop ::
  "bytes \<Rightarrow> nat \<Rightarrow> nat \<Rightarrow> nat \<Rightarrow> conn_io \<Rightarrow> ((unit + nat) \<times> conn_io) option" where
  "sendFile_loop file offset cnt remaining io =
     (if remaining = 0 then Some (Inr (cnt - remaining), io)
      else
        (case sendfile (length file - offset) remaining (tx io) of
           (SfAgain, es) \<Rightarrow> sendFile_loop file offset cnt remaining (waitForWrite (io\<lparr>tx := es\<rparr>))
         | (SfError, es) \<Rightarrow> Some (Inl (), io\<lparr>tx := es\<rparr>)
         | (SfSent n, es) \<Rightarrow>
             if n = 0 then Some (Inr (cnt - remaining), io\<lparr>tx := es\<rparr>)
             else sendFile_loop file (offset + n) cnt (remaining - n)
               (io\<lparr>tx := es, sent := sent io @ take n (drop offset file)\<rparr>)))"

definition sendFile :: "bytes \<Rightarrow> nat \<Rightarrow> nat \<Rightarrow> conn_io \<Rightarrow> ((unit + nat) \<times> conn_io) option" where
  "sendFile file offset cnt io = sendFile_loop file offset cnt cnt io"

lemma waitForWrite_sent [simp]: "sent (waitForWrite io) = sent io"
  by (simp add: waitForWrite_def split: prod.split)

lemma sendfile_SfSent: "sendfile a k es = (SfSent n, es') \<Longrightarrow> n \<le> a \<and> n \<le> k \<and> (n = 0 \<longrightarrow> a = 0 \<or> k = 0)"
  by (cases "(a, k, es)" rule: sendfile.cases) (auto split: if_splits)

definition sendFile_post :: "bytes \<Rightarrow> nat \<Rightarrow> nat \<Rightarrow> nat \<Rightarrow> conn_io \<Rightarrow> (unit + nat) \<times> conn_io \<Rightarrow> bool" where
  "sendFile_post fl offset cnt remaining io y \<longleftrightarrow>
     (\<forall>k. fst y = Inr k \<longrightarrow> remaining \<le> cnt \<longrightarrow> offset \<le> length fl \<longrightarrow>
       (\<exists>m \<le> remaining. k = cnt - remaining + m \<and> sent (snd y) = sent io @ take m (drop offset fl)
         \<and> offset + m \<le> length fl \<and> (m < remaining \<longrightarrow> offset + m = length fl)))"

lemma sendFile_post_step:
  assumes n: "n \<le> length fl - offset" "n \<le> remaining"
    and "sendFile_post fl (offset + n) cnt (remaining - n)
      (io\<lparr>tx := es, sent := sent io @ take n (drop offset fl)\<rparr>) y"
  shows "sendFile_post fl offset cnt remaining io y"
  unfolding sendFile_post_def
proof (intro allI impI)
  fix k
  assume pre: "fst y = Inr k" "remaining \<le> cnt" "offset \<le> length fl"
  then obtain m where m: "m \<le> remaining - n" "k = cnt - (remaining - n) + m"
    "sent (snd y) = sent io @ take n (drop offset fl) @ take m (drop (offset + n) fl)"
    "offset + n + m \<le> length fl" "m < remaining - n \<longrightarrow> offset + n + m = length fl"
    using assms by (auto simp: sendFile_post_def)
  have "take n (drop offset fl) @ take m (drop (offset + n) fl) = take (n + m) (drop offset fl)"
    by (metis take_add drop_drop add.commute)
  then show "\<exists>m \<le> remaining. k = cnt - remaining + m \<and> sent (snd y) = sent io @ take m (drop offset fl)
      \<and> offset + m \<le> length fl \<and> (m < remaining \<longrightarrow> offset + m = length fl)"
    using m n pre by (intro exI [of _ "n + m"]) auto
qed

lemma sendFile_loop_post:
  "sendFile_loop fl offset cnt remaining io = Some y \<Longrightarrow> sendFile_post fl offset cnt remaining io y"
proof (rule sendFile_loop.raw_induct [where P = sendFile_post], goal_cases)
  case (1 rec fl offset cnt remaining io y)
  note IH = 1(2) and body = 1(3)
  obtain res es where s: "sendfile (length fl - offset) remaining (tx io) = (res, es)" by fastforce
  show ?case
  proof (cases "remaining = 0")
    case True
    then have "y = (Inr (cnt - remaining), io)" using body by simp
    then show ?thesis using True by (simp add: sendFile_post_def)
  next
    case False
    show ?thesis
    proof (cases res)
      case SfAgain
      then have "rec fl offset cnt remaining (waitForWrite (io\<lparr>tx := es\<rparr>)) = Some y"
        using body s False by simp
      from IH [OF this] show ?thesis by (simp add: sendFile_post_def)
    next
      case (SfSent n)
      note n = sendfile_SfSent [OF s [unfolded SfSent]]
      show ?thesis
      proof (cases "n = 0")
        case True
        then have "y = (Inr (cnt - remaining), io\<lparr>tx := es\<rparr>)" using body s False SfSent by simp
        then show ?thesis using n True False by (auto simp: sendFile_post_def intro!: exI [of _ 0])
      next
        case n0: False
        then have "rec fl (offset + n) cnt (remaining - n) (io\<lparr>tx := es, sent := sent io @ take n (drop offset fl)\<rparr>) = Some y"
          using body s False SfSent by simp
        from IH [OF this] show ?thesis by (rule sendFile_post_step [rotated 2]) (use n in auto)
      qed
    next
      case SfError
      then have "y = (Inl (), io\<lparr>tx := es\<rparr>)" using body s False by simp
      then show ?thesis by (simp add: sendFile_post_def)
    qed
  qed
qed

text \<open>A peer that stops reading and never closes: no deadline ends the loop.\<close>

lemma sendFile_loop_stalled:
  assumes "set (tx io) \<subseteq> {TxTimeout}" "0 < remaining"
  shows "sendFile_loop fl offset cnt remaining io = None"
proof (rule ccontr)
  assume "sendFile_loop fl offset cnt remaining io \<noteq> None"
  then obtain y where y: "sendFile_loop fl offset cnt remaining io = Some y" by blast
  have "\<not> (set (tx io) \<subseteq> {TxTimeout} \<and> 0 < remaining)"
  proof (rule sendFile_loop.raw_induct [where P = "\<lambda>_ _ _ remaining io _. \<not> (set (tx io) \<subseteq> {TxTimeout} \<and> 0 < remaining)",
        OF _ y], goal_cases)
    case (1 rec fl offset cnt remaining io y)
    show ?case
    proof
      assume st: "set (tx io) \<subseteq> {TxTimeout} \<and> 0 < remaining"
      have "sendfile (length fl - offset) remaining (tx io) = (SfAgain, tx io)"
        using st by (cases "tx io") auto
      then have r: "rec fl offset cnt remaining (waitForWrite (io\<lparr>tx := tx io\<rparr>)) = Some y"
        using 1(2) st by simp
      have "set (tx (waitForWrite (io\<lparr>tx := tx io\<rparr>))) \<subseteq> {TxTimeout}"
        using st by (cases "tx io") (auto simp: waitForWrite_def)
      then show False using 1(1) [OF r] st by blast
    qed
  qed
  then show False using assms by simp
qed

end
