(* ===== verification/ChunkDecoder.thy ===== *)
theory ChunkDecoder
  imports ConnectionIO
begin

text \<open>
  The decoder of chunked transfer coding, \<open>rukh/include/rukh/http/ChunkDecoder.hpp\<close>.

  \<open>readSome\<close> is the coroutine; a coroutine that never returns (a connection whose reads are
  configured to ask for nothing) is \<open>None\<close>. \<open>decode\<close> is the reference: it reads the whole
  input at once and gives the payload and what comes after it. The refinement lemma says that however
  the bytes arrive and whatever the size of the caller's buffer, \<open>readSome\<close> delivers the payload of the reference in
  order and fails only when the reference does.
\<close>

section \<open>The state machine\<close>

datatype chunk_error = MALFORMED | CHUNK_TOO_LARGE | REQUEST_SIZE_LIMIT_EXCEEDED

datatype chunk_state = CHUNK_SIZE | CHUNK_BODY | CHUNK_CRLF | TRAILER | DONE

record chunk_decoder =
  state :: chunk_state
  chunkRemaining :: nat
  totalBytes :: nat
  trailers :: string

definition init_decoder :: chunk_decoder where
  "init_decoder = \<lparr>state = CHUNK_SIZE, chunkRemaining = 0, totalBytes = 0, trailers = []\<rparr>"

definition reset_decoder :: "chunk_decoder \<Rightarrow> chunk_decoder" where
  "reset_decoder dec = dec\<lparr>state := CHUNK_SIZE, chunkRemaining := 0, totalBytes := 0, trailers := []\<rparr>"

fun handleIO :: "read_result \<Rightarrow> exn option" where
  "handleIO BUFFER_LIMIT_EXCEEDED = Some (serverException ''Buffer limit exceeded'' 500)"
| "handleIO CLOSED = Some (ConnectionException ''Connection closed'')"
| "handleIO READ_ERROR = Some (ConnectionException ''Connection closed'')"
| "handleIO READ_TIMED_OUT = Some (ConnectionException ''Read timed out'')"
| "handleIO DATA = None"
| "handleIO WOULD_BLOCK = None"

text \<open>\<open>handleIO(co_await io.read(SINGLE_READ_BYTES, MAX_CONTENT_LENGTH, deadline))\<close>.\<close>

definition read_more :: "server_config \<Rightarrow> conn_io \<Rightarrow> exn option \<times> conn_io" where
  "read_more cfg io =
     (let (r, io') = io_read (SINGLE_READ_BYTES cfg) (MAX_CONTENT_LENGTH cfg) io in (handleIO r, io'))"

text \<open>The loop \<open>while (it == io.readBufferEnd())\<close> around a search, and the loop that waits for
  a number of bytes.\<close>

partial_function (option) await_find :: "server_config \<Rightarrow> bytes \<Rightarrow> conn_io \<Rightarrow> ((exn + nat) \<times> conn_io) option" where
  "await_find cfg pat io =
     (case find_sub pat (readView io) of
        Some i \<Rightarrow> Some (Inr i, io)
      | None \<Rightarrow>
          (case read_more cfg io of
             (Some e, io') \<Rightarrow> Some (Inl e, io')
           | (None, io') \<Rightarrow> await_find cfg pat io'))"

partial_function (option) await_bytes :: "server_config \<Rightarrow> nat \<Rightarrow> conn_io \<Rightarrow> ((exn + nat) \<times> conn_io) option" where
  "await_bytes cfg k io =
     (if \<not> getReadBufferSize io < k then Some (Inr k, io)
      else
        (case read_more cfg io of
           (Some e, io') \<Rightarrow> Some (Inl e, io')
         | (None, io') \<Rightarrow> await_bytes cfg k io'))"

text \<open>One turn of the main loop: it goes on, leaves the loop, fails or throws. \<open>written\<close> is the
  filled part of the caller's span.\<close>

datatype chunk_step = Continue bytes | Break bytes | Fail chunk_error | Throw exn

definition size_step :: "server_config \<Rightarrow> bytes \<Rightarrow> chunk_decoder \<Rightarrow> conn_io \<Rightarrow>
    (chunk_step \<times> chunk_decoder \<times> conn_io) option" where
  "size_step cfg written dec io =
     (case await_find cfg crlf io of
        None \<Rightarrow> None
      | Some (Inl e, io1) \<Rightarrow> Some (Throw e, dec, io1)
      | Some (Inr it, io1) \<Rightarrow>
          (case from_chars 16 (take it (readView io1)) of
             FcOk chunkSize _ \<Rightarrow>
               let io2 = eraseFromReadBuffer (it + 2) io1 in
               if chunkSize = 0 then Some (Continue written, dec\<lparr>state := TRAILER\<rparr>, io2)
               else if chunkSize > MAX_TE_CHUNK_LENGTH cfg then Some (Fail CHUNK_TOO_LARGE, dec, io2)
               else
                 let tot = sz_add (totalBytes dec) chunkSize in
                 if tot > MAX_TE_LENGTH cfg
                 then Some (Fail REQUEST_SIZE_LIMIT_EXCEEDED, dec\<lparr>totalBytes := tot\<rparr>, io2)
                 else Some (Continue written,
                   dec\<lparr>totalBytes := tot, chunkRemaining := chunkSize, state := CHUNK_BODY\<rparr>, io2)
           | _ \<Rightarrow> Some (Fail MALFORMED, dec, io1)))"

definition copy_body :: "nat \<Rightarrow> bytes \<Rightarrow> chunk_decoder \<Rightarrow> conn_io \<Rightarrow> chunk_step \<times> chunk_decoder \<times> conn_io" where
  "copy_body n written dec io =
     (let toCopy = min (min (getReadBufferSize io) (chunkRemaining dec)) (n - length written);
          written' = written @ take toCopy (readView io);
          remaining = chunkRemaining dec - toCopy
      in (Continue written',
          dec\<lparr>chunkRemaining := remaining, state := if remaining = 0 then CHUNK_CRLF else state dec\<rparr>,
          eraseFromReadBuffer toCopy io))"

definition body_step :: "server_config \<Rightarrow> nat \<Rightarrow> bytes \<Rightarrow> chunk_decoder \<Rightarrow> conn_io \<Rightarrow>
    (chunk_step \<times> chunk_decoder \<times> conn_io) option" where
  "body_step cfg n written dec io =
     (if getReadBufferSize io = 0 then
        (case read_more cfg io of
           (Some e, io1) \<Rightarrow> Some (Throw e, dec, io1)
         | (None, io1) \<Rightarrow> Some (copy_body n written dec io1))
      else Some (copy_body n written dec io))"

definition crlf_step :: "server_config \<Rightarrow> bytes \<Rightarrow> chunk_decoder \<Rightarrow> conn_io \<Rightarrow>
    (chunk_step \<times> chunk_decoder \<times> conn_io) option" where
  "crlf_step cfg written dec io =
     (case await_bytes cfg 2 io of
        None \<Rightarrow> None
      | Some (Inl e, io1) \<Rightarrow> Some (Throw e, dec, io1)
      | Some (Inr _, io1) \<Rightarrow>
          if take 2 (readView io1) \<noteq> crlf then Some (Fail MALFORMED, dec, io1)
          else Some (Continue written, dec\<lparr>state := CHUNK_SIZE\<rparr>, eraseFromReadBuffer 2 io1))"

definition trailer_step :: "server_config \<Rightarrow> bytes \<Rightarrow> chunk_decoder \<Rightarrow> conn_io \<Rightarrow>
    (chunk_step \<times> chunk_decoder \<times> conn_io) option" where
  "trailer_step cfg written dec io =
     (if getReadBufferSize io \<ge> 2 \<and> take 2 (readView io) = crlf
      then Some (Break written, dec\<lparr>state := DONE\<rparr>, eraseFromReadBuffer 2 io)
      else
        (case await_find cfg crlf2 io of
           None \<Rightarrow> None
         | Some (Inl e, io1) \<Rightarrow> Some (Throw e, dec, io1)
         | Some (Inr it, io1) \<Rightarrow>
             Some (Break written, dec\<lparr>trailers := take it (readView io1), state := DONE\<rparr>,
               eraseFromReadBuffer (it + 4) io1)))"

definition chunk_step :: "server_config \<Rightarrow> nat \<Rightarrow> bytes \<Rightarrow> chunk_decoder \<Rightarrow> conn_io \<Rightarrow>
    (chunk_step \<times> chunk_decoder \<times> conn_io) option" where
  "chunk_step cfg n written dec io =
     (case state dec of
        CHUNK_SIZE \<Rightarrow> size_step cfg written dec io
      | CHUNK_BODY \<Rightarrow> body_step cfg n written dec io
      | CHUNK_CRLF \<Rightarrow> crlf_step cfg written dec io
      | TRAILER \<Rightarrow> trailer_step cfg written dec io
      | DONE \<Rightarrow> Some (Break written, dec, io))"

datatype chunk_outcome = Wrote bytes | Unexpected chunk_error | Threw exn

partial_function (option) readSome_loop :: "server_config \<Rightarrow> nat \<Rightarrow> bytes \<Rightarrow> chunk_decoder \<Rightarrow> conn_io \<Rightarrow>
    (chunk_outcome \<times> chunk_decoder \<times> conn_io) option" where
  "readSome_loop cfg n written dec io =
     (if \<not> length written < n then Some (Wrote written, dec, io)
      else
        (case chunk_step cfg n written dec io of
           None \<Rightarrow> None
         | Some (Continue w, dec', io') \<Rightarrow> readSome_loop cfg n w dec' io'
         | Some (Break w, dec', io') \<Rightarrow> Some (Wrote w, dec', io')
         | Some (Fail e, dec', io') \<Rightarrow> Some (Unexpected e, dec', io')
         | Some (Throw e, dec', io') \<Rightarrow> Some (Threw e, dec', io')))"

text \<open>\<open>readSome\<close> into a span of \<open>n\<close> bytes.\<close>

definition readSome :: "server_config \<Rightarrow> nat \<Rightarrow> chunk_decoder \<Rightarrow> conn_io \<Rightarrow>
    (chunk_outcome \<times> chunk_decoder \<times> conn_io) option" where
  "readSome cfg n dec io =
     (if state dec = DONE then Some (Wrote [], dec, io) else readSome_loop cfg n [] dec io)"

section \<open>Reading more\<close>

text \<open>\<open>fed io io'\<close>: the buffer has grown by what the script delivered, nothing else changed.\<close>

definition input :: "conn_io \<Rightarrow> bytes" where
  "input io = readView io @ rx_data (rx io)"

definition fed :: "conn_io \<Rightarrow> conn_io \<Rightarrow> bool" where
  "fed io io' \<longleftrightarrow> io_ok io' \<and> input io' = input io \<and> prefix (readView io) (readView io')
     \<and> writeView io' = writeView io \<and> sent io' = sent io \<and> tx io' = tx io
     \<and> rx_size (rx io') \<le> rx_size (rx io)"

lemma fed_refl: "io_ok io \<Longrightarrow> fed io io"
  by (simp add: fed_def)

lemma fed_trans: "fed io io1 \<Longrightarrow> fed io1 io2 \<Longrightarrow> fed io io2"
  unfolding fed_def by (auto intro: prefix_order.trans)

lemma read_more_None:
  assumes "read_more cfg io = (None, io')" "io_ok io"
  shows "fed io io' \<and> (0 < SINGLE_READ_BYTES cfg \<longrightarrow> rx_size (rx io') < rx_size (rx io))"
proof -
  let ?t = "SINGLE_READ_BYTES cfg"
  obtain r where r: "io_read ?t (MAX_CONTENT_LENGTH cfg) io = (r, io')" "handleIO r = None"
    using assms(1) by (auto simp: read_more_def split: prod.splits)
  then have "r = DATA \<or> r = WOULD_BLOCK" by (cases r) auto
  then show ?thesis
    using io_read_step [OF assms(2), of ?t "MAX_CONTENT_LENGTH cfg"] io_read_result [OF r(1)] r(1)
    by (auto simp: read_step_def Let_def fed_def input_def)
qed

lemma await_find_total:
  assumes "0 < SINGLE_READ_BYTES cfg" "io_ok io"
  shows "\<exists>y. await_find cfg pat io = Some y"
  using assms(2)
proof (induction "rx_size (rx io)" arbitrary: io rule: less_induct)
  case less
  obtain e io' where m: "read_more cfg io = (e, io')" by fastforce
  show ?case
  proof (cases "find_sub pat (readView io) = None \<and> e = None")
    case True
    then have "fed io io' \<and> rx_size (rx io') < rx_size (rx io)"
      using read_more_None [of cfg io io'] m assms(1) less.prems by simp
    then have "\<exists>y. await_find cfg pat io' = Some y" using less.hyps by (auto simp: fed_def)
    then show ?thesis using True m by (simp add: await_find.simps [of cfg pat io])
  next
    case False
    then show ?thesis using m by (auto simp: await_find.simps [of cfg pat io] split: option.splits)
  qed
qed

lemma await_bytes_total:
  assumes "0 < SINGLE_READ_BYTES cfg" "io_ok io"
  shows "\<exists>y. await_bytes cfg k io = Some y"
  using assms(2)
proof (induction "rx_size (rx io)" arbitrary: io rule: less_induct)
  case less
  obtain e io' where m: "read_more cfg io = (e, io')" by fastforce
  show ?case
  proof (cases "getReadBufferSize io < k \<and> e = None")
    case True
    then have "fed io io' \<and> rx_size (rx io') < rx_size (rx io)"
      using read_more_None [of cfg io io'] m assms(1) less.prems by simp
    then have "\<exists>y. await_bytes cfg k io' = Some y" using less.hyps by (auto simp: fed_def)
    then show ?thesis using True m by (simp add: await_bytes.simps [of cfg k io])
  next
    case False
    then show ?thesis using m by (auto simp: await_bytes.simps [of cfg k io] split: option.splits)
  qed
qed

lemma await_find_fed:
  assumes "await_find cfg pat io = Some (Inr i, io')" "io_ok io"
  shows "fed io io' \<and> find_sub pat (readView io') = Some i"
proof -
  have "io_ok io \<longrightarrow> (\<forall>i io'. y = (Inr i, io') \<longrightarrow> fed io io' \<and> find_sub pat (readView io') = Some i)"
    if "await_find cfg pat io = Some y" for y
  proof (rule await_find.raw_induct [where P = "\<lambda>cfg pat io y.
      io_ok io \<longrightarrow> (\<forall>i io'. y = (Inr i, io') \<longrightarrow> fed io io' \<and> find_sub pat (readView io') = Some i)", OF _ that], goal_cases)
    case (1 rec cfg pat io y)
    obtain e io1 where m: "read_more cfg io = (e, io1)" by fastforce
    show ?case
    proof (cases "find_sub pat (readView io) = None \<and> e = None")
      case True
      then have "rec cfg pat io1 = Some y" using 1(2) m by simp
      from 1(1) [OF this] show ?thesis
        using read_more_None [of cfg io io1] m True fed_trans by (fastforce simp: fed_def)
    next
      case False
      then show ?thesis using 1(2) m by (auto simp: fed_refl split: option.splits)
    qed
  qed
  then show ?thesis using assms by blast
qed

lemma await_bytes_fed:
  assumes "await_bytes cfg k io = Some (Inr i, io')" "io_ok io"
  shows "fed io io' \<and> k \<le> length (readView io')"
proof -
  have "io_ok io \<longrightarrow> (\<forall>i io'. y = (Inr i, io') \<longrightarrow> fed io io' \<and> k \<le> length (readView io'))"
    if "await_bytes cfg k io = Some y" for y
  proof (rule await_bytes.raw_induct [where P = "\<lambda>cfg k io y.
      io_ok io \<longrightarrow> (\<forall>i io'. y = (Inr i, io') \<longrightarrow> fed io io' \<and> k \<le> length (readView io'))", OF _ that], goal_cases)
    case (1 rec cfg k io y)
    obtain e io1 where m: "read_more cfg io = (e, io1)" by fastforce
    show ?case
    proof (cases "getReadBufferSize io < k \<and> e = None")
      case True
      then have "rec cfg k io1 = Some y" using 1(2) m by simp
      from 1(1) [OF this] show ?thesis
        using read_more_None [of cfg io io1] m True fed_trans by (fastforce simp: fed_def)
    next
      case False
      then show ?thesis using 1(2) m by (auto simp: fed_refl length_readView split: option.splits if_splits)
    qed
  qed
  then show ?thesis using assms by blast
qed

section \<open>The reference decoder\<close>

text \<open>The payload of an input and how it ends: the input stops early, it is refused, or the
  terminating chunk was read and the rest is the trailer section.\<close>

datatype verdict = Incomplete | Bad chunk_error | Trailer bytes

function decode_size :: "server_config \<Rightarrow> nat \<Rightarrow> bytes \<Rightarrow> bytes \<times> verdict" where
  "decode_size cfg tot inp =
     (case find_sub crlf inp of
        None \<Rightarrow> ([], Incomplete)
      | Some it \<Rightarrow>
          (case from_chars 16 (take it inp) of
             FcOk c _ \<Rightarrow>
               let d = drop (it + 2) inp; t = sz_add tot c in
               if c = 0 then ([], Trailer d)
               else if c > MAX_TE_CHUNK_LENGTH cfg then ([], Bad CHUNK_TOO_LARGE)
               else if t > MAX_TE_LENGTH cfg then ([], Bad REQUEST_SIZE_LIMIT_EXCEEDED)
               else if length d < c + 2 then (take c d, Incomplete)
               else if take 2 (drop c d) \<noteq> crlf then (take c d, Bad MALFORMED)
               else (let (p, v) = decode_size cfg t (drop (c + 2) d) in (take c d @ p, v))
           | _ \<Rightarrow> ([], Bad MALFORMED)))"
  by pat_completeness auto
termination
  by (relation "measure (\<lambda>(c, t, inp). length inp)") (auto dest!: find_sub_le)

declare decode_size.simps [simp del]

definition decode_crlf :: "server_config \<Rightarrow> nat \<Rightarrow> bytes \<Rightarrow> bytes \<times> verdict" where
  "decode_crlf cfg tot d =
     (if length d < 2 then ([], Incomplete)
      else if take 2 d \<noteq> crlf then ([], Bad MALFORMED)
      else decode_size cfg tot (drop 2 d))"

definition decode_body :: "server_config \<Rightarrow> nat \<Rightarrow> nat \<Rightarrow> bytes \<Rightarrow> bytes \<times> verdict" where
  "decode_body cfg tot rem d =
     (if length d < rem then (d, Incomplete)
      else (let (p, v) = decode_crlf cfg tot (drop rem d) in (take rem d @ p, v)))"

definition decode :: "server_config \<Rightarrow> chunk_decoder \<Rightarrow> bytes \<Rightarrow> bytes \<times> verdict" where
  "decode cfg dec inp =
     (case state dec of
        CHUNK_SIZE \<Rightarrow> decode_size cfg (totalBytes dec) inp
      | CHUNK_BODY \<Rightarrow> decode_body cfg (totalBytes dec) (chunkRemaining dec) inp
      | CHUNK_CRLF \<Rightarrow> decode_crlf cfg (totalBytes dec) inp
      | _ \<Rightarrow> ([], Trailer inp))"

text \<open>The same with the payload read so far in front.\<close>

definition decode_after :: "bytes \<Rightarrow> bytes \<times> verdict \<Rightarrow> bytes \<times> verdict" where
  "decode_after w r = (w @ fst r, snd r)"

lemma decode_after_Nil [simp]: "decode_after [] r = r"
  by (simp add: decode_after_def)

lemma decode_after_append: "decode_after (a @ b) r = decode_after a (decode_after b r)"
  by (simp add: decode_after_def)

lemma decode_size_unfold:
  "decode_size cfg tot inp =
     (case find_sub crlf inp of
        None \<Rightarrow> ([], Incomplete)
      | Some it \<Rightarrow>
          (case from_chars 16 (take it inp) of
             FcOk c _ \<Rightarrow>
               if c = 0 then ([], Trailer (drop (it + 2) inp))
               else if c > MAX_TE_CHUNK_LENGTH cfg then ([], Bad CHUNK_TOO_LARGE)
               else if sz_add tot c > MAX_TE_LENGTH cfg then ([], Bad REQUEST_SIZE_LIMIT_EXCEEDED)
               else decode_body cfg (sz_add tot c) c (drop (it + 2) inp)
           | _ \<Rightarrow> ([], Bad MALFORMED)))"
proof -
  have "decode_body cfg t c d =
      (if length d < c + 2 then (take c d, Incomplete)
       else if take 2 (drop c d) \<noteq> crlf then (take c d, Bad MALFORMED)
       else (let (p, v) = decode_size cfg t (drop (c + 2) d) in (take c d @ p, v)))" for t c d
    by (auto simp: decode_body_def decode_crlf_def Let_def add.commute)
  then show ?thesis
    by (subst decode_size.simps) (simp add: Let_def split: option.splits from_chars_result.splits)
qed

lemma decode_body_split:
  assumes "t \<le> rem" "t \<le> length d"
  shows "decode_body cfg tot rem d = decode_after (take t d) (decode_body cfg tot (rem - t) (drop t d))"
proof -
  have "take t d @ take (rem - t) (drop t d) = take rem d"
    using assms(1) take_add [of t "rem - t" d] by simp
  moreover have "length d < rem \<longleftrightarrow> length (drop t d) < rem - t" using assms by auto
  ultimately show ?thesis
    using assms by (auto simp: decode_body_def decode_after_def split: prod.splits)
qed

lemma decode_body_0: "decode_body cfg tot 0 d = decode_crlf cfg tot d"
  by (simp add: decode_body_def split: prod.splits)

text \<open>What a turn of the loop must satisfy.\<close>

definition refines :: "server_config \<Rightarrow> nat \<Rightarrow> bytes \<Rightarrow> chunk_decoder \<Rightarrow> conn_io \<Rightarrow>
    chunk_step \<times> chunk_decoder \<times> conn_io \<Rightarrow> bool" where
  "refines cfg n w dec io res \<longleftrightarrow>
     (case res of (r, dec', io') \<Rightarrow>
        (case r of
           Continue w' \<Rightarrow> io_ok io' \<and> length w' \<le> n
             \<and> decode_after w (decode cfg dec (input io)) = decode_after w' (decode cfg dec' (input io'))
         | Break w' \<Rightarrow> io_ok io' \<and> w' = w \<and> state dec \<in> {TRAILER, DONE} \<and> state dec' = DONE
         | Fail e \<Rightarrow> snd (decode cfg dec (input io)) = Bad e
         | Throw e \<Rightarrow> True))"

lemma input_erase:
  "n \<le> length (readView io) \<Longrightarrow> input (eraseFromReadBuffer n io) = drop n (input io)"
  by (simp add: input_def erase_read_view) (simp add: eraseFromReadBuffer_def Let_def)

lemma size_step_refines:
  assumes "size_step cfg w dec io = Some res" "state dec = CHUNK_SIZE" "io_ok io" "length w < n"
  shows "refines cfg n w dec io res"
proof -
  obtain a io1 where a: "await_find cfg crlf io = Some (a, io1)"
    using assms(1) by (auto simp: size_step_def split: option.splits)
  show ?thesis
  proof (cases a)
    case (Inl e)
    then show ?thesis using assms(1) a by (auto simp: size_step_def refines_def)
  next
    case (Inr it)
    then have fed: "fed io io1" and it: "find_sub crlf (readView io1) = Some it"
      using await_find_fed a assms(3) by blast+
    have inp: "input io = readView io1 @ rx_data (rx io1)" using fed by (simp add: fed_def input_def)
    have find: "find_sub crlf (input io) = Some it"
      unfolding inp by (rule find_sub_append_Some [OF it])
    have le: "it + 2 \<le> length (readView io1)" using find_sub_le [OF it] by simp
    have tk: "take it (input io) = take it (readView io1)"
      using inp le by simp
    have dr: "drop (it + 2) (input io) = input (eraseFromReadBuffer (it + 2) io1)"
      using input_erase [OF le] fed by (simp add: fed_def)
    have ok: "io_ok (eraseFromReadBuffer (it + 2) io1)" using fed by (simp add: fed_def erase_read_ok)
    show ?thesis
      using assms a Inr
      by (auto simp: size_step_def refines_def decode_def decode_size_unfold [of cfg _ "input io"] find tk dr [simplified] Let_def ok [simplified]
          split: from_chars_result.splits if_splits)
  qed
qed

lemma copy_body_refines:
  assumes "state dec = CHUNK_BODY" "io_ok io" "length w < n"
  shows "refines cfg n w dec io (copy_body n w dec io)"
proof -
  define t where "t = min (min (getReadBufferSize io) (chunkRemaining dec)) (n - length w)"
  have t: "t \<le> chunkRemaining dec" "t \<le> length (readView io)" "t \<le> length (input io)" "t \<le> n - length w"
    by (auto simp: length_readView input_def t_def)
  have tk: "take t (input io) = take t (readView io)"
    using t(2) by (simp add: input_def)
  have split: "decode cfg dec (input io) = decode_after (take t (readView io))
      (decode cfg (dec\<lparr>chunkRemaining := chunkRemaining dec - t,
         state := if chunkRemaining dec - t = 0 then CHUNK_CRLF else state dec\<rparr>) (drop t (input io)))"
    using decode_body_split [OF t(1,3), of cfg "totalBytes dec"] assms(1) t(1)
    by (cases "chunkRemaining dec - t = 0") (simp_all add: decode_def tk decode_body_0)
  have len: "length (w @ take t (readView io)) \<le> n" using t assms(3) by simp
  have step: "copy_body n w dec io = (Continue (w @ take t (readView io)),
      dec\<lparr>chunkRemaining := chunkRemaining dec - t,
          state := if chunkRemaining dec - t = 0 then CHUNK_CRLF else state dec\<rparr>,
      eraseFromReadBuffer t io)"
    by (simp add: copy_body_def Let_def t_def)
  show ?thesis
    unfolding step refines_def prod.case chunk_step.case
    using len split erase_read_ok [OF assms(2), of t] input_erase [OF t(2)] by (simp add: decode_after_append)
qed

lemma body_step_refines:
  assumes "body_step cfg n w dec io = Some res" "state dec = CHUNK_BODY" "io_ok io" "length w < n"
  shows "refines cfg n w dec io res"
proof (cases "getReadBufferSize io = 0")
  case True
  obtain e io1 where m: "read_more cfg io = (e, io1)" by fastforce
  show ?thesis
  proof (cases e)
    case None
    then have "io_ok io1" and same: "input io1 = input io"
      using read_more_None [of cfg io io1] m assms(3) by (simp_all add: fed_def)
    moreover have "res = copy_body n w dec io1" using assms(1) True m None by (simp add: body_step_def)
    ultimately have "refines cfg n w dec io1 res"
      using copy_body_refines [OF assms(2) _ assms(4), of io1 cfg] by simp
    then show ?thesis unfolding refines_def same .
  next
    case (Some x)
    then show ?thesis using assms(1) True m by (auto simp: body_step_def refines_def)
  qed
next
  case False
  then show ?thesis using assms copy_body_refines [OF assms(2-4), of cfg] by (simp add: body_step_def)
qed

lemma crlf_step_refines:
  assumes "crlf_step cfg w dec io = Some res" "state dec = CHUNK_CRLF" "io_ok io" "length w < n"
  shows "refines cfg n w dec io res"
proof -
  obtain a io1 where a: "await_bytes cfg 2 io = Some (a, io1)"
    using assms(1) by (auto simp: crlf_step_def split: option.splits)
  show ?thesis
  proof (cases a)
    case (Inl e)
    then show ?thesis using assms(1) a by (auto simp: crlf_step_def refines_def)
  next
    case (Inr k)
    then have fed: "fed io io1" and le: "2 \<le> length (readView io1)"
      using await_bytes_fed a assms(3) by blast+
    have inp: "input io = readView io1 @ rx_data (rx io1)" using fed by (simp add: fed_def input_def)
    have tk: "take 2 (input io) = take 2 (readView io1)" using inp le by simp
    have dr: "drop 2 (input io) = input (eraseFromReadBuffer 2 io1)"
      using input_erase [OF le] fed by (simp add: fed_def)
    have len: "\<not> length (input io) < 2" using inp le by simp
    have ok: "io_ok (eraseFromReadBuffer 2 io1)" using fed by (simp add: fed_def erase_read_ok)
    show ?thesis using assms a Inr len ok
      by (auto simp: crlf_step_def refines_def decode_def decode_crlf_def tk dr split: if_splits)
  qed
qed

lemma trailer_step_refines:
  assumes "trailer_step cfg w dec io = Some res" "state dec = TRAILER" "io_ok io" "length w < n"
  shows "refines cfg n w dec io res"
proof (cases "getReadBufferSize io \<ge> 2 \<and> take 2 (readView io) = crlf")
  case True
  then show ?thesis using assms by (auto simp: trailer_step_def refines_def erase_read_ok)
next
  case False
  obtain a io1 where a: "await_find cfg crlf2 io = Some (a, io1)"
    using assms(1) False by (auto simp: trailer_step_def split: option.splits if_splits)
  show ?thesis
  proof (cases a)
    case (Inr it)
    then have "fed io io1" using await_find_fed a assms(3) by blast
    then show ?thesis using assms False a Inr by (auto simp: trailer_step_def refines_def erase_read_ok fed_def)
  qed (use assms False a in \<open>auto simp: trailer_step_def refines_def\<close>)
qed

lemma chunk_step_refines:
  assumes "chunk_step cfg n w dec io = Some res" "io_ok io" "length w < n"
  shows "refines cfg n w dec io res"
proof (cases "state dec")
  case DONE
  then show ?thesis using assms by (auto simp: chunk_step_def refines_def)
qed (use assms size_step_refines body_step_refines crlf_step_refines trailer_step_refines
    in \<open>simp add: chunk_step_def; blast\<close>)+

text \<open>The loop as a whole.\<close>

definition loop_refines :: "server_config \<Rightarrow> nat \<Rightarrow> bytes \<Rightarrow> chunk_decoder \<Rightarrow> conn_io \<Rightarrow>
    chunk_outcome \<times> chunk_decoder \<times> conn_io \<Rightarrow> bool" where
  "loop_refines cfg n w dec io res \<longleftrightarrow>
     (case res of (out, dec', io') \<Rightarrow>
        (case out of
           Wrote w' \<Rightarrow> io_ok io' \<and> length w' \<le> n \<and> (length w' < n \<longrightarrow> state dec' = DONE)
             \<and> (if state dec' = DONE
                then \<exists>rest. decode_after w (decode cfg dec (input io)) = (w', Trailer rest)
                else decode_after w (decode cfg dec (input io)) = decode_after w' (decode cfg dec' (input io')))
         | Unexpected e \<Rightarrow> snd (decode cfg dec (input io)) = Bad e
         | Threw e \<Rightarrow> True))"

lemma loop_refines_step:
  assumes "decode_after w (decode cfg dec (input io)) = decode_after w1 (decode cfg dec1 (input io1))"
    and "loop_refines cfg n w1 dec1 io1 res"
  shows "loop_refines cfg n w dec io res"
proof -
  have "snd (decode cfg dec (input io)) = snd (decode cfg dec1 (input io1))"
    using arg_cong [OF assms(1), of snd] by (simp add: decode_after_def)
  moreover obtain out dec' io' where "res = (out, dec', io')" by (cases res)
  ultimately show ?thesis using assms(2) unfolding loop_refines_def assms(1) by (cases out) simp_all
qed

lemma readSome_loop_refines:
  "readSome_loop cfg n w dec io = Some res \<Longrightarrow> io_ok io \<longrightarrow> length w \<le> n \<longrightarrow> loop_refines cfg n w dec io res"
proof (rule readSome_loop.raw_induct [where P = "\<lambda>cfg n w dec io res.
    io_ok io \<longrightarrow> length w \<le> n \<longrightarrow> loop_refines cfg n w dec io res"], goal_cases)
  case (1 rec cfg n w dec io res)
  note IH = 1(2) and body = 1(3)
  show ?case
  proof (intro impI)
    assume ok: "io_ok io" and le: "length w \<le> n"
    show "loop_refines cfg n w dec io res"
    proof (cases "length w < n")
      case False
      then have "res = (Wrote w, dec, io)" using body by simp
      then show ?thesis using ok le False
        by (auto simp: loop_refines_def decode_after_def decode_def)
    next
      case True
      obtain r dec1 io1 where st: "chunk_step cfg n w dec io = Some (r, dec1, io1)"
        using body True by (auto split: option.splits)
      note ref = chunk_step_refines [OF st ok True]
      show ?thesis
      proof (cases r)
        case (Continue w1)
        then have "rec cfg n w1 dec1 io1 = Some res" using body True st by simp
        from IH [OF this] show ?thesis
          using ref Continue loop_refines_step [of w cfg dec io w1 dec1 io1 n res] by (simp add: refines_def)
      next
        case (Break w1)
        then have "res = (Wrote w1, dec1, io1)" using body True st by simp
        then show ?thesis using ref Break True
          by (auto simp: refines_def loop_refines_def decode_def decode_after_def)
      next
        case (Fail e)
        then have "res = (Unexpected e, dec1, io1)" using body True st by simp
        then show ?thesis using ref Fail by (simp add: refines_def loop_refines_def)
      next
        case (Throw e)
        then have "res = (Threw e, dec1, io1)" using body True st by simp
        then show ?thesis by (simp add: loop_refines_def)
      qed
    qed
  qed
qed

lemma readSome_refines:
  assumes "readSome cfg n dec io = Some res" "io_ok io"
  shows "loop_refines cfg n [] dec io res"
proof (cases "state dec = DONE")
  case True
  then show ?thesis using assms by (auto simp: readSome_def loop_refines_def decode_def decode_after_def)
next
  case False
  then show ?thesis using assms readSome_loop_refines [of cfg n "[]" dec io res] by (simp add: readSome_def)
qed

section \<open>The coroutine returns\<close>

definition progress :: "(chunk_decoder \<times> conn_io) rel" where
  "progress = measures [\<lambda>(dec, io). rx_size (rx io), \<lambda>(dec, io). length (input io),
     \<lambda>(dec, io). if state dec = CHUNK_BODY then 1 else 0]"

lemma rx_erase_read [simp]: "rx (eraseFromReadBuffer n io) = rx io"
  by (simp add: eraseFromReadBuffer_def Let_def)

lemma erase_progress:
  assumes "fed io io1" "0 < k" "k \<le> length (readView io1)"
  shows "((dec', eraseFromReadBuffer k io1), (dec, io)) \<in> progress"
proof -
  have "length (input (eraseFromReadBuffer k io1)) < length (input io)"
    using assms input_erase [OF assms(3)] by (auto simp: fed_def input_def [of io1])
      (metis assms(2,3) diff_less fed_def input_def length_0_conv length_append length_drop list.size(3) add_is_0 not_gr_zero le_zero_eq)
  then show ?thesis using assms(1) by (auto simp: progress_def fed_def)
qed

lemma copy_body_progress:
  assumes "copy_body n w dec io = (Continue w', dec', io')" "state dec = CHUNK_BODY" "length w < n"
    "readView io \<noteq> []"
  shows "((dec', io'), (dec, io)) \<in> progress"
proof -
  define t where "t = min (min (getReadBufferSize io) (chunkRemaining dec)) (n - length w)"
  have io': "io' = eraseFromReadBuffer t io"
    and dec': "state dec' = (if chunkRemaining dec - t = 0 then CHUNK_CRLF else CHUNK_BODY)"
    using assms by (auto simp: copy_body_def Let_def t_def)
  have le: "t \<le> length (readView io)" by (auto simp: t_def length_readView)
  show ?thesis
  proof (cases "t = 0")
    case True
    then have "chunkRemaining dec = 0" using assms
      by (auto simp: t_def length_readView min_def split: if_splits)
    then show ?thesis using io' dec' assms(2) True input_erase [OF le] by (simp add: progress_def)
  next
    case False
    have "length (input io') < length (input io)"
      using False le assms(4) input_erase [OF le] io' by (simp add: input_def)
    then show ?thesis using io' by (simp add: progress_def)
  qed
qed

lemma chunk_step_progress:
  assumes "0 < SINGLE_READ_BYTES cfg" "io_ok io" "length w < n"
  shows "\<exists>r dec' io'. chunk_step cfg n w dec io = Some (r, dec', io')
    \<and> ((\<exists>w'. r = Continue w') \<longrightarrow> ((dec', io'), (dec, io)) \<in> progress)"
proof (cases "state dec")
  case CHUNK_SIZE
  obtain a io1 where a: "await_find cfg crlf io = Some (a, io1)"
    using await_find_total [OF assms(1,2)] by fastforce
  show ?thesis
  proof (cases a)
    case (Inr it)
    then have "fed io io1" and it: "find_sub crlf (readView io1) = Some it"
      using await_find_fed a assms(2) by blast+
    then have "\<And>d. ((d, eraseFromReadBuffer (it + 2) io1), (dec, io)) \<in> progress"
      using find_sub_le [OF it] by (intro erase_progress) auto
    then show ?thesis using a Inr CHUNK_SIZE
      by (auto simp: chunk_step_def size_step_def Let_def split: from_chars_result.splits)
  qed (use a CHUNK_SIZE in \<open>simp add: chunk_step_def size_step_def\<close>)
next
  case CHUNK_BODY
  show ?thesis
  proof (cases "getReadBufferSize io = 0")
    case True
    obtain e io1 where m: "read_more cfg io = (e, io1)" by fastforce
    show ?thesis
    proof (cases e)
      case None
      then have "rx_size (rx io1) < rx_size (rx io)" using read_more_None m assms by blast
      then have "\<And>d k. ((d, eraseFromReadBuffer k io1), (dec, io)) \<in> progress"
        by (simp add: progress_def)
      then show ?thesis using True m None CHUNK_BODY
        by (auto simp: chunk_step_def body_step_def copy_body_def Let_def)
    qed (use True m CHUNK_BODY in \<open>simp add: chunk_step_def body_step_def\<close>)
  next
    case False
    then have "readView io \<noteq> []" by (auto simp: length_readView)
    then show ?thesis using False CHUNK_BODY copy_body_progress [OF _ CHUNK_BODY assms(3)]
      by (cases "copy_body n w dec io") (auto simp: chunk_step_def body_step_def)
  qed
next
  case CHUNK_CRLF
  obtain a io1 where a: "await_bytes cfg 2 io = Some (a, io1)"
    using await_bytes_total [OF assms(1,2)] by fastforce
  show ?thesis
  proof (cases a)
    case (Inr it)
    then have "fed io io1" "2 \<le> length (readView io1)"
      using await_bytes_fed a assms(2) by blast+
    then have "\<And>d. ((d, eraseFromReadBuffer 2 io1), (dec, io)) \<in> progress"
      by (intro erase_progress) auto
    then show ?thesis using a Inr CHUNK_CRLF
      by (auto simp: chunk_step_def crlf_step_def)
  qed (use a CHUNK_CRLF in \<open>simp add: chunk_step_def crlf_step_def\<close>)
next
  case TRAILER
  then show ?thesis using await_find_total [OF assms(1,2), of crlf2]
    by (auto simp: chunk_step_def trailer_step_def split: sum.split)
next
  case DONE
  then show ?thesis by (simp add: chunk_step_def)
qed

lemma readSome_loop_total:
  assumes "0 < SINGLE_READ_BYTES cfg" "io_ok io"
  shows "\<exists>res. readSome_loop cfg n w dec io = Some res"
proof -
  have "wf progress" by (simp add: progress_def)
  then have "\<forall>w. io_ok (snd (dec, io)) \<longrightarrow> (\<exists>res. readSome_loop cfg n w (fst (dec, io)) (snd (dec, io)) = Some res)"
  proof (induction "(dec, io)" arbitrary: dec io rule: wf_induct_rule)
    case (less dec io)
    show ?case
    proof (intro allI impI)
      fix w
      assume "io_ok (snd (dec, io))"
      then have ok: "io_ok io" by simp
      show "\<exists>res. readSome_loop cfg n w (fst (dec, io)) (snd (dec, io)) = Some res"
      proof (cases "length w < n")
        case True
        then obtain r dec' io' where st: "chunk_step cfg n w dec io = Some (r, dec', io')"
          and pr: "(\<exists>w'. r = Continue w') \<longrightarrow> ((dec', io'), (dec, io)) \<in> progress"
          using chunk_step_progress [OF assms(1) ok] by blast
        show ?thesis
        proof (cases r)
          case (Continue w')
          then have "io_ok io'" using chunk_step_refines [OF st ok True] by (simp add: refines_def)
          then show ?thesis using less [of dec' io'] pr Continue st True
            by (simp add: readSome_loop.simps [of cfg n w dec io])
        qed (use st True in \<open>simp_all add: readSome_loop.simps [of cfg n w dec io]\<close>)
      next
        case False
        then show ?thesis by (simp add: readSome_loop.simps [of cfg n w dec io])
      qed
    qed
  qed
  then show ?thesis using assms(2) by simp
qed

lemma readSome_total:
  "0 < SINGLE_READ_BYTES cfg \<Longrightarrow> io_ok io \<Longrightarrow> \<exists>res. readSome cfg n dec io = Some res"
  using readSome_loop_total by (simp add: readSome_def)

section \<open>Inputs that arrive in full\<close>

text \<open>The peer delivers what it has to say, in any segmentation, and the buffer limit is not reached.\<close>

definition delivers :: "server_config \<Rightarrow> conn_io \<Rightarrow> bool" where
  "delivers cfg io \<longleftrightarrow> io_ok io \<and> calm (rx io) \<and> length (input io) < MAX_CONTENT_LENGTH cfg
     \<and> 0 < SINGLE_READ_BYTES cfg"

lemma read_more_delivers:
  assumes "read_more cfg io = (e, io')" "delivers cfg io" "rx_data (rx io) \<noteq> []"
  shows "e = None \<and> delivers cfg io' \<and> rx_size (rx io') < rx_size (rx io) \<and> input io' = input io"
proof -
  let ?t = "SINGLE_READ_BYTES cfg"
  have ok: "io_ok io" and pos: "0 < ?t" and lim: "length (input io) < MAX_CONTENT_LENGTH cfg"
    using assms(2) by (auto simp: delivers_def)
  obtain r where r: "io_read ?t (MAX_CONTENT_LENGTH cfg) io = (r, io')" "handleIO r = e"
    using assms(1) by (auto simp: read_more_def split: prod.splits)
  have c: "calm (rx io')" "r \<notin> {CLOSED, READ_ERROR}" "r \<noteq> READ_TIMED_OUT"
    using io_read_calm [OF r(1)] assms by (auto simp: delivers_def)
  have st: "read_step (length (readView io) + ?t) (MAX_CONTENT_LENGTH cfg) io (r, io')"
    using io_read_step [OF ok, of ?t "MAX_CONTENT_LENGTH cfg"] r(1) by simp
  then have same: "input io' = input io" using c(2) by (simp add: read_step_def Let_def input_def)
  have "r \<noteq> BUFFER_LIMIT_EXCEEDED"
  proof
    assume "r = BUFFER_LIMIT_EXCEEDED"
    then have "MAX_CONTENT_LENGTH cfg \<le> length (readView io')"
      using io_read_result [OF r(1) pos] by (simp add: length_readView)
    also have "\<dots> \<le> length (input io')" by (simp add: input_def)
    finally show False using lim same by simp
  qed
  then have "e = None" using r(2) c by (cases r) auto
  then show ?thesis
    using read_more_None [of cfg io io'] assms(1) ok pos c(1) same lim by (auto simp: delivers_def fed_def)
qed

lemma find_sub_found_later:
  assumes "find_sub pat (v @ d) = Some i" "find_sub pat v = None"
  shows "d \<noteq> []"
  using assms by auto

lemma await_find_delivers:
  assumes "delivers cfg io" "find_sub pat (input io) = Some i"
  shows "\<exists>io'. await_find cfg pat io = Some (Inr i, io') \<and> delivers cfg io'"
  using assms
proof (induction "rx_size (rx io)" arbitrary: io rule: less_induct)
  case less
  obtain e io1 where m: "read_more cfg io = (e, io1)" by fastforce
  show ?case
  proof (cases "find_sub pat (readView io)")
    case None
    then have "rx_data (rx io) \<noteq> []" using less.prems(2) find_sub_found_later by (auto simp: input_def)
    from read_more_delivers [OF m less.prems(1) this] show ?thesis
      using less.hyps [of io1] less.prems(2) m None by (simp add: await_find.simps [of cfg pat io])
  next
    case (Some j)
    then have "find_sub pat (input io) = Some j" unfolding input_def by (rule find_sub_append_Some)
    then show ?thesis using Some less.prems by (simp add: await_find.simps [of cfg pat io])
  qed
qed

lemma await_bytes_delivers:
  assumes "delivers cfg io" "k \<le> length (input io)"
  shows "\<exists>io'. await_bytes cfg k io = Some (Inr k, io') \<and> delivers cfg io'"
  using assms
proof (induction "rx_size (rx io)" arbitrary: io rule: less_induct)
  case less
  obtain e io1 where m: "read_more cfg io = (e, io1)" by fastforce
  show ?case
  proof (cases "getReadBufferSize io < k")
    case True
    then have "rx_data (rx io) \<noteq> []" using less.prems(2) by (auto simp: input_def length_readView)
    from read_more_delivers [OF m less.prems(1) this] show ?thesis
      using less.hyps [of io1] less.prems(2) m True by (simp add: await_bytes.simps [of cfg k io])
  next
    case False
    then show ?thesis using less.prems by (simp add: await_bytes.simps [of cfg k io])
  qed
qed

lemma delivers_erase: "delivers cfg io \<Longrightarrow> k \<le> length (readView io) \<Longrightarrow> delivers cfg (eraseFromReadBuffer k io)"
  by (auto simp: delivers_def erase_read_ok input_erase)

lemma decode_crlf_Incomplete: "snd (decode_crlf cfg t d) \<noteq> Incomplete \<Longrightarrow> 2 \<le> length d"
  by (auto simp: decode_crlf_def split: if_splits)

lemma decode_body_Incomplete:
  "snd (decode_body cfg t rem d) \<noteq> Incomplete \<Longrightarrow> rem + 2 \<le> length d"
proof -
  assume a: "snd (decode_body cfg t rem d) \<noteq> Incomplete"
  then have "rem \<le> length d" by (auto simp: decode_body_def split: if_splits)
  moreover from this have "snd (decode_crlf cfg t (drop rem d)) \<noteq> Incomplete"
    using a by (auto simp: decode_body_def split: if_splits prod.splits)
  then have "2 \<le> length (drop rem d)" by (rule decode_crlf_Incomplete)
  ultimately show ?thesis by simp
qed

text \<open>No turn before the trailer section throws when the input is complete.\<close>

lemma chunk_step_delivers:
  assumes "delivers cfg io" "snd (decode cfg dec (input io)) \<noteq> Incomplete" "state dec \<noteq> TRAILER"
    and st: "chunk_step cfg n w dec io = Some (r, dec', io')"
  shows "(\<forall>e. r \<noteq> Throw e) \<and> delivers cfg io'"
proof (cases "state dec")
  case CHUNK_SIZE
  then obtain it where it: "find_sub crlf (input io) = Some it"
    using assms(2) by (cases "find_sub crlf (input io)") (auto simp: decode_def decode_size.simps [of cfg _ "input io"])
  obtain io1 where a: "await_find cfg crlf io = Some (Inr it, io1)" "delivers cfg io1"
    using await_find_delivers [OF assms(1) it] by blast
  then have "find_sub crlf (readView io1) = Some it"
    using await_find_fed assms(1) by (auto simp: delivers_def)
  from find_sub_le [OF this] have del: "delivers cfg (eraseFromReadBuffer (it + 2) io1)"
    using a(2) by (intro delivers_erase) simp_all
  show ?thesis using st CHUNK_SIZE a del
    by (auto simp: chunk_step_def size_step_def Let_def split: from_chars_result.splits if_splits)
next
  case CHUNK_BODY
  show ?thesis
  proof (cases "getReadBufferSize io = 0")
    case True
    have "2 \<le> length (input io)"
      using assms(2) CHUNK_BODY decode_body_Incomplete [of cfg "totalBytes dec" "chunkRemaining dec" "input io"]
      by (simp add: decode_def)
    then have ne: "rx_data (rx io) \<noteq> []" using True by (auto simp: input_def length_readView)
    obtain e io1 where m: "read_more cfg io = (e, io1)" by fastforce
    note d = read_more_delivers [OF m assms(1) ne]
    then have "(r, dec', io') = copy_body n w dec io1"
      using st CHUNK_BODY True m by (simp add: chunk_step_def body_step_def)
    then show ?thesis using d by (auto simp: copy_body_def Let_def length_readView intro!: delivers_erase)
  next
    case False
    then have "(r, dec', io') = copy_body n w dec io"
      using st CHUNK_BODY by (simp add: chunk_step_def body_step_def)
    then show ?thesis using assms(1) by (auto simp: copy_body_def Let_def length_readView intro!: delivers_erase)
  qed
next
  case CHUNK_CRLF
  then have "2 \<le> length (input io)" using assms(2) decode_crlf_Incomplete by (simp add: decode_def)
  then obtain io1 where a: "await_bytes cfg 2 io = Some (Inr 2, io1)" "delivers cfg io1"
    using await_bytes_delivers [OF assms(1)] by blast
  then have "2 \<le> length (readView io1)" using await_bytes_fed assms(1) by (auto simp: delivers_def)
  then show ?thesis using st CHUNK_CRLF a delivers_erase
    by (auto simp: chunk_step_def crlf_step_def split: if_splits)
qed (use assms in \<open>auto simp: chunk_step_def\<close>)

lemma readSome_loop_delivers:
  "readSome_loop cfg n w dec io = Some res \<Longrightarrow> delivers cfg io \<longrightarrow> snd (decode cfg dec (input io)) \<noteq> Incomplete
     \<longrightarrow> (\<forall>e. fst res = Threw e \<longrightarrow> state (fst (snd res)) = TRAILER)"
proof (rule readSome_loop.raw_induct [where P = "\<lambda>cfg n w dec io res.
    delivers cfg io \<longrightarrow> snd (decode cfg dec (input io)) \<noteq> Incomplete
     \<longrightarrow> (\<forall>e. fst res = Threw e \<longrightarrow> state (fst (snd res)) = TRAILER)"], goal_cases)
  case (1 rec cfg n w dec io res)
  note IH = 1(2) and body = 1(3)
  show ?case
  proof (intro impI)
    assume del: "delivers cfg io" and inc: "snd (decode cfg dec (input io)) \<noteq> Incomplete"
    show "\<forall>e. fst res = Threw e \<longrightarrow> state (fst (snd res)) = TRAILER"
    proof (cases "length w < n")
      case True
      obtain r dec1 io1 where st: "chunk_step cfg n w dec io = Some (r, dec1, io1)"
        using body True by (auto split: option.splits)
      have ok: "io_ok io" using del by (simp add: delivers_def)
      note ref = chunk_step_refines [OF st ok True]
      show ?thesis
      proof (cases "state dec = TRAILER")
        case trailer: True
        then have "(\<forall>w'. r \<noteq> Continue w') \<and> (\<forall>e. r = Throw e \<longrightarrow> state dec1 = TRAILER)"
          using st by (auto simp: chunk_step_def trailer_step_def split: option.splits sum.splits if_splits)
        then show ?thesis using body True st by (cases r) auto
      next
        case False
        note d = chunk_step_delivers [OF del inc False st]
        show ?thesis
        proof (cases r)
          case (Continue w1)
          then have "rec cfg n w1 dec1 io1 = Some res" using body True st by simp
          moreover have "snd (decode cfg dec (input io)) = snd (decode cfg dec1 (input io1))"
            using ref Continue by (auto simp: refines_def decode_after_def)
          ultimately show ?thesis using IH d inc by simp
        qed (use body True st d in auto)
      qed
    next
      case False
      then show ?thesis using body by auto
    qed
  qed
qed

section \<open>The trailer section\<close>

text \<open>
  When the terminating chunk has been read and the buffer does not hold the final CRLF yet, the
  decoder only looks for CRLF CRLF. So a message whose last CRLF arrives in a segment of its own is
  not recognised as complete: the wait ends by an exception, or by the end of the next request.
\<close>

lemma trailer_waits:
  assumes "state dec = TRAILER" "0 < n" "0 < SINGLE_READ_BYTES cfg" "io_ok io"
    and "take 2 (readView io) \<noteq> crlf" "find_sub crlf2 (input io) = None"
  shows "\<exists>e dec' io'. readSome cfg n dec io = Some (Threw e, dec', io')"
proof -
  obtain a io1 where a: "await_find cfg crlf2 io = Some (a, io1)"
    using await_find_total [OF assms(3,4)] by fastforce
  show ?thesis
  proof (cases a)
    case (Inl e)
    then have "trailer_step cfg [] dec io = Some (Throw e, dec, io1)"
      using a assms(5) by (simp add: trailer_step_def)
    then show ?thesis using assms(1,2)
      by (simp add: readSome_def readSome_loop.simps [of cfg n "[]" dec io] chunk_step_def)
  next
    case (Inr i)
    then have "fed io io1 \<and> find_sub crlf2 (readView io1) = Some i"
      using await_find_fed a assms(4) by blast
    then have "find_sub crlf2 (input io) = Some i"
      using find_sub_append_Some [of crlf2 "readView io1" i "rx_data (rx io1)"] by (auto simp: fed_def input_def)
    then show ?thesis using assms(6) by simp
  qed
qed

lemma trailer_swallows:
  assumes "state dec = TRAILER" "0 < n" "delivers cfg io"
    and "take 2 (readView io) \<noteq> crlf" "find_sub crlf2 (input io) = Some i"
  shows "\<exists>dec' io'. readSome cfg n dec io = Some (Wrote [], dec', io') \<and> state dec' = DONE
    \<and> trailers dec' = take i (input io) \<and> input io' = drop (i + 4) (input io)"
proof -
  obtain io1 where a: "await_find cfg crlf2 io = Some (Inr i, io1)"
    using await_find_delivers [OF assms(3,5)] by blast
  then have fed: "fed io io1" and i: "find_sub crlf2 (readView io1) = Some i"
    using await_find_fed assms(3) by (auto simp: delivers_def)
  have le: "i + 4 \<le> length (readView io1)" using find_sub_le [OF i] by simp
  have inp: "input io = readView io1 @ rx_data (rx io1)" using fed by (simp add: fed_def input_def)
  have "trailer_step cfg [] dec io = Some (Break [], dec\<lparr>trailers := take i (readView io1), state := DONE\<rparr>,
      eraseFromReadBuffer (i + 4) io1)"
    using a assms(4) by (simp add: trailer_step_def)
  moreover have "input (eraseFromReadBuffer (i + 4) io1) = drop (i + 4) (input io)"
    using input_erase [OF le] fed by (simp add: fed_def)
  moreover have "take i (readView io1) = take i (input io)" using inp le by simp
  ultimately show ?thesis using assms(1,2)
    by (simp add: readSome_def readSome_loop.simps [of cfg n "[]" dec io] chunk_step_def)
qed

section \<open>Encoded chunks\<close>

definition encode_chunk :: "bytes \<Rightarrow> bytes" where
  "encode_chunk b = to_hex (length b) @ crlf @ b @ crlf"

lemma hex_no_CR: "c \<in> set (to_hex n) \<Longrightarrow> c \<noteq> CR"
proof
  assume "c \<in> set (to_hex n)" "c = CR"
  then have "digit_val 16 CR \<noteq> None" using to_base_value [of 16 n] by auto
  then show False by (simp add: digit_val_def)
qed

lemma find_crlf_hex: "find_sub crlf (to_hex n @ crlf @ rest) = Some (length (to_hex n))"
proof (rule find_sub_eqI)
  fix j assume j: "j < length (to_hex n)"
  have "hd (drop j (to_hex n @ crlf @ rest)) = to_hex n ! j"
    using j by (simp add: hd_drop_conv_nth nth_append)
  then have "hd (drop j (to_hex n @ crlf @ rest)) \<noteq> CR" using hex_no_CR [OF nth_mem [OF j]] by simp
  then show "\<not> prefix crlf (drop j (to_hex n @ crlf @ rest))"
    by (cases "drop j (to_hex n @ crlf @ rest)") auto
qed simp

lemma decode_size_chunk:
  assumes "b \<noteq> []" "length b \<le> MAX_TE_CHUNK_LENGTH cfg" "t + length b \<le> MAX_TE_LENGTH cfg"
    "MAX_TE_LENGTH cfg < sz_limit"
  shows "decode_size cfg t (encode_chunk b @ rest) = decode_after b (decode_size cfg (t + length b) rest)"
proof -
  have add: "sz_add t (length b) = t + length b" using assms by (simp add: sz_simps)
  have from': "from_chars 16 (to_hex (length b)) = FcOk (length b) (length (to_hex (length b)))"
    using from_chars_to_base [of 16 "length b" "[]"] assms by simp
  have find: "find_sub crlf (encode_chunk b @ rest) = Some (length (to_hex (length b)))"
    using find_crlf_hex [of "length b" "b @ crlf @ rest"] by (simp add: encode_chunk_def)
  have tk: "take (length (to_hex (length b))) (encode_chunk b @ rest) = to_hex (length b)"
    and dr: "drop (length (to_hex (length b)) + 2) (encode_chunk b @ rest) = b @ crlf @ rest"
    by (simp_all add: encode_chunk_def)
  have "decode_body cfg (t + length b) (length b) (b @ crlf @ rest) = decode_after b (decode_size cfg (t + length b) rest)"
    by (simp add: decode_body_def decode_crlf_def decode_after_def split: prod.split)
  then show ?thesis
    using assms unfolding decode_size_unfold [of cfg t] find option.case tk from' from_chars_result.case dr
    by (simp add: add)
qed

lemma decode_size_last: "decode_size cfg t (encode_chunk [] @ rest) = ([], Trailer (crlf @ rest))"
proof -
  have "to_hex 0 = ''0''" by code_simp
  moreover have "from_chars 16 ''0'' = FcOk 0 1"
    using from_chars_to_base [of 16 0 "[]"] \<open>to_hex 0 = ''0''\<close> by simp
  moreover have "find_sub crlf (''0'' @ crlf @ crlf @ rest) = Some 1" by simp
  ultimately show ?thesis
    by (subst decode_size_unfold) (simp add: encode_chunk_def)
qed

lemma decode_size_encoded:
  assumes "\<forall>b \<in> set bs. b \<noteq> [] \<and> length b \<le> MAX_TE_CHUNK_LENGTH cfg"
    "t + length (concat bs) \<le> MAX_TE_LENGTH cfg" "MAX_TE_LENGTH cfg < sz_limit"
  shows "decode_size cfg t (concat (map encode_chunk bs) @ encode_chunk [] @ rest) = (concat bs, Trailer (crlf @ rest))"
  using assms
proof (induction bs arbitrary: t)
  case Nil
  then show ?case using decode_size_last by simp
next
  case (Cons b bs)
  have "decode_size cfg (t + length b) (concat (map encode_chunk bs) @ encode_chunk [] @ rest) = (concat bs, Trailer (crlf @ rest))"
    using Cons by simp
  then show ?case using Cons.prems decode_size_chunk [of b cfg t] by (simp add: decode_after_def)
qed

end
