(* ===== verification/BodyStream.thy ===== *)
theory BodyStream
  imports Config
begin

text \<open>
  The body of a request, \<open>rukh/include/rukh/http/BodyStream.hpp\<close>: how much is left, whether it is
  exhausted, and a callback that fetches the next bytes. The callback is an argument of the
  operations, with the state \<open>'s\<close> of the connection it works on; \<open>None\<close> is a callback that does
  not return.

  The locale \<open>body_source\<close> is the contract between a stream and its callback. What the stream's
  operations deliver is proved from it once; the callbacks of the connection are its interpretations.
\<close>

section \<open>The stream\<close>

record body_stream =
  exhausted :: bool
  remaining :: nat

type_synonym 's body_read_fn = "nat \<Rightarrow> nat \<Rightarrow> 's \<Rightarrow> (bytes result \<times> 's) option"
type_synonym 's body_drain_fn = "nat \<Rightarrow> 's \<Rightarrow> (unit result \<times> 's) option"

definition new_body_stream :: "nat \<Rightarrow> body_stream" where
  "new_body_stream contentLength = \<lparr>exhausted = False, remaining = contentLength\<rparr>"

definition isExhausted :: "body_stream \<Rightarrow> bool" where
  "isExhausted b = exhausted b"

text \<open>\<open>read\<close> into a span of \<open>n\<close> bytes. \<open>remaining_ -= n\<close> wraps: a chunked body starts at 0.\<close>

definition bs_read :: "'s body_read_fn \<Rightarrow> nat \<Rightarrow> body_stream \<Rightarrow> 's \<Rightarrow> (bytes result \<times> body_stream \<times> 's) option" where
  "bs_read readFn n b s =
     (if exhausted b then Some (Inr [], b, s)
      else
        (case readFn n (remaining b) s of
           None \<Rightarrow> None
         | Some (Inl e, s') \<Rightarrow> Some (Inl e, b, s')
         | Some (Inr bs, s') \<Rightarrow>
             let rem = sz_sub (remaining b) (length bs)
             in Some (Inr bs, \<lparr>exhausted = (bs = [] \<or> rem = 0), remaining = rem\<rparr>, s')))"

text \<open>The loop of \<open>readAll\<close>; \<open>got\<close> is the variable \<open>n\<close>, the size of the last read.\<close>

function read_all_loop :: "'s body_read_fn \<Rightarrow> nat \<Rightarrow> nat \<Rightarrow> bytes \<Rightarrow> body_stream \<Rightarrow> 's \<Rightarrow>
    (nat result \<times> bytes \<times> body_stream \<times> 's) option" where
  "read_all_loop readFn limit got buf b s =
     (if length buf < limit then
        (case bs_read readFn 4096 b s of
           None \<Rightarrow> None
         | Some (Inl e, b', s') \<Rightarrow> Some (Inl e, buf, b', s')
         | Some (Inr bs, b', s') \<Rightarrow>
             if bs = [] then Some (Inr (length buf), buf, b', s')
             else read_all_loop readFn limit (length bs) (buf @ bs) b' s')
      else if got > 0 then Some (Inl (ServerException ''Content limit exceeded'' 413 True), buf, b, s)
      else Some (Inr (length buf), buf, b, s))"
  by pat_completeness auto
termination
  by (relation "measure (\<lambda>(f, limit, got, buf, b, s). limit - length buf)")
     (auto intro!: diff_less_mono2)

declare read_all_loop.simps [simp del]

text \<open>The result, the string read into, and the new state.\<close>

definition readAll :: "'s body_read_fn \<Rightarrow> nat \<Rightarrow> bytes \<Rightarrow> body_stream \<Rightarrow> 's \<Rightarrow>
    (nat result \<times> bytes \<times> body_stream \<times> 's) option" where
  "readAll readFn limit buf b s =
     (if exhausted b then Some (Inr 0, buf, b, s) else read_all_loop readFn limit 0 buf b s)"

text \<open>\<open>streamUsing\<close>: the caller's function is applied to every piece, it may throw.\<close>

partial_function (option) streamUsing :: "'s body_read_fn \<Rightarrow> (bytes \<Rightarrow> 'u \<Rightarrow> 'u result) \<Rightarrow> 'u \<Rightarrow> body_stream \<Rightarrow> 's \<Rightarrow>
    ('u result \<times> body_stream \<times> 's) option" where
  "streamUsing readFn f u b s =
     (case bs_read readFn 4096 b s of
        None \<Rightarrow> None
      | Some (Inl e, b', s') \<Rightarrow> Some (Inl e, b', s')
      | Some (Inr bs, b', s') \<Rightarrow>
          if bs = [] then Some (Inr u, b', s')
          else (case f bs u of Inl e \<Rightarrow> Some (Inl e, b', s') | Inr u' \<Rightarrow> streamUsing readFn f u' b' s'))"

definition bs_drain :: "'s body_drain_fn \<Rightarrow> body_stream \<Rightarrow> 's \<Rightarrow> (unit result \<times> 's) option" where
  "bs_drain drainFn b s = (if exhausted b then Some (Inr (), s) else drainFn (remaining b) s)"

section \<open>The contract of the callback\<close>

text \<open>
  \<open>body rem s\<close> is what the source still has to deliver when the stream counts \<open>rem\<close> bytes left.
  A read delivers a beginning of it that fits into the span, and nothing only at its end.
\<close>

locale body_source =
  fixes readFn :: "'s body_read_fn"
    and body :: "nat \<Rightarrow> 's \<Rightarrow> bytes"
    and ready :: "nat \<Rightarrow> 's \<Rightarrow> bool"
  assumes delivers: "ready rem s \<Longrightarrow> 0 < n \<Longrightarrow> readFn n rem s = Some (Inr bs, s') \<Longrightarrow>
      body rem s = bs @ body (sz_sub rem (length bs)) s' \<and> length bs \<le> n \<and> ready (sz_sub rem (length bs)) s'"
    and ends: "ready rem s \<Longrightarrow> 0 < n \<Longrightarrow> readFn n rem s = Some (Inr bs, s') \<Longrightarrow>
      bs = [] \<or> sz_sub rem (length bs) = 0 \<Longrightarrow> body (sz_sub rem (length bs)) s' = []"
    and returns: "ready rem s \<Longrightarrow> 0 < n \<Longrightarrow> readFn n rem s \<noteq> None"
begin

definition left :: "body_stream \<Rightarrow> 's \<Rightarrow> bytes" where
  "left b s = (if exhausted b then [] else body (remaining b) s)"

definition good :: "body_stream \<Rightarrow> 's \<Rightarrow> bool" where
  "good b s \<longleftrightarrow> exhausted b \<or> ready (remaining b) s"

lemma read_delivers:
  assumes "good b s" "0 < n" "bs_read readFn n b s = Some (Inr bs, b', s')"
  shows "left b s = bs @ left b' s' \<and> length bs \<le> n \<and> good b' s' \<and> (bs = [] \<longrightarrow> left b' s' = [])"
proof (cases "exhausted b")
  case True
  then show ?thesis using assms by (auto simp: bs_read_def left_def good_def)
next
  case False
  then have r: "ready (remaining b) s" using assms(1) by (simp add: good_def)
  have f: "readFn n (remaining b) s = Some (Inr bs, s')"
    and b': "b' = \<lparr>exhausted = (bs = [] \<or> sz_sub (remaining b) (length bs) = 0),
      remaining = sz_sub (remaining b) (length bs)\<rparr>"
    using assms(3) False by (auto simp: bs_read_def Let_def split: option.splits sum.splits prod.splits)
  show ?thesis using delivers [OF r assms(2) f] ends [OF r assms(2) f] False b'
    by (auto simp: left_def good_def)
qed

definition throws :: "exn \<Rightarrow> bool" where
  "throws e \<longleftrightarrow> (\<exists>n rem s s'. readFn n rem s = Some (Inl e, s'))"

lemma read_throws:
  assumes "bs_read readFn n b s = Some (Inl e, b', s')"
  shows "throws e"
  using assms unfolding throws_def by (fastforce simp: bs_read_def Let_def split: if_splits option.splits sum.splits prod.splits)

lemma read_all_loop_delivers:
  assumes "read_all_loop readFn limit got buf b s = Some (r, buf', b', s')" "good b s"
  shows "case r of
      Inr k \<Rightarrow> k = length buf' \<and> good b' s' \<and>
        (if length buf < limit then buf' = buf @ left b s \<and> length buf' < limit \<and> left b' s' = []
         else got = 0 \<and> buf' = buf)
    | Inl e \<Rightarrow> prefix buf' (buf @ left b s) \<and>
        (e = ServerException ''Content limit exceeded'' 413 True \<and> limit \<le> length buf'
         \<or> throws e)"
  using assms
proof (induction "limit - length buf" arbitrary: got buf b s rule: less_induct)
  case less
  show ?case
  proof (cases "length buf < limit")
    case False
    then show ?thesis using less.prems
      by (auto simp: read_all_loop.simps [of readFn limit got buf b s] split: if_splits)
  next
    case True
    obtain d b1 s1 where rd: "bs_read readFn 4096 b s = Some (d, b1, s1)"
      using less.prems True
      by (auto simp: read_all_loop.simps [of readFn limit got buf b s] split: option.splits)
    show ?thesis
    proof (cases d)
      case (Inl e)
      then show ?thesis using less.prems True rd read_throws [of 4096 b s e b1 s1]
        by (auto simp: read_all_loop.simps [of readFn limit got buf b s])
    next
      case (Inr bs)
      note rel = read_delivers [OF less.prems(2) _ rd [unfolded Inr]]
      show ?thesis
      proof (cases "bs = []")
        case True
        then show ?thesis using less.prems \<open>length buf < limit\<close> rd Inr rel
          by (auto simp: read_all_loop.simps [of readFn limit got buf b s])
      next
        case False
        have l: "read_all_loop readFn limit (length bs) (buf @ bs) b1 s1 = Some (r, buf', b', s')"
          using less.prems True rd Inr False by (simp add: read_all_loop.simps [of readFn limit got buf b s])
        have m: "limit - length (buf @ bs) < limit - length buf" using True False by (cases bs) auto
        have g: "good b1 s1" using rel by simp
        from less.hyps [OF m l g] show ?thesis using rel True False
          by (auto split: sum.splits if_splits)
      qed
    qed
  qed
qed

text \<open>\<open>readAll\<close> into an empty string: the whole body, or 413 when it has \<open>limit\<close> bytes or more.\<close>

lemma readAll_delivers:
  assumes "readAll readFn limit [] b s = Some (r, buf', b', s')" "good b s" "\<not> exhausted b"
  shows "case r of
      Inr k \<Rightarrow> buf' = left b s \<and> k = length buf' \<and> left b' s' = [] \<or> limit = 0 \<and> buf' = [] \<and> k = 0
    | Inl e \<Rightarrow> prefix buf' (left b s) \<and>
        (e = ServerException ''Content limit exceeded'' 413 True \<and> limit \<le> length (left b s)
         \<or> throws e)"
proof -
  have "read_all_loop readFn limit 0 [] b s = Some (r, buf', b', s')"
    using assms by (simp add: readAll_def)
  from read_all_loop_delivers [OF this assms(2)] show ?thesis
    by (auto split: sum.splits if_splits dest: prefix_length_le)
qed

lemma read_all_loop_returns: "good b s \<Longrightarrow> read_all_loop readFn limit got buf b s \<noteq> None"
proof (induction "limit - length buf" arbitrary: got buf b s rule: less_induct)
  case less
  show ?case
  proof (cases "length buf < limit")
    case True
    have "bs_read readFn 4096 b s \<noteq> None"
      using less.prems returns [of "remaining b" s 4096] by (auto simp: bs_read_def good_def Let_def split: option.split sum.split)
    then obtain d b1 s1 where rd: "bs_read readFn 4096 b s = Some (d, b1, s1)" by (metis option.exhaust prod_cases3)
    show ?thesis
    proof (cases "\<exists>bs. d = Inr bs \<and> bs \<noteq> []")
      case True
      then obtain bs where bs: "d = Inr bs" "bs \<noteq> []" by blast
      have "good b1 s1" using read_delivers [OF less.prems _ rd [unfolded bs(1)]] by simp
      moreover have "limit - length (buf @ bs) < limit - length buf" using bs(2) \<open>length buf < limit\<close>
        by (auto intro: diff_less_mono2)
      ultimately show ?thesis using less.hyps rd bs \<open>length buf < limit\<close>
        by (simp add: read_all_loop.simps [of readFn limit got buf b s])
    next
      case False
      then show ?thesis using rd True
        by (cases d) (auto simp: read_all_loop.simps [of readFn limit got buf b s])
    qed
  qed (simp add: read_all_loop.simps [of readFn limit got buf b s])
qed

lemma readAll_returns: "good b s \<Longrightarrow> \<exists>r buf' b' s'. readAll readFn limit buf b s = Some (r, buf', b', s')"
  using read_all_loop_returns [of b s limit 0 buf] by (auto simp: readAll_def)

lemma readAll_limit:
  assumes "readAll readFn limit [] b s = Some (Inr k, buf', b', s')" "good b s" "\<not> exhausted b" "0 < limit"
  shows "length (left b s) < limit"
proof -
  have "read_all_loop readFn limit 0 [] b s = Some (Inr k, buf', b', s')"
    using assms by (simp add: readAll_def)
  from read_all_loop_delivers [OF this assms(2)] show ?thesis using assms(4) by auto
qed

end

end
