(* ===== verification/Session.thy ===== *)
theory Session
  imports StringUtils
begin

text \<open>
  Sessions: \<open>rukh/include/rukh/http/session/Session.hpp\<close>, \<open>SessionHandle.hpp\<close> and the in-memory
  store of \<open>InMemorySessionStore.hpp\<close>. The locale \<open>session_store\<close> is the interface
  \<open>ISessionStore\<close> with the laws its users rely on; the handle's lemmas are proved inside it and the
  in-memory store is its interpretation. Times are seconds, read from the clock by each operation.
\<close>

section \<open>Session\<close>

record session =
  data :: "string \<Rightarrow> string option"
  isNew :: bool
  isDirty :: bool
  isInvalidated :: bool

definition new_session :: session where
  "new_session = \<lparr>data = Map.empty, isNew = True, isDirty = False, isInvalidated = False\<rparr>"

definition session_get :: "string \<Rightarrow> session \<Rightarrow> string option" where
  "session_get key s = data s key"

definition session_set :: "string \<Rightarrow> string \<Rightarrow> session \<Rightarrow> session" where
  "session_set key v s = s\<lparr>data := (data s)(key := Some v), isDirty := True\<rparr>"

definition session_remove :: "string \<Rightarrow> session \<Rightarrow> session" where
  "session_remove key s = s\<lparr>data := (data s)(key := None), isDirty := True\<rparr>"

definition session_has :: "string \<Rightarrow> session \<Rightarrow> bool" where
  "session_has key s \<longleftrightarrow> data s key \<noteq> None"

definition session_invalidate :: "session \<Rightarrow> session" where
  "session_invalidate s = s\<lparr>isInvalidated := True\<rparr>"

definition session_markLoaded :: "session \<Rightarrow> session" where
  "session_markLoaded s = s\<lparr>isNew := False\<rparr>"

section \<open>The store interface\<close>

text \<open>\<open>live st now sid\<close> is the session a load would find. A saved session is found, with the
  data saved, until its time to live has passed or unless it was invalidated.\<close>

locale session_store =
  fixes ttl :: int
    and live :: "'st \<Rightarrow> int \<Rightarrow> string \<Rightarrow> session option"
    and load :: "int \<Rightarrow> string \<Rightarrow> 'st \<Rightarrow> session option \<times> 'st"
    and save :: "int \<Rightarrow> string \<Rightarrow> session \<Rightarrow> 'st \<Rightarrow> 'st"
    and destroy :: "string \<Rightarrow> 'st \<Rightarrow> 'st"
  assumes load_result: "fst (load now sid st) = live st now sid"
    and load_keeps: "now \<le> now' \<Longrightarrow> live (snd (load now sid st)) now' = live st now'"
    and live_save: "live (save now sid s st) now' sid' =
      (if sid' = sid then if now' - now > ttl \<or> isInvalidated s then None else Some s else live st now' sid')"
    and live_destroy: "live (destroy sid st) now sid' = (if sid' = sid then None else live st now sid')"
begin

lemma load_after_save:
  "now \<le> now' \<Longrightarrow> now' - now \<le> ttl \<Longrightarrow> \<not> isInvalidated s \<Longrightarrow> fst (load now' sid (save now sid s st)) = Some s"
  by (simp add: load_result live_save)

lemma load_after_destroy: "fst (load now sid (destroy sid st)) = None"
  by (simp add: load_result live_destroy)

lemma load_after_expiry: "ttl < now' - now \<Longrightarrow> fst (load now' sid (save now sid s st)) = None"
  by (simp add: load_result live_save)

lemma saves_commute:
  "sid \<noteq> sid' \<Longrightarrow> live (save now sid s (save now' sid' s' st)) t k = live (save now' sid' s' (save now sid s st)) t k"
  by (simp add: live_save)

end

section \<open>InMemorySessionStore\<close>

type_synonym memory_store = "string \<Rightarrow> (session \<times> int) option"

definition mem_load :: "int \<Rightarrow> int \<Rightarrow> string \<Rightarrow> memory_store \<Rightarrow> session option \<times> memory_store" where
  "mem_load ttl now sid sessions =
     (case sessions sid of
        None \<Rightarrow> (None, sessions)
      | Some (s, lastAccessed) \<Rightarrow>
          if \<not> (now - lastAccessed > ttl \<or> isInvalidated s) then (Some s, sessions)
          else (None, sessions(sid := None)))"

definition mem_save :: "int \<Rightarrow> string \<Rightarrow> session \<Rightarrow> memory_store \<Rightarrow> memory_store" where
  "mem_save now sid s sessions = sessions(sid := Some (s, now))"

definition mem_destroy :: "string \<Rightarrow> memory_store \<Rightarrow> memory_store" where
  "mem_destroy sid sessions = sessions(sid := None)"

text \<open>\<open>generateId\<close> on the 32 bytes that \<open>RAND_bytes\<close> gave.\<close>

definition mem_generateId :: "bytes \<Rightarrow> string" where
  "mem_generateId buf =
     concat (map (\<lambda>c. [digit_char (of_char c div 16), digit_char (of_char c mod 16)]) buf)"

definition mem_live :: "int \<Rightarrow> memory_store \<Rightarrow> int \<Rightarrow> string \<Rightarrow> session option" where
  "mem_live ttl sessions now sid =
     (case sessions sid of
        None \<Rightarrow> None
      | Some (s, lastAccessed) \<Rightarrow> if now - lastAccessed > ttl \<or> isInvalidated s then None else Some s)"

interpretation memory: session_store ttl "mem_live ttl" "mem_load ttl" mem_save mem_destroy for ttl
  by unfold_locales
     (auto simp: mem_live_def mem_load_def mem_save_def mem_destroy_def fun_eq_iff split: option.splits prod.splits)

lemma length_generateId: "length (mem_generateId buf) = 2 * length buf"
  by (induction buf) (simp_all add: mem_generateId_def)

lemma digit_char_alnum: "d < 16 \<Longrightarrow> c_isalnum (digit_char d)"
  by (auto simp: digit_char_def c_isalnum_def c_isdigit_def c_islower_def)

lemma generateId_alnum: "c \<in> set (mem_generateId buf) \<Longrightarrow> c_isalnum c"
proof -
  assume "c \<in> set (mem_generateId buf)"
  then obtain x where "c = digit_char (of_char x div 16) \<or> c = digit_char (of_char x mod 16)"
    by (auto simp: mem_generateId_def)
  moreover have "(of_char x :: nat) div 16 < 16" 
    by (rule less_mult_imp_div_less) (use nat_of_char_less_256 [of x] in simp)
  ultimately show ?thesis by (auto intro: digit_char_alnum)
qed

section \<open>SessionHandle\<close>

record session_handle =
  handle_id :: string
  handle_session :: "session option"

definition new_handle :: "string \<Rightarrow> session_handle" where
  "new_handle sid = \<lparr>handle_id = sid, handle_session = None\<rparr>"

text \<open>\<open>SessionHandle::get\<close> with the store's \<open>load\<close> as an argument.\<close>

definition handle_get :: "(int \<Rightarrow> string \<Rightarrow> 'st \<Rightarrow> session option \<times> 'st) \<Rightarrow> int \<Rightarrow>
    session_handle \<Rightarrow> 'st \<Rightarrow> session \<times> session_handle \<times> 'st" where
  "handle_get load now h st =
     (case handle_session h of
        Some s \<Rightarrow> (s, h, st)
      | None \<Rightarrow>
          let (found, st') = (if handle_id h \<noteq> [] then load now (handle_id h) st else (None, st));
              s = (case found of Some s \<Rightarrow> session_markLoaded s | None \<Rightarrow> new_session)
          in (s, h\<lparr>handle_session := Some s\<rparr>, st'))"

definition wasLoaded :: "session_handle \<Rightarrow> bool" where
  "wasLoaded h \<longleftrightarrow> handle_session h \<noteq> None"

record session_config =
  minIdSize :: nat
  maxIdSize :: nat
  cookieHttpOnly :: bool
  cookieSecure :: bool

definition default_session_config :: session_config where
  "default_session_config = \<lparr>minIdSize = 8, maxIdSize = 64, cookieHttpOnly = False, cookieSecure = False\<rparr>"

text \<open>\<open>SessionMiddleware::sanitize\<close>.\<close>

definition sanitize :: "session_config \<Rightarrow> string \<Rightarrow> string" where
  "sanitize sc sid =
     (if length sid < minIdSize sc \<or> length sid > maxIdSize sc then []
      else if \<exists>c \<in> set sid. \<not> c_isalnum c \<and> c \<noteq> CHR ''-'' \<and> c \<noteq> CHR ''_'' then []
      else sid)"

context session_store
begin

text \<open>The first access loads the session and caches it; later ones do not touch the store.\<close>

lemma handle_get_cached:
  "handle_get load now h st = (s, h', st') \<Longrightarrow> handle_get load now' h' st' = (s, h', st')"
  by (auto simp: handle_get_def Let_def split: option.splits prod.splits)

lemma handle_get_loaded:
  assumes "handle_session h = None" "handle_id h \<noteq> []" "live st now (handle_id h) = Some s"
  shows "fst (handle_get load now h st) = session_markLoaded s"
  using assms load_result [of now "handle_id h" st]
  by (auto simp: handle_get_def Let_def split: prod.split)

lemma handle_get_new:
  assumes "handle_session h = None" "handle_id h = [] \<or> live st now (handle_id h) = None"
  shows "fst (handle_get load now h st) = new_session"
  using assms load_result [of now "handle_id h" st]
  by (auto simp: handle_get_def Let_def split: prod.split)

end

text \<open>The identifiers that the store generates pass the sanitizer of the default configuration.\<close>

lemma sanitize_generated:
  "length buf = 32 \<Longrightarrow> sanitize default_session_config (mem_generateId buf) = mem_generateId buf"
  using generateId_alnum [of _ buf]
  by (auto simp: sanitize_def default_session_config_def length_generateId)

lemma sanitize_chars: "c \<in> set (sanitize sc sid) \<Longrightarrow> c_isalnum c \<or> c = CHR ''-'' \<or> c = CHR ''_''"
  by (auto simp: sanitize_def split: if_splits)

end
