(* ===== verification/HttpRequest.thy ===== *)
theory HttpRequest
  imports HeaderStore HttpUtils Ranges BodyStream Session
begin

text \<open>
  Requests: \<open>rukh/src/http/HttpRequest.cpp\<close>. The parser of a request header, the header operations
  (the second interpretation of \<open>header_map\<close>), and what handlers read from a request: cookies,
  ranges, parameters, content length, form data.

  A \<open>string_view\<close> into the path is the string it shows. The session handle the middleware attaches is the
  field \<open>sessionHandle\<close>.
\<close>

record http_request =
  req_headers :: headers
  queryParams :: headers
  attributes :: headers
  pathParams :: headers
  contentLength :: "nat option"
  bodyStream :: "body_stream option"
  sessionHandle :: "session_handle option"
  req_method :: string
  rawPath :: string
  req_path :: string
  version :: string
  req_ip :: string
  req_port :: nat
  pathParts :: "string list"

definition empty_request :: http_request where
  "empty_request = \<lparr>req_headers = [], queryParams = [], attributes = [], pathParams = [],
     contentLength = None, bodyStream = None, sessionHandle = None, req_method = [], rawPath = [],
     req_path = [], version = [], req_ip = [], req_port = 0, pathParts = []\<rparr>"

definition req_reset :: "string \<Rightarrow> nat \<Rightarrow> http_request \<Rightarrow> http_request" where
  "req_reset ip port r = r\<lparr>req_headers := [], queryParams := [], attributes := [], pathParams := [],
     req_method := [], rawPath := [], req_path := [], version := [], pathParts := [],
     contentLength := None, sessionHandle := None, bodyStream := None, req_ip := ip, req_port := port\<rparr>"

text \<open>A request object before it is parsed: new, or reset by the previous turn of the connection.\<close>

definition fresh_request :: "http_request \<Rightarrow> bool" where
  "fresh_request r \<longleftrightarrow> req_headers r = [] \<and> queryParams r = [] \<and> attributes r = [] \<and> pathParams r = [] \<and> contentLength r = None
     \<and> bodyStream r = None \<and> sessionHandle r = None \<and> req_method r = [] \<and> rawPath r = [] \<and> req_path r = [] \<and> version r = []
     \<and> pathParts r = []"

lemma fresh_reset [simp]: "fresh_request (req_reset ip port r)"
  by (simp add: fresh_request_def req_reset_def)

lemma fresh_empty [simp]: "fresh_request empty_request"
  by (simp add: fresh_request_def empty_request_def)

section \<open>Headers\<close>

definition singletonHeaders :: "string list" where
  "singletonHeaders = [''host'', ''content-length'', ''content-type'', ''transfer-encoding'',
     ''authorization'', ''expect'']"

definition getHeader :: "http_request \<Rightarrow> string \<Rightarrow> string" where
  "getHeader r name =
     (let key = toLowerCase name in
      case find_idx (\<lambda>p. fst p = key) (rev (req_headers r)) of
        Some i \<Rightarrow> snd (rev (req_headers r) ! i) | None \<Rightarrow> [])"

definition getHeaderLower :: "http_request \<Rightarrow> string \<Rightarrow> string" where
  "getHeaderLower r lowerKey =
     (case find_idx (\<lambda>p. fst p = lowerKey) (rev (req_headers r)) of
        Some i \<Rightarrow> snd (rev (req_headers r) ! i) | None \<Rightarrow> [])"

definition getHeaders :: "http_request \<Rightarrow> string \<Rightarrow> string list" where
  "getHeaders r name = getAllValues (req_headers r) (toLowerCase name)"

definition setHeader :: "string \<Rightarrow> string \<Rightarrow> http_request \<Rightarrow> http_request" where
  "setHeader name v r =
     (let key = toLowerCase name in r\<lparr>req_headers := filter (\<lambda>p. fst p \<noteq> key) (req_headers r) @ [(key, v)]\<rparr>)"

definition setHeaderLower :: "string \<Rightarrow> string \<Rightarrow> http_request \<Rightarrow> http_request" where
  "setHeaderLower lowercaseKey v r =
     r\<lparr>req_headers := filter (\<lambda>p. fst p \<noteq> lowercaseKey) (req_headers r) @ [(lowercaseKey, v)]\<rparr>"

definition addHeader :: "string \<Rightarrow> string \<Rightarrow> http_request \<Rightarrow> http_request" where
  "addHeader name v r =
     (let key = toLowerCase name in
      if key \<in> set singletonHeaders then
        if find_idx (\<lambda>p. fst p = key) (req_headers r) = None
        then r\<lparr>req_headers := req_headers r @ [(key, v)]\<rparr> else r
      else r\<lparr>req_headers := req_headers r @ [(key, v)]\<rparr>)"

definition addHeaderLower :: "string \<Rightarrow> string \<Rightarrow> http_request \<Rightarrow> http_request" where
  "addHeaderLower lowercaseKey v r =
     (if lowercaseKey \<in> set singletonHeaders then
        if find_idx (\<lambda>p. fst p = lowercaseKey) (req_headers r) = None
        then r\<lparr>req_headers := req_headers r @ [(lowercaseKey, v)]\<rparr> else r
      else r\<lparr>req_headers := req_headers r @ [(lowercaseKey, v)]\<rparr>)"

definition removeHeader :: "string \<Rightarrow> http_request \<Rightarrow> http_request" where
  "removeHeader name r =
     (let key = toLowerCase name in r\<lparr>req_headers := filter (\<lambda>p. fst p \<noteq> key) (req_headers r)\<rparr>)"

interpretation req: header_map req_headers "\<lambda>k. k \<in> set singletonHeaders"
  setHeaderLower addHeaderLower removeHeader
  by unfold_locales
     (auto simp: setHeaderLower_def addHeaderLower_def removeHeader_def find_key_None)

lemma find_rev_last:
  "(case find_idx (\<lambda>p. fst p = k) (rev hs) of Some i \<Rightarrow> snd (rev hs ! i) | None \<Rightarrow> []) = getLastOrDefault hs k []"
proof -
  have "(case find_idx (\<lambda>p. fst p = k) ps of Some i \<Rightarrow> snd (ps ! i) | None \<Rightarrow> []) =
      (case map_of ps k of Some v \<Rightarrow> v | None \<Rightarrow> ([] :: string))" for ps
  proof (induction ps)
    case (Cons p ps)
    then show ?case by (cases "find_idx (\<lambda>p. fst p = k) ps") (auto split: option.splits)
  qed simp
  then show ?thesis by (simp add: getLastOrDefault_def)
qed

lemma getHeaderLower_last:
  "getHeaderLower r k = (if getAllValues (req_headers r) k = [] then [] else last (getAllValues (req_headers r) k))"
  by (simp add: getHeaderLower_def find_rev_last getLastOrDefault_last)

lemma getHeader_lower: "getHeader r name = getHeaderLower r (toLowerCase name)"
  by (simp add: getHeader_def getHeaderLower_def Let_def)

section \<open>Parameters and attributes\<close>

definition setAttribute :: "string \<Rightarrow> string \<Rightarrow> http_request \<Rightarrow> http_request" where
  "setAttribute key v r = r\<lparr>attributes := filter (\<lambda>p. fst p \<noteq> key) (attributes r) @ [(key, v)]\<rparr>"

definition getAttribute :: "http_request \<Rightarrow> string \<Rightarrow> string \<Rightarrow> string" where
  "getAttribute r key defaultValue = getLastOrDefault (attributes r) key defaultValue"

definition getQueryParam :: "http_request \<Rightarrow> string \<Rightarrow> string \<Rightarrow> string" where
  "getQueryParam r key defaultValue = getLastOrDefault (queryParams r) key defaultValue"

definition getQueryParams :: "http_request \<Rightarrow> string \<Rightarrow> string list" where
  "getQueryParams r key = getAllValues (queryParams r) key"

definition getPathParam :: "http_request \<Rightarrow> string \<Rightarrow> string \<Rightarrow> string" where
  "getPathParam r key defaultValue = getLastOrDefault (pathParams r) key defaultValue"

definition setPathParams :: "headers \<Rightarrow> http_request \<Rightarrow> http_request" where
  "setPathParams ps r = r\<lparr>pathParams := ps\<rparr>"

datatype content_length_error = NO_CONTENT_LENGTH_HEADER | INVALID_CONTENT_LENGTH

text \<open>\<open>getContentLength\<close> caches the value it parsed. What follows the digits is not looked at.\<close>

definition getContentLength :: "http_request \<Rightarrow> (content_length_error + nat) \<times> http_request" where
  "getContentLength r =
     (case contentLength r of
        Some n \<Rightarrow> (Inr n, r)
      | None \<Rightarrow>
          let lenStr = getHeaderLower r ''content-length'' in
          if lenStr = [] then (Inl NO_CONTENT_LENGTH_HEADER, r)
          else (case from_chars 10 lenStr of
                  FcOk len _ \<Rightarrow> (Inr len, r\<lparr>contentLength := Some len\<rparr>)
                | _ \<Rightarrow> (Inl INVALID_CONTENT_LENGTH, r)))"

definition getContentType :: "http_request \<Rightarrow> string" where
  "getContentType r =
     (let header = getHeaderLower r ''content-type'' in
      case find_char CHR '';'' header of Some i \<Rightarrow> take i header | None \<Rightarrow> header)"

definition req_getRanges :: "http_request \<Rightarrow> byte_range list" where
  "req_getRanges r = getRanges (getHeaderLower r ''range'')"

text \<open>\<open>getSession\<close>: no session is the null pointer; the first call loads it through the handle.\<close>

definition getSession :: "(int \<Rightarrow> string \<Rightarrow> 'st \<Rightarrow> session option \<times> 'st) \<Rightarrow> int \<Rightarrow> http_request \<Rightarrow> 'st \<Rightarrow>
    session option \<times> http_request \<times> 'st" where
  "getSession load now r st =
     (case sessionHandle r of
        None \<Rightarrow> (None, r, st)
      | Some h \<Rightarrow>
          let (s, h', st') = handle_get load now h st in (Some s, r\<lparr>sessionHandle := Some h'\<rparr>, st'))"

lemma getSession_again:
  "getSession load now r st = (Some s, r', st') \<Longrightarrow> getSession load now' r' st' = (Some s, r', st')"
  by (auto simp: getSession_def handle_get_def Let_def split: option.splits prod.splits)

section \<open>Cookies\<close>

text \<open>The text before the first separator, and what follows it, if there is one.\<close>

definition cut :: "char \<Rightarrow> string \<Rightarrow> string \<times> string option" where
  "cut c s = (case find_char c s of None \<Rightarrow> (s, None) | Some i \<Rightarrow> (take i s, Some (drop (i + 1) s)))"

lemma cut_shorter [termination_simp]: "cut c s = (a, Some b) \<Longrightarrow> length b < length s"
  by (auto simp: cut_def split: option.splits dest!: find_idx_less)

function cookie_loop :: "string \<Rightarrow> headers \<Rightarrow> headers" where
  "cookie_loop cookieHeader cookies =
     (let (piece, rest) = cut CHR '';'' cookieHeader;
          cookiePair = trim piece;
          cookies' = (case find_char CHR ''='' cookiePair of
                        Some eqpos \<Rightarrow> cookies @ [(take eqpos cookiePair, drop (eqpos + 1) cookiePair)]
                      | None \<Rightarrow> cookies)
      in case rest of None \<Rightarrow> cookies' | Some r \<Rightarrow> cookie_loop r cookies')"
  by pat_completeness auto
termination
  by (relation "measure (\<lambda>(h, c). length h)") (auto dest!: sym [of "(_, _)" "cut _ _"] cut_shorter)

declare cookie_loop.simps [simp del]

definition getCookies :: "http_request \<Rightarrow> headers" where
  "getCookies r =
     (let cookieHeader = getHeaderLower r ''cookie'' in
      if cookieHeader = [] then [] else cookie_loop cookieHeader [])"

definition getCookie :: "http_request \<Rightarrow> string \<Rightarrow> string option" where
  "getCookie r name = map_of (getCookies r) name"

section \<open>Parsing a request\<close>

text \<open>The loop over the query string; an empty value and a missing one read ''true''.\<close>

function query_loop :: "string \<Rightarrow> headers \<Rightarrow> headers" where
  "query_loop view ps =
     (let (piece, rest) = cut CHR ''&'' view;
          p = (case find_char CHR ''='' piece of
                 Some eqpos \<Rightarrow>
                   let val = percentDecode (drop (eqpos + 1) piece) in
                   (percentDecode (take eqpos piece), if val = [] then ''true'' else val)
               | None \<Rightarrow> (percentDecode piece, ''true''))
      in case rest of None \<Rightarrow> ps @ [p] | Some r \<Rightarrow> query_loop r (ps @ [p]))"
  by pat_completeness auto
termination
  by (relation "measure (\<lambda>(h, c). length h)") (auto dest!: sym [of "(_, _)" "cut _ _"] cut_shorter)

declare query_loop.simps [simp del]

text \<open>The loop that splits the normalized path; empty parts are left out.\<close>

function parts_loop :: "string \<Rightarrow> string list \<Rightarrow> string list" where
  "parts_loop view parts =
     (if view = [] then parts
      else
        (let (piece, rest) = cut CHR ''/'' view in
         case rest of
           None \<Rightarrow> parts @ [view]
         | Some r \<Rightarrow> parts_loop r (if piece \<noteq> [] then parts @ [piece] else parts)))"
  by pat_completeness auto
termination
  by (relation "measure (\<lambda>(h, c). length h)") (auto dest!: sym [of "(_, _)" "cut _ _"] cut_shorter)

declare parts_loop.simps [simp del]

definition parsePathAndQueryParams :: "string \<Rightarrow> http_request \<Rightarrow> http_request" where
  "parsePathAndQueryParams rawPathView r =
     (let r1 = (case cut CHR ''?'' rawPathView of
                  (p, None) \<Rightarrow> r\<lparr>req_path := normalizePath p\<rparr>
                | (p, Some query) \<Rightarrow>
                    let query' = fst (cut CHR ''#'' query) in
                    r\<lparr>req_path := normalizePath p, queryParams := query_loop query' (queryParams r)\<rparr>)
      in r1\<lparr>pathParts := parts_loop (req_path r1) (pathParts r1)\<rparr>)"

text \<open>The target in absolute form: \<open>host\<close> is set, and the rest is the path.\<close>

definition splitHost :: "string \<Rightarrow> string option \<times> string" where
  "splitHost raw =
     (case find_sub ''://'' raw of
        None \<Rightarrow> (None, raw)
      | Some hostStart \<Rightarrow>
          let rest = drop (hostStart + 3) raw in
          (case find_idx (\<lambda>c. c = CHR ''/'' \<or> c = CHR ''?'') rest of
             Some hostEnd \<Rightarrow> (Some (take hostEnd rest), drop hostEnd rest)
           | None \<Rightarrow> (Some rest, ''/'')))"

text \<open>The parsers leave what they have assigned so far in the request when they fail.\<close>

definition parseRequestLine :: "string \<Rightarrow> http_request \<Rightarrow> bool \<times> http_request" where
  "parseRequestLine requestLine r =
     (case cut CHR '' '' requestLine of
        (_, None) \<Rightarrow> (False, r)
      | (m, Some rest) \<Rightarrow>
          let r1 = r\<lparr>req_method := m\<rparr> in
          (case cut CHR '' '' rest of
             (_, None) \<Rightarrow> (False, r1)
           | (raw, Some v) \<Rightarrow>
               let r2 = r1\<lparr>rawPath := raw\<rparr>;
                   (host, p) = splitHost raw;
                   r3 = (case host of Some h \<Rightarrow> setHeaderLower ''host'' h r2 | None \<Rightarrow> r2)
               in (True, (parsePathAndQueryParams p r3)\<lparr>version := v\<rparr>)))"

definition strip_cr :: "string \<Rightarrow> string" where
  "strip_cr line = (if line \<noteq> [] \<and> last line = CR then butlast line else line)"

text \<open>One header line: \<open>None\<close> refuses the request, a line without a colon is skipped.\<close>

definition parse_header_line :: "string \<Rightarrow> http_request \<Rightarrow> http_request option" where
  "parse_header_line line r =
     (if line \<noteq> [] \<and> (hd line = CHR '' '' \<or> hd line = HT) then None
      else
        (case cut CHR '':'' (strip_cr line) of
           (_, None) \<Rightarrow> Some r
         | (key, Some v) \<Rightarrow> Some (addHeaderLower (map c_tolower key) (trim v) r)))"

function parseRequestHeaders :: "string \<Rightarrow> http_request \<Rightarrow> bool \<times> http_request" where
  "parseRequestHeaders headerView r =
     (if headerView = [] then (True, r)
      else
        (let (line, rest) = cut LF headerView in
         case parse_header_line line r of
           None \<Rightarrow> (False, r)
         | Some r' \<Rightarrow> parseRequestHeaders (case rest of None \<Rightarrow> [] | Some h \<Rightarrow> h) r'))"
  by pat_completeness auto
termination
  by (relation "measure (\<lambda>(h, c). length h)")
     (auto dest!: sym [of "(_, _)" "cut _ _"] cut_shorter split: option.split)

declare parseRequestHeaders.simps [simp del]

definition parseRequestHeader :: "string \<Rightarrow> http_request \<Rightarrow> bool \<times> http_request" where
  "parseRequestHeader headerView r =
     (case cut LF headerView of
        (_, None) \<Rightarrow> (False, r)
      | (line, Some rest) \<Rightarrow>
          (case parseRequestLine (strip_cr line) r of
             (False, r1) \<Rightarrow> (False, r1)
           | (True, r1) \<Rightarrow> parseRequestHeaders rest r1))"

section \<open>Reading the body\<close>

definition consumeBody :: "server_config \<Rightarrow> 's body_read_fn \<Rightarrow> body_stream \<Rightarrow> 's \<Rightarrow>
    (string result \<times> body_stream \<times> 's) option" where
  "consumeBody cfg readFn b s =
     (if isExhausted b
      then Some (Inl (HandlerException ''Body stream is exhausted (Do not call fullBody() twice)'' 500 True), b, s)
      else
        (case readAll readFn (MAX_CONTENT_LENGTH cfg) [] b s of
           None \<Rightarrow> None
         | Some (Inl e, _, b', s') \<Rightarrow> Some (Inl e, b', s')
         | Some (Inr _, body, b', s') \<Rightarrow> Some (Inr body, b', s')))"

type_synonym form_data = "string \<Rightarrow> string list option"

definition form_push :: "string \<Rightarrow> string \<Rightarrow> form_data \<Rightarrow> form_data" where
  "form_push k v m = m(k := Some ((case m k of None \<Rightarrow> [] | Some vs \<Rightarrow> vs) @ [v]))"

definition form_emplace :: "string \<Rightarrow> form_data \<Rightarrow> form_data" where
  "form_emplace k m = (if m k = None then m(k := Some []) else m)"

function form_loop :: "string \<Rightarrow> form_data \<Rightarrow> form_data" where
  "form_loop bodyView m =
     (let (piece, rest) = cut CHR ''&'' bodyView;
          m' = (if piece = [] then m
                else case find_char CHR ''='' piece of
                  Some eqpos \<Rightarrow> form_push (percentDecode (take eqpos piece)) (percentDecode (drop (eqpos + 1) piece)) m
                | None \<Rightarrow> form_emplace (percentDecode piece) m)
      in case rest of None \<Rightarrow> m' | Some r \<Rightarrow> form_loop r m')"
  by pat_completeness auto
termination
  by (relation "measure (\<lambda>(h, c). length h)") (auto dest!: sym [of "(_, _)" "cut _ _"] cut_shorter)

declare form_loop.simps [simp del]

definition starts_with :: "string \<Rightarrow> string \<Rightarrow> bool" where
  "starts_with pre s \<longleftrightarrow> take (length pre) s = pre"

definition getFormData :: "server_config \<Rightarrow> 's body_read_fn \<Rightarrow> http_request \<Rightarrow> body_stream \<Rightarrow> 's \<Rightarrow>
    (form_data result \<times> body_stream \<times> 's) option" where
  "getFormData cfg readFn r b s =
     (if \<not> starts_with ''application/x-www-form-urlencoded'' (toLowerCase (getContentType r))
      then Some (Inr Map.empty, b, s)
      else
        (case consumeBody cfg readFn b s of
           None \<Rightarrow> None
         | Some (Inl e, b', s') \<Rightarrow> Some (Inl e, b', s')
         | Some (Inr body, b', s') \<Rightarrow> Some (Inr (form_loop body Map.empty), b', s')))"

text \<open>The JSON parser is a parameter; \<open>null\<close> is the value of \<open>co_return {}\<close>.\<close>

definition jsonBody :: "server_config \<Rightarrow> (string \<Rightarrow> 'json result) \<Rightarrow> 'json \<Rightarrow> 's body_read_fn \<Rightarrow> http_request \<Rightarrow>
    body_stream \<Rightarrow> 's \<Rightarrow> ('json result \<times> body_stream \<times> 's) option" where
  "jsonBody cfg parse_json null readFn r b s =
     (if \<not> starts_with ''application/json'' (toLowerCase (getContentType r)) then Some (Inr null, b, s)
      else
        (case consumeBody cfg readFn b s of
           None \<Rightarrow> None
         | Some (Inl e, b', s') \<Rightarrow> Some (Inl e, b', s')
         | Some (Inr body, b', s') \<Rightarrow> Some (parse_json body, b', s')))"

section \<open>The parsed request\<close>

lemma cut_None: "cut c s = (a, None) \<longleftrightarrow> c \<notin> set s \<and> a = s"
  by (auto simp: cut_def find_simps split: option.splits dest!: find_idx_SomeD)

lemma cut_Some: "cut c s = (a, Some b) \<longleftrightarrow> s = a @ c # b \<and> c \<notin> set a"
proof
  assume "cut c s = (a, Some b)"
  then obtain i where i: "find_char c s = Some i" "a = take i s" "b = drop (i + 1) s"
    by (auto simp: cut_def split: option.splits)
  then show "s = a @ c # b \<and> c \<notin> set a"
    using find_idx_split [OF i(1)] find_idx_SomeD [OF i(1)] by auto
next
  assume "s = a @ c # b \<and> c \<notin> set a"
  then have "find_char c s = Some (length a)" using find_idx_here [of a "\<lambda>x. x = c" c b] by auto
  then show "cut c s = (a, Some b)" using \<open>s = a @ c # b \<and> c \<notin> set a\<close> by (simp add: cut_def)
qed

lemma parts_loop_Nil [simp]: "parts_loop [] acc = acc"
  by (simp add: parts_loop.simps)

lemma parseRequestHeaders_Nil [simp]: "parseRequestHeaders [] r = (True, r)"
  by (simp add: parseRequestHeaders.simps)

lemma parseRequestHeaders_step:
  "cut LF h = (line, Some t) \<Longrightarrow> parse_header_line line r = Some r' \<Longrightarrow>
     parseRequestHeaders h r = parseRequestHeaders t r'"
  by (subst parseRequestHeaders.simps) (auto simp: cut_def)

lemma strip_cr_CR [simp]: "strip_cr (s @ [CR]) = s"
  by (simp add: strip_cr_def)

lemma parts_loop_acc: "parts_loop v acc = acc @ parts_loop v []"
proof (induction "length v" arbitrary: v acc rule: less_induct)
  case less
  show ?case
  proof (cases "v = []")
    case False
    show ?thesis
    proof (cases "cut CHR ''/'' v")
      case (Pair piece rest)
      show ?thesis
      proof (cases rest)
        case (Some r)
        then have "length r < length v" using Pair cut_shorter by blast
        then have "parts_loop r (acc @ [piece]) = (acc @ [piece]) @ parts_loop r []"
          "parts_loop r [piece] = [piece] @ parts_loop r []" "parts_loop r acc = acc @ parts_loop r []"
          using less by blast+
        then show ?thesis using False Pair Some
          by (simp add: parts_loop.simps [of v])
      qed (use False Pair in \<open>simp add: parts_loop.simps [of v]\<close>)
    qed
  qed simp
qed

lemma no_double_slash_append: "no_double_slash (a @ b) \<Longrightarrow> no_double_slash b"
  by (induction a) (auto dest: no_double_slash_Cons)

lemma normal_path_tail:
  assumes "normal_path (a @ CHR ''/'' # b)"
  shows "normal_path b \<and> b \<noteq> [] \<and> a \<noteq> []"
proof -
  have "no_double_slash (a @ CHR ''/'' # b)" using assms by (simp add: normal_path_def)
  then have n: "no_double_slash (CHR ''/'' # b)" by (rule no_double_slash_append)
  have b: "b \<noteq> []" using assms by (auto simp: normal_path_def)
  then have "hd b \<noteq> CHR ''/''" using n by (cases b) auto
  moreover have "no_double_slash b" using n no_double_slash_Cons by blast
  ultimately show ?thesis using assms b by (auto simp: normal_path_def)
qed

text \<open>The parts of a normalized path are its segments.\<close>

lemma parts_loop_join:
  "normal_path p \<Longrightarrow> str_join ''/'' (parts_loop p []) = p
     \<and> (\<forall>s \<in> set (parts_loop p []). s \<noteq> [] \<and> CHR ''/'' \<notin> set s) \<and> (parts_loop p [] = [] \<longleftrightarrow> p = [])"
proof (induction "length p" arbitrary: p rule: less_induct)
  case less
  show ?case
  proof (cases "p = []")
    case False
    obtain piece rest where c: "cut CHR ''/'' p = (piece, rest)" by fastforce
    show ?thesis
    proof (cases rest)
      case None
      then show ?thesis using c False cut_None [of "CHR ''/''" p piece]
        by (simp add: parts_loop.simps [of p])
    next
      case (Some r)
      then have p: "p = piece @ CHR ''/'' # r" "CHR ''/'' \<notin> set piece" using c by (auto simp: cut_Some)
      note t = normal_path_tail [OF less.prems [unfolded p(1)]]
      have "length r < length p" using p by simp
      then have IH: "str_join ''/'' (parts_loop r []) = r \<and>
          (\<forall>s \<in> set (parts_loop r []). s \<noteq> [] \<and> CHR ''/'' \<notin> set s) \<and> (parts_loop r [] = [] \<longleftrightarrow> r = [])"
        using less.hyps t by blast
      have l: "parts_loop p [] = piece # parts_loop r []"
        using c Some False t parts_loop_acc [of r "[piece]"] by (simp add: parts_loop.simps [of p])
      have "parts_loop r [] \<noteq> []" using IH t by blast
      then show ?thesis using IH p t False unfolding l by (simp add: str_join_Cons)
    qed
  qed simp
qed

definition headers_ok :: "http_request \<Rightarrow> bool" where
  "headers_ok r \<longleftrightarrow> lower_keys (req_headers r) \<and> singletons_once (\<lambda>k. k \<in> set singletonHeaders) (req_headers r)"

lemma addHeaderLower_ok: "headers_ok r \<Longrightarrow> toLowerCase k = k \<Longrightarrow> headers_ok (addHeaderLower k v r)"
  by (simp add: headers_ok_def req.lower_add req.once_add)

lemma setHeaderLower_ok: "headers_ok r \<Longrightarrow> toLowerCase k = k \<Longrightarrow> headers_ok (setHeaderLower k v r)"
  by (simp add: headers_ok_def req.lower_set req.once_set)

lemma parse_header_line_ok: "parse_header_line line r = Some r' \<Longrightarrow> headers_ok r \<Longrightarrow> headers_ok r'"
  using toLowerCase_idem
  by (auto simp: parse_header_line_def toLowerCase_def split: if_splits prod.splits option.splits intro!: addHeaderLower_ok)

lemma parse_header_line_frame:
  "parse_header_line line r = Some r' \<Longrightarrow> req_path r' = req_path r \<and> pathParts r' = pathParts r
     \<and> req_method r' = req_method r \<and> rawPath r' = rawPath r \<and> version r' = version r \<and> queryParams r' = queryParams r"
  by (auto simp: parse_header_line_def addHeaderLower_def split: if_splits prod.splits option.splits)

lemma parseRequestHeaders_ok:
  "parseRequestHeaders h r = (b, r') \<Longrightarrow> (headers_ok r \<longrightarrow> headers_ok r') \<and> req_path r' = req_path r
     \<and> pathParts r' = pathParts r \<and> req_method r' = req_method r \<and> rawPath r' = rawPath r
     \<and> version r' = version r \<and> queryParams r' = queryParams r"
proof (induction "length h" arbitrary: h r rule: less_induct)
  case less
  show ?case
  proof (cases "h = []")
    case False
    obtain line rest where c: "cut LF h = (line, rest)" by fastforce
    show ?thesis
    proof (cases "parse_header_line line r")
      case None
      then show ?thesis using less.prems False c by (simp add: parseRequestHeaders.simps [of h])
    next
      case (Some r1)
      let ?h = "case rest of None \<Rightarrow> [] | Some h \<Rightarrow> h"
      have "parseRequestHeaders ?h r1 = (b, r')"
        using less.prems False c Some by (simp add: parseRequestHeaders.simps [of h])
      moreover have "length ?h < length h" using False c by (auto dest: cut_shorter split: option.split)
      ultimately show ?thesis
        using less.hyps parse_header_line_ok [OF Some] parse_header_line_frame [OF Some] by fastforce
    qed
  qed (use less.prems in simp)
qed

lemma lower_host [simp]: "toLowerCase ''host'' = ''host''"
  by code_simp

lemma parseRequestLine_ok:
  assumes "parseRequestLine line r = (b, r')" "headers_ok r" "pathParts r = []"
  shows "headers_ok r' \<and> (b \<longrightarrow> normal_path (req_path r') \<and> pathParts r' = parts_loop (req_path r') [])"
proof -
  have "headers_ok (r\<lparr>req_method := m\<rparr>)" "headers_ok (r\<lparr>req_method := m, rawPath := w\<rparr>)" for m w
    using assms(2) by (simp_all add: headers_ok_def)
  moreover have "headers_ok (setHeaderLower ''host'' h (r\<lparr>req_method := m, rawPath := w\<rparr>))" for m w h
    by (rule setHeaderLower_ok) (use assms(2) in \<open>simp_all add: headers_ok_def\<close>)
  moreover have "headers_ok ((parsePathAndQueryParams p s)\<lparr>version := v\<rparr>) = headers_ok s" for p s v
    by (simp add: headers_ok_def parsePathAndQueryParams_def Let_def split: prod.split option.split)
  moreover have "pathParts (setHeaderLower k v s) = pathParts s" for k v s
    by (simp add: setHeaderLower_def)
  moreover have "normal_path (req_path (parsePathAndQueryParams p s)) \<and>
      pathParts (parsePathAndQueryParams p s) = parts_loop (req_path (parsePathAndQueryParams p s)) (pathParts s)" for p s
    by (simp add: parsePathAndQueryParams_def Let_def normalizePath_normal_path split: prod.split option.split)
  ultimately show ?thesis using assms
    by (auto simp: parseRequestLine_def Let_def split: prod.splits option.splits)
qed

section \<open>Printing and parsing\<close>

text \<open>A request header as a client writes it, without the empty line at its end.\<close>

definition print_header :: "string \<times> string \<Rightarrow> string" where
  "print_header h = fst h @ '': '' @ snd h"

definition print_request :: "string \<Rightarrow> string \<Rightarrow> string \<Rightarrow> headers \<Rightarrow> string" where
  "print_request m target v hs =
     m @ '' '' @ target @ '' '' @ v @ crlf @ str_join crlf (map print_header hs)"

definition wf_header :: "string \<times> string \<Rightarrow> bool" where
  "wf_header h \<longleftrightarrow> fst h \<noteq> [] \<and> hd (fst h) \<noteq> CHR '' '' \<and> hd (fst h) \<noteq> HT \<and> CHR '':'' \<notin> set (fst h)
     \<and> LF \<notin> set (fst h) \<and> LF \<notin> set (snd h) \<and> trim (snd h) = snd h"

definition add_header_of :: "string \<times> string \<Rightarrow> http_request \<Rightarrow> http_request" where
  "add_header_of h = addHeaderLower (toLowerCase (fst h)) (snd h)"

lemma trim_space_front: "trim (CHR '' '' # s) = trim s"
  by (rule trim_append_leading_space) (simp add: c_isspace_def)

lemma trim_last_not_CR: "trim s = s \<Longrightarrow> s \<noteq> [] \<Longrightarrow> last s \<noteq> CR"
  using trim_ends [of s] by (auto simp: c_isspace_def)

lemma parse_header_line_print:
  assumes "wf_header h" "line = print_header h \<or> line = print_header h @ [CR]"
  shows "parse_header_line line r = Some (add_header_of h r)"
proof -
  obtain k v where h: "h = (k, v)" by (cases h)
  have ne: "line \<noteq> []" "hd line \<noteq> CHR '' ''" "hd line \<noteq> HT"
    using assms by (auto simp: h wf_header_def print_header_def)
  have "last (print_header h) \<noteq> CR"
    using assms(1) trim_last_not_CR [of v] by (cases "v = []") (auto simp: h print_header_def wf_header_def)
  then have "strip_cr line = print_header h"
    using assms(2) by (auto simp: strip_cr_def)
  then have "cut CHR '':'' (strip_cr line) = (k, Some (CHR '' '' # v))"
    using assms(1) by (simp add: cut_Some h wf_header_def print_header_def)
  then show ?thesis using ne assms(1)
    by (simp add: parse_header_line_def add_header_of_def h wf_header_def toLowerCase_def trim_space_front)
qed

lemma parseRequestHeaders_print:
  "\<forall>h \<in> set hs. wf_header h \<Longrightarrow>
     parseRequestHeaders (str_join crlf (map print_header hs)) r = (True, fold add_header_of hs r)"
proof (induction hs arbitrary: r)
  case (Cons h hs)
  have noLF: "LF \<notin> set (print_header h)" using Cons.prems by (auto simp: wf_header_def print_header_def)
  have ne: "print_header h \<noteq> []" by (simp add: print_header_def)
  show ?case
  proof (cases "hs = []")
    case True
    then have "cut LF (str_join crlf (map print_header (h # hs))) = (print_header h, None)"
      using noLF by (simp add: cut_None)
    moreover have "parse_header_line (print_header h) r = Some (add_header_of h r)"
      using parse_header_line_print Cons.prems by simp
    ultimately show ?thesis using True ne
      by (simp add: parseRequestHeaders.simps [of "print_header h"])
  next
    case False
    let ?s = "str_join crlf (map print_header (h # hs))"
    let ?t = "str_join crlf (map print_header hs)"
    have s: "?s = (print_header h @ [CR]) @ LF # ?t" using False by (simp add: str_join_Cons)
    have c: "cut LF ?s = (print_header h @ [CR], Some ?t)"
      unfolding s cut_Some using noLF by simp
    have "parse_header_line (print_header h @ [CR]) r = Some (add_header_of h r)"
      using parse_header_line_print Cons.prems by simp
    from parseRequestHeaders_step [OF c this] show ?thesis using Cons by simp
  qed
qed simp

lemma fold_add_frame:
  "req_method (fold add_header_of hs r) = req_method r \<and> rawPath (fold add_header_of hs r) = rawPath r
   \<and> version (fold add_header_of hs r) = version r \<and> req_path (fold add_header_of hs r) = req_path r
   \<and> queryParams (fold add_header_of hs r) = queryParams r"
  by (induction hs arbitrary: r) (auto simp: add_header_of_def addHeaderLower_def)

lemma fold_add_headers:
  "req_headers r = req_headers s \<Longrightarrow> req_headers (fold add_header_of hs r) = req_headers (fold add_header_of hs s)"
proof (induction hs arbitrary: r s)
  case (Cons h hs)
  have "req_headers (add_header_of h r) = req_headers (add_header_of h s)"
    using Cons.prems by (auto simp: add_header_of_def addHeaderLower_def)
  from Cons.IH [OF this] show ?case by (simp only: fold_simps)
qed simp

lemma parse_print_request:
  assumes m: "CHR '' '' \<notin> set m" "LF \<notin> set m"
    and t: "CHR '' '' \<notin> set target" "LF \<notin> set target" "find_sub ''://'' target = None"
    and v: "LF \<notin> set v" "v \<noteq> []" "last v \<noteq> CR"
    and hs: "\<forall>h \<in> set hs. wf_header h" and fr: "fresh_request r0"
  shows "\<exists>r. parseRequestHeader (print_request m target v hs) r0 = (True, r)
    \<and> req_method r = m \<and> rawPath r = target \<and> version r = v
    \<and> req_path r = normalizePath (fst (cut CHR ''?'' target))
    \<and> req_headers r = req_headers (fold add_header_of hs empty_request)"
proof -
  let ?line = "m @ CHR '' '' # target @ CHR '' '' # v"
  let ?t = "str_join crlf (map print_header hs)"
  have c: "cut LF (print_request m target v hs) = (?line @ [CR], Some ?t)"
    unfolding cut_Some using m t v by (auto simp: print_request_def)
  have s: "strip_cr (?line @ [CR]) = ?line" by (rule strip_cr_CR)
  have c1: "cut CHR '' '' ?line = (m, Some (target @ CHR '' '' # v))" using m by (simp add: cut_Some)
  have c2: "cut CHR '' '' (target @ CHR '' '' # v) = (target, Some v)" using t by (simp add: cut_Some)
  let ?r = "(parsePathAndQueryParams target (r0\<lparr>req_method := m, rawPath := target\<rparr>))\<lparr>version := v\<rparr>"
  have l: "parseRequestLine ?line r0 = (True, ?r)"
    unfolding parseRequestLine_def c1 by (simp add: c2 splitHost_def t Let_def)
  have r: "req_method ?r = m \<and> rawPath ?r = target \<and> version ?r = v \<and> req_headers ?r = req_headers empty_request
      \<and> req_path ?r = normalizePath (fst (cut CHR ''?'' target))"
    using fr by (simp add: parsePathAndQueryParams_def Let_def fresh_request_def empty_request_def split: prod.split option.split)
  have "parseRequestHeader (print_request m target v hs) r0 = (True, fold add_header_of hs ?r)"
    unfolding parseRequestHeader_def c prod.case option.case s l
    using parseRequestHeaders_print [OF hs, of ?r] by simp
  then show ?thesis
    using r fold_add_frame [of hs ?r] fold_add_headers [of ?r empty_request hs] by simp
qed

lemma parseRequestHeader_pathParts:
  assumes "parseRequestHeader h r0 = (True, r)" "fresh_request r0"
  shows "headers_ok r \<and> normal_path (req_path r) \<and> pathParts r = parts_loop (req_path r) []"
proof -
  obtain line rest where c: "cut LF h = (line, Some rest)"
    using assms by (auto simp: parseRequestHeader_def split: prod.splits option.splits)
  obtain r1 where l: "parseRequestLine (strip_cr line) r0 = (True, r1)"
    and hd: "parseRequestHeaders rest r1 = (True, r)"
    using assms c by (auto simp: parseRequestHeader_def split: prod.splits bool.splits)
  have "headers_ok r0" "pathParts r0 = []" using assms(2) by (simp_all add: headers_ok_def fresh_request_def)
  from parseRequestLine_ok [OF l this] show ?thesis using parseRequestHeaders_ok [OF hd] by auto
qed

lemma parseRequestHeader_ok:
  assumes "parseRequestHeader h r0 = (True, r)" "fresh_request r0"
  shows "headers_ok r \<and> normal_path (req_path r) \<and> str_join ''/'' (pathParts r) = req_path r
    \<and> (\<forall>s \<in> set (pathParts r). s \<noteq> [] \<and> CHR ''/'' \<notin> set s)"
  using parseRequestHeader_pathParts [OF assms] parts_loop_join [of "req_path r"] by auto

end
