(* ===== verification/BodySources.thy ===== *)
theory BodySources
  imports ChunkDecoder HttpRequest
begin

text \<open>
  The callbacks that \<open>HttpConnection::run\<close> attaches to a request's body stream
  (\<open>rukh/include/rukh/http/HttpConnection.hpp\<close>): for a chunked body, for a body with a content
  length, and for no body. Each pair of callbacks works on the connection's buffers, its
  chunk decoder and the request.

  The callbacks are interpretations of \<open>body_source\<close>: the chunked one on every input; the one
  with a content length only while nothing follows the body in the input and the socket wakes the reader with data, because the code
  copies a whole span without looking at how much is left, and takes a wake-up without data for
  the end of the body.
\<close>

record body_env =
  env_io :: conn_io
  env_decoder :: chunk_decoder
  env_request :: http_request

section \<open>Chunked bodies\<close>

fun chunk_exn :: "chunk_error \<Rightarrow> exn" where
  "chunk_exn MALFORMED = serverException ''Malformed chunk encoding'' 400"
| "chunk_exn CHUNK_TOO_LARGE = serverException ''Chunk too large'' 413"
| "chunk_exn REQUEST_SIZE_LIMIT_EXCEEDED = serverException ''Request body size limit exceeded'' 413"

definition chunkReadFn :: "server_config \<Rightarrow> body_env body_read_fn" where
  "chunkReadFn cfg n rem env =
     (case readSome cfg n (env_decoder env) (env_io env) of
        None \<Rightarrow> None
      | Some (out, dec, io) \<Rightarrow>
          let env1 = env\<lparr>env_decoder := dec, env_io := io\<rparr> in
          (case out of
             Unexpected e \<Rightarrow> Some (Inl (chunk_exn e), env1)
           | Threw e \<Rightarrow> Some (Inl e, env1)
           | Wrote w \<Rightarrow>
               Some (Inr w,
                 if state dec = DONE
                 then env1\<lparr>env_request := setAttribute ''chunkTrailers'' (trailers dec) (env_request env1)\<rparr>
                 else env1)))"

partial_function (option) chunkDrainFn :: "server_config \<Rightarrow> nat \<Rightarrow> body_env \<Rightarrow> (unit result \<times> body_env) option" where
  "chunkDrainFn cfg rem env =
     (case readSome cfg 4096 (env_decoder env) (env_io env) of
        None \<Rightarrow> None
      | Some (Unexpected e, dec, io) \<Rightarrow> Some (Inl (chunk_exn e), env\<lparr>env_decoder := dec, env_io := io\<rparr>)
      | Some (Threw e, dec, io) \<Rightarrow> Some (Inl e, env\<lparr>env_decoder := dec, env_io := io\<rparr>)
      | Some (Wrote w, dec, io) \<Rightarrow>
          if w = [] then Some (Inr (), env\<lparr>env_decoder := dec, env_io := io\<rparr>)
          else chunkDrainFn cfg rem (env\<lparr>env_decoder := dec, env_io := io\<rparr>))"

section \<open>Bodies with a content length\<close>

text \<open>\<open>n\<close> is the size of the span, \<open>rem\<close> the count of the stream. The callbacks map the read
  results to exceptions as the chunk decoder does.\<close>

definition lengthReadFn :: "server_config \<Rightarrow> body_env body_read_fn" where
  "lengthReadFn cfg n rem env =
     (let io = env_io env in
      if getReadBufferSize io \<ge> n
      then Some (Inr (take n (readView io)), env\<lparr>env_io := eraseFromReadBuffer n io\<rparr>)
      else if getReadBufferSize io \<ge> rem
      then Some (Inr (take rem (readView io)), env\<lparr>env_io := eraseFromReadBuffer rem io\<rparr>)
      else
        (case read_more cfg io of
           (Some e, io1) \<Rightarrow> Some (Inl e, env\<lparr>env_io := io1\<rparr>)
         | (None, io1) \<Rightarrow>
             let k = min (getReadBufferSize io1) (min n rem)
             in Some (Inr (take k (readView io1)), env\<lparr>env_io := eraseFromReadBuffer k io1\<rparr>)))"

partial_function (option) lengthDrainFn :: "server_config \<Rightarrow> nat \<Rightarrow> body_env \<Rightarrow> (unit result \<times> body_env) option" where
  "lengthDrainFn cfg rem env =
     (if getReadBufferSize (env_io env) < rem then
        (case read_more cfg (env_io env) of
           (Some e, io1) \<Rightarrow> Some (Inl e, env\<lparr>env_io := io1\<rparr>)
         | (None, io1) \<Rightarrow> lengthDrainFn cfg rem (env\<lparr>env_io := io1\<rparr>))
      else Some (Inr (), env\<lparr>env_io := eraseFromReadBuffer rem (env_io env)\<rparr>))"

section \<open>No body\<close>

definition emptyReadFn :: "body_env body_read_fn" where
  "emptyReadFn n rem env = Some (Inr [], env)"

definition emptyDrainFn :: "body_env body_drain_fn" where
  "emptyDrainFn rem env = Some (Inr (), env)"

section \<open>The contracts\<close>

lemma sz_sub_0_eq: "0 < x \<Longrightarrow> x < sz_limit \<Longrightarrow> sz_sub 0 x = sz_limit - x"
  by (simp add: sz_sub_def)

lemma sz_sub_0_0 [simp]: "sz_sub 0 0 = 0"
  by (simp add: sz_sub_def)

lemma sz_sub_0_add:
  assumes "a + b < sz_limit"
  shows "sz_sub (sz_sub 0 a) b = sz_sub 0 (a + b)"
proof (cases "a = 0 \<or> b = 0")
  case True
  then show ?thesis by auto
next
  case False
  then have "sz_sub (sz_limit - a) b = sz_limit - a - b"
    using assms by (intro sz_sub_nowrap) auto
  then show ?thesis using False assms by (simp add: sz_sub_0_eq)
qed

lemma sz_sub_0_is_0: "x < sz_limit \<Longrightarrow> sz_sub 0 x = 0 \<Longrightarrow> x = 0"
  by (cases "x = 0") (simp_all add: sz_sub_0_eq)

definition chunk_body :: "server_config \<Rightarrow> nat \<Rightarrow> body_env \<Rightarrow> bytes" where
  "chunk_body cfg rem env = fst (decode cfg (env_decoder env) (input (env_io env)))"

definition chunk_ready :: "server_config \<Rightarrow> nat \<Rightarrow> body_env \<Rightarrow> bool" where
  "chunk_ready cfg rem env \<longleftrightarrow> 0 < SINGLE_READ_BYTES cfg \<and> io_ok (env_io env) \<and>
     (\<exists>d. rem = sz_sub 0 d \<and> d + length (chunk_body cfg rem env) < sz_limit)"

lemma chunkReadFn_Wrote:
  assumes "chunkReadFn cfg n rem env = Some (Inr bs, env')" "io_ok (env_io env)" "0 < n"
  shows "chunk_body cfg rem env = bs @ chunk_body cfg rem' env' \<and> length bs \<le> n \<and> io_ok (env_io env')
    \<and> (bs = [] \<longrightarrow> chunk_body cfg rem' env' = [])"
proof -
  obtain dec io where r: "readSome cfg n (env_decoder env) (env_io env) = Some (Wrote bs, dec, io)"
    and e: "env_decoder env' = dec" "env_io env' = io"
    using assms(1) by (auto simp: chunkReadFn_def Let_def split: option.splits prod.splits chunk_outcome.splits if_splits)
  have "loop_refines cfg n [] (env_decoder env) (env_io env) (Wrote bs, dec, io)"
    using readSome_refines [OF r assms(2)] .
  then show ?thesis using e assms(3)
    by (cases "state dec = DONE") (auto simp: loop_refines_def chunk_body_def decode_def decode_after_def)
qed

interpretation chunked: body_source "chunkReadFn cfg" "chunk_body cfg" "chunk_ready cfg" for cfg
proof
  fix rem n bs and env env' :: body_env
  assume rd: "chunk_ready cfg rem env" and n: "0 < n" and f: "chunkReadFn cfg n rem env = Some (Inr bs, env')"
  let ?rem = "sz_sub rem (length bs)"
  obtain d where d: "rem = sz_sub 0 d" "d + length (chunk_body cfg rem env) < sz_limit" and ok: "io_ok (env_io env)"
    and rb: "0 < SINGLE_READ_BYTES cfg"
    using rd by (auto simp: chunk_ready_def)
  note w = chunkReadFn_Wrote [OF f ok n, of ?rem]
  have lim: "d + length bs < sz_limit" using w d(2) by simp
  have rem: "?rem = sz_sub 0 (d + length bs)" using d(1) sz_sub_0_add [OF lim] by simp
  have ready': "chunk_ready cfg ?rem env'"
    unfolding chunk_ready_def using w d rem rb by (intro conjI exI [of _ "d + length bs"]) auto
  show "chunk_body cfg rem env = bs @ chunk_body cfg ?rem env' \<and> length bs \<le> n \<and> chunk_ready cfg ?rem env'"
    using w ready' by blast
  assume "bs = [] \<or> ?rem = 0"
  then have "bs = []"
    using sz_sub_0_is_0 [OF lim] rem by auto
  then show "chunk_body cfg ?rem env' = []" using w by blast
next
  fix rem n :: nat and env :: body_env
  assume "chunk_ready cfg rem env"
  then have "\<exists>res. readSome cfg n (env_decoder env) (env_io env) = Some res"
    by (intro readSome_total) (simp_all add: chunk_ready_def)
  then show "chunkReadFn cfg n rem env \<noteq> None"
    by (auto simp: chunkReadFn_def Let_def split: prod.split chunk_outcome.split)
qed

text \<open>The socket wakes the reader only when there is something to read (a TCP socket does; a TLS
  record that is not complete yet breaks this).\<close>

fun steady :: "rx_event list \<Rightarrow> bool" where
  "steady [] = True"
| "steady (RxPause # r) = ((r = [] \<or> hd r \<noteq> RxPause) \<and> steady r)"
| "steady (RxData bs # r) = (bs \<noteq> [] \<and> steady r)"
| "steady (e # r) = steady r"

lemma receive_steady: "receive k es = (r, es') \<Longrightarrow> steady es \<Longrightarrow> steady es'"
proof (induction k es rule: receive.induct)
  case (2 k bs r)
  then show ?case by (auto split: if_splits)
qed auto

lemma wait_rx_steady: "wait_rx es = (b, es') \<Longrightarrow> steady es \<Longrightarrow> steady es'"
  by (cases es rule: wait_rx.cases) auto

lemma drain_loop_steady: "drain_loop g t m io = (r, io') \<Longrightarrow> steady (rx io) \<Longrightarrow> steady (rx io')"
proof (induction g t m io rule: drain_loop.induct)
  case (1 g t m io)
  show ?case
  proof (cases "getReadBufferSize io \<ge> m \<or> getReadBufferSize io \<ge> t")
    case True
    then show ?thesis using "1.prems" by (auto simp: drain_loop.simps [of g t m io] Let_def split: if_splits)
  next
    case False
    obtain rr es where rcv:
      "receive (min (m - getReadBufferSize io) (t - getReadBufferSize io)) (rx io) = (rr, es)" by fastforce
    have c: "steady es" using receive_steady [OF rcv] "1.prems" by blast
    show ?thesis
    proof (cases rr)
      case (RcvData bs)
      then have "drain_loop True t m (io\<lparr>readBuffer := readBuffer io @ bs, rx := es\<rparr>) = (r, io')"
        using "1.prems" False rcv by (simp add: drain_loop.simps [of g t m io] Let_def)
      then show ?thesis using "1.IH" [OF refl _ _ refl rcv [symmetric] RcvData] False c by auto
    qed (use "1.prems" False rcv c in \<open>auto simp: drain_loop.simps [of g t m io] Let_def\<close>)
  qed
qed

lemma receive_steady_block:
  "receive k es = (RcvWouldBlock, es') \<Longrightarrow> steady es \<Longrightarrow> es' = [] \<or> hd es' \<noteq> RxPause \<and> es = RxPause # es' \<or> es' = es \<and> hd es = RxTimeout"
  by (cases es rule: steady.cases) (auto split: if_splits)

lemma receive_steady_ready:
  "steady es \<Longrightarrow> es \<noteq> [] \<Longrightarrow> hd es \<noteq> RxTimeout \<Longrightarrow> hd es \<noteq> RxPause \<Longrightarrow> receive k es \<noteq> (RcvWouldBlock, es')"
  by (cases es rule: steady.cases) auto

lemma drain_loop_block_event:
  assumes "drain_loop g t m io = (WOULD_BLOCK, io')"
  shows "\<exists>k > 0. receive k (rx io) = (RcvWouldBlock, rx io')"
proof -
  let ?k = "min (m - getReadBufferSize io) (t - getReadBufferSize io)"
  have lt: "\<not> (getReadBufferSize io \<ge> m \<or> getReadBufferSize io \<ge> t)"
    using assms by (auto simp: drain_loop.simps [of g t m io] Let_def split: if_splits)
  obtain rr es where rcv: "receive ?k (rx io) = (rr, es)" by fastforce
  show ?thesis
  proof (cases rr)
    case (RcvData bs)
    then have "drain_loop True t m (io\<lparr>readBuffer := readBuffer io @ bs, rx := es\<rparr>) = (WOULD_BLOCK, io')"
      using assms lt rcv by (simp add: drain_loop.simps [of g t m io] Let_def)
    from drain_loop_result [OF this] show ?thesis by simp
  next
    case RcvWouldBlock
    then have "rx io' = es" using assms lt rcv
      by (auto simp: drain_loop.simps [of g t m io] Let_def split: if_splits)
    then show ?thesis using rcv RcvWouldBlock lt by (intro exI [of _ ?k]) auto
  qed (use assms lt rcv in \<open>auto simp: drain_loop.simps [of g t m io] Let_def\<close>)
qed

lemma io_read_steady:
  assumes "io_read t m io = (r, io')" "steady (rx io)"
  shows "steady (rx io') \<and> r \<noteq> WOULD_BLOCK"
proof -
  let ?T = "getReadBufferSize io + t"
  obtain r1 io1 where d: "drain_loop False ?T m io = (r1, io1)" by fastforce
  have s1: "steady (rx io1)" using drain_loop_steady [OF d assms(2)] .
  obtain b es where w: "wait_rx (rx io1) = (b, es)" by fastforce
  have s2: "steady es" using wait_rx_steady [OF w s1] .
  show ?thesis
  proof (cases "r1 = WOULD_BLOCK \<and> \<not> b")
    case False
    then show ?thesis using assms(1) d s1 s2 w
      by (auto simp: io_read_def Let_def drainIntoReadBuffer_def waitForRead_def split: if_splits)
  next
    case True
    then have es: "es = rx io1" "es \<noteq> []" "hd es \<noteq> RxTimeout" using wait_rx_ready [of "rx io1" es] w by auto
    have d2: "drain_loop False ?T m (io1\<lparr>rx := es, tl_timed_out := b\<rparr>) = (r, io')"
      using assms(1) d w True by (simp add: io_read_def Let_def drainIntoReadBuffer_def waitForRead_def)
    obtain k where k: "receive k (rx io) = (RcvWouldBlock, rx io1)"
      using drain_loop_block_event [of False ?T m io io1] d True by auto
    have hd: "hd es \<noteq> RxPause"
      using receive_steady_block [OF k assms(2)] es by auto
    have "r \<noteq> WOULD_BLOCK"
    proof
      assume "r = WOULD_BLOCK"
      then obtain k' where "receive k' es = (RcvWouldBlock, rx io')"
        using drain_loop_block_event d2 by fastforce
      then show False using receive_steady_ready [OF s2 es(2,3) hd] by blast
    qed
    then show ?thesis using drain_loop_steady [OF d2] s2 by simp
  qed
qed

lemma drain_loop_DATA:
  assumes "drain_loop False t m io = (DATA, io')" "io_ok io" "length (readView io) < t"
  shows "length (readView io) < length (readView io')"
proof -
  let ?k = "min (m - getReadBufferSize io) (t - getReadBufferSize io)"
  have lt: "\<not> (getReadBufferSize io \<ge> m \<or> getReadBufferSize io \<ge> t)"
    using assms by (auto simp: drain_loop.simps [of False t m io] Let_def length_readView split: if_splits)
  obtain rr es where rcv: "receive ?k (rx io) = (rr, es)" by fastforce
  show ?thesis
  proof (cases rr)
    case (RcvData bs)
    let ?io = "io\<lparr>readBuffer := readBuffer io @ bs, rx := es\<rparr>"
    have d: "drain_loop True t m ?io = (DATA, io')"
      using assms(1) lt rcv RcvData by (simp add: drain_loop.simps [of False t m io] Let_def)
    have "io_ok ?io" using assms(2) by (simp add: io_ok_def)
    from drain_loop_step [OF this, of t m True] have "prefix (readView ?io) (readView io')"
      using d by (simp add: read_step_def Let_def)
    then have "length (readView ?io) \<le> length (readView io')" by (rule prefix_length_le)
    moreover have "bs \<noteq> []" using receive_data [OF rcv [unfolded RcvData]] by simp
    ultimately show ?thesis using readView_append [OF assms(2), where bs = bs and es = es] by (cases bs) auto
  qed (use assms(1) lt rcv in \<open>auto simp: drain_loop.simps [of False t m io] Let_def split: if_splits\<close>)
qed

lemma io_read_DATA_grows:
  assumes "io_read t m io = (DATA, io')" "io_ok io" "0 < t"
  shows "readView io' \<noteq> []"
proof -
  let ?T = "getReadBufferSize io + t"
  have T: "length (readView io) < ?T" using assms(3) by (simp add: length_readView)
  obtain r1 io1 where d: "drain_loop False ?T m io = (r1, io1)" by fastforce
  show ?thesis
  proof (cases "r1 = WOULD_BLOCK")
    case False
    then have "drain_loop False ?T m io = (DATA, io')"
      using assms(1) d by (auto simp: io_read_def Let_def drainIntoReadBuffer_def split: if_splits)
    from drain_loop_DATA [OF this assms(2) T] show ?thesis by auto
  next
    case True
    let ?io2 = "waitForRead io1"
    have v: "readView ?io2 = readView io1" "io_ok ?io2 = io_ok io1"
      by (auto simp: waitForRead_def readView_def io_ok_def split: prod.splits)
    have "io_ok io1" using drain_loop_step [OF assms(2), of ?T m False] d by (simp add: read_step_def Let_def)
    moreover have "drain_loop False ?T m ?io2 = (DATA, io')"
      using assms(1) d True by (auto simp: io_read_def Let_def drainIntoReadBuffer_def split: if_splits)
    ultimately have "length (readView ?io2) < length (readView io')"
      using drain_loop_blocked [OF d [unfolded True]] T v by (intro drain_loop_DATA [of ?T m]) auto
    then show ?thesis by auto
  qed
qed

definition length_body :: "nat \<Rightarrow> body_env \<Rightarrow> bytes" where
  "length_body rem env = input (env_io env)"

definition length_ready :: "server_config \<Rightarrow> nat \<Rightarrow> body_env \<Rightarrow> bool" where
  "length_ready cfg rem env \<longleftrightarrow> io_ok (env_io env) \<and> steady (rx (env_io env)) \<and> 0 < SINGLE_READ_BYTES cfg
     \<and> length (input (env_io env)) \<le> rem \<and> rem < sz_limit"

lemma rx_read_erase: "steady (rx (eraseFromReadBuffer k io)) = steady (rx io)"
  by simp

lemma length_ready_erase:
  assumes "io_ok io" "steady (rx io)" "0 < SINGLE_READ_BYTES cfg" "length (input io) \<le> rem" "rem < sz_limit"
    "k \<le> length (readView io)"
  shows "length_ready cfg (sz_sub rem k) (env\<lparr>env_io := eraseFromReadBuffer k io\<rparr>)
    \<and> input io = take k (readView io) @ length_body (sz_sub rem k) (env\<lparr>env_io := eraseFromReadBuffer k io\<rparr>)
    \<and> sz_sub rem k = rem - k"
proof -
  have "k \<le> length (input io)" using assms(6) by (simp add: input_def)
  then have s: "sz_sub rem k = rem - k" using assms by (intro sz_sub_nowrap) auto
  have "take k (readView io) = take k (input io)" using assms(6) by (simp add: input_def)
  then show ?thesis using assms s input_erase [OF assms(6)]
    by (auto simp: length_ready_def length_body_def erase_read_ok)
qed

lemma lengthReadFn_delivers:
  assumes "length_ready cfg rem env" "0 < n" "lengthReadFn cfg n rem env = Some (Inr bs, env')"
  shows "length_body rem env = bs @ length_body (sz_sub rem (length bs)) env' \<and> length bs \<le> n
    \<and> length_ready cfg (sz_sub rem (length bs)) env' \<and> (bs = [] \<longrightarrow> length_body rem env = [])
    \<and> sz_sub rem (length bs) = rem - length bs"
proof -
  let ?io = "env_io env"
  have ok: "io_ok ?io" and st: "steady (rx ?io)" and pos: "0 < SINGLE_READ_BYTES cfg"
    and le: "length (input ?io) \<le> rem" and lim: "rem < sz_limit"
    using assms(1) by (auto simp: length_ready_def)
  consider (full) "getReadBufferSize ?io \<ge> n" | (rest) "getReadBufferSize ?io < n" "getReadBufferSize ?io \<ge> rem"
    | (more) "getReadBufferSize ?io < n" "getReadBufferSize ?io < rem" by linarith
  then show ?thesis
  proof cases
    case full
    then have "bs = take n (readView ?io)" "env' = env\<lparr>env_io := eraseFromReadBuffer n ?io\<rparr>" "n \<le> length (readView ?io)"
      using assms(3) by (auto simp: lengthReadFn_def Let_def length_readView)
    then show ?thesis using length_ready_erase [OF ok st pos le lim, of n env] assms(2)
      by (auto simp: length_body_def)
  next
    case rest
    then have b: "bs = take rem (readView ?io)" "env' = env\<lparr>env_io := eraseFromReadBuffer rem ?io\<rparr>" "rem \<le> length (readView ?io)"
      using assms(3) by (auto simp: lengthReadFn_def Let_def length_readView)
    then have "bs = [] \<longrightarrow> input ?io = []" using le by auto
    then show ?thesis using length_ready_erase [OF ok st pos le lim, of rem env] b rest
      by (auto simp: length_body_def length_readView)
  next
    case more
    obtain io1 where m: "read_more cfg ?io = (None, io1)"
      using assms(3) more by (auto simp: lengthReadFn_def Let_def split: prod.splits option.splits)
    define k where "k = min (getReadBufferSize io1) (min n rem)"
    have b: "bs = take k (readView io1)" "env' = env\<lparr>env_io := eraseFromReadBuffer k io1\<rparr>"
      using assms(3) more m by (auto simp: lengthReadFn_def Let_def k_def)
    have fed: "fed ?io io1" using read_more_None [OF m ok] by blast
    obtain r where r: "io_read (SINGLE_READ_BYTES cfg) (MAX_CONTENT_LENGTH cfg) ?io = (r, io1)" "handleIO r = None"
      using m by (auto simp: read_more_def split: prod.splits)
    have "steady (rx io1) \<and> r \<noteq> WOULD_BLOCK" using io_read_steady [OF r(1) st] .
    moreover from this have "r = DATA" using r(2) by (cases r) auto
    ultimately have st1: "steady (rx io1)" and ne: "readView io1 \<noteq> []"
      using io_read_DATA_grows [of "SINGLE_READ_BYTES cfg" "MAX_CONTENT_LENGTH cfg" ?io io1] r(1) ok pos by auto
    have k: "k \<le> length (readView io1)" "0 < k" "k \<le> n"
      using ne more assms(2) by (auto simp: length_readView k_def)
    have io1: "io_ok io1" "input io1 = input ?io" using fed by (auto simp: fed_def)
    have le1: "length (input io1) \<le> rem" using le io1 by simp
    have len: "length bs = k" and ne': "bs \<noteq> []" using b(1) k by auto
    from length_ready_erase [OF io1(1) st1 pos le1 lim k(1), of env] show ?thesis
      unfolding len b(2) length_body_def using len ne' k(3) io1(2) b(1) by (elim conjE) simp
  qed
qed

interpretation sized: body_source "lengthReadFn cfg" length_body "length_ready cfg" for cfg
proof
  fix rem n bs and env env' :: body_env
  assume rd: "length_ready cfg rem env" and n: "0 < n" and f: "lengthReadFn cfg n rem env = Some (Inr bs, env')"
  note d = lengthReadFn_delivers [OF rd n f]
  show "length_body rem env = bs @ length_body (sz_sub rem (length bs)) env' \<and> length bs \<le> n
    \<and> length_ready cfg (sz_sub rem (length bs)) env'"
    using d by blast
  assume "bs = [] \<or> sz_sub rem (length bs) = 0"
  then show "length_body (sz_sub rem (length bs)) env' = []"
    using d by (auto simp: length_ready_def length_body_def)
next
  fix rem n :: nat and env :: body_env
  show "lengthReadFn cfg n rem env \<noteq> None"
    by (simp add: lengthReadFn_def Let_def split: prod.split option.split)
qed

interpretation bodiless: body_source emptyReadFn "\<lambda>_ _. []" "\<lambda>rem _. rem = 0"
  by unfold_locales (auto simp: emptyReadFn_def)

text \<open>
  With more bytes in the buffer than the span holds, the span is filled whatever \<open>rem\<close> says: the
  handler gets bytes that follow the body, and the stream's count wraps below zero.
\<close>

lemma lengthReadFn_over_read:
  assumes "rem < n" "n \<le> length (readView (env_io env))" "n < sz_limit" "b = \<lparr>exhausted = False, remaining = rem\<rparr>"
  shows "bs_read (lengthReadFn cfg) n b env =
    Some (Inr (take n (readView (env_io env))), \<lparr>exhausted = False, remaining = sz_limit - (n - rem)\<rparr>,
      env\<lparr>env_io := eraseFromReadBuffer n (env_io env)\<rparr>)"
proof -
  have s: "sz_sub rem n = sz_limit - (n - rem)" using assms by (simp add: sz_sub_def)
  have "take n (readView (env_io env)) \<noteq> []" using assms by auto
  then show ?thesis using assms s
    by (simp add: bs_read_def lengthReadFn_def Let_def length_readView)
qed

end
