(* ===== verification/RouteTree.thy ===== *)
theory RouteTree
  imports StringUtils HttpUtils Config
begin

text \<open>
  The route tree of \<open>rukh/include/rukh/http/Router.hpp\<close> and \<open>rukh/src/http/Router.cpp\<close>: nodes,
  registration of a pattern, the backtracking search and the path parameters. A handler is of an
  arbitrary type \<open>'h\<close>. The maps of a node are association lists with distinct keys.

  A pattern is read as a list of segments; \<open>seg_match\<close> is the documented meaning of a pattern. The
  lemmas show that the search for a node is sound and complete for it, in the order literal, parameter, wildcard,
  deep wildcard, and that registering a route changes exactly one entry. A node that has no handlers is found
  like any other, and the request is then refused.
\<close>

section \<open>Nodes\<close>

datatype 'h route_node = RouteNode
  (children: "(string \<times> 'h route_node) list")
  (paramChild: "'h route_node option")
  (wildcardChild: "'h route_node option")
  (deepWildcardChild: "'h route_node option")
  (requestHandlers: "(string \<times> 'h) list")
  (patternParts: "string list")
  (allowedMethods: string)

definition empty_node :: "'h route_node" where
  "empty_node = RouteNode [] None None None [] [] []"

text \<open>How a part of a pattern is read.\<close>

datatype segment = Literal string | Param | Wildcard | DeepWildcard

definition is_param :: "string \<Rightarrow> bool" where
  "is_param part \<longleftrightarrow> part \<noteq> [] \<and> hd part = CHR ''<'' \<and> last part = CHR ''>''"

definition classify :: "string \<Rightarrow> segment" where
  "classify part =
     (if is_param part then Param
      else if part = ''**'' then DeepWildcard
      else if part = ''*'' then Wildcard
      else Literal part)"

fun child :: "segment \<Rightarrow> 'h route_node \<Rightarrow> 'h route_node option" where
  "child (Literal s) n = map_of (children n) s"
| "child Param n = paramChild n"
| "child Wildcard n = wildcardChild n"
| "child DeepWildcard n = deepWildcardChild n"

fun set_child :: "segment \<Rightarrow> 'h route_node \<Rightarrow> 'h route_node \<Rightarrow> 'h route_node" where
  "set_child (Literal s) c (RouteNode cs p w d h pp a) =
     RouteNode ((s, c) # filter (\<lambda>x. fst x \<noteq> s) cs) p w d h pp a"
| "set_child Param c (RouteNode cs p w d h pp a) = RouteNode cs (Some c) w d h pp a"
| "set_child Wildcard c (RouteNode cs p w d h pp a) = RouteNode cs p (Some c) d h pp a"
| "set_child DeepWildcard c (RouteNode cs p w d h pp a) = RouteNode cs p w (Some c) h pp a"

definition child_or_new :: "segment \<Rightarrow> 'h route_node \<Rightarrow> 'h route_node" where
  "child_or_new s n = (case child s n of Some c \<Rightarrow> c | None \<Rightarrow> empty_node)"

section \<open>Registration\<close>

text \<open>The checks of \<open>validatePattern\<close> on one part; \<open>isLast\<close> and the parameters seen so far.\<close>

definition isValidParamChar :: "char \<Rightarrow> bool" where
  "isValidParamChar c \<longleftrightarrow> c_isalnum c \<or> c = CHR ''_''"

definition param_name :: "string \<Rightarrow> string" where
  "param_name part = butlast (tl part)"

fun validate_parts :: "string \<Rightarrow> string list \<Rightarrow> string list \<Rightarrow> exn option" where
  "validate_parts pattern [] params = None"
| "validate_parts pattern (part # rest) params =
     (if part = [] then Some (InvalidArgument (''Empty segment in pattern: '' @ pattern))
      else if (part = ''*'' \<or> part = ''**'') \<and> rest \<noteq> []
      then Some (InvalidArgument (''Wildcard '' @ [CHR 0x27] @ part @ [CHR 0x27]
        @ '' must be the last segment in pattern: '' @ pattern))
      else if is_param part then
        let param = param_name part in
        if param = [] then Some (InvalidArgument (''Parameter name cannot be empty: '' @ pattern))
        else if \<not> (\<forall>c \<in> set param. isValidParamChar c)
        then Some (InvalidArgument (''Parameter name '' @ [CHR 0x27] @ param @ [CHR 0x27]
          @ '' contains invalid characters in pattern: '' @ pattern))
        else if param \<in> set params
        then Some (InvalidArgument (''Duplicate parameter '' @ [CHR 0x27] @ param @ [CHR 0x27]
          @ '' in pattern: '' @ pattern))
        else validate_parts pattern rest (param # params)
      else validate_parts pattern rest params)"

definition validatePattern :: "string \<Rightarrow> string list \<Rightarrow> exn option" where
  "validatePattern pattern parts = validate_parts pattern parts []"

text \<open>Walk down a pattern, creating what is missing, and update the node at its end.\<close>

fun descend :: "string list \<Rightarrow> ('h route_node \<Rightarrow> 'r \<times> 'h route_node) \<Rightarrow> 'h route_node \<Rightarrow> 'r \<times> 'h route_node" where
  "descend [] f n = f n"
| "descend (part # ps) f n =
     (let (r, c) = descend ps f (child_or_new (classify part) n) in (r, set_child (classify part) c n))"

definition extend_allowed :: "string \<Rightarrow> string \<Rightarrow> string" where
  "extend_allowed allowed method =
     (let a = (if allowed = [] then method @ '', OPTIONS'' else allowed @ '', '' @ method)
      in if method = ''GET'' then a @ '', HEAD'' else a)"

definition register :: "string \<Rightarrow> string list \<Rightarrow> string \<Rightarrow> 'h \<Rightarrow> 'h route_node \<Rightarrow> exn option \<times> 'h route_node" where
  "register pattern parts method h n =
     (case n of RouteNode cs p w d hs pp a \<Rightarrow>
        if map_of hs method \<noteq> None then (Some (InvalidArgument (''Duplicate route: '' @ pattern)), n)
        else (None, RouteNode cs p w d (hs @ [(method, h)]) parts (extend_allowed a method)))"

record 'h route_table =
  pathTreeRoot :: "'h route_node"
  registeredMethods :: "string list"

definition new_table :: "'h route_table" where
  "new_table = \<lparr>pathTreeRoot = empty_node, registeredMethods = []\<rparr>"

text \<open>\<open>addRoute\<close>: the exception it throws, if any, and the table it leaves.\<close>

definition addRoute :: "string \<Rightarrow> string \<Rightarrow> 'h \<Rightarrow> 'h route_table \<Rightarrow> exn option \<times> 'h route_table" where
  "addRoute routePattern method h t =
     (let pattern = normalizePath routePattern;
          parts = str_split pattern ''/'' in
      case validatePattern pattern parts of
        Some e \<Rightarrow> (Some e, t)
      | None \<Rightarrow>
          let (e, root) = descend parts (register pattern parts method h) (pathTreeRoot t) in
          (case e of
             Some _ \<Rightarrow> (e, t\<lparr>pathTreeRoot := root\<rparr>)
           | None \<Rightarrow> (None, t\<lparr>pathTreeRoot := root, registeredMethods := List.insert method (registeredMethods t)\<rparr>)))"

definition router_get :: "string \<Rightarrow> 'h \<Rightarrow> 'h route_table \<Rightarrow> exn option \<times> 'h route_table" where
  "router_get path h = addRoute path ''GET'' h"

definition router_post :: "string \<Rightarrow> 'h \<Rightarrow> 'h route_table \<Rightarrow> exn option \<times> 'h route_table" where
  "router_post path h = addRoute path ''POST'' h"

definition router_put :: "string \<Rightarrow> 'h \<Rightarrow> 'h route_table \<Rightarrow> exn option \<times> 'h route_table" where
  "router_put path h = addRoute path ''PUT'' h"

definition router_patch :: "string \<Rightarrow> 'h \<Rightarrow> 'h route_table \<Rightarrow> exn option \<times> 'h route_table" where
  "router_patch path h = addRoute path ''PATCH'' h"

definition router_delete :: "string \<Rightarrow> 'h \<Rightarrow> 'h route_table \<Rightarrow> exn option \<times> 'h route_table" where
  "router_delete path h = addRoute path ''DELETE'' h"

section \<open>Search\<close>

fun backtrack :: "'h route_node \<Rightarrow> string list \<Rightarrow> 'h route_node option" where
  "backtrack node [] = Some node"
| "backtrack node (part # rest) =
     (case (case map_of (children node) part of Some c \<Rightarrow> backtrack c rest | None \<Rightarrow> None) of
        Some result \<Rightarrow> Some result
      | None \<Rightarrow>
          (case (case paramChild node of Some c \<Rightarrow> backtrack c rest | None \<Rightarrow> None) of
             Some result \<Rightarrow> Some result
           | None \<Rightarrow>
               (case (case wildcardChild node of Some c \<Rightarrow> backtrack c rest | None \<Rightarrow> None) of
                  Some result \<Rightarrow> Some result
                | None \<Rightarrow> deepWildcardChild node)))"

definition findMatchingRouteEntry :: "'h route_table \<Rightarrow> string list \<Rightarrow> 'h route_node option" where
  "findMatchingRouteEntry t parts =
     (case backtrack (pathTreeRoot t) parts of
        Some n \<Rightarrow> if requestHandlers n \<noteq> [] then Some n else None
      | None \<Rightarrow> None)"

definition getAllowedMethodsString :: "'h route_table \<Rightarrow> string list \<Rightarrow> string" where
  "getAllowedMethodsString t parts =
     (case findMatchingRouteEntry t parts of None \<Rightarrow> [] | Some n \<Rightarrow> allowedMethods n)"

text \<open>
  \<open>getPathParams\<close>; the loop runs over both lists at the same index. Behind the end of the path a literal of the pattern is
  passed over; the code would read a parameter or a wildcard out of bounds there, and the list ends (a pattern that
  matches is never longer than the path).
\<close>

definition deep_capture :: "string list \<Rightarrow> string" where
  "deep_capture parts = butlast (concat (map (\<lambda>p. p @ ''/'') parts))"

fun getPathParams :: "string list \<Rightarrow> string list \<Rightarrow> headers" where
  "getPathParams [] parts = []"
| "getPathParams (pat # pats) parts =
     (if pat = ''**'' then [(''**'', deep_capture parts)]
      else
        (case parts of
           [] \<Rightarrow> (if pat = ''*'' \<or> is_param pat then [] else getPathParams pats [])
         | part # rest \<Rightarrow>
             (if pat = ''*'' then [(''*'', part)]
              else if is_param pat then [(param_name pat, percentDecode part)] else [])
             @ getPathParams pats rest))"

section \<open>The meaning of a pattern\<close>

fun seg_match :: "segment list \<Rightarrow> string list \<Rightarrow> bool" where
  "seg_match [] parts = (parts = [])"
| "seg_match (Literal s # segs) parts = (case parts of [] \<Rightarrow> False | p # ps \<Rightarrow> p = s \<and> seg_match segs ps)"
| "seg_match (DeepWildcard # segs) parts = (segs = [] \<and> parts \<noteq> [])"
| "seg_match (s # segs) parts = (case parts of [] \<Rightarrow> False | p # ps \<Rightarrow> seg_match segs ps)"

fun rank :: "segment \<Rightarrow> nat" where
  "rank (Literal s) = 0"
| "rank Param = 1"
| "rank Wildcard = 2"
| "rank DeepWildcard = 3"

fun preferred :: "segment list \<Rightarrow> segment list \<Rightarrow> bool" where
  "preferred [] b = True"
| "preferred (x # xs) [] = False"
| "preferred (x # xs) (y # ys) = (rank x < rank y \<or> rank x = rank y \<and> preferred xs ys)"

fun node_at :: "'h route_node \<Rightarrow> segment list \<Rightarrow> 'h route_node option" where
  "node_at n [] = Some n"
| "node_at n (s # segs) = (case child s n of None \<Rightarrow> None | Some c \<Rightarrow> node_at c segs)"

lemma backtrack_via:
  "backtrack node (part # rest) =
    (case Option.bind (child (Literal part) node) (\<lambda>c. backtrack c rest) of Some r \<Rightarrow> Some r
     | None \<Rightarrow> (case Option.bind (child Param node) (\<lambda>c. backtrack c rest) of Some r \<Rightarrow> Some r
     | None \<Rightarrow> (case Option.bind (child Wildcard node) (\<lambda>c. backtrack c rest) of Some r \<Rightarrow> Some r
     | None \<Rightarrow> child DeepWildcard node)))"
  by (simp split: option.split)

lemma backtrack_complete:
  "seg_match segs parts \<Longrightarrow> node_at node segs = Some n \<Longrightarrow> backtrack node parts \<noteq> None"
proof (induction parts arbitrary: segs node)
  case (Cons p ps)
  obtain x xs where segs: "segs = x # xs" using Cons.prems(1) by (cases segs) auto
  obtain c where c: "child x node = Some c" "node_at c xs = Some n"
    using Cons.prems(2) segs by (auto split: option.splits)
  show ?case
  proof (cases "x = DeepWildcard")
    case True
    then show ?thesis using c by (auto split: option.split)
  next
    case False
    then have m: "seg_match xs ps" "\<forall>s. x = Literal s \<longrightarrow> s = p"
      using Cons.prems(1) segs by (cases x; simp)+
    then have "backtrack c ps \<noteq> None" using Cons.IH c(2) by blast
    then show ?thesis using c(1) m(2) False by (cases x) (auto split: option.split)
  qed
qed simp

text \<open>The search returns the node of the preferred matching pattern, when any pattern matches.\<close>

definition best :: "'h route_node \<Rightarrow> string list \<Rightarrow> segment list \<Rightarrow> 'h route_node \<Rightarrow> bool" where
  "best node parts segs r \<longleftrightarrow> seg_match segs parts \<and> node_at node segs = Some r \<and>
     (\<forall>segs' n'. seg_match segs' parts \<and> node_at node segs' = Some n' \<longrightarrow> preferred segs segs')"

lemma best_step:
  assumes c: "child x node = Some c" and b: "best c ps segs r" and x: "x \<noteq> DeepWildcard" "\<forall>s. x = Literal s \<longrightarrow> s = p"
    and none: "\<And>y c'. rank y < rank x \<Longrightarrow> (\<forall>s. y = Literal s \<longrightarrow> s = p) \<Longrightarrow> child y node = Some c' \<Longrightarrow> backtrack c' ps = None"
  shows "best node (p # ps) (x # segs) r"
  unfolding best_def
proof (intro conjI allI impI)
  show "seg_match (x # segs) (p # ps)" using b x by (cases x) (auto simp: best_def)
  show "node_at node (x # segs) = Some r" using b c by (simp add: best_def)
  fix segs' n'
  assume m: "seg_match segs' (p # ps) \<and> node_at node segs' = Some n'"
  then obtain y ys where s: "segs' = y # ys" by (cases segs') auto
  obtain c' where c': "child y node = Some c'" "node_at c' ys = Some n'"
    using m s by (auto split: option.splits)
  have lit: "\<forall>s. y = Literal s \<longrightarrow> s = p" using m s by (cases y) auto
  show "preferred (x # segs) segs'"
  proof (cases "y = DeepWildcard")
    case True
    then show ?thesis using s x by (cases x) auto
  next
    case False
    then have my: "seg_match ys ps" using m s by (cases y) auto
    have nl: "\<not> rank y < rank x"
    proof
      assume "rank y < rank x"
      then have "backtrack c' ps = None" using none lit c' by blast
      then show False using backtrack_complete [OF my c'(2)] by simp
    qed
    show ?thesis
    proof (cases "rank x < rank y")
      case True
      then show ?thesis using s by simp
    next
      case False
      then have "x = y" using nl lit x by (cases x; cases y) auto
      then have "c' = c" using c c' by simp
      then have "preferred segs ys" using b my c'(2) by (auto simp: best_def)
      then show ?thesis using s \<open>x = y\<close> by simp
    qed
  qed
qed

lemma backtrack_best: "backtrack node parts = Some r \<Longrightarrow> \<exists>segs. best node parts segs r"
proof (induction parts arbitrary: node r)
  case Nil
  then show ?case by (intro exI [of _ "[]"]) (auto simp: best_def)
next
  case (Cons p ps)
  define attempt where "attempt x = Option.bind (child x node) (\<lambda>c. backtrack c ps)" for x
  have step: "\<exists>segs. best node (p # ps) segs r"
    if at: "attempt x = Some r" and x: "x \<noteq> DeepWildcard" "\<forall>s. x = Literal s \<longrightarrow> s = p"
      and lower: "\<And>y. rank y < rank x \<Longrightarrow> (\<forall>s. y = Literal s \<longrightarrow> s = p) \<Longrightarrow> attempt y = None" for x
  proof -
    obtain c where c: "child x node = Some c" "backtrack c ps = Some r"
      using at by (auto simp: attempt_def bind_eq_Some_conv)
    obtain segs where b: "best c ps segs r" using Cons.IH [OF c(2)] by blast
    have none: "backtrack c' ps = None"
      if "rank y < rank x" "\<forall>s. y = Literal s \<longrightarrow> s = p" "child y node = Some c'" for y c'
      using lower [OF that(1,2)] that(3) by (simp add: attempt_def)
    have "best node (p # ps) (x # segs) r"
      by (rule best_step [OF c(1) b x none])
    then show ?thesis by blast
  qed
  have bt: "backtrack node (p # ps) = (case attempt (Literal p) of Some r \<Rightarrow> Some r | None \<Rightarrow>
      (case attempt Param of Some r \<Rightarrow> Some r | None \<Rightarrow> (case attempt Wildcard of Some r \<Rightarrow> Some r | None \<Rightarrow> child DeepWildcard node)))"
    unfolding attempt_def by (rule backtrack_via)
  show ?case
  proof (cases "attempt (Literal p) = None")
    case False
    then have "attempt (Literal p) = Some r" using Cons.prems bt by auto
    then show ?thesis using step [of "Literal p"] by simp
  next
    case nl: True
    have lit: "attempt y = None" if "rank y < 1" "\<forall>s. y = Literal s \<longrightarrow> s = p" for y
      using that nl by (cases y) auto
    show ?thesis
    proof (cases "attempt Param = None")
      case False
      then have "attempt Param = Some r" using Cons.prems bt nl by auto
      then show ?thesis using step [of Param] lit by simp
    next
      case np: True
      have par: "attempt y = None" if "rank y < 2" "\<forall>s. y = Literal s \<longrightarrow> s = p" for y
        using that nl np by (cases y) auto
      show ?thesis
      proof (cases "attempt Wildcard = None")
        case False
        then have "attempt Wildcard = Some r" using Cons.prems bt nl np by auto
        then show ?thesis using step [of Wildcard] par by simp
      next
        case nw: True
        then have d: "child DeepWildcard node = Some r" using Cons.prems bt nl np by simp
        have "preferred [DeepWildcard] segs'" if m: "seg_match segs' (p # ps)" "node_at node segs' = Some n'" for segs' n'
        proof -
          obtain y ys where s: "segs' = y # ys" using m by (cases segs') auto
          obtain c' where c': "child y node = Some c'" "node_at c' ys = Some n'"
            using m s by (auto split: option.splits)
          have "y = DeepWildcard"
          proof (rule ccontr)
            assume y: "y \<noteq> DeepWildcard"
            then have "seg_match ys ps" "\<forall>s. y = Literal s \<longrightarrow> s = p" using m s by (cases y; simp)+
            then have "attempt y \<noteq> None" using backtrack_complete c' by (auto simp: attempt_def)
            moreover have "attempt y = None"
              using y nl np nw \<open>\<forall>s. y = Literal s \<longrightarrow> s = p\<close> by (cases y) auto
            ultimately show False by simp
          qed
          then show ?thesis using s by simp
        qed
        then show ?thesis using d by (intro exI [of _ "[DeepWildcard]"]) (auto simp: best_def)
      qed
    qed
  qed
qed

text \<open>There is only one such pattern, so the search for a route is characterised by it.\<close>

lemma preferred_antisym:
  "preferred a b \<Longrightarrow> preferred b a \<Longrightarrow> seg_match a parts \<Longrightarrow> seg_match b parts \<Longrightarrow> a = b"
proof (induction a b arbitrary: parts rule: preferred.induct)
  case (1 b)
  then show ?case by (cases b) auto
next
  case (3 x xs y ys)
  have "rank x = rank y" "preferred xs ys" "preferred ys xs" using 3(2,3) by auto
  then show ?case using 3(1) 3(4,5) by (cases x; cases y; cases parts) auto
qed simp

lemma best_unique: "best node parts segs r \<Longrightarrow> best node parts segs' r' \<Longrightarrow> r = r'"
  using preferred_antisym [of segs segs' parts] unfolding best_def by (metis option.inject)

lemma backtrack_iff: "backtrack node parts = Some r \<longleftrightarrow> (\<exists>segs. best node parts segs r)"
proof
  assume "\<exists>segs. best node parts segs r"
  then obtain segs where b: "best node parts segs r" by blast
  then obtain r' where r': "backtrack node parts = Some r'" using backtrack_complete by (fastforce simp: best_def)
  then obtain segs' where "best node parts segs' r'" using backtrack_best by blast
  then show "backtrack node parts = Some r" using r' best_unique [OF b] by simp
qed (rule backtrack_best)

lemma route_found_iff:
  "findMatchingRouteEntry t parts = Some n \<longleftrightarrow> (\<exists>segs. best (pathTreeRoot t) parts segs n) \<and> requestHandlers n \<noteq> []"
  unfolding backtrack_iff [symmetric] by (auto simp: findMatchingRouteEntry_def split: option.splits)

section \<open>What registration changes\<close>

lemma child_set_child: "child s (set_child t c n) = (if s = t then Some c else child s n)"
proof -
  have "map_of (filter (\<lambda>x. fst x \<noteq> a) cs) b = (if a = b then None else map_of cs b)" for a b and cs :: "(string \<times> 'a route_node) list"
    by (induction cs) auto
  then show ?thesis by (cases n; cases t; cases s) auto
qed

lemma set_child_data [simp]:
  "requestHandlers (set_child t c n) = requestHandlers n"
  "allowedMethods (set_child t c n) = allowedMethods n"
  "patternParts (set_child t c n) = patternParts n"
  by (cases n; cases t; simp)+

text \<open>The handler registered for a pattern and a method.\<close>

definition handler_at :: "'h route_node \<Rightarrow> segment list \<Rightarrow> string \<Rightarrow> 'h option" where
  "handler_at root segs m = Option.bind (node_at root segs) (\<lambda>n. map_of (requestHandlers n) m)"

lemma node_at_new: "node_at empty_node segs = Some n \<Longrightarrow> n = empty_node"
proof (cases segs)
  case (Cons s ss)
  assume "node_at empty_node segs = Some n"
  then show ?thesis using Cons by (cases s) (auto simp: empty_node_def)
qed simp

lemma handler_at_empty [simp]: "handler_at (empty_node :: 'h route_node) segs m = None"
proof (cases "node_at (empty_node :: 'h route_node) segs")
  case (Some n)
  then have "n = empty_node" using node_at_new by blast
  then have "map_of (requestHandlers n) m = None" by (simp add: empty_node_def)
  then show ?thesis using Some by (simp add: handler_at_def)
qed (simp add: handler_at_def)

lemma handler_at_child_or_new: "handler_at (child_or_new s n) segs m = handler_at n (s # segs) m"
  by (cases "child s n") (simp_all add: child_or_new_def, simp_all add: handler_at_def)

lemma handler_at_set_child:
  "handler_at (set_child s c n) segs m =
    (case segs of [] \<Rightarrow> handler_at n [] m
     | t # ts \<Rightarrow> if t = s then handler_at c ts m else handler_at n segs m)"
  by (cases segs) (simp_all add: handler_at_def child_set_child)

lemma handler_at_register:
  assumes "register pattern parts method h n = (e, n')"
  shows "(e = None \<longleftrightarrow> handler_at n [] method = None) \<and>
    handler_at n' segs m = (if e = None \<and> segs = [] \<and> m = method then Some h else handler_at n segs m)"
proof -
  obtain cs p w d hs pp a where n: "n = RouteNode cs p w d hs pp a" by (cases n)
  show ?thesis
  proof (cases "map_of hs method = None")
    case True
    then have n': "e = None" "n' = RouteNode cs p w d (hs @ [(method, h)]) parts (extend_allowed a method)"
      using assms n by (auto simp: register_def)
    have "map_of (hs @ [(method, h)]) m = (if m = method then Some h else map_of hs m)"
      using True by (auto simp: map_add_def split: option.split)
    moreover have "handler_at n' (s # ss) m = handler_at n (s # ss) m" for s ss
      by (cases s) (simp_all add: handler_at_def n n')
    ultimately show ?thesis using n n' True by (cases segs) (simp_all add: handler_at_def)
  qed (use assms n in \<open>auto simp: register_def handler_at_def\<close>)
qed

lemma handler_at_descend:
  "descend ps (register pattern parts method h) n = (e, n') \<Longrightarrow>
    (e = None \<longleftrightarrow> handler_at n (map classify ps) method = None) \<and>
    handler_at n' segs m =
      (if e = None \<and> segs = map classify ps \<and> m = method then Some h else handler_at n segs m)"
proof (induction ps arbitrary: n e n' segs)
  case Nil
  then show ?case using handler_at_register [of pattern parts "method" h n e n'] by simp
next
  case (Cons q ps)
  obtain c where c: "descend ps (register pattern parts method h) (child_or_new (classify q) n) = (e, c)"
    and n': "n' = set_child (classify q) c n"
    using Cons.prems by (auto simp: Let_def split: prod.splits)
  have IH: "(e = None \<longleftrightarrow> handler_at (child_or_new (classify q) n) (map classify ps) method = None) \<and>
    handler_at c segs m =
      (if e = None \<and> segs = map classify ps \<and> m = method then Some h
       else handler_at (child_or_new (classify q) n) segs m)" for segs
    using Cons.IH [OF c] by blast
  show ?case
  proof (cases segs)
    case Nil
    then show ?thesis using IH n' by (simp add: handler_at_child_or_new handler_at_set_child)
  next
    case (Cons t ts)
    then show ?thesis using IH [of ts] n'
      by (cases "t = classify q") (auto simp: handler_at_child_or_new handler_at_set_child)
  qed
qed

text \<open>
  What a node says about itself: its handlers, the pattern it was last registered with, and the text for \<open>Allow\<close>. A node
  that is not there says nothing, like one that is only on the way to others.
\<close>

definition node_data :: "'h route_node \<Rightarrow> segment list \<Rightarrow> (string \<times> 'h) list \<times> string list \<times> string" where
  "node_data root segs = (case node_at root segs of None \<Rightarrow> ([], [], []) | Some n \<Rightarrow> (requestHandlers n, patternParts n, allowedMethods n))"

lemma node_data_empty [simp]: "node_data (empty_node :: 'h route_node) segs = ([], [], [])"
proof (cases "node_at (empty_node :: 'h route_node) segs")
  case (Some n)
  then have "node_data (empty_node :: 'h route_node) segs = (requestHandlers n, patternParts n, allowedMethods n)" "n = empty_node"
    using node_at_new [OF Some] by (simp_all add: node_data_def)
  then show ?thesis by (simp add: empty_node_def)
qed (simp add: node_data_def)

lemma node_data_child_or_new: "node_data (child_or_new s n) segs = node_data n (s # segs)"
  by (cases "child s n") (simp_all add: child_or_new_def, simp_all add: node_data_def)

lemma node_data_set_child:
  "node_data (set_child s c n) segs = (case segs of [] \<Rightarrow> node_data n [] | t # ts \<Rightarrow> if t = s then node_data c ts else node_data n segs)"
  by (cases segs) (simp_all add: node_data_def child_set_child)

lemma register_children: "register pattern parts method h n = (e, n') \<Longrightarrow> child s n' = child s n"
  by (cases n; cases s) (auto simp: register_def split: if_splits)

lemma node_data_register:
  assumes "register pattern parts method h n = (e, n')"
  shows "node_data n' segs = (if e = None \<and> segs = [] then (requestHandlers n @ [(method, h)], parts, extend_allowed (allowedMethods n) method)
     else node_data n segs)"
  using assms register_children [OF assms] by (cases n; cases segs) (auto simp: node_data_def register_def split: if_splits)

lemma node_data_descend:
  "descend ps (register pattern parts method h) n = (e, n') \<Longrightarrow>
    node_data n' segs =
      (if e = None \<and> segs = map classify ps
       then (case node_data n segs of (hs, pp, a) \<Rightarrow> (hs @ [(method, h)], parts, extend_allowed a method))
       else node_data n segs)"
proof (induction ps arbitrary: n e n' segs)
  case Nil
  then show ?case using node_data_register [of pattern parts "method" h n e n'] by (simp add: node_data_def)
next
  case (Cons q ps)
  obtain c where c: "descend ps (register pattern parts method h) (child_or_new (classify q) n) = (e, c)"
    and n': "n' = set_child (classify q) c n"
    using Cons.prems by (auto simp: Let_def split: prod.splits)
  show ?case
  proof (cases segs)
    case Nil
    then show ?thesis using n' by (simp add: node_data_set_child)
  next
    case (Cons t ts)
    then show ?thesis using Cons.IH [OF c, of ts] n'
      by (cases "t = classify q") (auto simp: node_data_child_or_new node_data_set_child)
  qed
qed

text \<open>The nodes that come to be are those on the way.\<close>

lemma nodes_descend:
  "descend ps (register pattern parts method h) n = (e, n') \<Longrightarrow>
    node_at n' segs \<noteq> None \<longleftrightarrow> node_at n segs \<noteq> None \<or> (\<exists>more. map classify ps = segs @ more)"
proof (induction ps arbitrary: n e n' segs)
  case Nil
  then show ?case using register_children [of pattern parts "method" h n e n'] by (cases segs) simp_all
next
  case (Cons q ps)
  obtain c where c: "descend ps (register pattern parts method h) (child_or_new (classify q) n) = (e, c)"
    and n': "n' = set_child (classify q) c n"
    using Cons.prems by (auto simp: Let_def split: prod.splits)
  show ?case
  proof (cases segs)
    case (Cons t ts)
    have new: "node_at (child_or_new (classify q) n) ts \<noteq> None \<longleftrightarrow> node_at n (classify q # ts) \<noteq> None \<or> ts = [] \<and> child (classify q) n = None"
    proof (cases "child (classify q) n")
      case None
      then have "child_or_new (classify q) n = empty_node" by (simp add: child_or_new_def)
      moreover have "node_at empty_node ts \<noteq> None \<longleftrightarrow> ts = []" 
        by (cases ts; cases "hd ts") (simp_all add: empty_node_def)
      ultimately show ?thesis using None by simp
    qed (simp add: child_or_new_def)
    show ?thesis using Cons Cons.IH [OF c, of ts] n' new
      by (cases "t = classify q") (auto simp: child_set_child)
  qed simp
qed

lemma node_at_append: "node_at n (a @ b) = Option.bind (node_at n a) (\<lambda>c. node_at c b)"
  by (induction a arbitrary: n) (auto split: option.split)

section \<open>The allowed methods\<close>

definition node_ok :: "'h route_node \<Rightarrow> bool" where
  "node_ok n \<longleftrightarrow> distinct (map fst (requestHandlers n)) \<and>
     allowedMethods n = foldl extend_allowed [] (map fst (requestHandlers n))"

definition tree_ok :: "'h route_node \<Rightarrow> bool" where
  "tree_ok root \<longleftrightarrow> (\<forall>segs n. node_at root segs = Some n \<longrightarrow> node_ok n)"

lemma tree_ok_empty: "tree_ok empty_node"
  unfolding tree_ok_def
proof (intro allI impI)
  fix segs and n :: "'a route_node"
  assume "node_at empty_node segs = Some n"
  then have "n = empty_node" by (rule node_at_new)
  then show "node_ok n" by (simp add: node_ok_def empty_node_def)
qed

lemma tree_ok_child: "tree_ok n \<Longrightarrow> child s n = Some c \<Longrightarrow> tree_ok c"
  unfolding tree_ok_def by (metis node_at.simps(2) option.simps(5))

lemma tree_ok_child_or_new: "tree_ok n \<Longrightarrow> tree_ok (child_or_new s n)"
  by (cases "child s n") (simp_all add: child_or_new_def tree_ok_empty tree_ok_child)

lemma node_ok_set_child: "node_ok n \<Longrightarrow> node_ok (set_child s c n)"
  by (simp add: node_ok_def)

lemma tree_ok_set_child: "tree_ok n \<Longrightarrow> tree_ok c \<Longrightarrow> tree_ok (set_child s c n)"
  unfolding tree_ok_def
proof (intro allI impI)
  fix segs m
  assume n: "\<forall>segs m. node_at n segs = Some m \<longrightarrow> node_ok m"
    and c: "\<forall>segs m. node_at c segs = Some m \<longrightarrow> node_ok m"
    and at: "node_at (set_child s c n) segs = Some m"
  show "node_ok m"
  proof (cases segs)
    case Nil
    have "node_ok n" using n [rule_format, of "[]"] by simp
    then show ?thesis using at Nil node_ok_set_child by auto
  next
    case (Cons t ts)
    show ?thesis
    proof (cases "t = s")
      case True
      then show ?thesis using at c Cons by (simp add: child_set_child)
    next
      case False
      then have "node_at n (t # ts) = Some m" using at Cons by (simp add: child_set_child)
      then show ?thesis using n by blast
    qed
  qed
qed

lemma tree_ok_register: "tree_ok n \<Longrightarrow> tree_ok (snd (register pattern parts method h n))"
proof -
  assume ok: "tree_ok n"
  obtain cs p w d hs pp a where n: "n = RouteNode cs p w d hs pp a" by (cases n)
  show ?thesis
  proof (cases "map_of hs method = None")
    case True
    have "node_ok n" using ok [unfolded tree_ok_def, rule_format, of "[]"] by simp
    then have a: "distinct (map fst hs)" "a = foldl extend_allowed [] (map fst hs)"
      by (simp_all add: node_ok_def n)
    have "method \<notin> fst ` set hs" using True by (simp add: map_of_eq_None_iff)
    then have root: "node_ok (RouteNode cs p w d (hs @ [(method, h)]) parts (extend_allowed a method))"
      using a by (simp add: node_ok_def)
    show ?thesis
      unfolding tree_ok_def
    proof (intro allI impI)
      fix segs m
      assume at: "node_at (snd (register pattern parts method h n)) segs = Some m"
      have r: "snd (register pattern parts method h n) =
          RouteNode cs p w d (hs @ [(method, h)]) parts (extend_allowed a method)"
        using True by (simp add: register_def n)
      show "node_ok m"
      proof (cases segs)
        case (Cons s ss)
        have "child s (RouteNode cs p w d (hs @ [(method, h)]) parts (extend_allowed a method)) = child s n"
          by (cases s) (simp_all add: n)
        then have "node_at n segs = Some m" using at r Cons by simp
        then show ?thesis using ok by (simp add: tree_ok_def)
      qed (use at r root in simp)
    qed
  qed (use ok n in \<open>simp add: register_def\<close>)
qed

lemma tree_ok_descend:
  "tree_ok n \<Longrightarrow> tree_ok (snd (descend ps (register pattern parts method h) n))"
proof (induction ps arbitrary: n)
  case (Cons q ps)
  let ?d = "descend ps (register pattern parts method h) (child_or_new (classify q) n)"
  have "tree_ok (snd ?d)" by (rule Cons.IH [OF tree_ok_child_or_new [OF Cons.prems]])
  from tree_ok_set_child [OF Cons.prems this, of "classify q"] show ?case
    by (simp add: Let_def case_prod_beta)
qed (simp add: tree_ok_register)

lemma addRoute_tree_ok: "tree_ok (pathTreeRoot t) \<Longrightarrow> tree_ok (pathTreeRoot (snd (addRoute pattern m h t)))"
proof -
  assume ok: "tree_ok (pathTreeRoot t)"
  let ?p = "normalizePath pattern"
  obtain e root where d: "descend (str_split ?p ''/'') (register ?p (str_split ?p ''/'') m h) (pathTreeRoot t) = (e, root)"
    by fastforce
  then have "tree_ok root" using tree_ok_descend [OF ok] by (metis snd_conv)
  then show ?thesis using d ok by (auto simp: addRoute_def Let_def split: option.splits)
qed

text \<open>The \<open>Allow\<close> value that a list of registered methods gives.\<close>

fun allowed_list :: "string list \<Rightarrow> string list" where
  "allowed_list [] = []"
| "allowed_list (m # ms) = m # ''OPTIONS'' # (if m = ''GET'' then [''HEAD''] else [])
     @ concat (map (\<lambda>m. m # (if m = ''GET'' then [''HEAD''] else [])) ms)"

lemma str_join_snoc: "xs \<noteq> [] \<Longrightarrow> str_join d (xs @ [x]) = str_join d xs @ d @ x"
  by (induction d xs rule: str_join.induct) (auto simp: str_join_Cons)

lemma str_join_snoc2: "xs \<noteq> [] \<Longrightarrow> str_join d (xs @ [x, y]) = str_join d xs @ d @ x @ d @ y"
  using str_join_snoc [of "xs @ [x]" d y] str_join_snoc [of xs d x] by simp

lemma allowed_list_snoc:
  "ms \<noteq> [] \<Longrightarrow> allowed_list (ms @ [m]) = allowed_list ms @ m # (if m = ''GET'' then [''HEAD''] else [])"
  by (cases ms) auto

lemma str_join_empty: "\<forall>x \<in> set xs. x \<noteq> [] \<Longrightarrow> str_join d xs = [] \<longleftrightarrow> xs = []"
  by (induction d xs rule: str_join.induct) auto

lemma allowed_list_nonempty: "\<forall>m \<in> set ms. m \<noteq> [] \<Longrightarrow> \<forall>x \<in> set (allowed_list ms). x \<noteq> []"
  by (cases ms) (auto split: if_splits)

lemma foldl_extend_allowed:
  "\<forall>m \<in> set ms. m \<noteq> [] \<Longrightarrow> foldl extend_allowed [] ms = str_join '', '' (allowed_list ms)"
proof (induction ms rule: rev_induct)
  case (snoc m ms)
  show ?case
  proof (cases "ms = []")
    case True
    then show ?thesis by (simp add: extend_allowed_def)
  next
    case False
    then have al: "allowed_list ms \<noteq> []" by (cases ms) auto
    have ne: "str_join '', '' (allowed_list ms) \<noteq> []"
      using snoc.prems allowed_list_nonempty [of ms] str_join_empty [of "allowed_list ms" "'', ''"] al by simp
    have "foldl extend_allowed [] (ms @ [m]) = extend_allowed (str_join '', '' (allowed_list ms)) m"
      using snoc by simp
    also have "\<dots> = str_join '', '' (allowed_list (ms @ [m]))"
      using ne al by (simp add: extend_allowed_def Let_def allowed_list_snoc [OF False] str_join_snoc str_join_snoc2)
    finally show ?thesis .
  qed
qed simp

lemma HEAD_iff_GET:
  "''HEAD'' \<notin> set ms \<Longrightarrow> ''HEAD'' \<in> set (allowed_list ms) \<longleftrightarrow> ''GET'' \<in> set ms"
  by (cases ms) auto

text \<open>The methods, \<open>OPTIONS\<close>, and \<open>HEAD\<close> with \<open>GET\<close>; each once when \<open>OPTIONS\<close> is not registered itself.\<close>

lemma set_allowed_list:
  "ms \<noteq> [] \<Longrightarrow> set (allowed_list ms) = insert ''OPTIONS'' (set ms \<union> (if ''GET'' \<in> set ms then {''HEAD''} else {}))"
  by (cases ms) (auto split: if_splits)

lemma distinct_allowed_list:
  assumes "distinct ms" "''OPTIONS'' \<notin> set ms" "''HEAD'' \<notin> set ms"
  shows "distinct (allowed_list ms)"
proof -
  let ?f = "\<lambda>m. m # (if m = ''GET'' then [''HEAD''] else [])"
  have s: "set (concat (map ?f xs)) \<subseteq> set xs \<union> {''HEAD''}" "''GET'' \<notin> set xs \<Longrightarrow> concat (map ?f xs) = xs" for xs
    by (induction xs) auto
  have d: "distinct (concat (map ?f xs))" if "distinct xs" "''HEAD'' \<notin> set xs" for xs
    using that
  proof (induction xs)
    case (Cons x xs)
    then show ?case using s(1) [of xs] s(2) [of xs] by (cases "x = ''GET''") auto
  qed simp
  show ?thesis
  proof (cases ms)
    case (Cons x xs)
    then show ?thesis using assms d [of xs] s(1) [of xs] s(2) [of xs] by (cases "x = ''GET''") auto
  qed simp
qed

text \<open>\<open>HEAD\<close> follows \<open>GET\<close>, after \<open>OPTIONS\<close> when \<open>GET\<close> came first; \<open>OPTIONS\<close> is listed twice when it is registered.\<close>

lemma allowed_list_order:
  "allowed_list [''GET'', ''POST''] = [''GET'', ''OPTIONS'', ''HEAD'', ''POST'']"
  "allowed_list [''POST'', ''GET''] = [''POST'', ''OPTIONS'', ''GET'', ''HEAD'']"
  "allowed_list [''OPTIONS''] = [''OPTIONS'', ''OPTIONS'']"
  by simp_all

section \<open>Path parameters\<close>

lemma deep_capture_join: "parts \<noteq> [] \<Longrightarrow> deep_capture parts = str_join ''/'' parts"
proof (induction parts)
  case (Cons p ps)
  show ?case
  proof (cases "ps = []")
    case False
    then have "concat (map (\<lambda>p. p @ ''/'') ps) \<noteq> []" by (cases ps) auto
    then have "deep_capture (p # ps) = p @ ''/'' @ deep_capture ps"
      by (simp add: deep_capture_def butlast_append)
    then show ?thesis using Cons False by (simp add: str_join_Cons)
  qed (simp add: deep_capture_def butlast_append)
qed simp

lemma classify_simps:
  "classify pat = DeepWildcard \<longleftrightarrow> \<not> is_param pat \<and> pat = ''**''"
  "classify pat = Param \<longleftrightarrow> is_param pat"
  "classify pat = Wildcard \<longleftrightarrow> \<not> is_param pat \<and> pat = ''*''"
  by (auto simp: classify_def)

lemma is_param_star [simp]: "\<not> is_param ''**''" "\<not> is_param ''*''"
  by (simp_all add: is_param_def)

text \<open>Every parameter of a matching pattern is bound to the decoded part at its position, and a
  deep wildcard to the rest of the path.\<close>

lemma getPathParams_binds:
  assumes "seg_match (map classify pats) parts" "i < length pats"
  shows "(is_param (pats ! i) \<longrightarrow> (param_name (pats ! i), percentDecode (parts ! i)) \<in> set (getPathParams pats parts))
    \<and> (pats ! i = ''**'' \<longrightarrow> (''**'', str_join ''/'' (drop i parts)) \<in> set (getPathParams pats parts))"
  using assms
proof (induction pats arbitrary: parts i)
  case (Cons pat pats)
  show ?case
  proof (cases "pat = ''**''")
    case True
    then have "classify pat = DeepWildcard" by (simp add: classify_def)
    then have "pats = []" "parts \<noteq> []" using Cons.prems(1) by auto
    then show ?thesis using True Cons.prems(2) by (auto simp: deep_capture_join)
  next
    case False
    then have "classify pat \<noteq> DeepWildcard" by (simp add: classify_simps)
    then obtain q qs where parts: "parts = q # qs" and m: "seg_match (map classify pats) qs"
      using Cons.prems(1) by (cases "classify pat"; cases parts) auto
    show ?thesis
    proof (cases i)
      case 0
      then show ?thesis using False parts by auto
    next
      case (Suc j)
      then show ?thesis using Cons.IH [OF m, of j] Cons.prems(2) False parts by auto
    qed
  qed
qed simp

lemma preferred_literal:
  "seg_match segs parts \<Longrightarrow> preferred segs (map Literal parts) \<Longrightarrow> segs = map Literal parts"
proof (induction parts arbitrary: segs)
  case Nil
  then show ?case by (cases segs) auto
next
  case (Cons p ps)
  then show ?case by (cases segs; cases "hd segs") auto
qed

lemma seg_match_literal: "seg_match (map Literal parts) parts"
  by (induction parts) auto

text \<open>A route without parameters and wildcards wins over every other route on its own path.\<close>

lemma literal_route_found:
  assumes "handler_at (pathTreeRoot t) (map Literal parts) m = Some h"
  shows "\<exists>n. findMatchingRouteEntry t parts = Some n \<and> map_of (requestHandlers n) m = Some h"
proof -
  obtain n where n: "node_at (pathTreeRoot t) (map Literal parts) = Some n" "map_of (requestHandlers n) m = Some h"
    using assms by (auto simp: handler_at_def bind_eq_Some_conv)
  obtain r where r: "backtrack (pathTreeRoot t) parts = Some r"
    using backtrack_complete [OF seg_match_literal n(1)] by auto
  obtain segs where b: "best (pathTreeRoot t) parts segs r" using backtrack_best [OF r] by blast
  then have "preferred segs (map Literal parts)" using n(1) seg_match_literal by (auto simp: best_def)
  then have "segs = map Literal parts" using b preferred_literal by (auto simp: best_def)
  then have "r = n" using b n(1) by (simp add: best_def)
  moreover have "requestHandlers n \<noteq> []" using n(2) by auto
  ultimately show ?thesis using r n(2) by (simp add: findMatchingRouteEntry_def)
qed

section \<open>What a registration does\<close>

lemma addRoute_effect:
  assumes "addRoute pattern m h t = (e, t')" "parts = str_split (normalizePath pattern) ''/''"
  shows "(e = None \<longleftrightarrow> validatePattern (normalizePath pattern) parts = None \<and>
      handler_at (pathTreeRoot t) (map classify parts) m = None)
    \<and> handler_at (pathTreeRoot t') segs m' =
      (if e = None \<and> segs = map classify parts \<and> m' = m then Some h else handler_at (pathTreeRoot t) segs m')
    \<and> set (registeredMethods t') = (if e = None then insert m (set (registeredMethods t)) else set (registeredMethods t))"
proof (cases "validatePattern (normalizePath pattern) parts")
  case (Some x)
  then show ?thesis using assms by (auto simp: addRoute_def Let_def)
next
  case None
  obtain e1 root where d: "descend parts (register (normalizePath pattern) parts m h) (pathTreeRoot t) = (e1, root)" by fastforce
  note eff = handler_at_descend [OF d]
  show ?thesis using assms None d eff by (cases e1) (auto simp: addRoute_def Let_def)
qed

text \<open>
  The whole effect on the tree: the nodes on the way to the pattern come to be, and only the node of the pattern changes what it
  says. It takes over the new pattern, so the parameters of methods registered there before are renamed.
\<close>

lemma addRoute_frame:
  assumes "addRoute pattern m h t = (e, t')" "parts = str_split (normalizePath pattern) ''/''"
  shows "node_data (pathTreeRoot t') segs =
      (if e = None \<and> segs = map classify parts
       then (case node_data (pathTreeRoot t) segs of (hs, pp, a) \<Rightarrow> (hs @ [(m, h)], parts, extend_allowed a m))
       else node_data (pathTreeRoot t) segs)"
    "node_at (pathTreeRoot t') segs \<noteq> None \<longleftrightarrow>
       node_at (pathTreeRoot t) segs \<noteq> None \<or> e = None \<and> (\<exists>more. map classify parts = segs @ more)"
proof -
  obtain e1 root where d: "descend parts (register (normalizePath pattern) parts m h) (pathTreeRoot t) = (e1, root)" by fastforce
  have old: "node_at (pathTreeRoot t) segs \<noteq> None" if "e1 \<noteq> None" "map classify parts = segs @ more" for more
  proof -
    have "handler_at (pathTreeRoot t) (map classify parts) m \<noteq> None" using handler_at_descend [OF d] that(1) by blast
    then show ?thesis by (auto simp: handler_at_def that(2) node_at_append bind_eq_Some_conv)
  qed
  show "node_data (pathTreeRoot t') segs =
      (if e = None \<and> segs = map classify parts
       then (case node_data (pathTreeRoot t) segs of (hs, pp, a) \<Rightarrow> (hs @ [(m, h)], parts, extend_allowed a m))
       else node_data (pathTreeRoot t) segs)"
    using assms d node_data_descend [OF d, of segs] by (auto simp: addRoute_def Let_def split: option.splits)
  show "node_at (pathTreeRoot t') segs \<noteq> None \<longleftrightarrow>
       node_at (pathTreeRoot t) segs \<noteq> None \<or> e = None \<and> (\<exists>more. map classify parts = segs @ more)"
    using assms d nodes_descend [OF d, of segs] old by (cases e1) (auto simp: addRoute_def Let_def split: option.splits)
qed

lemma parameters_renamed:
  "let t1 = snd (router_get ''/a/<id>'' (1 :: nat) new_table); t2 = snd (router_post ''/a/<name>'' 2 t1);
       params = (\<lambda>t. map_option (\<lambda>n. getPathParams (patternParts n) [''a'', ''7'']) (findMatchingRouteEntry t [''a'', ''7''])) in
   params t1 = Some [(''id'', ''7'')] \<and> params t2 = Some [(''name'', ''7'')]
     \<and> handler_at (pathTreeRoot t2) [Literal ''a'', Param] ''GET'' = Some 1"
  by code_simp

lemma handler_at_new_table [simp]: "handler_at (pathTreeRoot new_table) segs m = None"
  by (simp add: new_table_def)

end
