(* ===== verification/HttpDate.thy ===== *)
theory HttpDate
  imports Prelude
begin

text \<open>
  HTTP dates of \<open>rukh/include/rukh/http/httpUtils.hpp\<close>: \<open>toHttpDate\<close> and the per-thread cache of
  \<open>getCurrentHttpDate\<close>, with what they use of the C library, \<open>gmtime_r\<close> (the proleptic Gregorian
  calendar) and \<open>strftime\<close> with the format \<open>%a, %d %b %Y %H:%M:%S GMT\<close>. A time is a number of seconds since 1970.
\<close>

definition day_name :: "int \<Rightarrow> string" where
  "day_name w = [''Sun'', ''Mon'', ''Tue'', ''Wed'', ''Thu'', ''Fri'', ''Sat''] ! nat w"

definition month_name :: "int \<Rightarrow> string" where
  "month_name m = [''Jan'', ''Feb'', ''Mar'', ''Apr'', ''May'', ''Jun'', ''Jul'', ''Aug'', ''Sep'',
     ''Oct'', ''Nov'', ''Dec''] ! nat (m - 1)"

text \<open>Year, month and day of a day number; the year is counted from March of year 0.\<close>

definition civil_from_days :: "int \<Rightarrow> int \<times> int \<times> int" where
  "civil_from_days days =
     (let z = days + 719468;
          era = z div 146097;
          doe = z mod 146097;
          yoe = (doe - doe div 1460 + doe div 36524 - doe div 146096) div 365;
          doy = doe - (365 * yoe + yoe div 4 - yoe div 100);
          mp = (5 * doy + 2) div 153;
          d = doy - (153 * mp + 2) div 5 + 1;
          m = (if mp < 10 then mp + 3 else mp - 9);
          y = yoe + era * 400 + (if m \<le> 2 then 1 else 0)
      in (y, m, d))"

definition two_digits :: "int \<Rightarrow> string" where
  "two_digits n = [digit_char (nat (n div 10)), digit_char (nat (n mod 10))]"

definition toHttpDate :: "int \<Rightarrow> string" where
  "toHttpDate t =
     (let days = t div 86400;
          s = t mod 86400;
          (y, m, d) = civil_from_days days
      in day_name ((days + 4) mod 7) @ '', '' @ two_digits d @ '' '' @ month_name m @ '' '' @ to_dec (nat y)
         @ '' '' @ two_digits (s div 3600) @ '':'' @ two_digits (s div 60 mod 60) @ '':'' @ two_digits (s mod 60)
         @ '' GMT'')"

text \<open>The cached string and the second it was made for.\<close>

definition getCurrentHttpDate :: "int \<Rightarrow> string \<times> int \<Rightarrow> string \<times> (string \<times> int)" where
  "getCurrentHttpDate now cache =
     (if now \<noteq> snd cache then (toHttpDate now, (toHttpDate now, now)) else (fst cache, cache))"

lemma getCurrentHttpDate_cached:
  assumes "snd cache = 0 \<and> 0 < now \<or> fst cache = toHttpDate (snd cache)"
  shows "fst (getCurrentHttpDate now cache) = toHttpDate now \<and>
    fst (snd (getCurrentHttpDate now cache)) = toHttpDate (snd (snd (getCurrentHttpDate now cache)))"
  using assms by (auto simp: getCurrentHttpDate_def)

lemma http_epoch: "toHttpDate 0 = ''Thu, 01 Jan 1970 00:00:00 GMT''"
  by code_simp

lemma http_leap_day: "toHttpDate 951827696 = ''Tue, 29 Feb 2000 12:34:56 GMT''"
  by code_simp

end
