(* ===== verification/CookieStore.thy ===== *)
theory CookieStore
  imports HttpDate StringUtils
begin

text \<open>
  Cookies of a response: \<open>rukh/include/rukh/http/Cookie.hpp\<close> and \<open>CookieStore.hpp\<close>. The serialised
  form is the list of the pieces that the code hands to its \<open>write\<close> callback, in order; the size is
  computed separately, as the code does, and the lemma \<open>getSerializedSize_exact\<close> says that they agree.
  \<open>expires\<close> is \<open>None\<close> for \<open>time_point::max()\<close>.
\<close>

record cookie =
  ck_name :: string
  ck_value :: string
  ck_path :: string
  httpOnly :: bool
  secure :: bool
  sameSite :: string
  maxAge :: int
  expires :: "int option"
  ck_domain :: string

definition new_cookie :: "string \<Rightarrow> string \<Rightarrow> cookie" where
  "new_cookie name v = \<lparr>ck_name = name, ck_value = v, ck_path = ''/'', httpOnly = False, secure = False,
     sameSite = ''Lax'', maxAge = -1, expires = None, ck_domain = []\<rparr>"

type_synonym cookie_store = "cookie list"

definition setCookie :: "cookie \<Rightarrow> cookie_store \<Rightarrow> cookie_store" where
  "setCookie c cs = cs @ [c]"

definition unsetCookie :: "string \<Rightarrow> cookie_store \<Rightarrow> cookie_store" where
  "unsetCookie name cs = filter (\<lambda>c. ck_name c \<noteq> name) cs"

definition deleteCookie :: "string \<Rightarrow> string \<Rightarrow> cookie_store \<Rightarrow> cookie_store" where
  "deleteCookie name path cs =
     cs @ [(new_cookie name [])\<lparr>ck_path := path, maxAge := 0, expires := Some 0\<rparr>]"

definition getCookieByName :: "string \<Rightarrow> cookie_store \<Rightarrow> cookie option" where
  "getCookieByName name cs =
     (case find_idx (\<lambda>c. ck_name c = name) cs of Some i \<Rightarrow> Some (cs ! i) | None \<Rightarrow> None)"

definition cookie_pieces :: "cookie \<Rightarrow> bytes list" where
  "cookie_pieces c =
     [''set-cookie: '', ck_name c, ''='', ck_value c, ''; Path='', ck_path c, ''; SameSite='', sameSite c]
     @ (if httpOnly c then [''; HttpOnly''] else [])
     @ (if secure c then [''; Secure''] else [])
     @ (if ck_domain c \<noteq> [] then [''; Domain='', ck_domain c] else [])
     @ (case expires c of Some t \<Rightarrow> [''; Expires='', toHttpDate t] | None \<Rightarrow> [])
     @ (if maxAge c > -1 then [''; Max-Age='', to_dec (nat (maxAge c))] else [])
     @ [crlf]"

definition serializeUsing :: "cookie_store \<Rightarrow> bytes list" where
  "serializeUsing cs = concat (map cookie_pieces cs)"

definition cookie_size :: "cookie \<Rightarrow> nat" where
  "cookie_size c =
     length ''Set-Cookie: ''
     + (length (ck_name c) + length ''='' + length (ck_value c) + length ''; Path='' + length (ck_path c)
        + length ''; SameSite='' + length (sameSite c))
     + (if httpOnly c then length ''; HttpOnly'' else 0)
     + (if secure c then length ''; Secure'' else 0)
     + (if ck_domain c \<noteq> [] then length ''; Domain='' + length (ck_domain c) else 0)
     + (case expires c of Some t \<Rightarrow> length ''; Expires='' + length (toHttpDate t) | None \<Rightarrow> 0)
     + (if maxAge c > -1 then length ''; Max-Age='' + digit_count (maxAge c) else 0)
     + length crlf"

definition getSerializedSize :: "cookie_store \<Rightarrow> nat" where
  "getSerializedSize cs = sum_list (map cookie_size cs)"

text \<open>\<open>maxAge\<close> is an \<open>int\<close>.\<close>

definition cookies_ok :: "cookie_store \<Rightarrow> bool" where
  "cookies_ok cs \<longleftrightarrow> (\<forall>c \<in> set cs. - 2147483648 \<le> maxAge c \<and> maxAge c \<le> 2147483647)"

lemma cookie_size_exact:
  "- 2147483648 \<le> maxAge c \<Longrightarrow> maxAge c \<le> 2147483647 \<Longrightarrow> cookie_size c = length (concat (cookie_pieces c))"
proof -
  assume m: "- 2147483648 \<le> maxAge c" "maxAge c \<le> 2147483647"
  have "digit_count (maxAge c) = length (to_dec (nat (maxAge c)))" if "maxAge c > -1"
  proof -
    have "int (nat (maxAge c)) = maxAge c" using that by simp
    moreover have "nat (maxAge c) < 10000000000" using m by simp
    ultimately show ?thesis using digit_count_length [of "nat (maxAge c)"] by simp
  qed
  then show ?thesis by (cases "expires c") (simp_all add: cookie_size_def cookie_pieces_def)
qed

lemma getSerializedSize_exact:
  "cookies_ok cs \<Longrightarrow> getSerializedSize cs = length (concat (serializeUsing cs))"
  by (induction cs) (simp_all add: getSerializedSize_def serializeUsing_def cookies_ok_def cookie_size_exact)

lemma getCookie_after_set:
  "getCookieByName name (setCookie c cs) =
     (case getCookieByName name cs of Some d \<Rightarrow> Some d | None \<Rightarrow> if ck_name c = name then Some c else None)"
  by (cases "find_idx (\<lambda>c. ck_name c = name) cs")
     (auto simp: getCookieByName_def setCookie_def find_idx_append nth_append dest: find_idx_less)

lemma getCookie_after_unset: "getCookieByName name (unsetCookie name cs) = None"
proof -
  have "find_idx (\<lambda>c. ck_name c = name) (unsetCookie name cs) = None"
    by (simp add: unsetCookie_def find_simps)
  then show ?thesis by (simp add: getCookieByName_def)
qed

end
