(* ===== verification/Response.thy ===== *)
theory Response
  imports CookieStore HeaderStore Config
begin

text \<open>
  The three kinds of responses, \<open>rukh/src/http/HttpResponse.cpp\<close>, \<open>HttpStreamResponse.cpp\<close> and
  \<open>HttpFileResponse.cpp\<close>: their data, and how they are written into the connection's write buffer.

  A serialiser computes a size, grows the buffer by it and then copies piece after piece to a moving
  position. \<open>None\<close> is a copy that would leave the buffer or a final position that is not its end; the
  lemma \<open>write_pieces\<close> shows that the sizes are exact, so neither happens. The current date is an argument.
\<close>

section \<open>Status lines\<close>

definition statusStrings :: "(int \<times> string) list" where
  "statusStrings =
    [(100, ''Continue''),
     (101, ''Switching Protocols''),
     (102, ''Processing''),
     (103, ''Early Hints''),
     (200, ''OK''),
     (201, ''Created''),
     (202, ''Accepted''),
     (203, ''Non-Authoritative Information''),
     (204, ''No Content''),
     (205, ''Reset Content''),
     (206, ''Partial Content''),
     (207, ''Multi-Status''),
     (208, ''Already Reported''),
     (226, ''IM Used''),
     (300, ''Multiple Choices''),
     (301, ''Moved Permanently''),
     (302, ''Found''),
     (303, ''See Other''),
     (304, ''Not Modified''),
     (305, ''Use Proxy''),
     (307, ''Temporary Redirect''),
     (308, ''Permanent Redirect''),
     (400, ''Bad Request''),
     (401, ''Unauthorized''),
     (402, ''Payment Required''),
     (403, ''Forbidden''),
     (404, ''Not Found''),
     (405, ''Method Not Allowed''),
     (406, ''Not Acceptable''),
     (407, ''Proxy Authentication Required''),
     (408, ''Request Timeout''),
     (409, ''Conflict''),
     (410, ''Gone''),
     (411, ''Length Required''),
     (412, ''Precondition Failed''),
     (413, ''Content Too Large''),
     (414, ''URI Too Long''),
     (415, ''Unsupported Media Type''),
     (416, ''Range Not Satisfiable''),
     (417, ''Expectation Failed''),
     (418, ''I'' @ [CHR 0x27] @ ''m a teapot''),
     (421, ''Misdirected Request''),
     (422, ''Unprocessable Content''),
     (423, ''Locked''),
     (424, ''Failed Dependency''),
     (425, ''Too Early''),
     (426, ''Upgrade Required''),
     (428, ''Precondition Required''),
     (429, ''Too Many Requests''),
     (431, ''Request Header Fields Too Large''),
     (451, ''Unavailable For Legal Reasons''),
     (500, ''Internal Server Error''),
     (501, ''Not Implemented''),
     (502, ''Bad Gateway''),
     (503, ''Service Unavailable''),
     (504, ''Gateway Timeout''),
     (505, ''HTTP Version Not Supported''),
     (506, ''Variant Also Negotiates''),
     (507, ''Insufficient Storage''),
     (508, ''Loop Detected''),
     (510, ''Not Extended''),
     (511, ''Network Authentication Required'')]"

definition statusText :: "int \<Rightarrow> string" where
  "statusText statusCode = getOrDefault statusStrings statusCode ''Unknown''"

definition int_to_string :: "int \<Rightarrow> string" where
  "int_to_string i = (if i < 0 then ''-'' @ to_dec (nat (- i)) else to_dec (nat i))"

definition getStatusLine :: "int \<Rightarrow> string" where
  "getStatusLine code =
    (if code = 200 then ''HTTP/1.1 200 OK'' @ crlf else
     if code = 201 then ''HTTP/1.1 201 Created'' @ crlf else
     if code = 204 then ''HTTP/1.1 204 No Content'' @ crlf else
     if code = 206 then ''HTTP/1.1 206 Partial Content'' @ crlf else
     if code = 301 then ''HTTP/1.1 301 Moved Permanently'' @ crlf else
     if code = 302 then ''HTTP/1.1 302 Found'' @ crlf else
     if code = 304 then ''HTTP/1.1 304 Not Modified'' @ crlf else
     if code = 400 then ''HTTP/1.1 400 Bad Request'' @ crlf else
     if code = 401 then ''HTTP/1.1 401 Unauthorized'' @ crlf else
     if code = 403 then ''HTTP/1.1 403 Forbidden'' @ crlf else
     if code = 404 then ''HTTP/1.1 404 Not Found'' @ crlf else
     if code = 405 then ''HTTP/1.1 405 Method Not Allowed'' @ crlf else
     if code = 408 then ''HTTP/1.1 408 Request Timeout'' @ crlf else
     if code = 411 then ''HTTP/1.1 411 Length Required'' else
     if code = 413 then ''HTTP/1.1 413 Content Too Large'' @ crlf else
     if code = 415 then ''HTTP/1.1 415 Unsupported Media Type'' else
     if code = 416 then ''HTTP/1.1 416 Range Not Satisfiable'' @ crlf else
     if code = 417 then ''HTTP/1.1 417 Expectation Failed'' @ crlf else
     if code = 429 then ''HTTP/1.1 429 Too Many Requests'' @ crlf else
     if code = 431 then ''HTTP/1.1 431 Request Header Fields Too Large'' @ crlf else
     if code = 500 then ''HTTP/1.1 500 Internal Server Error'' @ crlf else
     if code = 501 then ''HTTP/1.1 501 Not Implemented'' @ crlf else
     if code = 503 then ''HTTP/1.1 503 Service Unavailable'' @ crlf else
     ''HTTP/1.1 '' @ int_to_string code @ '' '' @ statusText code @ crlf)"

section \<open>Writing into a buffer\<close>

definition write_at :: "bytes \<Rightarrow> bytes \<times> nat \<Rightarrow> (bytes \<times> nat) option" where
  "write_at s st =
     (let (buf, out) = st in
      if out + length s \<le> length buf
      then Some (take out buf @ s @ drop (out + length s) buf, out + length s)
      else None)"

fun write_pieces :: "bytes list \<Rightarrow> bytes \<times> nat \<Rightarrow> (bytes \<times> nat) option" where
  "write_pieces [] st = Some st"
| "write_pieces (s # ss) st = Option.bind (write_at s st) (write_pieces ss)"

text \<open>Grow by \<open>size\<close>, write the pieces, and check the assertion of the code.\<close>

definition write_sized :: "nat \<Rightarrow> bytes list \<Rightarrow> bytes \<Rightarrow> bytes option" where
  "write_sized sz pieces buf =
     (case write_pieces pieces (buf @ replicate sz NUL, length buf) of
        None \<Rightarrow> None
      | Some (buf', out) \<Rightarrow> if out = length buf + sz then Some buf' else None)"

lemma write_pieces_room:
  assumes "length (concat ps) \<le> length room"
  shows "write_pieces ps (pre @ room, length pre) =
    Some (pre @ concat ps @ drop (length (concat ps)) room, length pre + length (concat ps))"
  using assms
proof (induction ps arbitrary: pre room)
  case (Cons p ps)
  have "write_at p (pre @ room, length pre) = Some ((pre @ p) @ drop (length p) room, length (pre @ p))"
    using Cons.prems by (simp add: write_at_def)
  moreover have "length (concat ps) \<le> length (drop (length p) room)" using Cons.prems by simp
  ultimately show ?case
    using Cons.IH [of "drop (length p) room" "pre @ p"] by (simp add: add.commute)
qed simp

lemma write_sized_exact: "write_sized (length (concat ps)) ps buf = Some (buf @ concat ps)"
  using write_pieces_room [of ps "replicate (length (concat ps)) NUL" buf] by (simp add: write_sized_def)

lemma write_sized_wrong: "write_sized sz ps buf \<noteq> None \<Longrightarrow> sz = length (concat ps)"
proof -
  assume w: "write_sized sz ps buf \<noteq> None"
  have "write_pieces ps st = Some st' \<Longrightarrow> snd st' = snd st + length (concat ps)" for st st'
    by (induction ps arbitrary: st) (auto simp: bind_eq_Some_conv write_at_def split: prod.splits if_splits)
  then show ?thesis using w
    by (fastforce simp: write_sized_def split: option.splits prod.splits if_splits)
qed

section \<open>HttpResponse\<close>

record http_response =
  resp_headers :: header_store
  resp_cookies :: cookie_store
  resp_body :: string
  resp_version :: string
  statusCode :: int

definition default_response :: http_response where
  "default_response = \<lparr>resp_headers = [], resp_cookies = [], resp_body = [], resp_version = ''HTTP/1.1'', statusCode = -1\<rparr>"

definition new_response :: "int \<Rightarrow> http_response" where
  "new_response code = default_response
     \<lparr>statusCode := code, resp_headers := hs_setHeaderLower ''content-length'' (to_dec 0) []\<rparr>"

definition new_response_body :: "int \<Rightarrow> string \<Rightarrow> http_response" where
  "new_response_body code body = default_response
     \<lparr>statusCode := code, resp_body := body,
      resp_headers := hs_setHeaderLower ''content-length'' (to_dec (length body)) []\<rparr>"

definition new_response_typed :: "int \<Rightarrow> string \<Rightarrow> string \<Rightarrow> http_response" where
  "new_response_typed code contentType body = default_response
     \<lparr>statusCode := code, resp_body := body,
      resp_headers := hs_setHeaderLower ''content-type'' contentType
        (hs_setHeaderLower ''content-length'' (to_dec (length body)) [])\<rparr>"

definition setStatusCode :: "int \<Rightarrow> http_response \<Rightarrow> http_response" where
  "setStatusCode code r = r\<lparr>statusCode := code\<rparr>"

definition setBody :: "string \<Rightarrow> http_response \<Rightarrow> http_response" where
  "setBody body r = r\<lparr>resp_body := body,
     resp_headers := hs_setHeaderLower ''content-length'' (to_dec (length body)) (resp_headers r)\<rparr>"

definition stripBody :: "http_response \<Rightarrow> http_response" where
  "stripBody r = r\<lparr>resp_body := []\<rparr>"

definition setContentType :: "string \<Rightarrow> http_response \<Rightarrow> http_response" where
  "setContentType ct r = r\<lparr>resp_headers := hs_setHeaderLower ''content-type'' ct (resp_headers r)\<rparr>"

definition contentTypeOf :: "header_store \<Rightarrow> string" where
  "contentTypeOf hs =
     (let header = hs_getHeaderLower hs ''content-type'' in
      case find_char CHR '';'' header of Some i \<Rightarrow> take i header | None \<Rightarrow> header)"

definition noBody :: "int list" where
  "noBody = [100, 101, 102, 103, 204, 304]"

definition kept_headers :: "bool \<Rightarrow> headers \<Rightarrow> headers" where
  "kept_headers hasBody hs = filter (\<lambda>(k, v). \<not> (\<not> hasBody \<and> k = ''content-length'')) hs"

definition headers_size :: "headers \<Rightarrow> nat" where
  "headers_size hs = sum_list (map (\<lambda>(k, v). length k + 2 + length v + 2) hs)"

definition header_pieces :: "headers \<Rightarrow> bytes list" where
  "header_pieces hs = concat (map (\<lambda>(k, v). [k, '': '', v, crlf]) hs)"

text \<open>The size and the pieces of everything before the body; the date takes four more bytes than
  its name and value: a colon, a space and a line end.\<close>

definition head_size :: "server_config \<Rightarrow> string \<Rightarrow> int \<Rightarrow> headers \<Rightarrow> cookie_store \<Rightarrow> nat" where
  "head_size cfg date code hs cs =
     length (getStatusLine code) + headers_size hs + length (serverLine cfg)
     + (length ''date'' + length date + 4) + getSerializedSize cs + 2"

definition head_pieces :: "server_config \<Rightarrow> string \<Rightarrow> int \<Rightarrow> headers \<Rightarrow> cookie_store \<Rightarrow> bytes list" where
  "head_pieces cfg date code hs cs =
     [getStatusLine code] @ header_pieces hs @ [serverLine cfg] @ [''date: '', date, crlf]
     @ serializeUsing cs @ [crlf]"

text \<open>\<open>HttpResponse::serializeInto\<close>: the result and the buffer.\<close>

definition serializeInto :: "server_config \<Rightarrow> string \<Rightarrow> http_response \<Rightarrow> bytes \<Rightarrow> (bool \<times> bytes) option" where
  "serializeInto cfg date r buf =
     (let hasBody = (statusCode r \<notin> set noBody);
          hs = kept_headers hasBody (resp_headers r);
          size = head_size cfg date (statusCode r) hs (resp_cookies r) + (if hasBody then length (resp_body r) else 0)
      in if length buf + size > MAX_WRITE_BUFFER_BYTES cfg then Some (False, buf)
         else map_option (Pair True)
           (write_sized size (head_pieces cfg date (statusCode r) hs (resp_cookies r)
              @ (if hasBody then [resp_body r] else [])) buf))"

lemma head_size_exact:
  "cookies_ok cs \<Longrightarrow> head_size cfg date code hs cs = length (concat (head_pieces cfg date code hs cs))"
proof -
  assume "cookies_ok cs"
  moreover have "headers_size hs = length (concat (header_pieces hs))"
    by (induction hs) (auto simp: headers_size_def header_pieces_def)
  ultimately show ?thesis by (simp add: head_size_def head_pieces_def getSerializedSize_exact)
qed

text \<open>What a serialised response consists of.\<close>

definition response_bytes :: "server_config \<Rightarrow> string \<Rightarrow> http_response \<Rightarrow> bytes" where
  "response_bytes cfg date r =
     (let hasBody = (statusCode r \<notin> set noBody) in
      concat (head_pieces cfg date (statusCode r) (kept_headers hasBody (resp_headers r)) (resp_cookies r))
      @ (if hasBody then resp_body r else []))"

lemma serializeInto_exact:
  assumes "cookies_ok (resp_cookies r)"
  shows "serializeInto cfg date r buf =
    (if length buf + length (response_bytes cfg date r) > MAX_WRITE_BUFFER_BYTES cfg then Some (False, buf)
     else Some (True, buf @ response_bytes cfg date r))"
proof -
  define ps where "ps = head_pieces cfg date (statusCode r) (kept_headers (statusCode r \<notin> set noBody) (resp_headers r)) (resp_cookies r)
      @ (if statusCode r \<notin> set noBody then [resp_body r] else [])"
  have c: "concat ps = response_bytes cfg date r" by (simp add: ps_def response_bytes_def Let_def)
  have "head_size cfg date (statusCode r) (kept_headers (statusCode r \<notin> set noBody) (resp_headers r)) (resp_cookies r)
      + (if statusCode r \<notin> set noBody then length (resp_body r) else 0) = length (concat ps)"
    using head_size_exact [OF assms] by (simp add: ps_def)
  then show ?thesis
    using write_sized_exact [of ps buf] unfolding serializeInto_def Let_def by (simp add: c flip: ps_def)
qed

section \<open>HttpStreamResponse\<close>

text \<open>\<open>'gen\<close> is the generator of the chunks, the callback \<open>nextChunkFn\<close>.\<close>

record 'gen stream_response =
  st_headers :: header_store
  st_cookies :: cookie_store
  st_statusCode :: int
  isChunked :: bool
  nextChunkFn :: 'gen

definition new_stream_response :: "int \<Rightarrow> 'gen \<Rightarrow> 'gen stream_response" where
  "new_stream_response code f = \<lparr>st_headers = hs_setHeaderLower ''transfer-encoding'' ''chunked'' [],
     st_cookies = [], st_statusCode = code, isChunked = True, nextChunkFn = f\<rparr>"

definition new_stream_response_typed :: "int \<Rightarrow> string \<Rightarrow> 'gen \<Rightarrow> 'gen stream_response" where
  "new_stream_response_typed code ct f =
     (new_stream_response code f)\<lparr>st_headers := hs_setHeaderLower ''content-type'' ct
       (hs_setHeaderLower ''transfer-encoding'' ''chunked'' [])\<rparr>"

definition setChunked :: "bool \<Rightarrow> 'gen stream_response \<Rightarrow> 'gen stream_response" where
  "setChunked chunked r =
     (let r1 = r\<lparr>isChunked := chunked\<rparr> in
      if \<not> chunked then r1\<lparr>st_headers := hs_removeHeader ''transfer-encoding'' (st_headers r1)\<rparr> else r1)"

definition stream_header_into :: "server_config \<Rightarrow> string \<Rightarrow> 'gen stream_response \<Rightarrow> bytes \<Rightarrow> (bool \<times> bytes) option" where
  "stream_header_into cfg date r buf =
     (let size = head_size cfg date (st_statusCode r) (st_headers r) (st_cookies r) in
      if length buf + size > MAX_WRITE_BUFFER_BYTES cfg then Some (False, buf)
      else map_option (Pair True)
        (write_sized size (head_pieces cfg date (st_statusCode r) (st_headers r) (st_cookies r)) buf))"

definition serializeChunkInto :: "server_config \<Rightarrow> bytes \<Rightarrow> bytes \<Rightarrow> (bool \<times> bytes) option" where
  "serializeChunkInto cfg chunk buf =
     (let hexBuf = to_hex (length chunk); size = length chunk + length hexBuf + 4 in
      if length buf + size > MAX_WRITE_BUFFER_BYTES cfg then Some (False, buf)
      else map_option (Pair True) (write_sized size [hexBuf, [CR], [LF], chunk, [CR], [LF]] buf))"

definition serializeBlockInto :: "server_config \<Rightarrow> bool \<Rightarrow> bytes \<Rightarrow> bytes \<Rightarrow> (bool \<times> bytes) option" where
  "serializeBlockInto cfg chunked chunk buf =
     (if chunked then serializeChunkInto cfg chunk buf
      else if length buf + length chunk > MAX_WRITE_BUFFER_BYTES cfg then Some (False, buf)
      else map_option (Pair True) (write_sized (length chunk) [chunk] buf))"

lemma stream_header_exact:
  assumes "cookies_ok (st_cookies r)"
  shows "stream_header_into cfg date r buf =
    (let bs = concat (head_pieces cfg date (st_statusCode r) (st_headers r) (st_cookies r)) in
     if length buf + length bs > MAX_WRITE_BUFFER_BYTES cfg then Some (False, buf) else Some (True, buf @ bs))"
  using head_size_exact [OF assms] by (simp add: stream_header_into_def Let_def write_sized_exact)

lemma serializeChunkInto_exact:
  "serializeChunkInto cfg chunk buf =
    (let bs = to_hex (length chunk) @ crlf @ chunk @ crlf in
     if length buf + length bs > MAX_WRITE_BUFFER_BYTES cfg then Some (False, buf) else Some (True, buf @ bs))"
proof -
  define ps where "ps = [to_hex (length chunk), [CR], [LF], chunk, [CR], [LF]]"
  define bs where "bs = to_hex (length chunk) @ crlf @ chunk @ crlf"
  have c: "concat ps = bs" by (simp add: ps_def bs_def)
  have sz: "length chunk + length (to_hex (length chunk)) + 4 = length bs" by (simp add: bs_def)
  have w: "write_sized (length bs) ps buf = Some (buf @ bs)" using write_sized_exact [of ps buf] c by simp
  show ?thesis
    unfolding serializeChunkInto_def Let_def sz bs_def [symmetric] ps_def [symmetric] w by simp
qed

lemma serializeBlockInto_plain:
  "serializeBlockInto cfg False chunk buf =
     (if length buf + length chunk > MAX_WRITE_BUFFER_BYTES cfg then Some (False, buf) else Some (True, buf @ chunk))"
  using write_sized_exact [of "[chunk]" buf] by (simp add: serializeBlockInto_def)

section \<open>HttpFileResponse\<close>

text \<open>\<open>f_contentLength\<close> is not initialised by the constructors: \<open>None\<close> until it is set, where
  \<open>getContentLength\<close> returns whatever is there. The content cached for the file is \<open>f_cached\<close>.\<close>

record file_response =
  f_headers :: header_store
  f_cookies :: cookie_store
  f_statusCode :: int
  f_filePath :: string
  f_fd :: int
  f_ownsFd :: bool
  f_offset :: nat
  f_contentLength :: "nat option"
  f_cached :: "bytes option"

definition new_file_response :: "int \<Rightarrow> string \<Rightarrow> file_response" where
  "new_file_response code path = \<lparr>f_headers = [], f_cookies = [], f_statusCode = code, f_filePath = path,
     f_fd = -1, f_ownsFd = True, f_offset = 0, f_contentLength = None, f_cached = None\<rparr>"

definition new_file_response_typed :: "int \<Rightarrow> string \<Rightarrow> string \<Rightarrow> file_response" where
  "new_file_response_typed code ct path =
     (new_file_response code path)\<lparr>f_headers := hs_setHeaderLower ''content-type'' ct []\<rparr>"

definition f_setOffset :: "nat \<Rightarrow> file_response \<Rightarrow> file_response" where
  "f_setOffset off r = r\<lparr>f_offset := off\<rparr>"

definition f_setContentLength :: "nat \<Rightarrow> file_response \<Rightarrow> file_response" where
  "f_setContentLength n r = r\<lparr>f_contentLength := Some n,
     f_headers := hs_setHeaderLower ''content-length'' (to_dec n) (f_headers r)\<rparr>"

definition f_setFd :: "int \<Rightarrow> bool \<Rightarrow> file_response \<Rightarrow> file_response" where
  "f_setFd fd owns r = r\<lparr>f_fd := fd, f_ownsFd := owns\<rparr>"

definition f_setCachedFileContent :: "bytes \<Rightarrow> file_response \<Rightarrow> file_response" where
  "f_setCachedFileContent content r = r\<lparr>f_cached := Some content\<rparr>"

datatype file_open_error = NotFound | Forbidden | Malformed | ResourceExhausted | UnexpectedError

text \<open>\<open>openFile\<close> on what \<open>open\<close> returned: a descriptor, or an \<open>errno\<close>.\<close>

datatype errno = ENOENT | ENOTDIR | EACCES | EPERM | ENAMETOOLONG | ELOOP | EMFILE | ENFILE | ENOMEM | E_other

fun open_error :: "errno \<Rightarrow> file_open_error" where
  "open_error ENOENT = NotFound"
| "open_error ENOTDIR = NotFound"
| "open_error EACCES = Forbidden"
| "open_error EPERM = Forbidden"
| "open_error ENAMETOOLONG = Malformed"
| "open_error ELOOP = Malformed"
| "open_error EMFILE = ResourceExhausted"
| "open_error ENFILE = ResourceExhausted"
| "open_error ENOMEM = ResourceExhausted"
| "open_error E_other = UnexpectedError"

definition openFile :: "errno + nat \<Rightarrow> file_response \<Rightarrow> file_open_error option \<times> file_response" where
  "openFile opened r =
     (case opened of
        Inr fd \<Rightarrow> (None, r\<lparr>f_fd := int fd\<rparr>)
      | Inl e \<Rightarrow> (Some (open_error e), r\<lparr>f_fd := -1\<rparr>))"

definition file_header_into :: "server_config \<Rightarrow> string \<Rightarrow> file_response \<Rightarrow> bytes \<Rightarrow> (bool \<times> bytes) option" where
  "file_header_into cfg date r buf =
     (let size = head_size cfg date (f_statusCode r) (f_headers r) (f_cookies r) in
      if length buf + size > MAX_WRITE_BUFFER_BYTES cfg then Some (False, buf)
      else map_option (Pair True)
        (write_sized size (head_pieces cfg date (f_statusCode r) (f_headers r) (f_cookies r)) buf))"

lemma file_header_exact:
  assumes "cookies_ok (f_cookies r)"
  shows "file_header_into cfg date r buf =
    (let bs = concat (head_pieces cfg date (f_statusCode r) (f_headers r) (f_cookies r)) in
     if length buf + length bs > MAX_WRITE_BUFFER_BYTES cfg then Some (False, buf) else Some (True, buf @ bs))"
  using head_size_exact [OF assms] by (simp add: file_header_into_def Let_def write_sized_exact)

section \<open>The variant\<close>

datatype 'gen response = PlainResponse http_response | StreamResponse "'gen stream_response" | FileResponse file_response

fun map_resp_headers :: "(header_store \<Rightarrow> header_store) \<Rightarrow> 'gen response \<Rightarrow> 'gen response" where
  "map_resp_headers f (PlainResponse r) = PlainResponse (r\<lparr>resp_headers := f (resp_headers r)\<rparr>)"
| "map_resp_headers f (StreamResponse r) = StreamResponse (r\<lparr>st_headers := f (st_headers r)\<rparr>)"
| "map_resp_headers f (FileResponse r) = FileResponse (r\<lparr>f_headers := f (f_headers r)\<rparr>)"

fun map_resp_cookies :: "(cookie_store \<Rightarrow> cookie_store) \<Rightarrow> 'gen response \<Rightarrow> 'gen response" where
  "map_resp_cookies f (PlainResponse r) = PlainResponse (r\<lparr>resp_cookies := f (resp_cookies r)\<rparr>)"
| "map_resp_cookies f (StreamResponse r) = StreamResponse (r\<lparr>st_cookies := f (st_cookies r)\<rparr>)"
| "map_resp_cookies f (FileResponse r) = FileResponse (r\<lparr>f_cookies := f (f_cookies r)\<rparr>)"

fun headers_of :: "'gen response \<Rightarrow> header_store" where
  "headers_of (PlainResponse r) = resp_headers r"
| "headers_of (StreamResponse r) = st_headers r"
| "headers_of (FileResponse r) = f_headers r"

fun cookies_of :: "'gen response \<Rightarrow> cookie_store" where
  "cookies_of (PlainResponse r) = resp_cookies r"
| "cookies_of (StreamResponse r) = st_cookies r"
| "cookies_of (FileResponse r) = f_cookies r"

fun status_of :: "'gen response \<Rightarrow> int" where
  "status_of (PlainResponse r) = statusCode r"
| "status_of (StreamResponse r) = st_statusCode r"
| "status_of (FileResponse r) = f_statusCode r"

end
