(* ===== verification/Negotiation.thy ===== *)
theory Negotiation
  imports Response HttpRequest
begin

text \<open>
  Content negotiation: \<open>parseQValues\<close> of \<open>rukh/include/rukh/http/httpUtils.hpp\<close> and the error
  factory of \<open>rukh/src/http/ErrorFactory.cpp\<close>.

  A quality is a float clamped to the unit interval, so a multiple of \<open>2 ^ -149\<close>; it is kept as that
  multiple. The parameter \<open>strtof_q\<close> gives the clamped value of \<open>std::strtof\<close> in this unit. \<open>std::sort\<close> is a
  parameter with the contract \<open>sorts_by\<close>, which is why a NaN is left out: the comparison of the code is no order then.
\<close>

section \<open>Quality values\<close>

definition q_one :: nat where
  "q_one = 2 ^ 149"

definition q_of :: "(string \<Rightarrow> nat) \<Rightarrow> string option \<Rightarrow> nat" where
  "q_of strtof_q params =
     (case params of
        None \<Rightarrow> q_one
      | Some ps \<Rightarrow>
          (case find_sub ''q='' ps of
             None \<Rightarrow> q_one
           | Some qpos \<Rightarrow> strtof_q (trim (drop (qpos + 2) ps))))"

type_synonym qvalues = "(string \<times> nat) list"

fun parse_q_items :: "(string \<Rightarrow> nat) \<Rightarrow> string list \<Rightarrow> qvalues \<Rightarrow> string list \<Rightarrow> qvalues \<times> string list" where
  "parse_q_items strtof_q [] typePrefs excluded = (typePrefs, excluded)"
| "parse_q_items strtof_q (item # items) typePrefs excluded =
     (let (t, params) = cut CHR '';'' (trim item); type = trim t in
      if type = [] then parse_q_items strtof_q items typePrefs excluded
      else
        let q = q_of strtof_q params in
        if q = 0 then parse_q_items strtof_q items typePrefs (excluded @ [type])
        else parse_q_items strtof_q items (typePrefs @ [(type, q)]) excluded)"

definition parseQValues :: "(string \<Rightarrow> nat) \<Rightarrow> string \<Rightarrow> qvalues \<times> string list" where
  "parseQValues strtof_q acceptString = parse_q_items strtof_q (str_split acceptString '','') [] []"

lemma parse_q_items_ok:
  "parse_q_items f items ps ex = (ps', ex') \<Longrightarrow> \<forall>p \<in> set ps. fst p \<noteq> [] \<and> 0 < snd p \<Longrightarrow> \<forall>t \<in> set ex. t \<noteq> [] \<Longrightarrow>
     (\<forall>p \<in> set ps'. fst p \<noteq> [] \<and> 0 < snd p) \<and> (\<forall>t \<in> set ex'. t \<noteq> [])"
proof (induction items arbitrary: ps ex)
  case (Cons item items)
  obtain t params where c: "cut CHR '';'' (trim item) = (t, params)" by fastforce
  have e: "parse_q_items f (item # items) ps ex =
      (if trim t = [] then parse_q_items f items ps ex
       else if q_of f params = 0 then parse_q_items f items ps (ex @ [trim t])
       else parse_q_items f items (ps @ [(trim t, q_of f params)]) ex)"
    by (simp only: parse_q_items.simps c Let_def prod.case)
  consider "trim t = []" | "trim t \<noteq> []" "q_of f params = 0" | "trim t \<noteq> []" "0 < q_of f params" by auto
  then show ?case
  proof cases
    case 1
    show ?thesis by (rule Cons.IH [of ps ex]) (use 1 e Cons.prems in \<open>simp_all only: if_True if_False refl\<close>)
  next
    case 2
    show ?thesis by (rule Cons.IH [of ps "ex @ [trim t]"]) (use 2 e Cons.prems in \<open>auto simp del: parse_q_items.simps\<close>)
  next
    case 3
    show ?thesis by (rule Cons.IH [of "ps @ [(trim t, q_of f params)]" ex]) (use 3 e Cons.prems in \<open>auto simp del: parse_q_items.simps\<close>)
  qed
qed simp

section \<open>The error factory\<close>

type_synonym formatter = "int \<Rightarrow> string \<Rightarrow> http_response"

record error_factory =
  registeredFormatters :: "(string \<times> formatter) list"
  fallbackFormatter :: "string \<times> formatter"

text \<open>The formatter of the constructor; \<open>dump_json\<close> is the JSON library's text of the body.\<close>

definition default_formatter :: "(int \<Rightarrow> string \<Rightarrow> string) \<Rightarrow> formatter" where
  "default_formatter dump_json code message =
     (let response = new_response code;
          hs = hs_setCacheControl ''no-store''
            (hs_setHeaderLower ''content-type'' ''application/json'' (resp_headers response))
      in setBody (dump_json code (if message = [] then statusText code else message)) (response\<lparr>resp_headers := hs\<rparr>))"

definition new_error_factory :: "(int \<Rightarrow> string \<Rightarrow> string) \<Rightarrow> error_factory" where
  "new_error_factory dump_json =
     \<lparr>registeredFormatters = [], fallbackFormatter = (''application/json'', default_formatter dump_json)\<rparr>"

definition setFallbackFormatter :: "string \<Rightarrow> formatter \<Rightarrow> error_factory \<Rightarrow> error_factory" where
  "setFallbackFormatter type f ef = ef\<lparr>fallbackFormatter := (type, f)\<rparr>"

definition setFormatter :: "string \<Rightarrow> formatter \<Rightarrow> error_factory \<Rightarrow> error_factory" where
  "setFormatter type f ef = ef\<lparr>registeredFormatters := registeredFormatters ef @ [(toLowerCase type, f)]\<rparr>"

text \<open>The loop over the sorted preferences: the first one that some formatter matches.\<close>

fun pick_formatter :: "(string \<times> formatter) list \<Rightarrow> qvalues \<Rightarrow> formatter option" where
  "pick_formatter fs [] = None"
| "pick_formatter fs ((t, q) # prefs) =
     (case find_idx (\<lambda>p. mime_match (fst p) t) fs of
        Some i \<Rightarrow> Some (snd (fs ! i))
      | None \<Rightarrow> pick_formatter fs prefs)"

definition build :: "(string \<Rightarrow> nat) \<Rightarrow> (qvalues \<Rightarrow> qvalues) \<Rightarrow> error_factory \<Rightarrow> http_request \<Rightarrow> int \<Rightarrow> string \<Rightarrow> http_response" where
  "build strtof_q sort_prefs ef req code message =
     (let acceptVector = getHeaders req ''Accept''; fallback = snd (fallbackFormatter ef); fs = registeredFormatters ef in
      if acceptVector = [] then fallback code message
      else
        let acceptString = concat (map (\<lambda>a. a @ '','') acceptVector);
            (typePrefs, excluded) = parseQValues strtof_q acceptString in
        if typePrefs = [] \<and> excluded = [] then fallback code message
        else if typePrefs = [] then
          (case find_idx (\<lambda>p. \<not> (\<exists>ex \<in> set excluded. mime_match ex (fst p))) fs of
             Some i \<Rightarrow> snd (fs ! i) code message
           | None \<Rightarrow> fallback 406 [])
        else
          (case pick_formatter fs (sort_prefs typePrefs) of
             Some f \<Rightarrow> f code message
           | None \<Rightarrow> fallback 406 []))"

lemma pick_formatter_Some:
  "pick_formatter fs prefs = Some f \<Longrightarrow> sorted_wrt (\<lambda>a b. \<not> snd b > snd a) prefs \<Longrightarrow>
     \<exists>t q p. (t, q) \<in> set prefs \<and> p \<in> set fs \<and> f = snd p \<and> mime_match (fst p) t
       \<and> (\<forall>(t', q') \<in> set prefs. (\<exists>p' \<in> set fs. mime_match (fst p') t') \<longrightarrow> q' \<le> q)"
proof (induction fs prefs rule: pick_formatter.induct)
  case (2 fs t q prefs)
  show ?case
  proof (cases "find_idx (\<lambda>p. mime_match (fst p) t) fs")
    case None
    then have no: "\<not> (\<exists>p \<in> set fs. mime_match (fst p) t)" by (simp add: find_simps)
    obtain t1 q1 p where "(t1, q1) \<in> set prefs" "p \<in> set fs" "f = snd p" "mime_match (fst p) t1"
      "\<forall>(t', q') \<in> set prefs. (\<exists>p' \<in> set fs. mime_match (fst p') t') \<longrightarrow> q' \<le> q1"
      using 2 None by auto
    then show ?thesis using no by (intro exI [of _ t1] exI [of _ q1] exI [of _ p]) auto
  next
    case (Some i)
    then have i: "i < length fs" "mime_match (fst (fs ! i)) t" using find_idx_SomeD [OF Some] by auto
    have "\<forall>(t', q') \<in> set prefs. q' \<le> q" using "2.prems"(2) by auto
    then show ?thesis using Some i "2.prems"(1)
      by (intro exI [of _ t] exI [of _ q] exI [of _ "fs ! i"]) auto
  qed
qed simp

lemma pick_formatter_None:
  "pick_formatter fs prefs = None \<longleftrightarrow> (\<forall>(t, q) \<in> set prefs. \<forall>p \<in> set fs. \<not> mime_match (fst p) t)"
proof (induction fs prefs rule: pick_formatter.induct)
  case (2 fs t q prefs)
  show ?case
  proof (cases "find_idx (\<lambda>p. mime_match (fst p) t) fs")
    case None
    then have "\<forall>p \<in> set fs. \<not> mime_match (fst p) t" by (auto simp: find_simps)
    then show ?thesis using 2 [OF None] None by simp
  next
    case (Some i)
    then have "fs ! i \<in> set fs" "mime_match (fst (fs ! i)) t" using find_idx_SomeD [OF Some] by auto
    then have "\<exists>p \<in> set fs. mime_match (fst p) t" by blast
    then show ?thesis using Some by auto
  qed
qed simp

lemma default_formatter_length:
  "hs_getHeaderLower (resp_headers (default_formatter dump code message)) ''content-length'' =
     to_dec (length (resp_body (default_formatter dump code message)))"
  by (simp add: default_formatter_def Let_def setBody_def hs_get_after_set)

end
