(* ===== verification/Dispatch.thy ===== *)
theory Dispatch
  imports RouteTree Negotiation
begin

text \<open>
  Dispatch of a request: the router's terminal handler and its middleware chain
  (\<open>rukh/src/http/Router.cpp\<close>). Handlers and middlewares are functions on the request and the rest of the
  program's state \<open>'w\<close>; they return a response or throw.
\<close>

type_synonym ('gen, 'w) handler =
  "http_request \<times> 'w \<Rightarrow> 'gen response result \<times> http_request \<times> 'w"

type_synonym ('gen, 'w) middleware = "('gen, 'w) handler \<Rightarrow> ('gen, 'w) handler"

record ('gen, 'w) router =
  routes :: "('gen, 'w) handler route_table"
  middlewares :: "('gen, 'w) middleware list"

definition use_middleware :: "('gen, 'w) middleware \<Rightarrow> ('gen, 'w) router \<Rightarrow> ('gen, 'w) router" where
  "use_middleware m r = r\<lparr>middlewares := middlewares r @ [m]\<rparr>"

text \<open>\<open>runChain\<close> from an index of the middleware list on.\<close>

function runChain :: "('gen, 'w) middleware list \<Rightarrow> ('gen, 'w) handler \<Rightarrow> nat \<Rightarrow> ('gen, 'w) handler" where
  "runChain ms handler startIndex =
     (if startIndex \<ge> length ms then handler
      else (ms ! startIndex) (runChain ms handler (startIndex + 1)))"
  by pat_completeness auto
termination
  by (relation "measure (\<lambda>(ms, h, i). length ms - i)") auto

declare runChain.simps [simp del]

section \<open>The terminal handler\<close>

text \<open>The response to HEAD, made from the one to GET.\<close>

fun head_response :: "'gen response \<Rightarrow> 'gen response result" where
  "head_response (PlainResponse r) = Inr (PlainResponse (stripBody r))"
| "head_response (StreamResponse s) =
     (let res = new_response (st_statusCode s);
          hs = foldl (\<lambda>hs (k, v). hs_setHeader k v hs) (hs_removeHeader ''content-length'' (resp_headers res)) (st_headers s)
      in Inr (PlainResponse (stripBody (res\<lparr>resp_headers := hs\<rparr>))))"
| "head_response (FileResponse f) = Inl BadAccess"

definition strip_for_head :: "http_request \<Rightarrow> http_response \<Rightarrow> http_response" where
  "strip_for_head req r = (if req_method req = ''HEAD'' then stripBody r else r)"

definition lookup_method :: "http_request \<Rightarrow> string" where
  "lookup_method req = (if req_method req = ''HEAD'' then ''GET'' else req_method req)"

definition terminal :: "(http_request \<Rightarrow> int \<Rightarrow> http_response) \<Rightarrow> ('gen, 'w) handler route_node option \<Rightarrow> ('gen, 'w) handler" where
  "terminal build_error pathNode st =
     (let (req, w) = st in
      case pathNode of
        None \<Rightarrow> (Inr (PlainResponse (strip_for_head req (build_error req 404))), req, w)
      | Some node \<Rightarrow>
          let req1 = setPathParams (getPathParams (patternParts node) (pathParts req)) req in
          (case map_of (requestHandlers node) (lookup_method req1) of
             Some h \<Rightarrow>
               (case h (req1, w) of
                  (Inl e, req2, w2) \<Rightarrow> (Inl e, req2, w2)
                | (Inr response, req2, w2) \<Rightarrow>
                    (if req_method req2 = ''HEAD'' then head_response response else Inr response, req2, w2))
           | None \<Rightarrow>
               if req_method req1 = ''OPTIONS''
               then let r = new_response 204 in
                 (Inr (PlainResponse (r\<lparr>resp_headers := hs_setHeaderLower ''allow'' (allowedMethods node) (resp_headers r)\<rparr>)), req1, w)
               else let r = strip_for_head req1 (build_error req1 405) in
                 (Inr (PlainResponse (r\<lparr>resp_headers := hs_setHeaderLower ''allow'' (allowedMethods node) (resp_headers r)\<rparr>)), req1, w)))"

text \<open>\<open>set_order\<close> is the order in which an unordered set of methods is listed.\<close>

definition dispatch :: "(http_request \<Rightarrow> int \<Rightarrow> http_response) \<Rightarrow> (string list \<Rightarrow> string list) \<Rightarrow> ('gen, 'w) router \<Rightarrow> ('gen, 'w) handler" where
  "dispatch build_error set_order r st =
     (let (req, w) = st; method = req_method req in
      if method = ''TRACE'' \<or> method = ''CONNECT'' then (Inr (PlainResponse (build_error req 501)), req, w)
      else if method = ''OPTIONS'' \<and> req_path req = ''*'' then
        let methods = List.insert ''OPTIONS'' (registeredMethods (routes r));
            methods' = (if ''GET'' \<in> set methods then List.insert ''HEAD'' methods else methods);
            response = new_response 204
        in (Inr (PlainResponse (response\<lparr>resp_headers :=
              hs_setHeaderLower ''allow'' (getCommaSeparatedString (set_order methods')) (resp_headers response)\<rparr>)), req, w)
      else
        let pathNode = findMatchingRouteEntry (routes r) (pathParts req);
            req1 = (case pathNode of Some n \<Rightarrow> setAttribute ''allowedMethods'' (allowedMethods n) req | None \<Rightarrow> req)
        in runChain (middlewares r) (terminal build_error pathNode) 0 (req1, w))"

datatype router_response = RouteOk | RouteNotFound | RouteMethodNotAllowed

definition router_validate :: "('gen, 'w) router \<Rightarrow> http_request \<Rightarrow> router_response" where
  "router_validate r req =
     (case findMatchingRouteEntry (routes r) (pathParts req) of
        None \<Rightarrow> RouteNotFound
      | Some node \<Rightarrow> if map_of (requestHandlers node) (lookup_method req) = None then RouteMethodNotAllowed else RouteOk)"

section \<open>Lemmas\<close>

lemma runChain_drop: "runChain ms h i = foldr (\<lambda>m k. m k) (drop i ms) h"
proof (induction "length ms - i" arbitrary: i rule: less_induct)
  case less
  show ?case
  proof (cases "i < length ms")
    case True
    then have "runChain ms h (Suc i) = foldr (\<lambda>m k. m k) (drop (Suc i) ms) h" using less by simp
    then show ?thesis using True by (simp add: runChain.simps [of ms h i] flip: Cons_nth_drop_Suc)
  next
    case False
    then show ?thesis by (simp add: runChain.simps [of ms h i])
  qed
qed

lemma runChain_onion: "runChain ms h 0 = foldr (\<lambda>m k. m k) ms h"
  by (simp add: runChain_drop)

lemma terminal_not_found:
  "terminal build_error None (req, w) = (Inr (PlainResponse (strip_for_head req (build_error req 404))), req, w)"
  by (simp add: terminal_def)

lemma terminal_not_allowed:
  assumes "map_of (requestHandlers node) (lookup_method req) = None" "req_method req \<noteq> ''OPTIONS''"
    and "req1 = setPathParams (getPathParams (patternParts node) (pathParts req)) req"
    and "r = strip_for_head req1 (build_error req1 405)"
  shows "terminal build_error (Some node) (req, w) =
    (Inr (PlainResponse (r\<lparr>resp_headers := hs_setHeaderLower ''allow'' (allowedMethods node) (resp_headers r)\<rparr>)), req1, w)"
proof -
  have "lookup_method req1 = lookup_method req" "req_method req1 = req_method req"
    using assms(3) by (simp_all add: lookup_method_def setPathParams_def)
  then show ?thesis using assms by (simp add: terminal_def Let_def)
qed

text \<open>A HEAD request gets the head of the GET response: for a plain response the same status and headers and no body.\<close>

lemma terminal_head:
  assumes "req_method req = ''HEAD''" "map_of (requestHandlers node) ''GET'' = Some h"
    and "h (setPathParams (getPathParams (patternParts node) (pathParts req)) req, w) = (Inr response, req2, w2)"
    and "req_method req2 = ''HEAD''"
  shows "terminal build_error (Some node) (req, w) = (head_response response, req2, w2)"
  using assms by (simp add: terminal_def Let_def lookup_method_def setPathParams_def)

lemma dispatch_bare:
  assumes "middlewares r = []" "req_method req \<notin> {''TRACE'', ''CONNECT''}" "\<not> (req_method req = ''OPTIONS'' \<and> req_path req = ''*'')"
  shows "dispatch build_error ord r (req, w) =
    (case findMatchingRouteEntry (routes r) (pathParts req) of
       None \<Rightarrow> terminal build_error None (req, w)
     | Some n \<Rightarrow> terminal build_error (Some n) (setAttribute ''allowedMethods'' (allowedMethods n) req, w))"
  using assms by (auto simp: dispatch_def Let_def runChain.simps split: option.split)

lemma dispatch_plain:
  assumes "middlewares r = []" "req_method req \<noteq> ''TRACE''" "req_method req \<noteq> ''CONNECT''" "req_path req \<noteq> ''*''"
  shows "dispatch build_error ord r (req, w) =
    (case findMatchingRouteEntry (routes r) (pathParts req) of
       None \<Rightarrow> terminal build_error None (req, w)
     | Some n \<Rightarrow> terminal build_error (Some n) (setAttribute ''allowedMethods'' (allowedMethods n) req, w))"
  using assms by (intro dispatch_bare) simp_all

lemma terminal_options:
  assumes "map_of (requestHandlers node) ''OPTIONS'' = None" "req_method req = ''OPTIONS''"
    and "req1 = setPathParams (getPathParams (patternParts node) (pathParts req)) req"
  shows "terminal build_error (Some node) (req, w) =
    (Inr (PlainResponse ((new_response 204)\<lparr>resp_headers := hs_setHeaderLower ''allow'' (allowedMethods node) (resp_headers (new_response 204))\<rparr>)), req1, w)"
  using assms by (simp add: terminal_def Let_def lookup_method_def setPathParams_def)

text \<open>The answers to a method that a node has no handler for.\<close>

lemma method_refused:
  assumes "middlewares r = []" "req_method req \<notin> {''TRACE'', ''CONNECT''}" "\<not> (req_method req = ''OPTIONS'' \<and> req_path req = ''*'')"
    and "findMatchingRouteEntry (routes r) (pathParts req) = Some n" "map_of (requestHandlers n) (lookup_method req) = None"
  shows "\<exists>res req1. dispatch build_error ord r (req, w) = (Inr (PlainResponse res), req1, w)
    \<and> hs_getHeaderLower (resp_headers res) ''allow'' = allowedMethods n
    \<and> (if req_method req = ''OPTIONS'' then statusCode res = 204
       else statusCode res = statusCode (build_error req1 405)
         \<and> resp_body res = (if req_method req = ''HEAD'' then [] else resp_body (build_error req1 405)))"
proof -
  let ?req = "setAttribute ''allowedMethods'' (allowedMethods n) req"
  let ?req1 = "setPathParams (getPathParams (patternParts n) (pathParts ?req)) ?req"
  have same: "req_method ?req = req_method req" "lookup_method ?req = lookup_method req" "req_method ?req1 = req_method req"
    by (simp_all add: setAttribute_def setPathParams_def lookup_method_def)
  have d: "dispatch build_error ord r (req, w) = terminal build_error (Some n) (?req, w)"
    using dispatch_bare [OF assms(1-3)] assms(4) by simp
  show ?thesis
  proof (cases "req_method req = ''OPTIONS''")
    case True
    then have "map_of (requestHandlers n) ''OPTIONS'' = None" using assms(5) by (simp add: lookup_method_def)
    from terminal_options [OF this _ refl, of ?req] show ?thesis
      using d True same by (auto simp: hs_get_after_set new_response_def)
  next
    case False
    then show ?thesis
      using terminal_not_allowed [of n ?req _ _ build_error, OF _ _ refl refl] same d assms(5)
      by (auto simp: hs_get_after_set strip_for_head_def stripBody_def intro!: exI [of _ ?req1])
  qed
qed

text \<open>The node that is found is in the tree, so its text for \<open>Allow\<close> is that of its methods.\<close>

lemma found_allows:
  assumes "tree_ok (pathTreeRoot t)" "\<forall>segs n. node_at (pathTreeRoot t) segs = Some n \<longrightarrow> [] \<notin> fst ` set (requestHandlers n)"
    and "findMatchingRouteEntry t parts = Some n"
  shows "allowedMethods n = str_join '', '' (allowed_list (map fst (requestHandlers n)))"
proof -
  obtain segs where "best (pathTreeRoot t) parts segs n" using assms(3) unfolding route_found_iff by blast
  then have n: "node_at (pathTreeRoot t) segs = Some n" by (simp add: best_def)
  have "\<forall>m \<in> set (map fst (requestHandlers n)). m \<noteq> []" using assms(2) n by force
  moreover have "node_ok n" using assms(1) n by (simp add: tree_ok_def)
  ultimately show ?thesis using foldl_extend_allowed [of "map fst (requestHandlers n)"] by (simp only: node_ok_def)
qed

text \<open>The parts of a normalized path are what the pattern splitter makes of it.\<close>

lemma parts_loop_split: "normal_path p \<Longrightarrow> parts_loop p [] = str_split p ''/''"
proof (induction "length p" arbitrary: p rule: less_induct)
  case less
  show ?case
  proof (cases "p = []")
    case False
    obtain piece rest where c: "cut CHR ''/'' p = (piece, rest)" by fastforce
    show ?thesis
    proof (cases rest)
      case None
      then have "find_char CHR ''/'' p = None" using c by (auto simp: cut_def split: option.splits)
      then show ?thesis using c None False
        by (simp add: parts_loop.simps [of p] str_split_def split_loop.simps [of _ p] find_sub_single)
    next
      case (Some r)
      then have p: "p = piece @ CHR ''/'' # r" "CHR ''/'' \<notin> set piece" using c by (auto simp: cut_Some)
      note t = normal_path_tail [OF less.prems [unfolded p(1)]]
      have "length r < length p" using p by simp
      then have IH: "parts_loop r [] = str_split r ''/''" using less.hyps t by blast
      have f: "find_char CHR ''/'' p = Some (length piece)"
        unfolding p(1) using p(2) by (intro find_idx_here) auto
      have "parts_loop p [] = piece # parts_loop r []"
        using c Some False t parts_loop_acc [of r "[piece]"] by (simp add: parts_loop.simps [of p])
      also have "\<dots> = piece # split_loop ''/'' r" using IH t by (simp add: str_split_def)
      also have "\<dots> = split_loop ''/'' p"
        unfolding split_loop.simps [of _ p] find_sub_single f by (simp add: p(1))
      finally show ?thesis using False by (simp add: str_split_def)
    qed
  qed (simp add: str_split_def)
qed

lemma parseRequestHeader_parts:
  "parseRequestHeader h r0 = (True, r) \<Longrightarrow> fresh_request r0 \<Longrightarrow> pathParts r = str_split (req_path r) ''/''"
  using parseRequestHeader_pathParts [of h r0 r] parts_loop_split by auto

end
