(* ===== verification/ConnectionRequest.thy ===== *)
theory ConnectionRequest
  imports BodySources Dispatch
begin

text \<open>
  The first half of a turn of \<open>HttpConnection::run\<close> (\<open>rukh/include/rukh/http/HttpConnection.hpp\<close>): the TLS
  handshake, reading and checking the request header, \<open>Expect: 100-continue\<close>, and the choice of the body's
  framing.

  A step ends in a \<open>flow\<close>: it goes on with a value, has an error response sent and ends the connection,
  ends it, has it reset, or an exception leaves the coroutine. Time is in the scripts of
  \<open>ConnectionIO\<close>: a deadline that passes is a timeout event; the deadlines themselves are in the theory
  \<open>Deadlines\<close>.
\<close>

datatype 'a flow = Go 'a | Reply int string | Stop | Reset | Escape exn

section \<open>The state of a connection\<close>

datatype body_kind = ChunkedBody | SizedBody | NoBody

text \<open>What the callbacks of the body and the handlers work on; \<open>w_user\<close> is the rest of the program.\<close>

record 'u conn_world =
  w_io :: conn_io
  w_decoder :: chunk_decoder
  w_kind :: body_kind
  w_user :: 'u

record 'u connection =
  request :: http_request
  conn_world :: "'u conn_world"
  keepAlive :: bool

text \<open>
  What a connection shares with the server or takes from libraries: the clock's date, the shutdown flag, the
  order of an unordered set, \<open>std::sort\<close> of the preferences, \<open>std::strtof\<close>, \<open>what()\<close> of the library's exceptions,
  the callback of a streaming response, the results of \<open>open\<close> and of file reads (\<open>None\<close> is a negative result), the content of an open file,
  and the value of the uninitialised \<open>contentLength_\<close>.
\<close>

record ('gen, 'u) server =
  srv_cfg :: server_config
  srv_router :: "('gen, 'u conn_world) router"
  srv_errors :: error_factory
  srv_date :: "'u \<Rightarrow> string"
  srv_shutdown :: "'u \<Rightarrow> bool"
  srv_set_order :: "string list \<Rightarrow> string list"
  srv_sort_prefs :: "qvalues \<Rightarrow> qvalues"
  srv_strtof :: "string \<Rightarrow> nat"
  srv_library_what :: "exn \<Rightarrow> string"
  srv_next_chunk :: "'gen \<Rightarrow> 'u conn_world \<Rightarrow> (bytes option) result \<times> 'gen \<times> 'u conn_world"
  srv_open :: "string \<Rightarrow> 'u \<Rightarrow> errno + nat"
  srv_read_file :: "int \<Rightarrow> nat \<Rightarrow> nat \<Rightarrow> 'u \<Rightarrow> bytes option"
  srv_file :: "int \<Rightarrow> 'u \<Rightarrow> bytes"
  srv_junk :: nat

definition conn_io_of :: "'u connection \<Rightarrow> conn_io" where
  "conn_io_of c = w_io (conn_world c)"

definition put_io :: "conn_io \<Rightarrow> 'u connection \<Rightarrow> 'u connection" where
  "put_io io c = c\<lparr>conn_world := (conn_world c)\<lparr>w_io := io\<rparr>\<rparr>"

text \<open>Sequencing of steps.\<close>

fun flow_cases :: "'a flow \<Rightarrow> ('a \<Rightarrow> 's \<Rightarrow> ('b flow \<times> 's) option) \<Rightarrow> 's \<Rightarrow> ('b flow \<times> 's) option" where
  "flow_cases (Go x) f s = f x s"
| "flow_cases (Reply code msg) f s = Some (Reply code msg, s)"
| "flow_cases Stop f s = Some (Stop, s)"
| "flow_cases Reset f s = Some (Reset, s)"
| "flow_cases (Escape e) f s = Some (Escape e, s)"

definition flow_bind :: "('a flow \<times> 's) option \<Rightarrow> ('a \<Rightarrow> 's \<Rightarrow> ('b flow \<times> 's) option) \<Rightarrow> ('b flow \<times> 's) option" where
  "flow_bind m f = (case m of None \<Rightarrow> None | Some (r, s) \<Rightarrow> flow_cases r f s)"

lemma flow_bind_simps [simp]:
  "flow_bind None f = None"
  "flow_bind (Some (Go x, s)) f = f x s"
  "flow_bind (Some (Reply code msg, s)) f = Some (Reply code msg, s)"
  "flow_bind (Some (Stop, s)) f = Some (Stop, s)"
  "flow_bind (Some (Reset, s)) f = Some (Reset, s)"
  "flow_bind (Some (Escape e, s)) f = Some (Escape e, s)"
  by (simp_all add: flow_bind_def)

lemma flow_bind_assoc: "flow_bind (flow_bind m f) g = flow_bind m (\<lambda>x s. flow_bind (f x s) g)"
proof (cases m)
  case (Some p)
  then show ?thesis by (cases p; cases "fst p") simp_all
qed simp

section \<open>The handshake\<close>

datatype handshake_result = HS_DONE | HS_NO_TLS | HS_WANT_READ | HS_WANT_WRITE | HS_ERROR

text \<open>The loop over the results of \<open>io.handshake()\<close>; it goes on while the list does.\<close>

fun handshake_loop :: "handshake_result list \<Rightarrow> conn_io \<Rightarrow> (unit flow \<times> conn_io) option" where
  "handshake_loop [] io = None"
| "handshake_loop (HS_DONE # rs) io = Some (Go (), io)"
| "handshake_loop (HS_NO_TLS # rs) io = Some (Go (), io)"
| "handshake_loop (HS_WANT_READ # rs) io =
     (let io1 = waitForRead io in if tl_timed_out io1 then Some (Stop, io1) else handshake_loop rs io1)"
| "handshake_loop (HS_WANT_WRITE # rs) io =
     (let io1 = waitForWrite io in if tl_timed_out io1 then Some (Stop, io1) else handshake_loop rs io1)"
| "handshake_loop (HS_ERROR # rs) io = Some (Stop, io)"

section \<open>Reading the header\<close>

function strip_crlf :: "conn_io \<Rightarrow> conn_io" where
  "strip_crlf io =
     (if getReadBufferSize io \<ge> 2 \<and> readView io ! 0 = CR \<and> readView io ! 1 = LF
      then strip_crlf (eraseFromReadBuffer 2 io) else io)"
  by pat_completeness auto
termination
  by (relation "measure (\<lambda>io. length (readView io))") (auto simp: length_readView erase_read_view)

declare strip_crlf.simps [simp del]

text \<open>The loop until the end of the header is in the buffer: its position.\<close>

partial_function (option) header_loop :: "server_config \<Rightarrow> conn_io \<Rightarrow> (nat flow \<times> conn_io) option" where
  "header_loop cfg io0 =
     (let io = strip_crlf io0 in
      case find_sub crlf2 (readView io) of
        Some headerSize \<Rightarrow> Some (Go headerSize, io)
      | None \<Rightarrow>
          (case io_read (SINGLE_READ_BYTES cfg) (MAX_HEADER_BYTES cfg) io of (readResult, io1) \<Rightarrow>
             if readResult = CLOSED \<or> readResult = READ_ERROR then Some (Stop, io1)
             else if readResult = BUFFER_LIMIT_EXCEEDED then Some (Reply 431 [], io1)
             else if readResult = READ_TIMED_OUT then Some (Reply 408 [], io1)
             else header_loop cfg io1))"

definition read_header :: "server_config \<Rightarrow> 'u connection \<Rightarrow> (nat flow \<times> 'u connection) option" where
  "read_header cfg c =
     (case header_loop cfg (conn_io_of c) of None \<Rightarrow> None | Some (r, io) \<Rightarrow> Some (r, put_io io c))"

definition check_header :: "server_config \<Rightarrow> nat \<Rightarrow> 'u connection \<Rightarrow> (unit flow \<times> 'u connection) option" where
  "check_header cfg headerSize c =
     (if headerSize > MAX_HEADER_BYTES cfg then Some (Reply 431 [], c)
      else
        (case parseRequestHeader (take headerSize (readView (conn_io_of c))) (request c) of
           (False, r) \<Rightarrow> Some (Reply 400 ''Malformed Header'', c\<lparr>request := r\<rparr>)
         | (True, r) \<Rightarrow>
             let c1 = c\<lparr>request := r\<rparr> in
             if version r \<noteq> ''HTTP/1.1'' then Some (Reply 505 [], c1)
             else if getHeaderLower r ''host'' = [] then Some (Reply 400 ''No Host Header Provided'', c1)
             else Some (Go (), put_io (eraseFromReadBuffer (headerSize + 4) (conn_io_of c1)) c1)))"

section \<open>Expect\<close>

definition expect_step :: "('gen, 'u) server \<Rightarrow> 'u connection \<Rightarrow> (unit flow \<times> 'u connection) option" where
  "expect_step srv c =
     (let cfg = srv_cfg srv; expect = getHeaderLower (request c) ''expect'' in
      if expect = [] then Some (Go (), c)
      else if toLowerCase expect = ''100-continue'' then
        (case getContentLength (request c) of
           (Inl INVALID_CONTENT_LENGTH, r) \<Rightarrow> Some (Reply 400 ''Invalid content-length header'', c\<lparr>request := r\<rparr>)
         | (Inl NO_CONTENT_LENGTH_HEADER, r) \<Rightarrow>
             if find_sub ''chunked'' (toLowerCase (getHeaderLower r ''transfer-encoding'')) = None
             then Some (Reply 400 ''Missing content-length header'', c\<lparr>request := r\<rparr>)
             else Some (Escape BadAccess, c\<lparr>request := r\<rparr>)
         | (Inr len, r) \<Rightarrow>
             let c1 = c\<lparr>request := r\<rparr> in
             if len > MAX_CONTENT_LENGTH cfg then Some (Reply 413 [], c1)
             else
               (case router_validate (srv_router srv) r of
                  RouteNotFound \<Rightarrow> Some (Reply 404 [], c1)
                | RouteMethodNotAllowed \<Rightarrow> Some (Reply 405 [], c1)
                | RouteOk \<Rightarrow>
                    (case writeAll (enqueue (''HTTP/1.1 100 Continue'' @ crlf2) (conn_io_of c1)) of
                       (WOK, io) \<Rightarrow> Some (Go (), put_io io c1)
                     | (_, io) \<Rightarrow> Some (Stop, put_io io c1))))
      else Some (Reply 417 [], c))"

section \<open>The framing of the body\<close>

definition attach :: "body_kind \<Rightarrow> nat \<Rightarrow> 'u connection \<Rightarrow> 'u connection" where
  "attach kind len c = c\<lparr>request := (request c)\<lparr>bodyStream := Some (new_body_stream len)\<rparr>,
     conn_world := (conn_world c)\<lparr>w_kind := kind\<rparr>\<rparr>"

text \<open>\<open>std::unreachable\<close> is the value \<open>None\<close>; \<open>body_choice_returns\<close> shows that it is not reached.\<close>

definition body_choice :: "server_config \<Rightarrow> 'u connection \<Rightarrow> (unit flow \<times> 'u connection) option" where
  "body_choice cfg c =
     (let hasContentLengthHeader = (getHeaderLower (request c) ''content-length'' \<noteq> []);
          transferEncodingHeader = getHeaderLower (request c) ''transfer-encoding'' in
      if hasContentLengthHeader \<and> transferEncodingHeader \<noteq> []
      then Some (Reply 400 ''Request cannot contain both Content-Length and Transfer-Encoding headers'', c)
      else if transferEncodingHeader \<noteq> [] then
        if \<not> icontains transferEncodingHeader ''chunked'' then Some (Reply 501 [], c)
        else Some (Go (), attach ChunkedBody 0 c)
      else if hasContentLengthHeader then
        (case getContentLength (request c) of
           (Inl NO_CONTENT_LENGTH_HEADER, r) \<Rightarrow> None
         | (Inl INVALID_CONTENT_LENGTH, r) \<Rightarrow> Some (Reply 400 ''Invalid Content-Length header'', c\<lparr>request := r\<rparr>)
         | (Inr len, r) \<Rightarrow>
             if len > MAX_CONTENT_LENGTH cfg then Some (Reply 413 [], c\<lparr>request := r\<rparr>)
             else Some (Go (), attach SizedBody len (c\<lparr>request := r\<rparr>)))
      else Some (Go (), attach NoBody 0 c))"

text \<open>The callbacks of each kind, and the operations of a body stream in a handler.\<close>

definition body_readFn :: "server_config \<Rightarrow> body_kind \<Rightarrow> body_env body_read_fn" where
  "body_readFn cfg kind =
     (case kind of ChunkedBody \<Rightarrow> chunkReadFn cfg | SizedBody \<Rightarrow> lengthReadFn cfg | NoBody \<Rightarrow> emptyReadFn)"

definition body_drainFn :: "server_config \<Rightarrow> body_kind \<Rightarrow> body_env body_drain_fn" where
  "body_drainFn cfg kind =
     (case kind of ChunkedBody \<Rightarrow> chunkDrainFn cfg | SizedBody \<Rightarrow> lengthDrainFn cfg | NoBody \<Rightarrow> emptyDrainFn)"

definition env_of :: "http_request \<Rightarrow> 'u conn_world \<Rightarrow> body_env" where
  "env_of r w = \<lparr>env_io = w_io w, env_decoder = w_decoder w, env_request = r\<rparr>"

definition put_env :: "body_env \<Rightarrow> 'u conn_world \<Rightarrow> 'u conn_world" where
  "put_env env w = w\<lparr>w_io := env_io env, w_decoder := env_decoder env\<rparr>"

definition drain_step :: "server_config \<Rightarrow> 'u connection \<Rightarrow> (unit flow \<times> 'u connection) option" where
  "drain_step cfg c =
     (case bodyStream (request c) of
        None \<Rightarrow> None
      | Some b \<Rightarrow>
          (case bs_drain (body_drainFn cfg (w_kind (conn_world c))) b (env_of (request c) (conn_world c)) of
             None \<Rightarrow> None
           | Some (r, env) \<Rightarrow>
               let c1 = c\<lparr>request := env_request env, conn_world := put_env env (conn_world c)\<rparr>
               in Some (case r of Inl e \<Rightarrow> Escape e | Inr _ \<Rightarrow> Go (), c1)))"

section \<open>Lemmas: the header\<close>

lemma strip_crlf_skip: "readView io = crlf @ v \<Longrightarrow> strip_crlf io = strip_crlf (eraseFromReadBuffer 2 io)"
  by (simp add: strip_crlf.simps [of io] length_readView)

lemma strip_crlf_stop: "\<not> prefix crlf (readView io) \<Longrightarrow> strip_crlf io = io"
proof -
  have "prefix crlf xs" if "2 \<le> length xs" "xs ! 0 = CR" "xs ! 1 = LF" for xs :: bytes
    using that by (cases xs; cases "tl xs") auto
  then show "\<not> prefix crlf (readView io) \<Longrightarrow> strip_crlf io = io"
    by (auto simp: strip_crlf.simps [of io] length_readView)
qed

lemma erase_writeBuffer [simp]: "writeBuffer (eraseFromReadBuffer n io) = writeBuffer io"
    "writeOffset (eraseFromReadBuffer n io) = writeOffset io"
  by (simp_all add: eraseFromReadBuffer_def Let_def)

lemma erase_frame [simp]:
  "writeView (eraseFromReadBuffer n io) = writeView io" "tl_timed_out (eraseFromReadBuffer n io) = tl_timed_out io"
  "tx (eraseFromReadBuffer n io) = tx io" "sent (eraseFromReadBuffer n io) = sent io"
  by (simp_all add: eraseFromReadBuffer_def writeView_def Let_def)

definition same_but_view :: "conn_io \<Rightarrow> conn_io \<Rightarrow> bool" where
  "same_but_view io io' \<longleftrightarrow> rx io' = rx io \<and> tx io' = tx io \<and> sent io' = sent io \<and> writeView io' = writeView io
     \<and> tl_timed_out io' = tl_timed_out io \<and> (io_ok io \<longrightarrow> io_ok io')"

lemma strip_crlf_step:
  "(\<exists>n. readView io = concat (replicate n crlf) @ readView (strip_crlf io)) \<and> same_but_view io (strip_crlf io)
     \<and> \<not> prefix crlf (readView (strip_crlf io))"
proof (induction "length (readView io)" arbitrary: io rule: less_induct)
  case less
  show ?case
  proof (cases "prefix crlf (readView io)")
    case False
    then show ?thesis using strip_crlf_stop [OF False] by (auto simp: same_but_view_def intro: exI [of _ 0])
  next
    case True
    then obtain v where v: "readView io = crlf @ v" by (auto simp: prefix_def)
    let ?io = "eraseFromReadBuffer 2 io"
    have e: "readView ?io = v" by (simp add: erase_read_view v)
    have "length (readView ?io) < length (readView io)" using v e by simp
    from less [OF this] obtain n where n: "v = concat (replicate n crlf) @ readView (strip_crlf ?io)"
      "same_but_view ?io (strip_crlf ?io)" "\<not> prefix crlf (readView (strip_crlf ?io))"
      unfolding e by blast
    have "readView io = concat (replicate (Suc n) crlf) @ readView (strip_crlf ?io)" using v n(1) by simp
    moreover have "same_but_view io (strip_crlf ?io)" using n(2) erase_read_ok by (simp add: same_but_view_def)
    ultimately show ?thesis using n(3) unfolding strip_crlf_skip [OF v] by blast
  qed
qed

lemma header_loop_total:
  assumes "0 < SINGLE_READ_BYTES cfg"
  shows "\<exists>y. header_loop cfg io = Some y"
proof (induction "rx_size (rx io)" arbitrary: io rule: less_induct)
  case less
  let ?io = "strip_crlf io"
  obtain r io1 where r: "io_read (SINGLE_READ_BYTES cfg) (MAX_HEADER_BYTES cfg) ?io = (r, io1)" by fastforce
  have rx: "rx ?io = rx io" using strip_crlf_step [of io] by (simp add: same_but_view_def)
  show ?case
  proof (cases "find_sub crlf2 (readView ?io) = None \<and> (r = DATA \<or> r = WOULD_BLOCK)")
    case True
    then have "rx_size (rx io1) < rx_size (rx io)" using io_read_result [OF r assms] rx by auto
    then have "\<exists>y. header_loop cfg io1 = Some y" by (rule less)
    then show ?thesis using True r by (auto simp: header_loop.simps [of cfg io] Let_def)
  next
    case False
    then show ?thesis using r
      by (cases r) (auto simp: header_loop.simps [of cfg io] Let_def split: option.split)
  qed
qed

text \<open>No byte of the input is lost while the header is awaited, apart from leading line ends.\<close>

definition header_found :: "conn_io \<Rightarrow> nat \<Rightarrow> conn_io \<Rightarrow> bool" where
  "header_found io i io' \<longleftrightarrow> find_sub crlf2 (readView io') = Some i \<and> io_ok io' \<and> writeView io' = writeView io
     \<and> sent io' = sent io \<and> tx io' = tx io \<and> \<not> prefix crlf (readView io') \<and> (\<exists>n. input io = concat (replicate n crlf) @ input io')"

lemma header_found_step:
  assumes "header_found io2 i io'" "input io = concat (replicate n crlf) @ input io2" "writeView io2 = writeView io"
    "sent io2 = sent io" "tx io2 = tx io"
  shows "header_found io i io'"
proof -
  obtain m where "input io2 = concat (replicate m crlf) @ input io'" using assms(1) by (auto simp: header_found_def)
  then have "input io = concat (replicate (n + m) crlf) @ input io'" using assms(2) by (simp add: replicate_add)
  then show ?thesis using assms unfolding header_found_def by (metis (no_types))
qed

lemma header_loop_Go:
  assumes "header_loop cfg io = Some (Go i, io')" "io_ok io"
  shows "header_found io i io'"
proof -
  have "io_ok io \<longrightarrow> (\<forall>i io'. y = (Go i, io') \<longrightarrow> header_found io i io')" if "header_loop cfg io = Some y" for y
  proof (rule header_loop.raw_induct [where P = "\<lambda>cfg io y. io_ok io \<longrightarrow> (\<forall>i io'. y = (Go i, io') \<longrightarrow> header_found io i io')",
        OF _ that], goal_cases)
    case (1 rec cfg io y)
    let ?io = "strip_crlf io"
    obtain n where n: "readView io = concat (replicate n crlf) @ readView ?io" "same_but_view io ?io"
      "\<not> prefix crlf (readView ?io)" using strip_crlf_step by blast
    then have inp: "input io = concat (replicate n crlf) @ input ?io" by (simp add: input_def same_but_view_def)
    obtain r io1 where r: "io_read (SINGLE_READ_BYTES cfg) (MAX_HEADER_BYTES cfg) ?io = (r, io1)" by fastforce
    show ?case
    proof (intro impI)
      assume ok: "io_ok io"
      then have ok1: "io_ok ?io" using n(2) by (simp add: same_but_view_def)
      show "\<forall>i io'. y = (Go i, io') \<longrightarrow> header_found io i io'"
      proof (cases "find_sub crlf2 (readView ?io)")
        case (Some k)
        then have "y = (Go k, ?io)" using 1(2) by (simp add: Let_def)
        then show ?thesis using Some n(2,3) ok1 inp by (auto simp: header_found_def same_but_view_def)
      next
        case None
        show ?thesis
        proof (cases "r = DATA \<or> r = WOULD_BLOCK")
          case True
          then have "rec cfg io1 = Some y" using 1(2) None r by (auto simp: Let_def)
          note IH = 1(1) [OF this]
          have "read_step (length (readView ?io) + SINGLE_READ_BYTES cfg) (MAX_HEADER_BYTES cfg) ?io (r, io1)"
            using io_read_step [OF ok1, of "SINGLE_READ_BYTES cfg" "MAX_HEADER_BYTES cfg"] r by simp
          then have "io_ok io1" "input io1 = input ?io" "writeView io1 = writeView io" "sent io1 = sent io" "tx io1 = tx io"
            using True n(2) by (auto simp: read_step_def Let_def input_def same_but_view_def)
          then show ?thesis using IH header_found_step inp by metis
        next
          case False
          then show ?thesis using 1(2) None r by (cases r) (auto simp: Let_def)
        qed
      qed
    qed
  qed
  then show ?thesis using assms by blast
qed

text \<open>A header that leaves room for one more read is found, in whatever pieces it arrives.\<close>

lemma header_loop_delivers:
  assumes "io_ok io" "calm (rx io)" "0 < SINGLE_READ_BYTES cfg" "\<not> prefix crlf (input io)"
    and "find_sub crlf2 (input io) = Some i" "i + 4 + SINGLE_READ_BYTES cfg \<le> MAX_HEADER_BYTES cfg"
  shows "\<exists>io'. header_loop cfg io = Some (Go i, io') \<and> io_ok io' \<and> calm (rx io') \<and> input io' = input io
    \<and> i + 4 \<le> length (readView io') \<and> writeView io' = writeView io \<and> sent io' = sent io \<and> tx io' = tx io
    \<and> (tl_timed_out io' \<longrightarrow> tl_timed_out io) \<and> writeBuffer io' = writeBuffer io \<and> writeOffset io' = writeOffset io"
  using assms
proof (induction "rx_size (rx io)" arbitrary: io rule: less_induct)
  case less
  have view: "prefix (readView io) (input io)" by (simp add: input_def)
  have "\<not> prefix crlf (readView io)" using less.prems(4) view prefix_order.trans by blast
  then have strip: "strip_crlf io = io" by (rule strip_crlf_stop)
  show ?case
  proof (cases "find_sub crlf2 (readView io)")
    case (Some j)
    have "find_sub crlf2 (input io) = Some j" unfolding input_def using Some by (rule find_sub_append_Some)
    then have j: "j = i" using less.prems(5) by simp
    then have "i + 4 \<le> length (readView io)" using find_sub_le [OF Some] by simp
    then show ?thesis using Some j less.prems by (intro exI [of _ io]) (simp add: header_loop.simps [of cfg io] strip Let_def)
  next
    case None
    have lt: "length (readView io) < i + 4"
    proof (rule ccontr)
      assume "\<not> length (readView io) < i + 4"
      then have "take (i + 4) (readView io) = take (i + 4) (input io)" by (simp add: input_def)
      moreover have "prefix crlf2 (drop i (input io))" using find_sub_SomeD [OF less.prems(5)] by simp
      then have "take 4 (drop i (input io)) = crlf2" by (auto simp: prefix_def)
      ultimately have "take 4 (drop i (readView io)) = crlf2" by (metis add.commute drop_take diff_add_inverse)
      then have "prefix crlf2 (drop i (readView io))" by (metis take_is_prefix)
      then show False using find_sub_None [OF None] by blast
    qed
    have ne: "rx_data (rx io) \<noteq> []"
      using None less.prems(5) by (auto simp: input_def)
    let ?t = "SINGLE_READ_BYTES cfg" and ?m = "MAX_HEADER_BYTES cfg"
    obtain r io1 where r: "io_read ?t ?m io = (r, io1)" by fastforce
    note calm = io_read_calm [OF r less.prems(2,3)] and res = io_read_result [OF r less.prems(3)]
    have step: "read_step (length (readView io) + ?t) ?m io (r, io1)" using io_read_step [OF less.prems(1), of ?t ?m] r by simp
    have "length (readView io1) \<le> max (length (readView io)) (min (length (readView io) + ?t) ?m)"
      using step by (simp add: read_step_def Let_def)
    then have "length (readView io1) < ?m" using lt less.prems(6) by (simp add: max_def min_def split: if_splits)
    then have go: "r = DATA \<or> r = WOULD_BLOCK" using calm res ne by (cases r) (auto simp: length_readView)
    then have io1: "io_ok io1" "input io1 = input io" "writeView io1 = writeView io" "sent io1 = sent io" "tx io1 = tx io"
      using step by (auto simp: read_step_def Let_def input_def)
    have fr: "(tl_timed_out io1 \<longrightarrow> tl_timed_out io) \<and> writeBuffer io1 = writeBuffer io \<and> writeOffset io1 = writeOffset io" using io_read_frame [OF r] go by auto
    have "rx_size (rx io1) < rx_size (rx io)" using res go by blast
    from less.hyps [OF this io1(1)] calm io1 less.prems fr
    obtain io' where "header_loop cfg io1 = Some (Go i, io')" "io_ok io'" "calm (rx io')" "input io' = input io"
      "i + 4 \<le> length (readView io')" "writeView io' = writeView io" "sent io' = sent io" "tx io' = tx io"
      "tl_timed_out io' \<longrightarrow> tl_timed_out io" "writeBuffer io' = writeBuffer io" "writeOffset io' = writeOffset io" by auto
    moreover have "header_loop cfg io = header_loop cfg io1"
      using go None r by (auto simp: header_loop.simps [of cfg io] strip Let_def)
    ultimately show ?thesis by auto
  qed
qed

text \<open>A well-formed request that arrives in any pieces is parsed as it was printed, and what follows it is left.\<close>

definition request_ready :: "server_config \<Rightarrow> string \<Rightarrow> string \<Rightarrow> headers \<Rightarrow> bool" where
  "request_ready cfg m target hs \<longleftrightarrow>
     CHR '' '' \<notin> set m \<and> LF \<notin> set m \<and> m \<noteq> [] \<and> hd m \<noteq> CR \<and>
     CHR '' '' \<notin> set target \<and> LF \<notin> set target \<and> find_sub ''://'' target = None \<and>
     (\<forall>h \<in> set hs. wf_header h) \<and>
     find_sub crlf2 (print_request m target ''HTTP/1.1'' hs @ crlf2) = Some (length (print_request m target ''HTTP/1.1'' hs)) \<and>
     length (print_request m target ''HTTP/1.1'' hs) + 4 + SINGLE_READ_BYTES cfg \<le> MAX_HEADER_BYTES cfg"

lemma read_check_header:
  assumes ok: "io_ok (conn_io_of c)" "calm (rx (conn_io_of c))" "0 < SINGLE_READ_BYTES cfg"
    and rdy: "request_ready cfg m target hs" and fresh: "fresh_request (request c)"
    and inp: "input (conn_io_of c) = print_request m target ''HTTP/1.1'' hs @ crlf2 @ rest"
    and host: "getHeaderLower (fold add_header_of hs empty_request) ''host'' \<noteq> []"
  shows "\<exists>c'. flow_bind (read_header cfg c) (check_header cfg) = Some (Go (), c')
    \<and> input (conn_io_of c') = rest \<and> io_ok (conn_io_of c') \<and> calm (rx (conn_io_of c'))
    \<and> req_method (request c') = m \<and> rawPath (request c') = target
    \<and> req_path (request c') = normalizePath (fst (cut CHR ''?'' target))
    \<and> pathParts (request c') = str_split (req_path (request c')) ''/''
    \<and> req_headers (request c') = req_headers (fold add_header_of hs empty_request)
    \<and> sent (conn_io_of c') = sent (conn_io_of c) \<and> writeView (conn_io_of c') = writeView (conn_io_of c)
    \<and> keepAlive c' = keepAlive c \<and> tx (conn_io_of c') = tx (conn_io_of c)
    \<and> (tl_timed_out (conn_io_of c') \<longrightarrow> tl_timed_out (conn_io_of c)) \<and> writeBuffer (conn_io_of c') = writeBuffer (conn_io_of c)
    \<and> writeOffset (conn_io_of c') = writeOffset (conn_io_of c)
    \<and> w_user (conn_world c') = w_user (conn_world c) \<and> w_decoder (conn_world c') = w_decoder (conn_world c)"
proof -
  let ?p = "print_request m target ''HTTP/1.1'' hs" and ?io = "conn_io_of c"
  have m: "m \<noteq> []" "hd m \<noteq> CR" using rdy by (simp_all add: request_ready_def)
  then have "\<not> prefix crlf (input ?io)" unfolding inp print_request_def by (cases m) auto
  moreover have "find_sub crlf2 (input ?io) = Some (length ?p)"
    using rdy find_sub_append_Some [of crlf2 "?p @ crlf2" "length ?p" rest]
    unfolding inp request_ready_def by simp
  moreover have "length ?p + 4 + SINGLE_READ_BYTES cfg \<le> MAX_HEADER_BYTES cfg" using rdy by (simp add: request_ready_def)
  ultimately obtain io' where io': "header_loop cfg ?io = Some (Go (length ?p), io')" "io_ok io'" "calm (rx io')"
    "input io' = input ?io" "length ?p + 4 \<le> length (readView io')" "writeView io' = writeView ?io" "sent io' = sent ?io"
    "tx io' = tx ?io" "tl_timed_out io' \<longrightarrow> tl_timed_out ?io" "writeBuffer io' = writeBuffer ?io" "writeOffset io' = writeOffset ?io"
    using header_loop_delivers [OF ok] by blast
  have tk: "take (length ?p) (readView io') = ?p"
  proof -
    have "take (length ?p) (readView io') = take (length ?p) (input io')" using io'(5) by (simp add: input_def)
    then show ?thesis unfolding io'(4) inp by simp
  qed
  have dr: "input (eraseFromReadBuffer (length ?p + 4) io') = rest"
  proof -
    have "input (eraseFromReadBuffer (length ?p + 4) io') = drop (length ?p + 4) (input io')"
      using io'(5) by (simp add: input_def erase_read_view)
    then show ?thesis unfolding io'(4) inp by simp
  qed
  have noLF: "LF \<notin> set ''HTTP/1.1''" "''HTTP/1.1'' \<noteq> []" "last ''HTTP/1.1'' \<noteq> CR" by simp_all
  obtain r where r: "parseRequestHeader ?p (request c) = (True, r)" "req_method r = m" "rawPath r = target"
    "version r = ''HTTP/1.1''" "req_path r = normalizePath (fst (cut CHR ''?'' target))"
    "req_headers r = req_headers (fold add_header_of hs empty_request)"
    using parse_print_request [OF _ _ _ _ _ _ _ _ _ fresh, of m target "''HTTP/1.1''" hs] rdy noLF by (auto simp: request_ready_def)
  have h: "getHeaderLower r ''host'' \<noteq> []" using host unfolding getHeaderLower_def r(6) .
  have pp: "pathParts r = str_split (req_path r) ''/''" using parseRequestHeader_parts [OF r(1) fresh] .
  let ?c' = "put_io (eraseFromReadBuffer (length ?p + 4) io') (c\<lparr>request := r\<rparr>)"
  have "check_header cfg (length ?p) (put_io io' c) = Some (Go (), ?c')"
    using rdy r h fresh tk
    by (simp add: check_header_def put_io_def conn_io_of_def request_ready_def)
  then show ?thesis using io' r pp dr erase_read_ok [OF io'(2)]
    by (intro exI [of _ ?c']) (simp add: read_header_def put_io_def conn_io_of_def)
qed

section \<open>Lemmas: Expect and framing\<close>

lemma body_choice_returns: "body_choice cfg c \<noteq> None"
  by (auto simp: body_choice_def getContentLength_def Let_def
      split: option.splits from_chars_result.splits prod.splits sum.splits content_length_error.splits if_splits)

text \<open>A body is accepted with exactly one framing, and a content length within the limit.\<close>

lemma body_choice_Go:
  assumes "body_choice cfg c = Some (Go (), c')"
  shows "(case w_kind (conn_world c') of
      ChunkedBody \<Rightarrow> getHeaderLower (request c) ''content-length'' = [] \<and> icontains (getHeaderLower (request c) ''transfer-encoding'') ''chunked''
        \<and> bodyStream (request c') = Some (new_body_stream 0)
    | SizedBody \<Rightarrow> getHeaderLower (request c) ''transfer-encoding'' = [] \<and>
        (\<exists>n \<le> MAX_CONTENT_LENGTH cfg. fst (getContentLength (request c)) = Inr n \<and> bodyStream (request c') = Some (new_body_stream n))
    | NoBody \<Rightarrow> getHeaderLower (request c) ''transfer-encoding'' = [] \<and> getHeaderLower (request c) ''content-length'' = []
        \<and> bodyStream (request c') = Some (new_body_stream 0)) \<and> conn_io_of c' = conn_io_of c"
  using assms
  by (auto simp: body_choice_def Let_def attach_def conn_io_of_def split: if_splits sum.splits prod.splits content_length_error.splits)

text \<open>A client that announces a chunked body and asks first: \<open>res.value()\<close> throws.\<close>

lemma expect_chunked_escapes:
  assumes "toLowerCase (getHeaderLower (request c) ''expect'') = ''100-continue''"
    and "getHeaderLower (request c) ''content-length'' = []" "contentLength (request c) = None"
    and "find_sub ''chunked'' (toLowerCase (getHeaderLower (request c) ''transfer-encoding'')) \<noteq> None"
  shows "expect_step srv c = Some (Escape BadAccess, c)"
proof -
  have "getHeaderLower (request c) ''expect'' \<noteq> []" using assms(1) by (auto simp: toLowerCase_def)
  then show ?thesis using assms by (auto simp: expect_step_def Let_def getContentLength_def)
qed

end
