(* ===== verification/HttpConnection.thy ===== *)
theory HttpConnection
  imports ConnectionRequest
begin

text \<open>
  The second half of a turn of \<open>HttpConnection::run\<close> (\<open>rukh/include/rukh/http/HttpConnection.hpp\<close>): dispatch,
  what becomes of an exception, the \<open>connection\<close> header, the three ways a response is sent, and the loop itself.

  The lemmas say what reaches the socket: the exact bytes of a plain response, the chunks of a stream in an
  encoding that the reference decoder reads back, the named part of a file.
\<close>

section \<open>Errors\<close>

definition what :: "('gen, 'u) server \<Rightarrow> exn \<Rightarrow> string" where
  "what srv e =
     (case e of
        SocketException m \<Rightarrow> m | EpollException m \<Rightarrow> m | CompressorException m \<Rightarrow> m
      | ServerException m code fatal \<Rightarrow> m | HandlerException m code fatal \<Rightarrow> m | ConnectionException m \<Rightarrow> m
      | DatabaseException m \<Rightarrow> m | OrmException m \<Rightarrow> m | InvalidArgument m \<Rightarrow> m | RuntimeError m \<Rightarrow> m
      | BadAccess \<Rightarrow> srv_library_what srv e | OutOfRange \<Rightarrow> srv_library_what srv e)"

definition factory_build :: "('gen, 'u) server \<Rightarrow> http_request \<Rightarrow> int \<Rightarrow> string \<Rightarrow> http_response" where
  "factory_build srv = build (srv_strtof srv) (srv_sort_prefs srv) (srv_errors srv)"

definition buildErrorResponse :: "('gen, 'u) server \<Rightarrow> http_request \<Rightarrow> int \<Rightarrow> string \<Rightarrow> http_response" where
  "buildErrorResponse srv req code message =
     (let r = factory_build srv req code message;
          r1 = (if req_method req = ''HEAD'' then stripBody r else r)
      in if code = 405
         then r1\<lparr>resp_headers := hs_setHeaderLower ''allow''
                (getAllowedMethodsString (routes (srv_router srv)) (pathParts req)) (resp_headers r1)\<rparr>
         else r1)"

definition date_now :: "('gen, 'u) server \<Rightarrow> 'u connection \<Rightarrow> string" where
  "date_now srv c = srv_date srv (w_user (conn_world c))"

text \<open>Writing into the buffer of the connection: \<open>None\<close> where the writer runs over the room it made.\<close>

definition write_buffer :: "(bytes \<Rightarrow> (bool \<times> bytes) option) \<Rightarrow> 'u connection \<Rightarrow> (bool \<times> 'u connection) option" where
  "write_buffer f c =
     (case f (writeBuffer (conn_io_of c)) of
        None \<Rightarrow> None
      | Some (ok, buf) \<Rightarrow> Some (ok, put_io ((conn_io_of c)\<lparr>writeBuffer := buf\<rparr>) c))"

text \<open>The loop \<open>while (io_.hasPendingWrites())\<close>; \<open>fail\<close> is what the code does when a write fails.\<close>

definition flush :: "unit flow \<Rightarrow> 'u connection \<Rightarrow> (unit flow \<times> 'u connection) option" where
  "flush fail c =
     (case writeAll (conn_io_of c) of
        (WOK, io) \<Rightarrow> Some (Go (), put_io io c)
      | (_, io) \<Rightarrow> Some (fail, put_io io c))"

definition write_and_flush :: "(bytes \<Rightarrow> (bool \<times> bytes) option) \<Rightarrow> unit flow \<Rightarrow> unit flow \<Rightarrow> 'u connection \<Rightarrow>
    (unit flow \<times> 'u connection) option" where
  "write_and_flush f full fail c =
     (case write_buffer f c of
        None \<Rightarrow> None
      | Some (False, c1) \<Rightarrow> Some (full, c1)
      | Some (True, c1) \<Rightarrow> flush fail c1)"

definition awaitClientFinBeforeClose :: "server_config \<Rightarrow> 'u connection \<Rightarrow> 'u connection" where
  "awaitClientFinBeforeClose cfg c = put_io (awaitClientFin (CONNECTION_CLOSE_MAX_BYTES cfg) (conn_io_of c)) c"

text \<open>The coroutine of every error reply; \<open>None\<close> only as in \<open>write_buffer\<close>.\<close>

definition sendErrorResponseAndClose :: "('gen, 'u) server \<Rightarrow> int \<Rightarrow> string \<Rightarrow> 'u connection \<Rightarrow> 'u connection option" where
  "sendErrorResponseAndClose srv code message c =
     (let response = buildErrorResponse srv (request c) code message;
          c1 = c\<lparr>keepAlive := False\<rparr>;
          response1 = response\<lparr>resp_headers := hs_setHeaderLower ''connection'' ''close'' (resp_headers response)\<rparr> in
      if statusCode response1 = -1 then Some c1
      else
        (case write_and_flush (serializeInto (srv_cfg srv) (date_now srv c) response1) Stop Stop c1 of
           None \<Rightarrow> None
         | Some (Go _, c2) \<Rightarrow> Some (awaitClientFinBeforeClose (srv_cfg srv) c2)
         | Some (_, c2) \<Rightarrow> Some c2))"

section \<open>Dispatch\<close>

definition dispatch_request :: "('gen, 'u) server \<Rightarrow> 'u connection \<Rightarrow> 'gen response \<times> 'u connection" where
  "dispatch_request srv c =
     (case dispatch (\<lambda>req code. factory_build srv req code []) (srv_set_order srv) (srv_router srv) (request c, conn_world c) of
        (res, req, w) \<Rightarrow>
          let c1 = c\<lparr>request := req, conn_world := w\<rparr> in
          (case res of
             Inr response \<Rightarrow> (response, c1)
           | Inl e \<Rightarrow>
               (case e of
                  ServerException m code fatal \<Rightarrow> (PlainResponse (buildErrorResponse srv req code m), c1\<lparr>keepAlive := \<not> fatal\<rparr>)
                | HandlerException m code fatal \<Rightarrow> (PlainResponse (buildErrorResponse srv req code m), c1\<lparr>keepAlive := \<not> fatal\<rparr>)
                | _ \<Rightarrow> (PlainResponse (buildErrorResponse srv req 500 (what srv e)), c1\<lparr>keepAlive := False\<rparr>))))"

definition shouldKeepAlive :: "http_request \<Rightarrow> bool" where
  "shouldKeepAlive r \<longleftrightarrow> \<not> icontains (getHeaderLower r ''connection'') ''close''"

definition set_connection :: "('gen, 'u) server \<Rightarrow> 'gen response \<Rightarrow> 'u connection \<Rightarrow> 'gen response \<times> 'u connection" where
  "set_connection srv response c =
     (let closed = map_resp_headers (hs_setHeaderLower ''connection'' ''close'') response in
      if srv_shutdown srv (w_user (conn_world c)) then (closed, c\<lparr>keepAlive := False\<rparr>)
      else if \<not> keepAlive c \<or> \<not> shouldKeepAlive (request c) then (closed, c)
      else (response, c))"

definition resetForNextRequest :: "'u connection \<Rightarrow> 'u connection" where
  "resetForNextRequest c = c\<lparr>request := req_reset (req_ip (request c)) (req_port (request c)) (request c),
     conn_world := (conn_world c)\<lparr>w_decoder := reset_decoder (w_decoder (conn_world c))\<rparr>\<rparr>"

section \<open>Sending\<close>

definition send_plain :: "('gen, 'u) server \<Rightarrow> http_response \<Rightarrow> 'u connection \<Rightarrow> (unit flow \<times> 'u connection) option" where
  "send_plain srv res c =
     (if statusCode res < 0 then Some (Stop, c)
      else write_and_flush (serializeInto (srv_cfg srv) (date_now srv c) res) Stop Stop c)"

text \<open>A streaming response after its header: one chunk per turn, and the empty chunk at the end.\<close>

partial_function (option) stream_loop ::
  "('gen, 'u) server \<Rightarrow> bool \<Rightarrow> 'gen \<Rightarrow> 'u connection \<Rightarrow> (unit flow \<times> 'u connection) option" where
  "stream_loop srv chunked gen c =
     (case srv_next_chunk srv gen (conn_world c) of
        (Inl e, gen1, w1) \<Rightarrow>
          flow_bind
            (case write_buffer (serializeBlockInto (srv_cfg srv) chunked (what srv e)) (c\<lparr>conn_world := w1\<rparr>) of
               None \<Rightarrow> None
             | Some (False, c1) \<Rightarrow> Some (Reset, c1)
             | Some (True, c1) \<Rightarrow> write_and_flush (serializeBlockInto (srv_cfg srv) chunked []) Reset Stop c1)
            (\<lambda>_ c2. Some (Stop, c2))
      | (Inr None, gen1, w1) \<Rightarrow>
          write_and_flush (serializeBlockInto (srv_cfg srv) chunked []) Reset Stop (c\<lparr>conn_world := w1\<rparr>)
      | (Inr (Some chunk), gen1, w1) \<Rightarrow>
          (case write_and_flush (serializeBlockInto (srv_cfg srv) chunked chunk) Reset Reset (c\<lparr>conn_world := w1\<rparr>) of
             None \<Rightarrow> None
           | Some (Go _, c1) \<Rightarrow> stream_loop srv chunked gen1 c1
           | Some (r, c1) \<Rightarrow> Some (r, c1)))"

definition send_stream :: "('gen, 'u) server \<Rightarrow> 'gen stream_response \<Rightarrow> 'u connection \<Rightarrow> (unit flow \<times> 'u connection) option" where
  "send_stream srv res c =
     flow_bind (write_and_flush (stream_header_into (srv_cfg srv) (date_now srv c) res) Stop Stop c)
       (\<lambda>_ c1. stream_loop srv (isChunked res) (nextChunkFn res) c1)"

fun open_error_code :: "file_open_error \<Rightarrow> int" where
  "open_error_code NotFound = 404"
| "open_error_code Forbidden = 403"
| "open_error_code Malformed = 400"
| "open_error_code ResourceExhausted = 503"
| "open_error_code UnexpectedError = 500"

text \<open>An opened file response: from the cache, read into the write buffer, or by \<open>sendFile\<close>.\<close>

definition send_opened :: "('gen, 'u) server \<Rightarrow> file_response \<Rightarrow> 'u connection \<Rightarrow> (unit flow \<times> 'u connection) option" where
  "send_opened srv f c =
     (let cfg = srv_cfg srv;
          len = (case f_contentLength f of Some n \<Rightarrow> n | None \<Rightarrow> srv_junk srv);
          u = w_user (conn_world c) in
      case f_cached f of
        Some cached \<Rightarrow>
          if f_offset f > length cached \<or> len > length cached - f_offset f then Some (Reply 416 [], c)
          else
            (case write_buffer (file_header_into cfg (date_now srv c) f) c of
               None \<Rightarrow> None
             | Some (False, c1) \<Rightarrow> Some (Stop, c1)
             | Some (True, c1) \<Rightarrow>
                 flush Stop (put_io (enqueue (take len (drop (f_offset f) cached)) (conn_io_of c1)) c1))
      | None \<Rightarrow>
          if len < FILE_BUFFERING_THRESHOLD cfg then
            (case srv_read_file srv (f_fd f) (f_offset f) len u of
               None \<Rightarrow> Some (Escape (RuntimeError ''readChunk(): File Read Awaitable failed''),
                 put_io (enqueue (replicate len NUL) (conn_io_of c)) c)
             | Some bs \<Rightarrow>
                 if length bs < len
                 then Some (Reset, put_io (enqueue (bs @ replicate (len - length bs) NUL) (conn_io_of c)) c)
                 else flush Stop (put_io (enqueue bs (conn_io_of c)) c))
          else
            flow_bind (write_and_flush (file_header_into cfg (date_now srv c) f) Stop Stop c)
              (\<lambda>_ c1.
                case sendFile (srv_file srv (f_fd f) u) (f_offset f) len (conn_io_of c1) of
                  None \<Rightarrow> None
                | Some (r, io) \<Rightarrow> Some (if r = Inr len then Go () else Reset, put_io io c1)))"

definition send_file :: "('gen, 'u) server \<Rightarrow> file_response \<Rightarrow> 'u connection \<Rightarrow> (unit flow \<times> 'u connection) option" where
  "send_file srv f c =
     (case (if f_fd f < 0 then openFile (srv_open srv (f_filePath f) (w_user (conn_world c))) f else (None, f)) of
        (Some e, f1) \<Rightarrow> Some (Reply (open_error_code e) [], c)
      | (None, f1) \<Rightarrow> send_opened srv f1 c)"

fun send_response :: "('gen, 'u) server \<Rightarrow> 'gen response \<Rightarrow> 'u connection \<Rightarrow> (unit flow \<times> 'u connection) option" where
  "send_response srv (PlainResponse r) c = send_plain srv r c"
| "send_response srv (StreamResponse r) c = send_stream srv r c"
| "send_response srv (FileResponse f) c = send_file srv f c"

section \<open>The loop\<close>

text \<open>One request: \<open>Go\<close> leads to the next turn.\<close>

definition respond :: "('gen, 'u) server \<Rightarrow> 'u connection \<Rightarrow> (unit flow \<times> 'u connection) option" where
  "respond srv c =
     (case dispatch_request srv c of (response, c1) \<Rightarrow>
        flow_bind (drain_step (srv_cfg srv) c1) (\<lambda>_ c2.
          case set_connection srv response c2 of (response1, c3) \<Rightarrow>
            flow_bind (send_response srv response1 c3) (\<lambda>_ c4. Some (Go (), resetForNextRequest c4))))"

definition serve_one :: "('gen, 'u) server \<Rightarrow> 'u connection \<Rightarrow> (unit flow \<times> 'u connection) option" where
  "serve_one srv c =
     flow_bind (read_header (srv_cfg srv) c) (\<lambda>headerSize c1.
       flow_bind (check_header (srv_cfg srv) headerSize c1) (\<lambda>_ c2.
         flow_bind (expect_step srv c2) (\<lambda>_ c3.
           flow_bind (body_choice (srv_cfg srv) c3) (\<lambda>_ c4. respond srv c4))))"

datatype conn_end = Closed | WasReset | Escaped exn

partial_function (option) run :: "('gen, 'u) server \<Rightarrow> 'u connection \<Rightarrow> (conn_end \<times> 'u connection) option" where
  "run srv c =
     (if \<not> keepAlive c then Some (Closed, awaitClientFinBeforeClose (srv_cfg srv) c)
      else
        (case serve_one srv c of
           None \<Rightarrow> None
         | Some (r, c1) \<Rightarrow>
             (case r of
                Go _ \<Rightarrow> run srv c1
              | Reply code message \<Rightarrow> map_option (Pair Closed) (sendErrorResponseAndClose srv code message c1)
              | Stop \<Rightarrow> Some (Closed, c1)
              | Reset \<Rightarrow> Some (WasReset, c1)
              | Escape e \<Rightarrow> Some (Escaped e, c1))))"

section \<open>Lemmas: writing\<close>

lemma conn_io_put [simp]: "conn_io_of (put_io io c) = io"
  by (simp add: conn_io_of_def put_io_def)

lemma put_io_frame [simp]: "request (put_io io c) = request c" "keepAlive (put_io io c) = keepAlive c"
  "w_user (conn_world (put_io io c)) = w_user (conn_world c)" "w_kind (conn_world (put_io io c)) = w_kind (conn_world c)"
  "w_decoder (conn_world (put_io io c)) = w_decoder (conn_world c)" "put_io io (put_io io' c) = put_io io c"
  by (simp_all add: put_io_def)

text \<open>What was sent or waits in the buffer to be sent.\<close>

definition outgoing :: "'u connection \<Rightarrow> bytes" where
  "outgoing c = sent (conn_io_of c) @ writeView (conn_io_of c)"

text \<open>A step that only writes: it has the bytes \<open>bs\<close> sent, on a failing connection perhaps a part of them.\<close>

definition wrote :: "'u connection \<Rightarrow> bytes \<Rightarrow> 'u connection \<Rightarrow> bool" where
  "wrote c bs c' \<longleftrightarrow> outgoing c' = outgoing c @ bs \<and> io_ok (conn_io_of c') \<and> readView (conn_io_of c') = readView (conn_io_of c)
     \<and> rx (conn_io_of c') = rx (conn_io_of c) \<and> request c' = request c \<and> keepAlive c' = keepAlive c
     \<and> w_decoder (conn_world c') = w_decoder (conn_world c) \<and> w_user (conn_world c') = w_user (conn_world c)"

lemma wrote_trans: "wrote c a c1 \<Longrightarrow> wrote c1 b c2 \<Longrightarrow> wrote c (a @ b) c2"
  by (simp add: wrote_def)

lemma wrote_enqueue: "io_ok (conn_io_of c) \<Longrightarrow> wrote c bs (put_io (enqueue bs (conn_io_of c)) c)"
  by (auto simp: wrote_def outgoing_def enqueue_def readView_def writeView_def io_ok_def)

lemma wrote_flush:
  assumes "flush fail c = Some (r, c')" "io_ok (conn_io_of c)"
  shows "wrote c [] c' \<and> (r = fail \<or> r = Go () \<and> sent (conn_io_of c') = outgoing c)"
proof -
  obtain r1 io where w: "writeAll (conn_io_of c) = (r1, io)" by fastforce
  then have "write_step (conn_io_of c) io" "r1 = WOK \<longrightarrow> writeView io = []" using writeAll_step by blast+
  moreover have c': "c' = put_io io c" "r = fail \<or> r = Go () \<and> r1 = WOK"
    using assms(1) w by (auto simp: flush_def split: write_result.splits)
  ultimately show ?thesis using assms(2) by (auto simp: wrote_def outgoing_def write_step_def)
qed

lemma wrote_buffer:
  assumes "write_buffer f c = Some (ok, c')" "io_ok (conn_io_of c)"
    and f: "\<And>buf. f buf = (if P buf then Some (False, buf) else Some (True, buf @ bs))"
  shows "wrote c (if ok then bs else []) c'"
proof -
  have "c' = (if ok then put_io (enqueue bs (conn_io_of c)) c else put_io (conn_io_of c) c)"
    using assms(1) unfolding write_buffer_def f by (auto simp: enqueue_def put_io_def conn_io_of_def split: if_splits)
  then show ?thesis using wrote_enqueue [OF assms(2), of bs] wrote_enqueue [OF assms(2), of "[]"]
    by (auto simp: enqueue_def)
qed

lemma wrote_and_flush:
  assumes "write_and_flush f full fail c = Some (r, c')" "io_ok (conn_io_of c)"
    and f: "\<And>buf. f buf = (if P buf then Some (False, buf) else Some (True, buf @ bs))"
  shows "r = full \<and> wrote c [] c' \<or> wrote c bs c' \<and> (r = fail \<or> r = Go () \<and> sent (conn_io_of c') = outgoing c @ bs)"
proof -
  obtain ok c1 where b: "write_buffer f c = Some (ok, c1)"
    using assms(1) by (auto simp: write_and_flush_def split: option.splits)
  note w = wrote_buffer [OF b assms(2) f]
  show ?thesis
  proof (cases ok)
    case False
    then show ?thesis using assms(1) b w by (simp add: write_and_flush_def)
  next
    case True
    then have fl: "flush fail c1 = Some (r, c')" using assms(1) b by (simp add: write_and_flush_def)
    have "io_ok (conn_io_of c1)" using w by (simp add: wrote_def)
    from wrote_flush [OF fl this] show ?thesis using w True wrote_trans [of c bs c1 "[]" c']
      by (auto simp: wrote_def)
  qed
qed

lemma write_and_flush_total:
  assumes "\<And>buf. f buf = (if P buf then Some (False, buf) else Some (True, buf @ bs))"
  shows "write_and_flush f full fail c \<noteq> None"
  by (auto simp: write_and_flush_def write_buffer_def assms flush_def split: option.splits bool.splits prod.splits write_result.splits)

section \<open>Lemmas: plain responses and errors\<close>

lemma send_plain_wrote:
  assumes "send_plain srv res c = Some (r, c')" "io_ok (conn_io_of c)" "cookies_ok (resp_cookies res)"
  shows "wrote c [] c' \<or> wrote c (response_bytes (srv_cfg srv) (date_now srv c) res) c'"
    and "r = Go () \<Longrightarrow> wrote c (response_bytes (srv_cfg srv) (date_now srv c) res) c'
      \<and> sent (conn_io_of c') = outgoing c @ response_bytes (srv_cfg srv) (date_now srv c) res"
proof -
  have refl: "wrote c [] c" using assms(2) by (simp add: wrote_def)
  have "r = Stop \<and> wrote c [] c' \<or> wrote c (response_bytes (srv_cfg srv) (date_now srv c) res) c' \<and>
      (r = Stop \<or> r = Go () \<and> sent (conn_io_of c') = outgoing c @ response_bytes (srv_cfg srv) (date_now srv c) res)"
  proof (cases "statusCode res < 0")
    case True
    then show ?thesis using assms(1) refl by (simp add: send_plain_def)
  next
    case False
    then have "write_and_flush (serializeInto (srv_cfg srv) (date_now srv c) res) Stop Stop c = Some (r, c')"
      using assms(1) by (simp add: send_plain_def)
    from wrote_and_flush [OF this assms(2) serializeInto_exact [OF assms(3)]] show ?thesis .
  qed
  then show "wrote c [] c' \<or> wrote c (response_bytes (srv_cfg srv) (date_now srv c) res) c'"
    and "r = Go () \<Longrightarrow> wrote c (response_bytes (srv_cfg srv) (date_now srv c) res) c'
      \<and> sent (conn_io_of c') = outgoing c @ response_bytes (srv_cfg srv) (date_now srv c) res"
    by auto
qed

lemma send_plain_total: "cookies_ok (resp_cookies res) \<Longrightarrow> send_plain srv res c \<noteq> None"
  using write_and_flush_total [OF serializeInto_exact, of res] by (auto simp: send_plain_def)

lemma awaitClientFin_frame: "sent (awaitClientFin n io) = sent io" "writeView (awaitClientFin n io) = writeView io"
  "readView (awaitClientFin n io) = readView io"
  by (auto simp: awaitClientFin_def Let_def drainDiscard_def waitForRead_def writeView_def readView_def split: prod.splits)

text \<open>An error reply announces the end of the connection, sends at most itself, and ends it.\<close>

definition closing_response :: "('gen, 'u) server \<Rightarrow> int \<Rightarrow> string \<Rightarrow> 'u connection \<Rightarrow> http_response" where
  "closing_response srv code message c =
     (let r = buildErrorResponse srv (request c) code message
      in r\<lparr>resp_headers := hs_setHeaderLower ''connection'' ''close'' (resp_headers r)\<rparr>)"

lemma sendError_wrote:
  assumes "sendErrorResponseAndClose srv code message c = Some c'" "io_ok (conn_io_of c)"
    and "cookies_ok (resp_cookies (closing_response srv code message c))"
  shows "\<not> keepAlive c' \<and>
    outgoing c' \<in> {outgoing c, outgoing c @ response_bytes (srv_cfg srv) (date_now srv c) (closing_response srv code message c)}"
proof -
  let ?c = "c\<lparr>keepAlive := False\<rparr>" and ?r = "closing_response srv code message c"
  have c: "conn_io_of ?c = conn_io_of c" "outgoing ?c = outgoing c" by (simp_all add: conn_io_of_def outgoing_def)
  show ?thesis
  proof (cases "statusCode ?r = -1")
    case True
    then have "c' = ?c" using assms(1) by (simp add: sendErrorResponseAndClose_def closing_response_def Let_def)
    then show ?thesis using c by simp
  next
    case False
    then obtain r c2 where w: "write_and_flush (serializeInto (srv_cfg srv) (date_now srv c) ?r) Stop Stop ?c = Some (r, c2)"
      and c': "c' = c2 \<or> c' = awaitClientFinBeforeClose (srv_cfg srv) c2"
      using assms(1) by (auto simp: sendErrorResponseAndClose_def closing_response_def Let_def split: option.splits flow.splits)
    have "outgoing c' = outgoing c2 \<and> keepAlive c' = keepAlive c2"
      using c' by (auto simp: awaitClientFinBeforeClose_def outgoing_def awaitClientFin_frame)
    then show ?thesis
      using wrote_and_flush [OF w _ serializeInto_exact [OF assms(3)]] assms(2) c by (auto simp: wrote_def)
  qed
qed

lemma sendError_total:
  assumes "cookies_ok (resp_cookies (closing_response srv code message c))"
  shows "\<exists>c'. sendErrorResponseAndClose srv code message c = Some c'"
  using write_and_flush_total [OF serializeInto_exact [OF assms], of "srv_cfg srv" "date_now srv c" Stop Stop "c\<lparr>keepAlive := False\<rparr>"]
  by (auto simp: sendErrorResponseAndClose_def closing_response_def Let_def split: flow.splits)

lemma closing_response_close:
  "hs_getHeaderLower (resp_headers (closing_response srv code message c)) ''connection'' = ''close''"
  by (simp add: closing_response_def Let_def hs_get_after_set)

section \<open>Lemmas: streams\<close>

definition block :: "bool \<Rightarrow> bytes \<Rightarrow> bytes" where
  "block chunked b = (if chunked then encode_chunk b else b)"

lemma serializeBlockInto_block:
  "serializeBlockInto cfg chunked b buf =
     (if length buf + length (block chunked b) > MAX_WRITE_BUFFER_BYTES cfg then Some (False, buf)
      else Some (True, buf @ block chunked b))"
proof (cases chunked)
  case True
  then show ?thesis using serializeChunkInto_exact [of cfg b buf]
    by (simp add: serializeBlockInto_def block_def encode_chunk_def Let_def)
next
  case False
  then show ?thesis using serializeBlockInto_plain [of cfg b buf] by (simp add: block_def)
qed

text \<open>A callback that yields the chunks of a list and then ends, whatever the state of the connection.\<close>

fun yields :: "('gen \<Rightarrow> 'w \<Rightarrow> (bytes option) result \<times> 'gen \<times> 'w) \<Rightarrow> 'gen \<Rightarrow> bytes list \<Rightarrow> bool" where
  "yields nxt g [] = (\<exists>g'. \<forall>w. nxt g w = (Inr None, g', w))"
| "yields nxt g (b # bs) = (\<exists>g'. (\<forall>w. nxt g w = (Inr (Some b), g', w)) \<and> yields nxt g' bs)"

lemma same_world [simp]: "c\<lparr>conn_world := conn_world c\<rparr> = c" by simp

lemma stream_loop_wrote:
  assumes "yields (srv_next_chunk srv) g bs" "io_ok (conn_io_of c)"
  shows "\<exists>r c'. stream_loop srv chunked g c = Some (r, c') \<and> (r = Go () \<longrightarrow>
    wrote c (concat (map (block chunked) bs) @ block chunked []) c' \<and>
    sent (conn_io_of c') = outgoing c @ concat (map (block chunked) bs) @ block chunked [])"
  using assms
proof (induction bs arbitrary: g c)
  case Nil
  then obtain g' where g': "\<forall>w. srv_next_chunk srv g w = (Inr None, g', w)" by auto
  have e: "stream_loop srv chunked g c = write_and_flush (serializeBlockInto (srv_cfg srv) chunked []) Reset Stop c"
    by (simp add: stream_loop.simps [of srv chunked g c] g')
  obtain r c' where w: "write_and_flush (serializeBlockInto (srv_cfg srv) chunked []) Reset Stop c = Some (r, c')"
    using write_and_flush_total [OF serializeBlockInto_block] by fastforce
  from wrote_and_flush [OF w Nil.prems(2) serializeBlockInto_block] show ?case using e w by auto
next
  case (Cons b bs)
  then obtain g' where g': "\<forall>w. srv_next_chunk srv g w = (Inr (Some b), g', w)" "yields (srv_next_chunk srv) g' bs" by auto
  obtain r1 c1 where w: "write_and_flush (serializeBlockInto (srv_cfg srv) chunked b) Reset Reset c = Some (r1, c1)"
    using write_and_flush_total [OF serializeBlockInto_block] by fastforce
  note post = wrote_and_flush [OF w Cons.prems(2) serializeBlockInto_block]
  show ?case
  proof (cases "r1 = Go ()")
    case False
    then have "r1 = Reset" using post by blast
    then have "stream_loop srv chunked g c = Some (Reset, c1)"
      using w by (simp add: stream_loop.simps [of srv chunked g c] g')
    then show ?thesis by simp
  next
    case True
    then have e: "stream_loop srv chunked g c = stream_loop srv chunked g' c1"
      using w by (simp add: stream_loop.simps [of srv chunked g c] g')
    have w1: "wrote c (block chunked b) c1" using post True by auto
    then have "io_ok (conn_io_of c1)" "outgoing c1 = outgoing c @ block chunked b" by (simp_all add: wrote_def)
    with Cons.IH [OF g'(2), of c1] obtain r c' where "stream_loop srv chunked g' c1 = Some (r, c')"
      "r = Go () \<longrightarrow> wrote c1 (concat (map (block chunked) bs) @ block chunked []) c' \<and>
         sent (conn_io_of c') = outgoing c1 @ concat (map (block chunked) bs) @ block chunked []" by blast
    then show ?thesis using e w1 wrote_trans [OF w1] \<open>outgoing c1 = outgoing c @ block chunked b\<close>
      by (intro exI [of _ r] exI [of _ c']) auto
  qed
qed

definition stream_head :: "('gen, 'u) server \<Rightarrow> 'gen stream_response \<Rightarrow> 'u connection \<Rightarrow> bytes" where
  "stream_head srv res c = concat (head_pieces (srv_cfg srv) (date_now srv c) (st_statusCode res) (st_headers res) (st_cookies res))"

lemma send_stream_wrote:
  assumes "yields (srv_next_chunk srv) (nextChunkFn res) bs" "io_ok (conn_io_of c)" "cookies_ok (st_cookies res)"
  shows "\<exists>r c'. send_stream srv res c = Some (r, c') \<and> (r = Go () \<longrightarrow>
    sent (conn_io_of c') = outgoing c @ stream_head srv res c @ concat (map (block (isChunked res)) bs) @ block (isChunked res) []
    \<and> readView (conn_io_of c') = readView (conn_io_of c) \<and> rx (conn_io_of c') = rx (conn_io_of c))"
proof -
  have hd: "stream_header_into (srv_cfg srv) (date_now srv c) res buf =
      (if length buf + length (stream_head srv res c) > MAX_WRITE_BUFFER_BYTES (srv_cfg srv) then Some (False, buf)
       else Some (True, buf @ stream_head srv res c))" for buf
    using stream_header_exact [OF assms(3), of "srv_cfg srv" "date_now srv c" buf] by (simp add: stream_head_def Let_def)
  obtain r1 c1 where w: "write_and_flush (stream_header_into (srv_cfg srv) (date_now srv c) res) Stop Stop c = Some (r1, c1)"
    using write_and_flush_total [OF hd] by fastforce
  note post = wrote_and_flush [OF w assms(2) hd]
  show ?thesis
  proof (cases "r1 = Go ()")
    case False
    then have "r1 = Stop" using post by blast
    then show ?thesis using w by (simp add: send_stream_def)
  next
    case True
    then have w1: "wrote c (stream_head srv res c) c1" using post by auto
    then have "io_ok (conn_io_of c1)" by (simp add: wrote_def)
    from stream_loop_wrote [OF assms(1) this, of "isChunked res"] show ?thesis
      using w True w1 by (auto simp: send_stream_def wrote_def)
  qed
qed

text \<open>The body of a chunked stream, as the reference decoder reads it.\<close>

lemma stream_body_decodes:
  assumes "\<forall>b \<in> set bs. b \<noteq> [] \<and> length b \<le> MAX_TE_CHUNK_LENGTH cfg"
    "length (concat bs) \<le> MAX_TE_LENGTH cfg" "MAX_TE_LENGTH cfg < sz_limit"
  shows "decode cfg init_decoder ((concat (map (block True) bs) @ block True []) @ rest) = (concat bs, Trailer (crlf @ rest))"
proof -
  have "block True = encode_chunk" by (simp add: fun_eq_iff block_def)
  then show ?thesis using decode_size_encoded [of bs cfg 0 rest] assms
    by (simp add: decode_def init_decoder_def)
qed

text \<open>An empty chunk in the middle ends the body for the reader.\<close>

lemma empty_chunk_ends_body:
  assumes "length b \<le> MAX_TE_CHUNK_LENGTH cfg" "length b \<le> MAX_TE_LENGTH cfg" "MAX_TE_LENGTH cfg < sz_limit" "b \<noteq> []"
  shows "fst (decode cfg init_decoder ((concat (map (block True) ([b, []] @ bs)) @ block True []) @ rest)) = b"
proof -
  have "decode_size cfg 0 (encode_chunk b @ encode_chunk [] @ t) = (b, Trailer (crlf @ t))" for t
    using decode_size_encoded [of "[b]" cfg 0 t] assms by simp
  then show ?thesis by (simp add: decode_def init_decoder_def block_def)
qed

section \<open>Lemmas: files\<close>

definition file_head :: "('gen, 'u) server \<Rightarrow> file_response \<Rightarrow> 'u connection \<Rightarrow> bytes" where
  "file_head srv f c = concat (head_pieces (srv_cfg srv) (date_now srv c) (f_statusCode f) (f_headers f) (f_cookies f))"

lemma file_header_head:
  assumes "cookies_ok (f_cookies f)"
  shows "file_header_into (srv_cfg srv) (date_now srv c) f buf =
    (if length buf + length (file_head srv f c) > MAX_WRITE_BUFFER_BYTES (srv_cfg srv) then Some (False, buf)
     else Some (True, buf @ file_head srv f c))"
  using file_header_exact [OF assms, of "srv_cfg srv" "date_now srv c" buf] by (simp add: file_head_def Let_def)

text \<open>A cached file: the header and exactly the part that was asked for.\<close>

lemma send_cached_file:
  assumes "f_cached f = Some content" "f_contentLength f = Some len" "send_opened srv f c = Some (r, c')"
    and "io_ok (conn_io_of c)" "cookies_ok (f_cookies f)"
  shows "case r of
      Go _ \<Rightarrow> f_offset f + len \<le> length content \<and> sent (conn_io_of c') = outgoing c @ file_head srv f c @ take len (drop (f_offset f) content)
    | Reply code msg \<Rightarrow> code = 416 \<and> \<not> f_offset f + len \<le> length content \<and> c' = c
    | Stop \<Rightarrow> True | Reset \<Rightarrow> False | Escape e \<Rightarrow> False"
proof (cases "f_offset f > length content \<or> len > length content - f_offset f")
  case True
  then have "r = Reply 416 [] \<and> c' = c" using assms(1-3) by (auto simp: send_opened_def Let_def)
  then show ?thesis using True by auto
next
  case False
  note hd = file_header_head [OF assms(5), of srv c]
  obtain ok c1 where b: "write_buffer (file_header_into (srv_cfg srv) (date_now srv c) f) c = Some (ok, c1)"
    using assms(1-3) False by (auto simp: send_opened_def Let_def split: option.splits)
  note w = wrote_buffer [OF b assms(4) hd]
  show ?thesis
  proof (cases ok)
    case False
    then have "r = Stop" using assms(1-3) b \<open>\<not> (_ \<or> _)\<close> by (simp add: send_opened_def Let_def)
    then show ?thesis by simp
  next
    case True
    let ?bs = "take len (drop (f_offset f) content)"
    let ?c2 = "put_io (enqueue ?bs (conn_io_of c1)) c1"
    have fl: "flush Stop ?c2 = Some (r, c')" using assms(1-3) b False True by (simp add: send_opened_def Let_def)
    have w2: "wrote c1 ?bs ?c2" using w by (intro wrote_enqueue) (auto simp: wrote_def)
    then have "wrote c (file_head srv f c @ ?bs) ?c2" using w True wrote_trans by fastforce
    moreover from this have "io_ok (conn_io_of ?c2)" by (simp add: wrote_def)
    from wrote_flush [OF fl this] have "r = Stop \<or> r = Go () \<and> sent (conn_io_of c') = outgoing ?c2" by blast
    ultimately show ?thesis using False by (auto simp: wrote_def)
  qed
qed

text \<open>A small file that is not cached goes out without its header.\<close>

lemma send_cached_total:
  assumes "f_cached f = Some content" "cookies_ok (f_cookies f)"
  shows "send_opened srv f c \<noteq> None"
  using assms(1)
  by (auto simp: send_opened_def Let_def write_buffer_def file_header_head [OF assms(2)] flush_def split: bool.splits prod.splits write_result.splits)

lemma send_small_file:
  assumes "f_cached f = None" "f_contentLength f = Some len" "len < FILE_BUFFERING_THRESHOLD (srv_cfg srv)"
    and "srv_read_file srv (f_fd f) (f_offset f) len (w_user (conn_world c)) = Some bs" "length bs = len"
    and "send_opened srv f c = Some (Go (), c')" "io_ok (conn_io_of c)"
  shows "sent (conn_io_of c') = outgoing c @ bs"
proof -
  let ?c1 = "put_io (enqueue bs (conn_io_of c)) c"
  have fl: "flush Stop ?c1 = Some (Go (), c')" using assms by (simp add: send_opened_def Let_def)
  have w: "wrote c bs ?c1" using wrote_enqueue [OF assms(7)] .
  then have "io_ok (conn_io_of ?c1)" by (simp add: wrote_def)
  from wrote_flush [OF fl this] show ?thesis using w by (auto simp: wrote_def)
qed

text \<open>A large file: the header and then the bytes from the offset on, all of them or a reset connection.\<close>

lemma send_large_file:
  assumes "f_cached f = None" "f_contentLength f = Some len" "\<not> len < FILE_BUFFERING_THRESHOLD (srv_cfg srv)"
    and "send_opened srv f c = Some (Go (), c')" "io_ok (conn_io_of c)" "cookies_ok (f_cookies f)"
    and "f_offset f \<le> length (srv_file srv (f_fd f) (w_user (conn_world c)))"
  shows "sent (conn_io_of c') = outgoing c @ file_head srv f c
      @ take len (drop (f_offset f) (srv_file srv (f_fd f) (w_user (conn_world c))))
    \<and> f_offset f + len \<le> length (srv_file srv (f_fd f) (w_user (conn_world c)))"
proof -
  let ?file = "srv_file srv (f_fd f) (w_user (conn_world c))"
  note hd = file_header_head [OF assms(6), of srv c]
  obtain r1 c1 where w: "write_and_flush (file_header_into (srv_cfg srv) (date_now srv c) f) Stop Stop c = Some (r1, c1)"
    using write_and_flush_total [OF hd] by fastforce
  note post = wrote_and_flush [OF w assms(5) hd]
  have r1: "r1 = Go ()" using post assms(1-4) w by (auto simp: send_opened_def Let_def)
  then have s1: "sent (conn_io_of c1) = outgoing c @ file_head srv f c" using post by auto
  obtain r io where sf: "sendFile ?file (f_offset f) len (conn_io_of c1) = Some (r, io)" and "r = Inr len" "c' = put_io io c1"
    using assms(1-4) w r1 by (auto simp: send_opened_def Let_def split: option.splits if_splits)
  then have "sendFile_post ?file (f_offset f) len len (conn_io_of c1) (Inr len, io)"
    using sendFile_loop_post by (simp add: sendFile_def)
  then have "sent io = sent (conn_io_of c1) @ take len (drop (f_offset f) ?file) \<and> f_offset f + len \<le> length ?file"
    using assms(7) by (auto simp: sendFile_post_def)
  then show ?thesis using s1 \<open>c' = put_io io c1\<close> by simp
qed

section \<open>Lemmas: the end of a connection\<close>

text \<open>A client that asks to close is told so, and the connection stays.\<close>

lemma client_close_keeps_open:
  assumes "keepAlive c" "icontains (getHeaderLower (request c) ''connection'') ''close''"
    and "\<not> srv_shutdown srv (w_user (conn_world c))"
  shows "\<exists>response'. set_connection srv response c = (response', c)
    \<and> hs_getHeaderLower (headers_of response') ''connection'' = ''close''"
  using assms by (cases response) (auto simp: set_connection_def Let_def shouldKeepAlive_def hs_get_after_set)

lemma shutdown_closes:
  assumes "srv_shutdown srv (w_user (conn_world c))" "set_connection srv response c = (response', c')"
  shows "\<not> keepAlive c' \<and> hs_getHeaderLower (headers_of response') ''connection'' = ''close''"
  using assms by (cases response) (auto simp: set_connection_def Let_def hs_get_after_set)

text \<open>An exception of the drain callback is outside the handler of exceptions: nothing is sent.\<close>

lemma drain_throws_escapes:
  assumes "dispatch_request srv c = (response, c1)" "bodyStream (request c1) = Some b" "\<not> exhausted b"
    and "body_drainFn (srv_cfg srv) (w_kind (conn_world c1)) (remaining b) (env_of (request c1) (conn_world c1)) = Some (Inl e, env)"
  shows "\<exists>c2. respond srv c = Some (Escape e, c2) \<and> conn_io_of c2 = env_io env"
  using assms by (simp add: respond_def drain_step_def bs_drain_def Let_def put_env_def conn_io_of_def)

lemma run_unfold_closed: "\<not> keepAlive c \<Longrightarrow> run srv c = Some (Closed, awaitClientFinBeforeClose (srv_cfg srv) c)"
  by (simp add: run.simps [of srv c])

section \<open>Lemmas: a whole exchange\<close>

lemma drain_NoBody:
  assumes "bodyStream (request c) = Some (new_body_stream 0)" "w_kind (conn_world c) = NoBody"
  shows "drain_step cfg c = Some (Go (), c)"
  using assms by (simp add: drain_step_def bs_drain_def new_body_stream_def body_drainFn_def emptyDrainFn_def env_of_def put_env_def)

text \<open>
  A well-formed request without a body, in whatever pieces it arrives, that the handler answers by a plain
  response \<open>res\<close> without touching the connection: the socket gets exactly that response, and what follows
  the request in the input is left for the next turn.
\<close>

definition answers :: "('gen, 'u) server \<Rightarrow> http_response \<Rightarrow> 'u connection \<Rightarrow> bool" where
  "answers srv res c \<longleftrightarrow> (\<exists>c'. dispatch_request srv c = (PlainResponse res, c') \<and> conn_world c' = conn_world c
     \<and> bodyStream (request c') = bodyStream (request c) \<and> req_headers (request c') = req_headers (request c)
     \<and> keepAlive c' = keepAlive c)"

lemma getHeaderLower_cong: "req_headers r = req_headers s \<Longrightarrow> getHeaderLower r k = getHeaderLower s k"
  by (simp only: getHeaderLower_def)

lemma send_plain_accepts:
  assumes "cookies_ok (resp_cookies res)" "0 \<le> statusCode res"
    and "accepts (length (response_bytes (srv_cfg srv) (date_now srv c) res)) (conn_io_of c)" "io_ok (conn_io_of c)"
    and "length (writeBuffer (conn_io_of c)) + length (response_bytes (srv_cfg srv) (date_now srv c) res) \<le> MAX_WRITE_BUFFER_BYTES (srv_cfg srv)"
  shows "\<exists>c'. send_plain srv res c = Some (Go (), c')"
proof -
  let ?bs = "response_bytes (srv_cfg srv) (date_now srv c) res" and ?io = "conn_io_of c"
  let ?io1 = "?io\<lparr>writeBuffer := writeBuffer ?io @ ?bs\<rparr>"
  have "accepts 0 ?io1" using assms(3,4) by (simp add: accepts_def writeView_def io_ok_def)
  then have "fst (writeAll ?io1) = WOK" by (rule writeAll_accepts)
  then show ?thesis using assms(2,5) serializeInto_exact [OF assms(1)]
    by (cases "writeAll ?io1") (simp add: send_plain_def write_and_flush_def write_buffer_def flush_def)
qed

lemma send_plain_half:
  assumes "send_plain srv res c = Some (Go (), c')" "cookies_ok (resp_cookies res)" "half (conn_io_of c)"
  shows "half (conn_io_of c')"
proof -
  let ?io1 = "(conn_io_of c)\<lparr>writeBuffer := writeBuffer (conn_io_of c) @ response_bytes (srv_cfg srv) (date_now srv c) res\<rparr>"
  obtain r io where w: "writeAll ?io1 = (r, io)" by fastforce
  then have "conn_io_of c' = io" using assms(1) serializeInto_exact [OF assms(2)]
    by (auto simp: send_plain_def write_and_flush_def write_buffer_def flush_def split: if_splits write_result.splits)
  then show ?thesis using writeAll_half [OF w] half_append [OF assms(3)] by simp
qed

lemma response_bytes_nonempty: "response_bytes cfg date res \<noteq> []"
  by (simp add: response_bytes_def head_pieces_def Let_def)

lemma send_plain_once:
  assumes "send_plain srv res c = Some (Go (), c')" "cookies_ok (resp_cookies res)" "io_ok (conn_io_of c)"
    and "tx (conn_io_of c) = TxTake n # es" "\<not> tl_timed_out (conn_io_of c)"
    and "length (writeView (conn_io_of c)) + length (response_bytes (srv_cfg srv) (date_now srv c) res) \<le> n"
  shows "tx (conn_io_of c') = es \<and> \<not> tl_timed_out (conn_io_of c')"
proof -
  let ?bs = "response_bytes (srv_cfg srv) (date_now srv c) res"
  let ?io1 = "(conn_io_of c)\<lparr>writeBuffer := writeBuffer (conn_io_of c) @ ?bs\<rparr>"
  obtain r io where w: "writeAll ?io1 = (r, io)" by fastforce
  have v: "writeView ?io1 = writeView (conn_io_of c) @ ?bs" using assms(3) by (simp add: writeView_def io_ok_def)
  have "conn_io_of c' = io" using assms(1) w serializeInto_exact [OF assms(2)]
    by (auto simp: send_plain_def write_and_flush_def write_buffer_def flush_def split: if_splits write_result.splits)
  then show ?thesis
    using writeAll_once [OF _ _ _ _ w, of n es] v assms(4-6) response_bytes_nonempty by simp
qed

text \<open>The whole exchange; it completes when the peer takes the response and the buffer has room for it.\<close>

definition room_for :: "('gen, 'u) server \<Rightarrow> http_response \<Rightarrow> 'u connection \<Rightarrow> bool" where
  "room_for srv res c \<longleftrightarrow> 0 \<le> statusCode res \<and> accepts (length (response_bytes (srv_cfg srv) (date_now srv c) res)) (conn_io_of c)
     \<and> length (writeBuffer (conn_io_of c)) + length (response_bytes (srv_cfg srv) (date_now srv c) res) \<le> MAX_WRITE_BUFFER_BYTES (srv_cfg srv)"

text \<open>An error reply that has room and is taken is sent whole.\<close>

lemma sendError_accepts:
  assumes "room_for srv (closing_response srv code message c) c" "io_ok (conn_io_of c)"
    and "cookies_ok (resp_cookies (closing_response srv code message c))"
    and "sendErrorResponseAndClose srv code message c = Some c'"
  shows "sent (conn_io_of c') = outgoing c @ response_bytes (srv_cfg srv) (date_now srv c) (closing_response srv code message c)"
proof -
  let ?c = "c\<lparr>keepAlive := False\<rparr>" and ?r = "closing_response srv code message c"
  let ?bs = "response_bytes (srv_cfg srv) (date_now srv c) ?r" and ?io = "conn_io_of c"
  let ?io1 = "?io\<lparr>writeBuffer := writeBuffer ?io @ ?bs\<rparr>"
  have c: "conn_io_of ?c = ?io" "outgoing ?c = outgoing c" by (simp_all add: conn_io_of_def outgoing_def)
  have room: "0 \<le> statusCode ?r" "accepts (length ?bs) ?io" "length (writeBuffer ?io) + length ?bs \<le> MAX_WRITE_BUFFER_BYTES (srv_cfg srv)"
    using assms(1) by (simp_all add: room_for_def)
  have "accepts 0 ?io1" using room(2) assms(2) by (simp add: accepts_def writeView_def io_ok_def)
  then have "fst (writeAll ?io1) = WOK" by (rule writeAll_accepts)
  then obtain c2 where w: "write_and_flush (serializeInto (srv_cfg srv) (date_now srv c) ?r) Stop Stop ?c = Some (Go (), c2)"
    using room(3) serializeInto_exact [OF assms(3)] c(1)
    by (cases "writeAll ?io1") (simp add: write_and_flush_def write_buffer_def flush_def)
  then have "sent (conn_io_of c2) = outgoing c @ ?bs"
    using wrote_and_flush [OF w _ serializeInto_exact [OF assms(3)]] assms(2) c by simp
  moreover have "c' = awaitClientFinBeforeClose (srv_cfg srv) c2"
    using assms(4) w room(1) by (auto simp: sendErrorResponseAndClose_def closing_response_def Let_def)
  ultimately show ?thesis by (simp add: awaitClientFinBeforeClose_def awaitClientFin_frame)
qed

definition exchanged :: "('gen, 'u) server \<Rightarrow> http_response \<Rightarrow> bytes \<Rightarrow> 'u connection \<Rightarrow> 'u connection \<Rightarrow> bool" where
  "exchanged srv res rest c c' \<longleftrightarrow>
     (let bs = response_bytes (srv_cfg srv) (date_now srv c) res; io = conn_io_of c; io' = conn_io_of c' in
      sent io' = outgoing c @ bs \<and> input io' = rest \<and> io_ok io' \<and> calm (rx io') \<and> keepAlive c' \<and> fresh_request (request c')
      \<and> w_decoder (conn_world c') = reset_decoder (w_decoder (conn_world c)) \<and> w_user (conn_world c') = w_user (conn_world c)
      \<and> writeView io' = [] \<and> (half io \<longrightarrow> writeBuffer io' = [])
      \<and> (\<forall>n es. tx io = TxTake n # es \<longrightarrow> \<not> tl_timed_out io \<longrightarrow> length (writeView io) + length bs \<le> n \<longrightarrow>
           tx io' = es \<and> \<not> tl_timed_out io'))"

lemma serve_plain:
  assumes ok: "io_ok (conn_io_of c)" "calm (rx (conn_io_of c))" "0 < SINGLE_READ_BYTES (srv_cfg srv)"
    and rdy: "request_ready (srv_cfg srv) m target hs" and fresh: "fresh_request (request c)" "keepAlive c"
    and inp: "input (conn_io_of c) = print_request m target ''HTTP/1.1'' hs @ crlf2 @ rest"
    and hs: "getHeaderLower (fold add_header_of hs empty_request) ''host'' \<noteq> []"
      "\<forall>k \<in> {''expect'', ''content-length'', ''transfer-encoding'', ''connection''}. getHeaderLower (fold add_header_of hs empty_request) k = []"
    and handler: "\<And>c2. req_method (request c2) = m \<Longrightarrow> req_path (request c2) = normalizePath (fst (cut CHR ''?'' target)) \<Longrightarrow>
      pathParts (request c2) = str_split (req_path (request c2)) ''/'' \<Longrightarrow> input (conn_io_of c2) = rest \<Longrightarrow> answers srv res c2"
    and res: "cookies_ok (resp_cookies res)" "\<And>u. \<not> srv_shutdown srv u"
  shows "\<exists>r c'. serve_one srv c = Some (r, c') \<and> (room_for srv res c \<longrightarrow> r = Go ()) \<and> (r = Go () \<longrightarrow> exchanged srv res rest c c')"
proof -
  obtain c1 where rc: "flow_bind (read_header (srv_cfg srv) c) (check_header (srv_cfg srv)) = Some (Go (), c1)"
    and c1: "input (conn_io_of c1) = rest" "io_ok (conn_io_of c1)" "req_method (request c1) = m"
      "req_path (request c1) = normalizePath (fst (cut CHR ''?'' target))"
      "req_headers (request c1) = req_headers (fold add_header_of hs empty_request)"
      "sent (conn_io_of c1) = sent (conn_io_of c)" "writeView (conn_io_of c1) = writeView (conn_io_of c)"
      "keepAlive c1" "pathParts (request c1) = str_split (req_path (request c1)) ''/''"
    and frame: "tx (conn_io_of c1) = tx (conn_io_of c)" "tl_timed_out (conn_io_of c1) \<longrightarrow> tl_timed_out (conn_io_of c)"
      "writeBuffer (conn_io_of c1) = writeBuffer (conn_io_of c)" "w_user (conn_world c1) = w_user (conn_world c)"
      "w_decoder (conn_world c1) = w_decoder (conn_world c)" "calm (rx (conn_io_of c1))"
      "writeOffset (conn_io_of c1) = writeOffset (conn_io_of c)"
    using fresh(2) read_check_header [OF ok rdy fresh(1) inp hs(1)] by blast
  have hd: "getHeaderLower (request c1) k = getHeaderLower (fold add_header_of hs empty_request) k" for k
    by (rule getHeaderLower_cong [OF c1(5)])
  define c2 where "c2 = attach NoBody 0 c1"
  have c2: "conn_io_of c2 = conn_io_of c1" "req_method (request c2) = m" "req_path (request c2) = req_path (request c1)"
    "bodyStream (request c2) = Some (new_body_stream 0)" "w_kind (conn_world c2) = NoBody" "keepAlive c2"
    "req_headers (request c2) = req_headers (request c1)" "pathParts (request c2) = pathParts (request c1)"
    using c1 by (simp_all add: c2_def attach_def conn_io_of_def)
  obtain c3 where c3: "dispatch_request srv c2 = (PlainResponse res, c3)" "conn_world c3 = conn_world c2"
    "bodyStream (request c3) = bodyStream (request c2)" "req_headers (request c3) = req_headers (request c2)" "keepAlive c3"
    using handler [of c2] c1 c2 by (auto simp: answers_def)
  have io3: "conn_io_of c3 = conn_io_of c1" using c3(2) c2(1) by (simp add: conn_io_of_def)
  have "getHeaderLower (request c3) ''connection'' = []"
    using hs(2) hd getHeaderLower_cong [of "request c3" "request c1"] c3(4) c2(7) by auto
  then have sc: "set_connection srv (PlainResponse res) c3 = (PlainResponse res, c3)"
    using res(2) c3(5) by (simp add: set_connection_def shouldKeepAlive_def icontains_def)
  have dr: "drain_step (srv_cfg srv) c3 = Some (Go (), c3)"
    using c2 c3 by (intro drain_NoBody) auto
  have "serve_one srv c = flow_bind (flow_bind (read_header (srv_cfg srv) c) (check_header (srv_cfg srv)))
      (\<lambda>_ c2. flow_bind (expect_step srv c2) (\<lambda>_ c3. flow_bind (body_choice (srv_cfg srv) c3) (\<lambda>_ c4. respond srv c4)))"
    by (simp add: serve_one_def flow_bind_assoc)
  also have "\<dots> = respond srv c2"
    using hd hs(2) unfolding rc by (simp add: expect_step_def body_choice_def Let_def c2_def)
  also have "\<dots> = flow_bind (send_plain srv res c3) (\<lambda>_ c4. Some (Go (), resetForNextRequest c4))"
    by (simp add: respond_def c3(1) dr sc)
  finally have e: "serve_one srv c = flow_bind (send_plain srv res c3) (\<lambda>_ c4. Some (Go (), resetForNextRequest c4))" .
  obtain r c4 where s: "send_plain srv res c3 = Some (r, c4)" using send_plain_total [OF res(1)] by fastforce
  have ok3: "io_ok (conn_io_of c3)" using io3 c1(2) by simp
  have w3: "w_user (conn_world c3) = w_user (conn_world c)" "w_decoder (conn_world c3) = w_decoder (conn_world c)"
    using c3(2) frame by (simp_all add: c2_def attach_def)
  then have date: "date_now srv c3 = date_now srv c" by (simp add: date_now_def)
  have live: "room_for srv res c \<longrightarrow> r = Go ()"
  proof
    assume "room_for srv res c"
    then have "\<exists>c'. send_plain srv res c3 = Some (Go (), c')"
      using io3 frame c1 date by (intro send_plain_accepts [OF res(1) _ _ ok3]) (auto simp: room_for_def accepts_def)
    then show "r = Go ()" using s by simp
  qed
  show ?thesis
  proof (cases "r = Go ()")
    case True
    note w = send_plain_wrote(2) [OF s ok3 res(1) True]
    have "serve_one srv c = Some (Go (), resetForNextRequest c4)" using e s True by simp
    moreover have "conn_io_of (resetForNextRequest c4) = conn_io_of c4" "keepAlive (resetForNextRequest c4) = keepAlive c4"
      "w_decoder (conn_world (resetForNextRequest c4)) = reset_decoder (w_decoder (conn_world c4))"
      "fresh_request (request (resetForNextRequest c4))" "w_user (conn_world (resetForNextRequest c4)) = w_user (conn_world c4)"
      by (simp_all add: resetForNextRequest_def conn_io_of_def)
    moreover have "outgoing c3 = outgoing c" using io3 c1 by (simp add: outgoing_def)
    moreover have "writeView (conn_io_of c4) = []"
      using w unfolding wrote_def outgoing_def by (metis append_self_conv)
    moreover have "half (conn_io_of c) \<longrightarrow> writeBuffer (conn_io_of c4) = []"
      using half_empty [OF send_plain_half [OF s [unfolded True] res(1)] calculation(8)] io3 frame by (auto simp: half_def)
    moreover have "\<forall>n es. tx (conn_io_of c) = TxTake n # es \<longrightarrow> \<not> tl_timed_out (conn_io_of c) \<longrightarrow>
         length (writeView (conn_io_of c)) + length (response_bytes (srv_cfg srv) (date_now srv c) res) \<le> n \<longrightarrow>
         tx (conn_io_of c4) = es \<and> \<not> tl_timed_out (conn_io_of c4)"
      using send_plain_once [OF s [unfolded True] res(1) ok3] io3 frame c1 date by auto
    ultimately show ?thesis using w io3 c1(1) c3(5) date w3 frame
      by (intro exI [of _ "Go ()"] exI [of _ "resetForNextRequest c4"]) (auto simp: wrote_def input_def exchanged_def Let_def)
  next
    case False
    have "serve_one srv c = Some (r, c4)" using e s False by (cases r) auto
    then show ?thesis using False live by auto
  qed
qed

end
