(* ===== verification/Exchange.thy ===== *)
theory Exchange
  imports HttpConnection
begin

text \<open>
  Whole exchanges: a request in the bytes of a connection, the route that answers it, and the response in
  the bytes that leave. The definitions of the program are in the theories before; here are the
  predicates that say when a request is answered by a registered handler, the turn of the connection loop
  that does it, and the induction over pipelined requests.
\<close>

section \<open>Requests that a registered handler answers\<close>

definition path_of :: "string \<Rightarrow> string" where
  "path_of target = normalizePath (fst (cut CHR ''?'' target))"

definition routed :: "('gen, 'u) server \<Rightarrow> string \<Rightarrow> string \<Rightarrow> http_response \<Rightarrow> bool" where
  "routed srv m path res \<longleftrightarrow> m \<notin> {''TRACE'', ''CONNECT'', ''HEAD''} \<and> path \<noteq> ''*'' \<and>
     (\<exists>h. handler_at (pathTreeRoot (routes (srv_router srv))) (map Literal (str_split path ''/'')) m = Some h \<and>
       (\<forall>req w. req_path req = path \<longrightarrow> h (req, w) = (Inr (PlainResponse res), req, w)))"

definition bare_headers :: "headers \<Rightarrow> bool" where
  "bare_headers hs \<longleftrightarrow> getHeaderLower (fold add_header_of hs empty_request) ''host'' \<noteq> [] \<and>
     (\<forall>k \<in> {''expect'', ''content-length'', ''transfer-encoding'', ''connection''}.
        getHeaderLower (fold add_header_of hs empty_request) k = [])"

definition plain_server :: "('gen, 'u) server \<Rightarrow> bool" where
  "plain_server srv \<longleftrightarrow> middlewares (srv_router srv) = [] \<and> (\<forall>u. \<not> srv_shutdown srv u) \<and> 0 < SINGLE_READ_BYTES (srv_cfg srv)"

lemma routed_answers:
  assumes "plain_server srv" "routed srv m (req_path (request c)) res"
    and "req_method (request c) = m" "pathParts (request c) = str_split (req_path (request c)) ''/''"
  shows "answers srv res c"
proof -
  let ?req = "request c" and ?w = "conn_world c"
  let ?build = "\<lambda>req code. factory_build srv req code []"
  obtain h where h: "handler_at (pathTreeRoot (routes (srv_router srv))) (map Literal (pathParts ?req)) m = Some h"
    and res: "\<And>req w. req_path req = req_path ?req \<Longrightarrow> h (req, w) = (Inr (PlainResponse res), req, w)"
    and m: "m \<notin> {''TRACE'', ''CONNECT'', ''HEAD''}" "req_path ?req \<noteq> ''*''"
    using assms(2,4) by (auto simp: routed_def)
  obtain n where n: "findMatchingRouteEntry (routes (srv_router srv)) (pathParts ?req) = Some n"
    "map_of (requestHandlers n) m = Some h"
    using literal_route_found [OF h] by blast
  let ?r1 = "setAttribute ''allowedMethods'' (allowedMethods n) ?req"
  let ?r2 = "setPathParams (getPathParams (patternParts n) (pathParts ?r1)) ?r1"
  have r2: "req_path ?r2 = req_path ?req" "req_method ?r2 = m" "req_headers ?r2 = req_headers ?req"
    "bodyStream ?r2 = bodyStream ?req"
    using assms(3) by (simp_all add: setAttribute_def setPathParams_def)
  have "dispatch ?build (srv_set_order srv) (srv_router srv) (?req, ?w) = terminal ?build (Some n) (?r1, ?w)"
    using assms(1,3) m n(1) by (subst dispatch_plain) (auto simp: plain_server_def)
  also have "\<dots> = (Inr (PlainResponse res), ?r2, ?w)"
    using n(2) m r2 res [OF r2(1), of ?w] by (simp add: terminal_def Let_def lookup_method_def)
  finally show ?thesis using r2 by (auto simp: answers_def dispatch_request_def)
qed

section \<open>One turn\<close>

definition waiting :: "('gen, 'u) server \<Rightarrow> 'u connection \<Rightarrow> bool" where
  "waiting srv c \<longleftrightarrow> io_ok (conn_io_of c) \<and> calm (rx (conn_io_of c)) \<and> half (conn_io_of c) \<and> fresh_request (request c) \<and> keepAlive c"

definition request_bytes :: "string \<times> string \<times> headers \<Rightarrow> bytes" where
  "request_bytes q = (case q of (m, target, hs) \<Rightarrow> print_request m target ''HTTP/1.1'' hs @ crlf2)"

definition answered :: "('gen, 'u) server \<Rightarrow> string \<times> string \<times> headers \<Rightarrow> http_response \<Rightarrow> bool" where
  "answered srv q res \<longleftrightarrow> (case q of (m, target, hs) \<Rightarrow> request_ready (srv_cfg srv) m target hs \<and> bare_headers hs
     \<and> routed srv m (path_of target) res \<and> cookies_ok (resp_cookies res))"

lemma run_turn: "serve_one srv c = Some (Go (), c') \<Longrightarrow> keepAlive c \<Longrightarrow> run srv c = run srv c'"
  by (simp add: run.simps [of srv c])

lemma turn_answers:
  assumes "plain_server srv" "waiting srv c" "answered srv q res" "input (conn_io_of c) = request_bytes q @ rest"
  shows "\<exists>r c'. serve_one srv c = Some (r, c') \<and> (room_for srv res c \<longrightarrow> r = Go ())
    \<and> (r = Go () \<longrightarrow> exchanged srv res rest c c' \<and> waiting srv c')"
proof -
  obtain m target hs where q: "q = (m, target, hs)" by (cases q)
  have w: "io_ok (conn_io_of c)" "calm (rx (conn_io_of c))" "fresh_request (request c)" "keepAlive c" "half (conn_io_of c)"
    using assms(2) by (simp_all add: waiting_def)
  have a: "request_ready (srv_cfg srv) m target hs" "bare_headers hs" "routed srv m (path_of target) res"
    "cookies_ok (resp_cookies res)"
    using assms(3) by (simp_all add: answered_def q)
  have s: "0 < SINGLE_READ_BYTES (srv_cfg srv)" "\<And>u. \<not> srv_shutdown srv u" using assms(1) by (simp_all add: plain_server_def)
  have inp: "input (conn_io_of c) = print_request m target ''HTTP/1.1'' hs @ crlf2 @ rest"
    using assms(4) by (simp add: request_bytes_def q)
  have hs: "getHeaderLower (fold add_header_of hs empty_request) ''host'' \<noteq> []"
    "\<forall>k \<in> {''expect'', ''content-length'', ''transfer-encoding'', ''connection''}.
       getHeaderLower (fold add_header_of hs empty_request) k = []"
    using a(2) by (simp_all add: bare_headers_def)
  have ans: "answers srv res c2" if "req_method (request c2) = m" "req_path (request c2) = normalizePath (fst (cut CHR ''?'' target))"
    "pathParts (request c2) = str_split (req_path (request c2)) ''/''" for c2
    using that a(3) by (intro routed_answers [OF assms(1)]) (simp_all add: path_of_def)
  have "waiting srv c'" if "exchanged srv res rest c c'" for c'
    using that w(5) by (auto simp: exchanged_def waiting_def half_def io_ok_def Let_def)
  then show ?thesis
    using serve_plain [OF w(1,2) s(1) a(1) w(3,4) inp hs ans a(4) s(2)] by blast
qed

section \<open>Pipelined requests\<close>

definition replies :: "('gen, 'u) server \<Rightarrow> 'u \<Rightarrow> ((string \<times> string \<times> headers) \<times> http_response) list \<Rightarrow> bytes" where
  "replies srv u xs = concat (map (\<lambda>x. response_bytes (srv_cfg srv) (srv_date srv u) (snd x)) xs)"

text \<open>A peer that takes each response at once.\<close>

definition greedy :: "('gen, 'u) server \<Rightarrow> 'u \<Rightarrow> ((string \<times> string \<times> headers) \<times> http_response) list \<Rightarrow> conn_io \<Rightarrow> bool" where
  "greedy srv u xs io \<longleftrightarrow> \<not> tl_timed_out io \<and> writeBuffer io = [] \<and> (\<exists>ns. tx io = map TxTake ns \<and> length xs \<le> length ns \<and>
     (\<forall>n \<in> set ns. \<forall>x \<in> set xs. length (response_bytes (srv_cfg srv) (srv_date srv u) (snd x)) \<le> n))"

lemma pipelined:
  assumes "plain_server srv" "waiting srv c" "\<forall>(q, res) \<in> set xs. answered srv q res \<and> 0 \<le> statusCode res
      \<and> length (response_bytes (srv_cfg srv) (srv_date srv (w_user (conn_world c))) res) \<le> MAX_WRITE_BUFFER_BYTES (srv_cfg srv)"
    and "input (conn_io_of c) = concat (map (\<lambda>x. request_bytes (fst x)) xs) @ rest" "greedy srv (w_user (conn_world c)) xs (conn_io_of c)"
  shows "\<exists>c'. run srv c = run srv c' \<and> waiting srv c' \<and> input (conn_io_of c') = rest \<and> writeBuffer (conn_io_of c') = [] \<and>
    sent (conn_io_of c') = sent (conn_io_of c) @ replies srv (w_user (conn_world c)) xs \<and> w_user (conn_world c') = w_user (conn_world c)"
  using assms(2-)
proof (induction xs arbitrary: c)
  case Nil
  then show ?case by (intro exI [of _ c]) (simp add: replies_def greedy_def)
next
  case (Cons x xs)
  obtain q res where x: "x = (q, res)" by (cases x)
  let ?u = "w_user (conn_world c)"
  let ?bs = "response_bytes (srv_cfg srv) (date_now srv c) res"
  have date: "date_now srv c = srv_date srv ?u" by (simp add: date_now_def)
  obtain ns where ns: "tx (conn_io_of c) = map TxTake ns" "length (x # xs) \<le> length ns"
    "\<forall>n \<in> set ns. \<forall>y \<in> set (x # xs). length (response_bytes (srv_cfg srv) (srv_date srv ?u) (snd y)) \<le> n"
    and io: "\<not> tl_timed_out (conn_io_of c)" "writeBuffer (conn_io_of c) = []"
    using Cons.prems(4) by (auto simp: greedy_def)
  obtain n ns' where n: "ns = n # ns'" using ns(2) by (cases ns) auto
  have nbs: "length ?bs \<le> n" using ns(3) by (simp add: n x date)
  have view: "writeView (conn_io_of c) = []" using io(2) by (simp add: writeView_def)
  have room: "room_for srv res c"
    using Cons.prems(2) ns(1) n nbs io view by (auto simp: room_for_def accepts_def x date)
  have a: "answered srv q res" "input (conn_io_of c) = request_bytes q @ concat (map (\<lambda>x. request_bytes (fst x)) xs) @ rest"
    using Cons.prems(2,3) by (simp_all add: x)
  obtain c1 where serve: "serve_one srv c = Some (Go (), c1)" and ex: "exchanged srv res (concat (map (\<lambda>x. request_bytes (fst x)) xs) @ rest) c c1"
    and wait: "waiting srv c1"
    using turn_answers [OF assms(1) Cons.prems(1) a] room by blast
  have c1: "sent (conn_io_of c1) = outgoing c @ ?bs" "input (conn_io_of c1) = concat (map (\<lambda>x. request_bytes (fst x)) xs) @ rest"
    "w_user (conn_world c1) = ?u" "writeView (conn_io_of c1) = []" "writeBuffer (conn_io_of c1) = []"
    "tx (conn_io_of c1) = map TxTake ns'" "\<not> tl_timed_out (conn_io_of c1)"
    using ex ns(1) n nbs io view Cons.prems(1) by (simp_all add: exchanged_def Let_def waiting_def)
  have "greedy srv (w_user (conn_world c1)) xs (conn_io_of c1)"
    using c1 ns n by (auto simp: greedy_def intro!: exI [of _ ns'])
  from Cons.IH [OF wait _ c1(2) this] Cons.prems(2) c1(3)
  obtain c' where c': "run srv c1 = run srv c'" "waiting srv c'" "input (conn_io_of c') = rest"
    "writeBuffer (conn_io_of c') = []"
    "sent (conn_io_of c') = sent (conn_io_of c1) @ replies srv ?u xs" "w_user (conn_world c') = ?u" by auto
  have "sent (conn_io_of c1) = sent (conn_io_of c) @ ?bs" using c1(1) view by (simp add: outgoing_def)
  moreover have "run srv c = run srv c1" using run_turn [OF serve] Cons.prems(1) by (simp add: waiting_def)
  ultimately show ?case using c' by (intro exI [of _ c']) (simp add: replies_def x date)
qed

end
