(* ===== verification/Multipart.thy ===== *)
theory Multipart
  imports BodySources
begin

text \<open>
  Multipart form data: \<open>rukh/include/rukh/http/MultipartParser.hpp\<close>. The buffered reader over a request's body, the
  reader of one part, the parsers of a part's header, and the parser with its handlers.

  The lemmas show that a part is delivered exactly up to its boundary whatever the sizes of the reads, and what the code does on
  a body that ends too early: it is refused when little or too much of it is left, and otherwise the reader never returns.

  The value \<open>None\<close> of an operation is that it does not return, that it calls a handler that was moved away, or that it moves bytes
  from before the buffer.
\<close>

section \<open>The buffered reader\<close>

text \<open>\<open>mp_valid\<close> is the filled part of the buffer, \<open>mp_user\<close> what the handlers work on.\<close>

record ('s, 'u) mp_state =
  mp_stream :: body_stream
  mp_source :: 's
  mp_valid :: bytes
  mp_user :: 'u

type_synonym ('s, 'u, 'a) mp = "('s, 'u) mp_state \<Rightarrow> ('a result \<times> ('s, 'u) mp_state) option"
type_synonym 'u part_handler = "bytes \<Rightarrow> 'u \<Rightarrow> unit result \<times> 'u"

definition reader_read :: "server_config \<Rightarrow> 's body_read_fn \<Rightarrow> ('s, 'u, nat) mp" where
  "reader_read cfg readFn st =
     (case bs_read readFn (MULTIPART_BUFFER_SIZE cfg - length (mp_valid st)) (mp_stream st) (mp_source st) of
        None \<Rightarrow> None
      | Some (r, b, s) \<Rightarrow>
          let st1 = st\<lparr>mp_stream := b, mp_source := s\<rparr> in
          (case r of
             Inl e \<Rightarrow> Some (Inl e, st1)
           | Inr bs \<Rightarrow> Some (Inr (length bs), st1\<lparr>mp_valid := mp_valid st @ bs\<rparr>)))"

definition consumeBytes :: "nat \<Rightarrow> ('s, 'u) mp_state \<Rightarrow> ('s, 'u) mp_state" where
  "consumeBytes n st = st\<lparr>mp_valid := drop n (mp_valid st)\<rparr>"

definition call_handler :: "'u part_handler \<Rightarrow> bytes \<Rightarrow> ('s, 'u) mp_state \<Rightarrow> unit result \<times> ('s, 'u) mp_state" where
  "call_handler f bs st = (case f bs (mp_user st) of (r, u) \<Rightarrow> (r, st\<lparr>mp_user := u\<rparr>))"

section \<open>One part\<close>

definition findBoundary :: "bytes \<Rightarrow> bytes \<Rightarrow> (nat \<times> bool) option" where
  "findBoundary boundary span =
     (case find_sub boundary span of
        None \<Rightarrow> None
      | Some it \<Rightarrow>
          let boundaryEnd = it + length boundary in
          if length span - boundaryEnd < 2 then None
          else if span ! boundaryEnd = CHR ''-'' \<and> span ! (boundaryEnd + 1) = CHR ''-'' then Some (it, True)
          else if span ! boundaryEnd = CR \<and> span ! (boundaryEnd + 1) = LF then Some (it, False)
          else None)"

definition size_exceeded :: exn where
  "size_exceeded = serverException ''Request size limit exceeded'' 413"

text \<open>\<open>readAndDo\<close>, with its variable \<open>totalConsumed\<close>.\<close>

partial_function (option) readAndDo ::
  "server_config \<Rightarrow> 's body_read_fn \<Rightarrow> bytes \<Rightarrow> nat \<Rightarrow> 'u part_handler \<Rightarrow> nat \<Rightarrow> ('s, 'u) mp_state \<Rightarrow>
    ((nat \<times> bool) result \<times> ('s, 'u) mp_state) option" where
  "readAndDo cfg readFn boundary maxSize doPart totalConsumed st =
     (case reader_read cfg readFn st of
        None \<Rightarrow> None
      | Some (Inl e, st1) \<Rightarrow> Some (Inl e, st1)
      | Some (Inr n, st1) \<Rightarrow>
          let span = mp_valid st1; fullBoundarySize = length boundary + 2 in
          (case findBoundary boundary span of
             None \<Rightarrow>
               let k = sz_sub (length span) fullBoundarySize; totl = sz_add totalConsumed k in
               if totl > maxSize then Some (Inl size_exceeded, st1)
               else
                 (case call_handler doPart (take k span) st1 of
                    (Inl e, st2) \<Rightarrow> Some (Inl e, st2)
                  | (Inr _, st2) \<Rightarrow> readAndDo cfg readFn boundary maxSize doPart totl (consumeBytes k st2))
           | Some (endOfPart, end) \<Rightarrow>
               let endOfBoundary = endOfPart + fullBoundarySize; totl = sz_add totalConsumed endOfBoundary in
               if totl > maxSize then Some (Inl size_exceeded, st1)
               else
                 (case call_handler doPart (take endOfPart span) st1 of
                    (Inl e, st2) \<Rightarrow> Some (Inl e, st2)
                  | (Inr _, st2) \<Rightarrow> Some (Inr (totl, end), consumeBytes endOfBoundary st2))))"

text \<open>
  \<open>drainTillBoundary\<close> consumes before it looks at the limit: with a piece shorter than the boundary the difference wraps, and
  \<open>consumeBytes\<close> moves bytes from before its buffer.
\<close>

partial_function (option) drainTillBoundary ::
  "server_config \<Rightarrow> 's body_read_fn \<Rightarrow> bytes \<Rightarrow> nat \<Rightarrow> nat \<Rightarrow> ('s, 'u) mp_state \<Rightarrow>
    ((nat \<times> bool) result \<times> ('s, 'u) mp_state) option" where
  "drainTillBoundary cfg readFn boundary maxSize totalConsumed st =
     (case reader_read cfg readFn st of
        None \<Rightarrow> None
      | Some (Inl e, st1) \<Rightarrow> Some (Inl e, st1)
      | Some (Inr n, st1) \<Rightarrow>
          let span = mp_valid st1; fullBoundarySize = length boundary + 2 in
          (case findBoundary boundary span of
             None \<Rightarrow>
               if length span < fullBoundarySize then None
               else
                 let k = length span - fullBoundarySize; totl = sz_add totalConsumed k; st2 = consumeBytes k st1 in
                 if totl > maxSize then Some (Inl size_exceeded, st2)
                 else drainTillBoundary cfg readFn boundary maxSize totl st2
           | Some (endOfPart, end) \<Rightarrow>
               let endOfBoundary = endOfPart + fullBoundarySize; totl = sz_add totalConsumed endOfBoundary in
               if totl > maxSize then Some (Inl size_exceeded, st1)
               else Some (Inr (totl, end), consumeBytes endOfBoundary st1)))"

section \<open>The header of a part\<close>

text \<open>The lines of a header that ends in an empty line; every line ends in a line end.\<close>

function part_headers :: "string \<Rightarrow> headers \<Rightarrow> headers result" where
  "part_headers headerView hs =
     (if headerView = [] then Inr hs
      else
        (let (header, rest) = (case find_sub crlf headerView of
               None \<Rightarrow> (headerView, []) | Some i \<Rightarrow> (take i headerView, drop (i + 2) headerView)) in
         if header = [] then part_headers rest hs
         else
           (case find_char CHR '':'' header of
              None \<Rightarrow> Inl (serverException ''Malformed part header'' 400)
            | Some colon \<Rightarrow>
                let name = trim (toLowerCase (take colon header)); v = trim (drop (colon + 1) header) in
                if name = [] \<or> v = [] then Inl (serverException ''Malformed part header'' 400)
                else part_headers rest (hs @ [(name, v)]))))"
  by pat_completeness auto
termination
  by (relation "measure (\<lambda>(v, hs). length v)") (auto split: option.splits)

declare part_headers.simps [simp del]

text \<open>The parameters of \<open>Content-Disposition\<close>: form data, the name, and whether it is a file.\<close>

record disposition =
  formData :: bool
  partName :: string
  isFile :: bool

definition disposition_part :: "string \<Rightarrow> disposition \<Rightarrow> disposition result" where
  "disposition_part part d =
     (if part = ''form-data'' then Inr (d\<lparr>formData := True\<rparr>)
      else
        (case find_char CHR ''='' part of
           None \<Rightarrow> Inr d
         | Some eqpos \<Rightarrow>
             let paramName = trim (take eqpos part); paramValue = trim (drop (eqpos + 1) part) in
             if paramName = ''name'' then
               if paramValue = [] then Inl OutOfRange
               else Inr (d\<lparr>partName :=
                 (if length paramValue = 1 then [] else take (length paramValue - 2) (drop 1 paramValue))\<rparr>)
             else if paramName = ''filename'' then Inr (d\<lparr>isFile := True\<rparr>)
             else Inr d))"

function parse_disposition :: "string \<Rightarrow> disposition \<Rightarrow> disposition result" where
  "parse_disposition cdValue d =
     (if cdValue = [] then Inr d
      else
        (let (part, rest) = cut CHR '';'' cdValue in
         bind_result (disposition_part (trim part) d)
           (\<lambda>d'. parse_disposition (case rest of None \<Rightarrow> [] | Some r \<Rightarrow> r) d')))"
  by pat_completeness auto
termination
  by (relation "measure (\<lambda>(v, d). length v)") (auto dest!: sym [of "(_, _)" "cut _ _"] cut_shorter split: option.split)

declare parse_disposition.simps [simp del]

definition part_disposition :: "headers \<Rightarrow> disposition result" where
  "part_disposition hs =
     (case map_of hs ''content-disposition'' of
        None \<Rightarrow> Inl (serverException ''Malformed part header: No Content-Disposition'' 400)
      | Some cd \<Rightarrow>
          bind_result (parse_disposition cd \<lparr>formData = False, partName = [], isFile = False\<rparr>)
            (\<lambda>d. if \<not> formData d
               then Inl (serverException ''Content-Disposition must be form-data, others are not implemented'' 501)
               else if partName d = [] then Inl (serverException ''Multipart: No part name provided'' 400)
               else Inr d))"

section \<open>The parser\<close>

text \<open>A file handler is moved out of its slot when it is used.\<close>

record 'u multipart_parser =
  mp_contentLength :: nat
  mp_consumed :: nat
  mp_boundary :: bytes
  fieldHandlers :: "(string \<times> (string \<Rightarrow> 'u \<Rightarrow> unit result \<times> 'u)) list"
  multiFieldHandlers :: "(string \<times> (string list \<Rightarrow> 'u \<Rightarrow> unit result \<times> 'u)) list"
  fileHandlers :: "(string \<times> 'u part_handler option) list"

text \<open>The boundary after \<open>boundary=\<close>. When there is none, \<open>npos + 9\<close> wraps to 8 and the text from there on is taken.\<close>

definition boundary_of :: "string \<Rightarrow> bytes" where
  "boundary_of contentType =
     (let start = (case find_sub ''boundary='' contentType of Some i \<Rightarrow> i + 9 | None \<Rightarrow> 8);
          rest = drop start contentType
      in crlf @ ''--'' @ (case find_char CHR '';'' rest of Some k \<Rightarrow> take k rest | None \<Rightarrow> rest))"

definition new_multipart :: "server_config \<Rightarrow> http_request \<Rightarrow> 'u multipart_parser result" where
  "new_multipart cfg r =
     bind_result
       (case fst (getContentLength r) of
          Inl INVALID_CONTENT_LENGTH \<Rightarrow> Inl (serverException ''Invalid Content-Length'' 400)
        | Inl NO_CONTENT_LENGTH_HEADER \<Rightarrow>
            if find_sub ''chunked'' (toLowerCase (getHeaderLower r ''transfer-encoding'')) = None
            then Inl (serverException ''Content length or TE chunked required'' 411)
            else Inr (MAX_MULTIPART_TE_LENGTH cfg)
        | Inr n \<Rightarrow> if n > MAX_MULTIPART_CONTENT_LENGTH cfg then Inl size_exceeded else Inr n)
       (\<lambda>len.
         let contentType = getHeaderLower r ''content-type''; boundary = boundary_of contentType in
         if \<not> prefix ''multipart/form-data'' contentType
         then Inl (serverException ''Request is not multipart/form-data'' 415)
         else if boundary = [] then Inl (serverException ''Boundary for multipart not found'' 400)
         else if length boundary > MAX_MULTIPART_BOUNDARY_LENGTH cfg
         then Inl (serverException ''Boundary for multipart is too long'' 400)
         else Inr \<lparr>mp_contentLength = len, mp_consumed = 0, mp_boundary = boundary,
           fieldHandlers = [], multiFieldHandlers = [], fileHandlers = []\<rparr>)"

definition onField :: "string \<Rightarrow> (string \<Rightarrow> 'u \<Rightarrow> unit result \<times> 'u) \<Rightarrow> 'u multipart_parser \<Rightarrow> 'u multipart_parser" where
  "onField name h p = p\<lparr>fieldHandlers := fieldHandlers p @ [(name, h)]\<rparr>"

definition onMultiField :: "string \<Rightarrow> (string list \<Rightarrow> 'u \<Rightarrow> unit result \<times> 'u) \<Rightarrow> 'u multipart_parser \<Rightarrow> 'u multipart_parser" where
  "onMultiField name h p = p\<lparr>multiFieldHandlers := multiFieldHandlers p @ [(name, h)]\<rparr>"

definition onFile :: "string \<Rightarrow> 'u part_handler \<Rightarrow> 'u multipart_parser \<Rightarrow> 'u multipart_parser" where
  "onFile name h p = p\<lparr>fileHandlers := fileHandlers p @ [(name, Some h)]\<rparr>"

text \<open>The wrappers store into a variable of the caller, given by the function that sets it.\<close>

definition storeFieldValue :: "string \<Rightarrow> (string \<Rightarrow> 'u \<Rightarrow> 'u) \<Rightarrow> 'u multipart_parser \<Rightarrow> 'u multipart_parser" where
  "storeFieldValue name set_var = onField name (\<lambda>v u. (Inr (), set_var v u))"

definition storeFieldValues :: "string \<Rightarrow> (string \<Rightarrow> 'u \<Rightarrow> 'u) \<Rightarrow> 'u multipart_parser \<Rightarrow> 'u multipart_parser" where
  "storeFieldValues name push_back = onMultiField name (\<lambda>vs u. (Inr (), fold push_back vs u))"

definition mp_bind :: "('a result \<times> 't) option \<Rightarrow> ('a \<Rightarrow> 't \<Rightarrow> ('b result \<times> 't) option) \<Rightarrow> ('b result \<times> 't) option" where
  "mp_bind m f = (case m of None \<Rightarrow> None | Some (Inl e, s) \<Rightarrow> Some (Inl e, s) | Some (Inr x, s) \<Rightarrow> f x s)"

text \<open>The wait for the first boundary.\<close>

partial_function (option) await_first :: "server_config \<Rightarrow> 's body_read_fn \<Rightarrow> nat \<Rightarrow> bytes \<Rightarrow> ('s, 'u) mp_state \<Rightarrow>
    (bytes result \<times> ('s, 'u) mp_state) option" where
  "await_first cfg readFn firstBoundarySize span st =
     (if length span < firstBoundarySize then
        (case reader_read cfg readFn st of
           None \<Rightarrow> None
         | Some (Inl e, st1) \<Rightarrow> Some (Inl e, st1)
         | Some (Inr n, st1) \<Rightarrow> await_first cfg readFn firstBoundarySize (mp_valid st1) st1)
      else Some (Inr span, st))"

definition first_boundary :: "server_config \<Rightarrow> 's body_read_fn \<Rightarrow> bytes \<Rightarrow> ('s, 'u, unit) mp" where
  "first_boundary cfg readFn boundary st =
     mp_bind (await_first cfg readFn (length boundary) [] st) (\<lambda>span st1.
       let k = length boundary in
       if span ! (k - 1) \<noteq> LF \<or> span ! (k - 2) \<noteq> CR \<or> take (k - 2) span \<noteq> drop 2 boundary
       then Some (Inl (serverException ''Malformed multipart request: no initial boundary found'' 400), st1)
       else Some (Inr (), consumeBytes k st1))"

text \<open>The header of a part: the loop until its end is in the buffer, and its text.\<close>

partial_function (option) await_part_header :: "server_config \<Rightarrow> 's body_read_fn \<Rightarrow> ('s, 'u) mp_state \<Rightarrow>
    (nat result \<times> ('s, 'u) mp_state) option" where
  "await_part_header cfg readFn st =
     (case find_sub crlf2 (mp_valid st) of
        Some i \<Rightarrow> Some (Inr i, st)
      | None \<Rightarrow>
          if length (mp_valid st) > MAX_MULTIPART_PART_HEADER_SIZE cfg
          then Some (Inl (serverException ''Multipart part headers too large'' 400), st)
          else
            (case reader_read cfg readFn st of
               None \<Rightarrow> None
             | Some (Inl e, st1) \<Rightarrow> Some (Inl e, st1)
             | Some (Inr n, st1) \<Rightarrow>
                 if n = 0
                 then Some (Inl (serverException ''Malformed multipart request: Part headers not found or too large'' 400), st1)
                 else await_part_header cfg readFn st1))"

definition part_header :: "server_config \<Rightarrow> 's body_read_fn \<Rightarrow> ('s, 'u, string) mp" where
  "part_header cfg readFn st =
     mp_bind (reader_read cfg readFn st) (\<lambda>_ st1.
       mp_bind (await_part_header cfg readFn st1) (\<lambda>i st2.
         if i + 4 > MAX_MULTIPART_PART_HEADER_SIZE cfg
         then Some (Inl (serverException ''Multipart part headers too large'' 400), st2)
         else Some (Inr (take (i + 4) (mp_valid st2)), consumeBytes (i + 4) st2)))"

text \<open>The parts: \<open>values\<close> are those of the fields with several values, by name.\<close>

type_synonym multi_values = "(string \<times> string list) list"

fun push_value :: "string \<Rightarrow> string \<Rightarrow> multi_values \<Rightarrow> multi_values" where
  "push_value k v [] = [(k, [v])]"
| "push_value k v ((k', vs) # m) = (if k' = k then (k', vs @ [v]) # m else (k', vs) # push_value k v m)"

text \<open>What is left to do with a part once its header is known; the flag says that it was the last one.\<close>

definition take_handler :: "string \<Rightarrow> 'u multipart_parser \<Rightarrow> 'u multipart_parser" where
  "take_handler name p =
     p\<lparr>fileHandlers := (case find_idx (\<lambda>h. fst h = name) (fileHandlers p) of
        Some i \<Rightarrow> (fileHandlers p)[i := (name, None)] | None \<Rightarrow> fileHandlers p)\<rparr>"

definition file_part :: "server_config \<Rightarrow> 's body_read_fn \<Rightarrow> disposition \<Rightarrow> 'u multipart_parser \<times> multi_values \<Rightarrow>
    ('s, 'u, bool \<times> 'u multipart_parser \<times> multi_values) mp" where
  "file_part cfg readFn d pm st =
     (let (p, m) = pm; maxSize = MAX_MULTIPART_FILE_SIZE cfg in
      case map_of (fileHandlers p) (partName d) of
        Some None \<Rightarrow> None
      | Some (Some h) \<Rightarrow>
          mp_bind (readAndDo cfg readFn (mp_boundary p) maxSize h 0 st) (\<lambda>(n, end) st1.
            Some (Inr (end, (take_handler (partName d) p)\<lparr>mp_consumed := sz_add (mp_consumed p) n\<rparr>, m), st1))
      | None \<Rightarrow>
          mp_bind (drainTillBoundary cfg readFn (mp_boundary p) maxSize 0 st) (\<lambda>(n, end) st1.
            Some (Inr (end, if end then p else p\<lparr>mp_consumed := sz_add (mp_consumed p) n\<rparr>, m), st1)))"

text \<open>The value of a field is collected beside what the handlers work on.\<close>

definition collect :: "(string \<times> 'u) part_handler" where
  "collect bs vu = (Inr (), (fst vu @ bs, snd vu))"

definition with_value :: "('s, 'u) mp_state \<Rightarrow> ('s, string \<times> 'u) mp_state" where
  "with_value st = \<lparr>mp_stream = mp_stream st, mp_source = mp_source st, mp_valid = mp_valid st, mp_user = ([], mp_user st)\<rparr>"

definition without_value :: "('s, string \<times> 'u) mp_state \<Rightarrow> ('s, 'u) mp_state" where
  "without_value st = \<lparr>mp_stream = mp_stream st, mp_source = mp_source st, mp_valid = mp_valid st, mp_user = snd (mp_user st)\<rparr>"

definition field_part :: "server_config \<Rightarrow> 's body_read_fn \<Rightarrow> disposition \<Rightarrow> 'u multipart_parser \<times> multi_values \<Rightarrow>
    ('s, 'u, bool \<times> 'u multipart_parser \<times> multi_values) mp" where
  "field_part cfg readFn d pm st =
     (let (p, m) = pm in
      case readAndDo cfg readFn (mp_boundary p) (MAX_MULTIPART_FIELD_SIZE cfg) collect 0 (with_value st) of
        None \<Rightarrow> None
      | Some (Inl e, st1) \<Rightarrow> Some (Inl e, without_value st1)
      | Some (Inr (n, end), st1) \<Rightarrow>
          let st2 = without_value st1; v = fst (mp_user st1); p1 = p\<lparr>mp_consumed := sz_add (mp_consumed p) n\<rparr> in
          (case map_of (fieldHandlers p) (partName d) of
             Some h \<Rightarrow>
               (case call_handler h v st2 of
                  (Inl e, st3) \<Rightarrow> Some (Inl e, st3)
                | (Inr _, st3) \<Rightarrow> Some (Inr (end, p1, m), st3))
           | None \<Rightarrow>
               Some (Inr (end, p1, if map_of (multiFieldHandlers p) (partName d) \<noteq> None then push_value (partName d) v m else m), st2)))"

definition one_part :: "server_config \<Rightarrow> 's body_read_fn \<Rightarrow> 'u multipart_parser \<times> multi_values \<Rightarrow>
    ('s, 'u, bool \<times> 'u multipart_parser \<times> multi_values) mp" where
  "one_part cfg readFn pm st =
     mp_bind (part_header cfg readFn st) (\<lambda>text st1.
       case bind_result (part_headers text []) part_disposition of
         Inl e \<Rightarrow> Some (Inl e, st1)
       | Inr d \<Rightarrow>
           let pm1 = ((fst pm)\<lparr>mp_consumed := sz_add (mp_consumed (fst pm)) (length text)\<rparr>, snd pm) in
           if isFile d then file_part cfg readFn d pm1 st1 else field_part cfg readFn d pm1 st1)"

partial_function (option) parts_of :: "server_config \<Rightarrow> 's body_read_fn \<Rightarrow> nat \<Rightarrow> 'u multipart_parser \<times> multi_values \<Rightarrow>
    ('s, 'u) mp_state \<Rightarrow> (('u multipart_parser \<times> multi_values) result \<times> ('s, 'u) mp_state) option" where
  "parts_of cfg readFn partCount pm st =
     (if mp_consumed (fst pm) < mp_contentLength (fst pm) then
        if partCount + 1 > MAX_MULTIPART_PARTS cfg
        then Some (Inl (serverException ''Maximum number of multipart parts exceeded'' 413), st)
        else
          (case one_part cfg readFn pm st of
             None \<Rightarrow> None
           | Some (Inl e, st1) \<Rightarrow> Some (Inl e, st1)
           | Some (Inr (end, pm1), st1) \<Rightarrow>
               if end then Some (Inr pm1, st1) else parts_of cfg readFn (partCount + 1) pm1 st1)
      else Some (Inr pm, st))"

fun multi_loop :: "'u multipart_parser \<Rightarrow> multi_values \<Rightarrow> ('s, 'u, unit) mp" where
  "multi_loop p [] st = Some (Inr (), st)"
| "multi_loop p ((k, vs) # m) st =
     (case map_of (multiFieldHandlers p) k of
        None \<Rightarrow> multi_loop p m st
      | Some h \<Rightarrow>
          (case h vs (mp_user st) of
             (Inl e, u) \<Rightarrow> Some (Inl e, st\<lparr>mp_user := u\<rparr>)
           | (Inr _, u) \<Rightarrow> multi_loop p m (st\<lparr>mp_user := u\<rparr>)))"

text \<open>\<open>map_order\<close> is the order in which the unordered map of values is walked.\<close>

definition mp_go :: "server_config \<Rightarrow> (multi_values \<Rightarrow> multi_values) \<Rightarrow> 's body_read_fn \<Rightarrow> 'u multipart_parser \<Rightarrow> ('s, 'u, unit) mp" where
  "mp_go cfg map_order readFn p st =
     mp_bind (first_boundary cfg readFn (mp_boundary p) st) (\<lambda>_ st1.
       mp_bind (parts_of cfg readFn 0 (p\<lparr>mp_consumed := mp_consumed p + length (mp_boundary p)\<rparr>, []) st1) (\<lambda>(p1, m) st2.
         if mp_consumed p1 > mp_contentLength p1 then Some (Inl size_exceeded, st2)
         else multi_loop p1 (map_order m) st2))"

section \<open>Lemmas: the boundary\<close>

lemma findBoundary_Some:
  assumes "findBoundary b span = Some (i, end)"
  shows "find_sub b span = Some i \<and> i + length b + 2 \<le> length span
    \<and> span = take i span @ b @ (if end then ''--'' else crlf) @ drop (i + length b + 2) span"
proof -
  have f: "find_sub b span = Some i" and l: "2 \<le> length span - (i + length b)"
    and two: "span ! (i + length b) = (if end then CHR ''-'' else CR)" "span ! (i + length b + 1) = (if end then CHR ''-'' else LF)"
    using assms by (auto simp: findBoundary_def Let_def split: option.splits if_splits)
  obtain t where t: "drop i span = b @ t" using find_sub_SomeD [OF f] by (auto simp: prefix_def)
  define pre where "pre = take i span"
  have i: "i = length pre" using find_sub_le [OF f] by (simp add: pre_def)
  have span: "span = pre @ b @ t" using t append_take_drop_id [of i span] by (simp add: pre_def)
  have nth: "span ! (i + length b + j) = t ! j" for j unfolding span i by (simp add: nth_append)
  have "2 \<le> length t" using l by (simp add: span i)
  then obtain x y u where u: "t = x # y # u" by (cases t; cases "tl t") auto
  then have "x = (if end then CHR ''-'' else CR)" "y = (if end then CHR ''-'' else LF)"
    using two nth [of 0] nth [of 1] by simp_all
  then have t2: "t = (if end then ''--'' else crlf) @ u" using u by simp
  have d: "drop (i + length b + 2) span = u" unfolding span i using u by simp
  have "length t = 2 + length u" using u by simp
  then have le: "i + length b + 2 \<le> length span" unfolding span i by simp
  have "span = pre @ b @ (if end then ''--'' else crlf) @ u" using span t2 by simp
  then have "span = take i span @ b @ (if end then ''--'' else crlf) @ drop (i + length b + 2) span"
    unfolding d pre_def .
  then show ?thesis using f le by blast
qed

text \<open>Every occurrence of the boundary in the text is a delimiter.\<close>

definition delimited :: "bytes \<Rightarrow> bytes \<Rightarrow> bool" where
  "delimited b s \<longleftrightarrow> (\<forall>i. prefix b (drop i s) \<longrightarrow> prefix ''--'' (drop (i + length b) s) \<or> prefix crlf (drop (i + length b) s))"

lemma delimited_drop:
  assumes "delimited b s"
  shows "delimited b (drop k s)"
  unfolding delimited_def drop_drop
proof (intro allI impI)
  fix i assume "prefix b (drop (i + k) s)"
  then have "prefix ''--'' (drop (i + k + length b) s) \<or> prefix crlf (drop (i + k + length b) s)"
    using assms by (simp add: delimited_def)
  then show "prefix ''--'' (drop (i + length b + k) s) \<or> prefix crlf (drop (i + length b + k) s)"
    by (simp add: add.commute add.left_commute)
qed

text \<open>What is not found in the buffer does not begin before its last bytes.\<close>

lemma prefix_in_front:
  assumes "prefix b (drop i (s @ t))" "i + length b \<le> length s"
  shows "prefix b (drop i s)"
proof -
  have "prefix b (drop i s @ t)" using assms by simp
  moreover have "length b \<le> length (drop i s)" using assms(2) by simp
  ultimately show ?thesis by (metis prefix_length_prefix prefixI)
qed

lemma findBoundary_None:
  assumes "findBoundary b span = None" "delimited b (span @ t)" "i + length b + 2 \<le> length span"
  shows "\<not> prefix b (drop i (span @ t))"
proof
  assume "prefix b (drop i (span @ t))"
  then have p: "prefix b (drop i span)" using prefix_in_front assms(3) by fastforce
  then obtain j where j: "find_sub b span = Some j" "j \<le> i" using find_sub_exists by blast
  have "prefix b (drop j span)" using find_sub_SomeD [OF j(1)] by simp
  then have "prefix b (drop j (span @ t))" using j assms(3) by (simp add: prefix_prefix)
  then have suf: "prefix ''--'' (drop (j + length b) (span @ t)) \<or> prefix crlf (drop (j + length b) (span @ t))"
    using assms(2) by (simp add: delimited_def)
  obtain x y u where u: "drop (j + length b) span = x # y # u"
    using j(2) assms(3) by (cases "drop (j + length b) span"; cases "tl (drop (j + length b) span)")
      (auto simp: drop_eq_Nil dest: arg_cong [of _ _ length])
  then have xy: "x = CHR ''-'' \<and> y = CHR ''-'' \<or> x = CR \<and> y = LF" using suf j assms(3) by auto
  have "span ! (j + length b + k) = drop (j + length b) span ! k" for k
    using j(2) assms(3) by (intro nth_drop [symmetric]) simp
  from this [of 0] this [of 1] have "span ! (j + length b) = x" "span ! Suc (j + length b) = y" by (simp_all add: u)
  then show False using assms(1) j xy assms(3) by (auto simp: findBoundary_def Let_def split: if_splits)
qed

section \<open>Lemmas: reading a part\<close>

lemma call_handler_frame:
  "call_handler h bs st = (r, st') \<Longrightarrow> mp_stream st' = mp_stream st \<and> mp_source st' = mp_source st \<and> mp_valid st' = mp_valid st"
  by (auto simp: call_handler_def split: prod.splits)

text \<open>Sizes that leave room for the boundary and do not wrap.\<close>

definition sizes_ok :: "server_config \<Rightarrow> bytes \<Rightarrow> nat \<Rightarrow> bool" where
  "sizes_ok cfg b maxSize \<longleftrightarrow> length b + 2 < MULTIPART_BUFFER_SIZE cfg \<and> maxSize + MULTIPART_BUFFER_SIZE cfg + length b + 2 < sz_limit"

lemma short_span_wraps:
  assumes "l < f" "maxSize + f < sz_limit"
  shows "maxSize < sz_add 0 (sz_sub l f)"
proof -
  have "sz_sub l f = sz_limit - (f - l)" using assms by (simp add: sz_sub_def)
  then show ?thesis using assms by (simp add: sz_add_def)
qed

context body_source
begin

definition content :: "('s, 'u) mp_state \<Rightarrow> bytes" where
  "content st = mp_valid st @ left (mp_stream st) (mp_source st)"

definition mp_good :: "('s, 'u) mp_state \<Rightarrow> bool" where
  "mp_good st \<longleftrightarrow> good (mp_stream st) (mp_source st)"

lemma reader_read_content:
  assumes "reader_read cfg readFn st = Some (Inr n, st1)" "mp_good st" "length (mp_valid st) < MULTIPART_BUFFER_SIZE cfg"
  shows "content st1 = content st \<and> mp_good st1 \<and> mp_user st1 = mp_user st \<and> prefix (mp_valid st) (mp_valid st1)
    \<and> length (mp_valid st1) = length (mp_valid st) + n \<and> length (mp_valid st1) \<le> MULTIPART_BUFFER_SIZE cfg
    \<and> (n = 0 \<longrightarrow> left (mp_stream st1) (mp_source st1) = [])"
proof -
  obtain bs b s where r: "bs_read readFn (MULTIPART_BUFFER_SIZE cfg - length (mp_valid st)) (mp_stream st) (mp_source st) = Some (Inr bs, b, s)"
    and st1: "st1 = st\<lparr>mp_stream := b, mp_source := s, mp_valid := mp_valid st @ bs\<rparr>" "n = length bs"
    using assms(1) by (auto simp: reader_read_def Let_def split: option.splits sum.splits prod.splits)
  have "0 < MULTIPART_BUFFER_SIZE cfg - length (mp_valid st)" using assms(3) by simp
  from read_delivers [OF _ this r] assms(2,3) show ?thesis
    by (auto simp: st1 content_def mp_good_def)
qed

text \<open>What reading a part is to achieve: the text up to the first boundary goes to the handler, the rest is left.\<close>

definition part_read :: "bytes \<Rightarrow> ('u \<Rightarrow> bytes) \<Rightarrow> nat \<Rightarrow> nat \<Rightarrow> ('s, 'u) mp_state \<Rightarrow> nat \<Rightarrow> bool \<Rightarrow> ('s, 'u) mp_state \<Rightarrow> bool" where
  "part_read b got maxSize totl st totl' end st' \<longleftrightarrow>
     (\<exists>p. content st = p @ b @ (if end then ''--'' else crlf) @ content st' \<and> find_sub b (content st) = Some (length p)
       \<and> got (mp_user st') = got (mp_user st) @ p \<and> totl' = totl + length p + length b + 2 \<and> totl' \<le> maxSize \<and> mp_good st')"

lemma part_read_step:
  assumes "part_read b got maxSize (totl + k) st2 totl' end st'" "content st = d @ content st2" "length d = k"
    and "\<And>i. i < k \<Longrightarrow> \<not> prefix b (drop i (content st))" "got (mp_user st2) = got (mp_user st) @ d"
  shows "part_read b got maxSize totl st totl' end st'"
proof -
  obtain p where p: "content st2 = p @ b @ (if end then ''--'' else crlf) @ content st'" "find_sub b (content st2) = Some (length p)"
    "got (mp_user st') = got (mp_user st2) @ p" "totl' = totl + k + length p + length b + 2" "totl' \<le> maxSize" "mp_good st'"
    using assms(1) by (auto simp: part_read_def)
  have "find_sub b (content st) = Some (length (d @ p))"
  proof (rule find_sub_eqI)
    show "prefix b (drop (length (d @ p)) (content st))" using p(1) assms(2) by simp
    fix j assume j: "j < length (d @ p)"
    show "\<not> prefix b (drop j (content st))"
    proof (cases "j < k")
      case False
      then have "drop j (content st) = drop (j - k) (content st2)" using assms(2,3) by simp
      moreover have "j - k < length p" using j False assms(3) by auto
      ultimately show ?thesis using find_sub_first [OF p(2)] by simp
    qed (rule assms(4))
  qed
  then show ?thesis using p assms(2,3,5) unfolding part_read_def by (intro exI [of _ "d @ p"]) auto
qed

definition part_pre :: "server_config \<Rightarrow> bytes \<Rightarrow> nat \<Rightarrow> nat \<Rightarrow> ('s, 'u) mp_state \<Rightarrow> bool" where
  "part_pre cfg b maxSize totl st \<longleftrightarrow> mp_good st \<and> delimited b (content st) \<and> sizes_ok cfg b maxSize
     \<and> length (mp_valid st) < MULTIPART_BUFFER_SIZE cfg \<and> (totl = 0 \<or> length b + 2 \<le> length (mp_valid st)) \<and> totl \<le> maxSize"

lemma readAndDo_delivers:
  assumes h: "\<And>bs u. fst (h bs u) = Inr () \<and> got (snd (h bs u)) = got u @ bs"
    and pre: "part_pre cfg b maxSize totl st" and y: "readAndDo cfg readFn b maxSize h totl st = Some (Inr (totl', end), st')"
  shows "part_read b got maxSize totl st totl' end st'"
proof -
  have "rf = readFn \<longrightarrow> h' = h \<longrightarrow> part_pre cfg b maxSize totl st \<longrightarrow> y = (Inr (totl', end), st') \<longrightarrow>
      part_read b got maxSize totl st totl' end st'"
    if "readAndDo cfg rf b maxSize h' totl st = Some y" for rf h' y
  proof (rule readAndDo.raw_induct [where P = "\<lambda>cfg rf b maxSize h' totl st y. rf = readFn \<longrightarrow> h' = h \<longrightarrow>
      part_pre cfg b maxSize totl st \<longrightarrow> y = (Inr (totl', end), st') \<longrightarrow> part_read b got maxSize totl st totl' end st'", OF _ that], goal_cases)
    case (1 rec cfg rf b maxSize h' totl st y)
    note body = 1(2)
    show ?case
    proof (intro impI)
      assume rf: "rf = readFn" "h' = h" and pre: "part_pre cfg b maxSize totl st" and y: "y = (Inr (totl', end), st')"
      let ?f = "length b + 2"
      have sz: "?f < MULTIPART_BUFFER_SIZE cfg" "maxSize + MULTIPART_BUFFER_SIZE cfg + ?f < sz_limit"
        using pre by (auto simp: part_pre_def sizes_ok_def)
      obtain n st1 where rd: "reader_read cfg readFn st = Some (Inr n, st1)"
        using body rf y by (auto split: option.splits sum.splits)
      have room: "length (mp_valid st) < MULTIPART_BUFFER_SIZE cfg" using pre by (simp add: part_pre_def)
      have good: "mp_good st" using pre by (simp add: part_pre_def)
      note c = reader_read_content [OF rd good room]
      have del: "delimited b (content st1)" using c pre by (simp add: part_pre_def)
      let ?span = "mp_valid st1"
      have h': "call_handler h bs s = (Inr (), s\<lparr>mp_user := snd (h bs (mp_user s))\<rparr>)" for bs s
        using h [of bs "mp_user s"] by (cases "h bs (mp_user s)") (simp add: call_handler_def)
      show "part_read b got maxSize totl st totl' end st'"
      proof (cases "findBoundary b ?span")
        case None
        define k where "k = sz_sub (length ?span) ?f"
        define st2 where "st2 = consumeBytes k (st1\<lparr>mp_user := snd (h (take k ?span) (mp_user st1))\<rparr>)"
        have lim: "\<not> sz_add totl k > maxSize"
          using body rf rd None y by (auto simp: Let_def k_def)
        have long: "?f \<le> length ?span"
        proof (rule ccontr)
          assume "\<not> ?f \<le> length ?span"
          then have "totl = 0" using pre c by (auto simp: part_pre_def)
          then show False using lim short_span_wraps [of "length ?span" ?f maxSize] \<open>\<not> ?f \<le> length ?span\<close> sz by (simp add: k_def)
        qed
        then have k: "k = length ?span - ?f" using c sz by (simp add: k_def sz_simps)
        have tot: "sz_add totl k = totl + k" using c k sz pre by (auto simp: part_pre_def intro!: sz_add_nowrap)
        have rec: "rec cfg readFn b maxSize h (totl + k) st2 = Some y"
        proof -
          have kk: "sz_sub (length ?span) (Suc (Suc (length b))) = k" by (simp add: k_def)
          show ?thesis using body rf rd None lim by (simp add: Let_def h' st2_def kk tot)
        qed
        have split: "content st1 = take k ?span @ content st2"
          by (simp add: content_def st2_def consumeBytes_def)
        have "mp_valid st2 = drop k ?span" by (simp add: st2_def consumeBytes_def)
        then have v2: "length (mp_valid st2) = ?f" using long k by simp
        have "delimited b (content st2)"
        proof -
          have "content st2 = drop k (content st1)" using long k by (simp add: split)
          then show ?thesis using delimited_drop [OF del] by simp
        qed
        moreover have "mp_good st2" using c by (simp add: mp_good_def st2_def consumeBytes_def)
        ultimately have "part_pre cfg b maxSize (totl + k) st2"
          using pre v2 sz lim tot by (auto simp: part_pre_def)
        then have IH: "part_read b got maxSize (totl + k) st2 totl' end st'" using 1(1) [OF rec] y by blast
        have noprefix: "\<not> prefix b (drop i (content st))" if "i < k" for i
        proof -
          have "\<not> prefix b (drop i (?span @ left (mp_stream st1) (mp_source st1)))"
            using findBoundary_None [OF None] del that long k by (simp add: content_def)
          moreover have "content st = ?span @ left (mp_stream st1) (mp_source st1)" using c by (simp add: content_def)
          ultimately show ?thesis by simp
        qed
        have "content st = take k ?span @ content st2" using c split by simp
        moreover have "length (take k ?span) = k" using k by simp
        moreover have "got (mp_user st2) = got (mp_user st) @ take k ?span" using c h by (simp add: st2_def consumeBytes_def)
        ultimately show ?thesis using part_read_step [OF IH] noprefix by blast
      next
        case (Some p)
        obtain i e where p: "p = (i, e)" by (cases p)
        note fb = findBoundary_Some [OF Some [unfolded p]]
        have "totl \<le> maxSize" using pre by (simp add: part_pre_def)
        moreover have "i + ?f \<le> MULTIPART_BUFFER_SIZE cfg" using fb c by linarith
        ultimately have tot: "sz_add totl (i + ?f) = totl + (i + ?f)"
          using sz by (intro sz_add_nowrap) linarith
        define st2 where "st2 = consumeBytes (i + ?f) (st1\<lparr>mp_user := snd (h (take i ?span) (mp_user st1))\<rparr>)"
        have r: "totl' = totl + (i + ?f)" "end = e" "st' = st2" "totl' \<le> maxSize"
          using body rf rd Some p y tot by (auto simp: Let_def h' st2_def split: if_splits)
        have cont: "content st = take i ?span @ b @ (if e then ''--'' else crlf) @ content st2"
        proof -
          have "content st = ?span @ left (mp_stream st1) (mp_source st1)" using c by (simp add: content_def)
          also have "?span = take i ?span @ b @ (if e then ''--'' else crlf) @ drop (i + ?f) ?span" using fb by (simp add: add.assoc)
          finally show ?thesis by (simp add: content_def st2_def consumeBytes_def)
        qed
        have "content st = ?span @ left (mp_stream st1) (mp_source st1)" using c by (simp add: content_def)
        moreover have "find_sub b ?span = Some i" using fb by blast
        then have "find_sub b (?span @ left (mp_stream st1) (mp_source st1)) = Some i" by (rule find_sub_append_Some)
        ultimately have "find_sub b (content st) = Some i" by (simp only:)
        moreover have "length (take i ?span) = i" using fb by simp
        moreover have "got (mp_user st2) = got (mp_user st) @ take i ?span" using h c by (simp add: st2_def consumeBytes_def)
        moreover have "mp_good st2" using c by (simp add: mp_good_def st2_def consumeBytes_def)
        ultimately show ?thesis unfolding part_read_def using r cont by (intro exI [of _ "take i ?span"]) auto
      qed
    qed
  qed
  from this [OF y] pre show ?thesis by simp
qed

text \<open>While a boundary is in the content the loop ends: a read that brings nothing has the whole content in the buffer.\<close>

lemma readAndDo_returns:
  assumes h: "\<And>bs u. fst (h bs u) = Inr ()"
    and "part_pre cfg b maxSize totl st" "prefix b (drop i (content st))" "i < length (content st)"
  shows "readAndDo cfg readFn b maxSize h totl st \<noteq> None"
  using assms(2-)
proof (induction "length (left (mp_stream st) (mp_source st))" arbitrary: st totl i rule: less_induct)
  case less
  let ?f = "length b + 2"
  have pre: "mp_good st" "delimited b (content st)" "?f < MULTIPART_BUFFER_SIZE cfg" "length (mp_valid st) < MULTIPART_BUFFER_SIZE cfg"
    "maxSize + MULTIPART_BUFFER_SIZE cfg + ?f < sz_limit" "totl \<le> maxSize" "totl = 0 \<or> ?f \<le> length (mp_valid st)"
    using less.prems(1) by (auto simp: part_pre_def sizes_ok_def)
  have reads: "bs_read readFn n (mp_stream st) (mp_source st) \<noteq> None" if "0 < n" for n
  proof (cases "exhausted (mp_stream st)")
    case False
    then have "readFn n (remaining (mp_stream st)) (mp_source st) \<noteq> None" using pre(1) returns that by (simp add: good_def mp_good_def)
    then show ?thesis using False by (auto simp: bs_read_def Let_def split: sum.splits)
  qed (simp add: bs_read_def)
  obtain r st1 where rd: "reader_read cfg readFn st = Some (r, st1)"
    using pre(4) reads [of "MULTIPART_BUFFER_SIZE cfg - length (mp_valid st)"]
    by (cases "reader_read cfg readFn st") (auto simp: reader_read_def Let_def split: option.splits sum.splits prod.splits)
  show ?case
  proof (cases "\<exists>n. r = Inr n \<and> findBoundary b (mp_valid st1) = None \<and> \<not> sz_add totl (sz_sub (length (mp_valid st1)) ?f) > maxSize")
    case False
    then show ?thesis using rd h
      by (subst readAndDo.simps) (auto simp: Let_def call_handler_def split: sum.splits option.splits prod.splits)
  next
    case True
    then obtain n where r: "r = Inr n" and nb: "findBoundary b (mp_valid st1) = None"
      and lim: "\<not> sz_add totl (sz_sub (length (mp_valid st1)) ?f) > maxSize" by blast
    note c = reader_read_content [OF rd [unfolded r] pre(1) pre(4)]
    define k where "k = length (mp_valid st1) - ?f"
    have long: "?f \<le> length (mp_valid st1)"
      using pre(7) c lim short_span_wraps [of "length (mp_valid st1)" ?f maxSize] pre(5) by fastforce
    then have k: "sz_sub (length (mp_valid st1)) ?f = k" "sz_add totl k = totl + k"
      using c pre(3,5,6) by (auto simp: k_def sz_simps intro!: sz_add_nowrap)
    define st2 where "st2 = consumeBytes k (st1\<lparr>mp_user := snd (h (take k (mp_valid st1)) (mp_user st1))\<rparr>)"
    have step: "readAndDo cfg readFn b maxSize h totl st = readAndDo cfg readFn b maxSize h (totl + k) st2"
    proof -
      have "call_handler h (take k (mp_valid st1)) st1 = (Inr (), st1\<lparr>mp_user := snd (h (take k (mp_valid st1)) (mp_user st1))\<rparr>)"
        using h [of "take k (mp_valid st1)" "mp_user st1"] by (cases "h (take k (mp_valid st1)) (mp_user st1)") (simp add: call_handler_def)
      then show ?thesis using lim rd r nb k
        by (subst readAndDo.simps) (simp add: Let_def st2_def)
    qed
    have cont: "content st = mp_valid st1 @ left (mp_stream st1) (mp_source st1)" using c by (simp add: content_def)
    have c2: "content st2 = drop k (content st)" "mp_valid st2 = drop k (mp_valid st1)"
      "left (mp_stream st2) (mp_source st2) = left (mp_stream st1) (mp_source st1)"
      using long by (simp_all add: st2_def consumeBytes_def cont k_def) (simp add: content_def)
    have noprefix: "\<not> prefix b (drop j (content st))" if "j + ?f \<le> length (mp_valid st1)" for j
      using findBoundary_None [OF nb, of "left (mp_stream st1) (mp_source st1)" j] pre(2) that by (simp add: cont)
    have "length b + i + 2 \<le> length (content st)"
    proof -
      have "prefix ''--'' (drop (i + length b) (content st)) \<or> prefix crlf (drop (i + length b) (content st))"
        using pre(2) less.prems(2) by (simp add: delimited_def)
      then have "2 \<le> length (drop (i + length b) (content st))" by (auto dest: prefix_length_le)
      then show ?thesis by simp
    qed
    then have tail: "left (mp_stream st1) (mp_source st1) \<noteq> []" using noprefix [of i] less.prems(2) by (auto simp: cont)
    then have n: "0 < n" using c by (cases n) auto
    have "length (mp_valid st) + length (left (mp_stream st) (mp_source st))
        = length (mp_valid st1) + length (left (mp_stream st1) (mp_source st1))"
      using arg_cong [OF cont, of length] by (simp add: content_def)
    then have "length (left (mp_stream st2) (mp_source st2)) < length (left (mp_stream st) (mp_source st))"
      using n c by (simp add: c2(3))
    moreover have ki: "k \<le> i"
    proof (rule ccontr)
      assume "\<not> k \<le> i"
      then have "i + ?f \<le> length (mp_valid st1)" using long by (simp add: k_def)
      then show False using noprefix less.prems(2) by blast
    qed
    then have "prefix b (drop (i - k) (content st2))" "i - k < length (content st2)"
      using less.prems(2,3) c2 by simp_all
    moreover have "part_pre cfg b maxSize (totl + k) st2"
      using pre c c2 lim k delimited_drop [OF pre(2)] long
      by (auto simp: part_pre_def sizes_ok_def k_def mp_good_def st2_def consumeBytes_def)
    ultimately show ?thesis using less.hyps step by simp
  qed
qed

end

text \<open>A first piece shorter than the boundary is refused, whatever follows.\<close>

lemma short_piece_refused:
  assumes "reader_read cfg readFn st = Some (Inr n, st1)" "length (mp_valid st1) < length b + 2"
    "maxSize + length b + 2 < sz_limit"
  shows "readAndDo cfg readFn b maxSize h 0 st = Some (Inl size_exceeded, st1)"
proof -
  have "findBoundary b (mp_valid st1) = None"
    using assms(2) findBoundary_Some [of b "mp_valid st1"] by (cases "findBoundary b (mp_valid st1)") fastforce+
  moreover have "maxSize < sz_add 0 (sz_sub (length (mp_valid st1)) (length b + 2))"
    by (rule short_span_wraps) (use assms in auto)
  ultimately show ?thesis using assms(1) by (simp add: readAndDo.simps [of cfg readFn b maxSize h 0 st] Let_def)
qed

text \<open>A body that ends without a boundary: the reader asks the exhausted stream forever.\<close>

lemma reader_read_exhausted:
  "exhausted (mp_stream st) \<Longrightarrow> reader_read cfg readFn st = Some (Inr 0, st)"
  by (simp add: reader_read_def bs_read_def Let_def)

definition drained :: "bytes \<Rightarrow> ('s, 'u) mp_state \<Rightarrow> bool" where
  "drained b st \<longleftrightarrow> exhausted (mp_stream st) \<and> find_sub b (mp_valid st) = None \<and> length (mp_valid st) = length b + 2"

lemma readAndDo_hangs:
  assumes "drained b st" "totl \<le> maxSize" "maxSize < sz_limit" "length b + 2 < sz_limit"
    and h: "\<And>bs u. fst (h bs u) = Inr ()"
  shows "readAndDo cfg readFn b maxSize h totl st = None"
proof (rule ccontr)
  assume "readAndDo cfg readFn b maxSize h totl st \<noteq> None"
  then obtain y where y: "readAndDo cfg readFn b maxSize h totl st = Some y" by blast
  have "\<not> (h' = h \<and> drained b st \<and> totl \<le> maxSize \<and> maxSize < sz_limit \<and> length b + 2 < sz_limit)"
    if "readAndDo cfg readFn b maxSize h' totl st = Some y" for h'
  proof (rule readAndDo.raw_induct [where P = "\<lambda>cfg rf b maxSize h' totl st y.
      \<not> (h' = h \<and> drained b st \<and> totl \<le> maxSize \<and> maxSize < sz_limit \<and> length b + 2 < sz_limit)", OF _ that], goal_cases)
    case (1 rec cfg rf b maxSize h' totl st y)
    show ?case
    proof
      assume d: "h' = h \<and> drained b st \<and> totl \<le> maxSize \<and> maxSize < sz_limit \<and> length b + 2 < sz_limit"
      then have rd: "reader_read cfg rf st = Some (Inr 0, st)" by (intro reader_read_exhausted) (simp add: drained_def)
      have nf: "findBoundary b (mp_valid st) = None" using d by (simp add: drained_def findBoundary_def)
      have k: "sz_sub (length (mp_valid st)) (length b + 2) = 0" "sz_add totl 0 = totl"
        using d by (simp_all add: drained_def sz_simps)
      let ?st = "consumeBytes 0 (st\<lparr>mp_user := snd (h (take 0 (mp_valid st)) (mp_user st))\<rparr>)"
      have c: "call_handler h (take 0 (mp_valid st)) st = (Inr (), st\<lparr>mp_user := snd (h (take 0 (mp_valid st)) (mp_user st))\<rparr>)"
        using h [of "take 0 (mp_valid st)" "mp_user st"] by (cases "h (take 0 (mp_valid st)) (mp_user st)") (simp add: call_handler_def)
      have r: "rec cfg rf b maxSize h' totl ?st = Some y"
        using 1(2) d c unfolding rd option.case prod.case sum.case Let_def nf k by simp
      have "drained b ?st" using d by (simp add: drained_def consumeBytes_def)
      then show False using 1(1) [OF r] d by blast
    qed
  qed
  from this [OF y] show False using assms by blast
qed

text \<open>So the first step decides: what is too short or too long is refused, and for everything else the reader does not return.\<close>

lemma readAndDo_exhausted:
  assumes "exhausted (mp_stream st)" "find_sub b (mp_valid st) = None"
    and "maxSize + length b + 2 < sz_limit" "length (mp_valid st) < sz_limit"
    and h: "\<And>bs u. fst (h bs u) = Inr ()"
  shows "readAndDo cfg readFn b maxSize h 0 st =
    (if length (mp_valid st) < length b + 2 \<or> maxSize < length (mp_valid st) - (length b + 2) then Some (Inl size_exceeded, st) else None)"
proof -
  let ?k = "length (mp_valid st) - (length b + 2)"
  have rd: "reader_read cfg readFn st = Some (Inr 0, st)" by (rule reader_read_exhausted [OF assms(1)])
  have nf: "findBoundary b (mp_valid st) = None" using assms(2) by (simp add: findBoundary_def)
  show ?thesis
  proof (cases "length (mp_valid st) < length b + 2")
    case True
    then show ?thesis using short_piece_refused [OF rd] assms(3) by simp
  next
    case False
    then have k: "sz_sub (length (mp_valid st)) (length b + 2) = ?k" "sz_add 0 ?k = ?k" using assms(4) by (simp_all add: sz_simps)
    let ?st = "consumeBytes ?k (st\<lparr>mp_user := snd (h (take ?k (mp_valid st)) (mp_user st))\<rparr>)"
    have c: "call_handler h (take ?k (mp_valid st)) st = (Inr (), st\<lparr>mp_user := snd (h (take ?k (mp_valid st)) (mp_user st))\<rparr>)"
      using h [of "take ?k (mp_valid st)" "mp_user st"] by (cases "h (take ?k (mp_valid st)) (mp_user st)") (simp add: call_handler_def)
    have step: "readAndDo cfg readFn b maxSize h 0 st =
        (if maxSize < ?k then Some (Inl size_exceeded, st) else readAndDo cfg readFn b maxSize h ?k ?st)"
      using rd nf k c by (subst readAndDo.simps) (simp add: Let_def)
    have "find_sub b (drop ?k (mp_valid st)) = None"
    proof (rule ccontr)
      assume "find_sub b (drop ?k (mp_valid st)) \<noteq> None"
      then obtain i where i: "find_sub b (drop ?k (mp_valid st)) = Some i" by blast
      then have "prefix b (drop (?k + i) (mp_valid st))" using find_sub_SomeD [OF i] by (simp add: add.commute)
      then show False using find_sub_None [OF assms(2)] by blast
    qed
    then have "drained b ?st" using False assms(1) by (simp add: drained_def consumeBytes_def)
    then have "readAndDo cfg readFn b maxSize h ?k ?st = None" if "\<not> maxSize < ?k"
      using readAndDo_hangs [of b ?st ?k maxSize h cfg readFn] that assms(3) h by simp
    then show ?thesis using step False by simp
  qed
qed

lemma short_drain_undefined:
  assumes "reader_read cfg readFn st = Some (Inr n, st1)" "findBoundary b (mp_valid st1) = None" "length (mp_valid st1) < length b + 2"
  shows "drainTillBoundary cfg readFn b maxSize totl st = None"
  using assms by (subst drainTillBoundary.simps) (simp add: Let_def)

lemma await_first_hangs:
  assumes "exhausted (mp_stream st)" "length (mp_valid st) < k" "length span < k"
  shows "await_first cfg readFn k span st = None"
proof (rule ccontr)
  assume "await_first cfg readFn k span st \<noteq> None"
  then obtain y where y: "await_first cfg readFn k span st = Some y" by blast
  have "\<not> (exhausted (mp_stream st) \<and> length (mp_valid st) < k \<and> length span < k)"
  proof (rule await_first.raw_induct [where P = "\<lambda>cfg rf k span st y.
      \<not> (exhausted (mp_stream st) \<and> length (mp_valid st) < k \<and> length span < k)", OF _ y], goal_cases)
    case (1 rec cfg rf k span st y)
    show ?case
    proof
      assume d: "exhausted (mp_stream st) \<and> length (mp_valid st) < k \<and> length span < k"
      then have "rec cfg rf k (mp_valid st) st = Some y" using 1(2) by (simp add: reader_read_exhausted)
      from 1(1) [OF this] show False using d by blast
    qed
  qed
  then show False using assms by blast
qed

section \<open>Lemmas: the parser\<close>

lemma boundary_of_missing:
  assumes "find_sub ''boundary='' contentType = None" "find_char CHR '';'' contentType = None"
  shows "boundary_of contentType = crlf @ ''--'' @ drop 8 contentType"
proof -
  have "find_char CHR '';'' (drop 8 contentType) = None"
    using assms(2) by (auto simp: find_simps dest: in_set_dropD)
  then show ?thesis using assms(1) by (simp add: boundary_of_def)
qed

lemma boundary_never_missing: "new_multipart cfg r \<noteq> Inl (serverException ''Boundary for multipart not found'' 400)"
  by (auto simp: new_multipart_def Let_def boundary_of_def bind_result_Inl size_exceeded_def serverException_def
      split: sum.splits if_splits content_length_error.splits)

lemma boundary_of_given:
  assumes "find_sub ''boundary='' contentType = Some i" "drop (i + 9) contentType = b" "CHR '';'' \<notin> set b"
  shows "boundary_of contentType = crlf @ ''--'' @ b"
proof -
  have "find_char CHR '';'' b = None" using assms(3) by (auto simp: find_simps)
  then show ?thesis using assms by (simp add: boundary_of_def)
qed

text \<open>Printed part headers are read back.\<close>

definition print_part_header :: "string \<times> string \<Rightarrow> string" where
  "print_part_header h = fst h @ '': '' @ snd h @ crlf"

definition wf_part_header :: "string \<times> string \<Rightarrow> bool" where
  "wf_part_header h \<longleftrightarrow> CHR '':'' \<notin> set (fst h) \<and> find_sub crlf (fst h @ '': '' @ snd h @ [CR]) = None
     \<and> trim (toLowerCase (fst h)) \<noteq> [] \<and> trim (snd h) \<noteq> []"

lemma find_line_end:
  assumes "find_sub crlf (s @ [CR]) = None"
  shows "find_sub crlf (s @ crlf @ t) = Some (length s)"
proof (rule find_sub_eqI)
  fix j assume j: "j < length s"
  show "\<not> prefix crlf (drop j (s @ crlf @ t))"
  proof
    assume "prefix crlf (drop j (s @ crlf @ t))"
    then have "prefix crlf (drop j ((s @ [CR]) @ LF # t))" by simp
    then have "prefix crlf (drop j (s @ [CR]))" by (rule prefix_in_front) (use j in simp)
    then show False using find_sub_None [OF assms] by blast
  qed
qed simp

lemma trim_space: "trim (CHR '' '' # s) = trim s"
  by (rule trim_append_leading_space) (simp add: c_isspace_def)

lemma part_headers_print:
  assumes "\<forall>h \<in> set hs. wf_part_header h"
  shows "part_headers (concat (map print_part_header hs) @ crlf) acc =
    Inr (acc @ map (\<lambda>h. (trim (toLowerCase (fst h)), trim (snd h))) hs)"
  using assms
proof (induction hs arbitrary: acc)
  case Nil
  have "find_sub crlf crlf = Some 0" by simp
  then show ?case by (simp add: part_headers.simps [of crlf] part_headers.simps [of "[]"])
next
  case (Cons h hs)
  obtain k v where h: "h = (k, v)" by (cases h)
  let ?t = "concat (map print_part_header hs) @ crlf"
  let ?l = "k @ '': '' @ v"
  have wf: "CHR '':'' \<notin> set k" "find_sub crlf (?l @ [CR]) = None" "trim (toLowerCase k) \<noteq> []" "trim v \<noteq> []"
    using Cons.prems by (simp_all add: wf_part_header_def h)
  have s: "concat (map print_part_header (h # hs)) @ crlf = ?l @ crlf @ ?t" by (simp add: print_part_header_def h)
  have f: "find_sub crlf (?l @ crlf @ ?t) = Some (length ?l)" by (rule find_line_end [OF wf(2)])
  have tk: "take (length ?l) (?l @ crlf @ ?t) = ?l" by simp
  have dr: "drop (length l + 2) (l @ crlf @ t) = t" for l t :: string by simp
  have col: "find_char CHR '':'' ?l = Some (length k)" using wf(1) find_idx_here [of k "\<lambda>c. c = CHR '':''" "CHR '':''"] by auto
  have parts: "take (length k) ?l = k" "drop (length k + 1) ?l = CHR '' '' # v" by simp_all
  have "part_headers (?l @ crlf @ ?t) acc = part_headers ?t (acc @ [(trim (toLowerCase k), trim v)])"
    unfolding part_headers.simps [of "?l @ crlf @ ?t"] f option.case tk dr Let_def prod.case col parts trim_space
    using wf by simp
  then show ?case using Cons unfolding s by (simp add: h)
qed

end
