(* ===== verification/Middlewares.thy ===== *)
theory Middlewares
  imports Dispatch "HOL-Library.AList"
begin

text \<open>
  The middlewares of \<open>rukh/src/http/middleware\<close>: CORS, cache control, compression and sessions.

  A middleware is a function on the handler that comes after it (\<open>next\<close>). The compressors are third-party code: an encoding stands for
  one, and what it makes of the bytes is an argument.
\<close>

section \<open>CORS\<close>

record cors =
  allowedOrigins :: "string list"
  corsHeaders :: "string list"
  allowCredentials :: bool
  corsMaxAge :: string
  allowedHeaders :: string

text \<open>The default constructor leaves \<open>allowedHeaders_\<close> empty.\<close>

definition new_cors :: cors where
  "new_cors = \<lparr>allowedOrigins = [], corsHeaders = [''Authorization'', ''Content-Type''], allowCredentials = True,
     corsMaxAge = ''86400'', allowedHeaders = []\<rparr>"

definition configured_cors :: "string list \<Rightarrow> string list \<Rightarrow> bool \<Rightarrow> string \<Rightarrow> cors" where
  "configured_cors origins hs credentials age = \<lparr>allowedOrigins = origins, corsHeaders = hs,
     allowCredentials = credentials, corsMaxAge = age, allowedHeaders = getCommaSeparatedString hs\<rparr>"

definition setCorsOrigins :: "string list \<Rightarrow> cors \<Rightarrow> cors" where
  "setCorsOrigins origins m = m\<lparr>allowedOrigins := origins\<rparr>"

definition setCorsHeaders :: "string list \<Rightarrow> cors \<Rightarrow> cors" where
  "setCorsHeaders hs m = m\<lparr>corsHeaders := hs, allowedHeaders := getCommaSeparatedString hs\<rparr>"

definition setCorsMaxAge :: "int \<Rightarrow> cors \<Rightarrow> cors" where
  "setCorsMaxAge age m = m\<lparr>corsMaxAge := (if age < 0 then ''-'' @ to_dec (nat (- age)) else to_dec (nat age))\<rparr>"

definition setAccessControlAllowCredentials :: "bool \<Rightarrow> cors \<Rightarrow> cors" where
  "setAccessControlAllowCredentials b m = m\<lparr>allowCredentials := b\<rparr>"

definition isOriginAllowed :: "cors \<Rightarrow> string \<Rightarrow> bool" where
  "isOriginAllowed m origin \<longleftrightarrow> (\<exists>o' \<in> set (allowedOrigins m). o' = origin \<or> o' = ''*'')"

lemma isOriginAllowed_iff: "isOriginAllowed m origin \<longleftrightarrow> origin \<in> set (allowedOrigins m) \<or> ''*'' \<in> set (allowedOrigins m)"
  by (auto simp: isOriginAllowed_def)

definition preflight_headers :: "cors \<Rightarrow> string \<Rightarrow> string \<Rightarrow> header_store \<Rightarrow> header_store" where
  "preflight_headers m origin methods hs =
     (let hs1 = hs_setHeaderLower ''access-control-max-age'' (corsMaxAge m)
            (hs_setHeaderLower ''access-control-allow-headers'' (allowedHeaders m)
              (hs_setHeaderLower ''access-control-allow-methods'' methods
                (hs_setHeaderLower ''access-control-allow-origin'' origin
                  (hs_addHeaderLower ''vary'' ''origin'' hs))))
      in if allowCredentials m then hs_setHeaderLower ''access-control-allow-credentials'' ''true'' hs1 else hs1)"

definition cors_headers :: "cors \<Rightarrow> string \<Rightarrow> header_store \<Rightarrow> header_store" where
  "cors_headers m origin hs =
     hs_addHeaderLower ''vary'' ''origin''
       (if isOriginAllowed m origin then hs_setHeaderLower ''access-control-allow-origin'' origin hs else hs)"

definition cors_middleware :: "cors \<Rightarrow> ('gen, 'w) middleware" where
  "cors_middleware m next st =
     (let req = fst st; origin = getHeaderLower req ''origin'' in
      if origin = [] then next st
      else if req_method req = ''OPTIONS'' then
        (let response = new_response 204 in
         if \<not> isOriginAllowed m origin then (Inr (PlainResponse response), fst st, snd st)
         else (Inr (PlainResponse (response\<lparr>resp_headers :=
           preflight_headers m origin (getAttribute req ''allowedMethods'' []) (resp_headers response)\<rparr>)), fst st, snd st))
      else
        (case next st of
           (Inl e, r) \<Rightarrow> (Inl e, r)
         | (Inr response, r) \<Rightarrow> (Inr (map_resp_headers (cors_headers m origin) response), r)))"

section \<open>Cache control\<close>

record cache_control =
  routeCacheControl :: "(string \<times> string) list"
  mimeCacheControl :: "(string \<times> string) list"
  defaultCacheControl :: string

definition new_cache_control :: cache_control where
  "new_cache_control = \<lparr>routeCacheControl = [], mimeCacheControl = [], defaultCacheControl = ''no-store''\<rparr>"

definition setRouteCacheControl :: "string \<Rightarrow> string \<Rightarrow> cache_control \<Rightarrow> cache_control result" where
  "setRouteCacheControl pattern v m =
     (if find_idx (\<lambda>p. fst p = pattern) (routeCacheControl m) \<noteq> None
      then Inl (RuntimeError ''Pattern already exists in route cache control'')
      else Inr (m\<lparr>routeCacheControl := routeCacheControl m @ [(pattern, v)]\<rparr>))"

definition setMimeCacheControl :: "string \<Rightarrow> string \<Rightarrow> cache_control \<Rightarrow> cache_control" where
  "setMimeCacheControl mimeType v m = m\<lparr>mimeCacheControl := AList.update mimeType v (mimeCacheControl m)\<rparr>"

definition setDefaultCacheControl :: "string \<Rightarrow> cache_control \<Rightarrow> cache_control" where
  "setDefaultCacheControl v m = m\<lparr>defaultCacheControl := v\<rparr>"

text \<open>The loop that compares a pattern, without its first slash, with the parts of the path.\<close>

fun route_matches :: "string \<Rightarrow> string list \<Rightarrow> bool" where
  "route_matches pattern [] = (pattern = ''/'' \<or> pattern = [])"
| "route_matches pattern (part # parts) =
     (if pattern = [] then False
      else
        (let (routePart, rest) = cut CHR ''/'' pattern in
         if routePart = ''*'' then parts = []
         else if routePart = ''**'' then True
         else if part \<noteq> routePart then False
         else
           (case rest of
              None \<Rightarrow> if parts = [] then pattern = ''/'' \<or> pattern = [] else False
            | Some r \<Rightarrow> route_matches r parts)))"

definition route_pattern_matches :: "string list \<Rightarrow> string \<Rightarrow> bool" where
  "route_pattern_matches parts pattern =
     route_matches (if at_or_nul pattern 0 = CHR ''/'' then drop 1 pattern else pattern) parts"

definition cache_headers :: "cache_control \<Rightarrow> string list \<Rightarrow> int \<Rightarrow> header_store \<Rightarrow> header_store" where
  "cache_headers m parts status hs =
     (if hs_getHeaderLower hs ''cache-control'' \<noteq> [] then hs
      else if status \<ge> 400 then hs_setCacheControl ''no-store'' hs
      else
        (case find_idx (\<lambda>p. route_pattern_matches parts (fst p)) (routeCacheControl m) of
           Some i \<Rightarrow> hs_setCacheControl (snd (routeCacheControl m ! i)) hs
         | None \<Rightarrow>
             let mimeType = hs_getHeaderLower hs ''content-type'' in
             (case (if mimeType \<noteq> [] then map_of (mimeCacheControl m) mimeType else None) of
                Some v \<Rightarrow> hs_setCacheControl v hs
              | None \<Rightarrow> hs_setCacheControl (defaultCacheControl m) hs)))"

definition cache_control_middleware :: "cache_control \<Rightarrow> ('gen, 'w) middleware" where
  "cache_control_middleware m next st =
     (case next st of
        (Inl e, r) \<Rightarrow> (Inl e, r)
      | (Inr response, r) \<Rightarrow>
          (Inr (map_resp_headers (cache_headers m (pathParts (fst st)) (status_of response)) response), r))"

section \<open>Compression\<close>

definition compressibleMimeTypes :: "string list" where
  "compressibleMimeTypes =
     [''text/html'', ''text/css'', ''text/plain'', ''text/csv'', ''text/xml'', ''text/yaml'', ''text/markdown'',
      ''application/javascript'', ''application/x-javascript'',
      ''application/json'', ''application/ld+json'', ''application/manifest+json'',
      ''application/xml'', ''application/xhtml+xml'', ''application/rss+xml'', ''application/atom+xml'',
      ''image/svg+xml'', ''application/wasm'', ''font/ttf'', ''font/otf'', ''application/vnd.ms-fontobject'']"

datatype encoding = Brotli | Gzip

fun getEncoding :: "encoding \<Rightarrow> string" where
  "getEncoding Brotli = ''br''"
| "getEncoding Gzip = ''gzip''"

definition getCompressor :: "string \<Rightarrow> encoding option" where
  "getCompressor e =
     (if e = ''identity'' then None
      else if e = ''br'' then Some Brotli
      else if e = ''gzip'' then Some Gzip
      else if e = ''*'' then Some Brotli
      else None)"

fun first_compressor :: "qvalues \<Rightarrow> encoding option" where
  "first_compressor [] = None"
| "first_compressor ((e, q) # prefs) = (case getCompressor e of Some c \<Rightarrow> Some c | None \<Rightarrow> first_compressor prefs)"

text \<open>The generator of a compressed stream: the compressor's state, the original generator, and \<open>finished\<close>.\<close>

record ('gen, 'z) compressed_gen =
  cg_comp :: 'z
  cg_orig :: 'gen
  cg_finished :: bool

partial_function (option) compressed_next ::
  "('gen \<Rightarrow> 'w \<Rightarrow> bytes option result \<times> 'gen \<times> 'w) \<Rightarrow> ('z \<Rightarrow> bytes \<Rightarrow> bytes \<times> 'z) \<Rightarrow> ('z \<Rightarrow> bytes \<times> 'z) \<Rightarrow>
    ('gen, 'z) compressed_gen \<Rightarrow> 'w \<Rightarrow> (bytes option result \<times> ('gen, 'z) compressed_gen \<times> 'w) option" where
  "compressed_next nxt feedChunk finish g w =
     (if cg_finished g then Some (Inr None, g, w)
      else
        (case nxt (cg_orig g) w of
           (Inl e, o1, w1) \<Rightarrow> Some (Inl e, g\<lparr>cg_orig := o1\<rparr>, w1)
         | (Inr None, o1, w1) \<Rightarrow>
             (case finish (cg_comp g) of (tail, z) \<Rightarrow>
                Some (Inr (if tail = [] then None else Some tail), g\<lparr>cg_orig := o1, cg_comp := z, cg_finished := True\<rparr>, w1))
         | (Inr (Some chunk), o1, w1) \<Rightarrow>
             (case feedChunk (cg_comp g) chunk of (compressed, z) \<Rightarrow>
                let g1 = g\<lparr>cg_orig := o1, cg_comp := z\<rparr> in
                if compressed \<noteq> [] then Some (Inr (Some compressed), g1, w1)
                else compressed_next nxt feedChunk finish g1 w1)))"

text \<open>\<open>wrap\<close> puts a generator under a compressor; \<open>compress\<close> is that of the encoding.\<close>

definition compress_response :: "(encoding \<Rightarrow> bytes \<Rightarrow> bytes) \<Rightarrow> (encoding \<Rightarrow> 'gen \<Rightarrow> 'gen) \<Rightarrow> encoding \<Rightarrow> 'gen response \<Rightarrow> 'gen response" where
  "compress_response compress wrap c response =
     (case response of
        PlainResponse res \<Rightarrow>
          let res1 = setBody (compress c (resp_body res)) res in
          PlainResponse (res1\<lparr>resp_headers := hs_addHeaderLower ''vary'' ''accept-encoding''
            (hs_setHeaderLower ''content-encoding'' (getEncoding c) (resp_headers res1))\<rparr>)
      | StreamResponse s \<Rightarrow>
          StreamResponse (s\<lparr>st_headers := hs_addHeaderLower ''vary'' ''accept-encoding''
              (hs_setHeaderLower ''content-encoding'' (getEncoding c) (st_headers s)),
            nextChunkFn := wrap c (nextChunkFn s)\<rparr>)
      | FileResponse f \<Rightarrow> FileResponse f)"

definition compress_reply :: "server_config \<Rightarrow> (string \<Rightarrow> nat) \<Rightarrow> (qvalues \<Rightarrow> qvalues) \<Rightarrow>
    (http_request \<Rightarrow> int \<Rightarrow> http_response) \<Rightarrow> (encoding \<Rightarrow> bytes \<Rightarrow> bytes) \<Rightarrow> (encoding \<Rightarrow> 'gen \<Rightarrow> 'gen) \<Rightarrow>
    http_request \<Rightarrow> 'gen response \<Rightarrow> 'gen response" where
  "compress_reply cfg strtof_q sort_prefs build_error compress wrap req response =
     (let hs = headers_of response in
      if hs_getHeaderLower hs ''content-encoding'' \<noteq> [] \<or> contentTypeOf hs \<notin> set compressibleMimeTypes then response
      else
        let (encodingPrefs, excluded) = parseQValues strtof_q (toLowerCase (getHeaderLower req ''accept-encoding''));
            identityAllowed = (''identity'' \<notin> set excluded);
            small = (case response of PlainResponse r \<Rightarrow> length (resp_body r) < COMPRESS_MIN_BYTES cfg | _ \<Rightarrow> False) in
        if identityAllowed \<and> small then map_resp_headers (hs_addHeaderLower ''vary'' ''accept-encoding'') response
        else
          (case first_compressor (sort_prefs encodingPrefs) of
             None \<Rightarrow> if identityAllowed then response else PlainResponse (strip_for_head req (build_error req 406))
           | Some c \<Rightarrow> compress_response compress wrap c response))"

definition compression_middleware :: "server_config \<Rightarrow> (string \<Rightarrow> nat) \<Rightarrow> (qvalues \<Rightarrow> qvalues) \<Rightarrow>
    (http_request \<Rightarrow> int \<Rightarrow> http_response) \<Rightarrow> (encoding \<Rightarrow> bytes \<Rightarrow> bytes) \<Rightarrow> (encoding \<Rightarrow> 'gen \<Rightarrow> 'gen) \<Rightarrow> ('gen, 'w) middleware" where
  "compression_middleware cfg strtof_q sort_prefs build_error compress wrap next st =
     (if getHeaderLower (fst st) ''accept-encoding'' = [] then next st
      else
        (case next st of
           (Inl e, r) \<Rightarrow> (Inl e, r)
         | (Inr response, r) \<Rightarrow>
             (Inr (compress_reply cfg strtof_q sort_prefs build_error compress wrap (fst st) response), r)))"

section \<open>Sessions\<close>

text \<open>The store is beside the rest of the program's state; \<open>now\<close> is the clock, \<open>gen_id\<close> the store's \<open>generateId\<close>.\<close>

definition session_cookie :: "session_config \<Rightarrow> string \<Rightarrow> cookie" where
  "session_cookie sc sid = (new_cookie ''session_id'' sid)\<lparr>secure := cookieSecure sc, httpOnly := cookieHttpOnly sc\<rparr>"

definition session_after :: "session_config \<Rightarrow> (int \<Rightarrow> string \<Rightarrow> session \<Rightarrow> 'st \<Rightarrow> 'st) \<Rightarrow> (string \<Rightarrow> 'st \<Rightarrow> 'st) \<Rightarrow>
    int \<Rightarrow> string \<Rightarrow> session_handle \<Rightarrow> 'gen response \<Rightarrow> 'st \<Rightarrow> 'gen response \<times> session_handle \<times> 'st" where
  "session_after sc save destroy now fresh_id h response st =
     (case handle_session h of
        None \<Rightarrow> (response, h, st)
      | Some s \<Rightarrow>
          if isInvalidated s
          then (map_resp_cookies (deleteCookie ''session_id'' ''/'') response, h,
                if handle_id h \<noteq> [] then destroy (handle_id h) st else st)
          else if \<not> isDirty s then (response, h, st)
          else
            let h1 = (if handle_id h = [] then h\<lparr>handle_id := fresh_id\<rparr> else h) in
            (map_resp_cookies (setCookie (session_cookie sc (handle_id h1))) response, h1, save now (handle_id h1) s st))"

definition session_middleware :: "session_config \<Rightarrow> (int \<Rightarrow> string \<Rightarrow> session \<Rightarrow> 'st \<Rightarrow> 'st) \<Rightarrow> (string \<Rightarrow> 'st \<Rightarrow> 'st) \<Rightarrow>
    ('v \<Rightarrow> int) \<Rightarrow> ('v \<Rightarrow> string) \<Rightarrow> ('gen, 'st \<times> 'v) middleware" where
  "session_middleware sc save destroy now gen_id next st =
     (let (req, w) = st;
          sid = (case getCookie req ''session_id'' of Some v \<Rightarrow> v | None \<Rightarrow> []) in
      case next (req\<lparr>sessionHandle := Some (new_handle (sanitize sc sid))\<rparr>, w) of
        (Inl e, req1, w1) \<Rightarrow> (Inl e, req1, w1)
      | (Inr response, req1, (store, v)) \<Rightarrow>
          (case sessionHandle req1 of
             None \<Rightarrow> (Inr response, req1, (store, v))
           | Some h \<Rightarrow>
               (case session_after sc save destroy (now v) (gen_id v) h response store of
                  (response1, h1, store1) \<Rightarrow> (Inr response1, req1\<lparr>sessionHandle := Some h1\<rparr>, (store1, v)))))"

section \<open>Lemmas: CORS\<close>

lemma hs_get_after_add:
  "k \<noteq> k' \<Longrightarrow> hs_getHeaderLower (hs_addHeaderLower k v hs) k' = hs_getHeaderLower hs k'"
  by (simp add: hs_getHeaderLower_def getLastOrDefault_last hs.values_add)

lemma headers_of_map [simp]: "headers_of (map_resp_headers f response) = f (headers_of response)"
  by (cases response) simp_all

lemma status_of_map [simp]: "status_of (map_resp_headers f response) = status_of response"
  by (cases response) simp_all

text \<open>Only an allowed origin is named to the client.\<close>

lemma cors_origin:
  "hs_getHeaderLower (cors_headers m origin hs) ''access-control-allow-origin'' =
     (if isOriginAllowed m origin then origin else hs_getHeaderLower hs ''access-control-allow-origin'')"
  by (simp add: cors_headers_def hs_get_after_add hs_get_after_set)

lemma cors_same_origin: "getHeaderLower req ''origin'' = [] \<Longrightarrow> cors_middleware m next (req, w) = next (req, w)"
  by (simp add: cors_middleware_def Let_def)

lemma cors_preflight:
  assumes "getHeaderLower req ''origin'' = origin" "origin \<noteq> []" "req_method req = ''OPTIONS''"
  shows "\<exists>r. cors_middleware m next (req, w) = (Inr (PlainResponse r), req, w) \<and> statusCode r = 204
    \<and> hs_getHeaderLower (resp_headers r) ''access-control-allow-origin'' = (if isOriginAllowed m origin then origin else [])
    \<and> hs_getHeaderLower (resp_headers r) ''access-control-allow-headers'' = (if isOriginAllowed m origin then allowedHeaders m else [])"
  using assms
  by (auto simp: cors_middleware_def Let_def preflight_headers_def hs_get_after_add hs_get_after_set new_response_def default_response_def
      hs_getHeaderLower_def getLastOrDefault_def hs_setHeaderLower_def hs_addHeaderLower_def)

text \<open>The default constructor forgets the headers of its own configuration.\<close>

lemma new_cors_no_headers: "allowedHeaders new_cors = [] \<and> allowedHeaders (setCorsHeaders (corsHeaders new_cors) new_cors) = ''Authorization, Content-Type''"
  by (simp add: new_cors_def setCorsHeaders_def getCommaSeparatedString_join str_join_Cons)

section \<open>Lemmas: cache control\<close>

definition plain_segment :: "string \<Rightarrow> bool" where
  "plain_segment s \<longleftrightarrow> s \<noteq> [] \<and> CHR ''/'' \<notin> set s \<and> s \<noteq> ''*'' \<and> s \<noteq> ''**''"

lemma cut_segment: "CHR ''/'' \<notin> set s \<Longrightarrow> cut CHR ''/'' (s @ CHR ''/'' # t) = (s, Some t)"
  by (simp add: cut_Some)

lemma cut_last_segment: "CHR ''/'' \<notin> set s \<Longrightarrow> cut CHR ''/'' s = (s, None)"
  by (simp add: cut_None)

text \<open>A pattern of literal segments that does not end in a slash matches no path.\<close>

lemma route_literal_never:
  assumes "\<forall>s \<in> set segs. plain_segment s" "segs \<noteq> []"
  shows "\<not> route_matches (str_join ''/'' segs) parts"
  using assms
proof (induction segs arbitrary: parts)
  case (Cons s segs)
  have s: "s \<noteq> []" "CHR ''/'' \<notin> set s" using Cons.prems by (auto simp: plain_segment_def)
  show ?case
  proof (cases "segs = []")
    case True
    have "s \<noteq> ''/''" using s by auto
    then show ?thesis using True s Cons.prems
      by (cases parts) (auto simp: cut_last_segment plain_segment_def)
  next
    case False
    then have j: "str_join ''/'' (s # segs) = s @ CHR ''/'' # str_join ''/'' segs" by (simp add: str_join_Cons)
    have ne: "s @ CHR ''/'' # t \<noteq> ''/''" for t using s by (cases s) auto
    show ?thesis
    proof (cases parts)
      case Nil
      then show ?thesis using ne unfolding j by simp
    next
      case (Cons p ps)
      have "\<not> route_matches (str_join ''/'' segs) ps" using Cons.IH Cons.prems False by simp
      then show ?thesis using Cons s \<open>\<forall>s \<in> set (s # segs). plain_segment s\<close> unfolding j
        by (simp add: cut_segment [OF s(2)] plain_segment_def)
    qed
  qed
qed simp

text \<open>With a slash at the end it matches the path of its segments, and with \<open>**\<close> every longer one.\<close>

lemma route_literal_slash:
  assumes "\<forall>s \<in> set segs. plain_segment s"
  shows "route_matches (concat (map (\<lambda>s. s @ ''/'') segs)) parts \<longleftrightarrow> parts = segs"
  using assms
proof (induction segs arbitrary: parts)
  case Nil
  then show ?case by (cases parts) auto
next
  case (Cons s segs)
  have s: "CHR ''/'' \<notin> set s" "s \<noteq> []" using Cons.prems by (auto simp: plain_segment_def)
  have ne: "s @ CHR ''/'' # t \<noteq> ''/''" for t using s by (cases s) auto
  show ?case using Cons ne
    by (cases parts) (auto simp: cut_segment [OF s(1)] plain_segment_def)
qed

lemma route_deep:
  assumes "\<forall>s \<in> set segs. plain_segment s" "rest \<noteq> []"
  shows "route_matches (concat (map (\<lambda>s. s @ ''/'') segs) @ ''**'') (segs @ rest)"
  using assms
proof (induction segs)
  case Nil
  have "cut CHR ''/'' ''**'' = (''**'', None)" by (simp add: cut_last_segment)
  then show ?case using Nil by (cases rest) simp_all
next
  case (Cons s segs)
  have s: "CHR ''/'' \<notin> set s" using Cons.prems by (auto simp: plain_segment_def)
  show ?case using Cons by (simp add: cut_segment [OF s] plain_segment_def)
qed

text \<open>Every response leaves with a cache policy, an error with \<open>no-store\<close> unless the handler set one.\<close>

lemma cache_headers_policy:
  "hs_getHeaderLower (cache_headers m parts status hs) ''cache-control'' =
     (if hs_getHeaderLower hs ''cache-control'' \<noteq> [] then hs_getHeaderLower hs ''cache-control''
      else if status \<ge> 400 then ''no-store''
      else case find_idx (\<lambda>p. route_pattern_matches parts (fst p)) (routeCacheControl m) of
        Some i \<Rightarrow> snd (routeCacheControl m ! i)
      | None \<Rightarrow> (case (if hs_getHeaderLower hs ''content-type'' \<noteq> [] then map_of (mimeCacheControl m) (hs_getHeaderLower hs ''content-type'') else None) of
          Some v \<Rightarrow> v | None \<Rightarrow> defaultCacheControl m))"
  by (auto simp: cache_headers_def Let_def hs_setCacheControl_def hs_get_after_set split: option.splits)

section \<open>Lemmas: compression\<close>

text \<open>What \<open>compress_reply\<close> may do: nothing but add \<open>vary\<close>, compress once, or refuse with 406.\<close>

lemma compress_reply_cases:
  "compress_reply cfg f srt be compress wrap req response \<in> {response, map_resp_headers (hs_addHeaderLower ''vary'' ''accept-encoding'') response}
   \<or> (\<exists>c. compress_reply cfg f srt be compress wrap req response = compress_response compress wrap c response
        \<and> hs_getHeaderLower (headers_of response) ''content-encoding'' = [] \<and> contentTypeOf (headers_of response) \<in> set compressibleMimeTypes)
   \<or> compress_reply cfg f srt be compress wrap req response = PlainResponse (strip_for_head req (be req 406))"
  by (auto simp: compress_reply_def Let_def split: option.split prod.split)

lemma compress_plain:
  "compress_response compress wrap c (PlainResponse res) = PlainResponse res' \<Longrightarrow>
     resp_body res' = compress c (resp_body res) \<and> hs_getHeaderLower (resp_headers res') ''content-encoding'' = getEncoding c
     \<and> hs_getHeaderLower (resp_headers res') ''content-length'' = to_dec (length (resp_body res')) \<and> statusCode res' = statusCode res"
  by (auto simp: compress_response_def Let_def setBody_def hs_get_after_set hs_get_after_add)

text \<open>A compressed stream, read to its end: what the decompressor makes of it is what the original stream yields.\<close>

fun feeds :: "('z \<Rightarrow> bytes \<Rightarrow> bytes \<times> 'z) \<Rightarrow> ('z \<Rightarrow> bytes \<times> 'z) \<Rightarrow> 'z \<Rightarrow> bytes list \<Rightarrow> bytes" where
  "feeds feedChunk finish z [] = fst (finish z)"
| "feeds feedChunk finish z (c # cs) = fst (feedChunk z c) @ feeds feedChunk finish (snd (feedChunk z c)) cs"

fun gives :: "('gen \<Rightarrow> 'w \<Rightarrow> bytes option result \<times> 'gen \<times> 'w) \<Rightarrow> 'gen \<Rightarrow> bytes list \<Rightarrow> bool" where
  "gives nxt g [] = (\<exists>g'. \<forall>w. nxt g w = (Inr None, g', w))"
| "gives nxt g (b # bs) = (\<exists>g'. (\<forall>w. nxt g w = (Inr (Some b), g', w)) \<and> gives nxt g' bs)"

text \<open>One call on a stream that still denotes \<open>f\<close>: it ends the stream, or yields a piece and leaves the rest to fewer than \<open>n\<close> chunks.\<close>

definition piece_of :: "('gen \<Rightarrow> 'w \<Rightarrow> bytes option result \<times> 'gen \<times> 'w) \<Rightarrow> ('z \<Rightarrow> bytes \<Rightarrow> bytes \<times> 'z) \<Rightarrow> ('z \<Rightarrow> bytes \<times> 'z) \<Rightarrow>
    bytes \<Rightarrow> nat \<Rightarrow> bytes option \<Rightarrow> ('gen, 'z) compressed_gen \<Rightarrow> bool" where
  "piece_of nxt feedChunk finish f n out g' \<longleftrightarrow>
     (case out of
        None \<Rightarrow> f = [] \<and> cg_finished g'
      | Some b \<Rightarrow> b \<noteq> [] \<and>
          (cg_finished g' \<and> f = b
           \<or> \<not> cg_finished g' \<and> (\<exists>cs'. gives nxt (cg_orig g') cs' \<and> length cs' < n
                \<and> f = b @ feeds feedChunk finish (cg_comp g') cs')))"

lemma piece_of_mono: "piece_of nxt feedChunk finish f n out g' \<Longrightarrow> n \<le> m \<Longrightarrow> piece_of nxt feedChunk finish f m out g'"
  by (fastforce simp: piece_of_def split: option.splits)

lemma compressed_next_step:
  assumes "gives nxt (cg_orig g) cs" "\<not> cg_finished g"
  shows "\<exists>out g'. compressed_next nxt feedChunk finish g w = Some (Inr out, g', w)
    \<and> piece_of nxt feedChunk finish (feeds feedChunk finish (cg_comp g) cs) (length cs) out g'"
  using assms
proof (induction cs arbitrary: g)
  case Nil
  then obtain o' where o': "\<forall>w. nxt (cg_orig g) w = (Inr None, o', w)" by auto
  obtain tail z where f: "finish (cg_comp g) = (tail, z)" by fastforce
  show ?case using Nil.prems(2) o' f by (simp add: compressed_next.simps [of nxt feedChunk finish g w] piece_of_def)
next
  case (Cons c cs)
  then obtain o' where o': "\<forall>w. nxt (cg_orig g) w = (Inr (Some c), o', w)" "gives nxt o' cs" by auto
  obtain b z where f: "feedChunk (cg_comp g) c = (b, z)" by fastforce
  let ?g = "g\<lparr>cg_orig := o', cg_comp := z\<rparr>"
  show ?case
  proof (cases "b = []")
    case True
    then have e: "compressed_next nxt feedChunk finish g w = compressed_next nxt feedChunk finish ?g w"
      using Cons.prems(2) o' f by (simp add: compressed_next.simps [of nxt feedChunk finish g w] Let_def)
    have fe: "feeds feedChunk finish (cg_comp g) (c # cs) = feeds feedChunk finish (cg_comp ?g) cs" using f True by simp
    have "gives nxt (cg_orig ?g) cs" "\<not> cg_finished ?g" using o'(2) Cons.prems(2) by simp_all
    from Cons.IH [OF this] show ?thesis unfolding e fe using piece_of_mono by (metis length_Cons le_SucI order_refl)
  next
    case False
    then have "compressed_next nxt feedChunk finish g w = Some (Inr (Some b), ?g, w)"
      using Cons.prems(2) o' f by (simp add: compressed_next.simps [of nxt feedChunk finish g w] Let_def)
    then show ?thesis using False f o'(2) Cons.prems(2)
      by (intro exI [of _ "Some b"] exI [of _ ?g]) (auto simp: piece_of_def intro!: exI [of _ cs])
  qed
qed

text \<open>The pieces of a generator that is called until it ends.\<close>

inductive stream_pieces :: "('g \<Rightarrow> 'w \<Rightarrow> (bytes option result \<times> 'g \<times> 'w) option) \<Rightarrow> 'g \<Rightarrow> 'w \<Rightarrow> bytes list \<Rightarrow> bool" for nxt where
  ended: "nxt g w = Some (Inr None, g', w') \<Longrightarrow> stream_pieces nxt g w []"
| piece: "nxt g w = Some (Inr (Some b), g', w') \<Longrightarrow> stream_pieces nxt g' w' bs \<Longrightarrow> stream_pieces nxt g w (b # bs)"

lemma compressed_finished:
  "cg_finished g \<Longrightarrow> stream_pieces (compressed_next nxt feedChunk finish) g w []"
  by (rule ended [where g' = g and w' = w]) (simp add: compressed_next.simps [of nxt feedChunk finish g w])

lemma compressed_stream:
  "gives nxt (cg_orig g) cs \<Longrightarrow> \<not> cg_finished g \<Longrightarrow>
     \<exists>bs. stream_pieces (compressed_next nxt feedChunk finish) g w bs \<and> [] \<notin> set bs \<and> concat bs = feeds feedChunk finish (cg_comp g) cs"
proof (induction "length cs" arbitrary: cs g rule: less_induct)
  case less
  let ?n = "compressed_next nxt feedChunk finish" and ?f = "feeds feedChunk finish (cg_comp g) cs"
  obtain out g' where r: "?n g w = Some (Inr out, g', w)" and p: "piece_of nxt feedChunk finish ?f (length cs) out g'"
    using compressed_next_step [OF less.prems] by blast
  show ?case
  proof (cases out)
    case None
    then have "stream_pieces ?n g w []" using r by (auto intro: ended)
    then show ?thesis using p None by (intro exI [of _ "[]"]) (simp add: piece_of_def)
  next
    case (Some b)
    have step: "stream_pieces ?n g' w bs \<Longrightarrow> stream_pieces ?n g w (b # bs)" for bs
      using piece [of ?n g w b g' w bs] r Some by simp
    show ?thesis
    proof (cases "cg_finished g'")
      case True
      then have "stream_pieces ?n g w [b]" by (intro step compressed_finished)
      then show ?thesis using p Some True by (intro exI [of _ "[b]"]) (auto simp: piece_of_def)
    next
      case False
      then obtain cs' where cs': "gives nxt (cg_orig g') cs'" "length cs' < length cs" "?f = b @ feeds feedChunk finish (cg_comp g') cs'" "b \<noteq> []"
        using p Some by (auto simp: piece_of_def)
      from less.hyps [OF cs'(2) cs'(1) False]
      have "\<exists>bs. stream_pieces ?n g' w bs \<and> [] \<notin> set bs \<and> concat bs = feeds feedChunk finish (cg_comp g') cs'" .
      then obtain bs where "stream_pieces ?n g' w bs" "[] \<notin> set bs" "concat bs = feeds feedChunk finish (cg_comp g') cs'" by blast
      then show ?thesis using step cs'(3,4) by (intro exI [of _ "b # bs"]) auto
    qed
  qed
qed

section \<open>Lemmas: sessions\<close>

lemma cookies_of_map [simp]: "cookies_of (map_resp_cookies f response) = f (cookies_of response)"
  by (cases response) simp_all

context session_store
begin

text \<open>A session that the handler changed: the client gets its identifier, and the store has it.\<close>

lemma session_after_saved:
  assumes "handle_session h = Some s" "isDirty s" "\<not> isInvalidated s"
    and "session_after sc save destroy now fresh h response st = (response', h', st')"
  shows "handle_id h' = (if handle_id h = [] then fresh else handle_id h)
    \<and> session_cookie sc (handle_id h') \<in> set (cookies_of response')
    \<and> (\<forall>now'. now' - now \<le> ttl \<longrightarrow> live st' now' (handle_id h') = Some s)
    \<and> (\<forall>now' k. k \<noteq> handle_id h' \<longrightarrow> live st' now' k = live st now' k)"
  using assms by (auto simp: session_after_def Let_def setCookie_def live_save split: if_splits)

lemma session_after_invalidated:
  assumes "handle_session h = Some s" "isInvalidated s" "handle_id h \<noteq> []"
    and "session_after sc save destroy now fresh h response st = (response', h', st')"
  shows "live st' now' (handle_id h) = None \<and> (\<forall>k. k \<noteq> handle_id h \<longrightarrow> live st' now' k = live st now' k)"
  using assms by (auto simp: session_after_def live_destroy)

lemma session_after_untouched:
  assumes "handle_session h = None \<or> (\<exists>s. handle_session h = Some s \<and> \<not> isDirty s \<and> \<not> isInvalidated s)"
  shows "session_after sc save destroy now fresh h response st = (response, h, st)"
  using assms by (auto simp: session_after_def)

text \<open>
  A session is stored with its flags, and loading it only clears \<open>isNew\<close>: a request that only reads it finds it dirty and saves it again.
\<close>

lemma loaded_saved_again:
  assumes "live st now sid = Some s" "isDirty s" "\<not> isInvalidated s" "sid \<noteq> []" "0 \<le> ttl"
    and "handle_get load now (new_handle sid) st = (s1, h, st1)"
    and "session_after sc save destroy now fresh h response st1 = (response', h', st2)"
  shows "s1 = session_markLoaded s \<and> live st2 now sid = Some s1 \<and> session_cookie sc sid \<in> set (cookies_of response')"
proof -
  have h: "s1 = session_markLoaded s" "h = \<lparr>handle_id = sid, handle_session = Some s1\<rparr>"
    using assms(1,4,6) load_result [of now sid st] by (auto simp: handle_get_def new_handle_def Let_def split: prod.splits)
  have "handle_session h = Some s1" "isDirty s1" "\<not> isInvalidated s1" using h assms(2,3) by (simp_all add: session_markLoaded_def)
  from session_after_saved [OF this assms(7)] show ?thesis using h assms(4,5) by auto
qed

text \<open>An identifier that the client made up becomes the identifier of the new session.\<close>

lemma session_fixation:
  assumes "sanitize sc sid = sid" "sid \<noteq> []" "live st now sid = None"
    and "handle_get load now (new_handle sid) st = (s, h, st1)"
    and "session_after sc save destroy now fresh (h\<lparr>handle_session := Some (session_set k v s)\<rparr>) response st1 = (response', h', st2)"
  shows "live st2 now sid = Some (session_set k v new_session) \<or> ttl < 0"
proof -
  have h: "s = new_session" "h = \<lparr>handle_id = sid, handle_session = Some new_session\<rparr>"
    using assms(2-4) load_result [of now sid st]
    by (auto simp: handle_get_def new_handle_def Let_def split: prod.splits)
  have s: "isDirty (session_set k v s)" "\<not> isInvalidated (session_set k v s)" using h by (simp_all add: session_set_def new_session_def)
  have "handle_session (h\<lparr>handle_session := Some (session_set k v s)\<rparr>) = Some (session_set k v s)" by simp
  from session_after_saved [OF this s assms(5)] show ?thesis using assms(2) h by auto
qed

end

end
