(* ===== verification/MimeTypes.thy ===== *)
theory MimeTypes
  imports StringUtils
begin

text \<open>The table of \<open>rukh/include/rukh/http/MimeTypes.hpp\<close>, and the extension of a file name by which it is looked up.\<close>

definition MIME_TYPES :: "(string \<times> string) list" where
  "MIME_TYPES =
     [(''.html'', ''text/html''), (''.htm'', ''text/html''), (''.xhtml'', ''application/xhtml+xml''),
      (''.css'', ''text/css''), (''.js'', ''application/javascript''), (''.mjs'', ''application/javascript''),
      (''.json'', ''application/json''), (''.jsonld'', ''application/ld+json''), (''.xml'', ''application/xml''),
      (''.xsl'', ''application/xml''), (''.xslt'', ''application/xslt+xml''), (''.rss'', ''application/rss+xml''),
      (''.atom'', ''application/atom+xml''), (''.jpg'', ''image/jpeg''), (''.jpeg'', ''image/jpeg''),
      (''.jpe'', ''image/jpeg''), (''.png'', ''image/png''), (''.gif'', ''image/gif''), (''.bmp'', ''image/bmp''),
      (''.webp'', ''image/webp''), (''.svg'', ''image/svg+xml''), (''.svgz'', ''image/svg+xml''),
      (''.ico'', ''image/x-icon''), (''.cur'', ''image/x-icon''), (''.tif'', ''image/tiff''),
      (''.tiff'', ''image/tiff''), (''.avif'', ''image/avif''), (''.heic'', ''image/heic''),
      (''.heif'', ''image/heif''), (''.apng'', ''image/apng''), (''.woff'', ''font/woff''),
      (''.woff2'', ''font/woff2''), (''.ttf'', ''font/ttf''), (''.otf'', ''font/otf''),
      (''.eot'', ''application/vnd.ms-fontobject''), (''.txt'', ''text/plain''), (''.csv'', ''text/csv''),
      (''.pdf'', ''application/pdf''), (''.rtf'', ''application/rtf''), (''.doc'', ''application/msword''),
      (''.dot'', ''application/msword''),
      (''.docx'', ''application/vnd.openxmlformats-officedocument.wordprocessingml.document''),
      (''.dotx'', ''application/vnd.openxmlformats-officedocument.wordprocessingml.template''),
      (''.xls'', ''application/vnd.ms-excel''), (''.xlt'', ''application/vnd.ms-excel''),
      (''.xlsx'', ''application/vnd.openxmlformats-officedocument.spreadsheetml.sheet''),
      (''.xltx'', ''application/vnd.openxmlformats-officedocument.spreadsheetml.template''),
      (''.ppt'', ''application/vnd.ms-powerpoint''), (''.pot'', ''application/vnd.ms-powerpoint''),
      (''.pps'', ''application/vnd.ms-powerpoint''),
      (''.pptx'', ''application/vnd.openxmlformats-officedocument.presentationml.presentation''),
      (''.potx'', ''application/vnd.openxmlformats-officedocument.presentationml.template''),
      (''.ppsx'', ''application/vnd.openxmlformats-officedocument.presentationml.slideshow''),
      (''.pages'', ''application/vnd.apple.pages''), (''.zip'', ''application/zip''), (''.gz'', ''application/gzip''),
      (''.tgz'', ''application/gzip''), (''.tar'', ''application/x-tar''), (''.rar'', ''application/vnd.rar''),
      (''.7z'', ''application/x-7z-compressed''), (''.bz2'', ''application/x-bzip2''), (''.xz'', ''application/x-xz''),
      (''.mp3'', ''audio/mpeg''), (''.mpega'', ''audio/mpeg''), (''.mpga'', ''audio/mpeg''), (''.wav'', ''audio/wav''),
      (''.wave'', ''audio/wav''), (''.ogg'', ''audio/ogg''), (''.oga'', ''audio/ogg''), (''.opus'', ''audio/opus''),
      (''.flac'', ''audio/flac''), (''.aac'', ''audio/aac''), (''.m4a'', ''audio/mp4''), (''.m4b'', ''audio/mp4''),
      (''.m4r'', ''audio/mp4''), (''.amr'', ''audio/amr''), (''.weba'', ''audio/webm''), (''.mid'', ''audio/midi''),
      (''.midi'', ''audio/midi''), (''.mp4'', ''video/mp4''), (''.m4v'', ''video/mp4''), (''.webm'', ''video/webm''),
      (''.ogv'', ''video/ogg''), (''.mov'', ''video/quicktime''), (''.qt'', ''video/quicktime''),
      (''.avi'', ''video/x-msvideo''), (''.wmv'', ''video/x-ms-wmv''), (''.flv'', ''video/x-flv''),
      (''.mkv'', ''video/x-matroska''), (''.mk3d'', ''video/x-matroska''), (''.mks'', ''video/x-matroska''),
      (''.mpg'', ''video/mpeg''), (''.mpeg'', ''video/mpeg''), (''.mpe'', ''video/mpeg''), (''.ts'', ''video/mp2t''),
      (''.3gp'', ''video/3gpp''), (''.3g2'', ''video/3gpp2''), (''.wasm'', ''application/wasm''),
      (''.bin'', ''application/octet-stream''), (''.exe'', ''application/octet-stream''),
      (''.dll'', ''application/octet-stream''), (''.dat'', ''application/octet-stream''),
      (''.iso'', ''application/octet-stream''), (''.yaml'', ''text/yaml''), (''.yml'', ''text/yaml''),
      (''.toml'', ''application/toml''), (''.markdown'', ''text/markdown''), (''.md'', ''text/markdown''),
      (''.epub'', ''application/epub+zip''), (''.azw3'', ''application/vnd.amazon.ebook''),
      (''.kml'', ''application/vnd.google-earth.kml+xml''), (''.kmz'', ''application/vnd.google-earth.kmz''),
      (''.gpx'', ''application/gpx+xml''), (''.geojson'', ''application/geo+json'')]"

text \<open>\<open>path::extension\<close>: from the last dot of the file name on, unless the name starts with it or is a dot directory.\<close>

definition filename :: "string \<Rightarrow> string" where
  "filename p = (case find_char CHR ''/'' (rev p) of Some i \<Rightarrow> rev (take i (rev p)) | None \<Rightarrow> p)"

definition extension :: "string \<Rightarrow> string" where
  "extension p =
     (let f = filename p in
      if f = ''.'' \<or> f = ''..'' then []
      else case find_char CHR ''.'' (rev f) of
        None \<Rightarrow> []
      | Some i \<Rightarrow> if i + 1 = length f then [] else drop (length f - i - 1) f)"

definition mime_of :: "string \<Rightarrow> string" where
  "mime_of p = getOrDefault MIME_TYPES (extension p) ''application/octet-stream''"

lemma filename_plain: "CHR ''/'' \<notin> set f \<Longrightarrow> filename f = f"
proof -
  assume "CHR ''/'' \<notin> set f"
  then have "find_char CHR ''/'' (rev f) = None" by (auto simp: find_idx_None)
  then show ?thesis by (simp add: filename_def)
qed

lemma filename_append: "CHR ''/'' \<notin> set f \<Longrightarrow> filename (d @ ''/'' @ f) = f"
proof -
  assume "CHR ''/'' \<notin> set f"
  then have "find_char CHR ''/'' (rev f @ CHR ''/'' # rev d) = Some (length f)"
    using find_idx_here [of "rev f" "\<lambda>c. c = CHR ''/''" "CHR ''/''" "rev d"] by auto
  then show ?thesis by (simp add: filename_def)
qed

lemma extension_dot:
  assumes "CHR ''/'' \<notin> set b" "CHR ''/'' \<notin> set e" "CHR ''.'' \<notin> set e" "b \<noteq> []" "b @ e \<noteq> ''.''"
  shows "extension (d @ ''/'' @ b @ ''.'' @ e) = ''.'' @ e"
proof -
  let ?f = "b @ ''.'' @ e"
  have f: "filename (d @ ''/'' @ ?f) = ?f" by (rule filename_append) (use assms in auto)
  have "find_char CHR ''.'' (rev e @ CHR ''.'' # rev b) = Some (length e)"
    using find_idx_here [of "rev e" "\<lambda>c. c = CHR ''.''" "CHR ''.''" "rev b"] assms(3) by auto
  moreover have "?f \<noteq> ''.''" "?f \<noteq> ''..''" using assms(4,5) by (cases b; cases e; auto)+
  ultimately show ?thesis unfolding extension_def Let_def f using assms(4) by simp
qed

end
