(* ===== verification/FileReader.thy ===== *)
theory FileReader
  imports Config
begin

text \<open>
  Reading and writing files: \<open>rukh/include/rukh/core/AsyncFileReader.hpp\<close> and
  \<open>rukh/include/rukh/core/AsyncFileWriter.hpp\<close>. The ring's read of \<open>len\<close> bytes at an offset is an
  argument: its result \<open>rd\<close> (negative on an error), and the bytes of the file.

  \<open>readAll\<close>, \<open>readAllInto\<close> and \<open>readChunk\<close> have the bytes put into storage that is reserved but lies past the end of the
  string, and then resize it: that fills the new elements with zero bytes.
\<close>

record file_reader =
  fr_fileSize :: "nat option"
  fr_offset :: nat

definition new_reader :: "nat option \<Rightarrow> file_reader" where
  "new_reader sz = \<lparr>fr_fileSize = sz, fr_offset = 0\<rparr>"

definition reader_seek :: "nat \<Rightarrow> file_reader \<Rightarrow> file_reader" where
  "reader_seek off r = r\<lparr>fr_offset := off\<rparr>"

definition reader_setFileSize :: "nat \<Rightarrow> file_reader \<Rightarrow> file_reader" where
  "reader_setFileSize sz r = r\<lparr>fr_fileSize := Some sz\<rparr>"

definition reader_readAll :: "(nat \<Rightarrow> nat \<Rightarrow> int) \<Rightarrow> file_reader \<Rightarrow> bytes result" where
  "reader_readAll rd r =
     (case fr_fileSize r of
        None \<Rightarrow> Inl (RuntimeError ''readAll(): File size not set'')
      | Some sz \<Rightarrow>
          let n = rd (fr_offset r) sz in
          if n < 0 then Inl (RuntimeError ''readAll(): File Read Awaitable failed'')
          else Inr (replicate (nat n) NUL))"

definition reader_readAllInto :: "(nat \<Rightarrow> nat \<Rightarrow> int) \<Rightarrow> bytes \<Rightarrow> file_reader \<Rightarrow> bytes \<Rightarrow> bytes result" where
  "reader_readAllInto rd file r buf =
     (case fr_fileSize r of
        None \<Rightarrow> Inl (RuntimeError ''readAllInto(): File size not set'')
      | Some sz \<Rightarrow>
          let n = rd (fr_offset r) sz in
          if n < 0 then Inl (RuntimeError ''readAllInto(): File Read Awaitable failed'')
          else Inr (take (min (nat n) (length buf)) (drop (fr_offset r) file) @ replicate (nat n - length buf) NUL))"

definition reader_readChunk :: "(nat \<Rightarrow> nat \<Rightarrow> int) \<Rightarrow> nat \<Rightarrow> file_reader \<Rightarrow> bytes option result \<times> file_reader" where
  "reader_readChunk rd sz r =
     (let n = rd (fr_offset r) sz in
      if n < 0 then (Inl (RuntimeError ''readChunk(): File Read Awaitable failed''), r)
      else if n = 0 then (Inr None, r)
      else (Inr (Some (replicate (nat n) NUL)), r\<lparr>fr_offset := fr_offset r + nat n\<rparr>))"

text \<open>Into a span of the caller: the bytes are kept, a short read is refused.\<close>

definition reader_readChunkInto :: "(nat \<Rightarrow> nat \<Rightarrow> int) \<Rightarrow> bytes \<Rightarrow> nat \<Rightarrow> file_reader \<Rightarrow> (bool \<times> bytes) result \<times> file_reader" where
  "reader_readChunkInto rd file sz r =
     (let n = rd (fr_offset r) sz in
      if n < 0 then (Inl (RuntimeError ''readChunk(): File Read Awaitable failed''), r)
      else
        let span = take (nat n) (drop (fr_offset r) file) @ replicate (sz - nat n) NUL in
        if nat n < sz then (Inr (False, span), r)
        else (Inr (True, span), r\<lparr>fr_offset := fr_offset r + nat n\<rparr>))"

text \<open>A file that is read whole comes out as zero bytes.\<close>

lemma readAll_zeros: "reader_readAll rd r = Inr bs \<Longrightarrow> set bs \<subseteq> {NUL}"
  by (auto simp: reader_readAll_def Let_def split: option.splits if_splits)

lemma readAllInto_zeros: "reader_readAllInto rd file r [] = Inr bs \<Longrightarrow> set bs \<subseteq> {NUL}"
  by (auto simp: reader_readAllInto_def Let_def split: option.splits if_splits)

lemma readAllInto_zero_byte: "reader_readAllInto rd file r [] = Inr bs \<Longrightarrow> x \<in> set bs \<Longrightarrow> x = NUL"
  using readAllInto_zeros by fastforce

lemma readAllInto_length:
  "reader_readAllInto rd file r [] = Inr bs \<Longrightarrow> fr_fileSize r = Some sz \<Longrightarrow> rd (fr_offset r) sz = int (length bs)"
  by (auto simp: reader_readAllInto_def Let_def split: if_splits)

lemma readChunkInto_exact:
  assumes "reader_readChunkInto rd file sz r = (Inr (True, bs), r')" "rd (fr_offset r) sz = int (min sz (length file - fr_offset r))"
  shows "bs = take sz (drop (fr_offset r) file) \<and> length bs = sz \<and> fr_offset r' = fr_offset r + sz"
  using assms by (auto simp: reader_readChunkInto_def Let_def min_def split: if_splits)

section \<open>Writing\<close>

text \<open>
  The ring's write gives the number of bytes it took, or a negative number; \<open>wr pos n\<close> is that result. A write at an
  offset past the end fills the gap with zero bytes. \<open>fw_pos\<close> is the position of the descriptor, which a write with
  offset \<open>-1\<close> uses and moves.
\<close>

record file_writer =
  fw_offset :: nat
  fw_pos :: nat
  fw_file :: bytes

definition new_writer :: file_writer where
  "new_writer = \<lparr>fw_offset = 0, fw_pos = 0, fw_file = []\<rparr>"

definition write_at :: "nat \<Rightarrow> bytes \<Rightarrow> bytes \<Rightarrow> bytes" where
  "write_at pos d file = take pos (file @ replicate (pos - length file) NUL) @ d @ drop (pos + length d) file"

definition writer_writeAll :: "(nat \<Rightarrow> nat \<Rightarrow> int) \<Rightarrow> bytes \<Rightarrow> file_writer \<Rightarrow> bool \<times> file_writer" where
  "writer_writeAll wr d w =
     (let n = wr (fw_pos w) (length d) in
      (n = int (length d),
       if n < 0 then w
       else w\<lparr>fw_file := write_at (fw_pos w) (take (nat n) d) (fw_file w), fw_pos := fw_pos w + nat n\<rparr>))"

definition writer_writeChunk :: "(nat \<Rightarrow> nat \<Rightarrow> int) \<Rightarrow> bytes \<Rightarrow> file_writer \<Rightarrow> bool \<times> file_writer" where
  "writer_writeChunk wr d w =
     (let n = wr (fw_offset w) (length d) in
      if n < 0 then (False, w)
      else (True, w\<lparr>fw_file := write_at (fw_offset w) (take (nat n) d) (fw_file w), fw_offset := fw_offset w + nat n\<rparr>))"

text \<open>Chunks that are written in full come out one after the other.\<close>

definition full_writes :: "nat \<Rightarrow> nat \<Rightarrow> int" where
  "full_writes pos n = int n"

lemma write_at_end: "write_at (length f) d f = f @ d"
  by (simp add: write_at_def)

lemma chunks_in_order:
  "fw_offset w = length (fw_file w) \<Longrightarrow>
     (let w' = fold (\<lambda>d v. snd (writer_writeChunk full_writes d v)) ds w in
      fw_file w' = fw_file w @ concat ds \<and> fw_offset w' = length (fw_file w'))"
  by (induction ds arbitrary: w) (simp_all add: writer_writeChunk_def full_writes_def write_at_end Let_def)

text \<open>A short write is reported as success, and the rest of the chunk is in nobody's hands.\<close>

lemma short_chunk_succeeds:
  assumes "wr (fw_offset w) (length d) = int k" "k < length d"
  shows "writer_writeChunk wr d w = (True, w\<lparr>fw_file := write_at (fw_offset w) (take k d) (fw_file w), fw_offset := fw_offset w + k\<rparr>)"
  using assms by (simp add: writer_writeChunk_def)

text \<open>A chunk after \<open>writeAll\<close> goes to the start of the file, over what was written.\<close>

lemma chunk_overwrites: "fw_file (snd (writer_writeChunk full_writes ''cd'' (snd (writer_writeAll full_writes ''ab'' new_writer)))) = ''cd''"
  by (simp add: writer_writeChunk_def writer_writeAll_def full_writes_def new_writer_def write_at_def)

section \<open>Who closes the descriptor\<close>

text \<open>
  The descriptor of a reader with the flag \<open>ownsFd_\<close>, and that of a writer, over the descriptors that were closed. Opening
  gives \<open>-1\<close> if it fails; a reader that was opened owns its descriptor. \<open>sz\<close> is \<open>file_size\<close>.
\<close>

record owned_fd =
  own_fd :: int
  ownsFd :: bool

definition reader_open :: "int \<Rightarrow> nat \<Rightarrow> (owned_fd \<times> file_reader) option" where
  "reader_open fd sz = (if fd = -1 then None else Some (\<lparr>own_fd = fd, ownsFd = True\<rparr>, new_reader (Some sz)))"

definition reader_destroy :: "owned_fd \<Rightarrow> int list \<Rightarrow> int list" where
  "reader_destroy r closed = (if ownsFd r \<and> own_fd r \<noteq> -1 then closed @ [own_fd r] else closed)"

definition reader_move :: "owned_fd \<Rightarrow> owned_fd \<times> owned_fd" where
  "reader_move other = (other, other\<lparr>own_fd := -1\<rparr>)"

definition reader_move_assign :: "owned_fd \<Rightarrow> owned_fd \<Rightarrow> owned_fd \<times> owned_fd" where
  "reader_move_assign self other = (other, other\<lparr>own_fd := -1\<rparr>)"

definition writer_open :: "int \<Rightarrow> (int \<times> file_writer) option" where
  "writer_open fd = (if fd = -1 then None else Some (fd, new_writer))"

definition writer_destroy :: "int \<Rightarrow> int list \<Rightarrow> int list" where
  "writer_destroy fd closed = (if fd \<noteq> -1 then closed @ [fd] else closed)"

definition writer_move :: "int \<Rightarrow> int \<times> int" where
  "writer_move other = (other, -1)"

definition writer_move_assign :: "int \<Rightarrow> int \<Rightarrow> int list \<Rightarrow> int \<times> int \<times> int list" where
  "writer_move_assign self other closed = (other, -1, writer_destroy self closed)"

lemma reader_move_closes_once:
  assumes "reader_open fd sz = Some (r, f)"
  shows "(case reader_move r of (new, old) \<Rightarrow> reader_destroy old (reader_destroy new [])) = [fd]"
  using assms by (auto simp: reader_open_def reader_move_def reader_destroy_def split: if_splits)

lemma writer_assign_closes_once:
  assumes "a \<noteq> -1" "b \<noteq> -1"
  shows "(case writer_move_assign a b [] of (t, s, cl) \<Rightarrow> writer_destroy s (writer_destroy t cl)) = [a, b]"
  using assms by (simp add: writer_move_assign_def writer_destroy_def)

text \<open>Assigning to a reader does not close the descriptor it had, though the assignment of a writer does.\<close>

lemma reader_assign_leaks:
  assumes "ownsFd b" "own_fd b \<noteq> -1"
  shows "(case reader_move_assign a b of (t, s) \<Rightarrow> reader_destroy s (reader_destroy t [])) = [own_fd b]"
  using assms by (simp add: reader_move_assign_def reader_destroy_def)

end
