(* ===== verification/StaticFiles.thy ===== *)
theory StaticFiles
  imports Middlewares MimeTypes FileReader
begin

text \<open>
  Static files: \<open>rukh/src/http/middleware/StaticMiddleware.cpp\<close>, \<open>rukh/include/rukh/core/FileCache.hpp\<close>.

  The file system is a record of its operations on a state \<open>'fs\<close>. Times are ticks of the file clock; the conversion to
  seconds is an argument, as are the parser of HTTP dates, the compressors and the name of the thread in the boundary.
\<close>

section \<open>The file cache\<close>

record cached_file =
  cf_fd :: int
  cf_size :: nat
  cf_mtime :: int
  cf_etag :: string
  cf_mime :: string
  cf_resolvedPath :: string
  cf_cachedContent :: "bytes option"

type_synonym file_cache = "string \<Rightarrow> cached_file option"

definition cache_get :: "file_cache \<Rightarrow> string \<Rightarrow> cached_file option" where
  "cache_get m key = m key"

definition cache_insert :: "string \<Rightarrow> cached_file \<Rightarrow> file_cache \<Rightarrow> file_cache" where
  "cache_insert key cf m = m(key := Some cf)"

definition cache_evict :: "string \<Rightarrow> file_cache \<Rightarrow> file_cache" where
  "cache_evict key m = m(key := None)"

section \<open>The world outside\<close>

record 'fs file_system =
  fs_canonical :: "string \<Rightarrow> 'fs \<Rightarrow> string"
  fs_exists :: "string \<Rightarrow> 'fs \<Rightarrow> bool"
  fs_is_directory :: "string \<Rightarrow> 'fs \<Rightarrow> bool"
  fs_open :: "string \<Rightarrow> 'fs \<Rightarrow> errno + nat"
  fs_size :: "string \<Rightarrow> 'fs \<Rightarrow> nat"
  fs_mtime :: "string \<Rightarrow> 'fs \<Rightarrow> int"
  fs_content :: "int \<Rightarrow> 'fs \<Rightarrow> bytes"
  fs_read :: "int \<Rightarrow> 'fs \<Rightarrow> nat \<Rightarrow> nat \<Rightarrow> int"
  fs_open_tmp :: "string \<Rightarrow> 'fs \<Rightarrow> bool \<times> 'fs"
  fs_write_all :: "string \<Rightarrow> bytes \<Rightarrow> 'fs \<Rightarrow> bool \<times> 'fs"
  fs_rename :: "string \<Rightarrow> string \<Rightarrow> 'fs \<Rightarrow> bool \<times> 'fs"
  fs_remove :: "string \<Rightarrow> 'fs \<Rightarrow> 'fs"
  fs_tmp_name :: "string \<Rightarrow> 'fs \<Rightarrow> string"

record 'fs static_env =
  se_cfg :: server_config
  se_fs :: "'fs file_system"
  se_strtof :: "string \<Rightarrow> nat"
  se_sort_prefs :: "qvalues \<Rightarrow> qvalues"
  se_sort_ranges :: "(nat \<times> nat) list \<Rightarrow> (nat \<times> nat) list"
  se_junk :: nat
  se_build_error :: "http_request \<Rightarrow> int \<Rightarrow> http_response"
  se_compress :: "encoding \<Rightarrow> bytes \<Rightarrow> bytes result"
  se_seconds :: "int \<Rightarrow> int"
  se_parse_date :: "string \<Rightarrow> int option"
  se_thread :: string

record static_config =
  st_root :: string
  st_prefix :: string
  st_mimeCacheControl :: "(string \<times> string) list"
  st_defaultCacheControl :: string
  st_canonicalRoot :: string
  st_compressedRoot :: string

record 'fs static_state =
  ss_cache :: file_cache
  ss_fs :: 'fs

section \<open>Helpers\<close>

function etagMatches :: "string \<Rightarrow> string \<Rightarrow> bool" where
  "etagMatches cacheHeader etag =
     (if cacheHeader = [] then False
      else
        (let (token, rest) = cut CHR '','' cacheHeader in
         if trim token = etag then True
         else (case rest of None \<Rightarrow> False | Some r \<Rightarrow> etagMatches r etag)))"
  by pat_completeness auto
termination
  by (relation "measure (\<lambda>(h, e). length h)") (auto dest!: sym [of "(_, _)" "cut _ _"] cut_shorter)

declare etagMatches.simps [simp del]

definition constructContentRange :: "nat \<Rightarrow> nat \<Rightarrow> nat \<Rightarrow> string" where
  "constructContentRange start end fileSize =
     ''content-range: bytes '' @ to_dec start @ ''-'' @ to_dec end @ ''/'' @ to_dec fileSize"

definition int_text :: "int \<Rightarrow> string" where
  "int_text i = (if i < 0 then ''-'' @ to_dec (nat (- i)) else to_dec (nat i))"

definition generateETag :: "int \<Rightarrow> nat \<Rightarrow> string \<Rightarrow> string" where
  "generateETag mtime sz compression = [CHR 34] @ int_text mtime @ ''-'' @ to_dec sz @ ''-'' @ compression @ [CHR 34]"

definition path_append :: "string \<Rightarrow> string \<Rightarrow> string" where
  "path_append p q =
     (if q \<noteq> [] \<and> hd q = CHR ''/'' then q
      else if p = [] \<or> last p = CHR ''/'' then p @ q else p @ ''/'' @ q)"

definition addCacheHeaders :: "string \<Rightarrow> int \<Rightarrow> string \<Rightarrow> header_store \<Rightarrow> header_store" where
  "addCacheHeaders etag lastWrite cacheControl hs =
     (let hs1 = hs_setCacheControl cacheControl hs in
      if find_sub ''no-store'' cacheControl \<noteq> None then hs1
      else hs_setHeaderLower ''last-modified'' (toHttpDate lastWrite) (hs_setHeaderLower ''etag'' etag hs1))"

text \<open>\<open>StaticMiddleware::buildErrorResponse\<close>.\<close>

definition static_error :: "'fs static_env \<Rightarrow> http_request \<Rightarrow> int \<Rightarrow> http_response" where
  "static_error env req code =
     (let r = se_build_error env req code;
          r1 = r\<lparr>resp_headers := hs_addHeaderLower ''accept-ranges'' ''bytes'' (resp_headers r)\<rparr>
      in if req_method req = ''HEAD'' then stripBody r1 else r1)"

section \<open>Looking up files\<close>

definition lookup_new :: "'fs static_env \<Rightarrow> static_config \<Rightarrow> string \<Rightarrow> string \<Rightarrow> 'fs static_state \<Rightarrow>
    ((int + cached_file) result \<times> 'fs static_state)" where
  "lookup_new env sc key resolved st =
     (let fs = se_fs env; s = ss_fs st in
      case fs_open fs resolved s of
        Inl e \<Rightarrow> (Inr (Inl (if e = EACCES \<or> e = EPERM then 403 else 500)), st)
      | Inr fd \<Rightarrow>
          let sz = fs_size fs resolved s; mtime = fs_mtime fs resolved s;
              cf = \<lparr>cf_fd = int fd, cf_size = sz, cf_mtime = mtime, cf_etag = generateETag mtime sz [],
                cf_mime = mime_of resolved, cf_resolvedPath = resolved, cf_cachedContent = None\<rparr> in
          if sz < FILE_CONTENT_CACHE_THRESHOLD (se_cfg env) then
            (case reader_readAllInto (fs_read fs (int fd) s) (fs_content fs (int fd) s) (new_reader (Some sz)) [] of
               Inl e \<Rightarrow> (Inl e, st)
             | Inr bs \<Rightarrow>
                 let cf1 = cf\<lparr>cf_cachedContent := Some bs\<rparr>
                 in (Inr (Inr cf1), st\<lparr>ss_cache := cache_insert key cf1 (ss_cache st)\<rparr>))
          else (Inr (Inr cf), st\<lparr>ss_cache := cache_insert key cf (ss_cache st)\<rparr>))"

definition lookupOrOpen :: "'fs static_env \<Rightarrow> static_config \<Rightarrow> string \<Rightarrow> 'fs static_state \<Rightarrow>
    ((int + cached_file) result \<times> 'fs static_state)" where
  "lookupOrOpen env sc key st =
     (case cache_get (ss_cache st) key of
        Some cf \<Rightarrow> (Inr (Inr cf), st)
      | None \<Rightarrow>
          let fs = se_fs env; s = ss_fs st;
              resolved = fs_canonical fs (path_append (st_canonicalRoot sc) key) s in
          if \<not> prefix (st_canonicalRoot sc) resolved then (Inr (Inl 403), st)
          else if \<not> fs_exists fs resolved s then (Inr (Inl 404), st)
          else if fs_is_directory fs resolved s then
            let index = path_append resolved ''index.html'' in
            if \<not> fs_exists fs index s then (Inr (Inl 404), st) else lookup_new env sc key index st
          else lookup_new env sc key resolved st)"

definition lookupOrBuildCompressed :: "'fs static_env \<Rightarrow> static_config \<Rightarrow> string \<Rightarrow> encoding \<Rightarrow> cached_file \<Rightarrow> 'fs static_state \<Rightarrow>
    ((int + cached_file) result \<times> 'fs static_state)" where
  "lookupOrBuildCompressed env sc relative enc source st =
     (let key = relative @ ''|'' @ getEncoding enc; fs = se_fs env; s = ss_fs st in
      case cache_get (ss_cache st) key of
        Some cf \<Rightarrow> (Inr (Inr cf), st)
      | None \<Rightarrow>
          (case bind_result (reader_readAll (fs_read fs (cf_fd source) s) (new_reader (Some (cf_size source)))) (se_compress env enc) of
             Inl e \<Rightarrow> (Inl e, st)
           | Inr compressed \<Rightarrow>
               let path = path_append (st_compressedRoot sc) (relative @ ''.'' @ getEncoding enc);
                   tmp = fs_tmp_name fs path s;
                   (opened, s1) = fs_open_tmp fs tmp s in
               if \<not> opened then (Inr (Inl 500), st\<lparr>ss_fs := s1\<rparr>)
               else
                 let (written, s2) = fs_write_all fs tmp compressed s1 in
                 if \<not> written then (Inr (Inl 500), st\<lparr>ss_fs := fs_remove fs tmp s2\<rparr>)
                 else
                   let (renamed, s3) = fs_rename fs tmp path s2 in
                   if \<not> renamed then (Inr (Inl 500), st\<lparr>ss_fs := fs_remove fs tmp s3\<rparr>)
                   else
                     (case fs_open fs path s3 of
                        Inl e \<Rightarrow> (Inr (Inl 500), st\<lparr>ss_fs := s3\<rparr>)
                      | Inr fd \<Rightarrow>
                          let cf = \<lparr>cf_fd = int fd, cf_size = length compressed, cf_mtime = cf_mtime source,
                                cf_etag = generateETag (cf_mtime source) (length compressed) (getEncoding enc),
                                cf_mime = cf_mime source, cf_resolvedPath = path, cf_cachedContent = None\<rparr>
                          in (Inr (Inr cf), st\<lparr>ss_fs := s3, ss_cache := cache_insert key cf (ss_cache st)\<rparr>))))"

section \<open>Negotiating the encoding\<close>

fun pick_encoding :: "qvalues \<Rightarrow> encoding option" where
  "pick_encoding [] = None"
| "pick_encoding ((e, q) # prefs) =
     (case getCompressor e of
        Some c \<Rightarrow> Some c
      | None \<Rightarrow> if e = ''identity'' then None else pick_encoding prefs)"

definition is_compressible :: "server_config \<Rightarrow> http_request \<Rightarrow> cached_file \<Rightarrow> bool" where
  "is_compressible cfg req cf \<longleftrightarrow>
     getHeaderLower req ''range'' = [] \<and> ENABLE_STATIC_COMPRESSION cfg \<and> getHeaderLower req ''accept-encoding'' \<noteq> []
     \<and> cf_mime cf \<in> set compressibleMimeTypes \<and> cf_size cf \<ge> COMPRESS_MIN_BYTES cfg"

text \<open>What is sent: the descriptor, the size, the entity tag, and the encoding; \<open>Inl\<close> is an error status.\<close>

record served =
  sv_fd :: int
  sv_size :: nat
  sv_etag :: string
  sv_encoding :: "encoding option"

definition choose_content :: "'fs static_env \<Rightarrow> static_config \<Rightarrow> http_request \<Rightarrow> string \<Rightarrow> cached_file \<Rightarrow> 'fs static_state \<Rightarrow>
    ((int + served) result \<times> 'fs static_state)" where
  "choose_content env sc req relative cf st =
     (let plain = \<lparr>sv_fd = cf_fd cf, sv_size = cf_size cf, sv_etag = cf_etag cf, sv_encoding = None\<rparr> in
      if \<not> is_compressible (se_cfg env) req cf then (Inr (Inr plain), st)
      else
        let (prefs, excluded) = parseQValues (se_strtof env) (toLowerCase (getHeaderLower req ''accept-encoding'')) in
        (case pick_encoding (se_sort_prefs env prefs) of
           None \<Rightarrow> if ''identity'' \<in> set excluded then (Inr (Inl 406), st) else (Inr (Inr plain), st)
         | Some enc \<Rightarrow>
             (case lookupOrBuildCompressed env sc relative enc cf st of
                (Inl e, st1) \<Rightarrow> (Inl e, st1)
              | (Inr (Inl code), st1) \<Rightarrow> (Inr (Inl code), st1)
              | (Inr (Inr z), st1) \<Rightarrow>
                  (Inr (Inr \<lparr>sv_fd = cf_fd z, sv_size = cf_size z, sv_etag = cf_etag z, sv_encoding = Some enc\<rparr>), st1))))"

section \<open>Conditional requests and ranges\<close>

text \<open>\<open>None\<close>: the request is not answered here.\<close>

definition not_modified :: "string \<Rightarrow> int \<Rightarrow> string \<Rightarrow> http_response" where
  "not_modified etag lastWrite cacheControl =
     (let r = new_response 304 in
      r\<lparr>resp_headers := hs_addHeaderLower ''accept-ranges'' ''bytes'' (hs_addHeaderLower ''vary'' ''accept-encoding''
        (addCacheHeaders etag lastWrite cacheControl (resp_headers r)))\<rparr>)"

definition conditional :: "'fs static_env \<Rightarrow> http_request \<Rightarrow> string \<Rightarrow> int \<Rightarrow> string \<Rightarrow> http_response option" where
  "conditional env req etag lastWrite cacheControl =
     (let ifNoneMatch = getHeaderLower req ''if-none-match''; ifModifiedSince = getHeaderLower req ''if-modified-since'' in
      if find_sub ''no-store'' cacheControl \<noteq> None \<or> getHeaderLower req ''range'' \<noteq> [] then None
      else if ifNoneMatch \<noteq> [] \<and> etagMatches ifNoneMatch etag then Some (not_modified etag lastWrite cacheControl)
      else if ifModifiedSince \<noteq> [] then
        (case se_parse_date env ifModifiedSince of
           None \<Rightarrow> Some (static_error env req 400)
         | Some d \<Rightarrow> if lastWrite \<le> d then Some (not_modified etag lastWrite cacheControl) else None)
      else None)"

definition use_range :: "'fs static_env \<Rightarrow> http_request \<Rightarrow> string \<Rightarrow> int \<Rightarrow> (nat \<times> nat) list \<Rightarrow> bool" where
  "use_range env req etag lastWrite ranges =
     (let ifRange = getHeaderLower req ''if-range'' in
      if ranges = [] then False
      else if ifRange = [] then True
      else if hd ifRange = CHR 34 then etagMatches ifRange etag
      else (case se_parse_date env ifRange of Some d \<Rightarrow> lastWrite \<le> d | None \<Rightarrow> False))"

text \<open>\<open>digit_count\<close> takes an \<open>int\<close>: the size is converted to 32 bits.\<close>

definition to_int32 :: "nat \<Rightarrow> int" where
  "to_int32 n = (int n + 2147483648) mod 4294967296 - 2147483648"

definition boundary_core :: "'fs static_env \<Rightarrow> string" where
  "boundary_core env = ''Boundary'' @ se_thread env"

definition part_size :: "nat \<Rightarrow> nat \<Rightarrow> nat \<Rightarrow> nat \<times> nat \<Rightarrow> nat" where
  "part_size delimiterSize contentTypeSize contentSize r =
     (delimiterSize + 2)
     + (length ''content-range: bytes '' + length ''-'' + length ''/'' + 2
        + digit_count (to_int32 (fst r)) + digit_count (to_int32 (snd r)) + digit_count (to_int32 contentSize))
     + contentTypeSize + 2 + (snd r - fst r + 1 + 2)"

definition total_size :: "string \<Rightarrow> string \<Rightarrow> nat \<Rightarrow> bool \<Rightarrow> (nat \<times> nat) list \<Rightarrow> nat" where
  "total_size core mime contentSize useRange ranges =
     (if useRange \<and> length ranges > 1 then
        sum_list (map (part_size (length core + 2) (length (''content-type: '' @ mime @ crlf)) contentSize) ranges)
        + (length core + 2 + 4)
      else if useRange then snd (ranges ! 0) - fst (ranges ! 0) + 1
      else contentSize)"

section \<open>The blocks of a multipart response\<close>

record block_gen =
  bg_reader :: file_reader
  bg_fd :: int
  bg_ranges :: "(nat \<times> nat) list"
  bg_core :: string
  bg_fileSize :: nat
  bg_start :: nat
  bg_end :: nat
  bg_idx :: int
  bg_mime :: string
  bg_sentClosing :: bool

definition new_block_gen :: "int \<Rightarrow> (nat \<times> nat) list \<Rightarrow> string \<Rightarrow> nat \<Rightarrow> string \<Rightarrow> block_gen" where
  "new_block_gen fd ranges core contentSize mime =
     \<lparr>bg_reader = new_reader (Some contentSize), bg_fd = fd, bg_ranges = ranges, bg_core = core, bg_fileSize = contentSize,
      bg_start = 1, bg_end = 0, bg_idx = -1, bg_mime = mime, bg_sentClosing = False\<rparr>"

definition part_head :: "block_gen \<Rightarrow> nat \<Rightarrow> nat \<Rightarrow> string" where
  "part_head g start end =
     ''--'' @ bg_core g @ crlf @ constructContentRange start end (bg_fileSize g) @ crlf
     @ ''content-type: '' @ bg_mime g @ crlf @ crlf"

text \<open>The rest of a call, once the text \<open>body\<close> of a part's header is known.\<close>

definition send_block :: "server_config \<Rightarrow> (nat \<Rightarrow> nat \<Rightarrow> int) \<Rightarrow> string \<Rightarrow> block_gen \<Rightarrow> bytes option result \<times> block_gen" where
  "send_block cfg rd body g =
     (let r = reader_seek (bg_start g) (bg_reader g);
          maxPayload = STATIC_STREAM_CHUNK_SIZE cfg - length body;
          g1 = g\<lparr>bg_reader := r\<rparr> in
      if maxPayload = 0 then (Inr (Some body), g1)
      else
        let blockEnd = min (bg_end g) (bg_start g + maxPayload - 1);
            blockSize = blockEnd - bg_start g + 1;
            g2 = g1\<lparr>bg_start := blockEnd + 1\<rparr> in
        (case reader_readChunk rd blockSize r of
           (Inl e, r1) \<Rightarrow> (Inl e, g2\<lparr>bg_reader := r1\<rparr>)
         | (Inr None, r1) \<Rightarrow> (Inr None, g2\<lparr>bg_reader := r1\<rparr>)
         | (Inr (Some chunk), r1) \<Rightarrow>
             (Inr (Some (body @ chunk @ (if blockEnd = bg_end g then crlf else []))), g2\<lparr>bg_reader := r1\<rparr>)))"

text \<open>\<open>None\<close> is an access to \<open>ranges\<close> out of its bounds.\<close>

definition nextBlock :: "server_config \<Rightarrow> (nat \<Rightarrow> nat \<Rightarrow> int) \<Rightarrow> block_gen \<Rightarrow> (bytes option result \<times> block_gen) option" where
  "nextBlock cfg rd g =
     (if bg_start g \<ge> bg_end g then
        let idx = bg_idx g + 1; g1 = g\<lparr>bg_idx := idx\<rparr> in
        if idx = int (length (bg_ranges g)) then
          if bg_sentClosing g then Some (Inr None, g1)
          else Some (Inr (Some (''--'' @ bg_core g @ ''--'' @ crlf)), g1\<lparr>bg_sentClosing := True\<rparr>)
        else if idx < 0 \<or> idx > int (length (bg_ranges g)) then None
        else
          let (s, e) = bg_ranges g ! nat idx; g2 = g1\<lparr>bg_start := s, bg_end := e\<rparr>
          in Some (send_block cfg rd (part_head g s e) g2)
      else Some (send_block cfg rd [] g))"

section \<open>The middleware\<close>

definition content_encoding :: "served \<Rightarrow> header_store \<Rightarrow> header_store" where
  "content_encoding sv hs = (case sv_encoding sv of Some enc \<Rightarrow> hs_setHeaderLower ''content-encoding'' (getEncoding enc) hs | None \<Rightarrow> hs)"

definition head_reply :: "'fs static_env \<Rightarrow> cached_file \<Rightarrow> served \<Rightarrow> bool \<Rightarrow> (nat \<times> nat) list \<Rightarrow> nat \<Rightarrow> int \<Rightarrow> string \<Rightarrow> http_response" where
  "head_reply env cf sv useRange ranges totl lastWrite cacheControl =
     (let isMultiPart = (length ranges > 1);
          r0 = new_response (if isMultiPart \<or> useRange then 206 else 200);
          hs0 = (if isMultiPart
                 then hs_setHeaderLower ''content-type'' (''multipart/byteranges; boundary='' @ boundary_core env) (resp_headers r0)
                 else if useRange
                 then hs_setContentRange (fst (ranges ! 0)) (snd (ranges ! 0)) (sv_size sv) (hs_setHeaderLower ''content-type'' (cf_mime cf) (resp_headers r0))
                 else hs_setHeaderLower ''content-type'' (cf_mime cf) (resp_headers r0))
      in r0\<lparr>resp_headers := addCacheHeaders (sv_etag sv) lastWrite cacheControl
           (hs_addHeaderLower ''vary'' ''accept-encoding'' (hs_addHeaderLower ''accept-ranges'' ''bytes''
             (hs_setHeaderLower ''content-length'' (to_dec totl) (content_encoding sv hs0))))\<rparr>)"

definition multi_reply :: "'fs static_env \<Rightarrow> cached_file \<Rightarrow> served \<Rightarrow> (nat \<times> nat) list \<Rightarrow> nat \<Rightarrow> int \<Rightarrow> string \<Rightarrow> block_gen stream_response" where
  "multi_reply env cf sv ranges totl lastWrite cacheControl =
     (let core = boundary_core env;
          s0 = new_stream_response 206 (new_block_gen (sv_fd sv) ranges core (sv_size sv) (cf_mime cf));
          s1 = setChunked False (s0\<lparr>st_headers := hs_setHeaderLower ''content-length'' (to_dec totl)
                 (hs_setHeaderLower ''accept-ranges'' ''bytes'' (st_headers s0))\<rparr>)
      in s1\<lparr>st_headers := addCacheHeaders (sv_etag sv) lastWrite cacheControl
           (hs_setHeaderLower ''content-type'' (''multipart/byteranges; boundary='' @ core) (st_headers s1))\<rparr>)"

definition file_reply :: "cached_file \<Rightarrow> served \<Rightarrow> bool \<Rightarrow> (nat \<times> nat) list \<Rightarrow> nat \<Rightarrow> int \<Rightarrow> string \<Rightarrow> file_response" where
  "file_reply cf sv useRange ranges totl lastWrite cacheControl =
     (let f0 = new_file_response_typed 200 (cf_mime cf) (cf_resolvedPath cf);
          f1 = (case cf_cachedContent cf of Some c \<Rightarrow> f_setCachedFileContent c f0 | None \<Rightarrow> f0);
          f2 = f_setContentLength totl (f_setFd (sv_fd sv) False f1);
          f3 = f2\<lparr>f_headers := addCacheHeaders (sv_etag sv) lastWrite cacheControl
                 (content_encoding sv (hs_addHeaderLower ''vary'' ''accept-encoding'' (hs_addHeaderLower ''accept-ranges'' ''bytes'' (f_headers f2))))\<rparr>
      in if useRange
         then (f_setOffset (fst (ranges ! 0)) (f3\<lparr>f_statusCode := 206,
                f_headers := hs_setContentRange (fst (ranges ! 0)) (snd (ranges ! 0)) (sv_size sv) (f_headers f3)\<rparr>))
         else f3)"

text \<open>The answer for a file that was found.\<close>

definition serve_file :: "'fs static_env \<Rightarrow> static_config \<Rightarrow> http_request \<Rightarrow> cached_file \<Rightarrow> served \<Rightarrow> block_gen response" where
  "serve_file env sc req cf sv =
     (let cacheControl = getOrDefault (st_mimeCacheControl sc) (cf_mime cf) (st_defaultCacheControl sc);
          lastWrite = se_seconds env (cf_mtime cf) in
      case conditional env req (sv_etag sv) lastWrite cacheControl of
        Some r \<Rightarrow> PlainResponse r
      | None \<Rightarrow>
          (case validateAndCleanRanges (se_sort_ranges env) (se_junk env) (getRanges (getHeaderLower req ''range'')) (sv_size sv) of
             None \<Rightarrow> PlainResponse (static_error env req 416)
           | Some ranges \<Rightarrow>
               let useRange = use_range env req (sv_etag sv) lastWrite ranges;
                   totl = total_size (boundary_core env) (cf_mime cf) (sv_size sv) useRange ranges in
               if req_method req = ''HEAD'' then PlainResponse (head_reply env cf sv useRange ranges totl lastWrite cacheControl)
               else if length ranges > 1 then StreamResponse (multi_reply env cf sv ranges totl lastWrite cacheControl)
               else FileResponse (file_reply cf sv useRange ranges totl lastWrite cacheControl)))"

text \<open>\<open>Inr None\<close> is a call of the next handler.\<close>

definition static_handle :: "'fs static_env \<Rightarrow> static_config \<Rightarrow> http_request \<Rightarrow> 'fs static_state \<Rightarrow>
    (block_gen response option result \<times> 'fs static_state)" where
  "static_handle env sc req st =
     (if req_method req \<noteq> ''GET'' \<and> req_method req \<noteq> ''HEAD'' then (Inr None, st)
      else if req_path req \<noteq> st_prefix sc \<and> \<not> prefix (st_prefix sc @ ''/'') (req_path req) then (Inr None, st)
      else
        let rel = drop (length (st_prefix sc)) (req_path req);
            relative = (if rel \<noteq> [] \<and> hd rel = CHR ''/'' then tl rel else rel) in
        (case lookupOrOpen env sc relative st of
           (Inl e, st1) \<Rightarrow> (Inl e, st1)
         | (Inr (Inl code), st1) \<Rightarrow>
             (if code = 404 then Inr None else Inr (Some (PlainResponse (static_error env req code))), st1)
         | (Inr (Inr cf), st1) \<Rightarrow>
             (case choose_content env sc req relative cf st1 of
                (Inl e, st2) \<Rightarrow> (Inl e, st2)
              | (Inr (Inl code), st2) \<Rightarrow> (Inr (Some (PlainResponse (static_error env req code))), st2)
              | (Inr (Inr sv), st2) \<Rightarrow> (Inr (Some (serve_file env sc req cf sv)), st2))))"

definition static_middleware :: "'fs static_env \<Rightarrow> static_config \<Rightarrow> (block_gen, 'fs static_state \<times> 'v) middleware" where
  "static_middleware env sc next st =
     (case static_handle env sc (fst st) (fst (snd st)) of
        (Inl e, s) \<Rightarrow> (Inl e, fst st, (s, snd (snd st)))
      | (Inr None, s) \<Rightarrow> next (fst st, (s, snd (snd st)))
      | (Inr (Some response), s) \<Rightarrow> (Inr response, fst st, (s, snd (snd st))))"

definition setRoot :: "(string \<Rightarrow> string) \<Rightarrow> string \<Rightarrow> static_config \<Rightarrow> static_config" where
  "setRoot canonical root sc = sc\<lparr>st_root := root, st_canonicalRoot := canonical root\<rparr>"

definition setPrefix :: "string \<Rightarrow> static_config \<Rightarrow> static_config" where
  "setPrefix p sc = sc\<lparr>st_prefix := p\<rparr>"

definition setMimeCacheControl :: "string \<Rightarrow> string \<Rightarrow> static_config \<Rightarrow> static_config" where
  "setMimeCacheControl mimeType cacheControlHeader sc =
     sc\<lparr>st_mimeCacheControl := AList.update mimeType cacheControlHeader (st_mimeCacheControl sc)\<rparr>"

definition setDefaultCacheControl :: "string \<Rightarrow> static_config \<Rightarrow> static_config" where
  "setDefaultCacheControl cacheControlHeader sc = sc\<lparr>st_defaultCacheControl := cacheControlHeader\<rparr>"

definition setErrorFactory :: "(http_request \<Rightarrow> int \<Rightarrow> http_response) \<Rightarrow> 'fs static_env \<Rightarrow> 'fs static_env" where
  "setErrorFactory builder env = env\<lparr>se_build_error := builder\<rparr>"

text \<open>The constructor resolves the two directories.\<close>

definition new_static :: "(string \<Rightarrow> string) \<Rightarrow> string \<Rightarrow> string \<Rightarrow> string \<Rightarrow> (string \<times> string) list \<Rightarrow> string \<Rightarrow> static_config" where
  "new_static canonical cacheDir root pre mimes dflt =
     \<lparr>st_root = root, st_prefix = pre, st_mimeCacheControl = mimes, st_defaultCacheControl = dflt,
      st_canonicalRoot = canonical root, st_compressedRoot = canonical cacheDir\<rparr>"

text \<open>A helper of the file that nothing calls: it normalises a path always the long way.\<close>

definition getNormalizedPath :: "string \<Rightarrow> string" where
  "getNormalizedPath path = strip_back_slash (strip_front_slash (unique_slash path))"

lemma cache_control_set:
  "getOrDefault (st_mimeCacheControl (setMimeCacheControl m c sc)) m' (st_defaultCacheControl sc)
     = (if m' = m then c else getOrDefault (st_mimeCacheControl sc) m' (st_defaultCacheControl sc))"
  by (simp add: getOrDefault_def setMimeCacheControl_def update_conv')

lemma unique_slash_id: "find_sub ''//'' s = None \<Longrightarrow> unique_slash s = s"
proof (induction s rule: unique_slash.induct)
  case (1 a b r)
  then show ?case by (cases "a = CHR ''/'' \<and> b = CHR ''/''") (auto simp: find_sub.simps)
qed simp_all

lemma getNormalizedPath_same: "getNormalizedPath = normalizePath"
  by (auto simp: fun_eq_iff getNormalizedPath_def normalizePath_def unique_slash_id)

section \<open>Lemmas: entity tags\<close>

lemma etagMatches_token:
  assumes "CHR '','' \<notin> set t" "etag \<noteq> []"
  shows "etagMatches (t @ CHR '','' # h) etag \<longleftrightarrow> trim t = etag \<or> etagMatches h etag"
proof -
  have c: "cut CHR '','' (t @ CHR '','' # h) = (t, Some h)" using assms(1) by (simp add: cut_Some)
  show ?thesis by (simp add: etagMatches.simps [of "t @ CHR '','' # h"] c)
qed

lemma trim_Nil [simp]: "trim [] = []"
  using length_trim_le [of "[]"] by simp

lemma etagMatches_last:
  assumes "CHR '','' \<notin> set t" "etag \<noteq> []"
  shows "etagMatches t etag \<longleftrightarrow> trim t = etag"
proof -
  have c: "cut CHR '','' t = (t, None)" using assms(1) by (simp add: cut_None)
  show ?thesis using assms(2) by (auto simp: etagMatches.simps [of t] c)
qed

lemma etagMatches_list:
  assumes "\<forall>t \<in> set ts. CHR '','' \<notin> set t" "ts \<noteq> []" "etag \<noteq> []"
  shows "etagMatches (str_join '','' ts) etag \<longleftrightarrow> etag \<in> trim ` set ts"
  using assms
proof (induction ts)
  case (Cons t ts)
  show ?case
  proof (cases "ts = []")
    case True
    then show ?thesis using Cons.prems etagMatches_last [of t etag] by auto
  next
    case False
    then have "str_join '','' (t # ts) = t @ CHR '','' # str_join '','' ts" by (simp add: str_join_Cons)
    then show ?thesis using Cons False etagMatches_token [of t etag] by auto
  qed
qed simp

section \<open>Lemmas: looking up files\<close>

lemma lookup_new_cached:
  assumes "lookup_new env sc key resolved st = (Inr (Inr cf), st')"
  shows "cache_get (ss_cache st') key = Some cf \<and> ss_fs st' = ss_fs st \<and> cf_resolvedPath cf = resolved
    \<and> (\<forall>bs. cf_cachedContent cf = Some bs \<longrightarrow> set bs \<subseteq> {NUL})
    \<and> (cf_cachedContent cf = None \<longrightarrow> FILE_CONTENT_CACHE_THRESHOLD (se_cfg env) \<le> cf_size cf)"
  using assms
  by (auto simp: lookup_new_def Let_def cache_get_def cache_insert_def dest: readAllInto_zero_byte split: sum.splits if_splits)

lemma lookup_hit: "cache_get (ss_cache st) key = Some cf \<Longrightarrow> lookupOrOpen env sc key st = (Inr (Inr cf), st)"
  by (simp add: lookupOrOpen_def)

text \<open>A file that is opened lies below the root, as far as its path begins with the root's path; from then on the cache answers.\<close>

lemma lookup_miss:
  assumes "lookupOrOpen env sc key st = (Inr (Inr cf), st')" "cache_get (ss_cache st) key = None"
    and resolved: "resolved = fs_canonical (se_fs env) (path_append (st_canonicalRoot sc) key) (ss_fs st)"
  shows "prefix (st_canonicalRoot sc) resolved \<and> fs_exists (se_fs env) resolved (ss_fs st)
    \<and> cf_resolvedPath cf \<in> {resolved, path_append resolved ''index.html''}
    \<and> lookupOrOpen env sc key st' = (Inr (Inr cf), st')"
proof -
  obtain p where p: "lookup_new env sc key p st = (Inr (Inr cf), st')" "p \<in> {resolved, path_append resolved ''index.html''}"
    and pre: "prefix (st_canonicalRoot sc) resolved" "fs_exists (se_fs env) resolved (ss_fs st)"
    using assms by (auto simp: lookupOrOpen_def Let_def split: if_splits)
  note c = lookup_new_cached [OF p(1)]
  then have "lookupOrOpen env sc key st' = (Inr (Inr cf), st')" by (intro lookup_hit) simp
  then show ?thesis using c p(2) pre by auto
qed

text \<open>A directory beside the root whose name begins with the root's name is served too.\<close>

lemma sibling_served:
  assumes "cache_get (ss_cache st) key = None"
    and "fs_canonical (se_fs env) (path_append (st_canonicalRoot sc) key) (ss_fs st) = st_canonicalRoot sc @ ''-private/'' @ f"
    and "fs_exists (se_fs env) (st_canonicalRoot sc @ ''-private/'' @ f) (ss_fs st)"
    and "\<not> fs_is_directory (se_fs env) (st_canonicalRoot sc @ ''-private/'' @ f) (ss_fs st)"
  shows "lookupOrOpen env sc key st = lookup_new env sc key (st_canonicalRoot sc @ ''-private/'' @ f) st"
  using assms by (simp add: lookupOrOpen_def Let_def)

section \<open>Lemmas: sizes and blocks\<close>

lemma to_int32_id: "n < 2147483648 \<Longrightarrow> to_int32 n = int n"
  by (simp add: to_int32_def)

lemma digits_exact: "n < 2147483648 \<Longrightarrow> digit_count (to_int32 n) = length (to_dec n)"
  using digit_count_length [of n] by (simp add: to_int32_id)

definition range_fits :: "server_config \<Rightarrow> block_gen \<Rightarrow> nat \<times> nat \<Rightarrow> bool" where
  "range_fits cfg g r \<longleftrightarrow> fst r \<le> snd r \<and> snd r < bg_fileSize g \<and>
     length (part_head g (fst r) (snd r)) + (snd r - fst r + 1) \<le> STATIC_STREAM_CHUNK_SIZE cfg"

definition full_reads :: "(nat \<Rightarrow> nat \<Rightarrow> int) \<Rightarrow> nat \<Rightarrow> bool" where
  "full_reads rd sz \<longleftrightarrow> (\<forall>off len. off + len \<le> sz \<longrightarrow> rd off len = int len)"

definition same_gen :: "block_gen \<Rightarrow> block_gen \<Rightarrow> bool" where
  "same_gen g g' \<longleftrightarrow> bg_ranges g' = bg_ranges g \<and> bg_core g' = bg_core g \<and> bg_fileSize g' = bg_fileSize g \<and> bg_mime g' = bg_mime g"

lemma part_head_same: "same_gen g g' \<Longrightarrow> part_head g' s e = part_head g s e"
  by (simp add: part_head_def same_gen_def)

definition part_bytes :: "block_gen \<Rightarrow> nat \<times> nat \<Rightarrow> bytes" where
  "part_bytes g r = part_head g (fst r) (snd r) @ replicate (snd r - fst r + 1) NUL @ crlf"

text \<open>One part of a range that fits into a block.\<close>

lemma nextBlock_part:
  assumes "bg_end g \<le> bg_start g" "bg_idx g = int i - 1" "i < length (bg_ranges g)" "bg_ranges g ! i = r"
    and "range_fits cfg g r" "full_reads rd (bg_fileSize g)"
  shows "\<exists>g'. nextBlock cfg rd g = Some (Inr (Some (part_bytes g r)), g') \<and> same_gen g g' \<and> bg_end g' \<le> bg_start g'
    \<and> bg_idx g' = int i \<and> bg_sentClosing g' = bg_sentClosing g"
proof -
  obtain s e where r: "r = (s, e)" by (cases r)
  let ?h = "part_head g s e" and ?g = "g\<lparr>bg_idx := int i, bg_start := s, bg_end := e\<rparr>"
  have fit: "s \<le> e" "e < bg_fileSize g" "length ?h + (e - s + 1) \<le> STATIC_STREAM_CHUNK_SIZE cfg"
    using assms(5) by (auto simp: range_fits_def r)
  have n: "nextBlock cfg rd g = Some (send_block cfg rd ?h ?g)"
    using assms(1-4) by (simp add: nextBlock_def Let_def r)
  have m: "STATIC_STREAM_CHUNK_SIZE cfg - length ?h \<noteq> 0" "min e (s + (STATIC_STREAM_CHUNK_SIZE cfg - length ?h) - 1) = e"
    using fit by auto
  have rd: "rd s (e - s + 1) = int (e - s + 1)" using assms(6) fit by (simp add: full_reads_def)
  have c: "reader_readChunk rd (e - s + 1) (reader_seek s (bg_reader ?g)) =
      (Inr (Some (replicate (e - s + 1) NUL)), (reader_seek s (bg_reader ?g))\<lparr>fr_offset := s + (e - s + 1)\<rparr>)"
  proof -
    have "nat (rd s (e - s + 1)) = e - s + 1" "0 < rd s (e - s + 1)" using rd by simp_all
    then show ?thesis by (simp add: reader_readChunk_def reader_seek_def Let_def del: replicate.simps replicate_Suc)
  qed
  have "send_block cfg rd ?h ?g =
      (Inr (Some (part_bytes g r)), ?g\<lparr>bg_start := e + 1, bg_reader := (reader_seek s (bg_reader ?g))\<lparr>fr_offset := s + (e - s + 1)\<rparr>\<rparr>)"
    unfolding send_block_def Let_def using m c by (simp add: part_bytes_def r)
  then show ?thesis unfolding n by (simp add: same_gen_def)
qed

text \<open>The blocks of the first \<open>n\<close> calls, together.\<close>

fun blocks :: "server_config \<Rightarrow> (nat \<Rightarrow> nat \<Rightarrow> int) \<Rightarrow> nat \<Rightarrow> block_gen \<Rightarrow> (bytes \<times> block_gen) option" where
  "blocks cfg rd 0 g = Some ([], g)"
| "blocks cfg rd (Suc n) g =
     (case nextBlock cfg rd g of
        Some (Inr (Some b), g1) \<Rightarrow> map_option (\<lambda>(bs, g2). (b @ bs, g2)) (blocks cfg rd n g1)
      | _ \<Rightarrow> None)"

lemma blocks_parts:
  assumes "bg_end g \<le> bg_start g" "bg_idx g = int i - 1" "i + n = length (bg_ranges g)" "\<not> bg_sentClosing g"
    and "\<forall>r \<in> set (bg_ranges g). range_fits cfg g r" "full_reads rd (bg_fileSize g)"
  shows "\<exists>g'. blocks cfg rd (Suc n) g = Some (concat (map (part_bytes g) (drop i (bg_ranges g))) @ ''--'' @ bg_core g @ ''--'' @ crlf, g')
    \<and> nextBlock cfg rd g' = None"
  using assms
proof (induction n arbitrary: i g)
  case 0
  let ?g = "g\<lparr>bg_idx := int i, bg_sentClosing := True\<rparr>"
  have "nextBlock cfg rd g = Some (Inr (Some (''--'' @ bg_core g @ ''--'' @ crlf)), ?g)"
    using "0.prems" by (simp add: nextBlock_def Let_def)
  moreover have "nextBlock cfg rd ?g = None" using "0.prems" by (simp add: nextBlock_def Let_def)
  ultimately show ?case using "0.prems"(3) by simp
next
  case (Suc n)
  let ?r = "bg_ranges g ! i"
  have i: "i < length (bg_ranges g)" using Suc.prems(3) by simp
  then have "range_fits cfg g ?r" using Suc.prems(5) by simp
  from nextBlock_part [OF Suc.prems(1,2) i refl this Suc.prems(6)] obtain g1 where
    g1: "nextBlock cfg rd g = Some (Inr (Some (part_bytes g ?r)), g1)" "same_gen g g1" "bg_end g1 \<le> bg_start g1"
      "bg_idx g1 = int i" "bg_sentClosing g1 = bg_sentClosing g" by blast
  have same: "bg_ranges g1 = bg_ranges g" "bg_core g1 = bg_core g" "bg_fileSize g1 = bg_fileSize g" "bg_mime g1 = bg_mime g"
    using g1(2) by (simp_all add: same_gen_def)
  have fits: "\<forall>r \<in> set (bg_ranges g1). range_fits cfg g1 r"
    using Suc.prems(5) unfolding range_fits_def same part_head_same [OF g1(2)] .
  have pb: "part_bytes g1 = part_bytes g" using part_head_same [OF g1(2)] by (simp add: fun_eq_iff part_bytes_def)
  have "\<exists>g'. blocks cfg rd (Suc n) g1 = Some (concat (map (part_bytes g1) (drop (Suc i) (bg_ranges g1))) @ ''--'' @ bg_core g1 @ ''--'' @ crlf, g')
      \<and> nextBlock cfg rd g' = None"
    by (rule Suc.IH) (use g1 same fits Suc.prems in auto)
  then obtain g' where "blocks cfg rd (Suc n) g1 = Some (concat (map (part_bytes g) (drop (Suc i) (bg_ranges g))) @ ''--'' @ bg_core g @ ''--'' @ crlf, g')"
    "nextBlock cfg rd g' = None" unfolding pb same by blast
  moreover have "drop i (bg_ranges g) = ?r # drop (Suc i) (bg_ranges g)" using i by (simp add: Cons_nth_drop_Suc)
  ultimately show ?case using g1(1) by (simp del: blocks.simps(2) add: blocks.simps(2) [of cfg rd "Suc n" g])
qed

lemma part_bytes_length:
  assumes "bg_core g = core" "bg_mime g = mime" "bg_fileSize g = sz" "fst r \<le> snd r" "snd r < 2147483648" "sz < 2147483648"
  shows "length (part_bytes g r) = part_size (length core + 2) (length (''content-type: '' @ mime @ crlf)) sz r"
proof -
  have "fst r < 2147483648" using assms(4,5) by simp
  then show ?thesis using assms digits_exact [of "fst r"] digits_exact [of "snd r"] digits_exact [of sz]
    by (simp add: part_bytes_def part_head_def part_size_def constructContentRange_def)
qed

text \<open>A multipart response: as many bytes as it announces, and then an access out of bounds.\<close>

lemma multi_length:
  assumes "\<forall>r \<in> set ranges. range_fits cfg (new_block_gen fd ranges core sz mime) r" "full_reads rd sz"
    and "sz < 2147483648" "1 < length ranges"
  shows "\<exists>bs g. blocks cfg rd (length ranges + 1) (new_block_gen fd ranges core sz mime) = Some (bs, g)
    \<and> length bs = total_size core mime sz True ranges \<and> nextBlock cfg rd g = None"
proof -
  let ?g = "new_block_gen fd ranges core sz mime"
  have f: "bg_core ?g = core" "bg_mime ?g = mime" "bg_fileSize ?g = sz" "bg_ranges ?g = ranges" by (simp_all add: new_block_gen_def)
  obtain g' where b: "blocks cfg rd (Suc (length ranges)) ?g =
      Some (concat (map (part_bytes ?g) ranges) @ ''--'' @ core @ ''--'' @ crlf, g')" "nextBlock cfg rd g' = None"
    using blocks_parts [of ?g 0 "length ranges" cfg rd] assms by (auto simp: new_block_gen_def)
  have "length (part_bytes ?g r) = part_size (length core + 2) (length (''content-type: '' @ mime @ crlf)) sz r" if "r \<in> set ranges" for r
    by (rule part_bytes_length [OF f(1-3)]) (use that assms f in \<open>auto simp: range_fits_def\<close>)
  then have "length (concat (map (part_bytes ?g) ranges)) =
      sum_list (map (part_size (length core + 2) (length (''content-type: '' @ mime @ crlf)) sz) ranges)"
    by (simp add: length_concat comp_def cong: map_cong)
  then show ?thesis using b assms(4) by (simp add: total_size_def)
qed

text \<open>A file of five gigabytes: the announced size is too small.\<close>

lemma digits_wrap: "digit_count (to_int32 5000000000) = 9 \<and> length (to_dec 5000000000) = 10"
  by (simp add: to_int32_def digit_count_def Let_def to_base.simps)

text \<open>The block that would hold the last byte alone is not sent.\<close>

lemma last_byte_dropped:
  assumes "bg_start g = bg_end g" "bg_idx g = int i - 1" "i < length (bg_ranges g)" "bg_ranges g ! i = (s, e)"
  shows "nextBlock cfg rd g = Some (send_block cfg rd (part_head g s e) (g\<lparr>bg_idx := int i, bg_start := s, bg_end := e\<rparr>))"
  using assms by (simp add: nextBlock_def Let_def)

section \<open>Lemmas: the response\<close>

lemma file_reply_range:
  assumes "f = file_reply cf sv useRange ranges (total_size core mime (sv_size sv) useRange ranges) lw cc" "length ranges \<le> 1"
    and "useRange \<longrightarrow> (\<exists>s e. ranges = [(s, e)] \<and> s \<le> e \<and> e < sv_size sv)"
  shows "f_contentLength f = Some (if useRange then snd (ranges ! 0) - fst (ranges ! 0) + 1 else sv_size sv)
    \<and> f_offset f = (if useRange then fst (ranges ! 0) else 0) \<and> f_statusCode f = (if useRange then 206 else 200)
    \<and> f_offset f + the (f_contentLength f) \<le> sv_size sv"
  using assms
  by (auto simp: file_reply_def Let_def total_size_def f_setOffset_def f_setContentLength_def f_setFd_def f_setCachedFileContent_def
      new_file_response_typed_def new_file_response_def split: option.splits)

lemma multi_without_use_range:
  assumes "1 < length ranges" "\<not> useRange"
  shows "total_size core mime sz useRange ranges = sz"
  using assms by (simp add: total_size_def)

end
