(* ===== verification/DbValues.thy ===== *)
theory DbValues
  imports Config StringUtils "HOL-Library.Word"
begin

text \<open>
  The values of the database layer, \<open>rukh/include/rukh/db/DbValue.hpp\<close>, and the rows and results of
  \<open>rukh/include/rukh/db/DbTypes.hpp\<close>.

  A field of a model has one of the types \<open>raw_type\<close>; an integral type is given by its width and its
  signedness. Custom field types bring conversions of their own and are left out, as are the
  \<open>floating_point\<close> types other than \<open>double\<close>. A \<open>double\<close> is its bit pattern. The messages of the
  exceptions end with the name that the implementation gives to a type; that name is left out.

  An \<open>outcome\<close> is \<open>None\<close> where the code has no defined behaviour (an index out of range, a member
  that was never set) or does not compile, and otherwise an exception or a value.
\<close>

section \<open>Outcomes\<close>

type_synonym 'a outcome = "'a result option"

definition ok :: "'a \<Rightarrow> 'a outcome" where
  "ok x = Some (Inr x)"

definition raise :: "exn \<Rightarrow> 'a outcome" where
  "raise e = Some (Inl e)"

fun andthen :: "'a outcome \<Rightarrow> ('a \<Rightarrow> 'b outcome) \<Rightarrow> 'b outcome" where
  "andthen None f = None"
| "andthen (Some (Inl e)) f = Some (Inl e)"
| "andthen (Some (Inr x)) f = f x"

lemma andthen_ok [simp]: "andthen (ok x) f = f x"
  by (simp add: ok_def)

lemma andthen_raise [simp]: "andthen (raise e) f = raise e"
  by (simp add: raise_def)

lemma andthen_eq_ok: "andthen m f = ok y \<longleftrightarrow> (\<exists>x. m = ok x \<and> f x = ok y)"
  by (cases m; cases "the m") (auto simp: ok_def)

lemma andthen_assoc: "andthen (andthen m f) g = andthen m (\<lambda>x. andthen (f x) g)"
  by (cases m; cases "the m") auto

lemma ok_inject [simp]: "ok x = ok y \<longleftrightarrow> x = y" "ok x \<noteq> raise e" "raise e \<noteq> ok x" "ok x \<noteq> None" "None \<noteq> ok x" "raise e \<noteq> None" "None \<noteq> raise e"
  by (auto simp: ok_def raise_def)

text \<open>Left to right over a list, threading a state.\<close>

fun each :: "('a \<Rightarrow> 's \<Rightarrow> 's outcome) \<Rightarrow> 'a list \<Rightarrow> 's \<Rightarrow> 's outcome" where
  "each f [] s = ok s"
| "each f (x # xs) s = andthen (f x s) (each f xs)"

lemma each_append: "each f (xs @ ys) s = andthen (each f xs s) (each f ys)"
proof (induction xs arbitrary: s)
  case (Cons x xs)
  then have "each f (xs @ ys) = (\<lambda>s. andthen (each f xs s) (each f ys))" by (intro ext)
  then show ?case by (simp add: andthen_assoc)
qed simp

section \<open>Values\<close>

datatype db_value = DbInt int | DbDouble "64 word" | DbText string | DbBool bool | DbBlob bytes | DbNull

datatype raw_type = TInt nat bool | TDouble | TText | TBool | TBlob

datatype raw_value = VInt int | VDouble "64 word" | VText string | VBool bool | VBlob bytes

datatype field_value = Plain raw_value | Optional "raw_value option"

text \<open>\<open>std::in_range\<close> for a type of \<open>bits\<close> bits, and the conversion \<open>static_cast<int64_t>\<close>.\<close>

definition in_range :: "nat \<Rightarrow> bool \<Rightarrow> int \<Rightarrow> bool" where
  "in_range bits sg v =
     (if sg then - (2 ^ (bits - 1)) \<le> v \<and> v < 2 ^ (bits - 1) else 0 \<le> v \<and> v < 2 ^ bits)"

definition to_int64 :: "int \<Rightarrow> int" where
  "to_int64 v = (v + 2 ^ 63) mod 2 ^ 64 - 2 ^ 63"

text \<open>The overloads of \<open>toDbValueImpl\<close>; an integer of any width becomes an \<open>int64_t\<close>.\<close>

fun toDbValueImpl :: "raw_value \<Rightarrow> db_value" where
  "toDbValueImpl (VInt v) = DbInt (to_int64 v)"
| "toDbValueImpl (VDouble d) = DbDouble d"
| "toDbValueImpl (VText s) = DbText s"
| "toDbValueImpl (VBool b) = DbBool b"
| "toDbValueImpl (VBlob b) = DbBlob b"

fun toDbValue :: "field_value \<Rightarrow> db_value" where
  "toDbValue (Optional v) = (case v of Some x \<Rightarrow> toDbValueImpl x | None \<Rightarrow> DbNull)"
| "toDbValue (Plain v) = toDbValueImpl v"

definition int_to_string :: "int \<Rightarrow> string" where
  "int_to_string i = (if i < 0 then ''-'' @ to_dec (nat (- i)) else to_dec (nat i))"

definition wrong_alternative :: exn where
  "wrong_alternative = DatabaseException ''DB value does not hold expected alternative for type ''"

text \<open>\<open>fromDbValueImpl\<close>: the type asked for has to be the one held, and a narrower integer has to be in range.\<close>

fun fromDbValue :: "raw_type \<Rightarrow> db_value \<Rightarrow> raw_value result" where
  "fromDbValue (TInt bits sg) v =
     (if bits = 64 \<and> sg then (case v of DbInt i \<Rightarrow> Inr (VInt i) | _ \<Rightarrow> Inl wrong_alternative)
      else
        (case v of
           DbInt i \<Rightarrow>
             if \<not> in_range bits sg i
             then Inl (DatabaseException (''DB value '' @ int_to_string i @ '' out of range for target type ''))
             else Inr (VInt i)
         | _ \<Rightarrow> Inl (DatabaseException ''DB value does not hold int64_t for type '')))"
| "fromDbValue TDouble v = (case v of DbDouble d \<Rightarrow> Inr (VDouble d) | _ \<Rightarrow> Inl wrong_alternative)"
| "fromDbValue TText v = (case v of DbText s \<Rightarrow> Inr (VText s) | _ \<Rightarrow> Inl wrong_alternative)"
| "fromDbValue TBool v = (case v of DbBool b \<Rightarrow> Inr (VBool b) | _ \<Rightarrow> Inl wrong_alternative)"
| "fromDbValue TBlob v = (case v of DbBlob b \<Rightarrow> Inr (VBlob b) | _ \<Rightarrow> Inl wrong_alternative)"

text \<open>\<open>dbValueToString\<close>; \<open>show_double\<close> is \<open>std::to_string\<close> of a \<open>double\<close>.\<close>

fun dbValueToString :: "(64 word \<Rightarrow> string) \<Rightarrow> db_value \<Rightarrow> string" where
  "dbValueToString show_double (DbText s) = s"
| "dbValueToString show_double (DbInt i) = int_to_string i"
| "dbValueToString show_double (DbDouble d) = show_double d"
| "dbValueToString show_double (DbBlob b) = ''BLOB_'' @ to_dec (length b)"
| "dbValueToString show_double (DbBool b) = (if b then ''TRUE'' else ''FALSE'')"
| "dbValueToString show_double DbNull = []"

section \<open>Rows and results\<close>

record row =
  row_values :: "db_value list"
  row_columns :: "string \<Rightarrow> nat option"

record query_result =
  affectedRows :: nat
  rows :: "row list"
  result_columns :: "(string \<times> nat) list"

datatype db_error_type = CONNECTION_FAILED | CONSTRAINT_VIOLATION | DB_BUSY | DUPLICATE_KEY | FOREIGN_KEY_VIOLATION
  | INVALID_COLUMN | NOT_IMPLEMENTED | OTHER | TOO_BIG | TRANSACTION_ENDED | TRANSACTION_ERROR | TRIGGER_ERROR
  | QUERY_ERROR | UNIQUE_CONSTRAINT_VIOLATION

record db_error =
  error_type :: db_error_type
  error_message :: string

definition no_such_column :: "string \<Rightarrow> exn" where
  "no_such_column col = DatabaseException (''No such column: '' @ col)"

definition row_at :: "row \<Rightarrow> nat \<Rightarrow> db_value outcome" where
  "row_at r i = (if i < length (row_values r) then ok (row_values r ! i) else None)"

definition row_get :: "row \<Rightarrow> string \<Rightarrow> db_value outcome" where
  "row_get r col = (case row_columns r col of None \<Rightarrow> raise (no_such_column col) | Some i \<Rightarrow> row_at r i)"

definition row_as :: "raw_type \<Rightarrow> row \<Rightarrow> string \<Rightarrow> raw_value outcome" where
  "row_as t r col =
     (case row_columns r col of
        None \<Rightarrow> raise (no_such_column col)
      | Some i \<Rightarrow> andthen (row_at r i) (\<lambda>v. Some (fromDbValue t v)))"

definition row_as_at :: "raw_type \<Rightarrow> row \<Rightarrow> nat \<Rightarrow> raw_value outcome" where
  "row_as_at t r i = andthen (row_at r i) (\<lambda>v. Some (fromDbValue t v))"

definition columnExists :: "row \<Rightarrow> string \<Rightarrow> bool" where
  "columnExists r col \<longleftrightarrow> row_columns r col \<noteq> None"

definition row_isNull :: "row \<Rightarrow> string \<Rightarrow> bool outcome" where
  "row_isNull r col =
     (case row_columns r col of
        None \<Rightarrow> raise (no_such_column col)
      | Some i \<Rightarrow> andthen (row_at r i) (\<lambda>v. ok (v = DbNull)))"

definition row_isNull_at :: "row \<Rightarrow> nat \<Rightarrow> bool outcome" where
  "row_isNull_at r i = andthen (row_at r i) (\<lambda>v. ok (v = DbNull))"

text \<open>\<open>std::left << std::setw(colWidth)\<close>.\<close>

definition pad :: "nat \<Rightarrow> string \<Rightarrow> string" where
  "pad w s = s @ replicate (w - length s) CHR '' ''"

definition row_toString :: "(64 word \<Rightarrow> string) \<Rightarrow> nat \<Rightarrow> row \<Rightarrow> string" where
  "row_toString show_double w r = concat (map (\<lambda>v. pad w (dbValueToString show_double v)) (row_values r))"

text \<open>The rows are printed with the default width, whatever width the headings have.\<close>

definition result_toString :: "(64 word \<Rightarrow> string) \<Rightarrow> nat \<Rightarrow> query_result \<Rightarrow> string" where
  "result_toString show_double w q =
     [LF] @ concat (map (\<lambda>c. pad w (fst c)) (sort_key snd (result_columns q))) @ [LF]
       @ concat (map (\<lambda>r. row_toString show_double 16 r @ [LF]) (rows q))"

section \<open>Lemmas\<close>

text \<open>The values that a C++ object of the type can hold.\<close>

fun of_type :: "raw_type \<Rightarrow> raw_value \<Rightarrow> bool" where
  "of_type (TInt bits sg) (VInt v) = (0 < bits \<and> bits \<le> 64 \<and> in_range bits sg v)"
| "of_type TDouble (VDouble d) = True"
| "of_type TText (VText s) = True"
| "of_type TBool (VBool b) = True"
| "of_type TBlob (VBlob b) = True"
| "of_type t v = False"

lemma to_int64_id: "- (2 ^ 63) \<le> v \<Longrightarrow> v < 2 ^ 63 \<Longrightarrow> to_int64 v = v"
  unfolding to_int64_def by (subst mod_pos_pos_trivial) auto

lemma to_int64_high: "2 ^ 63 \<le> v \<Longrightarrow> v < 2 ^ 64 \<Longrightarrow> to_int64 v = v - 2 ^ 64"
proof -
  assume v: "2 ^ 63 \<le> v" "v < 2 ^ 64"
  have "v + 2 ^ 63 = (v - 2 ^ 63) + 2 ^ 64" by simp
  then have "(v + 2 ^ 63) mod 2 ^ 64 = (v - 2 ^ 63) mod 2 ^ 64" by (metis mod_add_self2)
  also have "\<dots> = v - 2 ^ 63" using v by (intro mod_pos_pos_trivial) auto
  finally show ?thesis by (simp add: to_int64_def)
qed

lemma in_range_int64:
  assumes "0 < bits" "bits \<le> 64" "in_range bits sg v" "sg \<or> v < 2 ^ 63"
  shows "- (2 ^ 63) \<le> v \<and> v < 2 ^ 63"
proof -
  have p: "(2 :: int) ^ (bits - 1) \<le> 2 ^ 63" using assms(2) by (intro power_increasing) auto
  show ?thesis using assms p by (cases sg) (auto simp: in_range_def)
qed

text \<open>A value is read back from the database as it was written, unless it is an unsigned one of \<open>2 ^ 63\<close> or more.\<close>

lemma from_to_db:
  assumes "of_type t v" "case v of VInt i \<Rightarrow> i < 2 ^ 63 | _ \<Rightarrow> True"
  shows "fromDbValue t (toDbValueImpl v) = Inr v"
proof (cases v)
  case (VInt i)
  then obtain bits sg where t: "t = TInt bits sg" "0 < bits" "bits \<le> 64" "in_range bits sg i"
    using assms(1) by (cases t) auto
  then have "to_int64 i = i" using in_range_int64 [OF t(2,3,4)] assms(2) VInt by (intro to_int64_id) auto
  then show ?thesis using t VInt by simp
qed (use assms(1) in \<open>(cases t; simp)+\<close>)

lemma from_to_db_high:
  assumes "2 ^ 63 \<le> i" "i < 2 ^ 64"
  shows "\<exists>m. fromDbValue (TInt 64 False) (toDbValueImpl (VInt i)) = Inl (DatabaseException m)"
  using assms by (simp add: to_int64_high in_range_def)

end
