(* ===== verification/OrmModel.thy ===== *)
theory OrmModel
  imports DbValues
begin

text \<open>
  Models of the object-relational mapper: \<open>rukh/include/rukh/orm/Column.hpp\<close>, the column lookups of
  \<open>ActiveRecord.hpp\<close>, \<open>hydrators.hpp\<close>, which build objects from rows, and \<open>QueryDispatcher.hpp\<close>.

  A model class is a value of type \<open>model\<close>: its table, its tuple of columns and the fields that a
  default-constructed object has. An object is a function from field pointers (numbers) to field
  values, and the flag \<open>persisted_\<close>. Two model classes are the same when they have the same \<open>model_id\<close>.
  A loop over the tuple of columns is a recursion over the list.

  The database behind \<open>ITransaction\<close> and \<open>IDatabase\<close> is a parameter: a function from a statement
  and its parameters to a result and the next state of the world.
\<close>

section \<open>Columns, objects, models\<close>

datatype auto_generate = GenOff | DB_INCREMENT | DEFAULT | GenDbNow | GenCustom
datatype auto_update = UpdOff | UpdDbNow | UpdCustom | LOCKED

record model_obj =
  obj_field :: "nat \<Rightarrow> field_value"
  persisted :: bool

record column =
  fieldPtr :: nat
  dbName :: string
  field_type :: raw_type
  field_optional :: bool
  isPrimaryKey :: bool
  isIndexed :: bool
  isUnique :: bool
  autoGenerateMode :: auto_generate
  defaultValue :: db_value
  customGenerator :: "(model_obj \<Rightarrow> db_value) option"
  autoUpdateMode :: auto_update
  customUpdator :: "(model_obj \<Rightarrow> db_value) option"

text \<open>The default member initialisers of \<open>Column\<close>.\<close>

definition new_column :: "nat \<Rightarrow> string \<Rightarrow> raw_type \<Rightarrow> bool \<Rightarrow> column" where
  "new_column ptr name t opt = \<lparr>fieldPtr = ptr, dbName = name, field_type = t, field_optional = opt, isPrimaryKey = False,
     isIndexed = False, isUnique = False, autoGenerateMode = GenOff, defaultValue = DbNull, customGenerator = None, autoUpdateMode = UpdOff, customUpdator = None\<rparr>"

record model =
  model_id :: nat
  tableName :: string
  columns :: "column list"
  blank :: "nat \<Rightarrow> field_value"

record field_ptr =
  fp_model :: model
  fp_field :: nat

definition same_model :: "model \<Rightarrow> model \<Rightarrow> bool" where
  "same_model m n \<longleftrightarrow> model_id m = model_id n"

section \<open>Column lookups of ActiveRecord\<close>

text \<open>The loop keeps the last column whose pointer is equal.\<close>

definition columnNameOf :: "model \<Rightarrow> nat \<Rightarrow> string outcome" where
  "columnNameOf m ptr =
     (let result = foldl (\<lambda>r c. if fieldPtr c = ptr then Some (dbName c) else r) None (columns m)
      in case result of
           None \<Rightarrow> raise (OrmException ''Invalid field ptr. Model Field does not exist or is not registered.'')
         | Some n \<Rightarrow> ok n)"

definition isValidColumnName :: "model \<Rightarrow> string \<Rightarrow> bool" where
  "isValidColumnName m name \<longleftrightarrow> (\<exists>c \<in> set (columns m). dbName c = name)"

definition getColumnObject :: "model \<Rightarrow> nat \<Rightarrow> column outcome" where
  "getColumnObject m ptr =
     (let result = foldl (\<lambda>r c. if fieldPtr c = ptr then Some c else r) None (columns m)
      in case result of None \<Rightarrow> raise (OrmException ''Field does not belong to Model'') | Some c \<Rightarrow> ok c)"

definition pkColumns :: "model \<Rightarrow> column list" where
  "pkColumns m = filter isPrimaryKey (columns m)"

definition pkFieldPtrs :: "model \<Rightarrow> nat list" where
  "pkFieldPtrs m = map fieldPtr (pkColumns m)"

definition pkFieldPtr :: "model \<Rightarrow> nat outcome" where
  "pkFieldPtr m = (case pkColumns m of [] \<Rightarrow> None | c # cs \<Rightarrow> ok (fieldPtr c))"

definition getPrimaryKeyValue :: "model \<Rightarrow> model_obj \<Rightarrow> field_value outcome" where
  "getPrimaryKeyValue m obj = (case pkColumns m of [] \<Rightarrow> None | c # cs \<Rightarrow> ok (obj_field obj (fieldPtr c)))"

definition getPrimaryKeyValues :: "model \<Rightarrow> model_obj \<Rightarrow> field_value list" where
  "getPrimaryKeyValues m obj = map (\<lambda>c. obj_field obj (fieldPtr c)) (pkColumns m)"

definition setPersisted :: "model_obj \<Rightarrow> model_obj" where
  "setPersisted obj = obj\<lparr>persisted := True\<rparr>"

definition resetPersisted :: "model_obj \<Rightarrow> model_obj" where
  "resetPersisted obj = obj\<lparr>persisted := False\<rparr>"

section \<open>Hydration\<close>

definition set_field :: "nat \<Rightarrow> field_value \<Rightarrow> model_obj \<Rightarrow> model_obj" where
  "set_field ptr v obj = obj\<lparr>obj_field := (obj_field obj)(ptr := v)\<rparr>"

text \<open>A value of an optional or of a plain type, looked up in a row under a name.\<close>

definition read_field :: "raw_type \<Rightarrow> bool \<Rightarrow> row \<Rightarrow> string \<Rightarrow> field_value outcome" where
  "read_field t opt r name =
     (if opt then
        andthen (row_isNull r name) (\<lambda>null.
          if null then ok (Optional None)
          else andthen (row_as t r name) (\<lambda>v. ok (Optional (Some v))))
      else andthen (row_as t r name) (\<lambda>v. ok (Plain v)))"

definition hydrateModelColumn :: "row \<Rightarrow> string \<Rightarrow> column \<Rightarrow> model_obj \<Rightarrow> model_obj outcome" where
  "hydrateModelColumn r prefx c obj =
     (let lookupName = (if prefx = [] then dbName c else prefx @ ''_'' @ dbName c)
      in andthen (read_field (field_type c) (field_optional c) r lookupName) (\<lambda>v. ok (set_field (fieldPtr c) v obj)))"

definition new_obj :: "model \<Rightarrow> model_obj" where
  "new_obj m = \<lparr>obj_field = blank m, persisted = False\<rparr>"

definition hydrateModelRow :: "model \<Rightarrow> row \<Rightarrow> model_obj outcome" where
  "hydrateModelRow m r =
     andthen (each (hydrateModelColumn r []) (columns m) (new_obj m)) (\<lambda>obj. ok (setPersisted obj))"

definition hydrateModel :: "model \<Rightarrow> query_result \<Rightarrow> model_obj list outcome" where
  "hydrateModel m q = each (\<lambda>r objs. andthen (hydrateModelRow m r) (\<lambda>obj. ok (objs @ [obj]))) (rows q) []"

text \<open>A row of a join: one object per model, each with the alias that prefixes its columns.\<close>

definition hydrateModelAt :: "row \<Rightarrow> model \<times> string \<Rightarrow> model_obj list \<Rightarrow> model_obj list outcome" where
  "hydrateModelAt r ma objs =
     andthen (each (hydrateModelColumn r (snd ma)) (columns (fst ma)) (new_obj (fst ma))) (\<lambda>obj. ok (objs @ [obj]))"

definition hydrateJoinedRow :: "(model \<times> string) list \<Rightarrow> row \<Rightarrow> model_obj list outcome" where
  "hydrateJoinedRow mas r = andthen (each (hydrateModelAt r) mas []) (\<lambda>objs. ok (map setPersisted objs))"

definition hydrateJoined :: "(model \<times> string) list \<Rightarrow> query_result \<Rightarrow> model_obj list list outcome" where
  "hydrateJoined mas q = each (\<lambda>r res. andthen (hydrateJoinedRow mas r) (\<lambda>objs. ok (res @ [objs]))) (rows q) []"

text \<open>A row as a tuple of values: the types (with the flag of \<open>std::optional\<close>) and the names of the columns.\<close>

definition hydrateTupleRow :: "(raw_type \<times> bool) list \<Rightarrow> string list \<Rightarrow> row \<Rightarrow> field_value list outcome" where
  "hydrateTupleRow types names r =
     each (\<lambda>((t, opt), name) vs. andthen (read_field t opt r name) (\<lambda>v. ok (vs @ [v]))) (zip types names) []"

definition hydrateTuple :: "(raw_type \<times> bool) list \<Rightarrow> string list \<Rightarrow> query_result \<Rightarrow> field_value list list outcome" where
  "hydrateTuple types names q = each (\<lambda>r res. andthen (hydrateTupleRow types names r) (\<lambda>vs. ok (res @ [vs]))) (rows q) []"

section \<open>Statements to the database\<close>

type_synonym ('w, 'a) db_task = "'w \<Rightarrow> ((db_error + 'a) result \<times> 'w) option"
type_synonym 'w exec = "string \<Rightarrow> db_value list \<Rightarrow> ('w, query_result) db_task"

text \<open>A transaction that may be absent, and \<open>OrmConfig::db\<close>, which is a null pointer at first.\<close>

record 'w db_target =
  target_transaction :: "'w exec option"
  target_db :: "'w exec option"

definition task_return :: "'a \<Rightarrow> ('w, 'a) db_task" where
  "task_return x w = Some (Inr (Inr x), w)"

definition task_bind :: "('w, 'a) db_task \<Rightarrow> ('a \<Rightarrow> ('w, 'b) db_task) \<Rightarrow> ('w, 'b) db_task" where
  "task_bind m f w =
     (case m w of
        None \<Rightarrow> None
      | Some (Inl e, w1) \<Rightarrow> Some (Inl e, w1)
      | Some (Inr (Inl d), w1) \<Rightarrow> Some (Inr (Inl d), w1)
      | Some (Inr (Inr x), w1) \<Rightarrow> f x w1)"

definition task_of :: "'a outcome \<Rightarrow> ('w, 'a) db_task" where
  "task_of m w = map_option (\<lambda>r. (map_sum id Inr r, w)) m"

definition dispatch_query :: "'w db_target \<Rightarrow> string \<Rightarrow> db_value list \<Rightarrow> ('w, query_result) db_task" where
  "dispatch_query t sql params =
     (case target_transaction t of
        Some e \<Rightarrow> e sql params
      | None \<Rightarrow> (case target_db t of None \<Rightarrow> (\<lambda>w. None) | Some e \<Rightarrow> e sql params))"

section \<open>Lemmas\<close>

lemma foldl_last_match:
  "foldl (\<lambda>r c. if P c then Some (f c) else r) r0 cs = (if filter P cs = [] then r0 else Some (f (last (filter P cs))))"
  by (induction cs arbitrary: r0) auto

lemma columnNameOf_ok: "columnNameOf m ptr = ok n \<Longrightarrow> \<exists>c \<in> set (columns m). fieldPtr c = ptr \<and> dbName c = n"
  using last_in_set [of "filter (\<lambda>c. fieldPtr c = ptr) (columns m)"]
  by (fastforce simp: columnNameOf_def Let_def foldl_last_match split: if_splits)

lemma columnNameOf_unique:
  assumes "c \<in> set (columns m)" "distinct (map fieldPtr (columns m))"
  shows "columnNameOf m (fieldPtr c) = ok (dbName c)"
proof -
  let ?cs = "filter (\<lambda>c'. fieldPtr c' = fieldPtr c) (columns m)"
  have "?cs \<noteq> []" using assms(1) by (auto simp: filter_empty_conv)
  moreover from this have "last ?cs \<in> set ?cs" by (rule last_in_set)
  then have "last ?cs = c" using assms inj_onD [of fieldPtr "set (columns m)" "last ?cs" c] by (auto simp: distinct_map)
  ultimately show ?thesis by (simp add: columnNameOf_def Let_def foldl_last_match)
qed

text \<open>
  \<open>holds r obj c\<close>: the row has the field of column \<open>c\<close> of the object under the column's name, as the
  database layer writes it. The field has the type of its column, and no unsigned value of \<open>2 ^ 63\<close> or more.
\<close>

fun storable :: "raw_type \<Rightarrow> bool \<Rightarrow> field_value \<Rightarrow> bool" where
  "storable t opt (Plain v) = (\<not> opt \<and> of_type t v \<and> (case v of VInt i \<Rightarrow> i < 2 ^ 63 | _ \<Rightarrow> True))"
| "storable t opt (Optional v) =
     (opt \<and> (case v of None \<Rightarrow> True | Some x \<Rightarrow> of_type t x \<and> (case x of VInt i \<Rightarrow> i < 2 ^ 63 | _ \<Rightarrow> True)))"

definition holds :: "row \<Rightarrow> model_obj \<Rightarrow> column \<Rightarrow> bool" where
  "holds r obj c \<longleftrightarrow> storable (field_type c) (field_optional c) (obj_field obj (fieldPtr c))
     \<and> row_get r (dbName c) = ok (toDbValue (obj_field obj (fieldPtr c)))"

lemma row_get_ok: "row_get r n = ok v \<Longrightarrow> row_as t r n = Some (fromDbValue t v) \<and> row_isNull r n = ok (v = DbNull)"
  by (auto simp: row_get_def row_as_def row_isNull_def row_at_def split: option.splits if_splits)

lemma toDbValueImpl_not_null [simp]: "toDbValueImpl v \<noteq> DbNull"
  by (cases v) auto

lemma read_field_holds:
  assumes "storable t opt v" "row_get r n = ok (toDbValue v)"
  shows "read_field t opt r n = ok v"
proof (cases v)
  case (Plain x)
  then show ?thesis using assms row_get_ok [OF assms(2), of t] from_to_db [of t x]
    by (simp add: read_field_def ok_def)
next
  case (Optional x)
  then show ?thesis
  proof (cases x)
    case None
    then show ?thesis using assms Optional row_get_ok [OF assms(2), of t] by (auto simp: read_field_def)
  next
    case (Some y)
    then show ?thesis using assms Optional row_get_ok [OF assms(2), of t] from_to_db [of t y]
      by (simp add: read_field_def ok_def)
  qed
qed

text \<open>A row that holds the fields of an object gives back an object with these fields, marked as persisted.\<close>

lemma hydrate_holds:
  assumes "\<forall>c \<in> set (columns m). holds r obj c"
  shows "\<exists>obj'. hydrateModelRow m r = ok obj' \<and> persisted obj'
    \<and> (\<forall>p. obj_field obj' p = (if p \<in> fieldPtr ` set (columns m) then obj_field obj p else blank m p))"
proof -
  have "\<exists>obj'. each (hydrateModelColumn r []) cs o0 = ok obj'
      \<and> (\<forall>p. obj_field obj' p = (if p \<in> fieldPtr ` set cs then obj_field obj p else obj_field o0 p))"
    if "set cs \<subseteq> set (columns m)" for cs o0
    using that
  proof (induction cs arbitrary: o0)
    case (Cons c cs)
    have "hydrateModelColumn r [] c o0 = ok (set_field (fieldPtr c) (obj_field obj (fieldPtr c)) o0)"
      using read_field_holds [of "field_type c" "field_optional c" "obj_field obj (fieldPtr c)" r "dbName c"] assms Cons.prems
      by (simp add: hydrateModelColumn_def holds_def)
    moreover obtain obj' where "each (hydrateModelColumn r []) cs (set_field (fieldPtr c) (obj_field obj (fieldPtr c)) o0) = ok obj'"
      "\<forall>p. obj_field obj' p = (if p \<in> fieldPtr ` set cs then obj_field obj p
         else obj_field (set_field (fieldPtr c) (obj_field obj (fieldPtr c)) o0) p)"
      using Cons by force
    ultimately show ?case by (auto simp: set_field_def)
  qed simp
  from this [of "columns m" "new_obj m"] show ?thesis
    by (auto simp: hydrateModelRow_def setPersisted_def new_obj_def)
qed

end
