(* ===== verification/Predicates.thy ===== *)
theory Predicates
  imports OrmModel
begin

text \<open>
  Conditions of SQL statements: \<open>rukh/include/rukh/orm/Predicate.hpp\<close>, the column resolver of
  \<open>Constraints.hpp\<close> and \<open>WhereClause.hpp\<close>.

  A \<open>BasePredicate\<close> is a tagged structure whose members are used or not depending on the tag; a member
  of \<open>op\<close> that no constructor sets is \<open>None\<close>. What a predicate asks of a query is a record
  \<open>subquery\<close>, since queries contain predicates. The template parameters \<open>ColumnResolver\<close> and
  \<open>Models\<close> are the function \<open>col\<close> that turns a field pointer and an alias into a column.
\<close>

section \<open>Names of columns\<close>

definition aliasList :: "string list" where
  "aliasList = map (\<lambda>c. [c]) ''abcdefghijklmnopqrstuvwxyz''"

definition getAlias :: "nat \<Rightarrow> string outcome" where
  "getAlias i = (if i < length aliasList then ok (aliasList ! i) else None)"

definition get_index_of :: "model \<Rightarrow> model list \<Rightarrow> nat option" where
  "get_index_of m ms = find_idx (same_model m) ms"

type_synonym column_resolver = "field_ptr \<Rightarrow> string \<Rightarrow> string outcome"

definition model_alias :: "model list \<Rightarrow> model \<Rightarrow> string outcome" where
  "model_alias ms m = (case get_index_of m ms of None \<Rightarrow> None | Some i \<Rightarrow> getAlias i)"

definition default_resolver :: "model list \<Rightarrow> column_resolver" where
  "default_resolver ms fp tableAlias =
     (if tableAlias = []
      then andthen (model_alias ms (fp_model fp)) (\<lambda>a.
        andthen (columnNameOf (fp_model fp) (fp_field fp)) (\<lambda>n. ok (a @ ''.'' @ n)))
      else andthen (columnNameOf (fp_model fp) (fp_field fp)) (\<lambda>n. ok (tableAlias @ ''.'' @ n)))"

definition check_resolver :: column_resolver where
  "check_resolver fp tableAlias = columnNameOf (fp_model fp) (fp_field fp)"

section \<open>The structure\<close>

datatype operator = EQUALS | NOT_EQUALS | GREATER | LESSER | GREATER_OR_EQUAL | LESSER_OR_EQUAL | LIKE | IN | NOT_IN
  | IS_NULL | IS_NOT_NULL | BETWEEN

fun op_string :: "operator \<Rightarrow> string" where
  "op_string EQUALS = ''=''"
| "op_string NOT_EQUALS = ''!=''"
| "op_string GREATER = ''>''"
| "op_string LESSER = ''<''"
| "op_string GREATER_OR_EQUAL = ''>=''"
| "op_string LESSER_OR_EQUAL = ''<=''"
| "op_string LIKE = ''LIKE''"
| "op_string IN = ''IN''"
| "op_string NOT_IN = ''NOT IN''"
| "op_string IS_NULL = ''IS NULL''"
| "op_string IS_NOT_NULL = ''IS NOT NULL''"
| "op_string BETWEEN = ''BETWEEN''"

definition isGroupOperator :: "operator \<Rightarrow> bool" where
  "isGroupOperator o' \<longleftrightarrow> o' = IN \<or> o' = NOT_IN \<or> o' = BETWEEN"

datatype predicate_type = LEAF | PredAnd | PredOr | TRUE | FALSE | STRING | FIELD_COMPARISON | SUBQUERY | EXISTS
  | NOT_EXISTS | RAW

datatype predicate = BasePredicate
  (predicateType: predicate_type) (columnA: string) (columnB: string) (pred_op: "operator option")
  (pred_values: "db_value list") (pred_children: "predicate list") (lhsFunction: string) (rhsFunction: string)

record subquery =
  sub_sql :: "(string \<times> db_value list) outcome"
  sub_limit :: "nat option"
  sub_column_count :: nat

section \<open>Constructors\<close>

definition pred_type :: "predicate_type \<Rightarrow> predicate" where
  "pred_type t = BasePredicate t [] [] None [] [] [] []"

definition pred_string :: "string \<Rightarrow> db_value list \<Rightarrow> predicate" where
  "pred_string str vals = BasePredicate STRING str [] None vals [] [] []"

definition pred_column :: "string \<Rightarrow> operator \<Rightarrow> db_value list \<Rightarrow> predicate" where
  "pred_column col opr vals = BasePredicate LEAF col [] (Some opr) vals [] [] []"

definition pred_raw :: "string \<Rightarrow> operator \<Rightarrow> string \<Rightarrow> db_value list \<Rightarrow> predicate" where
  "pred_raw lhs opr rhs vals = BasePredicate RAW lhs rhs (Some opr) vals [] [] []"

definition pred_bool :: "bool \<Rightarrow> predicate" where
  "pred_bool b = pred_type (if b then TRUE else FALSE)"

definition pred_field :: "column_resolver \<Rightarrow> field_ptr \<Rightarrow> operator \<Rightarrow> raw_value list \<Rightarrow> string \<Rightarrow> predicate outcome" where
  "pred_field col fp opr vals tableAlias =
     andthen (col fp tableAlias) (\<lambda>c. ok (BasePredicate LEAF c [] (Some opr) (map toDbValueImpl vals) [] [] []))"

fun with_functions :: "string \<Rightarrow> string \<Rightarrow> predicate \<Rightarrow> predicate" where
  "with_functions lhsFunc rhsFunc (BasePredicate t a b opr vs cs l r) = BasePredicate t a b opr vs cs lhsFunc rhsFunc"

definition pred_field_functions ::
  "column_resolver \<Rightarrow> field_ptr \<Rightarrow> operator \<Rightarrow> raw_value list \<Rightarrow> string \<Rightarrow> string \<Rightarrow> string \<Rightarrow> predicate outcome" where
  "pred_field_functions col fp opr vals lhsFunc rhsFunc tableAlias =
     andthen (pred_field col fp opr vals tableAlias) (\<lambda>p. ok (with_functions lhsFunc rhsFunc p))"

definition pred_subquery :: "column_resolver \<Rightarrow> field_ptr \<Rightarrow> operator \<Rightarrow> subquery \<Rightarrow> string \<Rightarrow> predicate outcome" where
  "pred_subquery col fp opr sub tableAlias =
     andthen (col fp tableAlias) (\<lambda>c.
       andthen (sub_sql sub) (\<lambda>(sql, params). ok (BasePredicate SUBQUERY c sql (Some opr) params [] [] [])))"

definition pred_subquery_function ::
  "column_resolver \<Rightarrow> field_ptr \<Rightarrow> operator \<Rightarrow> subquery \<Rightarrow> string \<Rightarrow> string \<Rightarrow> predicate outcome" where
  "pred_subquery_function col fp opr sub lhsFunc tableAlias =
     andthen (pred_subquery col fp opr sub tableAlias) (\<lambda>p. ok (with_functions lhsFunc [] p))"

definition pred_exists_subquery :: "subquery \<Rightarrow> bool \<Rightarrow> predicate outcome" where
  "pred_exists_subquery sub ex =
     andthen (sub_sql sub) (\<lambda>(sql, params).
       ok (BasePredicate (if ex then EXISTS else NOT_EXISTS) sql [] None params [] [] []))"

definition pred_fields :: "column_resolver \<Rightarrow> field_ptr \<Rightarrow> operator \<Rightarrow> field_ptr \<Rightarrow> string \<times> string \<Rightarrow> predicate outcome" where
  "pred_fields col fpA opr fpB aliases =
     andthen (col fpA (fst aliases)) (\<lambda>a. andthen (col fpB (snd aliases)) (\<lambda>b.
       ok (BasePredicate FIELD_COMPARISON a b (Some opr) [] [] [] [])))"

definition pred_fields_functions ::
  "column_resolver \<Rightarrow> field_ptr \<Rightarrow> operator \<Rightarrow> field_ptr \<Rightarrow> string \<Rightarrow> string \<Rightarrow> string \<times> string \<Rightarrow> predicate outcome" where
  "pred_fields_functions col fpA opr fpB lhsFunc rhsFunc aliases =
     andthen (pred_fields col fpA opr fpB aliases) (\<lambda>p. ok (with_functions lhsFunc rhsFunc p))"

definition pred_between_fields ::
  "column_resolver \<Rightarrow> field_ptr \<Rightarrow> operator \<Rightarrow> field_ptr \<Rightarrow> field_ptr \<Rightarrow> string \<Rightarrow> string \<Rightarrow> string \<times> string \<times> string \<Rightarrow> predicate outcome" where
  "pred_between_fields col fpA opr fpB fpC lhsFunc rhsFunc aliases =
     (case aliases of (aliasA, aliasB, aliasC) \<Rightarrow>
        andthen (col fpA aliasA) (\<lambda>a. andthen (col fpB aliasB) (\<lambda>b. andthen (col fpC aliasC) (\<lambda>c.
          ok (BasePredicate LEAF (lhsFunc @ ''('' @ a @ '')'')
            (rhsFunc @ ''('' @ b @ '') AND '' @ rhsFunc @ ''('' @ c @ '')'') (Some opr) [] [] [] [])))))"

section \<open>Connectives\<close>

definition pred_or :: "predicate \<Rightarrow> predicate \<Rightarrow> predicate" where
  "pred_or p q =
     (if predicateType p = TRUE \<or> predicateType q = TRUE then pred_bool True
      else if predicateType p = FALSE then q
      else if predicateType q = FALSE then p
      else BasePredicate PredOr [] [] None [] [p, q] [] [])"

definition pred_and :: "predicate \<Rightarrow> predicate \<Rightarrow> predicate" where
  "pred_and p q =
     (if predicateType p = FALSE \<or> predicateType q = FALSE then pred_bool False
      else if predicateType p = TRUE then q
      else if predicateType q = TRUE then p
      else BasePredicate PredAnd [] [] None [] [p, q] [] [])"

section \<open>Named comparisons\<close>

definition validateScalarSubQuery :: "subquery \<Rightarrow> string \<Rightarrow> unit outcome" where
  "validateScalarSubQuery sub operatorName =
     (if (case sub_limit sub of None \<Rightarrow> 0 | Some n \<Rightarrow> n) \<noteq> 1
      then raise (OrmException (operatorName @ '' subquery must have a limit of 1''))
      else if sub_column_count sub \<noteq> 1
      then raise (OrmException (operatorName @ '' subquery must have one specified field (use yourQuery.field())''))
      else ok ())"

definition p_exists :: "subquery \<Rightarrow> predicate outcome" where
  "p_exists sub = pred_exists_subquery sub True"

definition p_notExists :: "subquery \<Rightarrow> predicate outcome" where
  "p_notExists sub = pred_exists_subquery sub False"

definition p_isNull :: "column_resolver \<Rightarrow> field_ptr \<Rightarrow> string \<Rightarrow> predicate outcome" where
  "p_isNull col fp a = pred_field col fp IS_NULL [] a"

definition p_isNotNull :: "column_resolver \<Rightarrow> field_ptr \<Rightarrow> string \<Rightarrow> predicate outcome" where
  "p_isNotNull col fp a = pred_field col fp IS_NOT_NULL [] a"

definition p_equals :: "column_resolver \<Rightarrow> field_ptr \<Rightarrow> raw_value \<Rightarrow> string \<Rightarrow> predicate outcome" where
  "p_equals col fp v a = pred_field col fp EQUALS [v] a"

definition p_equals_field :: "column_resolver \<Rightarrow> field_ptr \<Rightarrow> field_ptr \<Rightarrow> string \<times> string \<Rightarrow> predicate outcome" where
  "p_equals_field col fpA fpB aliases = pred_fields col fpA EQUALS fpB aliases"

definition p_equals_subquery :: "column_resolver \<Rightarrow> field_ptr \<Rightarrow> subquery \<Rightarrow> string \<Rightarrow> predicate outcome" where
  "p_equals_subquery col fp sub a = andthen (validateScalarSubQuery sub ''EQUALS'') (\<lambda>_. pred_subquery col fp EQUALS sub a)"

definition p_in :: "column_resolver \<Rightarrow> field_ptr \<Rightarrow> raw_value list \<Rightarrow> string \<Rightarrow> predicate outcome" where
  "p_in col fp vals a = pred_field col fp IN vals a"

definition p_in_subquery :: "column_resolver \<Rightarrow> field_ptr \<Rightarrow> subquery \<Rightarrow> string \<Rightarrow> predicate outcome" where
  "p_in_subquery col fp sub a =
     (if sub_column_count sub \<noteq> 1
      then raise (OrmException ''IN subquery must have one specified field (use yourQuery.field())'')
      else pred_subquery col fp IN sub a)"

definition p_notIn :: "column_resolver \<Rightarrow> field_ptr \<Rightarrow> raw_value list \<Rightarrow> string \<Rightarrow> predicate outcome" where
  "p_notIn col fp vals a = pred_field col fp NOT_IN vals a"

definition p_notIn_subquery :: "column_resolver \<Rightarrow> field_ptr \<Rightarrow> subquery \<Rightarrow> string \<Rightarrow> predicate outcome" where
  "p_notIn_subquery col fp sub a =
     (if sub_column_count sub \<noteq> 1
      then raise (OrmException ''NOT IN subquery must have one specified field (use yourQuery.field())'')
      else pred_subquery col fp NOT_IN sub a)"

definition p_notEquals :: "column_resolver \<Rightarrow> field_ptr \<Rightarrow> raw_value \<Rightarrow> string \<Rightarrow> predicate outcome" where
  "p_notEquals col fp v a = pred_field col fp NOT_EQUALS [v] a"

definition p_notEquals_field :: "column_resolver \<Rightarrow> field_ptr \<Rightarrow> field_ptr \<Rightarrow> string \<times> string \<Rightarrow> predicate outcome" where
  "p_notEquals_field col fpA fpB aliases = pred_fields col fpA NOT_EQUALS fpB aliases"

definition p_notEquals_subquery :: "column_resolver \<Rightarrow> field_ptr \<Rightarrow> subquery \<Rightarrow> string \<Rightarrow> predicate outcome" where
  "p_notEquals_subquery col fp sub a =
     andthen (validateScalarSubQuery sub ''NOT EQUALS'') (\<lambda>_. pred_subquery col fp NOT_EQUALS sub a)"

definition p_greater :: "column_resolver \<Rightarrow> field_ptr \<Rightarrow> raw_value \<Rightarrow> string \<Rightarrow> predicate outcome" where
  "p_greater col fp v a = pred_field col fp GREATER [v] a"

definition p_greater_field :: "column_resolver \<Rightarrow> field_ptr \<Rightarrow> field_ptr \<Rightarrow> string \<times> string \<Rightarrow> predicate outcome" where
  "p_greater_field col fpA fpB aliases = pred_fields col fpA GREATER fpB aliases"

definition p_greater_subquery :: "column_resolver \<Rightarrow> field_ptr \<Rightarrow> subquery \<Rightarrow> string \<Rightarrow> predicate outcome" where
  "p_greater_subquery col fp sub a = andthen (validateScalarSubQuery sub ''GREATER'') (\<lambda>_. pred_subquery col fp GREATER sub a)"

definition p_lesser :: "column_resolver \<Rightarrow> field_ptr \<Rightarrow> raw_value \<Rightarrow> string \<Rightarrow> predicate outcome" where
  "p_lesser col fp v a = pred_field col fp LESSER [v] a"

definition p_lesser_field :: "column_resolver \<Rightarrow> field_ptr \<Rightarrow> field_ptr \<Rightarrow> string \<times> string \<Rightarrow> predicate outcome" where
  "p_lesser_field col fpA fpB aliases = pred_fields col fpA LESSER fpB aliases"

definition p_lesser_subquery :: "column_resolver \<Rightarrow> field_ptr \<Rightarrow> subquery \<Rightarrow> string \<Rightarrow> predicate outcome" where
  "p_lesser_subquery col fp sub a = andthen (validateScalarSubQuery sub ''LESSER'') (\<lambda>_. pred_subquery col fp LESSER sub a)"

definition p_greaterOrEqual :: "column_resolver \<Rightarrow> field_ptr \<Rightarrow> raw_value \<Rightarrow> string \<Rightarrow> predicate outcome" where
  "p_greaterOrEqual col fp v a = pred_field col fp GREATER_OR_EQUAL [v] a"

definition p_greaterOrEqual_field :: "column_resolver \<Rightarrow> field_ptr \<Rightarrow> field_ptr \<Rightarrow> string \<times> string \<Rightarrow> predicate outcome" where
  "p_greaterOrEqual_field col fpA fpB aliases = pred_fields col fpA GREATER_OR_EQUAL fpB aliases"

definition p_greaterOrEqual_subquery :: "column_resolver \<Rightarrow> field_ptr \<Rightarrow> subquery \<Rightarrow> string \<Rightarrow> predicate outcome" where
  "p_greaterOrEqual_subquery col fp sub a =
     andthen (validateScalarSubQuery sub ''GREATER OR EQUAL'') (\<lambda>_. pred_subquery col fp GREATER_OR_EQUAL sub a)"

definition p_lesserOrEqual :: "column_resolver \<Rightarrow> field_ptr \<Rightarrow> raw_value \<Rightarrow> string \<Rightarrow> predicate outcome" where
  "p_lesserOrEqual col fp v a = pred_field col fp LESSER_OR_EQUAL [v] a"

definition p_lesserOrEqual_field :: "column_resolver \<Rightarrow> field_ptr \<Rightarrow> field_ptr \<Rightarrow> string \<times> string \<Rightarrow> predicate outcome" where
  "p_lesserOrEqual_field col fpA fpB aliases = pred_fields col fpA LESSER_OR_EQUAL fpB aliases"

definition p_lesserOrEqual_subquery :: "column_resolver \<Rightarrow> field_ptr \<Rightarrow> subquery \<Rightarrow> string \<Rightarrow> predicate outcome" where
  "p_lesserOrEqual_subquery col fp sub a =
     andthen (validateScalarSubQuery sub ''LESSER OR EQUAL'') (\<lambda>_. pred_subquery col fp LESSER_OR_EQUAL sub a)"

definition p_like :: "column_resolver \<Rightarrow> field_ptr \<Rightarrow> string \<Rightarrow> string \<Rightarrow> predicate outcome" where
  "p_like col fp v a = pred_field col fp LIKE [VText v] a"

definition p_ilike :: "column_resolver \<Rightarrow> field_ptr \<Rightarrow> string \<Rightarrow> string \<Rightarrow> predicate outcome" where
  "p_ilike col fp v a = pred_field_functions col fp LIKE [VText v] ''LOWER'' ''LOWER'' a"

definition p_contains :: "column_resolver \<Rightarrow> field_ptr \<Rightarrow> string \<Rightarrow> string \<Rightarrow> predicate outcome" where
  "p_contains col fp v a = pred_field col fp LIKE [VText (''%'' @ v @ ''%'')] a"

definition p_iContains :: "column_resolver \<Rightarrow> field_ptr \<Rightarrow> string \<Rightarrow> string \<Rightarrow> predicate outcome" where
  "p_iContains col fp v a = pred_field_functions col fp LIKE [VText (''%'' @ v @ ''%'')] ''LOWER'' ''LOWER'' a"

definition p_startsWith :: "column_resolver \<Rightarrow> field_ptr \<Rightarrow> string \<Rightarrow> string \<Rightarrow> predicate outcome" where
  "p_startsWith col fp v a = pred_field col fp LIKE [VText (v @ ''%'')] a"

definition p_endsWith :: "column_resolver \<Rightarrow> field_ptr \<Rightarrow> string \<Rightarrow> string \<Rightarrow> predicate outcome" where
  "p_endsWith col fp v a = pred_field col fp LIKE [VText (''%'' @ v)] a"

definition p_between :: "column_resolver \<Rightarrow> field_ptr \<Rightarrow> raw_value \<Rightarrow> raw_value \<Rightarrow> string \<Rightarrow> predicate outcome" where
  "p_between col fp v1 v2 a = pred_field col fp BETWEEN [v1, v2] a"

section \<open>Rendering\<close>

definition apply_function :: "string \<Rightarrow> string \<Rightarrow> string" where
  "apply_function f s = (if f \<noteq> [] then f @ ''('' @ s @ '')'' else s)"

definition escape_clause :: string where
  "escape_clause = '' ESCAPE '' @ [CHR 0x27, CHR 0x5C, CHR 0x27] @ '' ''"

definition not_two_values :: exn where
  "not_two_values = OrmException ''BETWEEN predicate should have 2 values''"

text \<open>The case \<open>LEAF\<close> of \<open>resolvePredicates\<close>; \<open>out\<close> is \<open>out_params\<close>.\<close>

definition resolve_leaf :: "string \<Rightarrow> operator \<Rightarrow> db_value list \<Rightarrow> string \<Rightarrow> string \<Rightarrow> db_value list \<Rightarrow> (string \<times> db_value list) outcome" where
  "resolve_leaf column opr vs lf rf out =
     (let lhs = apply_function lf column in
      if opr = IS_NULL \<or> opr = IS_NOT_NULL then ok ('' '' @ lhs @ '' '' @ op_string opr, out)
      else if \<not> isGroupOperator opr then
        (case vs of
           [] \<Rightarrow> None
         | v # _ \<Rightarrow> ok ('' '' @ lhs @ '' '' @ op_string opr @ '' '' @ apply_function rf ''?'' @ '' ''
             @ (if opr = LIKE then escape_clause else []), out @ [v]))
      else if opr = BETWEEN then
        (if length vs \<noteq> 2 then raise not_two_values
         else ok (lhs @ '' BETWEEN '' @ apply_function rf ''?'' @ '' AND '' @ apply_function rf ''?'', out @ [vs ! 0, vs ! 1]))
      else ok ('' '' @ lhs @ '' '' @ op_string opr @ '' ( '' @ (if vs \<noteq> [] then '' ? '' else [])
        @ concat (replicate (length vs - 1) '', ? '') @ '' ) '', out @ vs))"

fun resolvePredicates :: "predicate \<Rightarrow> db_value list \<Rightarrow> (string \<times> db_value list) outcome" where
  "resolvePredicates (BasePredicate t a b opr vs cs lf rf) out =
     (case t of
        LEAF \<Rightarrow> (case opr of None \<Rightarrow> None | Some o' \<Rightarrow> resolve_leaf a o' vs lf rf out)
      | STRING \<Rightarrow> ok ('' '' @ a @ '' '', out @ vs)
      | TRUE \<Rightarrow> ok ('' TRUE '', out)
      | FALSE \<Rightarrow> ok ('' FALSE '', out)
      | FIELD_COMPARISON \<Rightarrow>
          (case opr of None \<Rightarrow> None | Some o' \<Rightarrow> ok ('' '' @ a @ '' '' @ op_string o' @ '' '' @ b @ '' '', out))
      | SUBQUERY \<Rightarrow>
          (case opr of None \<Rightarrow> None
           | Some o' \<Rightarrow> ok (lf @ ''('' @ a @ '') '' @ op_string o' @ '' ( '' @ b @ '' ) '', out @ vs))
      | EXISTS \<Rightarrow> ok ('' EXISTS ('' @ a @ '') '', out @ vs)
      | NOT_EXISTS \<Rightarrow> ok ('' NOT EXISTS ('' @ a @ '') '', out @ vs)
      | RAW \<Rightarrow>
          (case opr of None \<Rightarrow> None | Some o' \<Rightarrow> ok ('' '' @ a @ '' '' @ op_string o' @ '' '' @ b @ '' '', out @ vs))
      | _ \<Rightarrow>
          (case cs of
             p # q # _ \<Rightarrow>
               andthen (resolvePredicates p out) (\<lambda>(s1, out1).
                 andthen (resolvePredicates q out1) (\<lambda>(s2, out2).
                   ok (''('' @ s1 @ (if t = PredAnd then '' AND '' else '' OR '') @ s2 @ '')'', out2)))
           | _ \<Rightarrow> None))"

definition leaf_toString :: "string \<Rightarrow> operator \<Rightarrow> db_value list \<Rightarrow> string \<Rightarrow> string \<Rightarrow> string outcome" where
  "leaf_toString column opr vs lf rf =
     (let lhs = apply_function lf column in
      if opr = IS_NULL \<or> opr = IS_NOT_NULL then ok (''( '' @ lhs @ '' '' @ op_string opr @ '' )'')
      else if \<not> isGroupOperator opr then
        ok (''( '' @ lhs @ '' '' @ op_string opr @ '' '' @ apply_function rf ''?'' @ '' ''
          @ (if opr = LIKE then escape_clause else []) @ '')'')
      else if opr = BETWEEN then
        (if length vs \<noteq> 2 then raise not_two_values
         else ok (''( '' @ lhs @ '' BETWEEN '' @ apply_function rf ''?'' @ '' AND '' @ apply_function rf ''?'' @ '' )''))
      else ok (''( '' @ lhs @ '' '' @ op_string opr @ '' ( '' @ (if vs \<noteq> [] then '' ? '' else [])
        @ concat (replicate (length vs - 1) '', ? '') @ '' )'' @ '' )''))"

text \<open>\<open>toString\<close> has no cases for \<open>EXISTS\<close>, \<open>NOT_EXISTS\<close> and \<open>RAW\<close>: they read children that are not there.\<close>

fun pred_toString :: "predicate \<Rightarrow> string outcome" where
  "pred_toString (BasePredicate t a b opr vs cs lf rf) =
     (case t of
        LEAF \<Rightarrow> (case opr of None \<Rightarrow> None | Some o' \<Rightarrow> leaf_toString a o' vs lf rf)
      | STRING \<Rightarrow> ok (''( '' @ a @ '' )'')
      | TRUE \<Rightarrow> ok '' TRUE ''
      | FALSE \<Rightarrow> ok '' FALSE ''
      | FIELD_COMPARISON \<Rightarrow>
          (case opr of None \<Rightarrow> None | Some o' \<Rightarrow> ok ('' '' @ a @ '' '' @ op_string o' @ '' '' @ b @ '' ''))
      | SUBQUERY \<Rightarrow>
          (case opr of None \<Rightarrow> None | Some o' \<Rightarrow> ok ('' '' @ a @ '' '' @ op_string o' @ '' ( '' @ b @ '' ) ''))
      | _ \<Rightarrow>
          (case cs of
             p # q # _ \<Rightarrow>
               andthen (pred_toString p) (\<lambda>s1.
                 andthen (pred_toString q) (\<lambda>s2.
                   ok (''('' @ s1 @ (if t = PredAnd then '' AND '' else if t = PredOr then '' OR '' else []) @ s2 @ '')'')))
           | _ \<Rightarrow> None))"

section \<open>WhereClause\<close>

definition where_and :: "predicate \<Rightarrow> predicate option \<Rightarrow> predicate option" where
  "where_and p w = (case w of None \<Rightarrow> Some p | Some q \<Rightarrow> Some (pred_and q p))"

definition where_or :: "predicate \<Rightarrow> predicate option \<Rightarrow> predicate option" where
  "where_or p w = (case w of None \<Rightarrow> Some p | Some q \<Rightarrow> Some (pred_or q p))"

section \<open>Lemmas: placeholders and parameters\<close>

text \<open>
  \<open>bind_params s vs\<close> is what the database makes of a statement: the question marks take the
  values of \<open>vs\<close> one after the other. \<open>None\<close> means that their numbers differ.
\<close>

fun bind_params :: "string \<Rightarrow> 'v list \<Rightarrow> (char + 'v) list option" where
  "bind_params [] [] = Some []"
| "bind_params [] (v # vs) = None"
| "bind_params (c # s) vs =
     (if c = CHR ''?'' then (case vs of [] \<Rightarrow> None | v # vs' \<Rightarrow> map_option ((#) (Inr v)) (bind_params s vs'))
      else map_option ((#) (Inl c)) (bind_params s vs))"

definition marks :: "string \<Rightarrow> nat" where
  "marks s = length (filter (\<lambda>c. c = CHR ''?'') s)"

definition verbatim :: "string \<Rightarrow> (char + 'v) list" where
  "verbatim s = map Inl s"

lemma marks_simps [simp]: "marks [] = 0" "marks (c # s) = (if c = CHR ''?'' then 1 else 0) + marks s"
  "marks (s @ t) = marks s + marks t"
  by (simp_all add: marks_def)

lemma verbatim_append [simp]: "verbatim (s @ t) = verbatim s @ verbatim t"
  by (simp add: verbatim_def)

lemma marks_0: "marks s = 0 \<longleftrightarrow> CHR ''?'' \<notin> set s"
  by (auto simp: marks_def filter_empty_conv)

lemma bind_params_Some: "bind_params s vs \<noteq> None \<longleftrightarrow> marks s = length vs"
  by (induction s vs rule: bind_params.induct) (auto split: list.splits)

lemma bind_params_verbatim: "marks s = 0 \<Longrightarrow> bind_params s [] = Some (verbatim s)"
  by (induction s) (auto simp: verbatim_def split: if_splits)

lemma bind_params_append:
  "bind_params s vs = Some a \<Longrightarrow> bind_params t ws = Some b \<Longrightarrow> bind_params (s @ t) (vs @ ws) = Some (a @ b)"
proof (induction s vs arbitrary: a rule: bind_params.induct)
  case (3 c s vs)
  then show ?case by (cases "c = CHR ''?''"; cases vs) auto
qed auto

lemma bind_params_before: "marks s = 0 \<Longrightarrow> bind_params t ws = Some b \<Longrightarrow> bind_params (s @ t) ws = Some (verbatim s @ b)"
  using bind_params_append [of s "[]" "verbatim s" t ws b] bind_params_verbatim [of s] by simp

lemma bind_params_after: "marks t = 0 \<Longrightarrow> bind_params s vs = Some a \<Longrightarrow> bind_params (s @ t) vs = Some (a @ verbatim t)"
  using bind_params_append [of s vs a t "[]" "verbatim t"] bind_params_verbatim [of t] by simp

text \<open>The statement text of a predicate with its values in their places.\<close>

definition hole :: "string \<Rightarrow> 'v \<Rightarrow> (char + 'v) list" where
  "hole f v = (if f \<noteq> [] then verbatim (f @ ''('') @ [Inr v] @ verbatim '')'' else [Inr v])"

definition filled_leaf :: "string \<Rightarrow> operator \<Rightarrow> db_value list \<Rightarrow> string \<Rightarrow> string \<Rightarrow> (char + db_value) list" where
  "filled_leaf a opr vs lf rf =
     (let lhs = apply_function lf a in
      if opr = IS_NULL \<or> opr = IS_NOT_NULL then verbatim ('' '' @ lhs @ '' '' @ op_string opr)
      else if \<not> isGroupOperator opr then
        verbatim ('' '' @ lhs @ '' '' @ op_string opr @ '' '') @ hole rf (hd vs) @ verbatim ('' '' @ (if opr = LIKE then escape_clause else []))
      else if opr = BETWEEN then verbatim (lhs @ '' BETWEEN '') @ hole rf (vs ! 0) @ verbatim '' AND '' @ hole rf (vs ! 1)
      else verbatim ('' '' @ lhs @ '' '' @ op_string opr @ '' ( '')
        @ (case vs of [] \<Rightarrow> [] | v # ws \<Rightarrow> verbatim '' '' @ [Inr v] @ verbatim '' '' @ concat (map (\<lambda>w. verbatim '', '' @ [Inr w] @ verbatim '' '') ws))
        @ verbatim '' ) '')"

fun filled :: "predicate \<Rightarrow> (char + db_value) list" where
  "filled (BasePredicate t a b opr vs cs lf rf) =
     (case t of
        LEAF \<Rightarrow> filled_leaf a (the opr) vs lf rf
      | STRING \<Rightarrow> verbatim '' '' @ the (bind_params a vs) @ verbatim '' ''
      | TRUE \<Rightarrow> verbatim '' TRUE ''
      | FALSE \<Rightarrow> verbatim '' FALSE ''
      | FIELD_COMPARISON \<Rightarrow> verbatim ('' '' @ a @ '' '' @ op_string (the opr) @ '' '' @ b @ '' '')
      | SUBQUERY \<Rightarrow> verbatim (lf @ ''('' @ a @ '') '' @ op_string (the opr) @ '' ( '') @ the (bind_params b vs) @ verbatim '' ) ''
      | EXISTS \<Rightarrow> verbatim '' EXISTS ('' @ the (bind_params a vs) @ verbatim '') ''
      | NOT_EXISTS \<Rightarrow> verbatim '' NOT EXISTS ('' @ the (bind_params a vs) @ verbatim '') ''
      | RAW \<Rightarrow> verbatim '' '' @ the (bind_params (a @ '' '' @ op_string (the opr) @ '' '' @ b) vs) @ verbatim '' ''
      | _ \<Rightarrow>
          (case cs of
             p # q # _ \<Rightarrow> verbatim ''('' @ filled p @ verbatim (if t = PredAnd then '' AND '' else '' OR '') @ filled q @ verbatim '')''
           | _ \<Rightarrow> []))"

text \<open>Names have no question mark, text given by the caller has one for every value given with it.\<close>

fun bindable_leaf :: "operator option \<Rightarrow> string \<Rightarrow> db_value list \<Rightarrow> string \<Rightarrow> string \<Rightarrow> bool" where
  "bindable_leaf None a vs lf rf = False"
| "bindable_leaf (Some opr) a vs lf rf =
     (marks a = 0 \<and> marks lf = 0 \<and> marks rf = 0 \<and> (opr = BETWEEN \<longrightarrow> length vs = 2)
      \<and> (opr \<notin> {IS_NULL, IS_NOT_NULL, IN, NOT_IN} \<longrightarrow> vs \<noteq> []))"

fun bindable :: "predicate \<Rightarrow> bool" where
  "bindable (BasePredicate t a b opr vs cs lf rf) =
     (case t of
        LEAF \<Rightarrow> bindable_leaf opr a vs lf rf
      | STRING \<Rightarrow> marks a = length vs
      | TRUE \<Rightarrow> True
      | FALSE \<Rightarrow> True
      | FIELD_COMPARISON \<Rightarrow> marks a = 0 \<and> marks b = 0 \<and> opr \<noteq> None
      | SUBQUERY \<Rightarrow> marks a = 0 \<and> marks lf = 0 \<and> marks b = length vs \<and> opr \<noteq> None
      | EXISTS \<Rightarrow> marks a = length vs
      | NOT_EXISTS \<Rightarrow> marks a = length vs
      | RAW \<Rightarrow> marks a + marks b = length vs \<and> opr \<noteq> None
      | _ \<Rightarrow> (case cs of p # q # _ \<Rightarrow> bindable p \<and> bindable q | _ \<Rightarrow> False))"

lemma marks_op [simp]: "marks (op_string opr) = 0"
  by (cases opr) simp_all

lemma marks_apply [simp]: "marks (apply_function f s) = marks f + marks s"
  by (simp add: apply_function_def)

lemma marks_escape [simp]: "marks escape_clause = 0"
  by (simp add: escape_clause_def)

lemma bind_hole: "marks f = 0 \<Longrightarrow> bind_params (apply_function f ''?'') [v] = Some (hole f v)"
  using bind_params_before [of "f @ ''(''" "''?)''" "[v]" "[Inr v] @ verbatim '')''"]
  by (simp add: apply_function_def hole_def verbatim_def)

lemma bind_more: "bind_params (concat (replicate (length ws) '', ? '')) ws = Some (concat (map (\<lambda>w. verbatim '', '' @ [Inr w] @ verbatim '' '') ws))"
  by (induction ws) (auto simp: verbatim_def)

lemma resolve_leaf_binds:
  assumes "bindable_leaf (Some opr) a vs lf rf"
  shows "\<exists>s ws. (\<forall>out. resolve_leaf a opr vs lf rf out = ok (s, out @ ws)) \<and> bind_params s ws = Some (filled_leaf a opr vs lf rf)"
proof -
  have m: "marks a = 0" "marks lf = 0" "marks rf = 0" using assms by auto
  let ?pre = "'' '' @ apply_function lf a @ '' '' @ op_string opr"
  consider (null) "opr = IS_NULL \<or> opr = IS_NOT_NULL" | (between) "opr = BETWEEN" | (group) "opr = IN \<or> opr = NOT_IN"
    | (scalar) "opr \<notin> {IS_NULL, IS_NOT_NULL, IN, NOT_IN, BETWEEN}" by blast
  then show ?thesis
  proof cases
    case null
    then show ?thesis using m bind_params_verbatim [of ?pre]
      by (intro exI [of _ ?pre] exI [of _ "[]"]) (auto simp: resolve_leaf_def filled_leaf_def Let_def)
  next
    case between
    then obtain v w where vs: "vs = [v, w]" using assms by (auto simp: length_Suc_conv numeral_2_eq_2)
    have "bind_params ((apply_function lf a @ '' BETWEEN '') @ apply_function rf ''?'' @ '' AND '' @ apply_function rf ''?'') ([v] @ [w])
        = Some (verbatim (apply_function lf a @ '' BETWEEN '') @ hole rf v @ verbatim '' AND '' @ hole rf w)"
      by (intro bind_params_before bind_params_append bind_hole) (simp_all add: m)
    then show ?thesis using between vs
      by (auto simp: resolve_leaf_def filled_leaf_def Let_def isGroupOperator_def)
  next
    case group
    let ?marks = "(if vs \<noteq> [] then '' ? '' else []) @ concat (replicate (length vs - 1) '', ? '')"
    let ?vals = "case vs of [] \<Rightarrow> [] | v # ws \<Rightarrow> verbatim '' '' @ [Inr v] @ verbatim '' '' @ concat (map (\<lambda>w. verbatim '', '' @ [Inr w] @ verbatim '' '') ws)"
    have "bind_params ?marks vs = Some ?vals"
    proof (cases vs)
      case (Cons v ws)
      have "bind_params '' ? '' [v] = Some (verbatim '' '' @ [Inr v] @ verbatim '' '')" by (simp add: verbatim_def)
      from bind_params_append [OF this bind_more [of ws]] show ?thesis by (simp add: Cons)
    qed simp
    then have "bind_params (?marks @ '' ) '') vs = Some (?vals @ verbatim '' ) '')" by (rule bind_params_after [rotated]) simp
    moreover have "marks (?pre @ '' ( '') = 0" using m by simp
    ultimately have "bind_params ((?pre @ '' ( '') @ ?marks @ '' ) '') vs = Some (verbatim (?pre @ '' ( '') @ ?vals @ verbatim '' ) '')"
      by (intro bind_params_before) simp_all
    then show ?thesis using group
      by (auto simp: resolve_leaf_def filled_leaf_def Let_def isGroupOperator_def simp del: bind_params.simps)
  next
    case scalar
    then obtain v ws where vs: "vs = v # ws" using assms by (cases vs) auto
    have "bind_params ((?pre @ '' '') @ apply_function rf ''?'' @ '' '' @ (if opr = LIKE then escape_clause else [])) [v]
        = Some (verbatim (?pre @ '' '') @ hole rf v @ verbatim ('' '' @ (if opr = LIKE then escape_clause else [])))"
      by (intro bind_params_before bind_params_after bind_hole) (simp_all add: m)
    then show ?thesis using scalar vs
      by (auto simp: resolve_leaf_def filled_leaf_def Let_def isGroupOperator_def)
  qed
qed

lemma bind_params_the: "marks s = length vs \<Longrightarrow> bind_params s vs = Some (the (bind_params s vs))"
  using bind_params_Some [of s vs] by auto

text \<open>Every placeholder of a rendered predicate takes the value that belongs there.\<close>

lemma resolve_binds:
  "bindable p \<Longrightarrow> \<exists>s vs. (\<forall>out. resolvePredicates p out = ok (s, out @ vs)) \<and> bind_params s vs = Some (filled p)"
proof (induction p)
  case (BasePredicate t a b opr vs cs lf rf)
  have connective: ?case if t: "t = PredAnd \<or> t = PredOr"
  proof -
    obtain p q r where cs: "cs = p # q # r" and b: "bindable p" "bindable q"
      using BasePredicate.prems t by (auto split: list.splits)
    obtain s1 v1 where 1: "\<And>out. resolvePredicates p out = ok (s1, out @ v1)" "bind_params s1 v1 = Some (filled p)"
      using BasePredicate.IH [of p] b(1) cs by auto
    obtain s2 v2 where 2: "\<And>out. resolvePredicates q out = ok (s2, out @ v2)" "bind_params s2 v2 = Some (filled q)"
      using BasePredicate.IH [of q] b(2) cs by auto
    let ?c = "if t = PredAnd then '' AND '' else '' OR ''"
    have "bind_params (''('' @ s1 @ ?c @ s2 @ '')'') (v1 @ v2) = Some (verbatim ''('' @ filled p @ verbatim ?c @ filled q @ verbatim '')'')"
      by (intro bind_params_before bind_params_append [OF 1(2)] bind_params_after 2(2)) simp_all
    moreover have "resolvePredicates (BasePredicate t a b opr vs cs lf rf) out = ok (''('' @ s1 @ ?c @ s2 @ '')'', out @ v1 @ v2)" for out
      using t 1(1) 2(1) cs by auto
    ultimately show ?thesis using t cs by (intro exI [of _ "''('' @ s1 @ ?c @ s2 @ '')''"] exI [of _ "v1 @ v2"]) auto
  qed
  have embedded: "bind_params (pre @ s @ post) vs = Some (verbatim pre @ the (bind_params s vs) @ verbatim post)"
    if "marks pre = 0" "marks post = 0" "marks s = length vs" for pre s post
    using that by (intro bind_params_before bind_params_after bind_params_the) 
  note e = embedded [where pre = "'' ''" and post = "'' ''"] embedded [where pre = "'' EXISTS (''" and post = "'') ''"]
    embedded [where pre = "'' NOT EXISTS (''" and post = "'') ''"]
  show ?case
  proof (cases t)
    case LEAF
    then show ?thesis using BasePredicate.prems resolve_leaf_binds [of "the opr" a vs lf rf] by (cases opr) auto
  next
    case STRING
    then show ?thesis using BasePredicate.prems e(1) [of a] by auto
  next
    case TRUE
    then show ?thesis using bind_params_verbatim [of "'' TRUE ''"] by fastforce
  next
    case FALSE
    then show ?thesis using bind_params_verbatim [of "'' FALSE ''"] by fastforce
  next
    case FIELD_COMPARISON
    then show ?thesis using BasePredicate.prems bind_params_verbatim [of "'' '' @ a @ '' '' @ op_string (the opr) @ '' '' @ b @ '' ''"]
      by fastforce
  next
    case SUBQUERY
    then show ?thesis using BasePredicate.prems
      embedded [of "lf @ ''('' @ a @ '') '' @ op_string (the opr) @ '' ( ''" "'' ) ''" b] by fastforce
  next
    case EXISTS
    then show ?thesis using BasePredicate.prems e(2) [of a] by auto
  next
    case NOT_EXISTS
    then show ?thesis using BasePredicate.prems e(3) [of a] by auto
  next
    case RAW
    then show ?thesis using BasePredicate.prems e(1) [of "a @ '' '' @ op_string (the opr) @ '' '' @ b"] by fastforce
  qed (use connective in auto)
qed


text \<open>How the code builds predicates keeps this.\<close>

lemma bindable_and: "bindable p \<Longrightarrow> bindable q \<Longrightarrow> bindable (pred_and p q)"
  by (simp add: pred_and_def pred_bool_def pred_type_def)

lemma bindable_or: "bindable p \<Longrightarrow> bindable q \<Longrightarrow> bindable (pred_or p q)"
  by (simp add: pred_or_def pred_bool_def pred_type_def)

lemma bindable_bool [simp]: "bindable (pred_bool b)"
  by (simp add: pred_bool_def pred_type_def)

definition clean_model :: "model \<Rightarrow> bool" where
  "clean_model m \<longleftrightarrow> marks (tableName m) = 0 \<and> (\<forall>c \<in> set (columns m). marks (dbName c) = 0)"

lemma columnNameOf_clean: "clean_model m \<Longrightarrow> columnNameOf m ptr = ok n \<Longrightarrow> marks n = 0"
  using columnNameOf_ok [of m ptr n] by (auto simp: clean_model_def)

lemma getAlias_clean: "getAlias i = ok a \<Longrightarrow> marks a = 0"
proof -
  have "\<forall>a \<in> set aliasList. marks a = 0" by (simp add: aliasList_def)
  then show "getAlias i = ok a \<Longrightarrow> ?thesis" by (auto simp: getAlias_def split: if_splits)
qed

lemma default_resolver_clean:
  assumes "clean_model (fp_model fp)" "default_resolver ms fp a = ok c"
  shows "marks c = marks a"
  using assms by (auto simp: default_resolver_def model_alias_def andthen_eq_ok columnNameOf_clean getAlias_clean
      split: if_splits option.splits)

lemma pred_field_bindable:
  assumes "pred_field col fp opr vals a = ok p" "\<And>c. col fp a = ok c \<Longrightarrow> marks c = 0"
    and "opr = BETWEEN \<Longrightarrow> length vals = 2" "opr \<notin> {IS_NULL, IS_NOT_NULL, IN, NOT_IN} \<Longrightarrow> vals \<noteq> []"
  shows "bindable p"
  using assms by (auto simp: pred_field_def andthen_eq_ok)

lemma pred_fields_bindable:
  assumes "pred_fields col fpA opr fpB aliases = ok p" "\<And>c. col fpA (fst aliases) = ok c \<Longrightarrow> marks c = 0"
    and "\<And>c. col fpB (snd aliases) = ok c \<Longrightarrow> marks c = 0"
  shows "bindable p"
  using assms by (auto simp: pred_fields_def andthen_eq_ok)

lemma pred_subquery_bindable:
  assumes "pred_subquery col fp opr sub a = ok p" "\<And>c. col fp a = ok c \<Longrightarrow> marks c = 0"
    and "\<And>sql ps. sub_sql sub = ok (sql, ps) \<Longrightarrow> marks sql = length ps"
  shows "bindable p"
  using assms by (auto simp: pred_subquery_def andthen_eq_ok)

section \<open>Lemmas: what the connectives mean\<close>

text \<open>Truth in the three-valued logic of SQL: \<open>None\<close> is unknown, \<open>rho\<close> gives the truth of a comparison.\<close>

definition sql_and :: "bool option \<Rightarrow> bool option \<Rightarrow> bool option" where
  "sql_and x y = (if x = Some False \<or> y = Some False then Some False else if x = None \<or> y = None then None else Some True)"

definition sql_or :: "bool option \<Rightarrow> bool option \<Rightarrow> bool option" where
  "sql_or x y = (if x = Some True \<or> y = Some True then Some True else if x = None \<or> y = None then None else Some False)"

fun truth :: "(predicate \<Rightarrow> bool option) \<Rightarrow> predicate \<Rightarrow> bool option" where
  "truth rho (BasePredicate t a b opr vs cs lf rf) =
     (case t of
        TRUE \<Rightarrow> Some True
      | FALSE \<Rightarrow> Some False
      | PredAnd \<Rightarrow> (case cs of p # q # _ \<Rightarrow> sql_and (truth rho p) (truth rho q) | _ \<Rightarrow> None)
      | PredOr \<Rightarrow> (case cs of p # q # _ \<Rightarrow> sql_or (truth rho p) (truth rho q) | _ \<Rightarrow> None)
      | _ \<Rightarrow> rho (BasePredicate t a b opr vs cs lf rf))"

lemma sql_and_simps [simp]: "sql_and (Some True) y = y" "sql_and x (Some True) = x" "sql_and (Some False) y = Some False"
  "sql_and x (Some False) = Some False"
  by (cases x; cases y; auto simp: sql_and_def)+

lemma sql_or_simps [simp]: "sql_or (Some True) y = Some True" "sql_or x (Some True) = Some True" "sql_or (Some False) y = y"
  "sql_or x (Some False) = x"
  by (cases x; cases y; auto simp: sql_or_def)+

lemma truth_const: "predicateType p = TRUE \<Longrightarrow> truth rho p = Some True" "predicateType p = FALSE \<Longrightarrow> truth rho p = Some False"
  by (cases p; simp)+

lemma truth_bool [simp]: "truth rho (pred_bool b) = Some b"
  by (simp add: pred_bool_def pred_type_def)

text \<open>The simplifications with \<open>TRUE\<close> and \<open>FALSE\<close> keep the meaning.\<close>

lemma truth_and: "truth rho (pred_and p q) = sql_and (truth rho p) (truth rho q)"
  using truth_const [of p rho] truth_const [of q rho] by (auto simp: pred_and_def)

lemma truth_or: "truth rho (pred_or p q) = sql_or (truth rho p) (truth rho q)"
  using truth_const [of p rho] truth_const [of q rho] by (auto simp: pred_or_def)

section \<open>Lemmas: predicates that cannot be rendered\<close>

lemma between_fields_fails:
  assumes "pred_between_fields col fpA BETWEEN fpB fpC lf rf aliases = ok p"
  shows "resolvePredicates p out = raise not_two_values"
  using assms by (cases aliases) (auto simp: pred_between_fields_def andthen_eq_ok resolve_leaf_def isGroupOperator_def Let_def)

lemma exists_toString: "pred_exists_subquery sub ex = ok p \<Longrightarrow> pred_toString p = None"
  by (auto simp: pred_exists_subquery_def andthen_eq_ok)

lemma raw_toString: "pred_toString (pred_raw lhs opr rhs vals) = None"
  by (simp add: pred_raw_def)

end
