(* ===== verification/SelectQueries.thy ===== *)
theory SelectQueries
  imports Predicates
begin

text \<open>
  Queries: \<open>rukh/include/rukh/orm/SelectQuery.hpp\<close>.

  A query has its own clauses, the record \<open>query_parts\<close>, and the vector \<open>children\<close>, which has the two
  operands of a compound query. The template parameters \<open>Models\<close> are a list \<open>ms\<close>; the main model is
  its head. The functions that build a query return the new query; in the code they return \<open>*this\<close>.

  \<open>getOne\<close>, \<open>getOneOptional\<close> and \<open>getOneOrCreate\<close> call \<open>hydrateModel\<close>, which takes a result, with a row.
  They cannot be instantiated and are left out.
\<close>

section \<open>Clauses\<close>

record cte =
  cte_name :: string
  cte_sql :: string
  cte_params :: "db_value list"
  cte_recursive :: bool

datatype sorting = DESC | ASC
datatype join_type = INNER | LEFT | RIGHT | FULL | CROSS
datatype set_query_type = UNION | UNION_ALL | INTERSECT | INTERSECT_ALL | EXCEPT | EXCEPT_ALL

fun join_string :: "join_type \<Rightarrow> string" where
  "join_string INNER = '' JOIN ''"
| "join_string LEFT = '' LEFT JOIN ''"
| "join_string RIGHT = '' RIGHT JOIN ''"
| "join_string FULL = '' FULL JOIN ''"
| "join_string CROSS = '' CROSS JOIN ''"

fun set_string :: "set_query_type \<Rightarrow> string" where
  "set_string UNION = '' UNION ''"
| "set_string UNION_ALL = '' UNION ALL ''"
| "set_string INTERSECT = '' INTERSECT ''"
| "set_string INTERSECT_ALL = '' INTERSECT ALL ''"
| "set_string EXCEPT = '' EXCEPT ''"
| "set_string EXCEPT_ALL = '' EXCEPT ALL ''"

record join_clause =
  join_table :: string
  join_alias :: string
  join_kind :: string
  join_condition :: predicate

record query_parts =
  setQueryType :: "set_query_type option"
  wherePredicate :: "predicate option"
  q_tableName :: string
  q_tableAlias :: "string option"
  q_joins :: "join_clause list"
  q_columns :: "string list"
  q_orderBy :: "(string \<times> sorting) list"
  q_groupBy :: "string list"
  q_limit :: "nat option"
  q_offset :: "nat option"
  havingPredicate :: "predicate option"
  q_distinct :: bool
  q_ctes :: "cte list"
  hasRecursive :: bool

datatype select_query = SelectQuery (clauses: query_parts) (query_children: "select_query list")

definition map_parts :: "(query_parts \<Rightarrow> query_parts) \<Rightarrow> select_query \<Rightarrow> select_query" where
  "map_parts f q = SelectQuery (f (clauses q)) (query_children q)"

definition new_parts :: "model list \<Rightarrow> query_parts" where
  "new_parts ms = \<lparr>setQueryType = None, wherePredicate = None, q_tableName = tableName (hd ms), q_tableAlias = None, q_joins = [],
     q_columns = [], q_orderBy = [], q_groupBy = [], q_limit = None, q_offset = None, havingPredicate = None,
     q_distinct = False, q_ctes = [], hasRecursive = False\<rparr>"

definition new_query :: "model list \<Rightarrow> select_query" where
  "new_query ms = SelectQuery (new_parts ms) []"

definition new_query_alias :: "model list \<Rightarrow> string \<Rightarrow> select_query" where
  "new_query_alias ms a = SelectQuery ((new_parts ms)\<lparr>q_tableAlias := Some a\<rparr>) []"

section \<open>Building a query\<close>

text \<open>The six functions that combine two queries.\<close>

definition set_query :: "set_query_type \<Rightarrow> model list \<Rightarrow> select_query \<Rightarrow> select_query \<Rightarrow> select_query" where
  "set_query t ms q other = SelectQuery ((new_parts ms)\<lparr>setQueryType := Some t\<rparr>) [q, other]"

definition unionQuery :: "model list \<Rightarrow> select_query \<Rightarrow> select_query \<Rightarrow> select_query" where
  "unionQuery = set_query UNION"

definition intersectQuery :: "model list \<Rightarrow> select_query \<Rightarrow> select_query \<Rightarrow> select_query" where
  "intersectQuery = set_query INTERSECT"

definition exceptQuery :: "model list \<Rightarrow> select_query \<Rightarrow> select_query \<Rightarrow> select_query" where
  "exceptQuery = set_query EXCEPT"

definition unionAllQuery :: "model list \<Rightarrow> select_query \<Rightarrow> select_query \<Rightarrow> select_query" where
  "unionAllQuery = set_query UNION_ALL"

definition intersectAllQuery :: "model list \<Rightarrow> select_query \<Rightarrow> select_query \<Rightarrow> select_query" where
  "intersectAllQuery = set_query INTERSECT_ALL"

definition exceptAllQuery :: "model list \<Rightarrow> select_query \<Rightarrow> select_query \<Rightarrow> select_query" where
  "exceptAllQuery = set_query EXCEPT_ALL"

definition q_where :: "predicate \<Rightarrow> select_query \<Rightarrow> select_query" where
  "q_where p = map_parts (\<lambda>x. x\<lparr>wherePredicate := where_and p (wherePredicate x)\<rparr>)"

definition q_orWhere :: "predicate \<Rightarrow> select_query \<Rightarrow> select_query" where
  "q_orWhere p = map_parts (\<lambda>x. x\<lparr>wherePredicate := where_or p (wherePredicate x)\<rparr>)"

definition q_join :: "model list \<Rightarrow> model \<Rightarrow> predicate \<Rightarrow> string option \<Rightarrow> join_type \<Rightarrow> select_query \<Rightarrow> select_query outcome" where
  "q_join ms jm p tableAlias t q =
     andthen (model_alias ms jm) (\<lambda>a.
       let j = \<lparr>join_table = tableName jm, join_alias = (case tableAlias of Some x \<Rightarrow> x | None \<Rightarrow> a),
                join_kind = join_string t, join_condition = p\<rparr>
       in ok (map_parts (\<lambda>x. x\<lparr>q_joins := q_joins x @ [j]\<rparr>) q))"

definition q_join_table :: "string \<Rightarrow> predicate \<Rightarrow> string \<Rightarrow> join_type \<Rightarrow> select_query \<Rightarrow> select_query outcome" where
  "q_join_table table p tableAlias t q =
     (if tableAlias = [] then raise (OrmException ''Must provide table alias for string based tableName'')
      else ok (map_parts (\<lambda>x. x\<lparr>q_joins := q_joins x
        @ [\<lparr>join_table = table, join_alias = tableAlias, join_kind = join_string t, join_condition = p\<rparr>]\<rparr>) q))"

definition q_from :: "string \<Rightarrow> string \<Rightarrow> select_query \<Rightarrow> select_query" where
  "q_from table tableAlias =
     map_parts (\<lambda>x. x\<lparr>q_tableName := table, q_tableAlias := (if tableAlias = [] then None else Some tableAlias)\<rparr>)"

text \<open>The two \<open>getFullColumnString\<close>.\<close>

definition column_with :: "string \<Rightarrow> string \<Rightarrow> string \<Rightarrow> string" where
  "column_with func col columnAlias =
     (if func \<noteq> [] then func @ ''('' @ col @ '')'' else col) @ (if columnAlias = [] then [] else '' AS '' @ columnAlias)"

definition full_column_field :: "model list \<Rightarrow> field_ptr \<Rightarrow> string \<Rightarrow> string \<Rightarrow> string \<Rightarrow> string outcome" where
  "full_column_field ms fp func tableAlias columnAlias =
     andthen (default_resolver ms fp tableAlias) (\<lambda>col. ok (column_with func col columnAlias))"

definition full_column :: "string \<Rightarrow> string \<Rightarrow> string \<Rightarrow> string \<Rightarrow> string" where
  "full_column col func tableAlias columnAlias =
     column_with func (if tableAlias = [] then col else tableAlias @ ''.'' @ col) columnAlias"

definition add_column :: "string \<Rightarrow> select_query \<Rightarrow> select_query" where
  "add_column c = map_parts (\<lambda>x. x\<lparr>q_columns := q_columns x @ [c]\<rparr>)"

definition q_field :: "model list \<Rightarrow> field_ptr \<Rightarrow> string \<Rightarrow> string \<Rightarrow> select_query \<Rightarrow> select_query outcome" where
  "q_field ms fp tableAlias columnAlias q =
     andthen (full_column_field ms fp [] tableAlias columnAlias) (\<lambda>c. ok (add_column c q))"

definition q_functionField :: "model list \<Rightarrow> string \<Rightarrow> field_ptr \<Rightarrow> string \<Rightarrow> string \<Rightarrow> select_query \<Rightarrow> select_query outcome" where
  "q_functionField ms func fp tableAlias columnAlias q =
     andthen (full_column_field ms fp func tableAlias columnAlias) (\<lambda>c. ok (add_column c q))"

definition q_column :: "string \<Rightarrow> string \<Rightarrow> string \<Rightarrow> select_query \<Rightarrow> select_query" where
  "q_column col tableAlias columnAlias = add_column (full_column col [] tableAlias columnAlias)"

definition q_functionColumn :: "string \<Rightarrow> string \<Rightarrow> string \<Rightarrow> string \<Rightarrow> select_query \<Rightarrow> select_query" where
  "q_functionColumn func col tableAlias columnAlias = add_column (full_column col func tableAlias columnAlias)"

definition q_allColumns :: "model list \<Rightarrow> model \<Rightarrow> string \<Rightarrow> string \<Rightarrow> select_query \<Rightarrow> select_query outcome" where
  "q_allColumns ms m tableAlias aliasPrefix =
     each (\<lambda>c. q_field ms \<lparr>fp_model = m, fp_field = fieldPtr c\<rparr> tableAlias
       (if aliasPrefix = [] then [] else aliasPrefix @ ''_'' @ dbName c)) (columns m)"

definition q_orderBy_column :: "string \<Rightarrow> sorting \<Rightarrow> string \<Rightarrow> select_query \<Rightarrow> select_query" where
  "q_orderBy_column col s tableAlias =
     map_parts (\<lambda>x. x\<lparr>q_orderBy := q_orderBy x @ [(full_column col [] tableAlias [], s)]\<rparr>)"

definition q_orderBy_field :: "model list \<Rightarrow> field_ptr \<Rightarrow> sorting \<Rightarrow> string \<Rightarrow> select_query \<Rightarrow> select_query outcome" where
  "q_orderBy_field ms fp s tableAlias q =
     andthen (full_column_field ms fp [] tableAlias []) (\<lambda>c.
       ok (map_parts (\<lambda>x. x\<lparr>q_orderBy := q_orderBy x @ [(c, s)]\<rparr>) q))"

definition q_setDistinct :: "select_query \<Rightarrow> select_query" where
  "q_setDistinct = map_parts (\<lambda>x. x\<lparr>q_distinct := True\<rparr>)"

definition q_clearLimit :: "select_query \<Rightarrow> select_query" where
  "q_clearLimit = map_parts (\<lambda>x. x\<lparr>q_limit := None\<rparr>)"

definition q_getLimit :: "select_query \<Rightarrow> nat option" where
  "q_getLimit q = q_limit (clauses q)"

definition q_setLimit :: "nat \<Rightarrow> select_query \<Rightarrow> select_query" where
  "q_setLimit n = map_parts (\<lambda>x. x\<lparr>q_limit := Some n\<rparr>)"

definition q_clearOffset :: "select_query \<Rightarrow> select_query" where
  "q_clearOffset = map_parts (\<lambda>x. x\<lparr>q_offset := None\<rparr>)"

definition q_getOffset :: "select_query \<Rightarrow> nat option" where
  "q_getOffset q = q_offset (clauses q)"

definition q_addOffset :: "nat \<Rightarrow> select_query \<Rightarrow> select_query" where
  "q_addOffset n = map_parts (\<lambda>x. x\<lparr>q_offset := Some (sz_add (case q_offset x of Some k \<Rightarrow> k | None \<Rightarrow> 0) n)\<rparr>)"

definition q_addGroupBy :: "model list \<Rightarrow> field_ptr \<Rightarrow> string \<Rightarrow> select_query \<Rightarrow> select_query outcome" where
  "q_addGroupBy ms fp tableAlias q =
     andthen (full_column_field ms fp [] tableAlias []) (\<lambda>c.
       ok (map_parts (\<lambda>x. x\<lparr>q_groupBy := q_groupBy x @ [c]\<rparr>) q))"

definition q_having :: "predicate \<Rightarrow> select_query \<Rightarrow> select_query" where
  "q_having p = map_parts (\<lambda>x. x\<lparr>havingPredicate := Some p\<rparr>)"

definition q_getColumnCount :: "select_query \<Rightarrow> nat" where
  "q_getColumnCount q = length (q_columns (clauses q))"

section \<open>Rendering\<close>

fun comma_list :: "string list \<Rightarrow> string" where
  "comma_list [] = []"
| "comma_list [x] = x"
| "comma_list (x # y # xs) = x @ '', '' @ comma_list (y # xs)"

fun cte_clause :: "bool \<Rightarrow> bool \<Rightarrow> cte list \<Rightarrow> string" where
  "cte_clause first recursive [] = []"
| "cte_clause first recursive (c # cs) =
     (if first then ''WITH '' else '' , '') @ (if first \<and> recursive then '' RECURSIVE '' else [])
     @ cte_name c @ '' AS ( '' @ cte_sql c @ '' ) '' @ cte_clause False recursive cs"

definition column_clause :: "model list \<Rightarrow> query_parts \<Rightarrow> string \<Rightarrow> string outcome" where
  "column_clause ms p main_alias =
     (if q_columns p = [] then
        if q_tableName p \<noteq> tableName (hd ms)
        then raise (OrmException ''Must provide SELECT column list when overriding tableName'')
        else ok (comma_list (map (\<lambda>c. main_alias @ ''.'' @ dbName c) (columns (hd ms))))
      else ok (comma_list (q_columns p)))"

definition join_step :: "join_clause \<Rightarrow> string \<times> db_value list \<Rightarrow> (string \<times> db_value list) outcome" where
  "join_step j acc =
     (case acc of (ss, params) \<Rightarrow>
        andthen (resolvePredicates (join_condition j) params) (\<lambda>(cond, params1).
          ok (ss @ join_kind j @ join_table j @ '' AS '' @ join_alias j @ '' ON '' @ cond, params1)))"

definition optional_clause :: "string \<Rightarrow> predicate option \<Rightarrow> string \<times> db_value list \<Rightarrow> (string \<times> db_value list) outcome" where
  "optional_clause keyword w acc =
     (case w of
        None \<Rightarrow> ok acc
      | Some p \<Rightarrow>
          (case acc of (ss, params) \<Rightarrow>
             andthen (resolvePredicates p params) (\<lambda>(cond, params1). ok (ss @ keyword @ cond, params1))))"

definition group_clause :: "query_parts \<Rightarrow> string \<times> db_value list \<Rightarrow> (string \<times> db_value list) outcome" where
  "group_clause p acc =
     (if q_groupBy p = [] then ok acc
      else
        (case acc of (ss, params) \<Rightarrow>
           optional_clause '' HAVING '' (havingPredicate p) (ss @ '' GROUP BY '' @ comma_list (q_groupBy p), params)))"

definition plain_select :: "model list \<Rightarrow> query_parts \<Rightarrow> db_value list \<Rightarrow> (string \<times> db_value list) outcome" where
  "plain_select ms p params =
     andthen (model_alias ms (hd ms)) (\<lambda>a.
       let main_alias = (case q_tableAlias p of Some x \<Rightarrow> x | None \<Rightarrow> a) in
       andthen (column_clause ms p main_alias) (\<lambda>cols.
         andthen (each join_step (q_joins p)
             ('' SELECT '' @ (if q_distinct p then '' DISTINCT '' else []) @ cols @ '' FROM '' @ q_tableName p @ '' AS '' @ main_alias, params))
           (\<lambda>acc. andthen (optional_clause '' WHERE '' (wherePredicate p) acc) (group_clause p))))"

definition order_item :: "string \<times> sorting \<Rightarrow> string" where
  "order_item s = fst s @ (if snd s = DESC then '' DESC'' else [])"

definition tail_clause :: "nat option \<Rightarrow> query_parts \<Rightarrow> string" where
  "tail_clause lim p =
     (if q_orderBy p = [] then [] else '' ORDER BY '' @ comma_list (map order_item (q_orderBy p)))
     @ (case lim of Some n \<Rightarrow> '' LIMIT '' @ to_dec n
        | None \<Rightarrow> (case q_limit p of Some n \<Rightarrow> '' LIMIT '' @ to_dec n | None \<Rightarrow> []))
     @ (case q_offset p of Some n \<Rightarrow> '' OFFSET '' @ to_dec n | None \<Rightarrow> [])
     @ '' ''"

text \<open>An operand of a compound query that is compound itself becomes a subquery.\<close>

definition operand :: "nat \<Rightarrow> string \<Rightarrow> select_query \<Rightarrow> string \<Rightarrow> string" where
  "operand depth i q sql =
     (if setQueryType (clauses q) \<noteq> None then '' SELECT * FROM ( '' @ sql @ '') AS sub_'' @ to_dec depth @ i else sql)"

text \<open>\<open>buildSelectSqlAndSetParams\<close>. In a compound query the parameters of the operands replace those of the CTEs.\<close>

fun build_select :: "model list \<Rightarrow> nat \<Rightarrow> nat option \<Rightarrow> select_query \<Rightarrow> (string \<times> db_value list) outcome" where
  "build_select ms depth lim (SelectQuery p cs) =
     (let ctes = cte_clause True (hasRecursive p) (q_ctes p); params = concat (map cte_params (q_ctes p)) in
      andthen
        (case setQueryType p of
           Some t \<Rightarrow>
             if q_groupBy p \<noteq> [] \<or> havingPredicate p \<noteq> None
             then raise (OrmException ''groupBy()/having() cannot be combined with union/intersect/except queries'')
             else
               (case cs of
                  q1 # q2 # _ \<Rightarrow>
                    andthen (build_select ms (Suc depth) None q1) (\<lambda>(sql1, params1).
                      andthen (build_select ms (Suc depth) None q2) (\<lambda>(sql2, params2).
                        ok (operand depth ''_0'' q1 sql1 @ set_string t @ operand depth ''_1'' q2 sql2, params1 @ params2)))
                | _ \<Rightarrow> None)
         | None \<Rightarrow> plain_select ms p params)
        (\<lambda>(sql, params1). ok (ctes @ sql @ tail_clause lim p, params1)))"

definition getSqlAndParams :: "model list \<Rightarrow> nat \<Rightarrow> select_query \<Rightarrow> (string \<times> db_value list) outcome" where
  "getSqlAndParams ms depth q = build_select ms depth None q"

definition getSql :: "model list \<Rightarrow> select_query \<Rightarrow> string outcome" where
  "getSql ms q = andthen (build_select ms 0 None q) (\<lambda>(sql, _). ok sql)"

definition as_subquery :: "model list \<Rightarrow> select_query \<Rightarrow> subquery" where
  "as_subquery ms q = \<lparr>sub_sql = getSqlAndParams ms 0 q, sub_limit = q_getLimit q, sub_column_count = q_getColumnCount q\<rparr>"

definition withCte :: "model list \<Rightarrow> string \<Rightarrow> select_query \<Rightarrow> bool \<Rightarrow> select_query \<Rightarrow> select_query outcome" where
  "withCte ms name query isRecursive q =
     (if isRecursive \<and> setQueryType (clauses query) \<notin> {Some UNION, Some UNION_ALL}
      then raise (OrmException ''Recursive CTE must have UNION or UNION ALL query'')
      else if isRecursive \<and> hasRecursive (clauses query) then raise (OrmException ''Can only have 1 recursive CTE'')
      else if hasRecursive (clauses q) \<and> isRecursive then raise (OrmException ''Can only have 1 recursive CTE'')
      else
        andthen (getSqlAndParams ms 0 query) (\<lambda>(sql, params).
          ok (map_parts (\<lambda>x. x\<lparr>hasRecursive := hasRecursive x \<or> isRecursive,
            q_ctes := q_ctes x @ [\<lparr>cte_name = name, cte_sql = sql, cte_params = params, cte_recursive = isRecursive\<rparr>]\<rparr>) q)))"

definition withCte_given :: "cte \<Rightarrow> select_query \<Rightarrow> select_query outcome" where
  "withCte_given c q =
     (if hasRecursive (clauses q) \<and> cte_recursive c then raise (OrmException ''Can only have 1 recursive CTE'')
      else ok (map_parts (\<lambda>x. x\<lparr>hasRecursive := hasRecursive x \<or> cte_recursive c, q_ctes := q_ctes x @ [c]\<rparr>) q))"

section \<open>Running a query\<close>

definition run_select :: "'w db_target \<Rightarrow> model list \<Rightarrow> nat option \<Rightarrow> select_query \<Rightarrow> ('w, query_result) db_task" where
  "run_select t ms lim q = task_bind (task_of (build_select ms 0 lim q)) (\<lambda>(sql, params). dispatch_query t sql params)"

definition sq_execute :: "'w db_target \<Rightarrow> model list \<Rightarrow> select_query \<Rightarrow> ('w, query_result) db_task" where
  "sq_execute t ms q = run_select t ms None q"

definition sq_count :: "'w db_target \<Rightarrow> model list \<Rightarrow> select_query \<Rightarrow> ('w, raw_value) db_task" where
  "sq_count t ms q =
     task_bind (task_of (build_select ms 0 None q)) (\<lambda>(sql, params).
       task_bind (dispatch_query t (''SELECT COUNT(*) FROM ('' @ sql @ '')'') params) (\<lambda>r.
         task_of (case rows r of [] \<Rightarrow> None | x # _ \<Rightarrow> row_as_at (TInt 64 True) x 0)))"

definition sq_select :: "'w db_target \<Rightarrow> model list \<Rightarrow> select_query \<Rightarrow> ('w, model_obj list) db_task" where
  "sq_select t ms q = task_bind (run_select t ms None q) (\<lambda>r. task_of (hydrateModel (hd ms) r))"

definition sq_first :: "'w db_target \<Rightarrow> model list \<Rightarrow> select_query \<Rightarrow> ('w, model_obj option) db_task" where
  "sq_first t ms q =
     task_bind (run_select t ms (Some 1) q) (\<lambda>r.
       case rows r of [] \<Rightarrow> task_return None
       | x # _ \<Rightarrow> task_of (andthen (hydrateModelRow (hd ms) x) (\<lambda>obj. ok (Some obj))))"

definition sq_exists :: "'w db_target \<Rightarrow> model list \<Rightarrow> select_query \<Rightarrow> ('w, bool) db_task" where
  "sq_exists t ms q = task_bind (run_select t ms (Some 1) q) (\<lambda>r. task_return (length (rows r) > 0))"

section \<open>Lemmas: placeholders and parameters\<close>

lemma marks_to_dec [simp]: "marks (to_dec n) = 0"
proof -
  have d: "d < 10 \<Longrightarrow> digit_char d \<noteq> CHR ''?''" for d :: nat
  proof
    assume d: "d < 10" "digit_char d = CHR ''?''"
    then have "digit_val 10 CHR ''?'' = Some d" using digit_val_char [of d 10] by simp
    moreover have "digit_val 10 CHR ''?'' = None" by code_simp
    ultimately show False by simp
  qed
  have "CHR ''?'' \<notin> set (to_base b n)" if "b = 10" for b
    using that
  proof (induction b n rule: to_base.induct)
    case (1 b n)
    then show ?case using d [of n, THEN not_sym] d [of "n mod 10", THEN not_sym] by (subst to_base.simps) auto
  qed
  from this [of 10] have "CHR ''?'' \<notin> set (to_base 10 n)" by simp
  then show ?thesis by (simp add: marks_0)
qed

lemma marks_comma_list: "marks (comma_list xs) = sum_list (map marks xs)"
  by (induction xs rule: comma_list.induct) simp_all

lemma marks_kinds [simp]: "marks (join_string j) = 0" "marks (set_string t) = 0"
  by (cases j; simp) (cases t; simp)

text \<open>
  Text that comes from the caller or from another query has an excess: the placeholders that none of the values given with it is for. A
  predicate has that of its texts, and the names in it have no question mark (\<open>plain_names\<close>).
\<close>

definition text_excess :: "string \<Rightarrow> db_value list \<Rightarrow> int" where
  "text_excess sql vs = int (marks sql) - int (length vs)"

fun pred_excess :: "predicate \<Rightarrow> int" where
  "pred_excess (BasePredicate t a b opr vs cs lf rf) =
     (case t of
        STRING \<Rightarrow> text_excess a vs
      | EXISTS \<Rightarrow> text_excess a vs
      | NOT_EXISTS \<Rightarrow> text_excess a vs
      | SUBQUERY \<Rightarrow> text_excess b vs
      | RAW \<Rightarrow> text_excess (a @ b) vs
      | PredAnd \<Rightarrow> (case cs of p # q # _ \<Rightarrow> pred_excess p + pred_excess q | _ \<Rightarrow> 0)
      | PredOr \<Rightarrow> (case cs of p # q # _ \<Rightarrow> pred_excess p + pred_excess q | _ \<Rightarrow> 0)
      | _ \<Rightarrow> 0)"

fun plain_names :: "predicate \<Rightarrow> bool" where
  "plain_names (BasePredicate t a b opr vs cs lf rf) =
     (case t of
        LEAF \<Rightarrow> marks a = 0 \<and> marks lf = 0 \<and> marks rf = 0
      | FIELD_COMPARISON \<Rightarrow> marks a = 0 \<and> marks b = 0
      | SUBQUERY \<Rightarrow> marks a = 0 \<and> marks lf = 0
      | PredAnd \<Rightarrow> (case cs of p # q # _ \<Rightarrow> plain_names p \<and> plain_names q | _ \<Rightarrow> True)
      | PredOr \<Rightarrow> (case cs of p # q # _ \<Rightarrow> plain_names p \<and> plain_names q | _ \<Rightarrow> True)
      | _ \<Rightarrow> True)"

lemma marks_group: "marks (concat (replicate n '', ? '')) = n"
  by (induction n) simp_all

lemma resolve_leaf_marks:
  "resolve_leaf a opr vs lf rf out = ok (s, out') \<Longrightarrow> marks a = 0 \<Longrightarrow> marks lf = 0 \<Longrightarrow> marks rf = 0 \<Longrightarrow>
     length out + marks s = length out'"
  by (cases vs) (auto simp: resolve_leaf_def Let_def marks_group isGroupOperator_def split: if_splits)

lemma resolve_excess:
  "resolvePredicates p out = ok (s, out') \<Longrightarrow> plain_names p \<Longrightarrow> int (length out) + int (marks s) = int (length out') + pred_excess p"
proof (induction p arbitrary: out s out')
  case (BasePredicate t a b opr vs cs lf rf)
  have connective: ?case if t: "t = PredAnd \<or> t = PredOr"
  proof -
    obtain p q r where cs: "cs = p # q # r" using BasePredicate.prems(1) t by (auto split: list.splits)
    obtain s1 out1 s2 where 1: "resolvePredicates p out = ok (s1, out1)" "resolvePredicates q out1 = ok (s2, out')"
      and s: "s = ''('' @ s1 @ (if t = PredAnd then '' AND '' else '' OR '') @ s2 @ '')''"
      using BasePredicate.prems(1) t cs by (auto simp: andthen_eq_ok)
    have "plain_names p" "plain_names q" using BasePredicate.prems(2) t cs by auto
    then have "int (length out) + int (marks s1) = int (length out1) + pred_excess p" "int (length out1) + int (marks s2) = int (length out') + pred_excess q"
      using BasePredicate.IH 1 cs by simp_all
    moreover have "pred_excess (BasePredicate t a b opr vs cs lf rf) = pred_excess p + pred_excess q" using t cs by auto
    moreover have "marks s = marks s1 + marks s2" by (simp add: s)
    ultimately show ?thesis by simp
  qed
  show ?case
  proof (cases t)
    case LEAF
    then show ?thesis using BasePredicate.prems resolve_leaf_marks [of a "the opr" vs lf rf out s out'] by (cases opr) auto
  qed (use BasePredicate.prems connective in \<open>(auto simp: text_excess_def split: option.splits; fail)+\<close>)
qed

text \<open>A bindable predicate has none.\<close>

lemma bindable_no_excess: "bindable p \<Longrightarrow> plain_names p \<and> pred_excess p = 0"
proof (induction p)
  case (BasePredicate t a b opr vs cs lf rf)
  then show ?case
    by (cases t; cases opr) (auto simp: text_excess_def split: list.splits)
qed

text \<open>Clauses whose names have no question marks, and what is in excess in them.\<close>

definition clean_join :: "join_clause \<Rightarrow> bool" where
  "clean_join j \<longleftrightarrow> marks (join_table j) = 0 \<and> marks (join_alias j) = 0 \<and> marks (join_kind j) = 0 \<and> plain_names (join_condition j)"

definition clean_parts :: "query_parts \<Rightarrow> bool" where
  "clean_parts p \<longleftrightarrow> marks (q_tableName p) = 0 \<and> (case q_tableAlias p of Some a \<Rightarrow> marks a = 0 | None \<Rightarrow> True)
     \<and> (\<forall>c \<in> set (q_columns p). marks c = 0) \<and> (\<forall>(c, s) \<in> set (q_orderBy p). marks c = 0) \<and> (\<forall>c \<in> set (q_groupBy p). marks c = 0)
     \<and> (\<forall>c \<in> set (q_ctes p). marks (cte_name c) = 0) \<and> (\<forall>j \<in> set (q_joins p). clean_join j)
     \<and> (case wherePredicate p of Some w \<Rightarrow> plain_names w | None \<Rightarrow> True) \<and> (case havingPredicate p of Some w \<Rightarrow> plain_names w | None \<Rightarrow> True)"

fun clean_query :: "select_query \<Rightarrow> bool" where
  "clean_query (SelectQuery p cs) = (clean_parts p \<and> (\<forall>c \<in> set cs. clean_query c))"

definition option_excess :: "predicate option \<Rightarrow> int" where
  "option_excess w = (case w of None \<Rightarrow> 0 | Some p \<Rightarrow> pred_excess p)"

definition clauses_excess :: "query_parts \<Rightarrow> int" where
  "clauses_excess p = sum_list (map (pred_excess \<circ> join_condition) (q_joins p)) + option_excess (wherePredicate p)
     + (if q_groupBy p = [] then 0 else option_excess (havingPredicate p))"

definition ctes_excess :: "cte list \<Rightarrow> int" where
  "ctes_excess cs = sum_list (map (\<lambda>c. text_excess (cte_sql c) (cte_params c)) cs)"

text \<open>
  The excess of a query: that of its parts, and in a compound query, whose clauses are not rendered, the values of its own CTEs, which are
  lost, and the excess of its operands.
\<close>

fun excess :: "select_query \<Rightarrow> int" where
  "excess (SelectQuery p cs) = ctes_excess (q_ctes p) +
     (if setQueryType p = None then clauses_excess p
      else int (length (concat (map cte_params (q_ctes p)))) + (case cs of q1 # q2 # _ \<Rightarrow> excess q1 + excess q2 | _ \<Rightarrow> 0))"

text \<open>Text and parameters are in step up to an excess.\<close>

definition in_step :: "string \<times> db_value list \<Rightarrow> int \<Rightarrow> bool" where
  "in_step acc n \<longleftrightarrow> int (marks (fst acc)) = int (length (snd acc)) + n"

lemma join_step_in_step:
  "join_step j acc = ok acc' \<Longrightarrow> clean_join j \<Longrightarrow> in_step acc n \<Longrightarrow> in_step acc' (n + pred_excess (join_condition j))"
  by (cases acc) (auto simp: join_step_def andthen_eq_ok clean_join_def in_step_def dest: resolve_excess)

lemma joins_in_step:
  "each join_step js acc = ok acc' \<Longrightarrow> \<forall>j \<in> set js. clean_join j \<Longrightarrow> in_step acc n \<Longrightarrow>
     in_step acc' (n + sum_list (map (pred_excess \<circ> join_condition) js))"
proof (induction js arbitrary: acc n)
  case (Cons j js)
  then obtain acc1 where a: "join_step j acc = ok acc1" "each join_step js acc1 = ok acc'" by (auto simp: andthen_eq_ok)
  from join_step_in_step [OF a(1) _ Cons.prems(3)] have "in_step acc1 (n + pred_excess (join_condition j))" using Cons.prems(2) by simp
  from Cons.IH [OF a(2) _ this] show ?case using Cons.prems(2) by (simp add: add.assoc)
qed simp

lemma optional_clause_in_step:
  "optional_clause k w acc = ok acc' \<Longrightarrow> marks k = 0 \<Longrightarrow> (case w of Some p \<Rightarrow> plain_names p | None \<Rightarrow> True) \<Longrightarrow> in_step acc n \<Longrightarrow>
     in_step acc' (n + option_excess w)"
  by (cases w; cases acc) (auto simp: optional_clause_def option_excess_def andthen_eq_ok in_step_def dest: resolve_excess)

lemma group_clause_in_step:
  assumes "group_clause p acc = ok acc'" "clean_parts p" "in_step acc n"
  shows "in_step acc' (n + (if q_groupBy p = [] then 0 else option_excess (havingPredicate p)))"
proof (cases "q_groupBy p = []")
  case False
  have z: "sum_list (map marks (q_groupBy p)) = 0" using assms(2) by (auto simp: clean_parts_def)
  then have "in_step (fst acc @ '' GROUP BY '' @ comma_list (q_groupBy p), snd acc) n"
    using assms(3) by (simp add: in_step_def marks_comma_list z del: sum_list_eq_0_iff)
  then show ?thesis using assms False
      optional_clause_in_step [of "'' HAVING ''" "havingPredicate p" "(fst acc @ '' GROUP BY '' @ comma_list (q_groupBy p), snd acc)" acc' n]
    by (cases acc) (auto simp: group_clause_def clean_parts_def)
qed (use assms in \<open>simp add: group_clause_def\<close>)

lemma column_clause_clean:
  "column_clause ms p a = ok cols \<Longrightarrow> clean_parts p \<Longrightarrow> clean_model (hd ms) \<Longrightarrow> marks a = 0 \<Longrightarrow> marks cols = 0"
  by (auto simp: column_clause_def marks_comma_list clean_parts_def clean_model_def split: if_splits)

lemma plain_select_in_step:
  assumes "plain_select ms p params = ok acc" "clean_parts p" "clean_model (hd ms)"
  shows "in_step acc (clauses_excess p - int (length params))"
proof -
  obtain a where a: "model_alias ms (hd ms) = ok a" using assms(1) by (auto simp: plain_select_def andthen_eq_ok)
  then have ma: "marks a = 0" by (auto simp: model_alias_def getAlias_clean split: option.splits)
  define main_alias where "main_alias = (case q_tableAlias p of Some x \<Rightarrow> x | None \<Rightarrow> a)"
  have mm: "marks main_alias = 0" using assms(2) ma by (auto simp: main_alias_def clean_parts_def split: option.splits)
  obtain cols acc1 acc2 where c: "column_clause ms p main_alias = ok cols"
    and j: "each join_step (q_joins p) ('' SELECT '' @ (if q_distinct p then '' DISTINCT '' else []) @ cols @ '' FROM '' @ q_tableName p
        @ '' AS '' @ main_alias, params) = ok acc1"
    and w: "optional_clause '' WHERE '' (wherePredicate p) acc1 = ok acc2" and g: "group_clause p acc2 = ok acc"
    using assms(1) a by (auto simp: plain_select_def Let_def andthen_eq_ok main_alias_def)
  have clean: "\<forall>j \<in> set (q_joins p). clean_join j" "case wherePredicate p of Some w \<Rightarrow> plain_names w | None \<Rightarrow> True"
    using assms(2) by (simp_all add: clean_parts_def)
  have "in_step ('' SELECT '' @ (if q_distinct p then '' DISTINCT '' else []) @ cols @ '' FROM '' @ q_tableName p
        @ '' AS '' @ main_alias, params) (- int (length params))"
    using assms(2) column_clause_clean [OF c assms(2,3) mm] mm by (simp add: in_step_def clean_parts_def)
  from joins_in_step [OF j clean(1) this]
  have "in_step acc1 (- int (length params) + sum_list (map (pred_excess \<circ> join_condition) (q_joins p)))" .
  from group_clause_in_step [OF g assms(2) optional_clause_in_step [OF w _ clean(2) this]]
  show ?thesis by (simp add: clauses_excess_def algebra_simps)
qed

lemma cte_clause_marks:
  "\<forall>c \<in> set cs. marks (cte_name c) = 0 \<Longrightarrow> int (marks (cte_clause f r cs)) = int (length (concat (map cte_params cs))) + ctes_excess cs"
  by (induction cs arbitrary: f) (auto simp: ctes_excess_def text_excess_def)

lemma tail_clause_marks: "clean_parts p \<Longrightarrow> marks (tail_clause lim p) = 0"
proof -
  assume "clean_parts p"
  then have "sum_list (map marks (map order_item (q_orderBy p))) = 0"
    by (fastforce simp: clean_parts_def order_item_def)
  then show ?thesis by (auto simp: tail_clause_def marks_comma_list comp_def split: option.splits)
qed

text \<open>The number of placeholders of a query is the number of its parameters and its excess.\<close>

lemma build_select_marks:
  assumes "clean_model (hd ms)"
  shows "build_select ms depth lim q = ok (sql, params) \<Longrightarrow> clean_query q \<Longrightarrow> int (marks sql) = int (length params) + excess q"
proof (induction q arbitrary: depth lim sql params)
  case (SelectQuery p cs)
  have p: "clean_parts p" using SelectQuery.prems by simp
  let ?n = "int (length (concat (map cte_params (q_ctes p))))"
  have c: "int (marks (cte_clause True (hasRecursive p) (q_ctes p))) = ?n + ctes_excess (q_ctes p)"
    using p by (intro cte_clause_marks) (simp add: clean_parts_def)
  show ?case
  proof (cases "setQueryType p")
    case None
    then obtain acc where a: "plain_select ms p (concat (map cte_params (q_ctes p))) = ok acc"
      "sql = cte_clause True (hasRecursive p) (q_ctes p) @ fst acc @ tail_clause lim p" "params = snd acc"
      using SelectQuery.prems(1) by (auto simp: Let_def andthen_eq_ok)
    have "int (marks (fst acc)) = int (length (snd acc)) + (clauses_excess p - ?n)"
      using plain_select_in_step [OF a(1) p assms] by (simp only: in_step_def)
    moreover have "int (marks sql) = int (marks (cte_clause True (hasRecursive p) (q_ctes p))) + int (marks (fst acc))"
      using tail_clause_marks [OF p] by (simp add: a(2))
    moreover have "excess (SelectQuery p cs) = ctes_excess (q_ctes p) + clauses_excess p" using None by simp
    moreover have "int (length params) = int (length (snd acc))" by (simp only: a(3))
    ultimately show ?thesis using c by linarith
  next
    case (Some t)
    obtain q1 q2 r sql1 params1 sql2 params2 where cs: "cs = q1 # q2 # r"
      and b: "build_select ms (Suc depth) None q1 = ok (sql1, params1)" "build_select ms (Suc depth) None q2 = ok (sql2, params2)"
      and e: "params = params1 @ params2" "sql = cte_clause True (hasRecursive p) (q_ctes p)
        @ (operand depth ''_0'' q1 sql1 @ set_string t @ operand depth ''_1'' q2 sql2) @ tail_clause lim p"
      using SelectQuery.prems(1) Some by (auto simp: Let_def andthen_eq_ok split: if_splits list.splits)
    have m: "int (marks sql1) = int (length params1) + excess q1" "int (marks sql2) = int (length params2) + excess q2"
      using SelectQuery.IH [OF _ b(1)] SelectQuery.IH [OF _ b(2)] SelectQuery.prems(2) cs by auto
    have "marks sql = marks (cte_clause True (hasRecursive p) (q_ctes p)) + marks sql1 + marks sql2"
      using tail_clause_marks [OF p] by (simp add: e(2) operand_def)
    moreover have "excess (SelectQuery p cs) = ctes_excess (q_ctes p) + (?n + (excess q1 + excess q2))" using Some cs by simp
    ultimately show ?thesis using m c by (simp add: e(1))
  qed
qed

text \<open>A common table expression, or a subquery in a predicate, that is made from a query has the excess of that query.\<close>

lemma withCte_excess:
  assumes "withCte ms name query r q = ok q'" "clean_model (hd ms)" "clean_query query"
  shows "\<exists>sql params. getSqlAndParams ms 0 query = ok (sql, params) \<and> excess q' = excess q + excess query
    + (if setQueryType (clauses q) = None then 0 else int (length params))"
proof -
  obtain sql params where b: "getSqlAndParams ms 0 query = ok (sql, params)"
    and q': "q' = map_parts (\<lambda>x. x\<lparr>hasRecursive := hasRecursive x \<or> r,
      q_ctes := q_ctes x @ [\<lparr>cte_name = name, cte_sql = sql, cte_params = params, cte_recursive = r\<rparr>]\<rparr>) q"
    using assms(1) by (auto simp: withCte_def andthen_eq_ok split: if_splits)
  have "text_excess sql params = excess query"
    using build_select_marks [OF assms(2) b [unfolded getSqlAndParams_def] assms(3)] by (simp add: text_excess_def)
  then show ?thesis using b
    by (cases q) (auto simp: q' map_parts_def ctes_excess_def clauses_excess_def split: list.splits)
qed

lemma subquery_excess:
  assumes "clean_model (hd ms)" "clean_query query"
  shows "pred_exists_subquery (as_subquery ms query) ex = ok p \<Longrightarrow> pred_excess p = excess query"
    and "pred_subquery col fp opr (as_subquery ms query) a = ok p \<Longrightarrow> pred_excess p = excess query"
  using build_select_marks [OF assms(1) _ assms(2)]
  by (fastforce simp: pred_exists_subquery_def pred_subquery_def as_subquery_def getSqlAndParams_def andthen_eq_ok text_excess_def)+

text \<open>Nothing is in excess where every text has a placeholder for each of its values and no compound query has a CTE with values.\<close>

fun balanced :: "select_query \<Rightarrow> bool" where
  "balanced (SelectQuery p cs) \<longleftrightarrow> (\<forall>c \<in> set (q_ctes p). marks (cte_sql c) = length (cte_params c))
     \<and> (if setQueryType p = None
        then (\<forall>j \<in> set (q_joins p). bindable (join_condition j)) \<and> (case wherePredicate p of Some w \<Rightarrow> bindable w | None \<Rightarrow> True)
          \<and> (case havingPredicate p of Some w \<Rightarrow> bindable w | None \<Rightarrow> True)
        else (\<forall>c \<in> set (q_ctes p). cte_params c = []) \<and> (\<forall>c \<in> set cs. balanced c))"

lemma balanced_no_excess: "balanced q \<Longrightarrow> excess q = 0"
proof (induction q)
  case (SelectQuery p cs)
  have c: "ctes_excess (q_ctes p) = 0" using SelectQuery.prems by (induction "q_ctes p") (auto simp: ctes_excess_def text_excess_def sum_list_nonneg_eq_0_iff cong: map_cong)
  show ?case
  proof (cases "setQueryType p")
    case None
    have "sum_list (map (pred_excess \<circ> join_condition) js) = 0" if "\<forall>j \<in> set js. bindable (join_condition j)" for js
      using that bindable_no_excess by (induction js) auto
    then show ?thesis using SelectQuery.prems None c bindable_no_excess
      by (auto simp: clauses_excess_def option_excess_def split: option.splits)
  next
    case (Some t)
    then have "concat (map cte_params (q_ctes p)) = []" using SelectQuery.prems by auto
    then show ?thesis using SelectQuery Some c by (auto split: list.splits)
  qed
qed

end
