(* ===== verification/WriteQueries.thy ===== *)
theory WriteQueries
  imports SelectQueries
begin

text \<open>
  Statements that change the database: \<open>InsertQuery.hpp\<close>, \<open>UpdateQuery.hpp\<close>, \<open>UpsertQuery.hpp\<close> and
  \<open>DeleteQuery.hpp\<close> under \<open>rukh/include/rukh/orm/\<close>.

  A statement is rebuilt on every execution, so its text and parameters are results here and not
  members. The fold over the columns keeps the flag \<open>first\<close>, the text and the parameters.
\<close>

section \<open>InsertQuery\<close>

definition generate_skipped :: "auto_generate \<Rightarrow> bool" where
  "generate_skipped policy \<longleftrightarrow> policy = DB_INCREMENT \<or> policy = DEFAULT \<or> policy = GenDbNow"

definition generated_value :: "model_obj \<Rightarrow> column \<Rightarrow> db_value outcome" where
  "generated_value obj c =
     (if autoGenerateMode c = GenOff then ok (toDbValue (obj_field obj (fieldPtr c)))
      else if autoGenerateMode c = GenCustom
      then (case customGenerator c of None \<Rightarrow> None | Some g \<Rightarrow> ok (g obj))
      else raise (OrmException ''Unknown AutoGeneration type''))"

definition insert_step :: "model_obj \<Rightarrow> column \<Rightarrow> bool \<times> string \<times> db_value list \<Rightarrow> (bool \<times> string \<times> db_value list) outcome" where
  "insert_step obj c acc =
     (case acc of (first, oss, params) \<Rightarrow>
        if generate_skipped (autoGenerateMode c) then ok acc
        else andthen (generated_value obj c) (\<lambda>v.
          ok (False, oss @ (if first then [] else '', '') @ ''?'', params @ [v])))"

definition insert_row_step :: "model \<Rightarrow> model_obj \<Rightarrow> bool \<times> string \<times> db_value list \<Rightarrow> (bool \<times> string \<times> db_value list) outcome" where
  "insert_row_step m obj acc =
     (case acc of (firstRow, oss, params) \<Rightarrow>
        andthen (each (insert_step obj) (columns m) (True, oss @ (if firstRow then [] else '', '') @ ''('', params))
          (\<lambda>(_, oss1, params1). ok (False, oss1 @ '')'', params1)))"

definition valuesListStringAndParams :: "model \<Rightarrow> model_obj list \<Rightarrow> (string \<times> db_value list) outcome" where
  "valuesListStringAndParams m objs =
     andthen (each (insert_row_step m) objs (True, [], [])) (\<lambda>(_, oss, params). ok (oss, params))"

definition insert_columns :: "model \<Rightarrow> column list" where
  "insert_columns m = filter (\<lambda>c. \<not> generate_skipped (autoGenerateMode c)) (columns m)"

definition modelColumnListString :: "model \<Rightarrow> string" where
  "modelColumnListString m = comma_list (map dbName (insert_columns m))"

definition insert_sqlInit :: "model \<Rightarrow> string" where
  "insert_sqlInit m = ''INSERT INTO '' @ tableName m @ '' ('' @ modelColumnListString m @ '') ''"

definition returning_clause :: "bool \<Rightarrow> string" where
  "returning_clause returning = (if returning then '' RETURNING *'' else [])"

definition buildInsert :: "model \<Rightarrow> model_obj list \<Rightarrow> bool \<Rightarrow> (string \<times> db_value list) outcome" where
  "buildInsert m objs returning =
     andthen (valuesListStringAndParams m objs) (\<lambda>(vals, params).
       ok (insert_sqlInit m @ '' VALUES '' @ vals @ returning_clause returning @ '';'', params))"

text \<open>Sending a statement and hydrating the rows it returns, as the four classes do it.\<close>

definition run_write :: "'w db_target \<Rightarrow> model \<Rightarrow> (string \<times> db_value list) outcome \<Rightarrow> ('w, nat \<times> model_obj list) db_task" where
  "run_write t m build =
     task_bind (task_of build) (\<lambda>(sql, params).
       task_bind (dispatch_query t sql params) (\<lambda>r.
         task_bind (task_of (hydrateModel m r)) (\<lambda>objs. task_return (affectedRows r, objs))))"

definition insert_execute :: "'w db_target \<Rightarrow> model \<Rightarrow> model_obj list \<Rightarrow> bool \<Rightarrow> ('w, nat \<times> model_obj list) db_task" where
  "insert_execute t m objs returning =
     (if objs = [] then task_return (0, []) else run_write t m (buildInsert m objs returning))"

section \<open>UpdateQuery\<close>

record update_query =
  update_where :: "predicate option"
  update_columns :: "string list"

definition new_update :: update_query where
  "new_update = \<lparr>update_where = None, update_columns = []\<rparr>"

definition update_field :: "model \<Rightarrow> nat \<Rightarrow> update_query \<Rightarrow> update_query outcome" where
  "update_field m ptr q = andthen (columnNameOf m ptr) (\<lambda>n. ok (q\<lparr>update_columns := update_columns q @ [n]\<rparr>))"

definition update_add_where :: "predicate \<Rightarrow> update_query \<Rightarrow> update_query" where
  "update_add_where p q = q\<lparr>update_where := where_and p (update_where q)\<rparr>"

definition update_reset :: "update_query \<Rightarrow> update_query" where
  "update_reset q = q\<lparr>update_where := None, update_columns := []\<rparr>"

definition update_skipped :: "auto_update \<Rightarrow> bool" where
  "update_skipped policy \<longleftrightarrow> policy = UpdDbNow \<or> policy = LOCKED"

definition updated_value :: "model_obj \<Rightarrow> column \<Rightarrow> db_value outcome" where
  "updated_value obj c =
     (if autoUpdateMode c = UpdOff then ok (toDbValue (obj_field obj (fieldPtr c)))
      else if autoUpdateMode c = UpdCustom
      then (case customUpdator c of None \<Rightarrow> None | Some g \<Rightarrow> ok (g obj))
      else raise (OrmException ''Unknown Auto Update type''))"

definition not_selected :: "string list \<Rightarrow> column \<Rightarrow> bool" where
  "not_selected names c \<longleftrightarrow> names \<noteq> [] \<and> dbName c \<notin> set names"

definition update_step :: "string list \<Rightarrow> model_obj \<Rightarrow> column \<Rightarrow> bool \<times> string \<times> db_value list \<Rightarrow>
    (bool \<times> string \<times> db_value list) outcome" where
  "update_step names obj c acc =
     (case acc of (first, oss, params) \<Rightarrow>
        if isPrimaryKey c \<or> not_selected names c \<or> update_skipped (autoUpdateMode c) then ok acc
        else andthen (updated_value obj c) (\<lambda>v.
          ok (False, oss @ (if first then [] else '', '') @ dbName c @ '' = ?'', params @ [v])))"

definition modelUpdateValueList :: "model \<Rightarrow> string list \<Rightarrow> model_obj \<Rightarrow> (string \<times> db_value list) outcome" where
  "modelUpdateValueList m names obj =
     andthen (each (update_step names obj) (columns m) (True, [], [])) (\<lambda>(_, oss, params). ok (oss @ '' '', params))"

definition first_alias :: string where
  "first_alias = aliasList ! 0"

definition update_sqlInit :: "model \<Rightarrow> string" where
  "update_sqlInit m = ''UPDATE '' @ tableName m @ '' AS '' @ first_alias @ '' SET ''"

definition buildUpdate :: "model \<Rightarrow> update_query \<Rightarrow> model_obj \<Rightarrow> bool \<Rightarrow> (string \<times> db_value list) outcome" where
  "buildUpdate m q obj returning =
     andthen (modelUpdateValueList m (update_columns q) obj) (\<lambda>(vals, params).
       case update_where q of
         None \<Rightarrow> raise (OrmException (''No where clause when Updating: '' @ tableName m
           @ ''. use where({true}) if you want to update all''))
       | Some p \<Rightarrow>
           andthen (resolvePredicates p params) (\<lambda>(cond, params1).
             ok (update_sqlInit m @ vals @ '' WHERE '' @ cond @ returning_clause returning @ '';'', params1)))"

definition update_execute :: "'w db_target \<Rightarrow> model \<Rightarrow> update_query \<Rightarrow> model_obj \<Rightarrow> bool \<Rightarrow> ('w, nat \<times> model_obj list) db_task" where
  "update_execute t m q obj returning = run_write t m (buildUpdate m q obj returning)"

section \<open>DeleteQuery\<close>

record delete_query =
  delete_where :: "predicate option"

definition new_delete :: delete_query where
  "new_delete = \<lparr>delete_where = None\<rparr>"

definition delete_add_where :: "predicate \<Rightarrow> delete_query \<Rightarrow> delete_query" where
  "delete_add_where p q = q\<lparr>delete_where := where_and p (delete_where q)\<rparr>"

definition delete_or_where :: "predicate \<Rightarrow> delete_query \<Rightarrow> delete_query" where
  "delete_or_where p q = q\<lparr>delete_where := where_or p (delete_where q)\<rparr>"

definition delete_reset :: "delete_query \<Rightarrow> delete_query" where
  "delete_reset q = q\<lparr>delete_where := None\<rparr>"

definition delete_sqlInit :: "model \<Rightarrow> string" where
  "delete_sqlInit m = ''DELETE FROM '' @ tableName m @ '' AS '' @ first_alias"

definition buildDelete :: "model \<Rightarrow> delete_query \<Rightarrow> bool \<Rightarrow> (string \<times> db_value list) outcome" where
  "buildDelete m q returning =
     (case delete_where q of
        None \<Rightarrow> raise (OrmException (''No where clause when deleting: '' @ tableName m
          @ ''. use where({true}) if you want to delete all''))
      | Some p \<Rightarrow>
          andthen (resolvePredicates p []) (\<lambda>(cond, params).
            ok (delete_sqlInit m @ '' WHERE '' @ cond @ returning_clause returning @ '';'', params)))"

definition delete_execute :: "'w db_target \<Rightarrow> model \<Rightarrow> delete_query \<Rightarrow> bool \<Rightarrow> ('w, nat \<times> model_obj list) db_task" where
  "delete_execute t m q returning = run_write t m (buildDelete m q returning)"

section \<open>UpsertQuery\<close>

record upsert_query =
  doNothing :: bool
  columnsToUpdate :: "string list"
  conflictColumns :: "string list"

definition new_upsert :: upsert_query where
  "new_upsert = \<lparr>doNothing = False, columnsToUpdate = [], conflictColumns = []\<rparr>"

definition conflictFields :: "model \<Rightarrow> nat \<Rightarrow> upsert_query \<Rightarrow> upsert_query outcome" where
  "conflictFields m ptr q = andthen (columnNameOf m ptr) (\<lambda>n. ok (q\<lparr>conflictColumns := conflictColumns q @ [n]\<rparr>))"

definition onConflictDoNothing :: "upsert_query \<Rightarrow> upsert_query" where
  "onConflictDoNothing q = q\<lparr>doNothing := True\<rparr>"

definition updateFields :: "model \<Rightarrow> nat \<Rightarrow> upsert_query \<Rightarrow> upsert_query outcome" where
  "updateFields m ptr q =
     andthen (columnNameOf m ptr) (\<lambda>n. ok (q\<lparr>doNothing := False, columnsToUpdate := columnsToUpdate q @ [n]\<rparr>))"

definition conflictColumnList :: "model \<Rightarrow> upsert_query \<Rightarrow> string" where
  "conflictColumnList m q =
     '' ( '' @ comma_list (map (\<lambda>c. dbName c @ '' '') (filter (\<lambda>c. \<not> not_selected (conflictColumns q) c) (columns m))) @ '' ) ''"

definition upsertUpdateValueList :: "model \<Rightarrow> upsert_query \<Rightarrow> string" where
  "upsertUpdateValueList m q =
     comma_list (map (\<lambda>c. dbName c @ '' = excluded.'' @ dbName c)
       (filter (\<lambda>c. \<not> (isPrimaryKey c \<or> not_selected (columnsToUpdate q) c \<or> update_skipped (autoUpdateMode c))) (columns m))) @ '' ''"

text \<open>The class has copies of its own of three functions of \<open>InsertQuery\<close>, with the same text.\<close>

definition upsert_valuesList :: "model \<Rightarrow> model_obj list \<Rightarrow> (string \<times> db_value list) outcome" where
  "upsert_valuesList = valuesListStringAndParams"

definition upsert_columnList :: "model \<Rightarrow> string" where
  "upsert_columnList = modelColumnListString"

definition upsert_sqlInit :: "model \<Rightarrow> string" where
  "upsert_sqlInit m = ''INSERT INTO '' @ tableName m @ '' ('' @ upsert_columnList m @ '') ''"

definition buildUpsert :: "model \<Rightarrow> upsert_query \<Rightarrow> model_obj list \<Rightarrow> bool \<Rightarrow> (string \<times> db_value list) outcome" where
  "buildUpsert m q objs returning =
     andthen (upsert_valuesList m objs) (\<lambda>(vals, params).
       ok (upsert_sqlInit m @ '' VALUES '' @ vals @ '' ON CONFLICT '' @ conflictColumnList m q
         @ (if doNothing q then '' DO NOTHING'' else '' DO UPDATE SET '' @ upsertUpdateValueList m q)
         @ returning_clause returning @ '';'', params))"

definition upsert_execute :: "'w db_target \<Rightarrow> model \<Rightarrow> upsert_query \<Rightarrow> model_obj list \<Rightarrow> bool \<Rightarrow> ('w, nat \<times> model_obj list) db_task" where
  "upsert_execute t m q objs returning =
     (if objs = [] then task_return (0, []) else run_write t m (buildUpsert m q objs returning))"

text \<open>An upsert is the insertion of the same rows with a clause for conflicts before its end.\<close>

lemma upsert_extends_insert:
  assumes "valuesListStringAndParams m objs = ok (vals, params)"
  shows "buildInsert m objs returning = ok (insert_sqlInit m @ '' VALUES '' @ vals @ returning_clause returning @ '';'', params)"
    and "\<exists>conflict. buildUpsert m q objs returning
      = ok (insert_sqlInit m @ '' VALUES '' @ vals @ '' ON CONFLICT '' @ conflict @ returning_clause returning @ '';'', params)"
  using assms
  by (simp_all add: buildInsert_def buildUpsert_def upsert_valuesList_def upsert_sqlInit_def upsert_columnList_def insert_sqlInit_def andthen_eq_ok)

section \<open>Lemmas: rows of values\<close>

text \<open>A custom column has a generator; one row of an insertion as values.\<close>

definition insertable :: "model \<Rightarrow> bool" where
  "insertable m \<longleftrightarrow> (\<forall>c \<in> set (columns m). autoGenerateMode c = GenCustom \<longrightarrow> customGenerator c \<noteq> None)"

definition insert_value :: "model_obj \<Rightarrow> column \<Rightarrow> db_value" where
  "insert_value obj c = (if autoGenerateMode c = GenOff then toDbValue (obj_field obj (fieldPtr c)) else the (customGenerator c) obj)"

definition insert_values :: "model \<Rightarrow> model_obj \<Rightarrow> db_value list" where
  "insert_values m obj = map (insert_value obj) (insert_columns m)"

definition row_marks :: "nat \<Rightarrow> string" where
  "row_marks n = ''('' @ comma_list (replicate n ''?'') @ '')''"

lemma comma_list_Cons: "comma_list (x # xs) = x @ (if xs = [] then [] else '', '' @ comma_list xs)"
  by (cases xs) simp_all

lemma generated_value_ok:
  "\<not> generate_skipped (autoGenerateMode c) \<Longrightarrow> (autoGenerateMode c = GenCustom \<longrightarrow> customGenerator c \<noteq> None) \<Longrightarrow>
     generated_value obj c = ok (insert_value obj c)"
  by (cases "autoGenerateMode c") (auto simp: generated_value_def generate_skipped_def insert_value_def)

lemma insert_steps:
  assumes "\<forall>c \<in> set cs. autoGenerateMode c = GenCustom \<longrightarrow> customGenerator c \<noteq> None"
    and "kept = filter (\<lambda>c. \<not> generate_skipped (autoGenerateMode c)) cs"
  shows "each (insert_step obj) cs (f, s, ps) = ok (f \<and> kept = [],
    s @ (if kept = [] then [] else (if f then [] else '', '') @ comma_list (replicate (length kept) ''?'')), ps @ map (insert_value obj) kept)"
  using assms
proof (induction cs arbitrary: f s ps kept)
  case (Cons c cs)
  let ?k = "filter (\<lambda>c. \<not> generate_skipped (autoGenerateMode c)) cs"
  have IH: "each (insert_step obj) cs (f, s, ps) = ok (f \<and> ?k = [],
      s @ (if ?k = [] then [] else (if f then [] else '', '') @ comma_list (replicate (length ?k) ''?'')), ps @ map (insert_value obj) ?k)" for f s ps
    using Cons.IH [OF _ refl] Cons.prems(1) by simp
  show ?case
  proof (cases "generate_skipped (autoGenerateMode c)")
    case True
    then have "insert_step obj c (f, s, ps) = ok (f, s, ps)" by (simp add: insert_step_def)
    then show ?thesis using True IH [of f s ps] Cons.prems(2) by simp
  next
    case False
    have v: "generated_value obj c = ok (insert_value obj c)" using False Cons.prems(1) by (intro generated_value_ok) auto
    then have "insert_step obj c (f, s, ps) = ok (False, s @ (if f then [] else '', '') @ ''?'', ps @ [insert_value obj c])"
      using False by (simp add: insert_step_def)
    then show ?thesis using False IH Cons.prems(2) by (simp add: comma_list_Cons)
  qed
qed simp

lemma insert_row_steps:
  assumes "insertable m"
  shows "each (insert_row_step m) objs (f, s, ps) = ok (f \<and> objs = [],
    s @ (if objs = [] then [] else (if f then [] else '', '') @ comma_list (replicate (length objs) (row_marks (length (insert_columns m))))),
    ps @ concat (map (insert_values m) objs))"
proof (induction objs arbitrary: f s ps)
  case (Cons obj objs)
  have "insert_row_step m obj (f, s, ps) = ok (False, s @ (if f then [] else '', '') @ row_marks (length (insert_columns m)), ps @ insert_values m obj)"
    using insert_steps [of "columns m" "insert_columns m" obj True "s @ (if f then [] else '', '') @ ''(''" ps] assms
    by (simp add: insert_row_step_def insertable_def insert_columns_def row_marks_def insert_values_def)
  then show ?case using Cons.IH by (simp add: comma_list_Cons)
qed simp

text \<open>The rows of a multi-row insertion: one group of placeholders per object, the values in the same order.\<close>

lemma values_exact:
  assumes "insertable m"
  shows "valuesListStringAndParams m objs =
    ok (comma_list (replicate (length objs) (row_marks (length (insert_columns m)))), concat (map (insert_values m) objs))"
  using insert_row_steps [OF assms, of objs True "[]" "[]"] by (simp add: valuesListStringAndParams_def)

lemma marks_replicate: "marks (comma_list (replicate n s)) = n * marks s"
  by (simp add: marks_comma_list sum_list_replicate)

lemma marks_row [simp]: "marks (row_marks n) = n"
  by (simp add: row_marks_def marks_replicate)

lemma insert_columns_clean: "clean_model m \<Longrightarrow> marks (insert_sqlInit m) = 0"
  by (auto simp: insert_sqlInit_def modelColumnListString_def marks_comma_list insert_columns_def clean_model_def comp_def)

lemma returning_marks [simp]: "marks (returning_clause r) = 0"
  by (simp add: returning_clause_def)

lemma buildInsert_exact:
  assumes "insertable m" "clean_model m"
  shows "\<exists>sql. buildInsert m objs returning = ok (sql, concat (map (insert_values m) objs))
    \<and> marks sql = length objs * length (insert_columns m)
    \<and> length (concat (map (insert_values m) objs)) = length objs * length (insert_columns m)"
proof -
  have "length (concat (map (insert_values m) objs)) = length objs * length (insert_columns m)"
    by (induction objs) (simp_all add: insert_values_def)
  then show ?thesis using values_exact [OF assms(1), of objs] insert_columns_clean [OF assms(2)]
    by (simp add: buildInsert_def marks_replicate)
qed

section \<open>Lemmas: updates and deletions\<close>

definition updatable :: "model \<Rightarrow> bool" where
  "updatable m \<longleftrightarrow> (\<forall>c \<in> set (columns m). autoUpdateMode c = UpdCustom \<longrightarrow> customUpdator c \<noteq> None)"

definition changed_columns :: "model \<Rightarrow> string list \<Rightarrow> column list" where
  "changed_columns m names =
     filter (\<lambda>c. \<not> (isPrimaryKey c \<or> not_selected names c \<or> update_skipped (autoUpdateMode c))) (columns m)"

definition update_value :: "model_obj \<Rightarrow> column \<Rightarrow> db_value" where
  "update_value obj c = (if autoUpdateMode c = UpdOff then toDbValue (obj_field obj (fieldPtr c)) else the (customUpdator c) obj)"

lemma update_steps:
  assumes "\<forall>c \<in> set cs. autoUpdateMode c = UpdCustom \<longrightarrow> customUpdator c \<noteq> None"
    and "kept = filter (\<lambda>c. \<not> (isPrimaryKey c \<or> not_selected names c \<or> update_skipped (autoUpdateMode c))) cs"
  shows "each (update_step names obj) cs (f, s, ps) = ok (f \<and> kept = [],
    s @ (if kept = [] then [] else (if f then [] else '', '') @ comma_list (map (\<lambda>c. dbName c @ '' = ?'') kept)), ps @ map (update_value obj) kept)"
  using assms
proof (induction cs arbitrary: f s ps kept)
  case (Cons c cs)
  let ?P = "\<lambda>c. \<not> (isPrimaryKey c \<or> not_selected names c \<or> update_skipped (autoUpdateMode c))"
  have IH: "each (update_step names obj) cs (f, s, ps) = ok (f \<and> filter ?P cs = [],
      s @ (if filter ?P cs = [] then [] else (if f then [] else '', '') @ comma_list (map (\<lambda>c. dbName c @ '' = ?'') (filter ?P cs))),
      ps @ map (update_value obj) (filter ?P cs))" for f s ps
    using Cons.IH [OF _ refl] Cons.prems(1) by simp
  show ?case
  proof (cases "?P c")
    case False
    then have "update_step names obj c (f, s, ps) = ok (f, s, ps)" by (auto simp: update_step_def)
    then show ?thesis using False IH [of f s ps] Cons.prems(2) by auto
  next
    case True
    have "updated_value obj c = ok (update_value obj c)" using True Cons.prems(1)
      by (cases "autoUpdateMode c") (auto simp: updated_value_def update_skipped_def update_value_def)
    then have "update_step names obj c (f, s, ps) = ok (False, s @ (if f then [] else '', '') @ dbName c @ '' = ?'', ps @ [update_value obj c])"
      using True by (auto simp: update_step_def)
    then show ?thesis using True IH Cons.prems(2) by (simp add: comma_list_Cons)
  qed
qed simp

lemma update_values_exact:
  assumes "updatable m"
  shows "modelUpdateValueList m names obj =
    ok (comma_list (map (\<lambda>c. dbName c @ '' = ?'') (changed_columns m names)) @ '' '', map (update_value obj) (changed_columns m names))"
  using update_steps [of "columns m" "changed_columns m names" names obj True "[]" "[]"] assms
  by (simp add: modelUpdateValueList_def updatable_def changed_columns_def) 

text \<open>An update or a deletion without a condition never reaches the database.\<close>

lemma update_needs_where:
  assumes "updatable m" "update_where q = None"
  shows "\<exists>msg. update_execute t m q obj returning w = Some (Inl (OrmException msg), w)"
  using assms update_values_exact [OF assms(1)]
  by (auto simp: update_execute_def run_write_def buildUpdate_def task_bind_def task_of_def raise_def)

lemma delete_needs_where:
  "delete_where q = None \<Longrightarrow> \<exists>msg. delete_execute t m q returning w = Some (Inl (OrmException msg), w)"
  by (auto simp: delete_execute_def run_write_def buildDelete_def task_bind_def task_of_def raise_def)

text \<open>With one, the new values come before those of the condition, each in its place.\<close>

lemma buildUpdate_exact:
  assumes "updatable m" "clean_model m" "update_where q = Some p" "bindable p"
  shows "\<exists>sql vs. buildUpdate m q obj returning = ok (sql, map (update_value obj) (changed_columns m (update_columns q)) @ vs)
    \<and> marks sql = length (changed_columns m (update_columns q)) + length vs
    \<and> (\<exists>s. resolvePredicates p [] = ok (s, vs) \<and> bind_params s vs = Some (filled p))"
proof -
  let ?cs = "changed_columns m (update_columns q)"
  obtain s vs where r: "\<And>out. resolvePredicates p out = ok (s, out @ vs)" "bind_params s vs = Some (filled p)"
    using resolve_binds [OF assms(4)] by blast
  have m: "marks s = length vs" using r(2) bind_params_Some [of s vs] by simp
  have e: "\<forall>c \<in> set cs. marks (dbName c) = 0 \<Longrightarrow> sum_list (map (\<lambda>c. marks (dbName c @ '' = ?'')) cs) = length cs" for cs
    by (induction cs) simp_all
  have "sum_list (map (\<lambda>c. marks (dbName c @ '' = ?'')) ?cs) = length ?cs"
    using assms(2) by (intro e) (simp add: changed_columns_def clean_model_def)
  moreover have "marks (update_sqlInit m) = 0" using assms(2) by (simp add: update_sqlInit_def clean_model_def first_alias_def aliasList_def)
  ultimately show ?thesis using update_values_exact [OF assms(1)] assms(3) r m
    by (auto simp: buildUpdate_def marks_comma_list comp_def)
qed

lemma buildDelete_exact:
  assumes "clean_model m" "delete_where q = Some p" "bindable p"
  shows "\<exists>s vs. buildDelete m q returning = ok (delete_sqlInit m @ '' WHERE '' @ s @ returning_clause returning @ '';'', vs)
    \<and> bind_params s vs = Some (filled p)"
proof -
  obtain s vs where "\<And>out. resolvePredicates p out = ok (s, out @ vs)" "bind_params s vs = Some (filled p)"
    using resolve_binds [OF assms(3)] by blast
  then show ?thesis using assms(2) by (simp add: buildDelete_def)
qed

end
