(* ===== verification/ActiveRecords.thy ===== *)
theory ActiveRecords
  imports WriteQueries
begin

text \<open>
  Objects that save and load themselves, \<open>rukh/include/rukh/orm/ActiveRecord.hpp\<close>, and the relations
  between models, \<open>Relations.hpp\<close> and \<open>DefaultThroughModel.hpp\<close>.

  The operations of an object return the object afterwards beside their result. The relations of a
  model class are the list that \<open>Model::relations()\<close> returns; lookups that fail at compile time are
  \<open>None\<close>. \<open>lt\<close> is the comparison \<open>operator<\<close> of the field types.
\<close>

section \<open>Relations\<close>

datatype on_delete = CASCADE | NO_ACTION | RESTRICT | SET_DEFAULT | SET_NULL
datatype relation_type = ONE_TO_ONE | MANY_TO_ONE
datatype symmetry_mode = SymNone | SINGLE_ROW | DOUBLE_ROW | DB_SINGLE_ROW | DB_DOUBLE_ROW
datatype through_side = SideA | SideB

record fk_relation =
  fk_target :: model
  fk_definer :: model
  fkFieldPtrs :: "nat list"
  onDeletePolicy :: on_delete
  relatedName :: string
  fk_index :: bool
  fk_constraintName :: string

record through_field =
  throughPtr :: nat
  modelPtr :: nat
  throughPtrModel :: through_side

record many_to_many =
  m2m_A :: model
  m2m_B :: model
  m2m_through :: model
  throughFields :: "through_field list"
  relationName :: string
  reciprocalName :: string
  symmetryMode :: symmetry_mode

datatype relation = FkRelation relation_type fk_relation | ManyToManyRelation many_to_many

definition fk_new :: "model \<Rightarrow> model \<Rightarrow> nat list \<Rightarrow> fk_relation" where
  "fk_new target definer ptrs = \<lparr>fk_target = target, fk_definer = definer, fkFieldPtrs = ptrs, onDeletePolicy = NO_ACTION,
     relatedName = [], fk_index = True, fk_constraintName = []\<rparr>"

definition manyToOne :: "model \<Rightarrow> model \<Rightarrow> nat list \<Rightarrow> relation" where
  "manyToOne target definer ptrs = FkRelation MANY_TO_ONE (fk_new target definer ptrs)"

definition oneToOne :: "model \<Rightarrow> model \<Rightarrow> nat list \<Rightarrow> relation" where
  "oneToOne target definer ptrs = FkRelation ONE_TO_ONE (fk_new target definer ptrs)"

definition fk_onDelete :: "on_delete \<Rightarrow> fk_relation \<Rightarrow> fk_relation" where
  "fk_onDelete od r = r\<lparr>onDeletePolicy := od\<rparr>"

definition fk_withRelatedName :: "string \<Rightarrow> fk_relation \<Rightarrow> fk_relation" where
  "fk_withRelatedName n r = r\<lparr>relatedName := n\<rparr>"

definition fk_noIndex :: "fk_relation \<Rightarrow> fk_relation" where
  "fk_noIndex r = r\<lparr>fk_index := False\<rparr>"

definition fk_withConstraintName :: "string \<Rightarrow> fk_relation \<Rightarrow> fk_relation" where
  "fk_withConstraintName n r = r\<lparr>fk_constraintName := n\<rparr>"

text \<open>Pairs of a foreign key field and the primary key field that it refers to.\<close>

definition getFieldPtrPairs :: "fk_relation \<Rightarrow> (nat \<times> nat) list" where
  "getFieldPtrPairs r = zip (fkFieldPtrs r) (pkFieldPtrs (fk_target r))"

definition m2m_new :: "model \<Rightarrow> model \<Rightarrow> model \<Rightarrow> through_field list \<Rightarrow> many_to_many" where
  "m2m_new a b through tfs = \<lparr>m2m_A = a, m2m_B = b, m2m_through = through, throughFields = tfs, relationName = [],
     reciprocalName = [], symmetryMode = SymNone\<rparr>"

text \<open>\<open>DefaultThroughModel\<close>: the columns \<open>id\<close>, \<open>pkA\<close> and \<open>pkB\<close>, whose types are those of the keys.\<close>

definition default_through :: "nat \<Rightarrow> string \<Rightarrow> raw_type \<Rightarrow> raw_type \<Rightarrow> (nat \<Rightarrow> field_value) \<Rightarrow> model" where
  "default_through mid table ta tb bl = \<lparr>model_id = mid, tableName = table,
     columns = [(new_column 0 ''id'' (TInt 64 True) False)\<lparr>isPrimaryKey := True, autoGenerateMode := DB_INCREMENT\<rparr>,
                new_column 1 ''pkA'' ta False, new_column 2 ''pkB'' tb False], blank = bl\<rparr>"

definition default_through_fields :: "model \<Rightarrow> model \<Rightarrow> through_field list outcome" where
  "default_through_fields a b =
     andthen (pkFieldPtr a) (\<lambda>pa. andthen (pkFieldPtr b) (\<lambda>pb.
       ok [\<lparr>throughPtr = 1, modelPtr = pa, throughPtrModel = SideA\<rparr>, \<lparr>throughPtr = 2, modelPtr = pb, throughPtrModel = SideB\<rparr>]))"

definition default_through_relations :: "model \<Rightarrow> model \<Rightarrow> model \<Rightarrow> relation list" where
  "default_through_relations a b through =
     [FkRelation MANY_TO_ONE (fk_onDelete CASCADE (fk_new a through [1])), FkRelation MANY_TO_ONE (fk_onDelete CASCADE (fk_new b through [2]))]"

definition isSelfReferential :: "many_to_many \<Rightarrow> bool" where
  "isSelfReferential r \<longleftrightarrow> same_model (m2m_A r) (m2m_B r)"

definition withRelationName :: "string \<Rightarrow> many_to_many \<Rightarrow> many_to_many" where
  "withRelationName n r = r\<lparr>relationName := n\<rparr>"

definition withReciprocalName :: "string \<Rightarrow> many_to_many \<Rightarrow> many_to_many" where
  "withReciprocalName n r = r\<lparr>reciprocalName := n\<rparr>"

definition withSymmetryMode :: "symmetry_mode \<Rightarrow> many_to_many \<Rightarrow> many_to_many" where
  "withSymmetryMode sm r = r\<lparr>symmetryMode := sm\<rparr>"

definition m2m_isValid :: "many_to_many \<Rightarrow> bool" where
  "m2m_isValid r \<longleftrightarrow> (if isSelfReferential r then (symmetryMode r \<noteq> SymNone) \<noteq> (reciprocalName r = []) else True)"

definition getThroughFieldPtrs :: "many_to_many \<Rightarrow> nat list" where
  "getThroughFieldPtrs r = map throughPtr (throughFields r)"

definition getThroughFields :: "through_side \<Rightarrow> many_to_many \<Rightarrow> through_field list" where
  "getThroughFields s r = filter (\<lambda>f. throughPtrModel f = s) (throughFields r)"

text \<open>The two loops of \<open>mirrorThroughObj\<close>: the fields of side A go to side B and those of side B to side A.\<close>

definition copy_fields :: "through_field list \<Rightarrow> through_field list \<Rightarrow> model_obj \<Rightarrow> model_obj \<Rightarrow> model_obj" where
  "copy_fields from to src obj =
     fold (\<lambda>(f, g) o'. set_field (throughPtr g) (obj_field src (throughPtr f)) o') (zip from to) obj"

definition mirrorThroughObj :: "many_to_many \<Rightarrow> model_obj \<Rightarrow> model_obj" where
  "mirrorThroughObj r t =
     (let a = getThroughFields SideA r; b = getThroughFields SideB r in copy_fields b a t (copy_fields a b t t))"

section \<open>Lookups of relations\<close>

definition fkRelations :: "relation list \<Rightarrow> fk_relation list" where
  "fkRelations rels = concat (map (\<lambda>r. case r of FkRelation _ f \<Rightarrow> [f] | ManyToManyRelation _ \<Rightarrow> []) rels)"

definition manyToManyRelations :: "relation list \<Rightarrow> many_to_many list" where
  "manyToManyRelations rels = concat (map (\<lambda>r. case r of FkRelation _ _ \<Rightarrow> [] | ManyToManyRelation m \<Rightarrow> [m]) rels)"

definition getFkRelationByTargetModel :: "model \<Rightarrow> relation list \<Rightarrow> fk_relation list" where
  "getFkRelationByTargetModel m rels = filter (\<lambda>f. same_model (fk_target f) m) (fkRelations rels)"

definition getFkRelationByName :: "string \<Rightarrow> relation list \<Rightarrow> fk_relation list" where
  "getFkRelationByName n rels = filter (\<lambda>f. relatedName f = n) (fkRelations rels)"

definition getRelationByForeignKeyFieldPtrs :: "nat list \<Rightarrow> relation list \<Rightarrow> fk_relation list" where
  "getRelationByForeignKeyFieldPtrs ptrs rels = filter (\<lambda>f. fkFieldPtrs f = ptrs) (fkRelations rels)"

definition getManyToManyRelationByName :: "string \<Rightarrow> relation list \<Rightarrow> (many_to_many \<times> bool) list" where
  "getManyToManyRelationByName n rels =
     concat (map (\<lambda>r. if relationName r = n then [(r, False)] else if reciprocalName r = n then [(r, True)] else [])
       (manyToManyRelations rels))"

record relation_lookup =
  rl_relation :: many_to_many
  rl_isReciprocal :: bool
  rl_isSelfRef :: bool
  rl_callerIsA :: bool
  rl_otherIsB :: bool

definition getManyToManyRelation :: "(model \<Rightarrow> relation list) \<Rightarrow> string \<Rightarrow> model \<Rightarrow> model \<Rightarrow> relation_lookup option" where
  "getManyToManyRelation rels n caller related =
     (let own = getManyToManyRelationByName n (rels caller); other = getManyToManyRelationByName n (rels related) in
      if length own > 1 \<or> length other > 1 \<or> own = [] \<and> other = [] then None
      else if \<not> same_model caller related \<and> own \<noteq> [] \<and> other \<noteq> [] then None
      else
        (case (if own \<noteq> [] then hd own else hd other) of (r, recip) \<Rightarrow>
           if same_model (m2m_A r) caller \<and> same_model (m2m_B r) related
              \<or> same_model (m2m_A r) related \<and> same_model (m2m_B r) caller
           then Some \<lparr>rl_relation = r, rl_isReciprocal = recip, rl_isSelfRef = same_model (m2m_A r) (m2m_B r),
                  rl_callerIsA = same_model (m2m_A r) caller, rl_otherIsB = same_model (m2m_B r) related\<rparr>
           else None))"

section \<open>Loading and saving\<close>

definition raw_of :: "field_value \<Rightarrow> raw_value outcome" where
  "raw_of v = (case v of Plain x \<Rightarrow> ok x | Optional _ \<Rightarrow> None)"

text \<open>\<open>Predicate<Model>::equals\<close> on a field of the one model.\<close>

definition field_equals :: "model \<Rightarrow> nat \<Rightarrow> raw_value \<Rightarrow> predicate outcome" where
  "field_equals m ptr v = p_equals (default_resolver [m]) \<lparr>fp_model = m, fp_field = ptr\<rparr> v []"

fun pk_conjunction :: "model \<Rightarrow> (column \<times> raw_value) list \<Rightarrow> predicate outcome" where
  "pk_conjunction m [] = None"
| "pk_conjunction m [(c, v)] = field_equals m (fieldPtr c) v"
| "pk_conjunction m ((c, v) # x # xs) =
     andthen (field_equals m (fieldPtr c) v) (\<lambda>p. andthen (pk_conjunction m (x # xs)) (\<lambda>q. ok (pred_and p q)))"

definition buildPkPredicate :: "model \<Rightarrow> raw_value list \<Rightarrow> predicate outcome" where
  "buildPkPredicate m vals = pk_conjunction m (zip (pkColumns m) vals)"

definition pk_of :: "model \<Rightarrow> model_obj \<Rightarrow> raw_value list outcome" where
  "pk_of m obj = each (\<lambda>v vs. andthen (raw_of v) (\<lambda>x. ok (vs @ [x]))) (getPrimaryKeyValues m obj) []"

definition ar_find :: "'w db_target \<Rightarrow> model \<Rightarrow> raw_value list \<Rightarrow> ('w, model_obj option) db_task" where
  "ar_find t m vals = task_bind (task_of (buildPkPredicate m vals)) (\<lambda>p. sq_first t [m] (q_where p (new_query [m])))"

definition ar_queryAll :: "model \<Rightarrow> string \<Rightarrow> select_query" where
  "ar_queryAll m tableAlias = (if tableAlias = [] then new_query [m] else new_query_alias [m] tableAlias)"

definition ar_filter :: "model \<Rightarrow> predicate \<Rightarrow> string \<Rightarrow> select_query" where
  "ar_filter m p tableAlias = q_where p (if tableAlias = [] then new_query [m] else new_query_alias [m] tableAlias)"

definition bulkInsert :: "'w db_target \<Rightarrow> model \<Rightarrow> model_obj list \<Rightarrow> bool \<Rightarrow> ('w, nat \<times> model_obj list) db_task" where
  "bulkInsert t m objs returning = insert_execute t m objs returning"

definition bulkUpsert :: "'w db_target \<Rightarrow> model \<Rightarrow> model_obj list \<Rightarrow> nat list \<Rightarrow> bool \<Rightarrow> nat list \<Rightarrow> bool \<Rightarrow>
    ('w, nat \<times> model_obj list) db_task" where
  "bulkUpsert t m objs conflict doNothingOnConflict update returning =
     task_bind (task_of (andthen (each (conflictFields m) conflict new_upsert) (\<lambda>q.
         if doNothingOnConflict then ok (onConflictDoNothing q) else each (updateFields m) update q)))
       (\<lambda>q. upsert_execute t m q objs returning)"

definition bulkUpdate :: "'w db_target \<Rightarrow> model \<Rightarrow> model_obj \<Rightarrow> nat list \<Rightarrow> predicate \<Rightarrow> bool \<Rightarrow> ('w, nat \<times> model_obj list) db_task" where
  "bulkUpdate t m newObj upd p returning =
     task_bind (task_of (each (update_field m) upd new_update)) (\<lambda>q.
       update_execute t m (update_add_where p q) newObj returning)"

definition bulkDestroy :: "'w db_target \<Rightarrow> model \<Rightarrow> predicate \<Rightarrow> bool \<Rightarrow> ('w, nat \<times> model_obj list) db_task" where
  "bulkDestroy t m p returning = delete_execute t m (delete_add_where p new_delete) returning"

text \<open>After a statement that returns rows the object becomes the first of them.\<close>

definition take_first :: "nat \<times> model_obj list \<Rightarrow> model_obj \<Rightarrow> ('w, nat \<times> model_obj) db_task" where
  "take_first r self = (case r of (n, objs) \<Rightarrow> task_return (n, case objs of [] \<Rightarrow> self | obj # _ \<Rightarrow> obj))"

definition ar_insert :: "'w db_target \<Rightarrow> model \<Rightarrow> model_obj \<Rightarrow> ('w, nat \<times> model_obj) db_task" where
  "ar_insert t m self = task_bind (insert_execute t m [self] True) (\<lambda>r. take_first r self)"

definition ar_upsert :: "'w db_target \<Rightarrow> model \<Rightarrow> nat list \<Rightarrow> bool \<Rightarrow> model_obj \<Rightarrow> ('w, nat \<times> model_obj) db_task" where
  "ar_upsert t m conflict doNothingOnConflict self =
     task_bind (task_of (andthen (each (conflictFields m) conflict new_upsert) (\<lambda>q.
         ok (if doNothingOnConflict then onConflictDoNothing q else q))))
       (\<lambda>q. task_bind (upsert_execute t m q [self] True) (\<lambda>r. take_first r self))"

definition ar_update :: "'w db_target \<Rightarrow> model \<Rightarrow> model_obj \<Rightarrow> ('w, nat \<times> model_obj) db_task" where
  "ar_update t m self =
     task_bind (task_of (andthen (pk_of m self) (buildPkPredicate m))) (\<lambda>p.
       task_bind (update_execute t m (update_add_where p new_update) self True) (\<lambda>r. take_first r self))"

definition ar_save :: "'w db_target \<Rightarrow> model \<Rightarrow> model_obj \<Rightarrow> ('w, nat \<times> model_obj) db_task" where
  "ar_save t m self = (if persisted self then ar_update t m self else ar_insert t m self)"

definition ar_destroy :: "'w db_target \<Rightarrow> model \<Rightarrow> model_obj \<Rightarrow> ('w, nat \<times> model_obj) db_task" where
  "ar_destroy t m self =
     task_bind (task_of (andthen (pk_of m self) (buildPkPredicate m))) (\<lambda>p.
       task_bind (delete_execute t m (delete_add_where p new_delete) True) (\<lambda>r.
         task_bind (take_first r self) (\<lambda>(n, obj). task_return (n, resetPersisted obj))))"

definition ar_reload :: "'w db_target \<Rightarrow> model \<Rightarrow> model_obj \<Rightarrow> ('w, bool \<times> model_obj) db_task" where
  "ar_reload t m self =
     task_bind (task_of (pk_of m self)) (\<lambda>vals.
       task_bind (ar_find t m vals) (\<lambda>r.
         task_return (case r of None \<Rightarrow> (False, self) | Some obj \<Rightarrow> (True, obj))))"

section \<open>Many to many\<close>

text \<open>A predicate extended by \<open>through.field = model.field\<close> for every through field, with the values of an object.\<close>

definition and_fields :: "column_resolver \<Rightarrow> model \<Rightarrow> string \<Rightarrow> through_field list \<Rightarrow> model_obj \<Rightarrow> predicate \<Rightarrow> predicate outcome" where
  "and_fields col through tableAlias fs obj =
     each (\<lambda>f p. andthen (raw_of (obj_field obj (modelPtr f))) (\<lambda>v.
       andthen (p_equals col \<lparr>fp_model = through, fp_field = throughPtr f\<rparr> v tableAlias) (\<lambda>q. ok (pred_and p q)))) fs"

text \<open>The condition that one side's fields are those of \<open>x\<close> and the other side's those of \<open>y\<close>.\<close>

definition pair_predicate :: "model \<Rightarrow> through_field list \<Rightarrow> model_obj \<Rightarrow> through_field list \<Rightarrow> model_obj \<Rightarrow> predicate outcome" where
  "pair_predicate through fs x gs y =
     andthen (and_fields (default_resolver [through]) through [] fs x (pred_bool True)) (\<lambda>p.
       and_fields (default_resolver [through]) through [] gs y p)"

definition side_if :: "bool \<Rightarrow> through_side" where
  "side_if b = (if b then SideA else SideB)"

definition set_fields :: "through_field list \<Rightarrow> model_obj \<Rightarrow> model_obj \<Rightarrow> model_obj" where
  "set_fields fs src obj = fold (\<lambda>f o'. set_field (throughPtr f) (obj_field src (modelPtr f)) o') fs obj"

definition isSelfSmallerThan :: "(field_value \<Rightarrow> field_value \<Rightarrow> bool) \<Rightarrow> many_to_many \<Rightarrow> model_obj \<Rightarrow> model_obj \<Rightarrow> bool" where
  "isSelfSmallerThan lt r self obj =
     (case find_idx (\<lambda>f. lt (obj_field self (modelPtr f)) (obj_field obj (modelPtr f))
          \<or> lt (obj_field obj (modelPtr f)) (obj_field self (modelPtr f))) (throughFields r) of
        None \<Rightarrow> False
      | Some i \<Rightarrow> let f = throughFields r ! i in lt (obj_field self (modelPtr f)) (obj_field obj (modelPtr f)))"

text \<open>The object that \<open>addRelation\<close> stores.\<close>

definition added_through :: "(field_value \<Rightarrow> field_value \<Rightarrow> bool) \<Rightarrow> relation_lookup \<Rightarrow> model_obj \<Rightarrow> model_obj \<Rightarrow> model_obj" where
  "added_through lt rl self other =
     (let r = rl_relation rl; t = new_obj (m2m_through r) in
      if symmetryMode r \<in> {DB_SINGLE_ROW, SINGLE_ROW} then
        let smaller = isSelfSmallerThan lt r self other;
            t1 = set_fields (getThroughFields SideA r) (if smaller then self else other) t
        in set_fields (getThroughFields SideB r) (if smaller then other else self) t1
      else
        let t1 = set_fields (getThroughFields (side_if (rl_callerIsA rl)) r) self t
        in set_fields (getThroughFields (side_if (\<not> rl_otherIsB rl)) r) other t1)"

definition added_mirror :: "relation_lookup \<Rightarrow> model_obj \<Rightarrow> model_obj \<Rightarrow> model_obj" where
  "added_mirror rl self other =
     (let r = rl_relation rl;
          t1 = set_fields (getThroughFields (side_if (\<not> rl_callerIsA rl)) r) self (new_obj (m2m_through r))
      in set_fields (getThroughFields (side_if (rl_otherIsB rl)) r) other t1)"

definition addRelation :: "'w db_target \<Rightarrow> (field_value \<Rightarrow> field_value \<Rightarrow> bool) \<Rightarrow> relation_lookup \<Rightarrow> model_obj \<Rightarrow> model_obj \<Rightarrow> ('w, nat) db_task" where
  "addRelation t lt rl self other =
     (let r = rl_relation rl; through = m2m_through r; conflict = getThroughFieldPtrs r;
          store = (if symmetryMode r = DOUBLE_ROW
                   then task_bind (bulkUpsert t through [added_through lt rl self other, added_mirror rl self other] conflict True [] False)
                          (\<lambda>(n, _). task_return n)
                   else task_bind (ar_upsert t through conflict True (added_through lt rl self other)) (\<lambda>(n, _). task_return n))
      in
      if symmetryMode r = SINGLE_ROW then
        task_bind (task_of (andthen (pair_predicate through (getThroughFields SideA r) self (getThroughFields SideB r) other) (\<lambda>p.
            andthen (pair_predicate through (getThroughFields SideB r) self (getThroughFields SideA r) other) (\<lambda>q. ok (pred_or p q)))))
          (\<lambda>p. task_bind (sq_exists t [through] (q_where p (new_query [through]))) (\<lambda>ex.
             if ex then task_return 0 else store))
      else store)"

text \<open>The condition of \<open>removeRelation\<close>; a reciprocal name does not compile.\<close>

definition removal_query :: "relation_lookup \<Rightarrow> model_obj \<Rightarrow> model_obj \<Rightarrow> delete_query outcome" where
  "removal_query rl self other =
     (let r = rl_relation rl; through = m2m_through r in
      if rl_isReciprocal rl then None
      else
        andthen (pair_predicate through (getThroughFields (side_if (rl_callerIsA rl)) r) self
            (getThroughFields (side_if (\<not> rl_otherIsB rl)) r) other) (\<lambda>p.
          if symmetryMode r \<noteq> SymNone \<and> symmetryMode r \<noteq> DB_DOUBLE_ROW
          then andthen (pair_predicate through (getThroughFields SideB r) self (getThroughFields SideA r) other)
                 (\<lambda>q. ok (delete_or_where q (delete_add_where p new_delete)))
          else ok (delete_add_where p new_delete)))"

definition removeRelation :: "'w db_target \<Rightarrow> relation_lookup \<Rightarrow> model_obj \<Rightarrow> model_obj \<Rightarrow> ('w, nat) db_task" where
  "removeRelation t rl self other =
     task_bind (task_of (removal_query rl self other)) (\<lambda>q.
       task_bind (delete_execute t (m2m_through (rl_relation rl)) q False) (\<lambda>(n, _). task_return n))"

text \<open>The order of the two sides of a through object, decided by the first pair of fields that differ.\<close>

definition through_ordered :: "(field_value \<Rightarrow> field_value \<Rightarrow> bool) \<Rightarrow> many_to_many \<Rightarrow> model_obj \<Rightarrow> bool" where
  "through_ordered lt r t =
     (let pairs = map (\<lambda>(f, g). (obj_field t (throughPtr f), obj_field t (throughPtr g)))
            (zip (getThroughFields SideA r) (getThroughFields SideB r))
      in case find_idx (\<lambda>(x, y). lt x y \<or> lt y x) pairs of None \<Rightarrow> True | Some i \<Rightarrow> lt (fst (pairs ! i)) (snd (pairs ! i)))"

definition upsertRelationThrough :: "'w db_target \<Rightarrow> (field_value \<Rightarrow> field_value \<Rightarrow> bool) \<Rightarrow> many_to_many \<Rightarrow> model_obj \<Rightarrow> ('w, nat) db_task" where
  "upsertRelationThrough t lt r throughObj =
     (let through = m2m_through r; conflict = getThroughFieldPtrs r;
          upsert = (\<lambda>o'. task_bind (ar_upsert t through conflict False o') (\<lambda>(n, _). task_return n))
      in case symmetryMode r of
           SymNone \<Rightarrow> upsert throughObj
         | DB_DOUBLE_ROW \<Rightarrow> upsert throughObj
         | DB_SINGLE_ROW \<Rightarrow> upsert (if through_ordered lt r throughObj then throughObj else mirrorThroughObj r throughObj)
         | SINGLE_ROW \<Rightarrow>
             (let mirror = mirrorThroughObj r throughObj in
              task_bind (task_of (each (\<lambda>f p. andthen (raw_of (obj_field mirror (throughPtr f))) (\<lambda>v.
                  andthen (field_equals through (throughPtr f) v) (\<lambda>q. ok (pred_and p q)))) (throughFields r) (pred_bool True)))
                (\<lambda>p. task_bind (sq_exists t [through] (q_where p (new_query [through]))) (\<lambda>ex.
                   upsert (if ex then mirror else throughObj))))
         | DOUBLE_ROW \<Rightarrow>
             task_bind (bulkUpsert t through [throughObj, mirrorThroughObj r throughObj] conflict False [] False)
               (\<lambda>(n, _). task_return n))"

text \<open>\<open>manyRelated\<close>: the models of the query are the related one, the through model and the caller's.\<close>

definition side_model :: "through_field \<Rightarrow> many_to_many \<Rightarrow> model" where
  "side_model f r = (if throughPtrModel f = SideA then m2m_A r else m2m_B r)"

definition join_fields :: "model list \<Rightarrow> many_to_many \<Rightarrow> through_field list \<Rightarrow> predicate outcome" where
  "join_fields ms r fs =
     each (\<lambda>f p. andthen (p_equals_field (default_resolver ms) \<lparr>fp_model = side_model f r, fp_field = modelPtr f\<rparr>
         \<lparr>fp_model = m2m_through r, fp_field = throughPtr f\<rparr> (''R'', ''T'')) (\<lambda>q. ok (pred_and p q))) fs (pred_bool True)"

definition manyRelated :: "relation_lookup \<Rightarrow> model \<Rightarrow> model \<Rightarrow> model_obj \<Rightarrow> select_query outcome" where
  "manyRelated rl m related self =
     (let r = rl_relation rl; through = m2m_through r; ms = [related, through, m];
          condition = (if rl_isSelfRef rl then \<not> rl_isReciprocal rl else rl_callerIsA rl);
          q0 = new_query_alias ms ''R''
      in
      andthen (join_fields ms r (getThroughFields (side_if (\<not> condition)) r)) (\<lambda>joinPred.
      andthen (and_fields (default_resolver ms) through ''T'' (getThroughFields (side_if condition) r) self (pred_bool True)) (\<lambda>wherePred.
        if symmetryMode r \<in> {SINGLE_ROW, DB_SINGLE_ROW} then
          andthen (join_fields ms r (getThroughFields SideB r)) (\<lambda>joinPred2.
          andthen (q_join ms through (pred_or joinPred joinPred2) (Some ''T'') INNER q0) (\<lambda>q1.
          andthen (and_fields (default_resolver ms) through ''T'' (getThroughFields SideA r) self (pred_bool True)) (\<lambda>wherePred2.
            ok (q_where (pred_or wherePred wherePred2) q1))))
        else
          andthen (q_join ms through joinPred (Some ''T'') INNER q0) (\<lambda>q1. ok (q_where wherePred q1)))))"

section \<open>Foreign keys\<close>

definition related_query :: "model \<Rightarrow> fk_relation \<Rightarrow> model_obj \<Rightarrow> select_query outcome" where
  "related_query definer r self =
     each (\<lambda>(fk, pk) q. andthen (raw_of (obj_field self pk)) (\<lambda>v.
       andthen (field_equals definer fk v) (\<lambda>p. ok (q_where p q)))) (getFieldPtrPairs r) (new_query [definer])"

text \<open>A compile-time lookup that has to give exactly one relation.\<close>

definition the_relation :: "fk_relation list \<Rightarrow> fk_relation outcome" where
  "the_relation rs = (case rs of [r] \<Rightarrow> ok r | _ \<Rightarrow> None)"

definition ar_related :: "(model \<Rightarrow> relation list) \<Rightarrow> model \<Rightarrow> model \<Rightarrow> string \<Rightarrow> model_obj \<Rightarrow> select_query outcome" where
  "ar_related rels m definer name self =
     andthen (the_relation (if name = [] then getFkRelationByTargetModel m (rels definer) else getFkRelationByName name (rels definer)))
       (\<lambda>r. related_query definer r self)"

definition ref_query :: "model \<Rightarrow> fk_relation \<Rightarrow> model_obj \<Rightarrow> select_query outcome" where
  "ref_query target r self =
     each (\<lambda>(fk, pk) q.
       case obj_field self fk of
         Optional None \<Rightarrow> ok (q_where (pred_bool False) q)
       | Optional (Some v) \<Rightarrow> andthen (field_equals target pk v) (\<lambda>p. ok (q_where p q))
       | Plain v \<Rightarrow> andthen (field_equals target pk v) (\<lambda>p. ok (q_where p q))) (getFieldPtrPairs r) (new_query [target])"

definition ar_ref :: "(model \<Rightarrow> relation list) \<Rightarrow> model \<Rightarrow> model \<Rightarrow> nat list \<Rightarrow> model_obj \<Rightarrow> select_query outcome" where
  "ar_ref rels m target ptrs self =
     andthen (the_relation (if ptrs \<noteq> [] then getRelationByForeignKeyFieldPtrs ptrs (rels m) else getFkRelationByTargetModel target (rels m)))
       (\<lambda>r. ref_query target r self)"

section \<open>Lemmas: mirrored through objects\<close>

lemma obj_field_set [simp]: "obj_field (set_field p v obj) = (obj_field obj)(p := v)"
  by (simp add: set_field_def)

lemma persisted_set [simp]: "persisted (set_field p v obj) = persisted obj"
  by (simp add: set_field_def)

lemma obj_eqI: "obj_field (x :: model_obj) = obj_field y \<Longrightarrow> persisted x = persisted y \<Longrightarrow> x = y"
  by (cases x; cases y) simp

text \<open>Writing a list of distinct fields.\<close>

definition write_all :: "(nat \<times> field_value) list \<Rightarrow> model_obj \<Rightarrow> model_obj" where
  "write_all = fold (\<lambda>(p, v) o'. set_field p v o')"

lemma write_all_simps [simp]: "write_all [] obj = obj" "write_all ((p, v) # ps) obj = write_all ps (set_field p v obj)"
  by (simp_all add: write_all_def)

lemma write_all_persisted [simp]: "persisted (write_all ps obj) = persisted obj"
proof (induction ps arbitrary: obj)
  case (Cons x ps)
  then show ?case by (cases x) simp
qed simp

lemma write_all_other: "p \<notin> fst ` set ps \<Longrightarrow> obj_field (write_all ps obj) p = obj_field obj p"
proof (induction ps arbitrary: obj)
  case (Cons x ps)
  then show ?case by (cases x) simp
qed simp

lemma write_all_at: "distinct (map fst ps) \<Longrightarrow> (p, v) \<in> set ps \<Longrightarrow> obj_field (write_all ps obj) p = v"
proof (induction ps arbitrary: obj)
  case (Cons x ps)
  show ?case
  proof (cases "(p, v) = x")
    case True
    then show ?thesis using Cons.prems(1) write_all_other [of p ps "set_field p v obj"] by auto
  next
    case False
    then show ?thesis using Cons by (cases x) auto
  qed
qed simp

lemma copy_fields_write: "copy_fields fs gs src obj = write_all (map (\<lambda>(f, g). (throughPtr g, obj_field src (throughPtr f))) (zip fs gs)) obj"
  by (simp add: copy_fields_def write_all_def fold_map comp_def case_prod_unfold)

lemma set_fields_write: "set_fields fs src obj = write_all (map (\<lambda>f. (throughPtr f, obj_field src (modelPtr f))) fs) obj"
  by (simp add: set_fields_def write_all_def fold_map comp_def)

lemma set_fields_at:
  "distinct (map throughPtr fs) \<Longrightarrow> f \<in> set fs \<Longrightarrow> obj_field (set_fields fs src obj) (throughPtr f) = obj_field src (modelPtr f)"
  unfolding set_fields_write by (rule write_all_at) (auto simp: comp_def)

lemma set_fields_other: "p \<notin> throughPtr ` set fs \<Longrightarrow> obj_field (set_fields fs src obj) p = obj_field obj p"
  unfolding set_fields_write by (rule write_all_other) auto

text \<open>Every through field names a field of its own; symmetric relations relate a model with itself, by the same number of fields.\<close>

definition well_mapped :: "many_to_many \<Rightarrow> bool" where
  "well_mapped r \<longleftrightarrow> distinct (getThroughFieldPtrs r) \<and> (symmetryMode r \<noteq> SymNone \<longrightarrow> isSelfReferential r)"

lemma sides_distinct: "distinct (getThroughFieldPtrs r) \<Longrightarrow> distinct (map throughPtr (getThroughFields s r))"
  by (simp add: getThroughFieldPtrs_def getThroughFields_def distinct_map_filter)

lemma sides_disjoint:
  assumes "distinct (getThroughFieldPtrs r)" "f \<in> set (getThroughFields SideA r)" "g \<in> set (getThroughFields SideB r)"
  shows "throughPtr f \<noteq> throughPtr g"
proof
  assume e: "throughPtr f = throughPtr g"
  have "f \<in> set (throughFields r)" "g \<in> set (throughFields r)" "throughPtrModel f \<noteq> throughPtrModel g"
    using assms(2,3) by (auto simp: getThroughFields_def)
  then show False using inj_onD [of throughPtr "set (throughFields r)" f g] assms(1) e
    by (auto simp: getThroughFieldPtrs_def distinct_map)
qed

lemma mirror_at:
  assumes "distinct (getThroughFieldPtrs r)" "length (getThroughFields SideA r) = length (getThroughFields SideB r)"
    and "i < length (getThroughFields SideA r)"
  shows "obj_field (mirrorThroughObj r t) (throughPtr (getThroughFields SideA r ! i)) = obj_field t (throughPtr (getThroughFields SideB r ! i))"
    and "obj_field (mirrorThroughObj r t) (throughPtr (getThroughFields SideB r ! i)) = obj_field t (throughPtr (getThroughFields SideA r ! i))"
proof -
  let ?A = "getThroughFields SideA r" and ?B = "getThroughFields SideB r"
  have fst: "map fst (map (\<lambda>(f, g). (throughPtr g, v f)) (zip xs ys)) = map throughPtr ys" if "length xs = length ys" for xs ys v
    using that by (induction xs ys rule: list_induct2) auto
  have zip_in: "(xs ! i, ys ! i) \<in> set (zip xs ys)" if "length xs = length ys" "i < length xs" for xs ys :: "through_field list"
    using that by (auto simp: in_set_zip)
  have copied: "obj_field (copy_fields xs ys t obj) (throughPtr (ys ! i)) = obj_field t (throughPtr (xs ! i))"
    if "length xs = length ys" "i < length xs" "distinct (map throughPtr ys)" for xs ys obj
    unfolding copy_fields_write
  proof (rule write_all_at)
    show "distinct (map fst (map (\<lambda>(f, g). (throughPtr g, obj_field t (throughPtr f))) (zip xs ys)))"
      using that(3) by (simp only: fst [OF that(1)])
    show "(throughPtr (ys ! i), obj_field t (throughPtr (xs ! i))) \<in> set (map (\<lambda>(f, g). (throughPtr g, obj_field t (throughPtr f))) (zip xs ys))"
      using imageI [OF zip_in [OF that(1,2)], of "\<lambda>(f, g). (throughPtr g, obj_field t (throughPtr f))"] by simp
  qed
  show "obj_field (mirrorThroughObj r t) (throughPtr (?A ! i)) = obj_field t (throughPtr (?B ! i))"
    unfolding mirrorThroughObj_def Let_def using assms by (intro copied) (simp_all add: sides_distinct)
  have "throughPtr (?B ! i) \<notin> throughPtr ` set ?A"
    using sides_disjoint [OF assms(1), of _ "?B ! i"] assms(2,3) by fastforce
  then have "obj_field (mirrorThroughObj r t) (throughPtr (?B ! i)) = obj_field (copy_fields ?A ?B t t) (throughPtr (?B ! i))"
    unfolding mirrorThroughObj_def Let_def copy_fields_write [of ?B ?A]
    by (intro write_all_other) (auto dest: set_zip_rightD)
  also have "\<dots> = obj_field t (throughPtr (?A ! i))"
    using assms by (intro copied) (simp_all add: sides_distinct)
  finally show "obj_field (mirrorThroughObj r t) (throughPtr (?B ! i)) = obj_field t (throughPtr (?A ! i))" .
qed

lemma mirror_other:
  assumes "p \<notin> throughPtr ` set (throughFields r)"
  shows "obj_field (mirrorThroughObj r t) p = obj_field t p"
proof -
  have o: "obj_field (copy_fields fs gs src obj) p = obj_field obj p" if "set gs \<subseteq> set (throughFields r)" for fs gs src obj
    unfolding copy_fields_write using that assms by (intro write_all_other) (auto dest: set_zip_rightD)
  show ?thesis by (simp add: mirrorThroughObj_def Let_def o getThroughFields_def)
qed

lemma mirror_persisted [simp]: "persisted (mirrorThroughObj r t) = persisted t"
  by (simp add: mirrorThroughObj_def Let_def copy_fields_write)

text \<open>The mirror of the mirror is the object.\<close>

lemma mirror_mirror:
  assumes "distinct (getThroughFieldPtrs r)" "length (getThroughFields SideA r) = length (getThroughFields SideB r)"
  shows "mirrorThroughObj r (mirrorThroughObj r t) = t"
proof (rule obj_eqI)
  show "obj_field (mirrorThroughObj r (mirrorThroughObj r t)) = obj_field t"
  proof
    fix p
    consider (other) "p \<notin> throughPtr ` set (throughFields r)"
      | (A) i where "i < length (getThroughFields SideA r)" "p = throughPtr (getThroughFields SideA r ! i)"
      | (B) i where "i < length (getThroughFields SideB r)" "p = throughPtr (getThroughFields SideB r ! i)"
    proof (cases "p \<in> throughPtr ` set (throughFields r)")
      case True
      then obtain f where f: "f \<in> set (throughFields r)" "p = throughPtr f" by auto
      then have "f \<in> set (getThroughFields SideA r) \<or> f \<in> set (getThroughFields SideB r)"
        by (cases "throughPtrModel f") (auto simp: getThroughFields_def)
      then show ?thesis using that f(2) by (auto simp: in_set_conv_nth)
    qed (use that in auto)
    then show "obj_field (mirrorThroughObj r (mirrorThroughObj r t)) p = obj_field t p"
      by cases (use assms in \<open>simp_all add: mirror_other mirror_at\<close>)
  qed
qed simp

section \<open>Lemmas: the rows that a condition selects\<close>

text \<open>
  A row of the tables in a query gives every rendered column a value. Comparisons are those of
  \<open>=\<close> in SQL, which is unknown when an operand is NULL; other comparisons are left unknown.
\<close>

definition sql_eq :: "db_value \<Rightarrow> db_value \<Rightarrow> bool option" where
  "sql_eq x y = (if x = DbNull \<or> y = DbNull then None else Some (x = y))"

fun eq_truth :: "(string \<Rightarrow> db_value) \<Rightarrow> predicate \<Rightarrow> bool option" where
  "eq_truth val (BasePredicate t a b opr vs cs lf rf) =
     (if opr = Some EQUALS \<and> t = LEAF then (case vs of v # _ \<Rightarrow> sql_eq (val a) v | [] \<Rightarrow> None)
      else if opr = Some EQUALS \<and> t = FIELD_COMPARISON then sql_eq (val a) (val b) else None)"

definition selects :: "(string \<Rightarrow> db_value) \<Rightarrow> predicate \<Rightarrow> bool" where
  "selects val p \<longleftrightarrow> truth (eq_truth val) p = Some True"

text \<open>The columns of model \<open>m\<close> under the alias \<open>a\<close> have the values of the fields of an object.\<close>

definition row_of :: "(string \<Rightarrow> db_value) \<Rightarrow> string \<Rightarrow> model \<Rightarrow> model_obj \<Rightarrow> bool" where
  "row_of val a m obj \<longleftrightarrow> (\<forall>c \<in> set (columns m). val (a @ ''.'' @ dbName c) = toDbValue (obj_field obj (fieldPtr c)))"

definition alias_is :: "model list \<Rightarrow> model \<Rightarrow> string \<Rightarrow> string \<Rightarrow> bool" where
  "alias_is ms m tableAlias a \<longleftrightarrow> (if tableAlias = [] then model_alias ms m else ok tableAlias) = ok a"

lemma alias_self: "alias_is [m] m [] ''a''"
  by (simp add: alias_is_def model_alias_def get_index_of_def same_model_def getAlias_def aliasList_def)

lemma selects_bool [simp]: "selects val (pred_bool b) = b"
  by (simp add: selects_def)

lemma selects_and: "selects val (pred_and p q) \<longleftrightarrow> selects val p \<and> selects val q"
  by (cases "truth (eq_truth val) p"; cases "truth (eq_truth val) q") (auto simp: selects_def truth_and sql_and_def)

lemma selects_or: "selects val (pred_or p q) \<longleftrightarrow> selects val p \<or> selects val q"
  by (cases "truth (eq_truth val) p"; cases "truth (eq_truth val) q") (auto simp: selects_def truth_or sql_or_def)

lemma resolver_column:
  assumes "default_resolver ms \<lparr>fp_model = m, fp_field = ptr\<rparr> tableAlias = ok c" "alias_is ms m tableAlias a" "row_of val a m obj"
  shows "val c = toDbValue (obj_field obj ptr)"
proof -
  obtain n where n: "columnNameOf m ptr = ok n" "c = a @ ''.'' @ n"
    using assms(1,2) by (auto simp: default_resolver_def alias_is_def andthen_eq_ok split: if_splits)
  then show ?thesis using columnNameOf_ok [OF n(1)] assms(3) by (auto simp: row_of_def)
qed

lemma selects_equals:
  assumes "p_equals (default_resolver ms) \<lparr>fp_model = m, fp_field = ptr\<rparr> v tableAlias = ok p" "alias_is ms m tableAlias a" "row_of val a m obj"
  shows "selects val p \<longleftrightarrow> toDbValue (obj_field obj ptr) = toDbValueImpl v"
proof -
  obtain c where c: "default_resolver ms \<lparr>fp_model = m, fp_field = ptr\<rparr> tableAlias = ok c"
    "p = BasePredicate LEAF c [] (Some EQUALS) [toDbValueImpl v] [] [] []"
    using assms(1) by (auto simp: p_equals_def pred_field_def andthen_eq_ok)
  then show ?thesis using resolver_column [OF c(1) assms(2,3)] by (cases v) (auto simp: selects_def sql_eq_def)
qed

lemma raw_of_ok: "raw_of v = ok x \<Longrightarrow> v = Plain x"
  by (cases v) (auto simp: raw_of_def)

lemma selects_and_fields:
  assumes "and_fields (default_resolver ms) m tableAlias fs x p0 = ok p" "alias_is ms m tableAlias a" "row_of val a m obj"
  shows "selects val p \<longleftrightarrow> selects val p0
    \<and> (\<forall>f \<in> set fs. toDbValue (obj_field obj (throughPtr f)) = toDbValue (obj_field x (modelPtr f)))"
  using assms(1)
proof (induction fs arbitrary: p0)
  case (Cons f fs)
  obtain v q where s: "obj_field x (modelPtr f) = Plain v"
      "p_equals (default_resolver ms) \<lparr>fp_model = m, fp_field = throughPtr f\<rparr> v tableAlias = ok q"
      "and_fields (default_resolver ms) m tableAlias fs x (pred_and p0 q) = ok p"
    using Cons.prems by (auto simp: and_fields_def andthen_eq_ok dest: raw_of_ok)
  show ?case using Cons.IH [OF s(3)] selects_equals [OF s(2) assms(2,3)] s(1) by (auto simp: selects_and)
qed (simp add: and_fields_def)

text \<open>The fields of a through object on one side are those of an object of the model.\<close>

definition side_has :: "many_to_many \<Rightarrow> through_side \<Rightarrow> model_obj \<Rightarrow> model_obj \<Rightarrow> bool" where
  "side_has r s t x \<longleftrightarrow> (\<forall>f \<in> set (getThroughFields s r). toDbValue (obj_field t (throughPtr f)) = toDbValue (obj_field x (modelPtr f)))"

lemma selects_pair:
  assumes "pair_predicate (m2m_through r) (getThroughFields s r) x (getThroughFields s' r) y = ok p" "row_of val ''a'' (m2m_through r) t"
  shows "selects val p \<longleftrightarrow> side_has r s t x \<and> side_has r s' t y"
proof -
  let ?m = "m2m_through r"
  obtain p1 where 1: "and_fields (default_resolver [?m]) ?m [] (getThroughFields s r) x (pred_bool True) = ok p1"
    and 2: "and_fields (default_resolver [?m]) ?m [] (getThroughFields s' r) y p1 = ok p"
    using assms(1) by (auto simp: pair_predicate_def andthen_eq_ok)
  show ?thesis
    using selects_and_fields [OF 1 alias_self assms(2)] selects_and_fields [OF 2 alias_self assms(2)] by (simp add: side_has_def)
qed

section \<open>Lemmas: adding and removing relations\<close>

lemma side_has_set:
  assumes "distinct (getThroughFieldPtrs r)"
  shows "side_has r SideA (set_fields (getThroughFields SideB r) y (set_fields (getThroughFields SideA r) x t)) x"
    and "side_has r SideB (set_fields (getThroughFields SideB r) y (set_fields (getThroughFields SideA r) x t)) y"
    and "side_has r SideA (set_fields (getThroughFields SideA r) x (set_fields (getThroughFields SideB r) y t)) x"
    and "side_has r SideB (set_fields (getThroughFields SideA r) x (set_fields (getThroughFields SideB r) y t)) y"
proof -
  have d: "throughPtr f \<notin> throughPtr ` set (getThroughFields SideB r)" if "f \<in> set (getThroughFields SideA r)" for f
    using sides_disjoint [OF assms that] by blast
  have e: "throughPtr g \<notin> throughPtr ` set (getThroughFields SideA r)" if "g \<in> set (getThroughFields SideB r)" for g
    using sides_disjoint [OF assms _ that] by fastforce
  note s = sides_distinct [OF assms]
  show "side_has r SideA (set_fields (getThroughFields SideB r) y (set_fields (getThroughFields SideA r) x t)) x"
    "side_has r SideB (set_fields (getThroughFields SideB r) y (set_fields (getThroughFields SideA r) x t)) y"
    "side_has r SideA (set_fields (getThroughFields SideA r) x (set_fields (getThroughFields SideB r) y t)) x"
    "side_has r SideB (set_fields (getThroughFields SideA r) x (set_fields (getThroughFields SideB r) y t)) y"
    by (simp_all add: side_has_def set_fields_at s set_fields_other d e)
qed

text \<open>A lookup gives the sides of the two models consistently.\<close>

lemma lookup_sides:
  assumes "getManyToManyRelation rels n caller related = Some rl"
  shows "rl_callerIsA rl = rl_otherIsB rl" "isSelfReferential (rl_relation rl) \<Longrightarrow> rl_callerIsA rl"
  using assms by (auto simp: getManyToManyRelation_def Let_def isSelfReferential_def same_model_def split: if_splits prod.splits)

text \<open>The row of \<open>addRelation\<close>: caller and other on their sides, or, where the order does not matter, either way.\<close>

lemma added_sides:
  assumes "getManyToManyRelation rels n caller related = Some rl" "well_mapped (rl_relation rl)"
  shows "side_has (rl_relation rl) (side_if (rl_callerIsA rl)) (added_through lt rl self other) self
      \<and> side_has (rl_relation rl) (side_if (\<not> rl_callerIsA rl)) (added_through lt rl self other) other
    \<or> symmetryMode (rl_relation rl) \<in> {SINGLE_ROW, DB_SINGLE_ROW}
      \<and> side_has (rl_relation rl) SideB (added_through lt rl self other) self \<and> side_has (rl_relation rl) SideA (added_through lt rl self other) other"
proof -
  have d: "distinct (getThroughFieldPtrs (rl_relation rl))" using assms(2) by (simp add: well_mapped_def)
  have s: "rl_callerIsA rl = rl_otherIsB rl" "symmetryMode (rl_relation rl) \<noteq> SymNone \<Longrightarrow> rl_callerIsA rl"
    using lookup_sides [OF assms(1)] assms(2) by (auto simp: well_mapped_def)
  show ?thesis
  proof (cases "symmetryMode (rl_relation rl) \<in> {DB_SINGLE_ROW, SINGLE_ROW}")
    case True
    then have "rl_callerIsA rl" using s(2) by auto
    then show ?thesis using True side_has_set [OF d] by (auto simp: added_through_def Let_def side_if_def)
  next
    case False
    then show ?thesis using s(1) side_has_set [OF d] by (cases "rl_callerIsA rl") (auto simp: added_through_def Let_def side_if_def)
  qed
qed

lemma added_mirror_sides:
  assumes "getManyToManyRelation rels n caller related = Some rl" "well_mapped (rl_relation rl)"
  shows "side_has (rl_relation rl) (side_if (\<not> rl_callerIsA rl)) (added_mirror rl self other) self
      \<and> side_has (rl_relation rl) (side_if (rl_callerIsA rl)) (added_mirror rl self other) other"
  using side_has_set [of "rl_relation rl"] assms(2) lookup_sides(1) [OF assms(1)]
  by (cases "rl_callerIsA rl") (auto simp: added_mirror_def Let_def side_if_def well_mapped_def)

text \<open>What \<open>removeRelation\<close> deletes: the rows of the pair, in both orders when the relation is symmetric in the program.\<close>

lemma removal_selects:
  assumes "getManyToManyRelation rels n caller related = Some rl" "well_mapped (rl_relation rl)"
    and "removal_query rl self other = ok q" "row_of val ''a'' (m2m_through (rl_relation rl)) t"
  shows "\<exists>p. delete_where q = Some p \<and> (selects val p \<longleftrightarrow>
      side_has (rl_relation rl) (side_if (rl_callerIsA rl)) t self \<and> side_has (rl_relation rl) (side_if (\<not> rl_callerIsA rl)) t other
      \<or> symmetryMode (rl_relation rl) \<notin> {SymNone, DB_DOUBLE_ROW} \<and> side_has (rl_relation rl) SideB t self \<and> side_has (rl_relation rl) SideA t other)"
proof -
  define r where "r = rl_relation rl"
  have s: "rl_otherIsB rl = rl_callerIsA rl" using lookup_sides(1) [OF assms(1)] by simp
  obtain p where p: "pair_predicate (m2m_through r) (getThroughFields (side_if (rl_callerIsA rl)) r) self
      (getThroughFields (side_if (\<not> rl_callerIsA rl)) r) other = ok p"
    using assms(3) s by (auto simp: removal_query_def Let_def andthen_eq_ok r_def split: if_splits)
  note 1 = selects_pair [OF p assms(4) [folded r_def]]
  show ?thesis
  proof (cases "symmetryMode r \<notin> {SymNone, DB_DOUBLE_ROW}")
    case True
    then obtain p2 where 2: "pair_predicate (m2m_through r) (getThroughFields SideB r) self (getThroughFields SideA r) other = ok p2"
      "q = delete_or_where p2 (delete_add_where p new_delete)"
      using assms(3) s p by (auto simp: removal_query_def Let_def andthen_eq_ok r_def split: if_splits)
    show ?thesis using 1 selects_pair [OF 2(1) assms(4) [folded r_def]] 2(2) True
      by (simp add: delete_or_where_def delete_add_where_def new_delete_def where_and_def where_or_def selects_or r_def)
  next
    case False
    then have "q = delete_add_where p new_delete"
      using assms(3) s p by (auto simp: removal_query_def Let_def andthen_eq_ok r_def split: if_splits)
    then show ?thesis using 1 False by (simp add: delete_add_where_def new_delete_def where_and_def r_def)
  qed
qed

lemma removal_covers_addition:
  assumes "getManyToManyRelation rels n caller related = Some rl" "well_mapped (rl_relation rl)" "removal_query rl self other = ok q"
    and "row_of val ''a'' (m2m_through (rl_relation rl)) t"
    and "t = added_through lt rl self other \<or> symmetryMode (rl_relation rl) = DOUBLE_ROW \<and> t = added_mirror rl self other"
  shows "\<exists>p. delete_where q = Some p \<and> selects val p"
proof -
  have c: "symmetryMode (rl_relation rl) \<noteq> SymNone \<Longrightarrow> rl_callerIsA rl"
    using lookup_sides(2) [OF assms(1)] assms(2) by (simp add: well_mapped_def)
  show ?thesis
    using removal_selects [OF assms(1-4)] added_sides [OF assms(1,2), of lt self other] added_mirror_sides [OF assms(1,2), of self other] assms(5) c
    by (auto simp: side_if_def)
qed

section \<open>Lemmas: reading relations\<close>

text \<open>In the modes with one row per pair a row is found only when the caller is on side A.\<close>

lemma single_row_one_sided:
  assumes "manyRelated rl m related self = ok q" "symmetryMode (rl_relation rl) \<in> {SINGLE_ROW, DB_SINGLE_ROW}"
    and "rl_isSelfRef rl" "\<not> rl_isReciprocal rl" "row_of val ''T'' (m2m_through (rl_relation rl)) t"
  shows "\<exists>p. wherePredicate (clauses q) = Some p \<and> (selects val p \<longleftrightarrow> side_has (rl_relation rl) SideA t self)"
proof -
  define r where "r = rl_relation rl"
  let ?ms = "[related, m2m_through r, m]"
  obtain p jp q1 where p: "and_fields (default_resolver ?ms) (m2m_through r) ''T'' (getThroughFields SideA r) self (pred_bool True) = ok p"
    and j: "q_join ?ms (m2m_through r) jp (Some ''T'') INNER (new_query_alias ?ms ''R'') = ok q1" and q: "q = q_where (pred_or p p) q1"
    using assms(1-4) by (auto simp: manyRelated_def Let_def andthen_eq_ok r_def side_if_def)
  have "wherePredicate (clauses q1) = None"
    using j by (auto simp: q_join_def Let_def andthen_eq_ok map_parts_def new_query_alias_def new_parts_def)
  then have "wherePredicate (clauses q) = Some (pred_or p p)" by (simp add: q q_where_def map_parts_def where_and_def)
  moreover have "alias_is ?ms (m2m_through r) ''T'' ''T''" by (simp add: alias_is_def)
  ultimately show ?thesis using selects_and_fields [OF p _ assms(5) [folded r_def]] by (simp add: selects_or side_has_def r_def)
qed

text \<open>The conditions of a query that is extended clause by clause.\<close>

definition query_selects :: "(string \<Rightarrow> db_value) \<Rightarrow> select_query \<Rightarrow> bool" where
  "query_selects val q \<longleftrightarrow> (case wherePredicate (clauses q) of None \<Rightarrow> True | Some p \<Rightarrow> selects val p)"

lemma query_selects_where: "query_selects val (q_where p q) \<longleftrightarrow> query_selects val q \<and> selects val p"
  by (auto simp: query_selects_def q_where_def map_parts_def where_and_def selects_and split: option.splits)

lemma query_selects_new [simp]: "query_selects val (new_query ms)"
  by (simp add: query_selects_def new_query_def new_parts_def)

text \<open>\<open>related\<close> finds exactly the rows whose foreign key is the object's primary key.\<close>

lemma related_selects:
  assumes "related_query definer r self = ok q" "row_of val ''a'' definer t"
  shows "query_selects val q \<longleftrightarrow> (\<forall>(fk, pk) \<in> set (getFieldPtrPairs r). toDbValue (obj_field t fk) = toDbValue (obj_field self pk))"
proof -
  have "query_selects val q \<longleftrightarrow> query_selects val q0 \<and> (\<forall>(fk, pk) \<in> set ps. toDbValue (obj_field t fk) = toDbValue (obj_field self pk))"
    if "each (\<lambda>(fk, pk) q. andthen (raw_of (obj_field self pk)) (\<lambda>v.
       andthen (field_equals definer fk v) (\<lambda>p. ok (q_where p q)))) ps q0 = ok q" for ps q0
    using that
  proof (induction ps arbitrary: q0)
    case (Cons x ps)
    obtain fk pk where x: "x = (fk, pk)" by (cases x)
    obtain v p where s: "obj_field self pk = Plain v" "p_equals (default_resolver [definer]) \<lparr>fp_model = definer, fp_field = fk\<rparr> v [] = ok p"
      "each (\<lambda>(fk, pk) q. andthen (raw_of (obj_field self pk)) (\<lambda>v.
         andthen (field_equals definer fk v) (\<lambda>p. ok (q_where p q)))) ps (q_where p q0) = ok q"
      using Cons.prems x by (auto simp: andthen_eq_ok field_equals_def dest: raw_of_ok)
    show ?case using Cons.IH [OF s(3)] selects_equals [OF s(2) alias_self assms(2)] s(1) x by (auto simp: query_selects_where)
  qed simp
  from this [OF assms(1) [unfolded related_query_def]] show ?thesis by simp
qed

text \<open>\<open>ref\<close> finds exactly the rows whose primary key is the object's foreign key, and none when that is null.\<close>

lemma ref_selects:
  assumes "ref_query target r self = ok q" "row_of val ''a'' target t"
  shows "query_selects val q \<longleftrightarrow>
    (\<forall>(fk, pk) \<in> set (getFieldPtrPairs r). obj_field self fk \<noteq> Optional None \<and> toDbValue (obj_field t pk) = toDbValue (obj_field self fk))"
proof -
  let ?step = "\<lambda>(fk, pk) q.
       case obj_field self fk of
         Optional None \<Rightarrow> ok (q_where (pred_bool False) q)
       | Optional (Some v) \<Rightarrow> andthen (field_equals target pk v) (\<lambda>p. ok (q_where p q))
       | Plain v \<Rightarrow> andthen (field_equals target pk v) (\<lambda>p. ok (q_where p q))"
  have step: "query_selects val q1 \<longleftrightarrow> query_selects val q0 \<and> obj_field self fk \<noteq> Optional None \<and> toDbValue (obj_field t pk) = toDbValue (obj_field self fk)"
    if "?step (fk, pk) q0 = ok q1" for fk pk q0 q1
    using that selects_equals [OF _ alias_self assms(2), of pk]
    by (auto simp: andthen_eq_ok field_equals_def query_selects_where split: field_value.splits option.splits)
  have "query_selects val q \<longleftrightarrow> query_selects val q0
      \<and> (\<forall>(fk, pk) \<in> set ps. obj_field self fk \<noteq> Optional None \<and> toDbValue (obj_field t pk) = toDbValue (obj_field self fk))"
    if "each ?step ps q0 = ok q" for ps q0
    using that
  proof (induction ps arbitrary: q0)
    case (Cons x ps)
    obtain fk pk where x: "x = (fk, pk)" by (cases x)
    obtain q1 where s: "?step (fk, pk) q0 = ok q1" "each ?step ps q1 = ok q"
      using Cons.prems x by (simp only: each.simps andthen_eq_ok) blast
    show ?case using Cons.IH [OF s(2)] step [OF s(1)] x by auto
  qed simp
  from this [OF assms(1) [unfolded ref_query_def]] show ?thesis by simp
qed

section \<open>Lemmas: saving\<close>

lemma each_hydrated: "each (\<lambda>r objs. andthen (hydrateModelRow m r) (\<lambda>obj. ok (objs @ [obj]))) rs acc = ok objs \<Longrightarrow>
    \<forall>obj \<in> set acc. persisted obj \<Longrightarrow> \<forall>obj \<in> set objs. persisted obj"
proof (induction rs arbitrary: acc)
  case (Cons r rs)
  obtain obj where o: "hydrateModelRow m r = ok obj"
      "each (\<lambda>r objs. andthen (hydrateModelRow m r) (\<lambda>obj. ok (objs @ [obj]))) rs (acc @ [obj]) = ok objs"
    using Cons.prems(1) by (auto simp: andthen_eq_ok)
  have "persisted obj" using o(1) by (auto simp: hydrateModelRow_def andthen_eq_ok setPersisted_def)
  then have "\<forall>o' \<in> set (acc @ [obj]). persisted o'" using Cons.prems(2) by simp
  then show ?case by (rule Cons.IH [OF o(2)])
qed simp

lemma task_bind_Inr: "task_bind m f w = Some (Inr (Inr y), w') \<longleftrightarrow> (\<exists>x w1. m w = Some (Inr (Inr x), w1) \<and> f x w1 = Some (Inr (Inr y), w'))"
  by (auto simp: task_bind_def split: option.splits sum.splits prod.splits)

lemma task_of_Inr: "task_of m w = Some (Inr (Inr x), w') \<longleftrightarrow> m = ok x \<and> w' = w"
  by (cases m; cases "the m") (auto simp: task_of_def ok_def)

lemma task_return_Inr [simp]: "task_return x w = Some (Inr (Inr y), w') \<longleftrightarrow> x = y \<and> w = w'"
  by (simp add: task_return_def)

lemma run_write_persisted:
  "run_write t m b w = Some (Inr (Inr (n, objs)), w') \<Longrightarrow> \<forall>obj \<in> set objs. persisted obj"
  using each_hydrated [of m _ "[]"]
  by (fastforce simp: run_write_def task_bind_Inr task_of_Inr hydrateModel_def split: prod.splits)

text \<open>After a statement that returned rows the object is one from the database, after a deletion it is not.\<close>

lemma take_first_Inr:
  "take_first (k, objs) self w = Some (Inr (Inr (n, obj)), w') \<Longrightarrow> \<forall>o' \<in> set objs. persisted o' \<Longrightarrow> obj = self \<or> persisted obj"
  by (simp add: take_first_def split: list.splits)

lemma write_then_first:
  assumes "task_bind (run_write t m b) (\<lambda>r. take_first r self) w = Some (Inr (Inr (n, obj)), w')"
  shows "obj = self \<or> persisted obj"
proof -
  obtain k objs w1 where r: "run_write t m b w = Some (Inr (Inr (k, objs)), w1)" "take_first (k, objs) self w1 = Some (Inr (Inr (n, obj)), w')"
    using assms by (auto simp: task_bind_Inr)
  show ?thesis by (rule take_first_Inr [OF r(2) run_write_persisted [OF r(1)]])
qed

lemma save_persists:
  assumes "ar_save t m self w = Some (Inr (Inr (n, obj)), w')"
  shows "obj = self \<or> persisted obj"
proof (cases "persisted self")
  case True
  then obtain p w1 where "task_bind (run_write t m (buildUpdate m (update_add_where p new_update) self True)) (\<lambda>r. take_first r self) w1
      = Some (Inr (Inr (n, obj)), w')"
    using assms by (auto simp: ar_save_def ar_update_def update_execute_def task_bind_Inr [where m = "task_of _"])
  then show ?thesis by (rule write_then_first)
next
  case False
  then have "task_bind (run_write t m (buildInsert m [self] True)) (\<lambda>r. take_first r self) w = Some (Inr (Inr (n, obj)), w')"
    using assms by (simp add: ar_save_def ar_insert_def insert_execute_def)
  then show ?thesis by (rule write_then_first)
qed

lemma destroy_resets: "ar_destroy t m self w = Some (Inr (Inr (n, obj)), w') \<Longrightarrow> \<not> persisted obj"
  by (auto simp: ar_destroy_def task_bind_Inr resetPersisted_def split: prod.splits)

end
