(* ===== verification/EventLoop.thy ===== *)
theory EventLoop
  imports Config "HOL-Library.Multiset"
begin

text \<open>
  The executor of a thread: \<open>rukh/src/core/Executor.cpp\<close>, \<open>rukh/include/rukh/core/Executor.hpp\<close>, and the
  awaitables that call it.

  A coroutine handle is a number, 0 is the null handle. What a resumed coroutine does is a parameter,
  \<open>resume\<close>: it gets the handle, the flag \<open>tl_timed_out\<close> and the executor, on which it may call the operations
  here. The kernel is a parameter as well: the events of \<open>epoll_wait\<close>, the completions of the ring, the
  number of free entries of the ring and the clock are the arguments of a turn of the loop. Memory that a
  file operation reads or writes is not modelled; the integer it reports to its caller is, under the number of
  its address. A turn is \<open>None\<close> when a null handle is resumed, or when resumed coroutines never stop
  making others ready.
\<close>

section \<open>State\<close>

type_synonym handle = nat

definition null_handle :: handle where
  "null_handle = 0"

text \<open>The conversion of a wider integer to \<open>int\<close>.\<close>

definition narrow :: "int \<Rightarrow> int" where
  "narrow v = (v + 2 ^ 31) mod 2 ^ 32 - 2 ^ 31"

record suspended_task =
  st_handle :: handle
  waitingForWrite :: bool
  suspensionSeq :: int

record task_deadline =
  dl_time :: int
  dl_fd :: int
  dl_seq :: int

datatype file_op = FileRead int nat nat nat | FileWrite int nat nat nat

record 'op pending_prep =
  prep_op :: 'op
  prep_userData :: nat
  prep_handle :: handle
  prep_result :: nat

record splice_op =
  srcFd :: int
  srcOffset :: int
  dstFd :: int
  dstOffset :: int
  splice_len :: nat

record pending_op =
  po_handle :: handle
  po_result :: nat

text \<open>
  \<open>interest\<close> is the table of the epoll instance (with write events or not), \<open>results\<close> are the integers behind the
  result pointers. The priority queue is a list in the order of the deadlines; entries with the same deadline are
  taken in the order they came, which the heap does not promise.
\<close>

record executor =
  interest :: "int \<Rightarrow> bool option"
  ownedTasks :: "handle list"
  ownedTaskMap :: "handle \<Rightarrow> nat option"
  readyQueue :: "(handle \<times> bool) list"
  finishedRoots :: "handle list"
  nextSeq :: nat
  suspendedTasks :: "int \<Rightarrow> suspended_task option"
  taskDeadlines :: "task_deadline list"
  writeInterested :: "int set"
  nextUserData :: nat
  pendingFileOps :: "nat \<Rightarrow> pending_op option"
  pendingFileOpPreps :: "file_op pending_prep list"
  pendingSpliceOps :: "nat \<Rightarrow> pending_op option"
  pendingSpliceOpPreps :: "splice_op pending_prep list"
  eventFd :: int
  poolResumeQueue :: "handle list"
  syntheticEventKey :: int
  wakeTime :: nat
  wakeUpQueue :: "int list list"
  results :: "nat \<Rightarrow> int"

definition MAX_WAKEUP_TURN :: nat where
  "MAX_WAKEUP_TURN = 10"

text \<open>\<open>EpollInstance::add\<close>, \<open>modify\<close> and \<open>remove\<close>: the kernel refuses a second \<open>ADD\<close> and a \<open>MOD\<close> without \<open>ADD\<close>.\<close>

definition fd_dec :: "int \<Rightarrow> string" where
  "fd_dec fd = (if fd < 0 then CHR ''-'' # to_dec (nat (- fd)) else to_dec (nat fd))"

definition epoll_add :: "int \<Rightarrow> executor \<Rightarrow> unit result \<times> executor" where
  "epoll_add fd ex = (if interest ex fd \<noteq> None then (Inl (EpollException (''Failed to add fd '' @ fd_dec fd @ '' to epoll'')), ex)
     else (Inr (), ex\<lparr>interest := (interest ex)(fd := Some False)\<rparr>))"

definition epoll_modify :: "int \<Rightarrow> bool \<Rightarrow> executor \<Rightarrow> unit result \<times> executor" where
  "epoll_modify fd wr ex = (if interest ex fd = None then (Inl (EpollException (''Failed to modify epoll, fd='' @ fd_dec fd)), ex)
     else (Inr (), ex\<lparr>interest := (interest ex)(fd := Some wr)\<rparr>))"

definition epoll_remove :: "int \<Rightarrow> executor \<Rightarrow> executor" where
  "epoll_remove fd ex = ex\<lparr>interest := (interest ex)(fd := None)\<rparr>"

definition epoll_addOrModify :: "int \<Rightarrow> bool \<Rightarrow> executor \<Rightarrow> unit result \<times> executor" where
  "epoll_addOrModify fd wr ex =
     (if interest ex fd \<noteq> None then epoll_modify fd wr ex else (Inr (), ex\<lparr>interest := (interest ex)(fd := Some wr)\<rparr>))"

text \<open>Creating the instance gives a descriptor or \<open>-1\<close>; waiting is repeated while signals interrupt it.\<close>

definition new_epoll :: "int \<Rightarrow> int result" where
  "new_epoll fd = (if fd = -1 then Inl (EpollException ''Failed to create epoll instance'') else Inr fd)"

datatype wait_answer = WaitEvents nat | WaitInterrupted | WaitFailed

fun epoll_wait :: "wait_answer list \<Rightarrow> nat result option" where
  "epoll_wait [] = None"
| "epoll_wait (a # as) =
     (case a of
        WaitEvents n \<Rightarrow> Some (Inr n)
      | WaitInterrupted \<Rightarrow> epoll_wait as
      | WaitFailed \<Rightarrow> Some (Inl (EpollException ''Failed to wait for events'')))"

lemma epoll_wait_interrupted: "epoll_wait (replicate n WaitInterrupted @ as) = epoll_wait as"
  by (induction n) simp_all

definition registerReadFd :: "int \<Rightarrow> executor \<Rightarrow> unit result \<times> executor" where
  "registerReadFd fd = epoll_add fd"

text \<open>The constructor; \<open>fd\<close> is the new eventfd.\<close>

definition new_executor :: "int \<Rightarrow> executor" where
  "new_executor fd = snd (registerReadFd fd \<lparr>interest = (\<lambda>_. None), ownedTasks = [], ownedTaskMap = (\<lambda>_. None), readyQueue = [], finishedRoots = [],
     nextSeq = 0, suspendedTasks = (\<lambda>_. None), taskDeadlines = [], writeInterested = {}, nextUserData = 0, pendingFileOps = (\<lambda>_. None),
     pendingFileOpPreps = [], pendingSpliceOps = (\<lambda>_. None), pendingSpliceOpPreps = [], eventFd = fd, poolResumeQueue = [], syntheticEventKey = -1,
     wakeTime = 0, wakeUpQueue = replicate MAX_WAKEUP_TURN [], results = (\<lambda>_. 0)\<rparr>)"

section \<open>Operations\<close>

definition spawn :: "handle \<Rightarrow> executor \<Rightarrow> executor" where
  "spawn h ex = (if h = null_handle then ex
     else ex\<lparr>ownedTaskMap := (ownedTaskMap ex)(h := Some (length (ownedTasks ex))), ownedTasks := ownedTasks ex @ [h],
            readyQueue := readyQueue ex @ [(h, False)]\<rparr>)"

definition unregister :: "int \<Rightarrow> executor \<Rightarrow> executor" where
  "unregister fd ex =
     (let ex1 = epoll_remove fd (ex\<lparr>writeInterested := writeInterested ex - {fd}\<rparr>)
      in ex1\<lparr>suspendedTasks := (suspendedTasks ex1)(fd := None)\<rparr>)"

definition post :: "handle \<Rightarrow> executor \<Rightarrow> executor" where
  "post h ex = ex\<lparr>poolResumeQueue := poolResumeQueue ex @ [h]\<rparr>"

definition enableWriteEvents :: "int \<Rightarrow> executor \<Rightarrow> unit result \<times> executor" where
  "enableWriteEvents fd ex =
     (if fd \<in> writeInterested ex then (Inr (), ex)
      else epoll_modify fd True (ex\<lparr>writeInterested := insert fd (writeInterested ex)\<rparr>))"

definition disableWriteEvents :: "int \<Rightarrow> executor \<Rightarrow> unit result \<times> executor" where
  "disableWriteEvents fd ex =
     (if fd \<notin> writeInterested ex then (Inr (), ex)
      else epoll_modify fd False (ex\<lparr>writeInterested := writeInterested ex - {fd}\<rparr>))"

text \<open>A coroutine waits under a key, with a deadline or without; an earlier one under the same key is replaced.\<close>

definition take_seq :: "executor \<Rightarrow> int \<times> executor" where
  "take_seq ex = (narrow (int (nextSeq ex)), ex\<lparr>nextSeq := sz_add (nextSeq ex) 1\<rparr>)"

definition suspend_until :: "int \<Rightarrow> handle \<Rightarrow> bool \<Rightarrow> int \<Rightarrow> executor \<Rightarrow> executor" where
  "suspend_until key h wr deadline ex =
     (case take_seq ex of (seq, ex1) \<Rightarrow>
        ex1\<lparr>suspendedTasks := (suspendedTasks ex1)(narrow key := Some \<lparr>st_handle = h, waitingForWrite = wr, suspensionSeq = seq\<rparr>),
            taskDeadlines := insort_key dl_time \<lparr>dl_time = deadline, dl_fd = key, dl_seq = seq\<rparr> (taskDeadlines ex1)\<rparr>)"

definition waitForRead :: "int \<Rightarrow> handle \<Rightarrow> int \<Rightarrow> executor \<Rightarrow> executor" where
  "waitForRead fd h deadline = suspend_until fd h False deadline"

definition waitForWrite :: "int \<Rightarrow> handle \<Rightarrow> int \<Rightarrow> executor \<Rightarrow> executor" where
  "waitForWrite fd h deadline = suspend_until fd h True deadline"

definition take_key :: "executor \<Rightarrow> int \<times> executor" where
  "take_key ex = (syntheticEventKey ex, ex\<lparr>syntheticEventKey := syntheticEventKey ex - 1\<rparr>)"

definition waitForEvent :: "handle \<Rightarrow> int \<Rightarrow> executor \<Rightarrow> int \<times> executor" where
  "waitForEvent h deadline ex = (case take_key ex of (key, ex1) \<Rightarrow> (key, suspend_until key h False deadline ex1))"

definition make_ready :: "handle \<Rightarrow> bool \<Rightarrow> executor \<Rightarrow> executor" where
  "make_ready h timedOut ex = ex\<lparr>readyQueue := readyQueue ex @ [(h, timedOut)]\<rparr>"

text \<open>The handle under a key becomes ready and stops waiting.\<close>

definition wake_waiting :: "int \<Rightarrow> suspended_task \<Rightarrow> bool \<Rightarrow> executor \<Rightarrow> executor" where
  "wake_waiting key s timedOut ex =
     (make_ready (st_handle s) timedOut ex)\<lparr>suspendedTasks := (suspendedTasks ex)(key := None)\<rparr>"

definition fireEvent :: "int \<Rightarrow> executor \<Rightarrow> executor" where
  "fireEvent key ex = (case suspendedTasks ex (narrow key) of None \<Rightarrow> ex | Some s \<Rightarrow> wake_waiting (narrow key) s False ex)"

definition wakeMeIn :: "nat \<Rightarrow> handle \<Rightarrow> executor \<Rightarrow> executor" where
  "wakeMeIn cycles h ex =
     (case take_seq ex of (seq, ex0) \<Rightarrow>
        case take_key ex0 of (key, ex1) \<Rightarrow>
          let bucket = sz_add (wakeTime ex1) cycles mod MAX_WAKEUP_TURN in
          ex1\<lparr>suspendedTasks := (suspendedTasks ex1)(narrow key := Some \<lparr>st_handle = h, waitingForWrite = False, suspensionSeq = seq\<rparr>),
              wakeUpQueue := (wakeUpQueue ex1)[bucket := wakeUpQueue ex1 ! bucket @ [key]]\<rparr>)"

definition submit_file_op :: "file_op \<Rightarrow> handle \<Rightarrow> nat \<Rightarrow> executor \<Rightarrow> executor" where
  "submit_file_op opn h resultPtr ex =
     ex\<lparr>pendingFileOpPreps := pendingFileOpPreps ex @ [\<lparr>prep_op = opn, prep_userData = nextUserData ex, prep_handle = h, prep_result = resultPtr\<rparr>],
        nextUserData := sz_add (nextUserData ex) 1\<rparr>"

definition submitFileRead :: "int \<Rightarrow> nat \<Rightarrow> nat \<Rightarrow> handle \<Rightarrow> nat \<Rightarrow> nat \<Rightarrow> executor \<Rightarrow> executor" where
  "submitFileRead fd buf len h resultPtr offset = submit_file_op (FileRead fd buf len offset) h resultPtr"

definition submitFileWrite :: "int \<Rightarrow> nat \<Rightarrow> nat \<Rightarrow> handle \<Rightarrow> nat \<Rightarrow> nat \<Rightarrow> executor \<Rightarrow> executor" where
  "submitFileWrite fd buf len h resultPtr offset = submit_file_op (FileWrite fd buf len offset) h resultPtr"

definition submitSplice :: "splice_op \<Rightarrow> handle \<Rightarrow> nat \<Rightarrow> executor \<Rightarrow> executor" where
  "submitSplice opn h resultPtr ex =
     ex\<lparr>pendingSpliceOpPreps := pendingSpliceOpPreps ex @ [\<lparr>prep_op = opn, prep_userData = nextUserData ex, prep_handle = h, prep_result = resultPtr\<rparr>],
        nextUserData := sz_add (nextUserData ex) 1\<rparr>"

text \<open>\<open>notifyTaskFinished\<close> calls it on the executor of the thread.\<close>

definition markRootFinished :: "handle \<Rightarrow> executor \<Rightarrow> executor" where
  "markRootFinished h ex = ex\<lparr>finishedRoots := finishedRoots ex @ [h]\<rparr>"

text \<open>The awaitables. \<open>WriteAwaitable\<close> is \<open>noexcept\<close>: an \<open>EpollException\<close> in it ends the program, \<open>None\<close> here.\<close>

definition read_awaitable_suspend :: "int \<Rightarrow> int \<Rightarrow> handle \<Rightarrow> executor \<Rightarrow> executor" where
  "read_awaitable_suspend fd deadline h ex = waitForRead fd h deadline ex"

definition write_awaitable_suspend :: "int \<Rightarrow> int \<Rightarrow> handle \<Rightarrow> executor \<Rightarrow> executor option" where
  "write_awaitable_suspend fd deadline h ex =
     (case enableWriteEvents fd ex of
        (Inl e, _) \<Rightarrow> None
      | (Inr _, ex1) \<Rightarrow> Some (waitForWrite fd h deadline ex1))"

definition write_awaitable_resume :: "int \<Rightarrow> executor \<Rightarrow> executor option" where
  "write_awaitable_resume fd ex = (case disableWriteEvents fd ex of (Inl e, _) \<Rightarrow> None | (Inr _, ex1) \<Rightarrow> Some ex1)"

definition wake_in_suspend :: "int \<Rightarrow> handle \<Rightarrow> executor \<Rightarrow> executor" where
  "wake_in_suspend eventLoopCycles h ex = wakeMeIn (nat (eventLoopCycles mod 256)) h ex"

definition splice_suspend :: "splice_op \<Rightarrow> nat \<Rightarrow> handle \<Rightarrow> executor \<Rightarrow> executor" where
  "splice_suspend opn result h ex = submitSplice opn h result ex"

text \<open>\<open>FileReadAwaitable\<close> and \<open>FileWriteAwaitable\<close>.\<close>

definition file_read_suspend :: "int \<Rightarrow> nat \<Rightarrow> nat \<Rightarrow> nat \<Rightarrow> nat \<Rightarrow> handle \<Rightarrow> executor \<Rightarrow> executor" where
  "file_read_suspend fd buf len offset result h ex = submitFileRead fd buf len h result offset ex"

definition file_write_suspend :: "int \<Rightarrow> nat \<Rightarrow> nat \<Rightarrow> nat \<Rightarrow> nat \<Rightarrow> handle \<Rightarrow> executor \<Rightarrow> executor" where
  "file_write_suspend fd buf len offset result h ex = submitFileWrite fd buf len h result offset ex"

section \<open>A turn of the loop\<close>

text \<open>A completion of the ring: the result is stored and the waiting coroutine becomes ready.\<close>

definition complete :: "nat \<times> int \<Rightarrow> executor \<Rightarrow> executor" where
  "complete c ex =
     (case c of (userData, res) \<Rightarrow>
        case pendingFileOps ex userData of
          Some p \<Rightarrow> (make_ready (po_handle p) False ex)\<lparr>results := (results ex)(po_result p := res),
              pendingFileOps := (pendingFileOps ex)(userData := None)\<rparr>
        | None \<Rightarrow>
            (case pendingSpliceOps ex userData of
               Some p \<Rightarrow> (make_ready (po_handle p) False ex)\<lparr>results := (results ex)(po_result p := res),
                   pendingSpliceOps := (pendingSpliceOps ex)(userData := None)\<rparr>
             | None \<Rightarrow> ex))"

definition drainCompletions :: "(nat \<times> int) list \<Rightarrow> executor \<Rightarrow> executor" where
  "drainCompletions cs ex = fold complete cs ex"

text \<open>The coroutines that ended are taken out of the vector that owns them, the last one filling the gap.\<close>

definition finish_root :: "handle \<Rightarrow> executor \<Rightarrow> executor" where
  "finish_root addr ex =
     (case ownedTaskMap ex addr of
        None \<Rightarrow> ex
      | Some index \<Rightarrow>
          let last_index = length (ownedTasks ex) - 1;
              ex1 = (if index \<noteq> last_index
                     then ex\<lparr>ownedTasks := (ownedTasks ex)[index := ownedTasks ex ! last_index],
                             ownedTaskMap := (ownedTaskMap ex)(ownedTasks ex ! last_index := Some index)\<rparr>
                     else ex)
          in ex1\<lparr>ownedTasks := butlast (ownedTasks ex1), ownedTaskMap := (ownedTaskMap ex1)(addr := None)\<rparr>)"

definition finish_roots :: "executor \<Rightarrow> executor" where
  "finish_roots ex = fold finish_root (rev (finishedRoots ex)) (ex\<lparr>finishedRoots := []\<rparr>)"

partial_function (option) run_ready ::
  "(handle \<Rightarrow> bool \<Rightarrow> executor \<Rightarrow> 'w \<Rightarrow> executor \<times> 'w) \<Rightarrow> executor \<Rightarrow> 'w \<Rightarrow> (executor \<times> 'w) option" where
  "run_ready resume ex w =
     (case readyQueue ex of
        [] \<Rightarrow> Some (ex, w)
      | (h, timedOut) # q \<Rightarrow>
          if h = null_handle then None
          else (case resume h timedOut (ex\<lparr>readyQueue := q\<rparr>) w of (ex1, w1) \<Rightarrow> run_ready resume (finish_roots ex1) w1))"

record epoll_event =
  ev_fd :: int
  isError :: bool
  readReady :: bool
  writeReady :: bool

definition shouldWake :: "suspended_task \<Rightarrow> epoll_event \<Rightarrow> bool" where
  "shouldWake s e \<longleftrightarrow> isError e \<or> waitingForWrite s \<and> writeReady e \<or> \<not> waitingForWrite s \<and> readReady e"

definition on_event :: "epoll_event \<Rightarrow> executor \<Rightarrow> executor" where
  "on_event e ex =
     (if ev_fd e = eventFd ex
      then ex\<lparr>readyQueue := readyQueue ex @ map (\<lambda>h. (h, False)) (poolResumeQueue ex), poolResumeQueue := []\<rparr>
      else (case suspendedTasks ex (ev_fd e) of
              None \<Rightarrow> ex
            | Some s \<Rightarrow> if shouldWake s e then wake_waiting (ev_fd e) s False ex else ex))"

definition expire :: "task_deadline \<Rightarrow> executor \<Rightarrow> executor" where
  "expire d ex =
     (case suspendedTasks ex (narrow (dl_fd d)) of
        None \<Rightarrow> ex
      | Some s \<Rightarrow> if suspensionSeq s \<noteq> dl_seq d then ex else wake_waiting (narrow (dl_fd d)) s True ex)"

definition sweep_deadlines :: "int \<Rightarrow> executor \<Rightarrow> executor" where
  "sweep_deadlines timeNow ex =
     fold expire (takeWhile (\<lambda>d. dl_time d \<le> timeNow) (taskDeadlines ex))
       (ex\<lparr>taskDeadlines := dropWhile (\<lambda>d. dl_time d \<le> timeNow) (taskDeadlines ex)\<rparr>)"

definition pending_of :: "'op pending_prep \<Rightarrow> pending_op" where
  "pending_of p = \<lparr>po_handle = prep_handle p, po_result = prep_result p\<rparr>"

definition start_op :: "'op pending_prep \<Rightarrow> (nat \<Rightarrow> pending_op option) \<Rightarrow> nat \<Rightarrow> pending_op option" where
  "start_op p m = m(prep_userData p := Some (pending_of p))"

text \<open>The prepared operations enter the ring while it has free entries.\<close>

definition prepare_file_ops :: "nat \<Rightarrow> executor \<Rightarrow> executor" where
  "prepare_file_ops room ex =
     ex\<lparr>pendingFileOps := fold start_op (take room (pendingFileOpPreps ex)) (pendingFileOps ex),
        pendingFileOpPreps := drop room (pendingFileOpPreps ex)\<rparr>"

definition prepare_splice_ops :: "nat \<Rightarrow> executor \<Rightarrow> executor" where
  "prepare_splice_ops room ex =
     ex\<lparr>pendingSpliceOps := fold start_op (take room (pendingSpliceOpPreps ex)) (pendingSpliceOps ex),
        pendingSpliceOpPreps := drop room (pendingSpliceOpPreps ex)\<rparr>"

definition prepare_ops :: "nat \<Rightarrow> executor \<Rightarrow> executor" where
  "prepare_ops room ex =
     prepare_splice_ops (room - length (pendingFileOpPreps ex)) (prepare_file_ops room ex)"

text \<open>Looking up a key that is not there makes a task with a null handle. The bucket is not emptied.\<close>

definition wake_key :: "int \<Rightarrow> executor \<Rightarrow> executor" where
  "wake_key key ex =
     (make_ready (case suspendedTasks ex (narrow key) of Some s \<Rightarrow> st_handle s | None \<Rightarrow> null_handle) False ex)
       \<lparr>suspendedTasks := (suspendedTasks ex)(narrow key := None)\<rparr>"

definition wake_bucket :: "executor \<Rightarrow> executor" where
  "wake_bucket ex =
     (let ex1 = fold wake_key (wakeUpQueue ex ! (wakeTime ex mod MAX_WAKEUP_TURN)) ex
      in ex1\<lparr>wakeTime := sz_add (wakeTime ex1) 1\<rparr>)"

text \<open>The timeout of \<open>epoll_wait\<close>; \<open>wait_ms\<close> is \<open>EPOLL_WAIT_TIMEOUT_S * 1000\<close>.\<close>

definition epoll_timeout_ms :: "int \<Rightarrow> executor \<Rightarrow> int" where
  "epoll_timeout_ms wait_ms ex =
     (if pendingFileOpPreps ex = [] \<and> (\<forall>u. pendingFileOps ex u = None) \<and> pendingSpliceOpPreps ex = [] \<and> (\<forall>u. pendingSpliceOps ex u = None)
      then wait_ms else 0)"

text \<open>What the kernel and the clock give in one turn.\<close>

record turn =
  turn_shutdown :: bool
  turn_start :: int
  completions :: "(nat \<times> int) list"
  turn_events :: "epoll_event list"
  turn_now :: int
  ring_room :: nat

definition after_resumes :: "turn \<Rightarrow> executor \<Rightarrow> executor" where
  "after_resumes t ex = wake_bucket (prepare_ops (ring_room t) (sweep_deadlines (turn_now t) (fold on_event (turn_events t) ex)))"

definition loop_turn :: "(handle \<Rightarrow> bool \<Rightarrow> executor \<Rightarrow> 'w \<Rightarrow> executor \<times> 'w) \<Rightarrow> turn \<Rightarrow> executor \<Rightarrow> 'w \<Rightarrow> (executor \<times> 'w) option" where
  "loop_turn resume t ex w =
     (case run_ready resume (drainCompletions (completions t) ex) w of
        None \<Rightarrow> None
      | Some (ex1, w1) \<Rightarrow> Some (after_resumes t ex1, w1))"

datatype 'w run_result = GracefulShutdown executor 'w | ShutdownTimeout executor 'w | StillRunning executor 'w

text \<open>The loop over the turns that the environment gives; \<open>deadline\<close> is the shutdown deadline once it is set.\<close>

fun executor_run :: "(handle \<Rightarrow> bool \<Rightarrow> executor \<Rightarrow> 'w \<Rightarrow> executor \<times> 'w) \<Rightarrow> server_config \<Rightarrow> turn list \<Rightarrow> int option \<Rightarrow> executor \<Rightarrow> 'w \<Rightarrow>
    'w run_result option" where
  "executor_run resume cfg [] deadline ex w = Some (StillRunning ex w)"
| "executor_run resume cfg (t # ts) deadline ex w =
     (let deadline1 = (if \<not> turn_shutdown t then deadline
           else (case deadline of None \<Rightarrow> Some (turn_start t + int (GRACEFUL_SHUTDOWN_TIMEOUT_S cfg)) | Some d \<Rightarrow> Some d)) in
      if turn_shutdown t \<and> ownedTasks ex = [] then Some (GracefulShutdown ex w)
      else if turn_shutdown t \<and> turn_start t > the deadline1 then Some (ShutdownTimeout ex w)
      else
        (case loop_turn resume t ex w of
           None \<Rightarrow> None
         | Some (ex1, w1) \<Rightarrow> executor_run resume cfg ts deadline1 ex1 w1))"

section \<open>Lemmas: no coroutine is lost or resumed twice\<close>

text \<open>The values of a finite map, with their multiplicities.\<close>

definition map_values :: "('v \<Rightarrow> 'b) \<Rightarrow> ('k \<Rightarrow> 'v option) \<Rightarrow> 'b multiset" where
  "map_values f m = image_mset (\<lambda>k. f (the (m k))) (mset_set (dom m))"

lemma map_values_cong: "(\<And>k. k \<in> dom m \<Longrightarrow> m k = m' k) \<Longrightarrow> dom m = dom m' \<Longrightarrow> finite (dom m) \<Longrightarrow> map_values f m = map_values f m'"
  unfolding map_values_def by (auto intro!: image_mset_cong)

lemma map_values_remove:
  assumes "finite (dom m)" "m k = Some v"
  shows "map_values f m = add_mset (f v) (map_values f (m(k := None)))"
proof -
  have "dom m = insert k (dom m - {k})" using assms(2) by auto
  moreover have "image_mset (\<lambda>j. f (the (m j))) (mset_set (dom m - {k})) = image_mset (\<lambda>j. f (the ((m(k := None)) j))) (mset_set (dom m - {k}))"
    using assms(1) by (intro image_mset_cong) auto
  ultimately show ?thesis using assms mset_set.insert [of "dom m - {k}" k] by (simp add: map_values_def)
qed

lemma map_values_add:
  assumes "finite (dom m)" "m k = None"
  shows "map_values f (m(k := Some v)) = add_mset (f v) (map_values f m)"
  using map_values_remove [of "m(k := Some v)" k v f] assms by (simp add: fun_upd_idem)

text \<open>All the handles that the executor holds, ready, waiting or behind an operation.\<close>

definition held :: "executor \<Rightarrow> handle multiset" where
  "held ex = mset (map fst (readyQueue ex)) + map_values st_handle (suspendedTasks ex)
     + map_values po_handle (pendingFileOps ex) + map_values po_handle (pendingSpliceOps ex)
     + mset (map prep_handle (pendingFileOpPreps ex)) + mset (map prep_handle (pendingSpliceOpPreps ex)) + mset (poolResumeQueue ex)"

text \<open>Operations under way and those still to be prepared have different numbers.\<close>

definition op_ids :: "executor \<Rightarrow> nat list" where
  "op_ids ex = map prep_userData (pendingFileOpPreps ex) @ map prep_userData (pendingSpliceOpPreps ex)"

definition executor_ok :: "executor \<Rightarrow> bool" where
  "executor_ok ex \<longleftrightarrow> finite (dom (suspendedTasks ex)) \<and> finite (dom (pendingFileOps ex)) \<and> finite (dom (pendingSpliceOps ex))
     \<and> distinct (op_ids ex) \<and> dom (pendingFileOps ex) \<inter> dom (pendingSpliceOps ex) = {}
     \<and> set (op_ids ex) \<inter> (dom (pendingFileOps ex) \<union> dom (pendingSpliceOps ex)) = {}"

text \<open>A step that keeps both.\<close>

definition conserves :: "(executor \<Rightarrow> executor) \<Rightarrow> bool" where
  "conserves f \<longleftrightarrow> (\<forall>ex. executor_ok ex \<longrightarrow> executor_ok (f ex) \<and> held (f ex) = held ex)"

lemma conservesI: "(\<And>ex. executor_ok ex \<Longrightarrow> executor_ok (f ex) \<and> held (f ex) = held ex) \<Longrightarrow> conserves f"
  by (simp add: conserves_def)

lemma conservesD: "conserves f \<Longrightarrow> executor_ok ex \<Longrightarrow> executor_ok (f ex) \<and> held (f ex) = held ex"
  by (simp add: conserves_def)

lemma conserves_fold: "(\<And>x. x \<in> set xs \<Longrightarrow> conserves (f x)) \<Longrightarrow> conserves (fold f xs)"
  by (induction xs) (auto simp: conserves_def)

lemma wake_waiting_conserves:
  assumes "executor_ok ex" "suspendedTasks ex key = Some s"
  shows "executor_ok (wake_waiting key s b ex) \<and> held (wake_waiting key s b ex) = held ex"
proof -
  have "finite (dom (suspendedTasks ex))" using assms(1) by (simp add: executor_ok_def)
  then show ?thesis using assms map_values_remove [of "suspendedTasks ex" key s st_handle]
    by (simp add: wake_waiting_def make_ready_def held_def executor_ok_def op_ids_def)
qed

lemma complete_conserves: "conserves (complete c)"
proof (rule conservesI)
  fix ex assume ok: "executor_ok ex"
  obtain u r where c: "c = (u, r)" by (cases c)
  have f: "finite (dom (pendingFileOps ex))" "finite (dom (pendingSpliceOps ex))" using ok by (simp_all add: executor_ok_def)
  show "executor_ok (complete c ex) \<and> held (complete c ex) = held ex"
  proof (cases "pendingFileOps ex u")
    case (Some p)
    then show ?thesis using ok map_values_remove [OF f(1) Some, of po_handle]
      by (auto simp: c complete_def make_ready_def held_def executor_ok_def op_ids_def)
  next
    case None
    show ?thesis
    proof (cases "pendingSpliceOps ex u")
      case (Some p)
      then show ?thesis using None ok map_values_remove [OF f(2) Some, of po_handle]
        by (auto simp: c complete_def make_ready_def held_def executor_ok_def op_ids_def)
    qed (use None ok in \<open>simp add: c complete_def\<close>)
  qed
qed

lemma on_event_conserves: "conserves (on_event e)"
proof (rule conservesI)
  fix ex assume ok: "executor_ok ex"
  show "executor_ok (on_event e ex) \<and> held (on_event e ex) = held ex"
  proof (cases "ev_fd e = eventFd ex")
    case True
    then show ?thesis using ok by (simp add: on_event_def held_def executor_ok_def op_ids_def comp_def)
  qed (use ok wake_waiting_conserves [OF ok] in \<open>auto simp: on_event_def split: option.splits\<close>)
qed

lemma expire_conserves: "conserves (expire d)"
  using wake_waiting_conserves by (intro conservesI) (auto simp: expire_def split: option.splits)

lemma sweep_conserves: "conserves (sweep_deadlines timeNow)"
proof (rule conservesI)
  fix ex assume ok: "executor_ok ex"
  let ?ex = "ex\<lparr>taskDeadlines := dropWhile (\<lambda>d. dl_time d \<le> timeNow) (taskDeadlines ex)\<rparr>"
  have "executor_ok ?ex \<and> held ?ex = held ex" using ok by (simp add: executor_ok_def held_def op_ids_def)
  moreover have "conserves (fold expire (takeWhile (\<lambda>d. dl_time d \<le> timeNow) (taskDeadlines ex)))"
    by (intro conserves_fold expire_conserves)
  ultimately show "executor_ok (sweep_deadlines timeNow ex) \<and> held (sweep_deadlines timeNow ex) = held ex"
    unfolding sweep_deadlines_def by (auto dest: conservesD)
qed

lemma start_all:
  assumes "distinct (map prep_userData ps)" "set (map prep_userData ps) \<inter> dom m = {}" "finite (dom m)"
  shows "map_values po_handle (fold start_op ps m) = mset (map prep_handle ps) + map_values po_handle m
    \<and> dom (fold start_op ps m) = set (map prep_userData ps) \<union> dom m"
  using assms
proof (induction ps arbitrary: m)
  case (Cons p ps)
  let ?m = "start_op p m"
  have "m (prep_userData p) = None" using Cons.prems(2) by auto
  then have "map_values po_handle ?m = add_mset (prep_handle p) (map_values po_handle m)"
    using map_values_add [OF Cons.prems(3), of "prep_userData p" po_handle "pending_of p"] by (simp add: pending_of_def start_op_def)
  moreover have "dom ?m = insert (prep_userData p) (dom m)" by (simp add: start_op_def)
  moreover from this have "set (map prep_userData ps) \<inter> dom ?m = {}" "finite (dom ?m)" "distinct (map prep_userData ps)"
    using Cons.prems by auto
  then have "map_values po_handle (fold start_op ps ?m) = mset (map prep_handle ps) + map_values po_handle ?m
    \<and> dom (fold start_op ps ?m) = set (map prep_userData ps) \<union> dom ?m"
    using Cons.IH by blast
  ultimately show ?case by simp
qed simp

lemma take_drop_mset: "mset (map f (take n xs)) + mset (map f (drop n xs)) = mset (map f xs)"
  by (metis append_take_drop_id map_append mset_append)

lemma take_drop_ids:
  assumes "distinct (map f xs @ ys)"
  shows "distinct (map f (take n xs))" "distinct (map f (drop n xs) @ ys)" "set (map f (take n xs)) \<inter> set (map f (drop n xs) @ ys) = {}"
proof -
  have "map f xs = map f (take n xs) @ map f (drop n xs)" by (metis append_take_drop_id map_append)
  then show "distinct (map f (take n xs))" "distinct (map f (drop n xs) @ ys)" "set (map f (take n xs)) \<inter> set (map f (drop n xs) @ ys) = {}"
    using assms by auto
qed

lemma prepare_file_conserves: "conserves (prepare_file_ops room)"
proof (rule conservesI)
  fix ex assume ok: "executor_ok ex"
  let ?p = "pendingFileOpPreps ex"
  have d: "distinct (map prep_userData ?p @ map prep_userData (pendingSpliceOpPreps ex))" using ok by (simp add: executor_ok_def op_ids_def)
  have sub: "set (map prep_userData (take room ?p)) \<subseteq> set (op_ids ex)" "set (map prep_userData (drop room ?p)) \<subseteq> set (op_ids ex)"
    by (auto simp: op_ids_def dest: in_set_takeD in_set_dropD)
  have free: "set (map prep_userData (take room ?p)) \<inter> dom (pendingFileOps ex) = {}" and fin: "finite (dom (pendingFileOps ex))"
    using sub(1) ok unfolding executor_ok_def by blast+
  have s: "map_values po_handle (fold start_op (take room ?p) (pendingFileOps ex))
        = mset (map prep_handle (take room ?p)) + map_values po_handle (pendingFileOps ex)"
    "dom (fold start_op (take room ?p) (pendingFileOps ex))
        = set (map prep_userData (take room ?p)) \<union> dom (pendingFileOps ex)"
    using start_all [OF take_drop_ids(1) [OF d, of room] free fin] by simp_all
  have "executor_ok (prepare_file_ops room ex)"
  proof -
    have ids: "op_ids (prepare_file_ops room ex) = map prep_userData (drop room ?p) @ map prep_userData (pendingSpliceOpPreps ex)" by (simp add: prepare_file_ops_def op_ids_def)
    have "distinct (op_ids (prepare_file_ops room ex))" using take_drop_ids(2) [OF d, of room] unfolding ids by auto
    moreover have "set (op_ids (prepare_file_ops room ex)) \<subseteq> set (op_ids ex)"
      "set (op_ids (prepare_file_ops room ex)) \<inter> set (map prep_userData (take room ?p)) = {}"
      using take_drop_ids(3) [OF d, of room] sub(2) unfolding ids by (auto simp: op_ids_def)
    moreover have "dom (pendingFileOps (prepare_file_ops room ex)) = set (map prep_userData (take room ?p)) \<union> dom (pendingFileOps ex)"
      "suspendedTasks (prepare_file_ops room ex) = suspendedTasks ex" "pendingSpliceOps (prepare_file_ops room ex) = pendingSpliceOps ex"
      unfolding prepare_file_ops_def using s(2) by simp_all
    ultimately show ?thesis using ok sub(1) fin unfolding executor_ok_def by (simp only: finite_Un finite_set simp_thms) blast
  qed
  moreover have "held (prepare_file_ops room ex) = held ex"
    using take_drop_mset [of prep_handle room ?p] by (simp add: prepare_file_ops_def held_def s(1) ac_simps)
  ultimately show "executor_ok (prepare_file_ops room ex) \<and> held (prepare_file_ops room ex) = held ex" by simp
qed

lemma prepare_splice_conserves: "conserves (prepare_splice_ops room)"
proof (rule conservesI)
  fix ex assume ok: "executor_ok ex"
  let ?p = "pendingSpliceOpPreps ex"
  have d: "distinct (map prep_userData ?p @ map prep_userData (pendingFileOpPreps ex))" using ok by (auto simp: executor_ok_def op_ids_def)
  have sub: "set (map prep_userData (take room ?p)) \<subseteq> set (op_ids ex)" "set (map prep_userData (drop room ?p)) \<subseteq> set (op_ids ex)"
    by (auto simp: op_ids_def dest: in_set_takeD in_set_dropD)
  have free: "set (map prep_userData (take room ?p)) \<inter> dom (pendingSpliceOps ex) = {}" and fin: "finite (dom (pendingSpliceOps ex))"
    using sub(1) ok unfolding executor_ok_def by blast+
  have s: "map_values po_handle (fold start_op (take room ?p) (pendingSpliceOps ex))
        = mset (map prep_handle (take room ?p)) + map_values po_handle (pendingSpliceOps ex)"
    "dom (fold start_op (take room ?p) (pendingSpliceOps ex))
        = set (map prep_userData (take room ?p)) \<union> dom (pendingSpliceOps ex)"
    using start_all [OF take_drop_ids(1) [OF d, of room] free fin] by simp_all
  have "executor_ok (prepare_splice_ops room ex)"
  proof -
    have ids: "op_ids (prepare_splice_ops room ex) = map prep_userData (pendingFileOpPreps ex) @ map prep_userData (drop room ?p)" by (simp add: prepare_splice_ops_def op_ids_def)
    have "distinct (op_ids (prepare_splice_ops room ex))" using take_drop_ids(2) [OF d, of room] unfolding ids by auto
    moreover have "set (op_ids (prepare_splice_ops room ex)) \<subseteq> set (op_ids ex)"
      "set (op_ids (prepare_splice_ops room ex)) \<inter> set (map prep_userData (take room ?p)) = {}"
      using take_drop_ids(3) [OF d, of room] sub(2) unfolding ids by (auto simp: op_ids_def)
    moreover have "dom (pendingSpliceOps (prepare_splice_ops room ex)) = set (map prep_userData (take room ?p)) \<union> dom (pendingSpliceOps ex)"
      "suspendedTasks (prepare_splice_ops room ex) = suspendedTasks ex" "pendingFileOps (prepare_splice_ops room ex) = pendingFileOps ex"
      unfolding prepare_splice_ops_def using s(2) by simp_all
    ultimately show ?thesis using ok sub(1) fin unfolding executor_ok_def by (simp only: finite_Un finite_set simp_thms) blast
  qed
  moreover have "held (prepare_splice_ops room ex) = held ex"
    using take_drop_mset [of prep_handle room ?p] by (simp add: prepare_splice_ops_def held_def s(1) ac_simps)
  ultimately show "executor_ok (prepare_splice_ops room ex) \<and> held (prepare_splice_ops room ex) = held ex" by simp
qed

lemma prepare_ops_conserves: "conserves (prepare_ops room)"
  using prepare_file_conserves prepare_splice_conserves by (fastforce simp: conserves_def prepare_ops_def)

text \<open>The bucket of this turn, when it is visited for the first time: its keys wait, and nothing else wakes them in this turn.\<close>

definition bucket_of :: "executor \<Rightarrow> int list" where
  "bucket_of ex = wakeUpQueue ex ! (wakeTime ex mod MAX_WAKEUP_TURN)"

definition first_visit :: "turn \<Rightarrow> executor \<Rightarrow> bool" where
  "first_visit t ex \<longleftrightarrow> distinct (map narrow (bucket_of ex))
     \<and> (\<forall>k \<in> narrow ` set (bucket_of ex). suspendedTasks ex k \<noteq> None \<and> k \<notin> ev_fd ` set (turn_events t)
          \<and> k \<notin> (\<lambda>d. narrow (dl_fd d)) ` set (taskDeadlines ex))"

lemma wake_keys_conserve:
  "executor_ok ex \<Longrightarrow> distinct (map narrow ks) \<Longrightarrow> \<forall>k \<in> narrow ` set ks. suspendedTasks ex k \<noteq> None \<Longrightarrow>
     executor_ok (fold wake_key ks ex) \<and> held (fold wake_key ks ex) = held ex"
proof (induction ks arbitrary: ex)
  case (Cons k ks)
  obtain s where s: "suspendedTasks ex (narrow k) = Some s" using Cons.prems(3) by auto
  then have w: "wake_key k ex = wake_waiting (narrow k) s False ex" by (simp add: wake_key_def wake_waiting_def)
  have nk: "narrow k \<notin> narrow ` set ks" using Cons.prems(2) by simp
  have "\<forall>j \<in> narrow ` set ks. suspendedTasks (wake_key k ex) j \<noteq> None"
  proof
    fix j assume j: "j \<in> narrow ` set ks"
    then have "j \<noteq> narrow k" using nk by blast
    moreover have "suspendedTasks ex j \<noteq> None" using j Cons.prems(3) by auto
    ultimately show "suspendedTasks (wake_key k ex) j \<noteq> None" by (simp add: w wake_waiting_def make_ready_def)
  qed
  then show ?case using Cons.IH [of "wake_key k ex"] Cons.prems(1,2) wake_waiting_conserves [OF Cons.prems(1) s, of False] by (simp add: w)
qed simp

lemma wake_bucket_conserves:
  assumes "executor_ok ex" "distinct (map narrow (bucket_of ex))" "\<forall>k \<in> narrow ` set (bucket_of ex). suspendedTasks ex k \<noteq> None"
  shows "executor_ok (wake_bucket ex) \<and> held (wake_bucket ex) = held ex"
  using wake_keys_conserve [OF assms] by (simp add: wake_bucket_def Let_def bucket_of_def executor_ok_def held_def op_ids_def)

lemma on_event_frame [simp]:
  "taskDeadlines (on_event e ex) = taskDeadlines ex" "wakeUpQueue (on_event e ex) = wakeUpQueue ex" "wakeTime (on_event e ex) = wakeTime ex"
  "k \<noteq> ev_fd e \<Longrightarrow> suspendedTasks (on_event e ex) k = suspendedTasks ex k"
  by (auto simp: on_event_def wake_waiting_def make_ready_def split: option.splits)

lemma on_events_frame [simp]:
  "taskDeadlines (fold on_event es ex) = taskDeadlines ex" "wakeUpQueue (fold on_event es ex) = wakeUpQueue ex"
  "wakeTime (fold on_event es ex) = wakeTime ex"
  "k \<notin> ev_fd ` set es \<Longrightarrow> suspendedTasks (fold on_event es ex) k = suspendedTasks ex k"
  by (induction es arbitrary: ex) auto

lemma expire_frame [simp]:
  "wakeUpQueue (expire d ex) = wakeUpQueue ex" "wakeTime (expire d ex) = wakeTime ex"
  "k \<noteq> narrow (dl_fd d) \<Longrightarrow> suspendedTasks (expire d ex) k = suspendedTasks ex k"
  by (auto simp: expire_def wake_waiting_def make_ready_def split: option.splits)

lemma expires_frame [simp]:
  "wakeUpQueue (fold expire ds ex) = wakeUpQueue ex" "wakeTime (fold expire ds ex) = wakeTime ex"
  "k \<notin> (\<lambda>d. narrow (dl_fd d)) ` set ds \<Longrightarrow> suspendedTasks (fold expire ds ex) k = suspendedTasks ex k"
  by (induction ds arbitrary: ex) auto

lemma sweep_frame [simp]:
  "wakeUpQueue (sweep_deadlines n ex) = wakeUpQueue ex" "wakeTime (sweep_deadlines n ex) = wakeTime ex"
  "k \<notin> (\<lambda>d. narrow (dl_fd d)) ` set (taskDeadlines ex) \<Longrightarrow> suspendedTasks (sweep_deadlines n ex) k = suspendedTasks ex k"
proof -
  assume "k \<notin> (\<lambda>d. narrow (dl_fd d)) ` set (taskDeadlines ex)"
  then have "k \<notin> (\<lambda>d. narrow (dl_fd d)) ` set (takeWhile (\<lambda>d. dl_time d \<le> n) (taskDeadlines ex))"
    by (auto dest: set_takeWhileD)
  then show "suspendedTasks (sweep_deadlines n ex) k = suspendedTasks ex k" by (simp add: sweep_deadlines_def)
qed (simp_all add: sweep_deadlines_def)

lemma prepare_frame [simp]:
  "wakeUpQueue (prepare_ops n ex) = wakeUpQueue ex" "wakeTime (prepare_ops n ex) = wakeTime ex" "suspendedTasks (prepare_ops n ex) = suspendedTasks ex"
  by (simp_all add: prepare_ops_def prepare_file_ops_def prepare_splice_ops_def)

text \<open>
  Every coroutine stays held exactly once through a turn. A bucket that was visited before may make null handles ready, at most
  one for each of its keys, and changes nothing else.
\<close>

lemma wake_key_holds:
  assumes "executor_ok ex"
  shows "executor_ok (wake_key k ex)" "\<exists>n \<le> 1. held (wake_key k ex) = held ex + replicate_mset n null_handle"
proof -
  show "executor_ok (wake_key k ex)" using assms by (auto simp: wake_key_def make_ready_def executor_ok_def op_ids_def)
  show "\<exists>n \<le> 1. held (wake_key k ex) = held ex + replicate_mset n null_handle"
  proof (cases "suspendedTasks ex (narrow k)")
    case None
    then have "held (wake_key k ex) = held ex + replicate_mset 1 null_handle"
      by (simp add: wake_key_def make_ready_def held_def fun_upd_idem)
    then show ?thesis by blast
  next
    case (Some s)
    then have "wake_key k ex = wake_waiting (narrow k) s False ex" by (simp add: wake_key_def wake_waiting_def)
    then show ?thesis using wake_waiting_conserves [OF assms Some] by (intro exI [of _ 0]) simp
  qed
qed

lemma wake_keys_hold:
  "executor_ok ex \<Longrightarrow> executor_ok (fold wake_key ks ex) \<and> (\<exists>n \<le> length ks. held (fold wake_key ks ex) = held ex + replicate_mset n null_handle)"
proof (induction ks arbitrary: ex)
  case (Cons k ks)
  obtain n where n: "n \<le> 1" "held (wake_key k ex) = held ex + replicate_mset n null_handle"
    using wake_key_holds(2) [OF Cons.prems] by blast
  obtain m where m: "m \<le> length ks" "held (fold wake_key ks (wake_key k ex)) = held (wake_key k ex) + replicate_mset m null_handle"
    and ok: "executor_ok (fold wake_key ks (wake_key k ex))"
    using Cons.IH [OF wake_key_holds(1) [OF Cons.prems]] by blast
  have "held (fold wake_key (k # ks) ex) = held ex + replicate_mset (n + m) null_handle" using n(2) m(2) by (simp add: count_inject [symmetric] fun_eq_iff)
  then show ?case using n(1) m(1) ok by (intro conjI exI [of _ "n + m"]) simp_all
qed (simp add: exI [of _ 0])

lemma wake_bucket_holds:
  assumes "executor_ok ex"
  shows "executor_ok (wake_bucket ex) \<and> (\<exists>n \<le> length (bucket_of ex). held (wake_bucket ex) = held ex + replicate_mset n null_handle)"
  using wake_keys_hold [OF assms] by (simp add: wake_bucket_def Let_def bucket_of_def executor_ok_def held_def op_ids_def)

lemma turn_conserves:
  assumes "executor_ok ex"
  shows "executor_ok (after_resumes t ex)"
    "\<exists>n \<le> length (bucket_of ex). held (after_resumes t ex) = held ex + replicate_mset n null_handle"
    "first_visit t ex \<Longrightarrow> held (after_resumes t ex) = held ex"
proof -
  define ex1 where "ex1 = prepare_ops (ring_room t) (sweep_deadlines (turn_now t) (fold on_event (turn_events t) ex))"
  have "conserves (fold on_event (turn_events t))" by (intro conserves_fold on_event_conserves)
  from conservesD [OF this assms] have 1: "executor_ok (fold on_event (turn_events t) ex)" "held (fold on_event (turn_events t) ex) = held ex" by simp_all
  from conservesD [OF sweep_conserves this(1)] conservesD [OF prepare_ops_conserves]
  have 2: "executor_ok ex1" "held ex1 = held ex" unfolding ex1_def using 1(2) by simp_all
  have b: "bucket_of ex1 = bucket_of ex" by (simp add: ex1_def bucket_of_def)
  have a: "after_resumes t ex = wake_bucket ex1" by (simp add: after_resumes_def ex1_def)
  show "executor_ok (after_resumes t ex)" "\<exists>n \<le> length (bucket_of ex). held (after_resumes t ex) = held ex + replicate_mset n null_handle"
    using wake_bucket_holds [OF 2(1)] 2(2) b a by simp_all
  assume f: "first_visit t ex"
  have "suspendedTasks ex1 k \<noteq> None" if "k \<in> narrow ` set (bucket_of ex)" for k
  proof -
    have "k \<notin> ev_fd ` set (turn_events t)" "k \<notin> (\<lambda>d. narrow (dl_fd d)) ` set (taskDeadlines (fold on_event (turn_events t) ex))"
      "suspendedTasks ex k \<noteq> None" using f that unfolding first_visit_def on_events_frame by blast+
    then show ?thesis by (simp add: ex1_def)
  qed
  then show "held (after_resumes t ex) = held ex" using wake_bucket_conserves [OF 2(1)] 2(2) f b a by (simp add: first_visit_def)
qed

lemma drain_conserves: "conserves (drainCompletions cs)"
  using conserves_fold [of cs complete] complete_conserves by (simp add: drainCompletions_def [abs_def])

section \<open>Lemmas: deadlines\<close>

lemma expire_others:
  assumes "(h, True) \<in> set (readyQueue ex) \<and> suspendedTasks ex k = None \<or> suspendedTasks ex k = Some s \<and> st_handle s = h"
  shows "(h, True) \<in> set (readyQueue (expire d ex)) \<and> suspendedTasks (expire d ex) k = None
    \<or> suspendedTasks (expire d ex) k = Some s \<and> st_handle s = h"
  using assms by (auto simp: expire_def wake_waiting_def make_ready_def split: option.splits)

lemma expires_others:
  "(h, True) \<in> set (readyQueue ex) \<and> suspendedTasks ex k = None \<or> suspendedTasks ex k = Some s \<and> st_handle s = h \<Longrightarrow>
   (h, True) \<in> set (readyQueue (fold expire ds ex)) \<and> suspendedTasks (fold expire ds ex) k = None
    \<or> suspendedTasks (fold expire ds ex) k = Some s \<and> st_handle s = h"
proof (induction ds arbitrary: ex)
  case (Cons d ds)
  show ?case using Cons.IH [OF expire_others [OF Cons.prems, of d]] by simp
qed simp

lemma expire_hits:
  assumes "(h, True) \<in> set (readyQueue ex) \<and> suspendedTasks ex (narrow (dl_fd d)) = None
      \<or> suspendedTasks ex (narrow (dl_fd d)) = Some s \<and> st_handle s = h" "suspensionSeq s = dl_seq d"
  shows "(h, True) \<in> set (readyQueue (expire d ex)) \<and> suspendedTasks (expire d ex) (narrow (dl_fd d)) = None"
  using assms by (auto simp: expire_def wake_waiting_def make_ready_def)

lemma stays_woken:
  "(h, True) \<in> set (readyQueue ex) \<and> suspendedTasks ex k = None \<Longrightarrow>
     (h, True) \<in> set (readyQueue (fold expire ds ex)) \<and> suspendedTasks (fold expire ds ex) k = None"
proof (induction ds arbitrary: ex)
  case (Cons d ds)
  have "(h, True) \<in> set (readyQueue (expire d ex)) \<and> suspendedTasks (expire d ex) k = None"
    using Cons.prems by (auto simp: expire_def wake_waiting_def make_ready_def split: option.splits)
  then show ?case using Cons.IH by simp
qed simp

text \<open>A coroutine whose deadline has passed is resumed as timed out.\<close>

lemma expired_resumed:
  assumes "sorted (map dl_time (taskDeadlines ex))" "d \<in> set (taskDeadlines ex)" "dl_time d \<le> timeNow"
    and "suspendedTasks ex (narrow (dl_fd d)) = Some s" "suspensionSeq s = dl_seq d"
  shows "(st_handle s, True) \<in> set (readyQueue (sweep_deadlines timeNow ex)) \<and> suspendedTasks (sweep_deadlines timeNow ex) (narrow (dl_fd d)) = None"
proof -
  let ?ds = "takeWhile (\<lambda>d. dl_time d \<le> timeNow) (taskDeadlines ex)"
  have "d \<in> set ?ds"
  proof (rule ccontr)
    assume n: "d \<notin> set ?ds"
    have "set (taskDeadlines ex) = set ?ds \<union> set (dropWhile (\<lambda>d. dl_time d \<le> timeNow) (taskDeadlines ex))"
      by (metis set_append takeWhile_dropWhile_id)
    then have "d \<in> set (dropWhile (\<lambda>d. dl_time d \<le> timeNow) (taskDeadlines ex))" using n assms(2) by auto
    then obtain e es where e: "dropWhile (\<lambda>d. dl_time d \<le> timeNow) (taskDeadlines ex) = e # es" "d \<in> set (e # es)"
      by (cases "dropWhile (\<lambda>d. dl_time d \<le> timeNow) (taskDeadlines ex)") auto
    have "\<not> dl_time e \<le> timeNow" using e(1) by (metis dropWhile_eq_Cons_conv)
    moreover have "sorted (map dl_time (e # es))"
    proof -
      have "map dl_time (taskDeadlines ex) = map dl_time ?ds @ map dl_time (e # es)" by (metis e(1) map_append takeWhile_dropWhile_id)
      then show ?thesis using assms(1) by (simp add: sorted_append)
    qed
    ultimately show False using e(2) assms(3) by auto
  qed
  then obtain ds1 ds2 where ds: "?ds = ds1 @ d # ds2" by (meson split_list)
  let ?ex = "ex\<lparr>taskDeadlines := dropWhile (\<lambda>d. dl_time d \<le> timeNow) (taskDeadlines ex)\<rparr>"
  have "(st_handle s, True) \<in> set (readyQueue (fold expire ds1 ?ex)) \<and> suspendedTasks (fold expire ds1 ?ex) (narrow (dl_fd d)) = None
      \<or> suspendedTasks (fold expire ds1 ?ex) (narrow (dl_fd d)) = Some s \<and> st_handle s = st_handle s"
    by (rule expires_others) (simp add: assms(4))
  from expire_hits [OF this assms(5)] show ?thesis unfolding sweep_deadlines_def ds using stays_woken by simp
qed

lemma suspend_deadline:
  assumes "sorted (map dl_time (taskDeadlines ex))"
  shows "sorted (map dl_time (taskDeadlines (suspend_until key h wr deadline ex)))"
    and "\<exists>d s. d \<in> set (taskDeadlines (suspend_until key h wr deadline ex)) \<and> dl_time d = deadline \<and> dl_fd d = key
      \<and> suspendedTasks (suspend_until key h wr deadline ex) (narrow key) = Some s \<and> st_handle s = h \<and> suspensionSeq s = dl_seq d"
  using assms by (auto simp: suspend_until_def take_seq_def sorted_insort_key set_insort_key)

text \<open>
  What happens in a loop between the start of a wait and a sweep: the rest of a turn, completions, and what the coroutines that are
  resumed call on the executor.
\<close>

datatype loop_step = StepTurn turn | StepCompletions "(nat \<times> int) list" | StepWait int handle bool int | StepWakeIn nat handle
  | StepFire int | StepUnregister int | StepPost handle | StepSpawn handle | StepFileOp file_op handle nat

fun do_step :: "loop_step \<Rightarrow> executor \<Rightarrow> executor" where
  "do_step (StepTurn t) ex = after_resumes t ex"
| "do_step (StepCompletions cs) ex = drainCompletions cs ex"
| "do_step (StepWait key h wr deadline) ex = suspend_until key h wr deadline ex"
| "do_step (StepWakeIn n h) ex = wakeMeIn n h ex"
| "do_step (StepFire key) ex = fireEvent key ex"
| "do_step (StepUnregister fd) ex = unregister fd ex"
| "do_step (StepPost h) ex = post h ex"
| "do_step (StepSpawn h) ex = spawn h ex"
| "do_step (StepFileOp opn h r) ex = submit_file_op opn h r ex"

fun step_before :: "int \<Rightarrow> loop_step \<Rightarrow> bool" where
  "step_before deadline (StepTurn t) \<longleftrightarrow> turn_now t < deadline"
| "step_before deadline _ \<longleftrightarrow> True"

lemma expires_queue [simp]: "taskDeadlines (fold expire ds ex) = taskDeadlines ex"
proof (induction ds arbitrary: ex)
  case (Cons d ds)
  have "taskDeadlines (expire d ex) = taskDeadlines ex"
    by (auto simp: expire_def wake_waiting_def make_ready_def split: option.splits)
  then show ?case using Cons.IH by simp
qed simp

lemma turn_queue: "taskDeadlines (after_resumes t ex) = dropWhile (\<lambda>d. dl_time d \<le> turn_now t) (taskDeadlines ex)"
proof -
  have "taskDeadlines (fold wake_key ks ex') = taskDeadlines ex'" for ks ex'
    by (induction ks arbitrary: ex') (simp_all add: wake_key_def make_ready_def)
  then show ?thesis
    by (simp add: after_resumes_def wake_bucket_def Let_def prepare_ops_def prepare_file_ops_def prepare_splice_ops_def sweep_deadlines_def)
qed

lemma drain_queue [simp]: "taskDeadlines (drainCompletions cs ex) = taskDeadlines ex"
proof -
  have "taskDeadlines (fold complete cs ex) = taskDeadlines ex"
    by (induction cs arbitrary: ex) (auto simp: complete_def make_ready_def split: prod.splits option.splits)
  then show ?thesis by (simp add: drainCompletions_def)
qed

lemma step_queue_eq:
  "taskDeadlines (do_step x ex) =
     (case x of StepTurn t \<Rightarrow> dropWhile (\<lambda>d. dl_time d \<le> turn_now t) (taskDeadlines ex)
      | StepWait key h wr deadline \<Rightarrow> taskDeadlines (suspend_until key h wr deadline ex) | _ \<Rightarrow> taskDeadlines ex)"
  by (cases x) (simp_all add: turn_queue wakeMeIn_def take_seq_def take_key_def Let_def fireEvent_def wake_waiting_def make_ready_def
      unregister_def epoll_remove_def post_def spawn_def submit_file_op_def split: option.splits)

text \<open>The queue stays sorted, and a deadline stays in it until a turn that comes after it.\<close>

lemma step_queue:
  assumes "sorted (map dl_time (taskDeadlines ex))"
  shows "sorted (map dl_time (taskDeadlines (do_step x ex)))"
    "d \<in> set (taskDeadlines ex) \<Longrightarrow> step_before (dl_time d) x \<Longrightarrow> d \<in> set (taskDeadlines (do_step x ex))"
proof -
  have drop: "sorted (map dl_time (dropWhile P (taskDeadlines ex)))" for P
  proof -
    have "map dl_time (taskDeadlines ex) = map dl_time (takeWhile P (taskDeadlines ex)) @ map dl_time (dropWhile P (taskDeadlines ex))"
      by (metis map_append takeWhile_dropWhile_id)
    then show ?thesis using assms by (simp add: sorted_append)
  qed
  have keep: "d \<in> set (dropWhile (\<lambda>d. dl_time d \<le> n) ds)" if "d \<in> set ds" "n < dl_time d" for n ds
    using that by (induction ds) auto
  show "sorted (map dl_time (taskDeadlines (do_step x ex)))"
    unfolding step_queue_eq using assms suspend_deadline(1) [OF assms] drop by (cases x) simp_all
  show "d \<in> set (taskDeadlines (do_step x ex))" if "d \<in> set (taskDeadlines ex)" "step_before (dl_time d) x"
    unfolding step_queue_eq using that keep by (cases x) (simp_all add: suspend_until_def take_seq_def set_insort_key)
qed

lemma steps_queue:
  "sorted (map dl_time (taskDeadlines ex)) \<Longrightarrow> d \<in> set (taskDeadlines ex) \<Longrightarrow> list_all (step_before (dl_time d)) xs \<Longrightarrow>
     sorted (map dl_time (taskDeadlines (fold do_step xs ex))) \<and> d \<in> set (taskDeadlines (fold do_step xs ex))"
proof (induction xs arbitrary: ex)
  case (Cons x xs)
  then show ?case using step_queue(1) [OF Cons.prems(1), of x] step_queue(2) [OF Cons.prems(1,2), of x] by simp
qed simp

lemma wait_expires:
  assumes "sorted (map dl_time (taskDeadlines ex))" "list_all (step_before deadline) xs" "deadline \<le> timeNow"
    and "ex1 = fold do_step xs (suspend_until key h wr deadline ex)"
    and "suspendedTasks ex1 (narrow key) = suspendedTasks (suspend_until key h wr deadline ex) (narrow key)"
  shows "(h, True) \<in> set (readyQueue (sweep_deadlines timeNow ex1)) \<and> suspendedTasks (sweep_deadlines timeNow ex1) (narrow key) = None"
proof -
  let ?ex = "suspend_until key h wr deadline ex"
  obtain d s where d: "d \<in> set (taskDeadlines ?ex)" "dl_time d = deadline" "dl_fd d = key"
      "suspendedTasks ?ex (narrow key) = Some s" "st_handle s = h" "suspensionSeq s = dl_seq d"
    using suspend_deadline(2) [OF assms(1)] by blast
  have q: "sorted (map dl_time (taskDeadlines ex1)) \<and> d \<in> set (taskDeadlines ex1)"
    unfolding assms(4) by (rule steps_queue [OF suspend_deadline(1) [OF assms(1)] d(1)]) (simp add: d(2) assms(2))
  have "dl_time d \<le> timeNow" "suspendedTasks ex1 (narrow (dl_fd d)) = Some s" using d(2,3,4) assms(3,5) by simp_all
  from expired_resumed [OF conjunct1 [OF q] conjunct2 [OF q] this d(6)] show ?thesis by (simp only: d(3,5))
qed

text \<open>Deadlines of other waits, earlier ones under the same key among them, wake nobody.\<close>

lemma stale_ignored:
  assumes "suspendedTasks ex k = Some s"
    and "\<forall>d \<in> set (taskDeadlines ex). narrow (dl_fd d) = k \<and> dl_seq d = suspensionSeq s \<longrightarrow> timeNow < dl_time d"
  shows "suspendedTasks (sweep_deadlines timeNow ex) k = Some s"
proof -
  have one: "suspendedTasks (expire d ex') k = Some s"
    if "suspendedTasks ex' k = Some s" "narrow (dl_fd d) = k \<longrightarrow> dl_seq d \<noteq> suspensionSeq s" for d ex'
    using that by (auto simp: expire_def wake_waiting_def make_ready_def split: option.splits)
  have "suspendedTasks (fold expire ds ex') k = Some s"
    if "suspendedTasks ex' k = Some s" "\<forall>d \<in> set ds. narrow (dl_fd d) = k \<longrightarrow> dl_seq d \<noteq> suspensionSeq s" for ds ex'
    using that
  proof (induction ds arbitrary: ex')
    case (Cons d ds)
    then show ?case using one [of ex' d] by simp
  qed simp
  moreover have "\<forall>d \<in> set (takeWhile (\<lambda>d. dl_time d \<le> timeNow) (taskDeadlines ex)). narrow (dl_fd d) = k \<longrightarrow> dl_seq d \<noteq> suspensionSeq s"
    using assms(2) by (auto dest!: set_takeWhileD)
  ultimately show ?thesis using assms(1) by (simp add: sweep_deadlines_def)
qed

section \<open>Lemmas: write events\<close>

text \<open>
  While a descriptor is registered, awaiting its writability and resuming never fail, and the kernel's table is as it was;
  a descriptor that is not registered ends the program.
\<close>

definition interest_ok :: "executor \<Rightarrow> bool" where
  "interest_ok ex \<longleftrightarrow> (\<forall>fd. (fd \<in> writeInterested ex) \<longleftrightarrow> interest ex fd = Some True)"

lemma interest_ops:
  "interest_ok ex \<Longrightarrow> interest_ok (snd (registerReadFd fd ex))"
  "interest_ok ex \<Longrightarrow> interest_ok (unregister fd ex)"
  by (auto simp: interest_ok_def registerReadFd_def epoll_add_def unregister_def epoll_remove_def)

lemma enable_ok:
  assumes "interest_ok ex" "interest ex fd \<noteq> None"
  shows "enableWriteEvents fd ex = (Inr (), ex\<lparr>writeInterested := insert fd (writeInterested ex), interest := (interest ex)(fd := Some True)\<rparr>)"
proof (cases "fd \<in> writeInterested ex")
  case True
  then have "(interest ex)(fd := Some True) = interest ex" "insert fd (writeInterested ex) = writeInterested ex"
    using assms by (auto simp: interest_ok_def fun_upd_idem)
  then show ?thesis using True by (simp add: enableWriteEvents_def)
qed (use assms(2) in \<open>simp add: enableWriteEvents_def epoll_modify_def\<close>)

lemma disable_ok:
  assumes "interest_ok ex" "interest ex fd \<noteq> None"
  shows "disableWriteEvents fd ex = (Inr (), ex\<lparr>writeInterested := writeInterested ex - {fd}, interest := (interest ex)(fd := Some False)\<rparr>)"
proof (cases "fd \<in> writeInterested ex")
  case False
  moreover have "interest ex fd = Some False" using assms False by (cases "interest ex fd") (simp_all add: interest_ok_def)
  ultimately have "(interest ex)(fd := Some False) = interest ex" "writeInterested ex - {fd} = writeInterested ex"
    by (simp_all add: fun_upd_idem)
  then show ?thesis using False by (simp add: disableWriteEvents_def)
qed (use assms(2) in \<open>simp add: disableWriteEvents_def epoll_modify_def\<close>)

lemma write_suspend_ok:
  assumes "interest_ok ex" "interest ex fd \<noteq> None"
  shows "\<exists>ex1. write_awaitable_suspend fd deadline h ex = Some ex1 \<and> interest_ok ex1 \<and> interest ex1 = (interest ex)(fd := Some True)
    \<and> suspendedTasks ex1 (narrow fd) = Some \<lparr>st_handle = h, waitingForWrite = True, suspensionSeq = narrow (int (nextSeq ex))\<rparr>"
  using assms(1) unfolding interest_ok_def
  by (simp add: write_awaitable_suspend_def enable_ok [OF assms] waitForWrite_def suspend_until_def take_seq_def)

lemma write_resume_ok:
  assumes "interest_ok ex" "interest ex fd \<noteq> None"
  shows "\<exists>ex1. write_awaitable_resume fd ex = Some ex1 \<and> interest_ok ex1 \<and> interest ex1 = (interest ex)(fd := Some False)"
  using assms(1) unfolding interest_ok_def
  by (simp add: write_awaitable_resume_def disable_ok [OF assms])

lemma write_suspend_unregistered:
  "interest_ok ex \<Longrightarrow> interest ex fd = None \<Longrightarrow> write_awaitable_suspend fd deadline h ex = None"
  by (auto simp: write_awaitable_suspend_def enableWriteEvents_def epoll_modify_def interest_ok_def)

section \<open>Lemmas: the vector of owned tasks\<close>

definition owned_ok :: "executor \<Rightarrow> bool" where
  "owned_ok ex \<longleftrightarrow> distinct (ownedTasks ex) \<and> (\<forall>h i. ownedTaskMap ex h = Some i \<longleftrightarrow> i < length (ownedTasks ex) \<and> ownedTasks ex ! i = h)"

lemma spawn_owned: "owned_ok ex \<Longrightarrow> h \<notin> set (ownedTasks ex) \<Longrightarrow> owned_ok (spawn h ex)"
  by (auto simp: owned_ok_def spawn_def nth_append less_Suc_eq in_set_conv_nth)

lemma finish_owned:
  assumes "owned_ok ex"
  shows "owned_ok (finish_root addr ex) \<and> set (ownedTasks (finish_root addr ex)) = set (ownedTasks ex) - {addr}"
proof (cases "ownedTaskMap ex addr")
  case None
  have "addr \<notin> set (ownedTasks ex)"
  proof
    assume "addr \<in> set (ownedTasks ex)"
    then obtain i where "i < length (ownedTasks ex)" "ownedTasks ex ! i = addr" by (auto simp: in_set_conv_nth)
    then have "ownedTaskMap ex addr = Some i" using assms unfolding owned_ok_def by blast
    then show False using None by simp
  qed
  then show ?thesis using None assms by (simp add: finish_root_def)
next
  case (Some i)
  let ?ts = "ownedTasks ex" and ?l = "length (ownedTasks ex) - 1"
  have i: "i < length ?ts" "?ts ! i = addr" and d: "distinct ?ts" using assms Some by (auto simp: owned_ok_def)
  let ?us = "butlast (?ts[i := ?ts ! ?l])"
  have us: "ownedTasks (finish_root addr ex) = ?us"
  proof (cases "i = ?l")
    case True
    then have "?ts[i := ?ts ! ?l] = ?ts" by simp
    then show ?thesis using Some True by (simp add: finish_root_def Let_def)
  qed (use Some in \<open>simp add: finish_root_def Let_def\<close>)
  have nth: "?us ! j = (if j = i then ?ts ! ?l else ?ts ! j)" if "j < ?l" for j
    using that i(1) by (simp add: nth_butlast nth_list_update)
  have len: "length ?us = ?l" by simp
  have inj: "?ts ! j = ?ts ! k \<longleftrightarrow> j = k" if "j < length ?ts" "k < length ?ts" for j k
    using d that by (simp add: nth_eq_iff_index_eq)
  have fm: "ownedTaskMap (finish_root addr ex) h = (if h = addr then None else if i \<noteq> ?l \<and> h = ?ts ! ?l then Some i else ownedTaskMap ex h)" for h
    using Some by (simp add: finish_root_def Let_def)
  have om: "ownedTaskMap ex h = Some j \<longleftrightarrow> j < length ?ts \<and> ?ts ! j = h" for h j using assms by (simp add: owned_ok_def)
  have m: "ownedTaskMap (finish_root addr ex) h = Some j \<longleftrightarrow> j < ?l \<and> ?us ! j = h" for h j
  proof -
    note fm [of h] om [of h j]
    moreover have us_j: "?us ! j = h \<longleftrightarrow> (if j = i then ?ts ! ?l = h else ?ts ! j = h)" if "j < ?l" using nth [OF that] by simp
    have l: "?l < length ?ts" "j < ?l \<Longrightarrow> j < length ?ts" "j < length ?ts \<Longrightarrow> j = ?l \<or> j < ?l" using i(1) by auto
    consider "h = addr" | "h \<noteq> addr" "i \<noteq> ?l" "h = ?ts ! ?l" | "h \<noteq> addr" "i = ?l \<or> h \<noteq> ?ts ! ?l" by blast
    then have "(if h = addr then False else if i \<noteq> ?l \<and> h = ?ts ! ?l then i = j else j < length ?ts \<and> ?ts ! j = h)
        \<longleftrightarrow> j < ?l \<and> (if j = i then ?ts ! ?l = h else ?ts ! j = h)"
    proof cases
      case 1
      then show ?thesis using inj [OF l(2) i(1)] inj [OF l(1) i(1)] i(2) by auto
    next
      case 2
      then have "i < ?l" using i(1) by simp
      then show ?thesis using 2 inj [OF l(2) l(1)] by auto
    next
      case 3
      then show ?thesis using i(2) l(2,3) by auto
    qed
    ultimately show ?thesis using us_j by auto
  qed
  have "?us ! j \<noteq> ?us ! k" if "j < ?l" "k < ?l" "j \<noteq> k" for j k
    using nth [OF that(1)] nth [OF that(2)] inj [of j k] inj [of ?l k] inj [of j ?l] that by (simp split: if_splits)
  then have "distinct ?us" unfolding distinct_conv_nth len by blast
  then have ok: "owned_ok (finish_root addr ex)" unfolding owned_ok_def us len using m by blast
  have "set ?us = set ?ts - {addr}"
  proof (intro set_eqI)
    fix h
    have "h \<in> set ?us \<longleftrightarrow> (\<exists>j. ownedTaskMap (finish_root addr ex) h = Some j)" using m len by (auto simp: in_set_conv_nth)
    also have "\<dots> \<longleftrightarrow> h \<noteq> addr \<and> (\<exists>j. ownedTaskMap ex h = Some j)"
    proof (cases "h = ?ts ! ?l")
      case True
      moreover have "ownedTaskMap ex (?ts ! ?l) = Some ?l" using om i(1) by simp
      ultimately show ?thesis by (simp add: fm)
    qed (simp add: fm)
    also have "\<dots> \<longleftrightarrow> h \<in> set ?ts - {addr}" by (auto simp: om in_set_conv_nth)
    finally show "h \<in> set ?us \<longleftrightarrow> h \<in> set ?ts - {addr}" .
  qed
  then show ?thesis using ok us by simp
qed

lemma finish_roots_owned:
  assumes "owned_ok ex"
  shows "owned_ok (finish_roots ex) \<and> set (ownedTasks (finish_roots ex)) = set (ownedTasks ex) - set (finishedRoots ex)"
proof -
  have "owned_ok (fold finish_root hs ex') \<and> set (ownedTasks (fold finish_root hs ex')) = set (ownedTasks ex') - set hs" if "owned_ok ex'" for hs ex'
    using that
  proof (induction hs arbitrary: ex')
    case (Cons h hs)
    then show ?case using finish_owned [OF Cons.prems, of h] Cons.IH [of "finish_root h ex'"] by auto
  qed simp
  from this [of "ex\<lparr>finishedRoots := []\<rparr>" "rev (finishedRoots ex)"] show ?thesis
    using assms by (simp add: finish_roots_def owned_ok_def)
qed

section \<open>Lemmas: waking after some turns\<close>

text \<open>A bucket is never emptied, and a key that no longer waits makes the null handle ready.\<close>

lemma wake_keys_frame: "wakeUpQueue (fold wake_key ks ex) = wakeUpQueue ex" "wakeTime (fold wake_key ks ex) = wakeTime ex"
  by (induction ks arbitrary: ex) (simp_all add: wake_key_def make_ready_def)

lemma bucket_kept: "wakeUpQueue (wake_bucket ex) = wakeUpQueue ex"
  by (simp add: wake_bucket_def Let_def wake_keys_frame)

lemma wake_keys_null:
  "key \<in> set ks \<Longrightarrow> suspendedTasks ex (narrow key) = None \<or> (null_handle, False) \<in> set (readyQueue ex) \<Longrightarrow>
     (null_handle, False) \<in> set (readyQueue (fold wake_key ks ex))"
proof (induction ks arbitrary: ex)
  case (Cons k ks)
  have keep: "(null_handle, False) \<in> set (readyQueue (fold wake_key js ex))" if "(null_handle, False) \<in> set (readyQueue ex)" for js ex
    using that by (induction js arbitrary: ex) (simp_all add: wake_key_def make_ready_def)
  show ?case
  proof (cases "suspendedTasks ex (narrow key) = None \<and> k \<noteq> key")
    case True
    then have "suspendedTasks (wake_key k ex) (narrow key) = None" "key \<in> set ks" using Cons.prems(1) by (auto simp: wake_key_def)
    then show ?thesis using Cons.IH by simp
  next
    case False
    then have "(null_handle, False) \<in> set (readyQueue (wake_key k ex))" using Cons.prems(2) by (auto simp: wake_key_def make_ready_def)
    then show ?thesis using keep by simp
  qed
qed simp

lemma wake_again_null:
  "key \<in> set (bucket_of ex) \<Longrightarrow> suspendedTasks ex (narrow key) = None \<Longrightarrow> (null_handle, False) \<in> set (readyQueue (wake_bucket ex))"
  using wake_keys_null by (simp add: wake_bucket_def Let_def bucket_of_def)

lemma null_resumed: "readyQueue ex = (null_handle, b) # q \<Longrightarrow> run_ready resume ex w = None"
  by (subst run_ready.simps) simp

text \<open>Turns in which nothing else happens. The coroutine that waits is woken, and ten turns later a null handle is.\<close>

definition idle_turn :: "executor \<Rightarrow> executor" where
  "idle_turn = after_resumes \<lparr>turn_shutdown = False, turn_start = 0, completions = [], turn_events = [], turn_now = 0, ring_room = 8\<rparr>"

definition quiet :: "executor \<Rightarrow> bool" where
  "quiet ex \<longleftrightarrow> taskDeadlines ex = [] \<and> pendingFileOpPreps ex = [] \<and> pendingSpliceOpPreps ex = []"

lemma idle_is_wake: "quiet ex \<Longrightarrow> idle_turn ex = wake_bucket ex"
  by (cases ex) (simp add: quiet_def idle_turn_def after_resumes_def prepare_ops_def prepare_file_ops_def prepare_splice_ops_def sweep_deadlines_def)

lemma wake_empty: "bucket_of ex = [] \<Longrightarrow> wake_bucket ex = ex\<lparr>wakeTime := sz_add (wakeTime ex) 1\<rparr>"
  by (simp add: wake_bucket_def bucket_of_def)

lemma idle_turns:
  assumes "quiet ex" "wakeTime ex + n < sz_limit" "\<And>i. i < n \<Longrightarrow> wakeUpQueue ex ! ((wakeTime ex + i) mod MAX_WAKEUP_TURN) = []"
  shows "(idle_turn ^^ n) ex = ex\<lparr>wakeTime := wakeTime ex + n\<rparr>"
  using assms(2,3)
proof (induction n)
  case (Suc n)
  have q: "quiet (ex\<lparr>wakeTime := wakeTime ex + n\<rparr>)" using assms(1) by (simp add: quiet_def)
  have e: "bucket_of (ex\<lparr>wakeTime := wakeTime ex + n\<rparr>) = []" using Suc.prems(2) [of n] by (simp add: bucket_of_def)
  show ?case using Suc.IH Suc.prems idle_is_wake [OF q] wake_empty [OF e] by (simp add: sz_add_def)
qed simp

lemma woken_null_later:
  assumes "quiet ex" "wakeTime ex + 11 < sz_limit" "bucket_of ex = [key]" "suspendedTasks ex (narrow key) = Some s"
    and "\<And>i. 0 < i \<Longrightarrow> i < 10 \<Longrightarrow> wakeUpQueue ex ! ((wakeTime ex + i) mod MAX_WAKEUP_TURN) = []"
  shows "readyQueue ((idle_turn ^^ 11) ex) = readyQueue ex @ [(st_handle s, False), (null_handle, False)]"
proof -
  let ?ex1 = "wake_bucket ex"
  have q1: "quiet ?ex1" and t1: "wakeTime ?ex1 = wakeTime ex + 1" and b1: "wakeUpQueue ?ex1 = wakeUpQueue ex"
    and r1: "readyQueue ?ex1 = readyQueue ex @ [(st_handle s, False)]" and s1: "suspendedTasks ?ex1 (narrow key) = None"
    using assms(1-4) by (simp_all add: quiet_def wake_bucket_def bucket_of_def wake_key_def make_ready_def sz_add_def Let_def)
  have n: "(idle_turn ^^ 9) ?ex1 = ?ex1\<lparr>wakeTime := wakeTime ?ex1 + 9\<rparr>"
  proof (rule idle_turns [OF q1])
    show "wakeUpQueue ?ex1 ! ((wakeTime ?ex1 + i) mod MAX_WAKEUP_TURN) = []" if "i < 9" for i
      using assms(5) [of "Suc i"] that t1 b1 by simp
  qed (use assms(2) t1 in simp)
  let ?ex2 = "?ex1\<lparr>wakeTime := wakeTime ?ex1 + 9\<rparr>"
  have q2: "quiet ?ex2" using q1 by (simp add: quiet_def)
  have "bucket_of ?ex2 = [key]" using assms(3) by (simp add: bucket_of_def t1 b1 MAX_WAKEUP_TURN_def)
  then have r2: "readyQueue (wake_bucket ?ex2) = readyQueue ex @ [(st_handle s, False), (null_handle, False)]"
    using s1 r1 by (simp add: wake_bucket_def bucket_of_def wake_key_def make_ready_def Let_def)
  have "(idle_turn ^^ Suc (9 + 1)) ex = idle_turn ((idle_turn ^^ 9) (idle_turn ex))"
    by (simp only: funpow.simps funpow_add comp_apply One_nat_def id_apply)
  then have "(idle_turn ^^ 11) ex = wake_bucket ?ex2" using n idle_is_wake [OF q2] idle_is_wake [OF assms(1)] by simp
  then show ?thesis using r2 by simp
qed

definition waiting_executor :: executor where
  "waiting_executor = wakeMeIn 0 7 (new_executor 4)"

lemma waiting_executor_quiet: "quiet waiting_executor" "wakeTime waiting_executor = 0" "suspendedTasks waiting_executor (-1) = Some \<lparr>st_handle = 7, waitingForWrite = False, suspensionSeq = 0\<rparr>"
    "wakeUpQueue waiting_executor = [-1] # replicate 9 []" "readyQueue waiting_executor = []"
proof -
  have "replicate 10 ([] :: int list) = [] # replicate 9 []" using replicate_Suc [of 9 "[] :: int list"] by simp
  then show "quiet waiting_executor" "wakeTime waiting_executor = 0" "suspendedTasks waiting_executor (-1) = Some \<lparr>st_handle = 7, waitingForWrite = False, suspensionSeq = 0\<rparr>"
    "wakeUpQueue waiting_executor = [-1] # replicate 9 []" "readyQueue waiting_executor = []"
    by (simp_all add: quiet_def waiting_executor_def wakeMeIn_def take_seq_def take_key_def new_executor_def narrow_def MAX_WAKEUP_TURN_def
      registerReadFd_def epoll_add_def Let_def sz_add_def sz_limit_def)
qed

lemma woken_null_later_witness: "readyQueue ((idle_turn ^^ 11) waiting_executor) = [(7, False), (null_handle, False)]"
proof -
  have "wakeUpQueue waiting_executor ! (i mod MAX_WAKEUP_TURN) = []" if "0 < i" "i < 10" for i
    using that by (cases i) (simp_all add: waiting_executor_quiet MAX_WAKEUP_TURN_def)
  then show ?thesis
    using woken_null_later [of waiting_executor "-1"] by (simp add: waiting_executor_quiet bucket_of_def narrow_def sz_limit_def)
qed
end
