(* ===== verification/Tasks.thy ===== *)
theory Tasks
  imports EventLoop
begin

text \<open>
  Coroutines: \<open>rukh/include/rukh/core/Task.hpp\<close> and \<open>notifyTaskFinished\<close> of \<open>rukh/src/core/Executor.cpp\<close>.

  A body is a tree: it returns, lets an exception out, awaits another \<open>Task\<close> (whose value it gets, or whose exception is
  thrown at that point), or awaits an awaitable that gives the thread back to the executor and answers later. \<open>Task<void>\<close>
  is the instance whose values are of type \<open>unit\<close>. Frames are on a heap, so the chain of continuations is the code's.
  The destructor of the \<open>Task\<close> that an expression awaits runs right after \<open>await_resume\<close>.
\<close>

section \<open>Frames\<close>

datatype ('v, 'a) coro =
    CoReturn 'v
  | CoThrow exn
  | CoAwait "('v, 'a) coro" "'v result \<Rightarrow> ('v, 'a) coro"
  | CoPause "'a \<Rightarrow> ('v, 'a) coro"

datatype ('v, 'a) frame_state =
    Ready "('v, 'a) coro"
  | Awaiting handle "'v result \<Rightarrow> ('v, 'a) coro"
  | Paused "'a \<Rightarrow> ('v, 'a) coro"
  | AtFinal

record ('v, 'a) promise =
  pr_value :: "'v option"
  continuation :: "handle option"
  pr_ex :: "exn option"
  pr_state :: "('v, 'a) frame_state"

text \<open>\<open>finished\<close> are the calls of \<open>notifyTaskFinished\<close>.\<close>

record ('v, 'a) tasks =
  frames :: "handle \<Rightarrow> ('v, 'a) promise option"
  nextHandle :: handle
  finished :: "handle list"

text \<open>Where the thread goes on: in a coroutine, in the executor with a coroutine waiting, or in the executor.\<close>

datatype transfer = Transfer handle | Suspended handle | NoopCoroutine

section \<open>Operations\<close>

text \<open>The call of a coroutine: \<open>get_return_object\<close> and \<open>initial_suspend\<close>.\<close>

definition new_task :: "('v, 'a) coro \<Rightarrow> ('v, 'a) tasks \<Rightarrow> handle \<times> ('v, 'a) tasks" where
  "new_task c ts = (nextHandle ts,
     ts\<lparr>frames := (frames ts)(nextHandle ts \<mapsto> \<lparr>pr_value = None, continuation = None, pr_ex = None, pr_state = Ready c\<rparr>),
        nextHandle := Suc (nextHandle ts)\<rparr>)"

definition set_promise :: "handle \<Rightarrow> (('v, 'a) promise \<Rightarrow> ('v, 'a) promise) \<Rightarrow> ('v, 'a) tasks \<Rightarrow> ('v, 'a) tasks" where
  "set_promise h f ts = ts\<lparr>frames := (frames ts)(h := map_option f (frames ts h))\<rparr>"

definition set_state :: "handle \<Rightarrow> ('v, 'a) frame_state \<Rightarrow> ('v, 'a) tasks \<Rightarrow> ('v, 'a) tasks" where
  "set_state h st = set_promise h (\<lambda>p. p\<lparr>pr_state := st\<rparr>)"

definition return_value :: "handle \<Rightarrow> 'v \<Rightarrow> ('v, 'a) tasks \<Rightarrow> ('v, 'a) tasks" where
  "return_value h v = set_promise h (\<lambda>p. p\<lparr>pr_value := Some v\<rparr>)"

definition unhandled_exception :: "handle \<Rightarrow> exn \<Rightarrow> ('v, 'a) tasks \<Rightarrow> ('v, 'a) tasks" where
  "unhandled_exception h e = set_promise h (\<lambda>p. p\<lparr>pr_ex := Some e\<rparr>)"

definition notifyTaskFinished :: "handle \<Rightarrow> ('v, 'a) tasks \<Rightarrow> ('v, 'a) tasks" where
  "notifyTaskFinished h ts = ts\<lparr>finished := finished ts @ [h]\<rparr>"

text \<open>\<open>FinalAwaiter::await_suspend\<close>.\<close>

definition final_suspend :: "handle \<Rightarrow> ('v, 'a) tasks \<Rightarrow> transfer \<times> ('v, 'a) tasks" where
  "final_suspend h ts =
     (let ts1 = set_state h AtFinal ts in
      case Option.bind (frames ts1 h) continuation of
        Some caller \<Rightarrow> (Transfer caller, ts1)
      | None \<Rightarrow> (NoopCoroutine, notifyTaskFinished h ts1))"

definition task_await_ready :: bool where
  "task_await_ready = False"

definition task_await_suspend :: "handle \<Rightarrow> handle \<Rightarrow> ('v, 'a) tasks \<Rightarrow> transfer \<times> ('v, 'a) tasks" where
  "task_await_suspend h caller ts = (Transfer h, set_promise h (\<lambda>p. p\<lparr>continuation := Some caller\<rparr>) ts)"

text \<open>A value that was never set is dereferenced: that would be undefined, here \<open>None\<close>.\<close>

definition task_await_resume :: "handle \<Rightarrow> ('v, 'a) tasks \<Rightarrow> 'v result option" where
  "task_await_resume h ts =
     (case frames ts h of
        None \<Rightarrow> None
      | Some p \<Rightarrow> (case pr_ex p of Some e \<Rightarrow> Some (Inl e) | None \<Rightarrow> map_option Inr (pr_value p)))"

definition task_destroy :: "handle \<Rightarrow> ('v, 'a) tasks \<Rightarrow> ('v, 'a) tasks" where
  "task_destroy h ts = ts\<lparr>frames := (frames ts)(h := None)\<rparr>"

definition task_done :: "handle \<Rightarrow> ('v, 'a) tasks \<Rightarrow> bool" where
  "task_done h ts = (case frames ts h of Some p \<Rightarrow> (case pr_state p of AtFinal \<Rightarrow> True | _ \<Rightarrow> False) | None \<Rightarrow> False)"

text \<open>The specialisation for \<open>void\<close> keeps no value.\<close>

definition return_void :: "handle \<Rightarrow> (unit, 'a) tasks \<Rightarrow> (unit, 'a) tasks" where
  "return_void h ts = ts"

definition void_final_suspend :: "handle \<Rightarrow> (unit, 'a) tasks \<Rightarrow> transfer \<times> (unit, 'a) tasks" where
  "void_final_suspend h ts =
     (let ts1 = set_state h AtFinal ts in
      case Option.bind (frames ts1 h) continuation of
        Some caller \<Rightarrow> (Transfer caller, ts1)
      | None \<Rightarrow> (NoopCoroutine, notifyTaskFinished h ts1))"

definition void_await_resume :: "handle \<Rightarrow> (unit, 'a) tasks \<Rightarrow> unit result option" where
  "void_await_resume h ts =
     (case frames ts h of
        None \<Rightarrow> None
      | Some p \<Rightarrow> (case pr_ex p of Some e \<Rightarrow> Some (Inl e) | None \<Rightarrow> Some (Inr ())))"

text \<open>Assigning one \<open>Task\<close> to another destroys the frame that the target had.\<close>

definition task_move_assign :: "handle \<Rightarrow> handle \<Rightarrow> ('v, 'a) tasks \<Rightarrow> handle \<times> handle \<times> ('v, 'a) tasks" where
  "task_move_assign self other ts = (other, null_handle, if self \<noteq> null_handle then task_destroy self ts else ts)"

text \<open>
  One piece of a coroutine that has the thread. \<open>None\<close> is undefined: a frame that is gone, is at its end, or waits for the
  executor, is resumed, or the value of an awaited task is missing.
\<close>

definition coro_step :: "handle \<Rightarrow> ('v, 'a) tasks \<Rightarrow> (transfer \<times> ('v, 'a) tasks) option" where
  "coro_step h ts =
     (case frames ts h of
        None \<Rightarrow> None
      | Some p \<Rightarrow>
          (case pr_state p of
             Ready (CoReturn v) \<Rightarrow> Some (final_suspend h (return_value h v ts))
           | Ready (CoThrow e) \<Rightarrow> Some (final_suspend h (unhandled_exception h e ts))
           | Ready (CoAwait c k) \<Rightarrow>
               (case new_task c ts of (sub, ts1) \<Rightarrow>
                  if task_await_ready then None
                  else Some (task_await_suspend sub h (set_state h (Awaiting sub k) ts1)))
           | Ready (CoPause k) \<Rightarrow> Some (Suspended h, set_state h (Paused k) ts)
           | Awaiting sub k \<Rightarrow>
               (case task_await_resume sub ts of
                  None \<Rightarrow> None
                | Some r \<Rightarrow> Some (Transfer h, task_destroy sub (set_state h (Ready (k r)) ts)))
           | Paused k \<Rightarrow> None
           | AtFinal \<Rightarrow> None))"

text \<open>The executor resumes a waiting coroutine with an answer.\<close>

definition coro_answer :: "handle \<Rightarrow> 'a \<Rightarrow> ('v, 'a) tasks \<Rightarrow> ('v, 'a) tasks option" where
  "coro_answer h a ts =
     (case Option.bind (frames ts h) (\<lambda>p. Some (pr_state p)) of
        Some (Paused k) \<Rightarrow> Some (set_state h (Ready (k a)) ts)
      | _ \<Rightarrow> None)"

text \<open>
  \<open>handle.resume()\<close> and the executor's later resumptions, one for each answer of the environment. The result is what is
  left of the answers, the coroutine that waits if they are used up, and the frames.
\<close>

partial_function (option) drive :: "handle \<Rightarrow> 'a list \<Rightarrow> ('v, 'a) tasks \<Rightarrow> ('a list \<times> handle option \<times> ('v, 'a) tasks) option" where
  "drive h as ts =
     (case coro_step h ts of
        None \<Rightarrow> None
      | Some (Transfer h', ts') \<Rightarrow> drive h' as ts'
      | Some (NoopCoroutine, ts') \<Rightarrow> Some (as, None, ts')
      | Some (Suspended h', ts') \<Rightarrow>
          (case as of
             [] \<Rightarrow> Some ([], Some h', ts')
           | a # as' \<Rightarrow> (case coro_answer h' a ts' of None \<Rightarrow> None | Some ts'' \<Rightarrow> drive h' as' ts'')))"

text \<open>\<open>Task::resume\<close>: a null handle and a coroutine at its end are left alone.\<close>

definition task_resume :: "handle \<Rightarrow> 'a list \<Rightarrow> ('v, 'a) tasks \<Rightarrow> (bool \<times> 'a list \<times> handle option \<times> ('v, 'a) tasks) option" where
  "task_resume h as ts =
     (if h = null_handle \<or> task_done h ts then Some (False, as, None, ts) else map_option (\<lambda>out. (True, out)) (drive h as ts))"

section \<open>Specification: calls\<close>

text \<open>What the body means when awaiting a \<open>Task\<close> is a call of it. \<open>None\<close> when the answers are used up.\<close>

primrec call :: "('v, 'a) coro \<Rightarrow> 'a list \<Rightarrow> ('v result \<times> 'a list) option" where
  "call (CoReturn v) as = Some (Inr v, as)"
| "call (CoThrow e) as = Some (Inl e, as)"
| "call (CoAwait c k) as = (case call c as of None \<Rightarrow> None | Some (r, as') \<Rightarrow> call (k r) as')"
| "call (CoPause k) as = (case as of [] \<Rightarrow> None | a # as' \<Rightarrow> call (k a) as')"

text \<open>The coroutine that ends at once with a result.\<close>

definition ends_with :: "'v result \<Rightarrow> ('v, 'a) coro" where
  "ends_with r = (case r of Inl e \<Rightarrow> CoThrow e | Inr v \<Rightarrow> CoReturn v)"

definition fresh_handles :: "('v, 'a) tasks \<Rightarrow> bool" where
  "fresh_handles ts \<longleftrightarrow> (\<forall>h \<ge> nextHandle ts. frames ts h = None)"

section \<open>Lemmas\<close>

lemma fresh_at: "fresh_handles ts \<Longrightarrow> nextHandle ts \<le> h \<Longrightarrow> frames ts h = None"
  by (simp add: fresh_handles_def)

lemma fresh_set_state: "fresh_handles ts \<Longrightarrow> fresh_handles (set_state h st ts)"
  by (simp add: fresh_handles_def set_state_def set_promise_def)

lemma set_state_again [simp]: "set_state h st (set_state h st' ts) = set_state h st ts"
  by (simp add: set_state_def set_promise_def map_option.compositionality comp_def)

lemma set_state_over [simp]: "set_state h st ((set_state h st' ts)\<lparr>nextHandle := n\<rparr>) = (set_state h st ts)\<lparr>nextHandle := n\<rparr>"
  by (simp add: set_state_def set_promise_def map_option.compositionality comp_def)

lemma state_of [simp]: "frames ts h = Some p \<Longrightarrow> frames (set_state h st ts) h = Some (p\<lparr>pr_state := st\<rparr>)"
  by (simp add: set_state_def set_promise_def)

lemma set_state_frame [simp]: "nextHandle (set_state h st ts) = nextHandle ts" "finished (set_state h st ts) = finished ts"
  by (simp_all add: set_state_def set_promise_def)

lemma frame_handle: "fresh_handles ts \<Longrightarrow> frames ts h = Some p \<Longrightarrow> h < nextHandle ts"
  by (metis fresh_at not_le_imp_less option.distinct(1))

text \<open>
  The specialisation for \<open>void\<close> behaves like the general one on values of type \<open>unit\<close>: the result of a coroutine that
  returned or threw is the same, whether the value is kept or not.
\<close>

lemma void_like_unit:
  assumes "frames ts h = Some p" "pr_ex p = None"
  shows "void_await_resume h (return_void h ts) = task_await_resume h (return_value h () ts)"
    and "fst (void_final_suspend h (return_void h ts)) = fst (final_suspend h (return_value h () ts))"
    and "void_await_resume h (unhandled_exception h e ts) = task_await_resume h (unhandled_exception h e ts)"
  using assms by (auto simp: void_await_resume_def return_void_def task_await_resume_def return_value_def unhandled_exception_def
      set_promise_def void_final_suspend_def final_suspend_def set_state_def Let_def split: option.splits)

lemma resume_ended: "task_done h ts \<Longrightarrow> task_resume h as ts = Some (False, as, None, ts)"
  by (simp add: task_resume_def)

text \<open>A pause takes the next answer.\<close>

lemma drive_pause:
  assumes "frames ts h = Some p" "pr_state p = Ready (CoPause k)"
  shows "drive h (a # as) ts = drive h as (set_state h (Ready (k a)) ts)"
  by (subst drive.simps) (simp add: coro_step_def assms coro_answer_def)

text \<open>Awaiting a task starts its frame, with the awaiting one as its continuation.\<close>

definition awaited :: "handle \<Rightarrow> ('v, 'a) coro \<Rightarrow> ('v result \<Rightarrow> ('v, 'a) coro) \<Rightarrow> ('v, 'a) tasks \<Rightarrow> ('v, 'a) tasks" where
  "awaited h c k ts = (set_state h (Awaiting (nextHandle ts) k) ts)
     \<lparr>frames := (frames (set_state h (Awaiting (nextHandle ts) k) ts))(nextHandle ts \<mapsto>
        \<lparr>pr_value = None, continuation = Some h, pr_ex = None, pr_state = Ready c\<rparr>), nextHandle := Suc (nextHandle ts)\<rparr>"

lemma drive_await:
  assumes "frames ts h = Some p" "pr_state p = Ready (CoAwait c k)" "fresh_handles ts"
  shows "drive h as ts = drive (nextHandle ts) as (awaited h c k ts)"
proof -
  have "h \<noteq> nextHandle ts" using frame_handle [OF assms(3,1)] by simp
  then have "coro_step h ts = Some (Transfer (nextHandle ts), awaited h c k ts)"
    using assms(1,2) by (simp add: coro_step_def new_task_def task_await_ready_def task_await_suspend_def awaited_def set_state_def
        set_promise_def fun_upd_twist)
  then show ?thesis by (subst drive.simps) simp
qed

text \<open>The end of an awaited frame: the awaiting one goes on with its result, and the frame is gone.\<close>

lemma drive_end:
  fixes ts :: "('v, 'a) tasks"
  assumes "frames ts sub = Some \<lparr>pr_value = None, continuation = Some h, pr_ex = None, pr_state = Ready (ends_with r)\<rparr>"
    and "frames ts h = Some p" "pr_state p = Awaiting sub k" "sub \<noteq> h"
  shows "drive sub as ts = drive h as (task_destroy sub (set_state h (Ready (k r)) ts))"
proof -
  define p' :: "('v, 'a) promise" where "p' = \<lparr>pr_value = (case r of Inl e \<Rightarrow> None | Inr v \<Rightarrow> Some v), continuation = Some h,
    pr_ex = (case r of Inl e \<Rightarrow> Some e | Inr v \<Rightarrow> None), pr_state = AtFinal\<rparr>"
  let ?ts1 = "ts\<lparr>frames := (frames ts)(sub \<mapsto> p')\<rparr>"
  have "coro_step sub ts = Some (Transfer h, ?ts1)"
    using assms(1) by (cases r) (simp_all add: coro_step_def ends_with_def final_suspend_def return_value_def unhandled_exception_def
        set_state_def set_promise_def p'_def)
  moreover have "task_await_resume sub ?ts1 = Some r" by (cases r) (simp_all add: task_await_resume_def p'_def)
  then have "coro_step h ?ts1 = Some (Transfer h, task_destroy sub (set_state h (Ready (k r)) ts))"
    using assms(2-4) by (simp add: coro_step_def task_destroy_def set_state_def set_promise_def fun_upd_twist)
  ultimately show ?thesis by (subst drive.simps, simp, subst drive.simps) simp
qed

lemma drive_awaited_end:
  assumes "h < nextHandle ts" "frames ts (nextHandle ts) = None" "frames ts h = Some p"
  shows "drive (nextHandle ts) as ((set_state (nextHandle ts) (Ready (ends_with r)) (awaited h c k ts))\<lparr>nextHandle := n\<rparr>)
    = drive h as ((set_state h (Ready (k r)) ts)\<lparr>nextHandle := n\<rparr>)"
proof -
  let ?sub = "nextHandle ts"
  let ?ts2 = "(set_state ?sub (Ready (ends_with r)) (awaited h c k ts))\<lparr>nextHandle := n\<rparr>"
  have "drive ?sub as ?ts2 = drive h as (task_destroy ?sub (set_state h (Ready (k r)) ?ts2))"
    by (rule drive_end [where p = "p\<lparr>pr_state := Awaiting ?sub k\<rparr>"])
       (use assms in \<open>simp_all add: set_state_def set_promise_def awaited_def\<close>)
  also have "task_destroy ?sub (set_state h (Ready (k r)) ?ts2) = (set_state h (Ready (k r)) ts)\<lparr>nextHandle := n\<rparr>"
    using assms by (simp add: task_destroy_def set_state_def set_promise_def awaited_def fun_eq_iff)
  finally show ?thesis .
qed

text \<open>
  A body that ends with a result takes its frame to the point where it ends with it, and leaves the other frames as they
  were.
\<close>

lemma drive_call:
  assumes "call c as = Some (r, as')" "fresh_handles ts" "frames ts h = Some p" "pr_state p = Ready c"
  shows "\<exists>n \<ge> nextHandle ts. drive h as ts = drive h as' ((set_state h (Ready (ends_with r)) ts)\<lparr>nextHandle := n\<rparr>)"
  using assms
proof (induction c arbitrary: as as' r ts h p)
  case (CoReturn v)
  then have "set_state h (Ready (ends_with r)) ts = ts" by (cases ts) (auto simp: set_state_def set_promise_def ends_with_def)
  then show ?case using CoReturn by (intro exI [of _ "nextHandle ts"]) auto
next
  case (CoThrow e)
  then have "set_state h (Ready (ends_with r)) ts = ts" by (cases ts) (auto simp: set_state_def set_promise_def ends_with_def)
  then show ?case using CoThrow by (intro exI [of _ "nextHandle ts"]) auto
next
  case (CoPause k)
  from CoPause.prems(1) obtain a as1 where a: "as = a # as1" "call (k a) as1 = Some (r, as')" by (auto split: list.splits)
  have "\<exists>n \<ge> nextHandle (set_state h (Ready (k a)) ts). drive h as1 (set_state h (Ready (k a)) ts)
      = drive h as' ((set_state h (Ready (ends_with r)) (set_state h (Ready (k a)) ts))\<lparr>nextHandle := n\<rparr>)"
    by (rule CoPause.IH [OF _ a(2) fresh_set_state [OF CoPause.prems(2)] state_of [OF CoPause.prems(3)]]) simp_all
  then show ?case using drive_pause [OF CoPause.prems(3,4)] a(1) by simp
next
  case (CoAwait c k)
  from CoAwait.prems(1) obtain r1 as1 where c: "call c as = Some (r1, as1)" and k: "call (k r1) as1 = Some (r, as')"
    by (auto split: option.splits)
  let ?sub = "nextHandle ts" and ?ts1 = "awaited h c k ts"
  have lt: "h < ?sub" using frame_handle [OF CoAwait.prems(2,3)] .
  have none: "frames ts ?sub = None" using fresh_at [OF CoAwait.prems(2)] by simp
  have fresh1: "fresh_handles ?ts1" using CoAwait.prems(2) by (auto simp: fresh_handles_def awaited_def set_state_def set_promise_def)
  have sub1: "frames ?ts1 ?sub = Some \<lparr>pr_value = None, continuation = Some h, pr_ex = None, pr_state = Ready c\<rparr>"
    by (simp add: awaited_def)
  obtain n where n: "n \<ge> nextHandle ?ts1" "drive ?sub as ?ts1 = drive ?sub as1 ((set_state ?sub (Ready (ends_with r1)) ?ts1)\<lparr>nextHandle := n\<rparr>)"
    using CoAwait.IH(1) [OF c fresh1 sub1] by auto
  let ?ts2 = "(set_state ?sub (Ready (ends_with r1)) ?ts1)\<lparr>nextHandle := n\<rparr>"
  let ?ts3 = "(set_state h (Ready (k r1)) ts)\<lparr>nextHandle := n\<rparr>"
  have "drive ?sub as1 ?ts2 = drive h as1 ?ts3" using drive_awaited_end [OF lt none CoAwait.prems(3)] .
  then have 3: "drive h as ts = drive h as1 ?ts3" using n(2) drive_await [OF CoAwait.prems(3,4,2)] by simp
  have le: "nextHandle ts \<le> n" using n(1) by (simp add: awaited_def)
  then have f3: "fresh_handles ?ts3" using CoAwait.prems(2) by (simp add: fresh_handles_def set_state_def set_promise_def)
  have h3: "frames ?ts3 h = Some (p\<lparr>pr_state := Ready (k r1)\<rparr>)" using CoAwait.prems(3) by (simp add: set_state_def set_promise_def)
  have "\<exists>n' \<ge> nextHandle ?ts3. drive h as1 ?ts3 = drive h as' ((set_state h (Ready (ends_with r)) ?ts3)\<lparr>nextHandle := n'\<rparr>)"
    by (rule CoAwait.IH(2) [OF rangeI k f3 h3]) simp
  then obtain n' where "n' \<ge> nextHandle ?ts3" "drive h as1 ?ts3 = drive h as' ((set_state h (Ready (ends_with r)) ?ts3)\<lparr>nextHandle := n'\<rparr>)"
    by blast
  then show ?case using 3 le by (intro exI [of _ n']) simp
qed

text \<open>A body that needs more answers than there are leaves a coroutine waiting, and its own frame is not at its end.\<close>

definition stays :: "handle \<Rightarrow> ('v, 'a) tasks \<Rightarrow> ('a list \<times> handle option \<times> ('v, 'a) tasks) option \<Rightarrow> bool" where
  "stays h ts out \<longleftrightarrow> (\<exists>h' ts' p k. out = Some ([], Some h', ts') \<and> finished ts' = finished ts
     \<and> (\<forall>g < nextHandle ts. g \<noteq> h \<longrightarrow> frames ts' g = frames ts g) \<and> \<not> task_done h ts'
     \<and> frames ts' h' = Some p \<and> pr_state p = Paused k)"

lemma drive_stays:
  assumes "call c as = None" "fresh_handles ts" "frames ts h = Some p" "pr_state p = Ready c"
  shows "stays h ts (drive h as ts)"
  using assms
proof (induction c arbitrary: as ts h p)
  case (CoPause k)
  show ?case
  proof (cases as)
    case Nil
    have "drive h [] ts = Some ([], Some h, set_state h (Paused k) ts)"
      by (subst drive.simps) (simp add: coro_step_def CoPause.prems)
    then show ?thesis using CoPause.prems(3) Nil by (simp add: stays_def task_done_def) (simp add: set_state_def set_promise_def)
  next
    case (Cons a as1)
    have "stays h (set_state h (Ready (k a)) ts) (drive h as1 (set_state h (Ready (k a)) ts))"
      by (rule CoPause.IH [OF rangeI _ fresh_set_state [OF CoPause.prems(2)] state_of [OF CoPause.prems(3)]])
         (use CoPause.prems(1) Cons in simp_all)
    then show ?thesis using drive_pause [OF CoPause.prems(3,4)] Cons by (simp add: stays_def set_state_def set_promise_def)
  qed
next
  case (CoAwait c k)
  let ?sub = "nextHandle ts" and ?ts1 = "awaited h c k ts"
  have lt: "h < ?sub" using frame_handle [OF CoAwait.prems(2,3)] .
  have none: "frames ts ?sub = None" using fresh_at [OF CoAwait.prems(2)] by simp
  have fresh1: "fresh_handles ?ts1" using CoAwait.prems(2) by (auto simp: fresh_handles_def awaited_def set_state_def set_promise_def)
  have sub1: "frames ?ts1 ?sub = Some \<lparr>pr_value = None, continuation = Some h, pr_ex = None, pr_state = Ready c\<rparr>"
    by (simp add: awaited_def)
  have h1: "frames ?ts1 h = Some (p\<lparr>pr_state := Awaiting ?sub k\<rparr>)" using lt CoAwait.prems(3) by (simp add: awaited_def)
  have others: "frames ?ts1 g = frames ts g" if "g < ?sub" "g \<noteq> h" for g
    using that by (simp add: awaited_def set_state_def set_promise_def)
  show ?case
  proof (cases "call c as")
    case None
    have "stays ?sub ?ts1 (drive ?sub as ?ts1)" by (rule CoAwait.IH(1) [OF None fresh1 sub1]) simp
    then obtain h' ts' p' k' where 1: "drive ?sub as ?ts1 = Some ([], Some h', ts')" "finished ts' = finished ?ts1"
        "\<And>g. g < nextHandle ?ts1 \<Longrightarrow> g \<noteq> ?sub \<Longrightarrow> frames ts' g = frames ?ts1 g" "frames ts' h' = Some p'" "pr_state p' = Paused k'"
      unfolding stays_def by blast
    have n1: "nextHandle ?ts1 = Suc ?sub" "finished ?ts1 = finished ts" by (simp_all add: awaited_def)
    have "frames ts' h = Some (p\<lparr>pr_state := Awaiting ?sub k\<rparr>)" using 1(3) [of h] h1 lt n1 by simp
    then have "\<not> task_done h ts'" by (simp add: task_done_def)
    moreover have "frames ts' g = frames ts g" if "g < ?sub" "g \<noteq> h" for g using 1(3) [of g] others [OF that] that n1 by simp
    ultimately show ?thesis unfolding stays_def drive_await [OF CoAwait.prems(3,4,2)] using 1 n1 by auto
  next
    case (Some ra)
    obtain r1 as1 where ra: "ra = (r1, as1)" by (cases ra)
    then have c: "call c as = Some (r1, as1)" and k: "call (k r1) as1 = None" using Some CoAwait.prems(1) by simp_all
    obtain n where n: "n \<ge> nextHandle ?ts1" "drive ?sub as ?ts1 = drive ?sub as1 ((set_state ?sub (Ready (ends_with r1)) ?ts1)\<lparr>nextHandle := n\<rparr>)"
      using drive_call [OF c fresh1 sub1] by auto
    let ?ts2 = "(set_state ?sub (Ready (ends_with r1)) ?ts1)\<lparr>nextHandle := n\<rparr>"
    let ?ts3 = "(set_state h (Ready (k r1)) ts)\<lparr>nextHandle := n\<rparr>"
    have "drive ?sub as1 ?ts2 = drive h as1 ?ts3"
      using drive_awaited_end [OF lt none CoAwait.prems(3)] .
    then have 3: "drive h as ts = drive h as1 ?ts3" using n(2) drive_await [OF CoAwait.prems(3,4,2)] by simp
    have le: "nextHandle ts \<le> n" using n(1) by (simp add: awaited_def)
    then have f3: "fresh_handles ?ts3" using CoAwait.prems(2) by (simp add: fresh_handles_def set_state_def set_promise_def)
    have h3: "frames ?ts3 h = Some (p\<lparr>pr_state := Ready (k r1)\<rparr>)" using CoAwait.prems(3) by (simp add: set_state_def set_promise_def)
    have "stays h ?ts3 (drive h as1 ?ts3)" by (rule CoAwait.IH(2) [OF rangeI k f3 h3]) simp
    then show ?thesis unfolding 3 using le by (auto simp: stays_def set_state_def set_promise_def)
  qed
qed simp_all

text \<open>The frame of a spawned body at its end.\<close>

lemma drive_spawned_end:
  assumes "frames ts h = Some \<lparr>pr_value = None, continuation = None, pr_ex = None, pr_state = Ready (ends_with r)\<rparr>"
  shows "drive h as ts = Some (as, None, ts\<lparr>frames := (frames ts)(h \<mapsto>
    \<lparr>pr_value = (case r of Inl e \<Rightarrow> None | Inr v \<Rightarrow> Some v), continuation = None,
     pr_ex = (case r of Inl e \<Rightarrow> Some e | Inr v \<Rightarrow> None), pr_state = AtFinal\<rparr>), finished := finished ts @ [h]\<rparr>)"
  using assms by (subst drive.simps) (cases r; simp add: coro_step_def ends_with_def final_suspend_def return_value_def unhandled_exception_def
      set_state_def set_promise_def notifyTaskFinished_def)

end
