(* ===== verification/Pools.thy ===== *)
theory Pools
  imports EventLoop
begin

text \<open>
  Pools of items: \<open>rukh/include/rukh/core/AsyncPool.hpp\<close>, and the pool of pipes of a thread,
  \<open>rukh/include/rukh/core/PipePool.hpp\<close> and \<open>rukh/src/core/PipePool.cpp\<close>.

  A critical section is one step. What follows it without the lock and is seen by nobody else (filling the slot of a waiter
  that was taken out) belongs to the step. The locale \<open>item_pool\<close> is the interface that both pools share: what is free and what was
  handed out are together always the same items.
\<close>

section \<open>The contract of a pool\<close>

text \<open>
  \<open>acquire\<close> gives an item or has the caller wait; \<open>release\<close> puts the item back or hands it to who waits, whom it returns.
  \<open>made\<close> is the item an argument may bring into being. Events are the calls of users; a user releases only what was given
  out.
\<close>

datatype ('e, 'i) pool_event = AcquireItem 'e | ReleaseItem 'i

locale item_pool =
  fixes acquire :: "'e \<Rightarrow> 's \<Rightarrow> 'i option \<times> 's"
    and release :: "'i \<Rightarrow> 's \<Rightarrow> bool \<times> 's"
    and free :: "'s \<Rightarrow> 'i multiset"
    and made :: "'e \<Rightarrow> 'i option"
  assumes acquire_wait: "acquire e s = (None, s') \<Longrightarrow> free s' = free s"
    and acquire_got: "acquire e s = (Some i, s') \<Longrightarrow> free s = add_mset i (free s') \<or> made e = Some i \<and> free s' = free s"
    and release_free: "release i s = (False, s') \<Longrightarrow> free s' = add_mset i (free s)"
    and release_handed: "release i s = (True, s') \<Longrightarrow> free s' = free s"
begin

fun event :: "('e, 'i) pool_event \<Rightarrow> 's \<times> 'i multiset \<Rightarrow> 's \<times> 'i multiset" where
  "event (AcquireItem e) (s, used) = (case acquire e s of (None, s') \<Rightarrow> (s', used) | (Some i, s') \<Rightarrow> (s', add_mset i used))"
| "event (ReleaseItem i) (s, used) = (case release i s of (False, s') \<Rightarrow> (s', used - {#i#}) | (True, s') \<Rightarrow> (s', used))"

definition items :: "'s \<times> 'i multiset \<Rightarrow> 'i multiset" where
  "items = (\<lambda>(s, used). free s + used)"

text \<open>An event is allowed: what is released is in use, and what is made is new.\<close>

fun allowed :: "('e, 'i) pool_event \<Rightarrow> 's \<times> 'i multiset \<Rightarrow> bool" where
  "allowed (AcquireItem e) su = (\<forall>i. made e = Some i \<longrightarrow> i \<notin># items su)"
| "allowed (ReleaseItem i) su = (i \<in># snd su)"

fun all_allowed :: "('e, 'i) pool_event list \<Rightarrow> 's \<times> 'i multiset \<Rightarrow> bool" where
  "all_allowed [] su = True"
| "all_allowed (ev # evs) su = (allowed ev su \<and> all_allowed evs (event ev su))"

definition each_once :: "'i multiset \<Rightarrow> bool" where
  "each_once m \<longleftrightarrow> (\<forall>i. count m i \<le> 1)"

lemma event_once:
  assumes "allowed ev su" "each_once (items su)"
  shows "each_once (items (event ev su))"
proof (cases ev)
  case (AcquireItem e)
  obtain s used where su: "su = (s, used)" by (cases su)
  show ?thesis
  proof (cases "acquire e s")
    case (Pair got s')
    show ?thesis
    proof (cases got)
      case None
      then show ?thesis using assms(2) acquire_wait Pair by (simp add: AcquireItem su items_def)
    next
      case (Some i)
      consider "free s = add_mset i (free s')" | "made e = Some i" "free s' = free s" using acquire_got Pair Some by blast
      then show ?thesis
      proof cases
        case 2
        then have "count (free s + used) i = 0" using assms(1) by (simp add: AcquireItem su items_def not_in_iff)
        then show ?thesis using assms(2) 2 Pair Some by (auto simp: AcquireItem su items_def each_once_def)
      qed (use assms(2) Pair Some in \<open>simp add: AcquireItem su items_def\<close>)
    qed
  qed
next
  case (ReleaseItem i)
  obtain s used where su: "su = (s, used)" by (cases su)
  have i: "i \<in># used" using assms(1) by (simp add: ReleaseItem su)
  then have put: "add_mset i (m + (used - {#i#})) = m + used" for m
    by (simp add: multiset_eq_iff)
  show ?thesis
  proof (cases "release i s")
    case (Pair handed s')
    have "items (event ev su) = items su"
    proof (cases handed)
      case False
      then have "items (event ev su) = add_mset i (free s + (used - {#i#}))"
        using Pair release_free by (simp add: ReleaseItem su items_def)
      also have "\<dots> = items su" unfolding put by (simp add: su items_def)
      finally show ?thesis .
    qed (use Pair release_handed in \<open>simp add: ReleaseItem su items_def\<close>)
    then show ?thesis using assms(2) by simp
  qed
qed

text \<open>No item is ever given to two users at a time, nor free while it is in use.\<close>

lemma run_once: "all_allowed evs su \<Longrightarrow> each_once (items su) \<Longrightarrow> each_once (items (fold event evs su))"
  by (induction evs arbitrary: su) (simp_all add: event_once)

end

section \<open>AsyncPool\<close>

text \<open>\<open>slots\<close> is what the waiters' result pointers point at, \<open>resumed\<close> the calls of \<open>post\<close> (executor and coroutine).\<close>

record pool_waiter =
  w_handle :: handle
  w_executor :: nat

record 'i async_pool =
  available :: "'i list"
  waiters :: "pool_waiter list"
  slots :: "handle \<Rightarrow> 'i option"
  resumed :: "(nat \<times> handle) list"

definition new_async_pool :: "'i list \<Rightarrow> 'i async_pool" where
  "new_async_pool is = \<lparr>available = is, waiters = [], slots = (\<lambda>_. None), resumed = []\<rparr>"

definition pop_available :: "'i async_pool \<Rightarrow> 'i \<times> 'i async_pool" where
  "pop_available p = (last (available p), p\<lparr>available := butlast (available p)\<rparr>)"

text \<open>
  \<open>await_suspend\<close> with the lock that \<open>acquire\<close> took: with an item the coroutine goes on at once, otherwise it waits.
\<close>

definition acquire_suspend :: "pool_waiter \<Rightarrow> 'i async_pool \<Rightarrow> 'i option \<times> 'i async_pool" where
  "acquire_suspend w p =
     (if available p \<noteq> [] then (case pop_available p of (item, p') \<Rightarrow> (Some item, p'))
      else (None, p\<lparr>waiters := waiters p @ [w]\<rparr>))"

definition async_acquire :: "pool_waiter \<Rightarrow> 'i async_pool \<Rightarrow> 'i option \<times> 'i async_pool" where
  "async_acquire w p =
     (if available p \<noteq> [] then (case pop_available p of (item, p') \<Rightarrow> (Some item, p'))
      else acquire_suspend w p)"

definition async_release :: "'i \<Rightarrow> 'i async_pool \<Rightarrow> bool \<times> 'i async_pool" where
  "async_release item p =
     (case waiters p of
        w # ws \<Rightarrow> (True, p\<lparr>waiters := ws, slots := (slots p)(w_handle w \<mapsto> item), resumed := resumed p @ [(w_executor w, w_handle w)]\<rparr>)
      | [] \<Rightarrow> (False, p\<lparr>available := available p @ [item]\<rparr>))"

text \<open>\<open>await_resume\<close> of the coroutine that was posted.\<close>

definition acquire_resume :: "handle \<Rightarrow> 'i async_pool \<Rightarrow> 'i option" where
  "acquire_resume h p = slots p h"

lemma mset_last: "xs \<noteq> [] \<Longrightarrow> mset xs = add_mset (last xs) (mset (butlast xs))"
  using append_butlast_last_id [of xs] mset_append [of "butlast xs" "[last xs]"] by simp

interpretation async: item_pool async_acquire async_release "\<lambda>p. mset (available p)" "\<lambda>_. None"
  by unfold_locales
     (auto simp: async_acquire_def acquire_suspend_def pop_available_def async_release_def mset_last split: if_splits list.splits)

text \<open>Nobody waits while an item is free, and the second look at the free list never finds one.\<close>

definition pool_ok :: "'i async_pool \<Rightarrow> bool" where
  "pool_ok p \<longleftrightarrow> (waiters p \<noteq> [] \<longrightarrow> available p = [])"

lemma pool_ok_ops:
  "pool_ok (new_async_pool is)"
  "pool_ok p \<Longrightarrow> pool_ok (snd (async_acquire w p))"
  "pool_ok p \<Longrightarrow> pool_ok (snd (async_release i p))"
  by (auto simp: pool_ok_def new_async_pool_def async_acquire_def acquire_suspend_def pop_available_def async_release_def split: list.splits)

lemma second_look_dead: "available p = [] \<Longrightarrow> async_acquire w p = (None, p\<lparr>waiters := waiters p @ [w]\<rparr>)"
  by (simp add: async_acquire_def acquire_suspend_def)

text \<open>Releases serve the waiters in the order they came, each with its own item.\<close>

definition release_all :: "'i list \<Rightarrow> 'i async_pool \<Rightarrow> 'i async_pool" where
  "release_all is p = fold (\<lambda>i q. snd (async_release i q)) is p"

lemma release_all_resumes:
  assumes "length is \<le> length (waiters p)"
  shows "waiters (release_all is p) = drop (length is) (waiters p) \<and> available (release_all is p) = available p
    \<and> resumed (release_all is p) = resumed p @ map (\<lambda>w. (w_executor w, w_handle w)) (take (length is) (waiters p))"
  using assms
proof (induction "is" arbitrary: p)
  case (Cons i "is")
  then obtain w ws where w: "waiters p = w # ws" by (cases "waiters p") auto
  let ?q = "snd (async_release i p)"
  have q: "waiters ?q = ws" "available ?q = available p" "resumed ?q = resumed p @ [(w_executor w, w_handle w)]"
    by (simp_all add: async_release_def w)
  have "release_all (i # is) p = release_all is ?q" by (simp add: release_all_def)
  then show ?case using Cons.IH [of ?q] Cons.prems by (simp add: q w)
qed (simp add: release_all_def)

lemma release_all_slots:
  assumes "distinct (map w_handle (waiters p))" "length is \<le> length (waiters p)" "k < length is"
  shows "acquire_resume (w_handle (waiters p ! k)) (release_all is p) = Some (is ! k)"
  using assms
proof (induction "is" arbitrary: p k)
  case (Cons i "is")
  then obtain w ws where w: "waiters p = w # ws" by (cases "waiters p") auto
  let ?q = "snd (async_release i p)"
  have q: "waiters ?q = ws" "slots ?q = (slots p)(w_handle w \<mapsto> i)" by (simp_all add: async_release_def w)
  have r: "release_all (i # is) p = release_all is ?q" by (simp add: release_all_def)
  have others: "slots (release_all js p') h = slots p' h" if "h \<notin> w_handle ` set (waiters p')" for js p' h
    using that
  proof (induction js arbitrary: p')
    case (Cons j js)
    have r: "release_all (j # js) p' = release_all js (snd (async_release j p'))" by (simp add: release_all_def)
    show ?case
    proof (cases "waiters p'")
      case Nil
      then show ?thesis using Cons.IH [of "snd (async_release j p')"] r by (simp add: async_release_def)
    next
      case (Cons v vs)
      then show ?thesis using Cons.IH [of "snd (async_release j p')"] Cons.prems r by (simp add: async_release_def)
    qed
  qed (simp add: release_all_def)
  show ?case
  proof (cases k)
    case 0
    have "w_handle w \<notin> w_handle ` set (waiters ?q)" using Cons.prems(1) w q by simp
    then show ?thesis using others [of "w_handle w" ?q "is"] 0 w q r by (simp add: acquire_resume_def)
  next
    case (Suc j)
    then show ?thesis using Cons.IH [of ?q j] Cons.prems w q r by simp
  qed
qed simp

section \<open>PipePool\<close>

record pipe =
  pipe_in :: int
  pipe_out :: int

record pipe_pool =
  freePipes :: "pipe list"
  pipeWaiters :: "int list"
  created :: nat
  maxPipes :: nat

definition new_pipe_pool :: pipe_pool where
  "new_pipe_pool = \<lparr>freePipes = [], pipeWaiters = [], created = 0, maxPipes = 48\<rparr>"

text \<open>
  \<open>made\<close> is what \<open>pipe2\<close> gives: the two ends it opens, or nothing. A pipe whose size cannot be set is used all the same.
\<close>

definition tryAcquire :: "(int \<times> int) option \<Rightarrow> pipe_pool \<Rightarrow> pipe option \<times> pipe_pool" where
  "tryAcquire made p =
     (if freePipes p \<noteq> [] then (Some (last (freePipes p)), p\<lparr>freePipes := butlast (freePipes p)\<rparr>)
      else if created p \<ge> maxPipes p then (None, p)
      else (case made of
              None \<Rightarrow> (None, p)
            | Some (fd0, fd1) \<Rightarrow> (Some \<lparr>pipe_in = fd1, pipe_out = fd0\<rparr>, p\<lparr>created := sz_add (created p) 1\<rparr>)))"

definition wakeOneWaiter :: "pipe_pool \<times> executor \<Rightarrow> pipe_pool \<times> executor" where
  "wakeOneWaiter pe =
     (case pe of (p, ex) \<Rightarrow>
        case pipeWaiters p of
          [] \<Rightarrow> (p, ex)
        | key # ks \<Rightarrow> (p\<lparr>pipeWaiters := ks\<rparr>, fireEvent (narrow key) ex))"

definition pipe_release :: "pipe \<Rightarrow> pipe_pool \<times> executor \<Rightarrow> pipe_pool \<times> executor" where
  "pipe_release q pe = (case pe of (p, ex) \<Rightarrow> wakeOneWaiter (p\<lparr>freePipes := freePipes p @ [q]\<rparr>, ex))"

text \<open>Both ends are closed.\<close>

definition pipe_discard :: "pipe \<Rightarrow> pipe_pool \<times> executor \<Rightarrow> pipe_pool \<times> executor" where
  "pipe_discard q pe = (case pe of (p, ex) \<Rightarrow> wakeOneWaiter (p\<lparr>created := sz_sub (created p) 1\<rparr>, ex))"

definition pipe_wait_suspend :: "int \<Rightarrow> handle \<Rightarrow> pipe_pool \<times> executor \<Rightarrow> pipe_pool \<times> executor" where
  "pipe_wait_suspend deadline h pe =
     (case pe of (p, ex) \<Rightarrow> case waitForEvent h deadline ex of (key, ex') \<Rightarrow> (p\<lparr>pipeWaiters := pipeWaiters p @ [key]\<rparr>, ex'))"

text \<open>
  The loop of \<open>acquire\<close> from a call or a resumption up to its end or its next wait: \<open>Some\<close> is the value it returns.
\<close>

definition pipe_acquire :: "(int \<times> int) option \<Rightarrow> int \<Rightarrow> handle \<Rightarrow> pipe_pool \<times> executor \<Rightarrow> pipe option option \<times> pipe_pool \<times> executor" where
  "pipe_acquire made deadline h pe =
     (case pe of (p, ex) \<Rightarrow>
        case tryAcquire made p of
          (Some q, p') \<Rightarrow> (Some (Some q), p', ex)
        | (None, p') \<Rightarrow> (None, pipe_wait_suspend deadline h (p', ex)))"

definition pipe_acquire_resumed :: "bool \<Rightarrow> (int \<times> int) option \<Rightarrow> int \<Rightarrow> handle \<Rightarrow> pipe_pool \<times> executor \<Rightarrow> pipe option option \<times> pipe_pool \<times> executor" where
  "pipe_acquire_resumed timed_out made deadline h pe =
     (if timed_out then (Some None, pe) else pipe_acquire made deadline h pe)"

text \<open>The pool as a pool of pipes: what is released is never handed over, the waiter looks again.\<close>

interpretation pipes: item_pool tryAcquire "\<lambda>q p. (False, p\<lparr>freePipes := freePipes p @ [q]\<rparr>)" "\<lambda>p. mset (freePipes p)"
    "map_option (\<lambda>(fd0, fd1). \<lparr>pipe_in = fd1, pipe_out = fd0\<rparr>)"
  by unfold_locales (auto simp: tryAcquire_def mset_last split: if_splits option.splits)

text \<open>The number of pipes never passes the bound, and counts those in use and the free ones.\<close>

definition pipes_ok :: "nat \<Rightarrow> pipe_pool \<Rightarrow> bool" where
  "pipes_ok used p \<longleftrightarrow> created p = used + length (freePipes p) \<and> created p \<le> maxPipes p \<and> maxPipes p < sz_limit"

lemma wake_pool [simp]:
  "freePipes (fst (wakeOneWaiter (p, ex))) = freePipes p" "created (fst (wakeOneWaiter (p, ex))) = created p"
  "maxPipes (fst (wakeOneWaiter (p, ex))) = maxPipes p"
  by (simp_all add: wakeOneWaiter_def split: list.splits)

lemma pipes_ok_ops:
  "pipes_ok 0 new_pipe_pool"
  "pipes_ok used p \<Longrightarrow> tryAcquire made p = (Some q, p') \<Longrightarrow> pipes_ok (Suc used) p'"
  "pipes_ok used p \<Longrightarrow> tryAcquire made p = (None, p') \<Longrightarrow> p' = p"
  "pipes_ok (Suc used) p \<Longrightarrow> pipes_ok used (fst (pipe_release q (p, ex)))"
  "pipes_ok (Suc used) p \<Longrightarrow> pipes_ok used (fst (pipe_discard q (p, ex)))"
  "pipes_ok used p \<Longrightarrow> pipes_ok used (fst (pipe_wait_suspend deadline h (p, ex)))"
  by (auto simp: pipes_ok_def new_pipe_pool_def sz_limit_def tryAcquire_def pipe_release_def pipe_discard_def pipe_wait_suspend_def sz_add_def sz_sub_def
      split: if_splits option.splits prod.splits)

text \<open>A waiter whose key still waits is made ready by a release; the key of one that timed out uses the wake-up up.\<close>

lemma fire_waiting:
  "suspendedTasks ex (narrow key) = Some s \<Longrightarrow> fireEvent key ex = wake_waiting (narrow key) s False ex"
  "suspendedTasks ex (narrow key) = None \<Longrightarrow> fireEvent key ex = ex"
  by (simp_all add: fireEvent_def)

lemma narrow_idem [simp]: "narrow (narrow k) = narrow k"
  by (simp add: narrow_def mod_add_left_eq)

lemma release_wakes_first:
  assumes "pipeWaiters p = key # ks" "suspendedTasks ex (narrow key) = Some s"
  shows "readyQueue (snd (pipe_release q (p, ex))) = readyQueue ex @ [(st_handle s, False)]"
  using assms by (simp add: pipe_release_def wakeOneWaiter_def fire_waiting wake_waiting_def make_ready_def)

lemma release_wake_lost:
  assumes "pipeWaiters p = key # ks" "suspendedTasks ex (narrow key) = None"
  shows "snd (pipe_release q (p, ex)) = ex \<and> pipeWaiters (fst (pipe_release q (p, ex))) = ks"
  using assms by (simp add: pipe_release_def wakeOneWaiter_def fire_waiting)

text \<open>A timeout leaves the key among the waiters.\<close>

lemma timeout_keeps_key: "pipe_acquire_resumed True made deadline h pe = (Some None, pe)"
  by (simp add: pipe_acquire_resumed_def)

end
