(* ===== verification/ThreadPools.thy ===== *)
theory ThreadPools
  imports EventLoop
begin

text \<open>
  \<open>ThreadPool\<close>, \<open>PoolJob\<close>, \<open>PoolJobState\<close> and \<open>PoolJobAwaitable\<close> of \<open>rukh/include/rukh/pool/\<close>.

  The pool is a queue of jobs and threads that run them; a critical section is one step. The state that a job shares with
  the coroutine that awaits it is accessed without a lock: there each access is a step of its own, and the steps of the
  two sides interleave.
\<close>

section \<open>ThreadPool\<close>

record 'j thread_pool =
  poolSize :: nat
  pool_shutdown :: bool
  maxQueueSize :: nat
  jobQueue :: "'j list"

definition new_thread_pool :: "nat \<Rightarrow> 'j thread_pool" where
  "new_thread_pool n = \<lparr>poolSize = n, pool_shutdown = False, maxQueueSize = 1024, jobQueue = []\<rparr>"

definition setMaxQueueSize :: "nat \<Rightarrow> 'j thread_pool \<Rightarrow> 'j thread_pool" where
  "setMaxQueueSize n p = p\<lparr>maxQueueSize := n\<rparr>"

definition pool_enqueue :: "'j \<Rightarrow> 'j thread_pool \<Rightarrow> unit result \<times> 'j thread_pool" where
  "pool_enqueue j p =
     (if length (jobQueue p) \<ge> maxQueueSize p then (Inl (serverException ''Thread pool queue is full'' 500), p)
      else (Inr (), p\<lparr>jobQueue := jobQueue p @ [j]\<rparr>))"

text \<open>\<open>submit\<close> lets the exception out; \<open>fireAndForget\<close> logs it.\<close>

definition pool_submit :: "'j \<Rightarrow> 'j thread_pool \<Rightarrow> 'j result \<times> 'j thread_pool" where
  "pool_submit j p = (case pool_enqueue j p of (Inl e, p') \<Rightarrow> (Inl e, p') | (Inr _, p') \<Rightarrow> (Inr j, p'))"

definition fireAndForget :: "'j \<Rightarrow> 'j thread_pool \<times> exn list \<Rightarrow> 'j thread_pool \<times> exn list" where
  "fireAndForget j pl =
     (case pl of (p, log) \<Rightarrow> case pool_enqueue j p of (Inl e, p') \<Rightarrow> (p', log @ [e]) | (Inr _, p') \<Rightarrow> (p', log))"

text \<open>What a worker does when it has the lock: it waits on, ends, or takes the first job.\<close>

datatype 'j worker_turn = KeepWaiting | EndThread | RunJob 'j

definition worker_turn :: "'j thread_pool \<Rightarrow> 'j worker_turn \<times> 'j thread_pool" where
  "worker_turn p =
     (case jobQueue p of
        [] \<Rightarrow> (if pool_shutdown p then EndThread else KeepWaiting, p)
      | j # js \<Rightarrow> (RunJob j, p\<lparr>jobQueue := js\<rparr>))"

definition pool_destroy :: "'j thread_pool \<Rightarrow> 'j thread_pool" where
  "pool_destroy p = p\<lparr>pool_shutdown := True\<rparr>"

text \<open>
  The threads of the pool. \<open>accepted\<close>, \<open>begun\<close> and \<open>ended\<close> are the jobs in the order in which they entered the queue, were
  taken by a worker, and returned. Once the destructor runs only a running job can still submit another.
\<close>

datatype 'j worker = Idle | Running 'j | Exited

record 'j pool_system =
  pool :: "'j thread_pool"
  workers :: "'j worker list"
  accepted :: "'j list"
  begun :: "'j list"
  ended :: "'j list"

definition new_pool_system :: "nat \<Rightarrow> nat \<Rightarrow> 'j pool_system" where
  "new_pool_system n maxQueue = \<lparr>pool = setMaxQueueSize maxQueue (new_thread_pool n), workers = replicate n Idle, accepted = [], begun = [], ended = []\<rparr>"

definition job_running :: "'j pool_system \<Rightarrow> bool" where
  "job_running s \<longleftrightarrow> (\<exists>j. Running j \<in> set (workers s))"

inductive pool_step :: "'j pool_system \<Rightarrow> 'j pool_system \<Rightarrow> bool" where
  enqueue_accepted: "\<not> pool_shutdown (pool s) \<or> job_running s \<Longrightarrow> pool_enqueue j (pool s) = (Inr u, p) \<Longrightarrow>
     pool_step s (s\<lparr>pool := p, accepted := accepted s @ [j]\<rparr>)"
| enqueue_refused: "pool_enqueue j (pool s) = (Inl e, p) \<Longrightarrow> pool_step s (s\<lparr>pool := p\<rparr>)"
| job_taken: "i < length (workers s) \<Longrightarrow> workers s ! i = Idle \<Longrightarrow> worker_turn (pool s) = (RunJob j, p) \<Longrightarrow>
     pool_step s (s\<lparr>pool := p, workers := (workers s)[i := Running j], begun := begun s @ [j]\<rparr>)"
| job_ended: "i < length (workers s) \<Longrightarrow> workers s ! i = Running j \<Longrightarrow>
     pool_step s (s\<lparr>workers := (workers s)[i := Idle], ended := ended s @ [j]\<rparr>)"
| worker_ended: "i < length (workers s) \<Longrightarrow> workers s ! i = Idle \<Longrightarrow> worker_turn (pool s) = (EndThread, p) \<Longrightarrow>
     pool_step s (s\<lparr>pool := p, workers := (workers s)[i := Exited]\<rparr>)"
| destructor: "pool_step s (s\<lparr>pool := pool_destroy (pool s)\<rparr>)"

inductive pool_reachable :: "nat \<Rightarrow> nat \<Rightarrow> 'j pool_system \<Rightarrow> bool" for n maxQueue where
  start: "pool_reachable n maxQueue (new_pool_system n maxQueue)"
| step: "pool_reachable n maxQueue s \<Longrightarrow> pool_step s s' \<Longrightarrow> pool_reachable n maxQueue s'"

fun running_of :: "'j worker \<Rightarrow> 'j list" where
  "running_of (Running j) = [j]"
| "running_of w = []"

definition running_jobs :: "'j pool_system \<Rightarrow> 'j multiset" where
  "running_jobs s = mset (concat (map running_of (workers s)))"

definition pool_inv :: "nat \<Rightarrow> nat \<Rightarrow> 'j pool_system \<Rightarrow> bool" where
  "pool_inv n maxQueue s \<longleftrightarrow> begun s @ jobQueue (pool s) = accepted s
     \<and> mset (begun s) = mset (ended s) + running_jobs s
     \<and> length (jobQueue (pool s)) \<le> maxQueue \<and> maxQueueSize (pool s) = maxQueue \<and> length (workers s) = n
     \<and> (Exited \<in> set (workers s) \<longrightarrow> pool_shutdown (pool s))
     \<and> (0 < n \<longrightarrow> jobQueue (pool s) \<noteq> [] \<longrightarrow> set (workers s) \<noteq> {Exited})"

lemma running_update:
  assumes "i < length ws"
  shows "mset (concat (map running_of (ws[i := w]))) + mset (running_of (ws ! i)) = mset (concat (map running_of ws)) + mset (running_of w)"
  using assms by (induction ws arbitrary: i) (auto split: nat.splits)

lemma not_all_exited: "i < length ws \<Longrightarrow> ws ! i \<noteq> Exited \<Longrightarrow> set ws \<noteq> {Exited}"
  by (metis nth_mem singletonD)

lemma pool_inv_step:
  assumes "pool_inv n maxQueue s" "pool_step s s'"
  shows "pool_inv n maxQueue s'"
  using assms(2,1)
proof cases
  case (enqueue_accepted j u p)
  have q: "p = (pool s)\<lparr>jobQueue := jobQueue (pool s) @ [j]\<rparr>" "length (jobQueue (pool s)) < maxQueueSize (pool s)"
    using enqueue_accepted(3) by (auto simp: pool_enqueue_def split: if_splits)
  have "set (workers s) \<noteq> {Exited}" if "0 < n"
  proof (cases "pool_shutdown (pool s)")
    case True
    then obtain j' where "Running j' \<in> set (workers s)" using enqueue_accepted(2) by (auto simp: job_running_def)
    then show ?thesis by (metis singletonD worker.distinct(5))
  next
    case False
    then show ?thesis using assms(1) that by (auto simp: pool_inv_def)
  qed
  then show ?thesis using assms(1) q by (simp add: enqueue_accepted(1) pool_inv_def running_jobs_def)
next
  case (enqueue_refused j e p)
  then show ?thesis using assms(1) by (auto simp: pool_enqueue_def pool_inv_def running_jobs_def split: if_splits)
next
  case (job_taken i j p)
  obtain js where js: "jobQueue (pool s) = j # js" "p = (pool s)\<lparr>jobQueue := js\<rparr>"
    using job_taken(4) by (auto simp: worker_turn_def split: list.splits if_splits)
  have "mset (concat (map running_of ((workers s)[i := Running j]))) = add_mset j (running_jobs s)"
    using running_update [OF job_taken(2), of "Running j"] job_taken(3) by (simp add: running_jobs_def)
  moreover have "set ((workers s)[i := Running j]) \<noteq> {Exited}" using not_all_exited [of i "(workers s)[i := Running j]"] job_taken(2) by simp
  moreover have "Exited \<in> set ((workers s)[i := Running j]) \<Longrightarrow> Exited \<in> set (workers s)" using set_update_subset_insert by fastforce
  ultimately show ?thesis using assms(1) js by (auto simp: job_taken(1) pool_inv_def running_jobs_def)
next
  case (job_ended i j)
  have "add_mset j (mset (concat (map running_of ((workers s)[i := Idle])))) = running_jobs s"
    using running_update [OF job_ended(2), of Idle] job_ended(3) by (simp add: running_jobs_def)
  moreover have "set ((workers s)[i := Idle]) \<noteq> {Exited}" using not_all_exited [of i "(workers s)[i := Idle]"] job_ended(2) by simp
  moreover have "Exited \<in> set ((workers s)[i := Idle]) \<Longrightarrow> Exited \<in> set (workers s)" using set_update_subset_insert by fastforce
  ultimately show ?thesis using assms(1) by (auto simp: job_ended(1) pool_inv_def running_jobs_def)
next
  case (worker_ended i p)
  have q: "jobQueue (pool s) = []" "pool_shutdown (pool s)" "p = pool s"
    using worker_ended(4) by (auto simp: worker_turn_def split: list.splits if_splits)
  have "mset (concat (map running_of ((workers s)[i := Exited]))) = running_jobs s"
    using running_update [OF worker_ended(2), of Exited] worker_ended(3) by (simp add: running_jobs_def)
  then show ?thesis using assms(1) q by (auto simp: worker_ended(1) pool_inv_def running_jobs_def)
next
  case destructor
  then show ?thesis using assms(1) by (auto simp: pool_inv_def pool_destroy_def running_jobs_def)
qed

lemma pool_inv_start: "pool_inv n maxQueue (new_pool_system n maxQueue)"
  by (auto simp: pool_inv_def new_pool_system_def setMaxQueueSize_def new_thread_pool_def running_jobs_def)

lemma pool_invariant: "pool_reachable n maxQueue s \<Longrightarrow> pool_inv n maxQueue s"
  by (induction rule: pool_reachable.induct) (auto intro: pool_inv_start pool_inv_step)

text \<open>When all the threads have ended, every accepted job has been run, each once.\<close>

lemma all_exited_running: "set ws = {Exited} \<Longrightarrow> concat (map running_of ws) = []"
  by simp

lemma joined_all_run:
  assumes "pool_reachable n maxQueue s" "0 < n" "set (workers s) = {Exited}"
  shows "begun s = accepted s \<and> mset (ended s) = mset (accepted s)"
proof -
  have inv: "pool_inv n maxQueue s" by (rule pool_invariant [OF assms(1)])
  have "jobQueue (pool s) = []" using inv assms(2,3) unfolding pool_inv_def by blast
  moreover have "running_jobs s = {#}" unfolding running_jobs_def all_exited_running [OF assms(3)] by simp
  moreover have "mset (begun s) = mset (ended s) + running_jobs s" "begun s @ jobQueue (pool s) = accepted s" using inv unfolding pool_inv_def by blast+
  ultimately have b: "begun s = accepted s" and e: "mset (begun s) = mset (ended s)" by simp_all
  show ?thesis using e unfolding b by simp
qed

section \<open>A job and the coroutine that awaits it\<close>

record 'r job_state =
  js_result :: "'r option"
  js_exception :: "exn option"
  js_caller :: handle
  js_executor :: bool
  js_done :: bool
  callerSetOrJobComplete :: bool

definition new_job_state :: "bool \<Rightarrow> 'r job_state" where
  "new_job_state ex = \<lparr>js_result = None, js_exception = None, js_caller = null_handle, js_executor = ex, js_done = False,
     callerSetOrJobComplete = False\<rparr>"

text \<open>The accesses of \<open>runJob\<close>; \<open>posts\<close> are the calls of \<open>post\<close> on the executor.\<close>

definition store_outcome :: "'r result \<Rightarrow> 'r job_state \<Rightarrow> 'r job_state" where
  "store_outcome r j = (case r of Inl e \<Rightarrow> j\<lparr>js_exception := Some e\<rparr> | Inr v \<Rightarrow> j\<lparr>js_result := Some v\<rparr>)"

definition set_done :: "'r job_state \<Rightarrow> 'r job_state" where
  "set_done j = j\<lparr>js_done := True\<rparr>"

definition worker_exchange :: "'r job_state \<times> handle list \<Rightarrow> 'r job_state \<times> handle list" where
  "worker_exchange jp =
     (case jp of (j, posts) \<Rightarrow>
        if js_executor j
        then (j\<lparr>callerSetOrJobComplete := True\<rparr>, if callerSetOrJobComplete j then posts @ [js_caller j] else posts)
        else (j, posts))"

text \<open>The accesses of the awaitable.\<close>

definition job_await_ready :: "'r job_state \<Rightarrow> bool" where
  "job_await_ready j = js_done j"

definition set_caller :: "handle \<Rightarrow> 'r job_state \<Rightarrow> 'r job_state" where
  "set_caller h j = j\<lparr>js_caller := h\<rparr>"

definition awaiter_exchange :: "handle \<Rightarrow> 'r job_state \<times> handle list \<Rightarrow> 'r job_state \<times> handle list" where
  "awaiter_exchange h jp =
     (case jp of (j, posts) \<Rightarrow> (j\<lparr>callerSetOrJobComplete := True\<rparr>, if callerSetOrJobComplete j then posts @ [h] else posts))"

text \<open>A result that is missing is dereferenced: \<open>None\<close>.\<close>

definition job_await_resume :: "'r job_state \<Rightarrow> 'r result option" where
  "job_await_resume j = (case js_exception j of Some e \<Rightarrow> Some (Inl e) | None \<Rightarrow> map_option Inr (js_result j))"

datatype worker_pc = WCall | WDone | WExchange | WEnd
datatype awaiter_pc = AStart | ASetCaller | AExchange | ASuspended | AResumed

record 'r job_system =
  job :: "'r job_state"
  posts :: "handle list"
  wpc :: worker_pc
  apc :: awaiter_pc
  suspended :: bool

definition submitted :: "'r job_system" where
  "submitted = \<lparr>job = new_job_state True, posts = [], wpc = WCall, apc = AStart, suspended = False\<rparr>"

text \<open>The interleaved steps; \<open>r\<close> is what the callable returns or throws, \<open>h\<close> the coroutine.\<close>

inductive job_step :: "'r result \<Rightarrow> handle \<Rightarrow> 'r job_system \<Rightarrow> 'r job_system \<Rightarrow> bool" for r h where
  w_call: "wpc s = WCall \<Longrightarrow> job_step r h s (s\<lparr>job := store_outcome r (job s), wpc := WDone\<rparr>)"
| w_done: "wpc s = WDone \<Longrightarrow> job_step r h s (s\<lparr>job := set_done (job s), wpc := WExchange\<rparr>)"
| w_exchange: "wpc s = WExchange \<Longrightarrow> worker_exchange (job s, posts s) = (j, ps) \<Longrightarrow>
     job_step r h s (s\<lparr>job := j, posts := ps, wpc := WEnd\<rparr>)"
| a_ready: "apc s = AStart \<Longrightarrow> job_await_ready (job s) \<Longrightarrow> job_step r h s (s\<lparr>apc := AResumed\<rparr>)"
| a_not_ready: "apc s = AStart \<Longrightarrow> \<not> job_await_ready (job s) \<Longrightarrow> job_step r h s (s\<lparr>apc := ASetCaller\<rparr>)"
| a_set_caller: "apc s = ASetCaller \<Longrightarrow> job_step r h s (s\<lparr>job := set_caller h (job s), apc := AExchange\<rparr>)"
| a_exchange: "apc s = AExchange \<Longrightarrow> awaiter_exchange h (job s, posts s) = (j, ps) \<Longrightarrow>
     job_step r h s (s\<lparr>job := j, posts := ps, apc := ASuspended, suspended := True\<rparr>)"
| a_posted: "apc s = ASuspended \<Longrightarrow> h \<in> set (posts s) \<Longrightarrow> job_step r h s (s\<lparr>apc := AResumed\<rparr>)"

inductive job_reachable :: "'r result \<Rightarrow> handle \<Rightarrow> 'r job_system \<Rightarrow> bool" for r h where
  job_start: "job_reachable r h submitted"
| job_next: "job_reachable r h s \<Longrightarrow> job_step r h s s' \<Longrightarrow> job_reachable r h s'"

inductive_cases job_stepE: "job_step r h s s'"

definition job_inv :: "'r result \<Rightarrow> handle \<Rightarrow> 'r job_system \<Rightarrow> bool" where
  "job_inv r h s \<longleftrightarrow> js_executor (job s)
     \<and> (js_done (job s) \<longleftrightarrow> wpc s \<in> {WExchange, WEnd})
     \<and> (wpc s = WCall \<longrightarrow> js_result (job s) = None \<and> js_exception (job s) = None)
     \<and> (wpc s \<noteq> WCall \<longrightarrow> job_await_resume (job s) = Some r)
     \<and> (apc s \<in> {AExchange, ASuspended} \<longrightarrow> js_caller (job s) = h)
     \<and> (apc s = ASuspended \<longrightarrow> suspended s) \<and> (suspended s \<longrightarrow> apc s \<in> {ASuspended, AResumed})
     \<and> (callerSetOrJobComplete (job s) \<longleftrightarrow> wpc s = WEnd \<or> suspended s)
     \<and> posts s = (if wpc s = WEnd \<and> suspended s then [h] else [])
     \<and> (apc s = AResumed \<longrightarrow> wpc s \<in> {WExchange, WEnd} \<and> (suspended s \<longrightarrow> wpc s = WEnd))"

lemma job_inv_start: "job_inv r h submitted"
  by (simp add: job_inv_def submitted_def new_job_state_def)

lemmas job_access_defs = store_outcome_def set_done_def worker_exchange_def job_await_ready_def set_caller_def awaiter_exchange_def
  job_await_resume_def

lemma job_inv_step: "job_step r h s s' \<Longrightarrow> job_inv r h s \<Longrightarrow> job_inv r h s'"
  by (erule job_step.cases) (auto simp: job_inv_def job_access_defs split: sum.splits option.splits if_splits)

lemma job_invariant: "job_reachable r h s \<Longrightarrow> job_inv r h s"
  by (induction rule: job_reachable.induct) (auto intro: job_inv_start job_inv_step)

text \<open>There is always a step until the worker has ended and the coroutine has gone on.\<close>

lemma job_progress:
  assumes "job_reachable r h s" "\<not> (wpc s = WEnd \<and> apc s = AResumed)"
  shows "\<exists>s'. job_step r h s s'"
proof (cases "wpc s = WEnd")
  case False
  then show ?thesis
    by (cases "wpc s") (blast intro: w_call, blast intro: w_done, metis surj_pair w_exchange, simp)
next
  case True
  then have a: "apc s \<noteq> AResumed" using assms(2) by simp
  show ?thesis
  proof (cases "apc s")
    case ASuspended
    then have "h \<in> set (posts s)" using job_invariant [OF assms(1)] True by (simp add: job_inv_def)
    then show ?thesis using a_posted ASuspended by blast
  next
    case AExchange
    then show ?thesis by (metis surj_pair a_exchange)
  qed (use a in \<open>blast intro: a_ready a_not_ready a_set_caller\<close>)+
qed

text \<open>No run of the two sides is longer than seven steps.\<close>

definition job_fuel :: "'r job_system \<Rightarrow> nat" where
  "job_fuel s = (case wpc s of WCall \<Rightarrow> 3 | WDone \<Rightarrow> 2 | WExchange \<Rightarrow> 1 | WEnd \<Rightarrow> 0)
     + (case apc s of AStart \<Rightarrow> 4 | ASetCaller \<Rightarrow> 3 | AExchange \<Rightarrow> 2 | ASuspended \<Rightarrow> 1 | AResumed \<Rightarrow> 0)"

lemma job_step_fuel: "job_step r h s s' \<Longrightarrow> job_fuel s' < job_fuel s"
  by (erule job_step.cases) (auto simp: job_fuel_def split: worker_pc.splits awaiter_pc.splits)

end
