(* ===== verification/Sqlite.thy ===== *)
theory Sqlite
  imports OrmModel Pools ThreadPools "HOL-Library.AList"
begin

text \<open>
  The SQLite database: \<open>rukh/include/rukh/db/sqlite3/\<close> and \<open>rukh/include/rukh/db/ScopedTransaction.hpp\<close>.

  SQLite itself is a parameter, \<open>sq\<close>, over a state of its own: preparing a statement (an error message, or whether the
  statement only reads), running a bound statement up to the first step that is not a row (\<open>None\<close> if there is none), the
  count of changes, and \<open>sqlite3_exec\<close>. A connection is its number. A job given to the thread pool waits in its queue
  while the rest of the program goes on, \<open>sq_others\<close>: worker threads run the jobs before it, and other coroutines use the
  database. An operation that has to wait for a connection is \<open>None\<close>, as is one whose job no worker ever takes.
\<close>

section \<open>The library's values\<close>

datatype bound_value = BoundInt int | BoundDouble "64 word" | BoundText string | BoundBlob bytes | BoundNull

text \<open>A column of a row. The pointer of a text may be null.\<close>

datatype column_value = ColInteger int | ColFloat "64 word" | ColText "bytes option" | ColBlob bytes | ColNull

datatype constraint_code = CONSTRAINT_PRIMARYKEY | CONSTRAINT_FOREIGNKEY | CONSTRAINT_TRIGGER | CONSTRAINT_UNIQUE | CONSTRAINT_OTHER

datatype step_end = StepDone | StepBusy | StepLocked | StepConstraint constraint_code string | StepTooBig string | StepError string

text \<open>
  The world of one database: the free connections, the statements each has prepared (with the flag \<open>isWrite\<close>), SQLite's
  state, the thread pool and what is logged. \<open>locks\<close> are the acquisitions of the shared mutex, exclusive or not.
\<close>

record 'd db_world =
  connectionPool :: "nat async_pool"
  statements :: "nat \<Rightarrow> string \<Rightarrow> bool option"
  lib :: 'd
  threads :: "unit thread_pool"
  locks :: "(nat \<times> bool) list"
  db_log :: "exn list"

text \<open>
  What is not in these sources: the calls of the library, and what everything else does to the world while a coroutine waits for
  its job to be taken by a worker, or to be resumed after it. The state \<open>'d\<close> may hold a schedule, so this need not be the same each time.
\<close>

record 'd sqlite =
  sq_prepare :: "nat \<Rightarrow> string \<Rightarrow> 'd \<Rightarrow> string + bool"
  sq_run :: "nat \<Rightarrow> string \<Rightarrow> bound_value list \<Rightarrow> 'd \<Rightarrow> ((string option \<times> column_value) list list \<times> step_end \<times> 'd) option"
  sq_changes :: "nat \<Rightarrow> 'd \<Rightarrow> nat"
  sq_exec :: "nat \<Rightarrow> string \<Rightarrow> 'd \<Rightarrow> 'd"
  sq_others :: "'d db_world \<Rightarrow> 'd db_world"

section \<open>Queries\<close>

text \<open>
  \<open>bindQueryParam\<close>. A text is passed with length \<open>-1\<close>: it ends at its first zero byte. \<open>null_data\<close> says whether
  \<open>data()\<close> of an empty vector is a null pointer, which binds \<open>NULL\<close>.
\<close>

definition c_string :: "bytes \<Rightarrow> string" where
  "c_string s = takeWhile (\<lambda>c. c \<noteq> NUL) s"

fun bindQueryParam :: "bool \<Rightarrow> db_value \<Rightarrow> bound_value" where
  "bindQueryParam null_data (DbBool b) = BoundInt (if b then 1 else 0)"
| "bindQueryParam null_data (DbInt i) = BoundInt i"
| "bindQueryParam null_data (DbDouble d) = BoundDouble d"
| "bindQueryParam null_data (DbText s) = BoundText (c_string s)"
| "bindQueryParam null_data (DbBlob b) = (if b = [] \<and> null_data then BoundNull else BoundBlob b)"
| "bindQueryParam null_data DbNull = BoundNull"

fun read_column :: "column_value \<Rightarrow> db_value" where
  "read_column (ColInteger i) = DbInt i"
| "read_column (ColFloat d) = DbDouble d"
| "read_column (ColText t) = DbText (case t of None \<Rightarrow> [] | Some s \<Rightarrow> c_string s)"
| "read_column (ColBlob b) = DbBlob b"
| "read_column ColNull = DbNull"

text \<open>The columns, from the first row: of two with the same name the later index stays.\<close>

definition column_entry :: "nat \<times> string option \<Rightarrow> (string \<times> nat) list \<Rightarrow> (string \<times> nat) list" where
  "column_entry c cols = AList.update (case snd c of None \<Rightarrow> [] | Some n \<Rightarrow> n) (fst c) cols"

definition columns_of :: "(string option \<times> column_value) list list \<Rightarrow> (string \<times> nat) list" where
  "columns_of rs = (case rs of [] \<Rightarrow> [] | r # _ \<Rightarrow> fold column_entry (enumerate 0 (map fst r)) [])"

definition result_row :: "(string \<times> nat) list \<Rightarrow> (string option \<times> column_value) list \<Rightarrow> row" where
  "result_row cols r = \<lparr>row_values = map (read_column \<circ> snd) r, row_columns = map_of cols\<rparr>"

definition constraint_error :: "constraint_code \<Rightarrow> db_error_type" where
  "constraint_error c =
     (case c of CONSTRAINT_PRIMARYKEY \<Rightarrow> DUPLICATE_KEY | CONSTRAINT_FOREIGNKEY \<Rightarrow> FOREIGN_KEY_VIOLATION
      | CONSTRAINT_TRIGGER \<Rightarrow> TRIGGER_ERROR | CONSTRAINT_UNIQUE \<Rightarrow> UNIQUE_CONSTRAINT_VIOLATION
      | CONSTRAINT_OTHER \<Rightarrow> CONSTRAINT_VIOLATION)"

definition db_fail :: "db_error_type \<Rightarrow> string \<Rightarrow> (db_error + 'a) result" where
  "db_fail t msg = Inr (Inl \<lparr>error_type = t, error_message = msg\<rparr>)"

definition runQuery :: "'d sqlite \<Rightarrow> bool \<Rightarrow> nat \<Rightarrow> string \<Rightarrow> db_value list \<Rightarrow> 'd \<Rightarrow> ((db_error + query_result) result \<times> 'd) option" where
  "runQuery sq null_data c stmt params d =
     (case sq_run sq c stmt (map (bindQueryParam null_data) params) d of
        None \<Rightarrow> None
      | Some (rs, end_, d1) \<Rightarrow>
          Some (case end_ of
                  StepDone \<Rightarrow> Inr (Inr \<lparr>affectedRows = sq_changes sq c d1, rows = map (result_row (columns_of rs)) rs,
                    result_columns = columns_of rs\<rparr>)
                | StepBusy \<Rightarrow> db_fail DB_BUSY ''Database is busy''
                | StepLocked \<Rightarrow> db_fail DB_BUSY ''Database is busy''
                | StepConstraint code msg \<Rightarrow> db_fail (constraint_error code) msg
                | StepTooBig msg \<Rightarrow> db_fail OTHER msg
                | StepError msg \<Rightarrow> Inl (DatabaseException (''SQL error: '' @ msg)), d1))"

definition prepared :: "'d sqlite \<Rightarrow> nat \<Rightarrow> string \<Rightarrow> 'd db_world \<Rightarrow> (string + bool) \<times> 'd db_world" where
  "prepared sq c sql w =
     (case statements w c sql of
        Some isWrite \<Rightarrow> (Inr isWrite, w)
      | None \<Rightarrow>
          (case sq_prepare sq c sql (lib w) of
             Inl err \<Rightarrow> (Inl err, w)
           | Inr readonly \<Rightarrow> (Inr (\<not> readonly), w\<lparr>statements := (statements w)(c := (statements w c)(sql \<mapsto> \<not> readonly))\<rparr>)))"

text \<open>The statement is reset and its bindings are cleared afterwards, so nothing of a run is left for the next.\<close>

definition executeOnConnection :: "'d sqlite \<Rightarrow> bool \<Rightarrow> nat \<Rightarrow> string \<Rightarrow> db_value list \<Rightarrow> ('d db_world, query_result) db_task" where
  "executeOnConnection sq null_data c sql params w =
     (case prepared sq c sql w of
        (Inl err, w1) \<Rightarrow> Some (db_fail QUERY_ERROR err, w1)
      | (Inr isWrite, w1) \<Rightarrow>
          map_option (\<lambda>(r, d). (r, w1\<lparr>lib := d, locks := locks w1 @ [(c, isWrite)]\<rparr>)) (runQuery sq null_data c sql params (lib w1)))"

text \<open>
  A job that the pool has taken starts when it is at the head of the queue and a worker takes it off; until then the others go on.
\<close>

definition start_job :: "'d sqlite \<Rightarrow> 'd db_world \<Rightarrow> 'd db_world option" where
  "start_job sq w =
     (let w1 = sq_others sq w in
      case worker_turn (threads w1) of
        (RunJob _, p) \<Rightarrow> Some (w1\<lparr>threads := p\<rparr>)
      | _ \<Rightarrow> None)"

text \<open>
  \<open>co_await threadPool_->submit(...)\<close>: the exception of a full queue, or what the job gives when it has been run. The others go
  on as well before the coroutine is resumed.
\<close>

definition on_pool :: "'d sqlite \<Rightarrow> ('d db_world, 'a) db_task \<Rightarrow> ('d db_world, 'a) db_task" where
  "on_pool sq act w =
     (case pool_submit () (threads w) of
        (Inl e, _) \<Rightarrow> Some (Inl e, w)
      | (Inr _, p) \<Rightarrow>
          (case start_job sq (w\<lparr>threads := p\<rparr>) of
             None \<Rightarrow> None
           | Some w1 \<Rightarrow> map_option (\<lambda>(r, w2). (r, sq_others sq w2)) (act w1)))"

section \<open>Transactions\<close>

record transaction =
  tx_conn :: nat
  tx_busy :: bool
  tx_ended :: bool

definition new_transaction :: "nat \<Rightarrow> transaction" where
  "new_transaction c = \<lparr>tx_conn = c, tx_busy = False, tx_ended = False\<rparr>"

definition concurrent_access :: exn where
  "concurrent_access = DatabaseException (''Transaction accessed concurrently '' @ [CHR 0xE2, CHR 0x80, CHR 0x94] @ '' a transaction handle must be used sequentially by one caller'')"

text \<open>
  \<open>TransactionLockGuard\<close>: from the start of an operation to its end, across its wait for the thread pool, another
  operation throws.
\<close>

definition acquireTransactionLock :: "transaction \<Rightarrow> transaction result" where
  "acquireTransactionLock t = (if tx_busy t then Inl concurrent_access else Inr (t\<lparr>tx_busy := True\<rparr>))"

definition releaseTransactionLock :: "transaction \<Rightarrow> transaction" where
  "releaseTransactionLock t = t\<lparr>tx_busy := False\<rparr>"

type_synonym ('d, 'a) tx_task = "transaction \<Rightarrow> 'd db_world \<Rightarrow> ((db_error + 'a) result \<times> transaction \<times> 'd db_world) option"

definition with_lock :: "('d, 'a) tx_task \<Rightarrow> ('d, 'a) tx_task" where
  "with_lock body t w =
     (case acquireTransactionLock t of
        Inl e \<Rightarrow> Some (Inl e, t, w)
      | Inr t1 \<Rightarrow> map_option (\<lambda>(r, t2, w1). (r, releaseTransactionLock t2, w1)) (body t1 w))"

definition keep_tx :: "('d db_world, 'a) db_task \<Rightarrow> ('d, 'a) tx_task" where
  "keep_tx m t w = map_option (\<lambda>(r, w1). (r, t, w1)) (m w)"

definition already_ended :: exn where
  "already_ended = DatabaseException ''Transaction already ended''"

definition tx_executeQuery :: "'d sqlite \<Rightarrow> bool \<Rightarrow> string \<Rightarrow> db_value list \<Rightarrow> ('d, query_result) tx_task" where
  "tx_executeQuery sq null_data sql params =
     with_lock (\<lambda>t w. if tx_ended t then Some (Inl already_ended, t, w)
       else keep_tx (on_pool sq (executeOnConnection sq null_data (tx_conn t) sql params)) t w)"

text \<open>A string goes through \<open>c_str()\<close>.\<close>

definition tx_begin :: "'d sqlite \<Rightarrow> bool \<Rightarrow> string \<Rightarrow> ('d, query_result) tx_task" where
  "tx_begin sq null_data mode =
     with_lock (\<lambda>t w. if tx_ended t then Some (Inl already_ended, t, w)
       else keep_tx (on_pool sq (executeOnConnection sq null_data (tx_conn t) (c_string (''BEGIN TRANSACTION '' @ mode @ '';'')) [])) t w)"

definition tx_finish :: "'d sqlite \<Rightarrow> bool \<Rightarrow> string \<Rightarrow> ('d, query_result) tx_task" where
  "tx_finish sq null_data sql =
     with_lock (\<lambda>t w. if tx_ended t then Some (db_fail TRANSACTION_ENDED [], t, w)
       else map_option (\<lambda>(r, w1). (r, (case r of Inr (Inr _) \<Rightarrow> t\<lparr>tx_ended := True\<rparr> | _ \<Rightarrow> t), w1))
         (on_pool sq (executeOnConnection sq null_data (tx_conn t) sql []) w))"

definition tx_commit :: "'d sqlite \<Rightarrow> bool \<Rightarrow> ('d, query_result) tx_task" where
  "tx_commit sq null_data = tx_finish sq null_data ''COMMIT;''"

definition tx_rollback :: "'d sqlite \<Rightarrow> bool \<Rightarrow> ('d, query_result) tx_task" where
  "tx_rollback sq null_data = tx_finish sq null_data ''ROLLBACK;''"

definition release_connection :: "nat \<Rightarrow> 'd db_world \<Rightarrow> 'd db_world" where
  "release_connection c w = w\<lparr>connectionPool := snd (async_release c (connectionPool w))\<rparr>"

text \<open>The job that \<open>acquireTransaction\<close> leaves for an abandoned transaction.\<close>

definition abandonFn :: "'d sqlite \<Rightarrow> nat \<Rightarrow> 'd db_world \<Rightarrow> 'd db_world" where
  "abandonFn sq c w = release_connection c (w\<lparr>lib := sq_exec sq c ''ROLLBACK;'' (lib w)\<rparr>)"

text \<open>
  When the pool's queue is full the job is lost, with the connection. Otherwise \<open>abandon\<close> returns while the job waits in the queue; the
  world that is given is the one after the job, if a worker takes it.
\<close>

definition tx_abandon :: "'d sqlite \<Rightarrow> transaction \<Rightarrow> 'd db_world \<Rightarrow> unit result \<times> transaction \<times> 'd db_world" where
  "tx_abandon sq t w =
     (case acquireTransactionLock t of
        Inl e \<Rightarrow> (Inl e, t, w)
      | Inr t1 \<Rightarrow>
          if tx_ended t1 then (Inr (), releaseTransactionLock t1, w)
          else (Inr (), releaseTransactionLock (t1\<lparr>tx_ended := True\<rparr>),
            (case pool_submit () (threads w) of
               (Inl e, _) \<Rightarrow> w\<lparr>db_log := db_log w @ [e]\<rparr>
             | (Inr _, p) \<Rightarrow>
                 (case start_job sq (w\<lparr>threads := p\<rparr>) of
                    None \<Rightarrow> w\<lparr>threads := p\<rparr>
                  | Some w1 \<Rightarrow> abandonFn sq (tx_conn t1) w1))))"

text \<open>The destructor is \<open>noexcept\<close>: an exception in it ends the program.\<close>

definition tx_destroy :: "'d sqlite \<Rightarrow> transaction \<Rightarrow> 'd db_world \<Rightarrow> 'd db_world option" where
  "tx_destroy sq t w = (case tx_abandon sq t w of (Inl e, _, _) \<Rightarrow> None | (Inr _, _, w1) \<Rightarrow> Some w1)"

section \<open>The database\<close>

text \<open>\<open>wt\<close> is the coroutine that calls and its executor.\<close>

definition db_executeQuery :: "'d sqlite \<Rightarrow> bool \<Rightarrow> pool_waiter \<Rightarrow> string \<Rightarrow> db_value list \<Rightarrow> ('d db_world, query_result) db_task" where
  "db_executeQuery sq null_data wt sql params w =
     (case async_acquire wt (connectionPool w) of
        (None, _) \<Rightarrow> None
      | (Some c, p) \<Rightarrow>
          map_option (\<lambda>(r, w1). (r, release_connection c w1))
            (on_pool sq (executeOnConnection sq null_data c sql params) (w\<lparr>connectionPool := p\<rparr>)))"

definition acquireTransaction :: "pool_waiter \<Rightarrow> 'd db_world \<Rightarrow> (transaction \<times> 'd db_world) option" where
  "acquireTransaction wt w =
     (case async_acquire wt (connectionPool w) of
        (None, _) \<Rightarrow> None
      | (Some c, p) \<Rightarrow> Some (new_transaction c, w\<lparr>connectionPool := p\<rparr>))"

text \<open>A null pointer is only logged.\<close>

definition releaseTransaction :: "transaction option \<Rightarrow> 'd db_world \<Rightarrow> 'd db_world" where
  "releaseTransaction t w = (case t of None \<Rightarrow> w | Some t \<Rightarrow> release_connection (tx_conn t) w)"

text \<open>
  The constructor of the database: \<open>config\<close> is whether SQLite could be configured, and each attempt to open a connection gives
  the handle if there is one, whether it is open, and whether foreign keys could be enabled. The connections that are open and those that were closed
  are kept, since an exception leaves neither to the destructor of the database.
\<close>

record open_attempt =
  oa_handle :: "nat option"
  oa_opened :: bool
  oa_pragma_ok :: bool

fun open_connections :: "open_attempt list \<Rightarrow> nat list \<Rightarrow> nat list \<Rightarrow> unit result \<times> nat list \<times> nat list" where
  "open_connections [] opened closed = (Inr (), opened, closed)"
| "open_connections (a # as) opened closed =
     (if \<not> oa_opened a
      then (Inl (DatabaseException (''Can'' @ [CHR 0x27] @ ''t open database'')), opened,
            case oa_handle a of None \<Rightarrow> closed | Some c \<Rightarrow> closed @ [c])
      else if \<not> oa_pragma_ok a
      then (Inl (DatabaseException ''Failed to enable foreign keys!''), opened,
            case oa_handle a of None \<Rightarrow> closed | Some c \<Rightarrow> closed @ [c])
      else open_connections as (opened @ (case oa_handle a of None \<Rightarrow> [] | Some c \<Rightarrow> [c])) closed)"

definition new_db :: "bool \<Rightarrow> open_attempt list \<Rightarrow> nat async_pool result \<times> nat list \<times> nat list" where
  "new_db config as =
     (if \<not> config then (Inl (DatabaseException ''Failed to configure SQLITE_CONFIG_MULTITHREAD!''), [], [])
      else (case open_connections as [] [] of
              (Inl e, opened, closed) \<Rightarrow> (Inl e, opened, closed)
            | (Inr _, opened, closed) \<Rightarrow> (Inr (new_async_pool opened), opened, closed)))"

text \<open>The destructor finalizes the statements of every connection and closes it.\<close>

definition db_close :: "nat list \<Rightarrow> 'd db_world \<Rightarrow> nat list \<Rightarrow> 'd db_world \<times> nat list" where
  "db_close conns w closed = (w\<lparr>statements := (\<lambda>c. if c \<in> set conns then (\<lambda>_. None) else statements w c)\<rparr>, closed @ conns)"

section \<open>ScopedTransaction\<close>

type_synonym scoped = "transaction option"

definition scoped_create :: "pool_waiter \<Rightarrow> 'd db_world \<Rightarrow> (scoped \<times> 'd db_world) option" where
  "scoped_create wt w = map_option (\<lambda>(t, w1). (Some t, w1)) (acquireTransaction wt w)"

text \<open>The forwarders; on a moved-from object a null pointer is dereferenced.\<close>

definition forward :: "('d, 'a) tx_task \<Rightarrow> scoped \<Rightarrow> 'd db_world \<Rightarrow> ((db_error + 'a) result \<times> scoped \<times> 'd db_world) option" where
  "forward f s w = (case s of None \<Rightarrow> None | Some t \<Rightarrow> map_option (\<lambda>(r, t1, w1). (r, Some t1, w1)) (f t w))"

definition scoped_abandon :: "'d sqlite \<Rightarrow> scoped \<Rightarrow> 'd db_world \<Rightarrow> (unit result \<times> scoped \<times> 'd db_world) option" where
  "scoped_abandon sq s w = (case s of None \<Rightarrow> None | Some t \<Rightarrow> (case tx_abandon sq t w of (r, t1, w1) \<Rightarrow> Some (r, Some t1, w1)))"

text \<open>\<open>transaction_.reset()\<close> runs the destructor of the transaction.\<close>

definition scoped_destroy :: "'d sqlite \<Rightarrow> scoped \<Rightarrow> 'd db_world \<Rightarrow> 'd db_world option" where
  "scoped_destroy sq s w =
     (case s of
        None \<Rightarrow> Some w
      | Some t \<Rightarrow>
          if tx_ended t then tx_destroy sq t (releaseTransaction (Some t) w)
          else (case tx_abandon sq t w of
                  (Inl e, _, _) \<Rightarrow> None
                | (Inr _, t1, w1) \<Rightarrow> tx_destroy sq t1 w1))"

text \<open>The move assignment destroys the transaction that was held, without releasing one that has ended.\<close>

definition scoped_move_assign :: "'d sqlite \<Rightarrow> scoped \<Rightarrow> scoped \<Rightarrow> 'd db_world \<Rightarrow> (scoped \<times> scoped \<times> 'd db_world) option" where
  "scoped_move_assign sq s other w =
     (case s of
        None \<Rightarrow> Some (other, None, w)
      | Some t \<Rightarrow> map_option (\<lambda>w1. (other, None, w1)) (tx_destroy sq t w))"

section \<open>Lemmas: values\<close>

text \<open>
  What comes back from SQLite when a value is written to a column of some affinity and selected again: \<open>echo\<close>. Only what SQLite documents is
  used: a value whose kind is that of the affinity of its column comes back as it was, blobs and nulls from any column, but a
  \<open>double\<close> that is not a number is stored as a null, and minus zero may lose its sign.
\<close>

datatype affinity = AffInteger | AffReal | AffText | AffBlob | AffNumeric

definition is_nan :: "64 word \<Rightarrow> bool" where
  "is_nan d \<longleftrightarrow> uint d mod 2 ^ 63 > 0x7FF0000000000000"

definition echoes :: "(affinity \<Rightarrow> bound_value \<Rightarrow> column_value) \<Rightarrow> bool" where
  "echoes echo \<longleftrightarrow> (\<forall>i. echo AffInteger (BoundInt i) = ColInteger i)
     \<and> (\<forall>d. \<not> is_nan d \<and> uint d \<noteq> 2 ^ 63 \<longrightarrow> echo AffReal (BoundDouble d) = ColFloat d)
     \<and> (\<forall>a d. is_nan d \<longrightarrow> echo a (BoundDouble d) = ColNull)
     \<and> (\<forall>s. NUL \<notin> set s \<longrightarrow> echo AffText (BoundText s) = ColText (Some s))
     \<and> (\<forall>a b. echo a (BoundBlob b) = ColBlob b) \<and> (\<forall>a. echo a BoundNull = ColNull)"

fun affinity_of :: "raw_type \<Rightarrow> affinity" where
  "affinity_of (TInt bits sg) = AffInteger"
| "affinity_of TDouble = AffReal"
| "affinity_of TText = AffText"
| "affinity_of TBool = AffInteger"
| "affinity_of TBlob = AffBlob"

text \<open>
  A value that the model can store is read back from a column of its affinity as it was, if it is not a \<open>bool\<close>, a text with a zero byte, an empty blob
  whose pointer is null, or a \<open>double\<close> that is not a number or minus zero; a \<open>bool\<close> never is.
\<close>

fun kept_by_sqlite :: "bool \<Rightarrow> raw_value \<Rightarrow> bool" where
  "kept_by_sqlite null_data (VText s) = (NUL \<notin> set s)"
| "kept_by_sqlite null_data (VBool b) = False"
| "kept_by_sqlite null_data (VBlob b) = (b \<noteq> [] \<or> \<not> null_data)"
| "kept_by_sqlite null_data (VDouble d) = (\<not> is_nan d \<and> uint d \<noteq> 2 ^ 63)"
| "kept_by_sqlite null_data v = True"

lemma c_string_id: "NUL \<notin> set s \<Longrightarrow> c_string s = s"
  by (auto simp: c_string_def takeWhile_eq_all_conv)

lemma c_string_no_nul [simp]: "NUL \<notin> set (c_string s)"
  by (auto simp: c_string_def dest: set_takeWhileD)

lemma stored_value:
  assumes "echoes echo" "kept_by_sqlite null_data v" "of_type t v"
  shows "read_column (echo (affinity_of t) (bindQueryParam null_data (toDbValueImpl v))) = toDbValueImpl v"
  using assms by (cases v; cases t) (auto simp: echoes_def c_string_id)

lemma stored_null: "echoes echo \<Longrightarrow> read_column (echo a (bindQueryParam null_data DbNull)) = DbNull"
  by (simp add: echoes_def)

lemma stored_bool:
  assumes "echoes echo"
  shows "fromDbValue TBool (read_column (echo AffInteger (bindQueryParam null_data (toDbValueImpl (VBool b))))) = Inl wrong_alternative"
  using assms by (simp add: echoes_def)

lemma stored_nan:
  assumes "echoes echo" "is_nan d"
  shows "fromDbValue TDouble (read_column (echo AffReal (bindQueryParam null_data (toDbValueImpl (VDouble d))))) = Inl wrong_alternative"
  using assms by (simp add: echoes_def)

lemma stored_text_cut:
  assumes "echoes echo"
  shows "read_column (echo AffText (bindQueryParam null_data (DbText (s @ NUL # t)))) = DbText (c_string s)"
proof -
  have "c_string (s @ NUL # t) = c_string s" by (induction s) (simp_all add: c_string_def)
  then show ?thesis using assms by (simp add: echoes_def c_string_id)
qed

text \<open>Each column of a row is found under its name.\<close>

lemma columns_fold:
  "map_of (fold column_entry (enumerate k ns) cols) n =
     (case find (\<lambda>(i, m). (case m of None \<Rightarrow> [] | Some x \<Rightarrow> x) = n) (rev (enumerate k ns)) of
        Some (i, m) \<Rightarrow> Some i | None \<Rightarrow> map_of cols n)"
proof (induction ns arbitrary: k cols)
  case (Cons m ns)
  have f: "find P (xs @ [y]) = (case find P xs of None \<Rightarrow> if P y then Some y else None | Some x \<Rightarrow> Some x)" for P :: "nat \<times> string option \<Rightarrow> bool" and xs y
    by (induction xs) auto
  show ?case using Cons by (auto simp: f column_entry_def update_conv split: option.splits)
qed simp

lemma find_found: "find P xs = Some x \<Longrightarrow> x \<in> set xs \<and> P x"
  by (induction xs) (auto split: if_splits)

lemma column_found:
  assumes "i < length r" "distinct (map fst r)" "\<forall>x \<in> set (map fst r). x \<noteq> None" "map fst r = map fst r1"
  shows "map_of (columns_of (r1 # rs)) (the (fst (r ! i))) = Some i"
proof -
  let ?ns = "map fst r" and ?P = "\<lambda>(i, m). (case m of None \<Rightarrow> [] | Some x \<Rightarrow> x) = the (fst (r ! i))"
  let ?n = "the (fst (r ! i))"
  have "fst (r ! i) \<in> set (map fst r)" using assms(1) by simp
  then have name: "fst (r ! i) = Some ?n" using assms(3) by (metis option.collapse)
  have only: "j = i" if "(j, m) \<in> set (enumerate 0 ?ns)" "(case m of None \<Rightarrow> [] | Some x \<Rightarrow> x) = ?n" for j m
  proof -
    have j: "j < length r" "m = fst (r ! j)" using that(1) by (auto simp: in_set_enumerate_eq)
    then have "m \<in> set (map fst r)" by simp
    then have "m \<noteq> None" using assms(3) by metis
    then have "fst (r ! j) = fst (r ! i)" using that(2) j name by auto
    moreover have "map fst r ! j = map fst r ! i \<longleftrightarrow> j = i"
      by (rule nth_eq_iff_index_eq [OF assms(2)]) (use j(1) assms(1) in simp_all)
    ultimately show ?thesis using j(1) assms(1) by simp
  qed
  have "(i, Some ?n) \<in> set (enumerate 0 ?ns)" using assms(1) name by (auto simp: in_set_enumerate_eq)
  then have "find (\<lambda>(i, m). (case m of None \<Rightarrow> [] | Some x \<Rightarrow> x) = ?n) (rev (enumerate 0 ?ns)) \<noteq> None"
    by (auto simp: find_None_iff intro!: exI [of _ i] exI [of _ "Some ?n"])
  then obtain j m where "find (\<lambda>(i, m). (case m of None \<Rightarrow> [] | Some x \<Rightarrow> x) = ?n) (rev (enumerate 0 ?ns)) = Some (j, m)" by auto
  moreover from this have "(j, m) \<in> set (enumerate 0 ?ns)" "(case m of None \<Rightarrow> [] | Some x \<Rightarrow> x) = ?n"
    by (auto dest: find_found)
  ultimately show ?thesis using only assms(4) by (simp add: columns_of_def columns_fold)
qed

text \<open>
  An object through SQLite: a row whose columns are the model's, each with the value that was bound for the object's field,
  holds the object.
\<close>

fun kept_field :: "bool \<Rightarrow> field_value \<Rightarrow> bool" where
  "kept_field null_data (Plain v) = kept_by_sqlite null_data v"
| "kept_field null_data (Optional v) = (case v of None \<Rightarrow> True | Some x \<Rightarrow> kept_by_sqlite null_data x)"

definition stored_row :: "(affinity \<Rightarrow> bound_value \<Rightarrow> column_value) \<Rightarrow> (string \<Rightarrow> affinity) \<Rightarrow> bool \<Rightarrow> model \<Rightarrow> model_obj \<Rightarrow>
    (string option \<times> column_value) list" where
  "stored_row echo declared null_data m obj =
     map (\<lambda>c. (Some (dbName c), echo (declared (dbName c)) (bindQueryParam null_data (toDbValue (obj_field obj (fieldPtr c)))))) (columns m)"

lemma storable_of_type:
  "storable t opt (Plain v) \<Longrightarrow> of_type t v" "storable t opt (Optional (Some v)) \<Longrightarrow> of_type t v"
  by (cases opt; simp)+

lemma stored_field:
  assumes "echoes echo" "kept_field null_data v" "storable t opt v"
  shows "read_column (echo (affinity_of t) (bindQueryParam null_data (toDbValue v))) = toDbValue v"
proof (cases v)
  case (Plain x)
  then show ?thesis using stored_value [OF assms(1), of null_data x t] assms(2,3) storable_of_type(1) [of t opt x] by simp
next
  case (Optional y)
  then show ?thesis
    using stored_null [OF assms(1)] stored_value [OF assms(1), of null_data "the y" t] assms(2,3) storable_of_type(2) [of t opt "the y"]
    by (cases y) simp_all
qed

lemma stored_row_holds:
  assumes "echoes echo" "distinct (map dbName (columns m))"
    and "\<forall>c \<in> set (columns m). declared (dbName c) = affinity_of (field_type c)
      \<and> storable (field_type c) (field_optional c) (obj_field obj (fieldPtr c)) \<and> kept_field null_data (obj_field obj (fieldPtr c))"
    and "map fst r1 = map fst (stored_row echo declared null_data m obj)"
  shows "\<forall>c \<in> set (columns m). holds (result_row (columns_of (r1 # rs)) (stored_row echo declared null_data m obj)) obj c"
proof
  fix c assume c: "c \<in> set (columns m)"
  let ?r = "stored_row echo declared null_data m obj"
  obtain i where i: "i < length (columns m)" "columns m ! i = c" using c by (auto simp: in_set_conv_nth)
  have names: "map fst ?r = map (Some \<circ> dbName) (columns m)" by (simp add: stored_row_def)
  have "distinct (map fst ?r)" unfolding names using assms(2) by (simp add: distinct_map comp_def inj_on_def)
  moreover have ri: "?r ! i = (Some (dbName c), echo (declared (dbName c)) (bindQueryParam null_data (toDbValue (obj_field obj (fieldPtr c)))))"
    using i by (simp add: stored_row_def)
  ultimately have "map_of (columns_of (r1 # rs)) (dbName c) = Some i"
    using column_found [of i ?r r1 rs] i(1) assms(4) names by (auto simp: stored_row_def)
  moreover have "row_values (result_row (columns_of (r1 # rs)) ?r) ! i = toDbValue (obj_field obj (fieldPtr c))"
    using i ri stored_field [OF assms(1), of null_data "obj_field obj (fieldPtr c)" "field_type c" "field_optional c"] assms(3) c
    by (simp add: result_row_def stored_row_def)
  ultimately show "holds (result_row (columns_of (r1 # rs)) ?r) obj c"
    using assms(3) c i(1) by (simp add: holds_def row_get_def row_at_def result_row_def stored_row_def)
qed

section \<open>Lemmas: connections\<close>

lemma execute_frame:
  "executeOnConnection sq nd c sql params w = Some (r, w') \<Longrightarrow> connectionPool w' = connectionPool w \<and> threads w' = threads w \<and> db_log w' = db_log w"
  by (auto simp: executeOnConnection_def prepared_def split: option.splits sum.splits)

text \<open>What the others do to the pool of connections, any number of times.\<close>

definition others_step :: "'d sqlite \<Rightarrow> nat async_pool \<Rightarrow> nat async_pool \<Rightarrow> bool" where
  "others_step sq p p' \<longleftrightarrow> (\<exists>w. connectionPool w = p \<and> connectionPool (sq_others sq w) = p')"

definition by_others :: "'d sqlite \<Rightarrow> nat async_pool \<Rightarrow> nat async_pool \<Rightarrow> bool" where
  "by_others sq = rtranclp (others_step sq)"

lemma by_others_refl [simp, intro]: "by_others sq p p"
  by (simp add: by_others_def)

lemma by_others_trans [trans]: "by_others sq p q \<Longrightarrow> by_others sq q r \<Longrightarrow> by_others sq p r"
  by (simp add: by_others_def)

lemma by_others_step [simp, intro]: "by_others sq (connectionPool w) (connectionPool (sq_others sq w))"
  unfolding by_others_def by (rule r_into_rtranclp) (auto simp: others_step_def)

lemma by_others_alone: "by_others sq p p' \<Longrightarrow> (\<And>w. connectionPool (sq_others sq w) = connectionPool w) \<Longrightarrow> p' = p"
  unfolding by_others_def by (induction rule: rtranclp_induct) (auto simp: others_step_def)

lemma start_job_frame: "start_job sq w = Some w1 \<Longrightarrow> by_others sq (connectionPool w) (connectionPool w1)"
  by (auto simp: start_job_def Let_def split: prod.splits worker_turn.splits)

lemma on_pool_frame:
  assumes "\<And>w r w'. act w = Some (r, w') \<Longrightarrow> connectionPool w' = connectionPool w"
    and "on_pool sq act w = Some (r, w')"
  shows "by_others sq (connectionPool w) (connectionPool w')"
proof (cases "pool_submit () (threads w)")
  case (Pair s p)
  show ?thesis
  proof (cases s)
    case (Inr u)
    then obtain w1 w2 where w: "start_job sq (w\<lparr>threads := p\<rparr>) = Some w1" "act w1 = Some (r, w2)" "w' = sq_others sq w2"
      using assms(2) Pair by (auto simp: on_pool_def split: option.splits)
    have "by_others sq (connectionPool w) (connectionPool w1)" using start_job_frame [OF w(1)] by simp
    moreover have "by_others sq (connectionPool w1) (connectionPool w')"
      using assms(1) [OF w(2)] by_others_step [of sq w2] w(3) by simp
    ultimately show ?thesis by (rule by_others_trans)
  qed (use assms(2) Pair in \<open>simp add: on_pool_def\<close>)
qed

lemma on_pool_execute_frame:
  "on_pool sq (executeOnConnection sq nd c sql params) w = Some (r, w') \<Longrightarrow> by_others sq (connectionPool w) (connectionPool w')"
  by (rule on_pool_frame) (auto dest: execute_frame)

text \<open>A query on the database gives its connection back, whatever comes of it.\<close>

lemma executeQuery_gives_back:
  assumes "async_acquire wt (connectionPool w) = (Some c, p)" "db_executeQuery sq nd wt sql params w = Some (r, w')"
  shows "\<exists>p1. by_others sq p p1 \<and> connectionPool w' = snd (async_release c p1)"
  using assms by (auto simp: db_executeQuery_def release_connection_def dest!: on_pool_execute_frame)

text \<open>While an operation on a transaction is under way, every other one throws and changes nothing.\<close>

lemma busy_refused: "tx_busy t \<Longrightarrow> with_lock body t w = Some (Inl concurrent_access, t, w)"
  by (simp add: with_lock_def acquireTransactionLock_def)

text \<open>An operation leaves the lock free, the connection what it is, and the pool of connections to the others.\<close>

definition tx_frame :: "'d sqlite \<Rightarrow> transaction \<Rightarrow> 'd db_world \<Rightarrow> transaction \<Rightarrow> 'd db_world \<Rightarrow> bool" where
  "tx_frame sq t w t' w' \<longleftrightarrow> tx_conn t' = tx_conn t \<and> \<not> tx_busy t' \<and> (tx_ended t \<longrightarrow> tx_ended t')
     \<and> by_others sq (connectionPool w) (connectionPool w')"

lemma with_lock_frame:
  assumes "with_lock body t w = Some (r, t', w')" "\<not> tx_busy t"
    and "\<And>r t2 w1. body (t\<lparr>tx_busy := True\<rparr>) w = Some (r, t2, w1) \<Longrightarrow>
      tx_conn t2 = tx_conn t \<and> (tx_ended t \<longrightarrow> tx_ended t2) \<and> by_others sq (connectionPool w) (connectionPool w1)"
  shows "tx_frame sq t w t' w'"
  using assms(1,2) assms(3) by (auto simp: with_lock_def acquireTransactionLock_def releaseTransactionLock_def tx_frame_def)

lemma tx_query_frame: "tx_executeQuery sq nd sql params t w = Some (r, t', w') \<Longrightarrow> \<not> tx_busy t \<Longrightarrow> tx_frame sq t w t' w'"
  unfolding tx_executeQuery_def
  by (erule with_lock_frame) (auto simp: keep_tx_def dest!: on_pool_execute_frame split: if_splits)

lemma tx_begin_frame: "tx_begin sq nd mode t w = Some (r, t', w') \<Longrightarrow> \<not> tx_busy t \<Longrightarrow> tx_frame sq t w t' w'"
  unfolding tx_begin_def
  by (erule with_lock_frame) (auto simp: keep_tx_def dest!: on_pool_execute_frame split: if_splits)

lemma tx_finish_frame: "tx_finish sq nd sql t w = Some (r, t', w') \<Longrightarrow> \<not> tx_busy t \<Longrightarrow> tx_frame sq t w t' w'"
  unfolding tx_finish_def
  by (erule with_lock_frame) (auto dest!: on_pool_execute_frame split: if_splits sum.splits)

text \<open>A transaction ends only with a commit or a rollback that succeeded.\<close>

lemma tx_finish_ends:
  assumes "tx_finish sq nd sql t w = Some (r, t', w')" "\<not> tx_busy t" "\<not> tx_ended t"
  shows "tx_ended t' \<longleftrightarrow> (\<exists>q. r = Inr (Inr q))"
  using assms by (auto simp: tx_finish_def with_lock_def acquireTransactionLock_def releaseTransactionLock_def split: sum.splits)

section \<open>Lemmas: the life of a ScopedTransaction\<close>

datatype scoped_op = OpBegin string | OpQuery string "db_value list" | OpCommit | OpRollback

fun tx_op :: "'d sqlite \<Rightarrow> bool \<Rightarrow> scoped_op \<Rightarrow> ('d, query_result) tx_task" where
  "tx_op sq nd (OpBegin mode) = tx_begin sq nd mode"
| "tx_op sq nd (OpQuery sql params) = tx_executeQuery sq nd sql params"
| "tx_op sq nd OpCommit = tx_commit sq nd"
| "tx_op sq nd OpRollback = tx_rollback sq nd"

text \<open>Operations one after the other, whatever each gives, exceptions included.\<close>

fun scoped_ops :: "'d sqlite \<Rightarrow> bool \<Rightarrow> scoped_op list \<Rightarrow> scoped \<Rightarrow> 'd db_world \<Rightarrow> (scoped \<times> 'd db_world) option" where
  "scoped_ops sq nd [] s w = Some (s, w)"
| "scoped_ops sq nd (opn # ops) s w =
     (case forward (tx_op sq nd opn) s w of None \<Rightarrow> None | Some (_, s1, w1) \<Rightarrow> scoped_ops sq nd ops s1 w1)"

lemma tx_op_frame: "tx_op sq nd opn t w = Some (r, t', w') \<Longrightarrow> \<not> tx_busy t \<Longrightarrow> tx_frame sq t w t' w'"
  by (cases opn) (auto simp: tx_commit_def tx_rollback_def dest: tx_begin_frame tx_query_frame tx_finish_frame)

lemma scoped_ops_frame:
  assumes "scoped_ops sq nd ops (Some t) w = Some (s', w')" "\<not> tx_busy t"
  shows "\<exists>t'. s' = Some t' \<and> tx_frame sq t w t' w'"
  using assms
proof (induction ops arbitrary: t w)
  case (Cons opn ops)
  from Cons.prems(1) obtain r t1 w1 where 1: "tx_op sq nd opn t w = Some (r, t1, w1)" "scoped_ops sq nd ops (Some t1) w1 = Some (s', w')"
    by (auto simp: forward_def split: option.splits)
  have f: "tx_frame sq t w t1 w1" by (rule tx_op_frame [OF 1(1) Cons.prems(2)])
  then obtain t' where "s' = Some t'" "tx_frame sq t1 w1 t' w'" using Cons.IH [OF 1(2)] by (auto simp: tx_frame_def)
  then show ?case using f by (auto simp: tx_frame_def intro: by_others_trans)
qed (auto simp: tx_frame_def)

definition pool_accepts :: "'d db_world \<Rightarrow> bool" where
  "pool_accepts w \<longleftrightarrow> length (jobQueue (threads w)) < maxQueueSize (threads w)"

text \<open>The world in which a job that is submitted now is started, if there is room for it and a worker takes it.\<close>

definition job_started :: "'d sqlite \<Rightarrow> 'd db_world \<Rightarrow> 'd db_world option" where
  "job_started sq w = (case pool_submit () (threads w) of (Inl e, _) \<Rightarrow> None | (Inr _, p) \<Rightarrow> start_job sq (w\<lparr>threads := p\<rparr>))"

lemma job_started_frame: "job_started sq w = Some w1 \<Longrightarrow> by_others sq (connectionPool w) (connectionPool w1)"
  by (auto simp: job_started_def split: prod.splits sum.splits dest!: start_job_frame)

text \<open>When the others leave the thread pool alone, room in its queue is all that a job needs.\<close>

lemma job_started_alone:
  assumes "pool_accepts w" "\<And>w. threads (sq_others sq w) = threads w"
  shows "job_started sq w \<noteq> None"
  using assms by (cases "jobQueue (threads w)")
    (simp_all add: job_started_def pool_submit_def pool_enqueue_def pool_accepts_def start_job_def Let_def worker_turn_def)

lemma abandon_ended: "tx_ended t \<Longrightarrow> \<not> tx_busy t \<Longrightarrow> tx_abandon sq t w = (Inr (), t, w)"
  by (simp add: tx_abandon_def acquireTransactionLock_def releaseTransactionLock_def)

lemma abandon_open:
  assumes "\<not> tx_ended t" "\<not> tx_busy t" "job_started sq w = Some w1"
  shows "tx_abandon sq t w = (Inr (), t\<lparr>tx_ended := True\<rparr>, abandonFn sq (tx_conn t) w1)"
  using assms by (cases t) (auto simp: tx_abandon_def acquireTransactionLock_def releaseTransactionLock_def job_started_def split: prod.splits sum.splits)

lemma abandon_full:
  assumes "\<not> tx_ended t" "\<not> tx_busy t" "\<not> pool_accepts w"
  shows "tx_abandon sq t w = (Inr (), t\<lparr>tx_ended := True\<rparr>, w\<lparr>db_log := db_log w @ [serverException ''Thread pool queue is full'' 500]\<rparr>)"
  using assms by (cases t) (simp add: tx_abandon_def acquireTransactionLock_def releaseTransactionLock_def pool_submit_def pool_enqueue_def pool_accepts_def)

lemma destroy_ended: "tx_ended t \<Longrightarrow> \<not> tx_busy t \<Longrightarrow> scoped_destroy sq (Some t) w = Some (release_connection (tx_conn t) w)"
  by (simp add: scoped_destroy_def tx_destroy_def abandon_ended releaseTransaction_def)

lemma destroy_open:
  assumes "\<not> tx_ended t" "\<not> tx_busy t" "job_started sq w = Some w1"
  shows "scoped_destroy sq (Some t) w = Some (abandonFn sq (tx_conn t) w1)"
  using assms by (simp add: scoped_destroy_def tx_destroy_def abandon_open [OF assms] abandon_ended)

lemma abandonFn_pool [simp]: "connectionPool (abandonFn sq c w) = snd (async_release c (connectionPool w))"
  by (simp add: abandonFn_def release_connection_def)

text \<open>
  Whatever was done with the transaction, its destructor gives the connection back exactly once, if the transaction has ended or the clean-up
  job is run: all else that happens to the pool of connections is what the others do.
\<close>

lemma scoped_returns:
  assumes "\<not> tx_busy t" "scoped_ops sq nd ops (Some t) w = Some (s', w')"
    and "tx_ended (the s') \<or> job_started sq w' \<noteq> None"
  shows "\<exists>p w''. by_others sq (connectionPool w) p \<and> scoped_destroy sq s' w' = Some w''
    \<and> connectionPool w'' = snd (async_release (tx_conn t) p)"
proof -
  obtain t' where t': "s' = Some t'" "tx_frame sq t w t' w'" using scoped_ops_frame [OF assms(2,1)] by blast
  then have f: "tx_conn t' = tx_conn t" "\<not> tx_busy t'" "by_others sq (connectionPool w) (connectionPool w')" by (simp_all add: tx_frame_def)
  show ?thesis
  proof (cases "tx_ended t'")
    case True
    then show ?thesis using destroy_ended [OF True f(2), of sq w'] f t'(1) by (auto simp: release_connection_def)
  next
    case False
    then obtain w1 where w1: "job_started sq w' = Some w1" using assms(3) t'(1) by auto
    then show ?thesis
      using destroy_open [OF False f(2) w1] by_others_trans [OF f(3) job_started_frame [OF w1]] f(1) t'(1) by auto
  qed
qed

text \<open>When the queue is full, the connection of a transaction that was not ended is lost.\<close>

lemma full_queue_leaks:
  assumes "\<not> tx_busy t" "\<not> tx_ended t" "\<not> pool_accepts w"
  shows "\<exists>w''. scoped_destroy sq (Some t) w = Some w'' \<and> connectionPool w'' = connectionPool w"
  using assms by (simp add: scoped_destroy_def tx_destroy_def abandon_full abandon_ended)

text \<open>
  After an explicit \<open>abandon\<close> the destructor gives the connection back a second time: it is in the pool twice, and two
  callers can get it.
\<close>

lemma abandoned_twice:
  assumes "\<not> tx_busy t" "\<not> tx_ended t" "job_started sq w = Some w1" "scoped_abandon sq (Some t) w = Some (r, s', w')"
  shows "\<exists>w''. scoped_destroy sq s' w' = Some w''
    \<and> connectionPool w'' = snd (async_release (tx_conn t) (snd (async_release (tx_conn t) (connectionPool w1))))"
  using assms by (auto simp: scoped_abandon_def abandon_open destroy_ended release_connection_def)

lemma released_twice_free:
  assumes "waiters p = []"
  shows "available (snd (async_release c (snd (async_release c p)))) = available p @ [c, c]"
  using assms by (simp add: async_release_def)

text \<open>A transaction that has ended loses its connection when another one is moved over it.\<close>

lemma move_over_ended_leaks:
  assumes "tx_ended t" "\<not> tx_busy t"
  shows "scoped_move_assign sq (Some t) other w = Some (other, None, w)"
  using assms by (simp add: scoped_move_assign_def tx_destroy_def abandon_ended)

section \<open>Lemmas: opening\<close>

definition opens :: "open_attempt \<Rightarrow> bool" where
  "opens a \<longleftrightarrow> oa_opened a \<and> oa_pragma_ok a \<and> oa_handle a \<noteq> None"

lemma open_connections_prefix:
  assumes "\<forall>a \<in> set as. opens a"
  shows "open_connections (as @ bs) opened closed = open_connections bs (opened @ map (the \<circ> oa_handle) as) closed"
  using assms
proof (induction as arbitrary: opened)
  case (Cons a as)
  then obtain c where "oa_handle a = Some c" "oa_opened a" "oa_pragma_ok a" by (auto simp: opens_def)
  then show ?case using Cons by simp
qed simp

lemma new_db_opened:
  assumes "\<forall>a \<in> set as. opens a"
  shows "new_db True as = (Inr (new_async_pool (map (the \<circ> oa_handle) as)), map (the \<circ> oa_handle) as, [])"
  using open_connections_prefix [OF assms, of "[]"] by (simp add: new_db_def)

text \<open>
  A connection that cannot be opened is closed, but those that were opened before it are not: the object was never
  constructed, so its destructor does not run, and a connection has no destructor of its own.
\<close>

lemma failed_open_leaks:
  assumes "\<forall>a \<in> set as. opens a" "oa_handle bad = Some c" "\<not> oa_opened bad \<or> \<not> oa_pragma_ok bad"
  shows "\<exists>e. new_db True (as @ bad # rest) = (Inl e, map (the \<circ> oa_handle) as, [c])"
  using open_connections_prefix [OF assms(1), of "bad # rest"] assms(2,3) by (auto simp: new_db_def)

section \<open>Lemmas: prepared statements\<close>

text \<open>While the flags agree with the library, keeping statements changes neither results nor the library's state nor the locks.\<close>

definition statements_ok :: "'d sqlite \<Rightarrow> 'd db_world \<Rightarrow> bool" where
  "statements_ok sq w \<longleftrightarrow> (\<forall>c sql isWrite. statements w c sql = Some isWrite \<longrightarrow> sq_prepare sq c sql (lib w) = Inr (\<not> isWrite))"

lemma cache_transparent:
  assumes "statements_ok sq w"
  shows "map_option (\<lambda>(r, w'). (r, lib w', locks w', connectionPool w', threads w', db_log w')) (executeOnConnection sq nd c sql params w)
    = map_option (\<lambda>(r, w'). (r, lib w', locks w', connectionPool w', threads w', db_log w'))
        (executeOnConnection sq nd c sql params (w\<lparr>statements := (\<lambda>_ _. None)\<rparr>))"
  using assms
  by (cases "statements w c sql")
     (auto simp: executeOnConnection_def prepared_def statements_ok_def option.map_comp comp_def split_def split: sum.splits intro!: arg_cong [where f = "\<lambda>f. map_option f _"])

end
