(* ===== verification/Streams.thy ===== *)
theory Streams
  imports ConnectionRequest Pools
begin

text \<open>
  Sockets and streams: \<open>rukh/src/net/Socket.cpp\<close>, the parts of \<open>rukh/src/net/TcpStream.cpp\<close> that send files by mapping and by
  splicing, \<open>rukh/include/rukh/core/MmapCache.hpp\<close>, \<open>rukh/src/net/TlsStream.cpp\<close>,
  and what they mean for the handshake of a connection.

  What a splice moves is a script, like the events of a socket in the theory of the buffered connection. A loop that
  runs out of its script has not returned (\<open>None\<close>). OpenSSL's answers are arguments.
\<close>

section \<open>Sockets\<close>

text \<open>A socket is a descriptor, \<open>-1\<close> if it has none; the second component of a state are the descriptors that were closed.\<close>

definition close_socket :: "int \<times> int list \<Rightarrow> int \<times> int list" where
  "close_socket s = (if fst s \<noteq> -1 then (-1, snd s @ [fst s]) else s)"

definition socket_isValid :: "int \<Rightarrow> bool" where
  "socket_isValid fd \<longleftrightarrow> fd \<noteq> -1"

definition socket_release :: "int \<Rightarrow> int \<times> int" where
  "socket_release fd = (fd, -1)"

text \<open>Move construction and move assignment: what the new or the target socket is, what the source is.\<close>

definition socket_move :: "int \<Rightarrow> int \<times> int" where
  "socket_move other = (other, -1)"

definition socket_move_assign :: "int \<Rightarrow> int \<Rightarrow> int list \<Rightarrow> int \<times> int \<times> int list" where
  "socket_move_assign self other closed = (other, -1, snd (close_socket (self, closed)))"

text \<open>After moves, destroying everything closes each descriptor once.\<close>

lemma moved_closed_once:
  assumes "a \<noteq> -1" "b \<noteq> -1"
  shows "(case socket_move_assign a b cl of (t, s, cl1) \<Rightarrow> snd (close_socket (s, snd (close_socket (t, cl1))))) = cl @ [a, b]"
  using assms by (simp add: socket_move_assign_def close_socket_def)

lemma released_not_closed: "snd (close_socket (snd (socket_release fd), cl)) = cl"
  by (simp add: socket_release_def close_socket_def)

section \<open>Mapped files\<close>

text \<open>
  \<open>open_map\<close> opens and maps a file: its identity and its size, or the error number. The cache keeps the first mapping of a path.
\<close>

record mapped_file =
  mf_id :: nat
  mf_size :: nat

definition mmap_get :: "(string \<Rightarrow> mapped_file option) \<Rightarrow> string \<Rightarrow> (string \<Rightarrow> mapped_file option) \<Rightarrow> mapped_file option \<times> (string \<Rightarrow> mapped_file option)" where
  "mmap_get open_map path cache =
     (case cache path of
        Some m \<Rightarrow> (Some m, cache)
      | None \<Rightarrow> (case open_map path of None \<Rightarrow> (None, cache) | Some m \<Rightarrow> (Some m, cache(path \<mapsto> m))))"

lemma mmap_get_again:
  assumes "mmap_get om path cache = (Some m, cache')"
  shows "mmap_get om' path cache' = (Some m, cache')"
  using assms by (auto simp: mmap_get_def split: option.splits)

text \<open>A negative number in the code is \<open>Inl\<close>: an error of the system or of \<open>send\<close>.\<close>

datatype send_error = Errno | EINVAL | EBUSY | SendFailed | SpliceResult int

partial_function (option) mmap_loop :: "bytes \<Rightarrow> nat \<Rightarrow> nat \<Rightarrow> conn_io \<Rightarrow> ((send_error + nat) \<times> conn_io) option" where
  "mmap_loop buf tot left io =
     (if left = 0 then Some (Inr tot, io)
      else
        (case send (take left (drop tot buf)) (tx io) of
           (None, es) \<Rightarrow> Some (Inl SendFailed, io\<lparr>tx := es\<rparr>)
         | (Some n, es) \<Rightarrow>
             if n = 0 then mmap_loop buf tot left (ConnectionIO.waitForWrite (io\<lparr>tx := es\<rparr>))
             else mmap_loop buf (tot + n) (left - n) (io\<lparr>tx := es, sent := sent io @ take n (drop tot buf)\<rparr>)))"

text \<open>\<open>content\<close> is what the mappings show.\<close>

definition sendFileMmap :: "(string \<Rightarrow> mapped_file option) \<Rightarrow> (nat \<Rightarrow> bytes) \<Rightarrow> string \<Rightarrow> nat \<Rightarrow> nat \<Rightarrow> (string \<Rightarrow> mapped_file option) \<Rightarrow> conn_io \<Rightarrow>
    ((send_error + nat) \<times> (string \<Rightarrow> mapped_file option) \<times> conn_io) option" where
  "sendFileMmap open_map content path offset cnt cache io =
     (if cnt = 0 then Some (Inr 0, cache, io)
      else
        (case mmap_get open_map path cache of
           (None, cache1) \<Rightarrow> Some (Inl Errno, cache1, io)
         | (Some m, cache1) \<Rightarrow>
             if offset + cnt > mf_size m then Some (Inl EINVAL, cache1, io)
             else map_option (\<lambda>(r, io1). (r, cache1, io1)) (mmap_loop (drop offset (content (mf_id m))) 0 cnt io)))"

text \<open>What was sent is a prefix of the rest, all of it when the count comes back.\<close>

definition mmap_post :: "bytes \<Rightarrow> nat \<Rightarrow> nat \<Rightarrow> conn_io \<Rightarrow> (send_error + nat) \<times> conn_io \<Rightarrow> bool" where
  "mmap_post buf tot left io y \<longleftrightarrow> (tot + left \<le> length buf \<longrightarrow>
     (\<exists>k \<le> left. sent (snd y) = sent io @ take k (drop tot buf)
        \<and> (case fst y of Inr n \<Rightarrow> n = tot + left \<and> k = left | Inl e \<Rightarrow> e = SendFailed)))"

lemma send_taken: "send bs es = (Some n, es') \<Longrightarrow> n \<le> length bs"
  by (cases "(bs, es)" rule: send.cases) auto

lemma mmap_loop_post: "mmap_loop buf tot left io = Some y \<Longrightarrow> mmap_post buf tot left io y"
proof (rule mmap_loop.raw_induct [where P = mmap_post], goal_cases)
  case (1 rec buf tot left io y)
  note IH = 1(2) and body = 1(3)
  obtain res es where s: "send (take left (drop tot buf)) (tx io) = (res, es)" by fastforce
  show ?case
  proof (cases "left = 0")
    case True
    then show ?thesis using body by (auto simp: mmap_post_def)
  next
    case False
    show ?thesis
    proof (cases res)
      case None
      then show ?thesis using body s False by (auto simp: mmap_post_def)
    next
      case (Some n)
      show ?thesis
      proof (cases "n = 0")
        case True
        then have "rec buf tot left (ConnectionIO.waitForWrite (io\<lparr>tx := es\<rparr>)) = Some y" using body s False Some by simp
        from IH [OF this] show ?thesis by (simp add: mmap_post_def)
      next
        case n0: False
        then have r: "rec buf (tot + n) (left - n) (io\<lparr>tx := es, sent := sent io @ take n (drop tot buf)\<rparr>) = Some y"
          using body s False Some by simp
        show ?thesis unfolding mmap_post_def
        proof (intro impI)
          assume fits: "tot + left \<le> length buf"
          have n: "n \<le> left" using send_taken [of _ "tx io" n es] s Some by fastforce
          then obtain k where k: "k \<le> left - n" "sent (snd y) = (sent io @ take n (drop tot buf)) @ take k (drop (tot + n) buf)"
              "case fst y of Inr m \<Rightarrow> m = tot + n + (left - n) \<and> k = left - n | Inl e \<Rightarrow> e = SendFailed"
            using IH [OF r] fits by (auto simp: mmap_post_def)
          have "take n (drop tot buf) @ take k (drop (tot + n) buf) = take (n + k) (drop tot buf)"
            by (simp only: take_add drop_drop add.commute [of tot n])
          then show "\<exists>k \<le> left. sent (snd y) = sent io @ take k (drop tot buf)
              \<and> (case fst y of Inr m \<Rightarrow> m = tot + left \<and> k = left | Inl e \<Rightarrow> e = SendFailed)"
            using k n by (intro exI [of _ "n + k"]) (auto split: sum.splits)
        qed
      qed
    qed
  qed
qed

lemma sendFileMmap_sends:
  assumes "sendFileMmap om content path offset cnt cache io = Some (r, cache', io')"
    and "\<And>m. fst (mmap_get om path cache) = Some m \<Longrightarrow> length (content (mf_id m)) = mf_size m"
  shows "(\<exists>m k. fst (mmap_get om path cache) = Some m \<and> k \<le> cnt \<and> sent io' = sent io @ take k (drop offset (content (mf_id m)))
      \<and> (r = Inr cnt \<and> k = cnt \<or> r = Inl SendFailed))
    \<or> sent io' = sent io \<and> (r = Inr 0 \<and> cnt = 0 \<or> r = Inl Errno \<or> r = Inl EINVAL)"
proof (cases "cnt = 0")
  case False
  obtain g cache1 where g: "mmap_get om path cache = (g, cache1)" by fastforce
  show ?thesis
  proof (cases g)
    case (Some m)
    show ?thesis
    proof (cases "offset + cnt > mf_size m")
      case fits: False
      then have l: "mmap_loop (drop offset (content (mf_id m))) 0 cnt io = Some (r, io')"
        using assms(1) False g Some by (auto simp: sendFileMmap_def)
      have "length (content (mf_id m)) = mf_size m" using assms(2) g Some by simp
      then have "0 + cnt \<le> length (drop offset (content (mf_id m)))" using fits by simp
      with mmap_loop_post [OF l] obtain k where k: "k \<le> cnt" "sent io' = sent io @ take k (drop offset (content (mf_id m)))"
          and r: "\<And>n. r = Inr n \<Longrightarrow> n = cnt \<and> k = cnt" "\<And>e. r = Inl e \<Longrightarrow> e = SendFailed"
        unfolding mmap_post_def by (cases r) auto
      have "r = Inr cnt \<and> k = cnt \<or> r = Inl SendFailed" using r by (cases r) auto
      then show ?thesis using g Some k by auto
    qed (use assms(1) False g Some in \<open>auto simp: sendFileMmap_def\<close>)
  qed (use assms(1) False g in \<open>auto simp: sendFileMmap_def\<close>)
qed (use assms(1) in \<open>auto simp: sendFileMmap_def\<close>)

section \<open>Splicing\<close>

text \<open>
  One operation of the ring: it would block, fails or finds nothing (the number is the result, not positive), or moves some bytes.
  A coroutine that waits after \<open>-EAGAIN\<close> goes on, by a wake-up or a timeout; it does not look at which.
\<close>

datatype splice_event = SpliceAgain | SpliceEnd int | SpliceMove nat

text \<open>The two loops that ask again after \<open>-EAGAIN\<close>.\<close>

fun splice_again :: "splice_event list \<Rightarrow> ((int + nat) \<times> splice_event list) option" where
  "splice_again [] = None"
| "splice_again (SpliceAgain # evs) = splice_again evs"
| "splice_again (SpliceEnd n # evs) = Some (Inl n, evs)"
| "splice_again (SpliceMove k # evs) = Some (Inr (Suc k), evs)"

text \<open>From the pipe to the socket, until the pipe's \<open>inPipe\<close> bytes are through: \<open>Some n\<close> is a result that ends the call.\<close>

function empty_pipe :: "splice_event list \<Rightarrow> nat \<Rightarrow> bytes \<Rightarrow> bytes \<Rightarrow> (int option \<times> bytes \<times> bytes \<times> splice_event list) option" where
  "empty_pipe evs inPipe piped spliced =
     (if inPipe = 0 then Some (None, piped, spliced, evs)
      else (case splice_again evs of
              None \<Rightarrow> None
            | Some (Inl n, evs') \<Rightarrow> Some (Some n, piped, spliced, evs')
            | Some (Inr k, evs') \<Rightarrow>
                let n2 = min k inPipe in
                if n2 = 0 then Some (Some 0, piped, spliced, evs')
                else empty_pipe evs' (inPipe - n2) (drop n2 piped) (spliced @ take n2 piped)))"
  by pat_completeness auto
termination by (relation "measure (\<lambda>(evs, inPipe, piped, spliced). inPipe)") auto

declare empty_pipe.simps [simp del]

function splice_loop :: "nat \<Rightarrow> bytes \<Rightarrow> splice_event list \<Rightarrow> nat \<Rightarrow> nat \<Rightarrow> bytes \<Rightarrow> bytes \<Rightarrow>
    (int option \<times> bytes \<times> bytes \<times> splice_event list) option" where
  "splice_loop buffer file evs offset left piped spliced =
     (if left = 0 then Some (None, piped, spliced, evs)
      else (case splice_again evs of
              None \<Rightarrow> None
            | Some (Inl n, evs') \<Rightarrow> Some (Some n, piped, spliced, evs')
            | Some (Inr k, evs') \<Rightarrow>
                let n1 = min k (min (min left buffer) (length file - offset)) in
                if n1 = 0 then Some (Some 0, piped, spliced, evs')
                else (case empty_pipe evs' n1 (piped @ take n1 (drop offset file)) spliced of
                        None \<Rightarrow> None
                      | Some (Some n2, out) \<Rightarrow> Some (Some n2, out)
                      | Some (None, piped1, spliced1, evs1) \<Rightarrow>
                          splice_loop buffer file evs1 (offset + n1) (left - n1) piped1 spliced1)))"
  by pat_completeness auto
termination by (relation "measure (\<lambda>(buffer, file, evs, offset, left, piped, spliced). left)") auto

declare splice_loop.simps [simp del]

text \<open>The pipe comes from the pool, or nothing does; it goes back when everything was sent, and is closed otherwise.\<close>

definition sendFileSplice :: "nat \<Rightarrow> bytes \<Rightarrow> splice_event list \<Rightarrow> nat \<Rightarrow> nat \<Rightarrow> pipe option \<Rightarrow> pipe_pool \<times> executor \<Rightarrow>
    ((send_error + nat) \<times> bytes \<times> pipe_pool \<times> executor) option" where
  "sendFileSplice buffer file evs offset cnt pipeOpt pe =
     (case pipeOpt of
        None \<Rightarrow> Some (Inl EBUSY, [], pe)
      | Some q \<Rightarrow>
          (case splice_loop buffer file evs offset cnt [] [] of
             None \<Rightarrow> None
           | Some (None, _, spliced, _) \<Rightarrow> Some (Inr cnt, spliced, pipe_release q pe)
           | Some (Some n, _, spliced, _) \<Rightarrow> Some (Inl (SpliceResult n), spliced, pipe_discard q pe)))"

lemma empty_pipe_moves:
  "empty_pipe evs inPipe piped spliced = Some (r, piped', spliced', evs') \<Longrightarrow> inPipe \<le> length piped \<Longrightarrow>
     \<exists>k \<le> inPipe. spliced' = spliced @ take k piped \<and> piped' = drop k piped \<and> (r = None \<longleftrightarrow> k = inPipe)"
proof (induction evs inPipe piped spliced rule: empty_pipe.induct)
  case (1 evs inPipe piped spliced)
  show ?case
  proof (cases "inPipe = 0")
    case True
    then show ?thesis using 1(2) by (subst (asm) empty_pipe.simps) simp
  next
    case False
    obtain res evs1 where a: "splice_again evs = Some (res, evs1)"
      using 1(2) False by (subst (asm) empty_pipe.simps) (auto split: option.splits)
    show ?thesis
    proof (cases res)
      case (Inl n)
      then show ?thesis using 1(2) False a by (subst (asm) empty_pipe.simps) (auto intro: exI [of _ 0])
    next
      case (Inr k)
      define n2 where "n2 = min k inPipe"
      show ?thesis
      proof (cases "n2 = 0")
        case True
        then show ?thesis using 1(2) False a Inr by (subst (asm) empty_pipe.simps) (auto simp: Let_def n2_def intro: exI [of _ 0])
      next
        case n0: False
        then have e: "empty_pipe evs1 (inPipe - n2) (drop n2 piped) (spliced @ take n2 piped) = Some (r, piped', spliced', evs')"
          using 1(2) False a Inr by (subst (asm) empty_pipe.simps) (simp add: Let_def n2_def [symmetric])
        have le: "n2 \<le> inPipe" by (simp add: n2_def)
        have "inPipe - n2 \<le> length (drop n2 piped)" using 1(3) by simp
        from 1(1) [OF False a _ Inr n2_def n0 e this]
        obtain j where j: "j \<le> inPipe - n2" "spliced' = (spliced @ take n2 piped) @ take j (drop n2 piped)"
            "piped' = drop j (drop n2 piped)" "r = None \<longleftrightarrow> j = inPipe - n2"
          by blast
        have "spliced' = spliced @ take (n2 + j) piped" "piped' = drop (n2 + j) piped" using j(2,3) by (simp add: take_add, simp add: add.commute)
        then show ?thesis using j(1,4) le by (intro exI [of _ "n2 + j"]) auto
      qed
    qed
  qed
qed

lemma splice_loop_moves:
  "splice_loop buffer file evs offset left [] spliced = Some (r, piped', spliced', evs') \<Longrightarrow>
     \<exists>k \<le> left. spliced' = spliced @ take k (drop offset file) \<and> (0 < k \<longrightarrow> offset + k \<le> length file)
       \<and> (r = None \<longleftrightarrow> k = left) \<and> (r = None \<longrightarrow> piped' = [])"
proof (induction left arbitrary: evs offset spliced rule: less_induct)
  case (less left)
  show ?case
  proof (cases "left = 0")
    case True
    then show ?thesis using less.prems by (subst (asm) splice_loop.simps) simp
  next
    case False
    obtain res evs1 where a: "splice_again evs = Some (res, evs1)"
      using less.prems False by (subst (asm) splice_loop.simps) (auto split: option.splits)
    show ?thesis
    proof (cases res)
      case (Inl n)
      then show ?thesis using less.prems False a by (subst (asm) splice_loop.simps) (auto intro: exI [of _ 0])
    next
      case (Inr m)
      define n1 where "n1 = min m (min (min left buffer) (length file - offset))"
      show ?thesis
      proof (cases "n1 = 0")
        case True
        then show ?thesis using less.prems False a Inr by (subst (asm) splice_loop.simps) (auto simp: Let_def n1_def intro: exI [of _ 0])
      next
        case n0: False
        let ?p = "take n1 (drop offset file)"
        have n1: "n1 \<le> left" "offset + n1 \<le> length file" "length ?p = n1" using n0 by (auto simp: n1_def)
        have body: "(case empty_pipe evs1 n1 ?p spliced of None \<Rightarrow> None | Some (Some n2, out) \<Rightarrow> Some (Some n2, out)
            | Some (None, piped1, spliced1, evs2) \<Rightarrow> splice_loop buffer file evs2 (offset + n1) (left - n1) piped1 spliced1)
          = Some (r, piped', spliced', evs')"
          using less.prems False a Inr n0 by (subst (asm) splice_loop.simps) (simp add: Let_def n1_def [symmetric])
        then obtain r1 piped1 spliced1 evs2 where e: "empty_pipe evs1 n1 ?p spliced = Some (r1, piped1, spliced1, evs2)"
          by (cases "empty_pipe evs1 n1 ?p spliced") auto
        obtain k where k: "k \<le> n1" "spliced1 = spliced @ take k ?p" "piped1 = drop k ?p" "r1 = None \<longleftrightarrow> k = n1"
          using empty_pipe_moves [OF e eq_refl [OF n1(3) [symmetric]]] by blast
        show ?thesis
        proof (cases r1)
          case (Some n2)
          then have "r = Some n2" "spliced' = spliced1" "k < n1" using body e k(1,4) by auto
          then show ?thesis using k(2) n1(1,2) by (intro exI [of _ k]) (simp add: min_def)
        next
          case None
          then have k1: "k = n1" "piped1 = []" "spliced1 = spliced @ ?p" using k n1(3) by simp_all
          then have "splice_loop buffer file evs2 (offset + n1) (left - n1) [] spliced1 = Some (r, piped', spliced', evs')"
            using body e None by simp
          from less.IH [OF _ this] n0 False obtain j where j: "j \<le> left - n1" "spliced' = spliced1 @ take j (drop (offset + n1) file)"
              "0 < j \<longrightarrow> offset + n1 + j \<le> length file" "r = None \<longleftrightarrow> j = left - n1" "r = None \<longrightarrow> piped' = []"
            by auto
          have "spliced' = spliced @ take (n1 + j) (drop offset file)" 
            unfolding j(2) k1(3) take_add drop_drop append_assoc by (simp only: add.commute [of offset n1])
          then show ?thesis using j(1,3-) n1(1,2) by (intro exI [of _ "n1 + j"]) auto
        qed
      qed
    qed
  qed
qed

text \<open>
  A call that returns has sent a prefix of the slice, all of it exactly when it returns the count, so a slice that reaches past the
  end of the file is never reported as sent; the pipe it held is either free again or closed and no longer counted.
\<close>

lemma sendFileSplice_sends:
  assumes "sendFileSplice buffer file evs offset cnt (Some q) (p, ex) = Some (r, spliced, pe')" "pipes_ok (Suc used) p"
  shows "spliced = take (length spliced) (drop offset file)" "pipes_ok used (fst pe')"
    "case r of Inr n \<Rightarrow> n = cnt \<and> length spliced = cnt | Inl e \<Rightarrow> length spliced < cnt"
proof -
  obtain e piped evs' where l: "splice_loop buffer file evs offset cnt [] [] = Some (e, piped, spliced, evs')"
    and r: "r = (case e of None \<Rightarrow> Inr cnt | Some n \<Rightarrow> Inl (SpliceResult n))"
    and pe: "pe' = (case e of None \<Rightarrow> pipe_release q (p, ex) | Some n \<Rightarrow> pipe_discard q (p, ex))"
    using assms(1) by (auto simp: sendFileSplice_def split: option.splits)
  show "pipes_ok used (fst pe')" unfolding pe using pipes_ok_ops(4,5) [OF assms(2)] by (cases e) simp_all
  obtain k where k: "k \<le> cnt" "spliced = take k (drop offset file)" "0 < k \<longrightarrow> offset + k \<le> length file" "e = None \<longleftrightarrow> k = cnt"
    using splice_loop_moves [OF l] by auto
  then have "length spliced = k" by auto
  then show "spliced = take (length spliced) (drop offset file)" "case r of Inr n \<Rightarrow> n = cnt \<and> length spliced = cnt | Inl e \<Rightarrow> length spliced < cnt"
    using k r by (auto split: option.splits)
qed

lemma sendFileSplice_pipe:
  assumes "sendFileSplice buffer file evs offset cnt (Some q) (p, ex) = Some (r, spliced, pe')"
  shows "freePipes (fst pe') = (case r of Inl _ \<Rightarrow> freePipes p | Inr _ \<Rightarrow> freePipes p @ [q])"
  using assms by (auto simp: sendFileSplice_def pipe_release_def pipe_discard_def split: option.splits)

text \<open>A socket that takes nothing keeps the call from returning, whatever times out.\<close>

lemma splice_again_stalled: "set evs \<subseteq> {SpliceAgain} \<Longrightarrow> splice_again evs = None"
  by (induction evs) auto

lemma splice_stalled:
  assumes "set evs \<subseteq> {SpliceAgain}" "0 < cnt"
  shows "sendFileSplice buffer file evs offset cnt (Some q) pe = None"
  using splice_again_stalled [OF assms(1)] assms(2) by (simp add: sendFileSplice_def splice_loop.simps)

section \<open>TLS\<close>

text \<open>OpenSSL's results: what a call returned, and the error that \<open>SSL_get_error\<close> gives for it.\<close>

datatype ssl_error = SslWantRead | SslWantWrite | SslZeroReturn | SslSyscall | SslOther

definition tls_handshake :: "int \<Rightarrow> ssl_error \<Rightarrow> handshake_result" where
  "tls_handshake ret err =
     (if ret = 1 then HS_DONE
      else (case err of SslWantRead \<Rightarrow> HS_WANT_READ | SslWantWrite \<Rightarrow> HS_WANT_WRITE | _ \<Rightarrow> HS_ERROR))"

definition tls_receive :: "bytes \<Rightarrow> int \<Rightarrow> ssl_error \<Rightarrow> receive_result" where
  "tls_receive got n err =
     (if n > 0 then RcvData (take (nat n) got)
      else (case err of SslWantRead \<Rightarrow> RcvWouldBlock | SslWantWrite \<Rightarrow> RcvWouldBlock | SslZeroReturn \<Rightarrow> RcvClosed
              | SslSyscall \<Rightarrow> RcvClosed | SslOther \<Rightarrow> RcvError))"

text \<open>\<open>None\<close> is \<open>-1\<close>.\<close>

definition tls_send :: "int \<Rightarrow> ssl_error \<Rightarrow> nat option" where
  "tls_send n err = (if n \<le> 0 then (if err = SslWantWrite \<or> err = SslWantRead then Some 0 else None) else Some (nat n))"

definition tcp_handshake :: handshake_result where
  "tcp_handshake = HS_NO_TLS"

definition tls_sendFile :: "(unit + nat)" where
  "tls_sendFile = Inl ()"

text \<open>\<open>resolvePeerAddress\<close>; the text of the address is the C library's.\<close>

datatype address_family = AfInet | AfInet6 | AfOther

definition resolvePeerAddress :: "address_family \<Rightarrow> string \<Rightarrow> nat \<Rightarrow> (string \<times> nat) result" where
  "resolvePeerAddress family addr prt =
     (case family of AfInet \<Rightarrow> Inr (addr, prt) | AfInet6 \<Rightarrow> Inr (addr, prt) | AfOther \<Rightarrow> Inl (RuntimeError ''Unknown address family''))"

text \<open>
  The constructors. A TLS stream holds a raw pointer to OpenSSL's object: \<open>ssl\<close> is the object that \<open>SSL_new\<close> made, if any.
  A constructor that throws has closed the descriptor, since the socket is a member that was already built.
\<close>

definition new_tcp_stream :: "address_family \<Rightarrow> string \<Rightarrow> nat \<Rightarrow> bool \<Rightarrow> (string \<times> nat) result" where
  "new_tcp_stream family addr prt nodelay_ok =
     (case resolvePeerAddress family addr prt of
        Inl e \<Rightarrow> Inl e
      | Inr peer \<Rightarrow> if nodelay_ok then Inr peer else Inl (RuntimeError ''Failed to set TCP_NODELAY''))"

record tls_stream =
  tls_socket :: int
  tls_ssl :: "nat option"
  tls_peer :: "string \<times> nat"

definition new_tls_stream :: "int \<Rightarrow> nat option \<Rightarrow> address_family \<Rightarrow> string \<Rightarrow> nat \<Rightarrow> bool \<Rightarrow> tls_stream result" where
  "new_tls_stream fd ssl family addr prt nodelay_ok =
     (case ssl of
        None \<Rightarrow> Inl (RuntimeError ''Failed to create SSL object'')
      | Some _ \<Rightarrow>
          (case new_tcp_stream family addr prt nodelay_ok of
             Inl e \<Rightarrow> Inl e
           | Inr peer \<Rightarrow> Inr \<lparr>tls_socket = fd, tls_ssl = ssl, tls_peer = peer\<rparr>))"

text \<open>Moves and destruction, over the descriptors that were closed and the objects that were shut down and freed.\<close>

definition tls_move :: "tls_stream \<Rightarrow> tls_stream \<times> tls_stream" where
  "tls_move other = (other, other\<lparr>tls_socket := snd (socket_move (tls_socket other)), tls_ssl := None\<rparr>)"

definition free_ssl :: "nat option \<Rightarrow> nat list \<Rightarrow> nat list" where
  "free_ssl p freed = (case p of None \<Rightarrow> freed | Some x \<Rightarrow> freed @ [x])"

definition tls_move_assign :: "tls_stream \<Rightarrow> tls_stream \<Rightarrow> int list \<times> nat list \<Rightarrow> tls_stream \<times> tls_stream \<times> int list \<times> nat list" where
  "tls_move_assign self other st =
     (case socket_move_assign (tls_socket self) (tls_socket other) (fst st) of
        (fd, fd', closed) \<Rightarrow>
          (self\<lparr>tls_socket := fd, tls_ssl := tls_ssl other, tls_peer := tls_peer other\<rparr>,
           other\<lparr>tls_socket := fd', tls_ssl := None\<rparr>, closed, free_ssl (tls_ssl self) (snd st)))"

definition tls_destroy :: "tls_stream \<Rightarrow> int list \<times> nat list \<Rightarrow> int list \<times> nat list" where
  "tls_destroy s st = (snd (close_socket (tls_socket s, fst st)), free_ssl (tls_ssl s) (snd st))"

lemma tls_moved_freed_once:
  assumes "tls_socket a \<noteq> -1" "tls_socket b \<noteq> -1" "tls_ssl a = Some x" "tls_ssl b = Some y"
  shows "(case tls_move_assign a b ([], []) of (t, s, st) \<Rightarrow> tls_destroy s (tls_destroy t st))
     = ([tls_socket a, tls_socket b], [x, y])"
  using assms by (simp add: tls_move_assign_def tls_destroy_def socket_move_assign_def close_socket_def free_ssl_def)

lemma tls_move_once:
  assumes "tls_socket a \<noteq> -1" "tls_ssl a = Some x"
  shows "(case tls_move a of (t, s) \<Rightarrow> tls_destroy s (tls_destroy t ([], []))) = ([tls_socket a], [x])"
  using assms by (simp add: tls_move_def tls_destroy_def socket_move_def close_socket_def free_ssl_def)

section \<open>The handshake of a connection\<close>

lemma tcp_no_handshake: "handshake_loop (tcp_handshake # rs) io = Some (Go (), io)"
  by (simp add: tcp_handshake_def)

text \<open>Requests are read only when the handshake is done; an error of OpenSSL ends the connection.\<close>

lemma handshake_done:
  "handshake_loop rs io = Some (Go (), io') \<Longrightarrow>
     \<exists>ws r rest. rs = ws @ r # rest \<and> r \<in> {HS_DONE, HS_NO_TLS} \<and> set ws \<subseteq> {HS_WANT_READ, HS_WANT_WRITE}"
proof (induction rs io rule: handshake_loop.induct)
  case (4 rs io)
  then obtain ws r rest where "rs = ws @ r # rest" "r \<in> {HS_DONE, HS_NO_TLS}" "set ws \<subseteq> {HS_WANT_READ, HS_WANT_WRITE}"
    by (auto simp: Let_def split: if_splits)
  then show ?case by (intro exI [of _ "HS_WANT_READ # ws"]) auto
next
  case (5 rs io)
  then obtain ws r rest where "rs = ws @ r # rest" "r \<in> {HS_DONE, HS_NO_TLS}" "set ws \<subseteq> {HS_WANT_READ, HS_WANT_WRITE}"
    by (auto simp: Let_def split: if_splits)
  then show ?case by (intro exI [of _ "HS_WANT_WRITE # ws"]) auto
qed (auto intro: exI [of _ "[]"])

lemma tls_failed_ends:
  assumes "ret \<noteq> 1" "err \<noteq> SslWantRead" "err \<noteq> SslWantWrite"
  shows "handshake_loop (tls_handshake ret err # rs) io = Some (Stop, io)"
  using assms by (cases err) (simp_all add: tls_handshake_def)

end
