(* ===== verification/Compressors.thy ===== *)
theory Compressors
  imports Config
begin

text \<open>
  The compressors: \<open>rukh/include/rukh/http/compression/GzipCompressor.hpp\<close> and \<open>BrotliCompressor.hpp\<close>.

  zlib's \<open>deflate\<close> and Brotli's encoder are parameters over a state of their own. \<open>n\<close> is the size of the buffer on the stack,
  \<open>COMPRESSION_BUFFER_SIZE\<close>; a call of the library fills at most that much. What the library promises about such calls is
  stated as \<open>deflates\<close> and \<open>encodes\<close>: it has a string to give, gives it piece by piece, and says when there is no more.
\<close>

section \<open>gzip\<close>

datatype z_flush = Z_SYNC_FLUSH | Z_FINISH

datatype z_ret = Z_OK | Z_STREAM_END | Z_BUF_ERROR | Z_STREAM_ERROR | Z_OTHER int

text \<open>The number of a result, for the messages.\<close>

definition z_code :: "z_ret \<Rightarrow> int" where
  "z_code r = (case r of Z_OK \<Rightarrow> 0 | Z_STREAM_END \<Rightarrow> 1 | Z_BUF_ERROR \<Rightarrow> -5 | Z_STREAM_ERROR \<Rightarrow> -2 | Z_OTHER i \<Rightarrow> i)"

definition z_message :: "z_ret \<Rightarrow> string" where
  "z_message r = (if z_code r < 0 then ''-'' @ to_dec (nat (- z_code r)) else to_dec (nat (z_code r)))"

text \<open>\<open>deflate flush n input z\<close>: the result, the bytes written, the input that is left, the new state.\<close>

type_synonym 'z deflate = "z_flush \<Rightarrow> nat \<Rightarrow> bytes \<Rightarrow> 'z \<Rightarrow> z_ret \<times> bytes \<times> bytes \<times> 'z"

text \<open>The length of the input is put into 32 bits (\<open>uInt\<close>): of a longer input the library sees a prefix only.\<close>

definition avail_in :: "bytes \<Rightarrow> bytes" where
  "avail_in input = take (length input mod 2 ^ 32) input"

lemma avail_in_short: "length input < 2 ^ 32 \<Longrightarrow> avail_in input = input"
  by (simp add: avail_in_def)

lemma avail_in_cut: "length input = 2 ^ 32 + k \<Longrightarrow> k < 2 ^ 32 \<Longrightarrow> avail_in input = take k input"
  by (simp add: avail_in_def)

partial_function (option) gzip_compress_loop :: "'z deflate \<Rightarrow> nat \<Rightarrow> bytes \<Rightarrow> 'z \<Rightarrow> bytes \<Rightarrow> (bytes result \<times> 'z) option" where
  "gzip_compress_loop deflate n input z outp =
     (case deflate Z_FINISH n input z of (ret, written, input1, z1) \<Rightarrow>
        if ret = Z_STREAM_ERROR then Some (Inl (CompressorException ''gzip compress failed: stream error''), z1)
        else if ret \<noteq> Z_STREAM_END then gzip_compress_loop deflate n input1 z1 (outp @ written)
        else Some (Inr (outp @ written), z1))"

definition gzip_compress :: "'z deflate \<Rightarrow> nat \<Rightarrow> bytes \<Rightarrow> 'z \<Rightarrow> (bytes result \<times> 'z) option" where
  "gzip_compress deflate n input z = gzip_compress_loop deflate n (avail_in input) z []"

partial_function (option) gzip_feed_loop :: "'z deflate \<Rightarrow> nat \<Rightarrow> bytes \<Rightarrow> 'z \<Rightarrow> bytes \<Rightarrow> (bytes result \<times> 'z) option" where
  "gzip_feed_loop deflate n input z outp =
     (case deflate Z_SYNC_FLUSH n input z of (ret, written, input1, z1) \<Rightarrow>
        if ret \<noteq> Z_OK \<and> ret \<noteq> Z_BUF_ERROR
        then Some (Inl (CompressorException (''gzip feedChunk failed: deflate returned '' @ z_message ret)), z1)
        else if n - length written = 0 then gzip_feed_loop deflate n input1 z1 (outp @ written)
        else Some (Inr (outp @ written), z1))"

definition gzip_feedChunk :: "'z deflate \<Rightarrow> nat \<Rightarrow> bytes \<Rightarrow> 'z \<Rightarrow> (bytes result \<times> 'z) option" where
  "gzip_feedChunk deflate n input z = gzip_feed_loop deflate n (avail_in input) z []"

partial_function (option) gzip_finish_loop :: "'z deflate \<Rightarrow> nat \<Rightarrow> bytes \<Rightarrow> 'z \<Rightarrow> bytes \<Rightarrow> (bytes result \<times> 'z) option" where
  "gzip_finish_loop deflate n input z outp =
     (case deflate Z_FINISH n input z of (ret, written, input1, z1) \<Rightarrow>
        if ret \<noteq> Z_OK \<and> ret \<noteq> Z_STREAM_END \<and> ret \<noteq> Z_BUF_ERROR
        then Some (Inl (CompressorException (''gzip finish failed: deflate returned '' @ z_message ret)), z1)
        else if ret = Z_OK then gzip_finish_loop deflate n input1 z1 (outp @ written)
        else Some (Inr (outp @ written), z1))"

definition gzip_finish :: "'z deflate \<Rightarrow> nat \<Rightarrow> 'z \<Rightarrow> (bytes result \<times> 'z) option" where
  "gzip_finish deflate n z = gzip_finish_loop deflate n [] z []"

text \<open>
  zlib's manual: with room left after a call, everything was given; \<open>Z_STREAM_END\<close> comes when all was given after \<open>Z_FINISH\<close>, at the
  latest with the call that leaves room. \<open>todo flush input z\<close> is what is still to come.
\<close>

definition deflates :: "'z deflate \<Rightarrow> (z_flush \<Rightarrow> bytes \<Rightarrow> 'z \<Rightarrow> bytes) \<Rightarrow> bool" where
  "deflates deflate todo \<longleftrightarrow> (\<forall>flush n input z ret written input1 z1. 0 < n \<longrightarrow> deflate flush n input z = (ret, written, input1, z1) \<longrightarrow>
     written = take n (todo flush input z) \<and> todo flush input1 z1 = drop n (todo flush input z)
     \<and> (case flush of
          Z_SYNC_FLUSH \<Rightarrow> ret \<in> {Z_OK, Z_BUF_ERROR}
        | Z_FINISH \<Rightarrow> ret \<in> {Z_OK, Z_STREAM_END} \<and> (ret = Z_STREAM_END \<longrightarrow> length (todo flush input z) \<le> n)
            \<and> (length (todo flush input z) < n \<longrightarrow> ret = Z_STREAM_END)))"

lemma deflatesD:
  assumes "deflates deflate todo" "0 < n" "deflate flush n input z = (ret, written, input1, z1)"
  shows "written = take n (todo flush input z)" "todo flush input1 z1 = drop n (todo flush input z)"
    and "flush = Z_SYNC_FLUSH \<Longrightarrow> ret = Z_OK \<or> ret = Z_BUF_ERROR"
    and "flush = Z_FINISH \<Longrightarrow> ret = Z_OK \<or> ret = Z_STREAM_END"
    and "flush = Z_FINISH \<Longrightarrow> ret = Z_STREAM_END \<Longrightarrow> length (todo flush input z) \<le> n"
    and "flush = Z_FINISH \<Longrightarrow> length (todo flush input z) < n \<Longrightarrow> ret = Z_STREAM_END"
proof -
  note spec = assms(1) [unfolded deflates_def, rule_format, OF assms(2,3)]
  show "written = take n (todo flush input z)" "todo flush input1 z1 = drop n (todo flush input z)" using spec by blast+
  show "flush = Z_SYNC_FLUSH \<Longrightarrow> ret = Z_OK \<or> ret = Z_BUF_ERROR" using spec by simp
  show "flush = Z_FINISH \<Longrightarrow> ret = Z_OK \<or> ret = Z_STREAM_END" using spec by simp
  show "flush = Z_FINISH \<Longrightarrow> ret = Z_STREAM_END \<Longrightarrow> length (todo flush input z) \<le> n" using spec by simp
  show "flush = Z_FINISH \<Longrightarrow> length (todo flush input z) < n \<Longrightarrow> ret = Z_STREAM_END" using spec by simp
qed

text \<open>The loops give all of it, whatever the size of the buffer, and end.\<close>

lemma feed_all:
  assumes "deflates deflate todo" "0 < n"
  shows "\<exists>z'. gzip_feed_loop deflate n input z outp = Some (Inr (outp @ todo Z_SYNC_FLUSH input z), z')"
proof (induction "length (todo Z_SYNC_FLUSH input z)" arbitrary: input z outp rule: less_induct)
  case less
  obtain ret written input1 z1 where d: "deflate Z_SYNC_FLUSH n input z = (ret, written, input1, z1)" by (metis prod_cases4)
  note c = deflatesD [OF assms d]
  show ?case
  proof (cases "length (todo Z_SYNC_FLUSH input z) < n")
    case True
    then show ?thesis using c(1) c(3) d assms(2)
      by (subst gzip_feed_loop.simps) auto
  next
    case False
    then have "length (todo Z_SYNC_FLUSH input1 z1) < length (todo Z_SYNC_FLUSH input z)" using assms(2) c(2) by simp
    from less [OF this, of "outp @ written"] obtain z' where
        "gzip_feed_loop deflate n input1 z1 (outp @ written) = Some (Inr ((outp @ written) @ todo Z_SYNC_FLUSH input1 z1), z')" by blast
    then show ?thesis using False c(1,2) c(3) d
      by (subst gzip_feed_loop.simps) auto
  qed
qed

lemma finish_all:
  assumes "deflates deflate todo" "0 < n"
  shows "\<exists>z'. gzip_finish_loop deflate n input z outp = Some (Inr (outp @ todo Z_FINISH input z), z')
    \<and> gzip_compress_loop deflate n input z outp = Some (Inr (outp @ todo Z_FINISH input z), z')"
proof (induction "length (todo Z_FINISH input z)" arbitrary: input z outp rule: less_induct)
  case less
  obtain ret written input1 z1 where d: "deflate Z_FINISH n input z = (ret, written, input1, z1)" by (metis prod_cases4)
  note c = deflatesD [OF assms d]
  show ?case
  proof (cases "ret = Z_STREAM_END")
    case True
    then have "written = todo Z_FINISH input z" using c(1) c(5) by simp
    then show ?thesis using True d by (subst gzip_finish_loop.simps, subst gzip_compress_loop.simps) simp
  next
    case False
    then have ok: "ret = Z_OK" and long: "n \<le> length (todo Z_FINISH input z)" using c(4) c(6) by force+
    have "length (todo Z_FINISH input1 z1) < length (todo Z_FINISH input z)" using assms(2) c(2) long by simp
    from less [OF this, of "outp @ written"] obtain z' where
        "gzip_finish_loop deflate n input1 z1 (outp @ written) = Some (Inr ((outp @ written) @ todo Z_FINISH input1 z1), z')"
        "gzip_compress_loop deflate n input1 z1 (outp @ written) = Some (Inr ((outp @ written) @ todo Z_FINISH input1 z1), z')" by blast
    then show ?thesis using ok c(1,2) d
      by (subst gzip_finish_loop.simps, subst gzip_compress_loop.simps) simp
  qed
qed

lemma gzip_gives_all:
  assumes "deflates deflate todo" "0 < n"
  shows "\<exists>z'. gzip_feedChunk deflate n input z = Some (Inr (todo Z_SYNC_FLUSH (avail_in input) z), z')"
    and "\<exists>z'. gzip_finish deflate n z = Some (Inr (todo Z_FINISH [] z), z')"
    and "\<exists>z'. gzip_compress deflate n input z = Some (Inr (todo Z_FINISH (avail_in input) z), z')"
  using feed_all [OF assms, of "avail_in input" z "[]"] finish_all [OF assms, of "[]" z "[]"] finish_all [OF assms, of "avail_in input" z "[]"]
  by (auto simp: gzip_feedChunk_def gzip_finish_def gzip_compress_def)

section \<open>Brotli\<close>

datatype brotli_op = BrotliFlush | BrotliFinish

text \<open>\<open>step op n input s\<close>: nothing on a failure, otherwise the bytes written, the input that is left, the new state; \<open>hasMore s\<close> says that there is more output.\<close>

type_synonym 's encoder = "brotli_op \<Rightarrow> nat \<Rightarrow> bytes \<Rightarrow> 's \<Rightarrow> (bytes \<times> bytes \<times> 's) option"

partial_function (option) processStream_loop :: "'s encoder \<Rightarrow> ('s \<Rightarrow> bool) \<Rightarrow> nat \<Rightarrow> brotli_op \<Rightarrow> bytes \<Rightarrow> 's \<Rightarrow> bytes \<Rightarrow> (bytes result \<times> 's) option" where
  "processStream_loop step hasMore n opn input s outp =
     (case step opn n input s of
        None \<Rightarrow> Some (Inl (CompressorException ''BrotliEncoderCompressStream failed''), s)
      | Some (written, input1, s1) \<Rightarrow>
          if 0 < length input1 \<or> hasMore s1 then processStream_loop step hasMore n opn input1 s1 (outp @ written)
          else Some (Inr (outp @ written), s1))"

definition processStream :: "'s encoder \<Rightarrow> ('s \<Rightarrow> bool) \<Rightarrow> nat \<Rightarrow> bytes \<Rightarrow> brotli_op \<Rightarrow> 's \<Rightarrow> (bytes result \<times> 's) option" where
  "processStream step hasMore n input opn s = processStream_loop step hasMore n opn input s []"

definition brotli_feedChunk :: "'s encoder \<Rightarrow> ('s \<Rightarrow> bool) \<Rightarrow> nat \<Rightarrow> bytes \<Rightarrow> 's \<Rightarrow> (bytes result \<times> 's) option" where
  "brotli_feedChunk step hasMore n input s = processStream step hasMore n input BrotliFlush s"

definition brotli_finish :: "'s encoder \<Rightarrow> ('s \<Rightarrow> bool) \<Rightarrow> nat \<Rightarrow> 's \<Rightarrow> (bytes result \<times> 's) option" where
  "brotli_finish step hasMore n s = processStream step hasMore n [] BrotliFinish s"

text \<open>The one-shot encoder; \<open>encode\<close> gives nothing when it fails. The quality of the constructor plays no part.\<close>

definition brotli_compress :: "(bytes \<Rightarrow> bytes option) \<Rightarrow> bytes \<Rightarrow> bytes result" where
  "brotli_compress encode input = (case encode input of None \<Rightarrow> Inl (CompressorException ''BrotliEncoderCompress failed'') | Some out \<Rightarrow> Inr out)"

text \<open>
  The encoder's documentation: a call takes input or gives output; when neither input nor output is left, the operation is
  done.
\<close>

definition encodes :: "'s encoder \<Rightarrow> ('s \<Rightarrow> bool) \<Rightarrow> (brotli_op \<Rightarrow> bytes \<Rightarrow> 's \<Rightarrow> bytes) \<Rightarrow> bool" where
  "encodes step hasMore todo \<longleftrightarrow> (\<forall>opn n input s. 0 < n \<longrightarrow>
     (\<exists>written input1 s1. step opn n input s = Some (written, input1, s1) \<and> todo opn input s = written @ todo opn input1 s1
        \<and> (input1 = [] \<and> \<not> hasMore s1 \<longrightarrow> todo opn input1 s1 = [])
        \<and> (input1 \<noteq> [] \<or> hasMore s1 \<longrightarrow> length input1 + length (todo opn input1 s1) < length input + length (todo opn input s))))"

lemma process_all:
  assumes "encodes step hasMore todo" "0 < n"
  shows "\<exists>s'. processStream_loop step hasMore n opn input s outp = Some (Inr (outp @ todo opn input s), s')"
proof (induction "length input + length (todo opn input s)" arbitrary: input s outp rule: less_induct)
  case less
  from assms obtain written input1 s1 where c: "step opn n input s = Some (written, input1, s1)" "todo opn input s = written @ todo opn input1 s1"
      "input1 = [] \<and> \<not> hasMore s1 \<longrightarrow> todo opn input1 s1 = []"
      "input1 \<noteq> [] \<or> hasMore s1 \<longrightarrow> length input1 + length (todo opn input1 s1) < length input + length (todo opn input s)"
    unfolding encodes_def by blast
  show ?case
  proof (cases "input1 \<noteq> [] \<or> hasMore s1")
    case True
    from less [OF c(4) [rule_format, OF True], of "outp @ written"] obtain s' where
        "processStream_loop step hasMore n opn input1 s1 (outp @ written) = Some (Inr ((outp @ written) @ todo opn input1 s1), s')" by blast
    then show ?thesis using True c(1,2) by (subst processStream_loop.simps) simp
  next
    case False
    then show ?thesis using c(1-3) by (subst processStream_loop.simps) simp
  qed
qed

lemma brotli_gives_all:
  assumes "encodes step hasMore todo" "0 < n"
  shows "\<exists>s'. brotli_feedChunk step hasMore n input s = Some (Inr (todo BrotliFlush input s), s')"
    and "\<exists>s'. brotli_finish step hasMore n s = Some (Inr (todo BrotliFinish [] s), s')"
  using process_all [OF assms, of BrotliFlush input s "[]"] process_all [OF assms, of BrotliFinish "[]" s "[]"]
  by (auto simp: brotli_feedChunk_def brotli_finish_def processStream_def)

section \<open>The states of the libraries\<close>

text \<open>
  A compressor owns the state of its library, if it has one: gzip has the flag \<open>initialized_\<close>, brotli a pointer. The states
  that were destroyed are kept in order. Creating may fail.
\<close>

definition new_gzip :: "bool \<Rightarrow> nat \<Rightarrow> nat option result" where
  "new_gzip init_ok z = (if init_ok then Inr (Some z) else Inl (CompressorException ''deflateInit2 failed''))"

definition new_brotli :: "nat option \<Rightarrow> nat option result" where
  "new_brotli created = (case created of None \<Rightarrow> Inl (CompressorException ''BrotliEncoderCreateInstance failed'') | Some z \<Rightarrow> Inr (Some z))"

definition destroy_state :: "nat option \<Rightarrow> nat list \<Rightarrow> nat list" where
  "destroy_state p freed = (case p of None \<Rightarrow> freed | Some z \<Rightarrow> freed @ [z])"

definition gzip_destroy :: "nat option \<Rightarrow> nat list \<Rightarrow> nat list" where
  "gzip_destroy = destroy_state"

definition gzip_move :: "nat option \<Rightarrow> nat option \<times> nat option" where
  "gzip_move other = (other, None)"

definition gzip_move_assign :: "nat option \<Rightarrow> nat option \<Rightarrow> nat list \<Rightarrow> nat option \<times> nat option \<times> nat list" where
  "gzip_move_assign self other freed = (other, None, destroy_state self freed)"

definition brotli_destroy :: "nat option \<Rightarrow> nat list \<Rightarrow> nat list" where
  "brotli_destroy = destroy_state"

definition brotli_move :: "nat option \<Rightarrow> nat option \<times> nat option" where
  "brotli_move other = (other, None)"

definition brotli_move_assign :: "nat option \<Rightarrow> nat option \<Rightarrow> nat list \<Rightarrow> nat option \<times> nat option \<times> nat list" where
  "brotli_move_assign self other freed = (other, None, destroy_state self freed)"

lemmas state_defs = gzip_destroy_def gzip_move_def gzip_move_assign_def brotli_destroy_def brotli_move_def brotli_move_assign_def destroy_state_def

lemma states_destroyed_once:
  "(case gzip_move_assign (Some x) (Some y) [] of (t, s, fr) \<Rightarrow> gzip_destroy s (gzip_destroy t fr)) = [x, y]"
  "(case brotli_move_assign (Some x) (Some y) [] of (t, s, fr) \<Rightarrow> brotli_destroy s (brotli_destroy t fr)) = [x, y]"
  "(case gzip_move (Some x) of (t, s) \<Rightarrow> gzip_destroy s (gzip_destroy t [])) = [x]"
  "(case brotli_move (Some x) of (t, s) \<Rightarrow> brotli_destroy s (brotli_destroy t [])) = [x]"
  by (simp_all add: state_defs)

end
