(* ===== verification/HttpServers.thy ===== *)
theory HttpServers
  imports Tasks Streams
begin

text \<open>
  The server: \<open>rukh/src/http/HttpServer.cpp\<close>, and the listeners of \<open>rukh/src/core/ListenerSocket.cpp\<close>.

  What the kernel answers to \<open>accept\<close> is a list, and the handle of a coroutine that the server makes is given with the stream it
  serves. The life of a connection (\<open>HttpConnection::run\<close>) is a parameter of \<open>handleConnection\<close>. The loops that accept are
  modelled from one wait for the listener to the next; leaving the loop with an exception ends the coroutine, and nobody looks
  at the exception of a spawned one.
\<close>

section \<open>Setting up\<close>

record listener_config =
  lc_host :: string
  lc_port :: string
  isTls :: bool

record http_server =
  listenerConfigs :: "listener_config list"
  tlsContext :: bool
  routerSet :: bool
  listenBacklog :: int

definition new_server :: http_server where
  "new_server = \<lparr>listenerConfigs = [], tlsContext = False, routerSet = False, listenBacklog = 100000\<rparr>"

definition addListener :: "string \<Rightarrow> string \<Rightarrow> http_server \<Rightarrow> http_server" where
  "addListener host prt s = s\<lparr>listenerConfigs := listenerConfigs s @ [\<lparr>lc_host = host, lc_port = prt, isTls = False\<rparr>]\<rparr>"

definition addTlsListener :: "string \<Rightarrow> string \<Rightarrow> http_server \<Rightarrow> http_server" where
  "addTlsListener host prt s = s\<lparr>listenerConfigs := listenerConfigs s @ [\<lparr>lc_host = host, lc_port = prt, isTls = True\<rparr>]\<rparr>"

definition setRouter :: "http_server \<Rightarrow> http_server" where
  "setRouter s = s\<lparr>routerSet := True\<rparr>"

definition setListenBacklog :: "int \<Rightarrow> http_server \<Rightarrow> http_server" where
  "setListenBacklog n s = s\<lparr>listenBacklog := n\<rparr>"

text \<open>OpenSSL's results: whether the context could be made, and what loading the two files returned.\<close>

definition setTlsContext :: "bool \<Rightarrow> int \<Rightarrow> int \<Rightarrow> http_server \<Rightarrow> unit result \<times> http_server" where
  "setTlsContext ctx cert key s =
     (let s1 = s\<lparr>tlsContext := ctx\<rparr> in
      if \<not> ctx then (Inl (serverException ''Failed to create SSL_CTX'' 500), s1)
      else if cert \<le> 0 then (Inl (serverException ''Failed to load certificate'' 500), s1)
      else if key \<le> 0 then (Inl (serverException ''Failed to load private key'' 500), s1)
      else (Inr (), s1))"

text \<open>A signal: the second one ends the program.\<close>

definition on_signal :: "bool \<Rightarrow> bool option" where
  "on_signal shut = (if shut then None else Some True)"

text \<open>\<open>run\<close> up to the start of the threads: how many there are. \<open>cores\<close> is \<open>hardware_concurrency\<close>, \<open>ring\<close> the result of making the first ring.\<close>

definition server_threads :: "nat \<Rightarrow> int \<Rightarrow> nat \<Rightarrow> http_server \<Rightarrow> nat result" where
  "server_threads cores ring n s =
     (if \<not> routerSet s then Inl (serverException ''Call setRouter() before run()'' 500)
      else if ring < 0 then Inl (serverException ''Failed to initialize io_uring'' 500)
      else Inr (if n = 0 then cores else n))"

text \<open>The accept loops that a worker spawns, in their order: those of the plain listeners first.\<close>

definition worker_listeners :: "http_server \<Rightarrow> listener_config list" where
  "worker_listeners s = filter (\<lambda>c. \<not> isTls c) (listenerConfigs s) @ filter isTls (listenerConfigs s)"

definition worker_spawns :: "http_server \<Rightarrow> (listener_config \<Rightarrow> handle) \<Rightarrow> executor \<Rightarrow> executor" where
  "worker_spawns s loop_of ex = fold (\<lambda>c. spawn (loop_of c)) (worker_listeners s) ex"

section \<open>Accepting\<close>

text \<open>
  Opening a listener, over what the system calls give: \<open>getaddrinfo\<close>, \<open>socket\<close>, the two \<open>setsockopt\<close> and \<open>bind\<close>. A step that
  fails throws, and a descriptor that was created is closed by the socket that owns it.
\<close>

record open_calls =
  gai_ok :: bool
  socket_fd :: int
  reuse_addr_ok :: bool
  reuse_port_ok :: bool
  bind_ok :: bool

definition bind_socket :: "open_calls \<Rightarrow> unit result" where
  "bind_socket c =
     (if \<not> reuse_addr_ok c then Inl (SocketException ''Failed to set reuse address'')
      else if \<not> reuse_port_ok c then Inl (SocketException ''Failed to set reuse port'')
      else if \<not> bind_ok c then Inl (SocketException ''Failed to bind socket'')
      else Inr ())"

definition new_listener :: "open_calls \<Rightarrow> int result" where
  "new_listener c =
     (if \<not> gai_ok c then Inl (SocketException ''Failed to locate address'')
      else if \<not> socket_isValid (socket_fd c) then Inl (SocketException ''Failed to create socket'')
      else (case bind_socket c of Inl e \<Rightarrow> Inl e | Inr _ \<Rightarrow> Inr (socket_fd c)))"

definition socket_listen :: "bool \<Rightarrow> unit result" where
  "socket_listen listen_ok = (if listen_ok then Inr () else Inl (SocketException ''Failed to listen on socket''))"

text \<open>What \<open>accept4\<close> and the constructor of the stream give: a stream with the coroutine that will serve it, nothing, or an error.\<close>

datatype accept_answer = Accepted int handle | NoneWaiting | AcceptError | StreamError exn

definition accept_error :: exn where
  "accept_error = SocketException ''Failed to accept connection''"

definition listener_accept :: "accept_answer \<Rightarrow> (int \<times> handle) option result" where
  "listener_accept a =
     (case a of Accepted fd h \<Rightarrow> Inr (Some (fd, h)) | NoneWaiting \<Rightarrow> Inr None
      | AcceptError \<Rightarrow> Inl accept_error | StreamError e \<Rightarrow> Inl e)"

text \<open>\<open>acceptRawFd\<close>: any error is \<open>-1\<close>.\<close>

definition acceptRawFd :: "accept_answer \<Rightarrow> int" where
  "acceptRawFd a = (case a of Accepted fd h \<Rightarrow> fd | _ \<Rightarrow> -1)"

text \<open>\<open>conn_count\<close> is \<open>globalConnectionCount_\<close>; \<open>was_reset\<close> are the descriptors that were closed with a reset.\<close>

record accept_state =
  acc_executor :: executor
  conn_count :: int
  was_reset :: "int list"

text \<open>The loop waits again, ends, or is left by an exception.\<close>

datatype accept_end = WaitAgain | LoopEnded | LoopThrew exn

fun tcp_accept :: "accept_answer list \<Rightarrow> accept_state \<Rightarrow> (accept_end \<times> accept_state) option" where
  "tcp_accept [] s = None"
| "tcp_accept (a # as) s =
     (case listener_accept a of
        Inl e \<Rightarrow> Some (LoopThrew e, s)
      | Inr None \<Rightarrow> Some (WaitAgain, s)
      | Inr (Some (fd, h)) \<Rightarrow> tcp_accept as (s\<lparr>acc_executor := spawn h (acc_executor s)\<rparr>))"

text \<open>Over the limit at most ten connections are taken and reset.\<close>

fun reset_some :: "nat \<Rightarrow> accept_answer list \<Rightarrow> accept_state \<Rightarrow> accept_state" where
  "reset_some (Suc n) (a # as) s =
     (if acceptRawFd a = -1 then s else reset_some n as (s\<lparr>was_reset := was_reset s @ [acceptRawFd a]\<rparr>))"
| "reset_some n as s = s"

fun tls_accept :: "server_config \<Rightarrow> accept_answer list \<Rightarrow> accept_state \<Rightarrow> (accept_end \<times> accept_state) option" where
  "tls_accept cfg as s =
     (if conn_count s \<ge> int (CONNECTION_LIMIT cfg) then Some (WaitAgain, reset_some 10 as s)
      else (case as of
              [] \<Rightarrow> None
            | a # as' \<Rightarrow>
                (case listener_accept a of
                   Inl e \<Rightarrow> Some (LoopThrew e, s)
                 | Inr None \<Rightarrow> Some (WaitAgain, s)
                 | Inr (Some (fd, h)) \<Rightarrow>
                     tls_accept cfg as' (s\<lparr>conn_count := conn_count s + 1, acc_executor := spawn h (acc_executor s)\<rparr>))))"

declare tls_accept.simps [simp del]

text \<open>From one wait to the next; a timeout of the wait only looks at the flag of the shutdown.\<close>

definition accept_turn :: "(accept_answer list \<Rightarrow> accept_state \<Rightarrow> (accept_end \<times> accept_state) option) \<Rightarrow>
    bool \<Rightarrow> bool \<Rightarrow> accept_answer list \<Rightarrow> accept_state \<Rightarrow> (accept_end \<times> accept_state) option" where
  "accept_turn acc timed_out shut as s =
     (if timed_out then Some (if shut then LoopEnded else WaitAgain, s) else acc as s)"

definition tcpAcceptLoop_turn :: "bool \<Rightarrow> bool \<Rightarrow> accept_answer list \<Rightarrow> accept_state \<Rightarrow> (accept_end \<times> accept_state) option" where
  "tcpAcceptLoop_turn = accept_turn tcp_accept"

definition tlsAcceptLoop_turn :: "server_config \<Rightarrow> bool \<Rightarrow> bool \<Rightarrow> accept_answer list \<Rightarrow> accept_state \<Rightarrow> (accept_end \<times> accept_state) option" where
  "tlsAcceptLoop_turn cfg = accept_turn (tls_accept cfg)"

text \<open>The wait of a loop: three seconds from now.\<close>

definition accept_wait :: "int \<Rightarrow> int \<Rightarrow> handle \<Rightarrow> executor \<Rightarrow> executor" where
  "accept_wait listener_fd timeNow h ex = read_awaitable_suspend listener_fd (timeNow + 3) h ex"

section \<open>Connections\<close>

text \<open>
  \<open>run_conn\<close> is the life of the connection, with the exception it may end with. The stream is destroyed with the frame of the
  coroutine, and closing its descriptor takes it out of the kernel's table.
\<close>

definition handleConnection :: "(executor \<Rightarrow> unit result \<times> executor) \<Rightarrow> int \<Rightarrow> executor \<Rightarrow> unit result \<times> executor" where
  "handleConnection run_conn fd ex =
     (case registerReadFd fd ex of
        (Inl e, ex1) \<Rightarrow> (Inl e, ex1)
      | (Inr _, ex1) \<Rightarrow>
          (case run_conn ex1 of
             (Inl e, ex2) \<Rightarrow> (Inl e, ex2)
           | (Inr _, ex2) \<Rightarrow> (Inr (), unregister fd ex2)))"

definition close_fd :: "int \<Rightarrow> executor \<Rightarrow> executor" where
  "close_fd fd ex = ex\<lparr>interest := (interest ex)(fd := None)\<rparr>"

definition connection_life :: "(executor \<Rightarrow> unit result \<times> executor) \<Rightarrow> int \<Rightarrow> executor \<Rightarrow> executor" where
  "connection_life run_conn fd ex = close_fd fd (snd (handleConnection run_conn fd ex))"

section \<open>Lemmas\<close>

lemma worker_listeners_all: "mset (worker_listeners s) = mset (listenerConfigs s)"
  by (simp add: worker_listeners_def multiset_partition add.commute)

lemma new_listener_ok:
  "new_listener c = Inr fd \<longleftrightarrow> gai_ok c \<and> fd = socket_fd c \<and> fd \<noteq> -1 \<and> reuse_addr_ok c \<and> reuse_port_ok c \<and> bind_ok c"
  by (auto simp: new_listener_def bind_socket_def socket_isValid_def)

text \<open>The plain loop takes every connection up to the first empty answer, and spawns a coroutine for each, in order.\<close>

definition accepted_handles :: "accept_answer list \<Rightarrow> handle list" where
  "accepted_handles as = map (\<lambda>a. case a of Accepted fd h \<Rightarrow> h | _ \<Rightarrow> null_handle) as"

definition is_accepted :: "accept_answer \<Rightarrow> bool" where
  "is_accepted a \<longleftrightarrow> (\<exists>fd h. a = Accepted fd h \<and> h \<noteq> null_handle)"

lemma spawn_ready: "h \<noteq> null_handle \<Longrightarrow> readyQueue (spawn h ex) = readyQueue ex @ [(h, False)] \<and> ownedTasks (spawn h ex) = ownedTasks ex @ [h]"
  by (simp add: spawn_def)

lemma tcp_accepts_all:
  assumes "\<forall>a \<in> set as. is_accepted a"
  shows "\<exists>s'. tcp_accept (as @ NoneWaiting # rest) s = Some (WaitAgain, s')
    \<and> readyQueue (acc_executor s') = readyQueue (acc_executor s) @ map (\<lambda>h. (h, False)) (accepted_handles as)
    \<and> ownedTasks (acc_executor s') = ownedTasks (acc_executor s) @ accepted_handles as"
  using assms
proof (induction as arbitrary: s)
  case Nil
  then show ?case by (simp add: listener_accept_def accepted_handles_def)
next
  case (Cons a as)
  then obtain fd h where a: "a = Accepted fd h" "h \<noteq> null_handle" by (auto simp: is_accepted_def)
  let ?s = "s\<lparr>acc_executor := spawn h (acc_executor s)\<rparr>"
  have "tcp_accept ((a # as) @ NoneWaiting # rest) s = tcp_accept (as @ NoneWaiting # rest) ?s"
    by (simp add: a(1) listener_accept_def)
  then show ?case using Cons.IH [of ?s] Cons.prems spawn_ready [OF a(2), of "acc_executor s"] a(1)
    by (auto simp: accepted_handles_def)
qed

text \<open>An error of one \<open>accept\<close> ends the loop: the listener is never accepted from again.\<close>

lemma accept_error_ends_loop:
  assumes "\<forall>a \<in> set as. is_accepted a" "bad = AcceptError \<or> bad = StreamError e0"
  shows "\<exists>e s'. tcp_accept (as @ bad # rest) s = Some (LoopThrew e, s')"
  using assms(1)
proof (induction as arbitrary: s)
  case (Cons a as)
  then obtain fd h where "a = Accepted fd h" by (auto simp: is_accepted_def)
  then show ?case using Cons by (simp add: listener_accept_def)
qed (use assms(2) in \<open>auto simp: listener_accept_def\<close>)

text \<open>
  Nothing ever lowers the count of connections, and a turn never raises it over the limit; at the limit a turn spawns nothing,
  resets at most ten connections and leaves the rest for the next event.
\<close>

lemma reset_some_state:
  "conn_count (reset_some n as s) = conn_count s \<and> acc_executor (reset_some n as s) = acc_executor s
     \<and> length (was_reset (reset_some n as s)) \<le> length (was_reset s) + n"
proof (induction n as s rule: reset_some.induct)
  case (1 n a as s)
  then show ?case by fastforce
qed simp_all

lemma tls_count:
  assumes "tls_accept cfg as s = Some (r, s')" "conn_count s \<le> int (CONNECTION_LIMIT cfg)"
  shows "conn_count s \<le> conn_count s' \<and> conn_count s' \<le> int (CONNECTION_LIMIT cfg)"
  using assms
proof (induction as arbitrary: s)
  case Nil
  then show ?case using reset_some_state by (auto simp: tls_accept.simps split: if_splits)
next
  case (Cons a as)
  show ?case
  proof (cases "conn_count s \<ge> int (CONNECTION_LIMIT cfg)")
    case True
    then show ?thesis using Cons.prems reset_some_state [of 10 "a # as" s] by (auto simp: tls_accept.simps)
  next
    case False
    consider (acc) fd h where "a = Accepted fd h" | (stop) "\<And>fd h. a \<noteq> Accepted fd h" by blast
    then show ?thesis
    proof cases
      case acc
      let ?s = "s\<lparr>conn_count := conn_count s + 1, acc_executor := spawn h (acc_executor s)\<rparr>"
      have "tls_accept cfg as ?s = Some (r, s')" using Cons.prems(1) False unfolding acc by (simp add: tls_accept.simps [of cfg "Accepted fd h # as"] listener_accept_def)
      from Cons.IH [OF this] False show ?thesis by simp
    next
      case stop
      then show ?thesis using Cons.prems False unfolding tls_accept.simps [of cfg "a # as"]
        by (auto simp: listener_accept_def split: accept_answer.splits)
    qed
  qed
qed

lemma tls_limit_reached:
  assumes "conn_count s \<ge> int (CONNECTION_LIMIT cfg)"
  shows "\<exists>s'. tls_accept cfg as s = Some (WaitAgain, s') \<and> acc_executor s' = acc_executor s \<and> conn_count s' = conn_count s
    \<and> length (was_reset s') \<le> length (was_reset s) + 10"
  using assms reset_some_state [of 10 as s] by (simp add: tls_accept.simps)

text \<open>So once as many connections as the limit were accepted, the TLS listener never serves another one.\<close>

lemma tls_never_again:
  assumes "conn_count s \<ge> int (CONNECTION_LIMIT cfg)"
  shows "\<forall>(to, sh, as) \<in> set ts. \<not> sh \<Longrightarrow>
    \<exists>s'. foldl (\<lambda>out (to, sh, as). Option.bind out (\<lambda>(_, s). tlsAcceptLoop_turn cfg to sh as s)) (Some (WaitAgain, s)) ts = Some (WaitAgain, s')
      \<and> acc_executor s' = acc_executor s"
  using assms
proof (induction ts arbitrary: s)
  case (Cons t ts)
  obtain to sh as where t: "t = (to, sh, as)" by (cases t)
  have sh: "\<not> sh" using Cons.prems(1) t by simp
  obtain s1 where s1: "tlsAcceptLoop_turn cfg to sh as s = Some (WaitAgain, s1)" "acc_executor s1 = acc_executor s" "conn_count s1 = conn_count s"
    using tls_limit_reached [OF Cons.prems(2), of as] sh by (cases to) (auto simp: tlsAcceptLoop_turn_def accept_turn_def)
  from Cons.IH [of s1] show ?case using Cons.prems s1 by (simp add: t)
qed simp

text \<open>
  A connection that ends as it should leaves nothing behind: neither waiting coroutines under its descriptor, nor an interest in
  write events, nor an entry of the kernel.
\<close>

lemma life_leaves_nothing:
  assumes "interest_ok ex" "interest ex fd = None"
    and "\<And>ex1. interest_ok ex1 \<Longrightarrow> \<exists>ex2. run_conn ex1 = (Inr (), ex2) \<and> interest_ok ex2"
  shows "interest_ok (connection_life run_conn fd ex) \<and> interest (connection_life run_conn fd ex) fd = None
    \<and> fd \<notin> writeInterested (connection_life run_conn fd ex) \<and> suspendedTasks (connection_life run_conn fd ex) fd = None"
proof -
  obtain ex1 where r: "registerReadFd fd ex = (Inr (), ex1)" using assms(2) by (simp add: registerReadFd_def epoll_add_def)
  then have "interest_ok ex1" using interest_ops(1) [OF assms(1), of fd] by simp
  then obtain ex2 where ex2: "run_conn ex1 = (Inr (), ex2)" "interest_ok ex2" using assms(3) by blast
  have "handleConnection run_conn fd ex = (Inr (), unregister fd ex2)" by (simp add: handleConnection_def r ex2(1))
  then have life: "connection_life run_conn fd ex = close_fd fd (unregister fd ex2)" by (simp add: connection_life_def)
  have ok: "interest_ok (unregister fd ex2)" by (rule interest_ops(2) [OF ex2(2)])
  have gone: "interest (unregister fd ex2) fd = None" "fd \<notin> writeInterested (unregister fd ex2)" "suspendedTasks (unregister fd ex2) fd = None"
    by (simp_all add: unregister_def epoll_remove_def Let_def)
  have "close_fd fd (unregister fd ex2) = unregister fd ex2" using gone(1) by (simp add: close_fd_def fun_upd_idem)
  then show ?thesis using ok gone life by simp
qed

text \<open>
  A connection that ends with an exception while it waits for room to write leaves its descriptor among those interested in
  write events. The next connection with that number never gets them: awaiting its writability does not change the kernel's table.
\<close>

lemma exception_leaves_interest:
  assumes "interest ex fd = None" "run_conn (snd (registerReadFd fd ex)) = (Inl e, ex2)" "fd \<in> writeInterested ex2"
  shows "fd \<in> writeInterested (connection_life run_conn fd ex) \<and> interest (connection_life run_conn fd ex) fd = None"
proof -
  obtain ex1 where r: "registerReadFd fd ex = (Inr (), ex1)" using assms(1) by (simp add: registerReadFd_def epoll_add_def)
  then have "handleConnection run_conn fd ex = (Inl e, ex2)" using assms(2) by (simp add: handleConnection_def)
  then show ?thesis using assms(3) by (simp add: connection_life_def close_fd_def)
qed

lemma stale_interest_no_events:
  assumes "fd \<in> writeInterested ex" "interest ex fd = None"
  shows "\<exists>ex1. write_awaitable_suspend fd deadline h (snd (registerReadFd fd ex)) = Some ex1 \<and> interest ex1 fd = Some False"
  using assms by (simp add: registerReadFd_def epoll_add_def write_awaitable_suspend_def enableWriteEvents_def EventLoop.waitForWrite_def
      suspend_until_def take_seq_def)

end
