(* ===== verification/Deadlines.thy ===== *)
theory Deadlines
  imports Config EventLoop
begin

text \<open>
  The two deadlines of a connection, of \<open>rukh/include/rukh/http/HttpConnection.hpp\<close>: one for its inactivity, one for the time a
  request may take to be formed. Times are seconds of the steady clock; \<open>None\<close> is \<open>time_point::max()\<close>.
\<close>

section \<open>Operations\<close>

record conn_deadlines =
  inactivityDeadline :: "int option"
  formationDeadline :: "int option"

definition new_deadlines :: conn_deadlines where
  "new_deadlines = \<lparr>inactivityDeadline = None, formationDeadline = None\<rparr>"

definition resetInactivity :: "server_config \<Rightarrow> int \<Rightarrow> conn_deadlines \<Rightarrow> conn_deadlines" where
  "resetInactivity cfg timeNow d = d\<lparr>inactivityDeadline := Some (timeNow + int (INACTIVITY_TIMEOUT_S cfg))\<rparr>"

definition activeDeadline :: "conn_deadlines \<Rightarrow> int option" where
  "activeDeadline d =
     (case formationDeadline d of
        None \<Rightarrow> inactivityDeadline d
      | Some f \<Rightarrow> (case inactivityDeadline d of None \<Rightarrow> Some f | Some i \<Rightarrow> Some (min i f)))"

text \<open>The start of a request, the end of its header, and the end of its response.\<close>

definition beginFormation :: "server_config \<Rightarrow> int \<Rightarrow> conn_deadlines \<Rightarrow> conn_deadlines" where
  "beginFormation cfg timeNow d = d\<lparr>formationDeadline := Some (timeNow + int (FORMATION_TIMEOUT_S cfg))\<rparr>"

definition endFormation :: "conn_deadlines \<Rightarrow> conn_deadlines" where
  "endFormation d = d\<lparr>formationDeadline := None\<rparr>"

definition reset_deadlines :: "conn_deadlines \<Rightarrow> conn_deadlines" where
  "reset_deadlines d = d\<lparr>formationDeadline := None\<rparr>"

text \<open>
  The reads of a header: the deadline of each, where each element of the list is the time at which the read before it brought
  bytes. The reads of a body are the same, once the header is done.
\<close>

primrec read_deadlines :: "server_config \<Rightarrow> conn_deadlines \<Rightarrow> int list \<Rightarrow> int option list" where
  "read_deadlines cfg d [] = [activeDeadline d]"
| "read_deadlines cfg d (t # ts) = activeDeadline d # read_deadlines cfg (resetInactivity cfg t d) ts"

definition header_deadlines :: "server_config \<Rightarrow> int \<Rightarrow> conn_deadlines \<Rightarrow> int list \<Rightarrow> int option list" where
  "header_deadlines cfg t0 d ts = read_deadlines cfg (beginFormation cfg t0 d) ts"

definition body_deadlines :: "server_config \<Rightarrow> conn_deadlines \<Rightarrow> int list \<Rightarrow> int option list" where
  "body_deadlines cfg d ts = read_deadlines cfg (endFormation d) ts"

section \<open>Lemmas\<close>

lemma active_forming:
  assumes "formationDeadline d = Some f"
  shows "\<exists>dl. activeDeadline d = Some dl \<and> dl \<le> f \<and> (\<forall>i. inactivityDeadline d = Some i \<longrightarrow> dl \<le> i)"
  using assms by (auto simp: activeDeadline_def split: option.splits)

lemma reset_fields [simp]:
  "formationDeadline (resetInactivity cfg t d) = formationDeadline d"
  "inactivityDeadline (resetInactivity cfg t d) = Some (t + int (INACTIVITY_TIMEOUT_S cfg))"
  by (simp_all add: resetInactivity_def)

lemma read_deadlines_length [simp]: "length (read_deadlines cfg d ts) = Suc (length ts)"
  by (induction ts arbitrary: d) simp_all

lemma read_deadlines_nth:
  "i \<le> length ts \<Longrightarrow> read_deadlines cfg d ts ! i = activeDeadline (fold (resetInactivity cfg) (take i ts) d)"
proof (induction ts arbitrary: d i)
  case (Cons t ts)
  then show ?case by (cases i) simp_all
qed simp

lemma resets_fields:
  "formationDeadline (fold (resetInactivity cfg) ts d) = formationDeadline d"
  "ts \<noteq> [] \<Longrightarrow> inactivityDeadline (fold (resetInactivity cfg) ts d) = Some (last ts + int (INACTIVITY_TIMEOUT_S cfg))"
proof -
  show "formationDeadline (fold (resetInactivity cfg) ts d) = formationDeadline d" by (induction ts arbitrary: d) simp_all
  show "ts \<noteq> [] \<Longrightarrow> inactivityDeadline (fold (resetInactivity cfg) ts d) = Some (last ts + int (INACTIVITY_TIMEOUT_S cfg))"
    by (induction ts rule: rev_induct) simp_all
qed

lemma last_take_nth:
  assumes "0 < i" "i \<le> length ts"
  shows "take i ts \<noteq> []" "last (take i ts) = ts ! (i - 1)"
proof -
  show ne: "take i ts \<noteq> []" using assms by (cases ts) auto
  show "last (take i ts) = ts ! (i - 1)" using assms unfolding last_conv_nth [OF ne] by simp
qed

text \<open>However slowly the bytes of a header come, each of its reads has a deadline within the formation time.\<close>

lemma header_bounded:
  assumes "i \<le> length ts"
  shows "\<exists>dl. header_deadlines cfg t0 d ts ! i = Some dl \<and> dl \<le> t0 + int (FORMATION_TIMEOUT_S cfg)
    \<and> (0 < i \<longrightarrow> dl \<le> ts ! (i - 1) + int (INACTIVITY_TIMEOUT_S cfg))"
proof -
  let ?d = "fold (resetInactivity cfg) (take i ts) (beginFormation cfg t0 d)"
  have "formationDeadline ?d = Some (t0 + int (FORMATION_TIMEOUT_S cfg))" by (simp add: resets_fields beginFormation_def)
  from active_forming [OF this] obtain dl where dl: "activeDeadline ?d = Some dl" "dl \<le> t0 + int (FORMATION_TIMEOUT_S cfg)"
      "\<And>j. inactivityDeadline ?d = Some j \<Longrightarrow> dl \<le> j" by blast
  have "dl \<le> ts ! (i - 1) + int (INACTIVITY_TIMEOUT_S cfg)" if "0 < i"
  proof (rule dl(3))
    have "take i ts \<noteq> []" "last (take i ts) = ts ! (i - 1)" using last_take_nth [OF that assms] by simp_all
    then show "inactivityDeadline ?d = Some (ts ! (i - 1) + int (INACTIVITY_TIMEOUT_S cfg))" using resets_fields(2) by metis
  qed
  then show ?thesis using dl(1,2) read_deadlines_nth [OF assms] by (simp add: header_deadlines_def)
qed

text \<open>A body has no such bound: a client that sends a byte now and then is never cut off.\<close>

lemma body_unbounded:
  assumes "0 < i" "i \<le> length ts"
  shows "body_deadlines cfg d ts ! i = Some (ts ! (i - 1) + int (INACTIVITY_TIMEOUT_S cfg))"
proof -
  let ?d = "fold (resetInactivity cfg) (take i ts) (endFormation d)"
  have "take i ts \<noteq> []" "last (take i ts) = ts ! (i - 1)" using last_take_nth [OF assms] by simp_all
  then have "inactivityDeadline ?d = Some (ts ! (i - 1) + int (INACTIVITY_TIMEOUT_S cfg))" using resets_fields(2) by metis
  moreover have "formationDeadline ?d = None" by (simp add: resets_fields(1) endFormation_def)
  ultimately show ?thesis using read_deadlines_nth [OF assms(2)] by (simp add: body_deadlines_def activeDeadline_def)
qed

text \<open>
  The inactivity of a connection is not restarted by a response. When the last bytes of a request came longer ago than the
  limit, the first read of the next header has a deadline that is over before it begins.
\<close>

lemma idle_already_expired:
  assumes "t + int (INACTIVITY_TIMEOUT_S cfg) \<le> t'"
  shows "\<exists>dl. header_deadlines cfg t' (reset_deadlines (endFormation (resetInactivity cfg t d))) [] = [Some dl] \<and> dl \<le> t'"
  using assms
  by (simp add: header_deadlines_def reset_deadlines_def endFormation_def resetInactivity_def beginFormation_def activeDeadline_def min_def)

text \<open>A read that waits with a deadline is resumed as timed out by the first sweep from then on.\<close>

lemma read_wait_expires:
  assumes "sorted (map dl_time (taskDeadlines ex))" "dl \<le> timeNow"
  shows "(h, True) \<in> set (readyQueue (sweep_deadlines timeNow (EventLoop.waitForRead fd h dl ex)))"
proof -
  obtain d s where d: "d \<in> set (taskDeadlines (EventLoop.waitForRead fd h dl ex))" "dl_time d = dl" "dl_fd d = fd"
      "suspendedTasks (EventLoop.waitForRead fd h dl ex) (narrow fd) = Some s" "st_handle s = h" "suspensionSeq s = dl_seq d"
    using suspend_deadline(2) [OF assms(1)] unfolding EventLoop.waitForRead_def by blast
  have sorted: "sorted (map dl_time (taskDeadlines (EventLoop.waitForRead fd h dl ex)))"
    using suspend_deadline(1) [OF assms(1)] unfolding EventLoop.waitForRead_def by blast
  have "dl_time d \<le> timeNow" using d(2) assms(2) by simp
  from expired_resumed [OF sorted d(1) this _ d(6)] d(3,4,5) show ?thesis by blast
qed

lemma header_wait_expires:
  assumes "i \<le> length ts" "header_deadlines cfg t0 d ts ! i = Some dl" "t0 + int (FORMATION_TIMEOUT_S cfg) \<le> timeNow"
    and "sorted (map dl_time (taskDeadlines ex))"
  shows "(h, True) \<in> set (readyQueue (sweep_deadlines timeNow (EventLoop.waitForRead fd h dl ex)))"
  by (rule read_wait_expires) (use header_bounded [OF assms(1), of cfg t0 d] assms(2-4) in auto)

end
