(* ===== verification/DateParsing.thy ===== *)
theory DateParsing
  imports StaticFiles HttpDate
begin

text \<open>
  Reading HTTP dates: \<open>parseHttpDate\<close> of \<open>rukh/include/rukh/http/httpUtils.hpp\<close>, with what it uses of the standard library:
  \<open>std::get_time\<close> (a format is read character by character: a directive reads a field, white space skips white space, any
  other character must be there, in either case) and \<open>timegm\<close>. Names of days and months may be whole or abbreviated, numbers may
  lack leading zeros. The lemmas connect it with the dates the server prints and with its conditional requests.
\<close>

section \<open>Definitions\<close>

record tm =
  tm_mday :: int
  tm_mon :: int
  tm_year :: int
  tm_hour :: int
  tm_min :: int
  tm_sec :: int

definition zero_tm :: tm where
  "zero_tm = \<lparr>tm_mday = 0, tm_mon = 0, tm_year = 0, tm_hour = 0, tm_min = 0, tm_sec = 0\<rparr>"

definition skip_space :: "string \<Rightarrow> string" where
  "skip_space s = dropWhile c_isspace s"

fun prefix_ci :: "string \<Rightarrow> string \<Rightarrow> bool" where
  "prefix_ci [] s = True"
| "prefix_ci (c # p) [] = False"
| "prefix_ci (c # p) (x # s) = (c_tolower x = c_tolower c \<and> prefix_ci p s)"

primrec name_at :: "nat \<Rightarrow> string list \<Rightarrow> string \<Rightarrow> (nat \<times> string) option" where
  "name_at i [] s = None"
| "name_at i (n # ns) s = (if prefix_ci n s then Some (i, drop (length n) s) else name_at (Suc i) ns s)"

definition read_name :: "string list \<Rightarrow> string list \<Rightarrow> string \<Rightarrow> (nat \<times> string) option" where
  "read_name full abbr s = (case name_at 0 full s of Some r \<Rightarrow> Some r | None \<Rightarrow> name_at 0 abbr s)"

definition read_number :: "nat \<Rightarrow> nat \<Rightarrow> nat \<Rightarrow> string \<Rightarrow> (nat \<times> string) option" where
  "read_number n lo hi s =
     (let ds = takeWhile c_isdigit (take n s); v = digits_value 10 ds in
      if ds \<noteq> [] \<and> lo \<le> v \<and> v \<le> hi then Some (v, drop (length ds) s) else None)"

definition day_names :: "string list" where
  "day_names = [''Sun'', ''Mon'', ''Tue'', ''Wed'', ''Thu'', ''Fri'', ''Sat'']"

definition full_day_names :: "string list" where
  "full_day_names = [''Sunday'', ''Monday'', ''Tuesday'', ''Wednesday'', ''Thursday'', ''Friday'', ''Saturday'']"

definition month_names :: "string list" where
  "month_names = [''Jan'', ''Feb'', ''Mar'', ''Apr'', ''May'', ''Jun'', ''Jul'', ''Aug'', ''Sep'', ''Oct'', ''Nov'', ''Dec'']"

definition full_month_names :: "string list" where
  "full_month_names = [''January'', ''February'', ''March'', ''April'', ''May'', ''June'', ''July'', ''August'', ''September'',
     ''October'', ''November'', ''December'']"

definition get_field :: "char \<Rightarrow> tm \<Rightarrow> string \<Rightarrow> (tm \<times> string) option" where
  "get_field c t s =
     (if c = CHR ''a'' then map_option (\<lambda>(i, r). (t, r)) (read_name full_day_names day_names s)
      else if c = CHR ''b'' then map_option (\<lambda>(i, r). (t\<lparr>tm_mon := int i\<rparr>, r)) (read_name full_month_names month_names s)
      else if c = CHR ''d'' then map_option (\<lambda>(i, r). (t\<lparr>tm_mday := int i\<rparr>, r)) (read_number 2 1 31 s)
      else if c = CHR ''Y'' then map_option (\<lambda>(i, r). (t\<lparr>tm_year := int i - 1900\<rparr>, r)) (read_number 4 0 9999 s)
      else if c = CHR ''H'' then map_option (\<lambda>(i, r). (t\<lparr>tm_hour := int i\<rparr>, r)) (read_number 2 0 23 s)
      else if c = CHR ''M'' then map_option (\<lambda>(i, r). (t\<lparr>tm_min := int i\<rparr>, r)) (read_number 2 0 59 s)
      else if c = CHR ''S'' then map_option (\<lambda>(i, r). (t\<lparr>tm_sec := int i\<rparr>, r)) (read_number 2 0 60 s)
      else None)"

fun get_time :: "string \<Rightarrow> tm \<Rightarrow> string \<Rightarrow> tm option" where
  "get_time [] t s = Some t"
| "get_time (c # f) t s =
     (if c = CHR ''%'' then
        (case f of
           [] \<Rightarrow> None
         | d # f' \<Rightarrow> (case get_field d t s of None \<Rightarrow> None | Some (t', s') \<Rightarrow> get_time f' t' s'))
      else if c_isspace c then get_time f t (skip_space s)
      else (case s of [] \<Rightarrow> None | x # s' \<Rightarrow> if c_tolower x = c_tolower c then get_time f t s' else None))"

text \<open>The number of a day in the proleptic Gregorian calendar; the year is counted from March.\<close>

definition days_from_civil :: "int \<Rightarrow> int \<Rightarrow> int \<Rightarrow> int" where
  "days_from_civil y m d =
     (let y1 = (if m \<le> 2 then y - 1 else y);
          era = y1 div 400; yoe = y1 mod 400;
          doy = (153 * (if 2 < m then m - 3 else m + 9) + 2) div 5 + d - 1
      in era * 146097 + (yoe * 365 + yoe div 4 - yoe div 100 + doy) - 719468)"

definition timegm :: "tm \<Rightarrow> int" where
  "timegm t = days_from_civil (tm_year t + 1900) (tm_mon t + 1) (tm_mday t) * 86400 + tm_hour t * 3600 + tm_min t * 60 + tm_sec t"

definition http_date_format :: string where
  "http_date_format = ''%a, %d %b %Y %H:%M:%S GMT''"

definition parseHttpDate :: "string \<Rightarrow> int option" where
  "parseHttpDate s = map_option timegm (get_time http_date_format zero_tm (skip_space s))"

section \<open>Lemmas: days\<close>

text \<open>Year and day of the year, of a day of an era of 400 years.\<close>

lemma era_year:
  fixes doe :: int
  assumes "0 \<le> doe" "doe < 146097"
  defines "yoe \<equiv> (doe - doe div 1460 + doe div 36524 - doe div 146096) div 365"
  shows "0 \<le> yoe \<and> yoe < 400"
    and "0 \<le> doe - (365 * yoe + yoe div 4 - yoe div 100) \<and> doe - (365 * yoe + yoe div 4 - yoe div 100) \<le> 366"
proof -
  define q where "q = doe div 1460"
  define r where "r = doe mod 1460"
  define c where "c = doe div 36524"
  define e where "e = doe div 146096"
  define j where "j = q div 25"
  define s where "s = q mod 25"
  define k where "k = (r - q + c - e) div 365"
  have doe: "doe = 1460 * q + r" "0 \<le> r" "r < 1460" by (simp_all add: q_def r_def)
  have q: "q = 25 * j + s" "0 \<le> s" "s < 25" by (simp_all add: j_def s_def)
  have c: "36524 * c \<le> doe" "doe < 36524 * c + 36524" unfolding c_def by presburger+
  have e: "0 \<le> e" "e \<le> 1" "e = 1 \<longrightarrow> doe = 146096" "doe = 146096 \<longrightarrow> e = 1" using assms(1,2) by (auto simp: e_def)
  have j: "0 \<le> j" "j \<le> 4" using doe q assms(1,2) by linarith+
  have cj: "c \<le> j" "j \<le> c + 1" "e = 1 \<longrightarrow> c = j" "0 \<le> c" using c doe q e assms(1,2) j by linarith+
  have y: "yoe = 4 * q + k"
  proof -
    have "doe - q + c - e = 365 * (4 * q) + (r - q + c - e)" using doe(1) by linarith
    then show ?thesis unfolding yoe_def k_def q_def [symmetric] c_def [symmetric] e_def [symmetric] by simp
  qed
  have k: "365 * k \<le> r - q + c - e" "r - q + c - e < 365 * k + 365" unfolding k_def by presburger+
  have kb: "-1 \<le> k" "k \<le> 3" using k doe q j cj e by linarith+
  have y4: "yoe div 4 = (if k = -1 then q - 1 else q)" using y kb by auto
  have y100: "yoe div 100 = (if k = -1 \<and> s = 0 then j - 1 else j)" using y q kb by auto
  have "q = 100 \<longrightarrow> j = 4 \<and> s = 0" using q(1,2,3) j by presburger
  then have q100: "q \<le> 100" "q = 100 \<longrightarrow> j = 4 \<and> s = 0 \<and> r \<le> 96" using doe assms(1,2) by auto
  have "0 \<le> yoe"
  proof (cases "k = -1")
    case True
    have "1 \<le> q" using True k(2) doe cj(4) e by (cases "e = 1") linarith+
    then show ?thesis using y True by simp
  qed (use y kb q j in linarith)
  moreover have "yoe < 400"
  proof (cases "q = 100")
    case True
    then have "r - q + c - e \<le> -1" using q100 cj e(1,4) doe(1) j(2) by (cases "r = 96") linarith+
    then have "k \<le> -1" using k(1) by linarith
    then show ?thesis using y True by linarith
  next
    case False
    then show ?thesis using y kb q100 by linarith
  qed
  ultimately show "0 \<le> yoe \<and> yoe < 400" by simp
  show "0 \<le> doe - (365 * yoe + yoe div 4 - yoe div 100) \<and> doe - (365 * yoe + yoe div 4 - yoe div 100) \<le> 366"
    using y y4 y100 doe k kb cj e q by (auto split: if_splits)
qed

lemma civil_days:
  "(case civil_from_days n of (y, m, d) \<Rightarrow> days_from_civil y m d = n \<and> 1 \<le> m \<and> m \<le> 12 \<and> 1 \<le> d \<and> d \<le> 31
    \<and> (0 \<le> n \<and> n < 2932897 \<longrightarrow> 0 \<le> y \<and> y \<le> 9999))"
proof -
  define z where "z = n + 719468"
  define era where "era = z div 146097"
  define doe where "doe = z mod 146097"
  define yoe where "yoe = (doe - doe div 1460 + doe div 36524 - doe div 146096) div 365"
  define doy where "doy = doe - (365 * yoe + yoe div 4 - yoe div 100)"
  define mp where "mp = (5 * doy + 2) div 153"
  have doe: "0 \<le> doe" "doe < 146097" "n = era * 146097 + doe - 719468" by (simp_all add: doe_def era_def z_def)
  have y: "0 \<le> yoe" "yoe < 400" using era_year(1) [OF doe(1,2)] by (simp_all add: yoe_def)
  have doy: "0 \<le> doy" "doy \<le> 366" using era_year(2) [OF doe(1,2)] by (simp_all add: doy_def yoe_def)
  define b where "b = (153 * mp + 2) div 5"
  have b: "5 * b \<le> 153 * mp + 2" "153 * mp + 2 < 5 * b + 5" unfolding b_def by presburger+
  have mpd: "153 * mp \<le> 5 * doy + 2" "5 * doy + 2 < 153 * mp + 153" unfolding mp_def by presburger+
  then have mp: "0 \<le> mp" "mp \<le> 11" using doy by linarith+
  have d: "1 \<le> doy - (153 * mp + 2) div 5 + 1" "doy - (153 * mp + 2) div 5 + 1 \<le> 31"
    unfolding b_def [symmetric] using b mpd by linarith+
  have civil: "civil_from_days n = (yoe + era * 400 + (if (if mp < 10 then mp + 3 else mp - 9) \<le> 2 then 1 else 0),
      if mp < 10 then mp + 3 else mp - 9, doy - (153 * mp + 2) div 5 + 1)"
    unfolding civil_from_days_def Let_def z_def [symmetric] era_def [symmetric] doe_def [symmetric] yoe_def [symmetric]
      doy_def [symmetric] mp_def [symmetric] by (rule refl)
  have ey: "(yoe + era * 400) div 400 = era" "(yoe + era * 400) mod 400 = yoe" using y by auto
  have ym: "yoe mod 400 = yoe" using y by simp
  have bk: "days_from_civil (yoe + era * 400 + (if (if mp < 10 then mp + 3 else mp - 9) \<le> 2 then 1 else 0))
      (if mp < 10 then mp + 3 else mp - 9) (doy - (153 * mp + 2) div 5 + 1) = n"
  proof (cases "mp < 10")
    case True
    then have "\<not> mp + 3 \<le> 2" using mp by simp
    then show ?thesis using True doe(3) by (simp add: days_from_civil_def Let_def ey ym doy_def)
  next
    case False
    then have "mp - 9 \<le> 2" using mp by simp
    then show ?thesis using False doe(3) by (simp add: days_from_civil_def Let_def ey ym doy_def)
  qed
  have year: "0 \<le> yoe + era * 400 + (if (if mp < 10 then mp + 3 else mp - 9) \<le> 2 then 1 else 0)
      \<and> yoe + era * 400 + (if (if mp < 10 then mp + 3 else mp - 9) \<le> 2 then 1 else 0) \<le> 9999" if "0 \<le> n" "n < 2932897"
  proof -
    have era: "0 \<le> era" "era \<le> 24" using that doe by linarith+
    have "yoe \<noteq> 399" if "era = 24" "10 \<le> mp"
    proof
      assume yoe: "yoe = 399"
      have "306 \<le> doy" using mpd that(2) by linarith
      then have "146037 \<le> doe" unfolding doy_def by (simp add: yoe)
      then show False using that(1) doe(3) \<open>n < 2932897\<close> by linarith
    qed
    then show ?thesis using era y mp by (cases "era = 24") auto
  qed
  show ?thesis unfolding civil using bk mp d year by auto
qed

section \<open>Lemmas: reading what was printed\<close>

lemma isdigit_val: "c_isdigit c \<longleftrightarrow> digit_val 10 c \<noteq> None"
  by (auto simp: c_isdigit_def digit_val_def Let_def)

lemma read_number_printed:
  assumes "\<forall>c \<in> set ds. c_isdigit c" "ds \<noteq> []" "length ds \<le> n" "n \<le> length ds \<or> rest = [] \<or> \<not> c_isdigit (hd rest)"
    and "digits_value 10 ds = v" "lo \<le> v" "v \<le> hi"
  shows "read_number n lo hi (ds @ rest) = Some (v, rest)"
proof -
  have "takeWhile c_isdigit (take n (ds @ rest)) = ds"
  proof (cases "n = length ds")
    case True
    then show ?thesis using assms(1) by (simp add: takeWhile_eq_all_conv)
  next
    case False
    then have "rest = [] \<or> \<not> c_isdigit (hd rest)" using assms(3,4) by simp
    then have "takeWhile c_isdigit (take (n - length ds) rest) = []" by (cases rest; cases "n - length ds") auto
    then show ?thesis using assms(1,3) by (simp add: takeWhile_append2)
  qed
  then show ?thesis using assms(2,5-7) by (simp add: read_number_def)
qed

lemma read_two_digits:
  assumes "0 \<le> i" "i < 100" "int lo \<le> i" "i \<le> int hi"
  shows "read_number 2 lo hi (two_digits i @ rest) = Some (nat i, rest)"
proof (rule read_number_printed)
  have d: "nat (i div 10) < 10" "nat (i mod 10) < 10" using assms(1,2) by auto
  have v: "digit_val 10 (digit_char (nat (i div 10))) = Some (nat (i div 10))" "digit_val 10 (digit_char (nat (i mod 10))) = Some (nat (i mod 10))"
    using digit_val_char [OF d(1)] digit_val_char [OF d(2)] by simp_all
  show "\<forall>c \<in> set (two_digits i). c_isdigit c" using v by (simp add: two_digits_def isdigit_val)
  have "nat (i div 10) * 10 + nat (i mod 10) = nat i" using assms(1) by (simp add: nat_div_distrib nat_mod_distrib)
  then show "digits_value 10 (two_digits i) = nat i" using v by (simp add: two_digits_def digits_value_def)
  show "lo \<le> nat i" "nat i \<le> hi" using assms(1,3,4) by linarith+
qed (simp_all add: two_digits_def)

lemma read_year:
  assumes "y \<le> 9999"
  shows "read_number 4 0 9999 (to_dec y @ CHR '' '' # rest) = Some (y, CHR '' '' # rest)"
proof (rule read_number_printed)
  have v: "digits_value 10 (to_dec y) = y" "\<forall>c \<in> set (to_dec y). digit_val 10 c \<noteq> None" using to_base_value [of 10 y] by auto
  show "\<forall>c \<in> set (to_dec y). c_isdigit c" using v(2) by (simp add: isdigit_val)
  show "digits_value 10 (to_dec y) = y" by (rule v(1))
  show "length (to_dec y) \<le> 4"
    using assms length_to_base_pow [of 10 3 y] length_to_base_pow [of 10 2 y] length_to_base_pow [of 10 1 y] length_to_base_less [of y 10]
    by (cases "y < 10"; cases "y < 100"; cases "y < 1000") auto
qed (use assms in \<open>simp_all add: c_isdigit_def\<close>)

text \<open>A printed name is read as itself: no other name of the tables begins like it.\<close>

definition names_read :: "string list \<Rightarrow> string list \<Rightarrow> bool" where
  "names_read full abbr \<longleftrightarrow> (\<forall>i \<in> set [0..<length abbr]. read_name full abbr (abbr ! i) = Some (i, []))"

definition ends_before :: "string list \<Rightarrow> string \<Rightarrow> char \<Rightarrow> bool" where
  "ends_before ns a x \<longleftrightarrow> (\<forall>n \<in> set ns. length a < length n \<longrightarrow> c_tolower x \<noteq> c_tolower (n ! length a))"

lemma prefix_ci_app:
  "(length a < length p \<longrightarrow> c_tolower x \<noteq> c_tolower (p ! length a)) \<Longrightarrow> prefix_ci p (a @ x # rest) = prefix_ci p a"
proof (induction p a rule: prefix_ci.induct)
  case (2 c p)
  then show ?case by simp
qed auto

lemma prefix_ci_length: "prefix_ci p s \<Longrightarrow> length p \<le> length s"
  by (induction p s rule: prefix_ci.induct) auto

lemma name_at_app:
  "ends_before ns a x \<Longrightarrow> name_at i ns (a @ x # rest) = map_option (\<lambda>(j, r). (j, r @ x # rest)) (name_at i ns a)"
proof (induction ns arbitrary: i)
  case (Cons n ns)
  have "prefix_ci n (a @ x # rest) = prefix_ci n a" by (rule prefix_ci_app) (use Cons.prems in \<open>auto simp: ends_before_def\<close>)
  moreover have "ends_before ns a x" using Cons.prems by (simp add: ends_before_def)
  ultimately show ?case using Cons.IH prefix_ci_length [of n a] by simp
qed simp

lemma read_printed_name:
  assumes "names_read full abbr" "i < length abbr" "ends_before (full @ abbr) (abbr ! i) x"
  shows "read_name full abbr (abbr ! i @ x # rest) = Some (i, x # rest)"
proof -
  have e: "ends_before full (abbr ! i) x" "ends_before abbr (abbr ! i) x" using assms(3) by (auto simp: ends_before_def)
  have "read_name full abbr (abbr ! i) = Some (i, [])" using assms(1,2) by (simp add: names_read_def)
  then show ?thesis unfolding read_name_def name_at_app [OF e(1)] name_at_app [OF e(2)] by (auto split: option.splits)
qed

lemma ends_beforeI: "list_all (list_all (\<lambda>c. c_tolower c \<noteq> c_tolower x)) ns \<Longrightarrow> ends_before ns a x"
  by (auto simp: ends_before_def list_all_iff) (metis nth_mem)

lemma day_names_ok: "names_read full_day_names day_names" "ends_before (full_day_names @ day_names) a CHR '',''"
  by code_simp (rule ends_beforeI, code_simp)

lemma month_names_ok: "names_read full_month_names month_names"
  by code_simp

lemma month_names_end: "ends_before (full_month_names @ month_names) a CHR '' ''"
  by (rule ends_beforeI) code_simp

lemma read_day_name:
  assumes "0 \<le> w" "w < 7"
  shows "read_name full_day_names day_names (day_name w @ CHR '','' # rest) = Some (nat w, CHR '','' # rest)"
proof -
  have "nat w < length day_names" using assms by (simp add: day_names_def)
  from read_printed_name [OF day_names_ok(1) this day_names_ok(2)] show ?thesis by (simp add: day_name_def day_names_def)
qed

lemma read_month_name:
  assumes "1 \<le> m" "m \<le> 12"
  shows "read_name full_month_names month_names (month_name m @ CHR '' '' # rest) = Some (nat (m - 1), CHR '' '' # rest)"
proof -
  have "nat (m - 1) < length month_names" using assms by (simp add: month_names_def)
  from read_printed_name [OF month_names_ok this month_names_end] show ?thesis by (simp add: month_name_def month_names_def)
qed

text \<open>One step of the format: a field, white space, another character.\<close>

lemma get_time_steps:
  "get_time (CHR ''%'' # d # f) t s = (case get_field d t s of None \<Rightarrow> None | Some (t', s') \<Rightarrow> get_time f t' s')"
  "get_time (CHR '' '' # f) t s = get_time f t (skip_space s)"
  "get_time (CHR '','' # f) t (CHR '','' # s) = get_time f t s"
  "get_time (CHR '':'' # f) t (CHR '':'' # s) = get_time f t s"
  "get_time ''GMT'' t ''GMT'' = Some t"
  by (simp_all add: c_isspace_def)

lemma skip_space_one:
  assumes "\<exists>x xs. p = x # xs \<and> \<not> c_isspace x"
  shows "skip_space (p @ r) = p @ r" "skip_space (CHR '' '' # p @ r) = p @ r"
proof -
  have "c_isspace CHR '' ''" by (simp add: c_isspace_def)
  then show "skip_space (p @ r) = p @ r" "skip_space (CHR '' '' # p @ r) = p @ r" using assms by (auto simp: skip_space_def)
qed

lemma head_not_space:
  "0 \<le> i \<Longrightarrow> i < 100 \<Longrightarrow> \<exists>x xs. two_digits i = x # xs \<and> \<not> c_isspace x"
  "1 \<le> m \<Longrightarrow> m \<le> 12 \<Longrightarrow> \<exists>x xs. month_name m = x # xs \<and> \<not> c_isspace x"
  "0 \<le> w \<Longrightarrow> w < 7 \<Longrightarrow> \<exists>x xs. day_name w = x # xs \<and> \<not> c_isspace x"
  "\<exists>x xs. to_dec n = x # xs \<and> \<not> c_isspace x"
proof -
  have dig: "\<not> c_isspace c" if "digit_val 10 c \<noteq> None" for c
    using that isdigit_val [of c] by (auto simp: c_isdigit_def c_isspace_def)
  show "\<exists>x xs. to_dec n = x # xs \<and> \<not> c_isspace x"
    using to_base_value [of 10 n] dig by (cases "to_dec n") auto
  show "\<exists>x xs. two_digits i = x # xs \<and> \<not> c_isspace x" if "0 \<le> i" "i < 100"
    using that digit_val_char [of "nat (i div 10)" 10] dig by (simp add: two_digits_def)
  have "m \<in> {1, 2, 3, 4, 5, 6, 7, 8, 9, 10, 11, 12}" if "1 \<le> m" "m \<le> 12" using that by simp presburger
  then show "\<exists>x xs. month_name m = x # xs \<and> \<not> c_isspace x" if "1 \<le> m" "m \<le> 12" 
    using that by (auto simp: month_name_def c_isspace_def)
  have "w \<in> {0, 1, 2, 3, 4, 5, 6}" if "0 \<le> w" "w < 7" using that by simp presburger
  then show "\<exists>x xs. day_name w = x # xs \<and> \<not> c_isspace x" if "0 \<le> w" "w < 7"
    using that by (auto simp: day_name_def c_isspace_def)
qed

declare get_time.simps [simp del]

lemma get_fields:
  "get_field CHR ''a'' t s = map_option (\<lambda>(i, r). (t, r)) (read_name full_day_names day_names s)"
  "get_field CHR ''b'' t s = map_option (\<lambda>(i, r). (t\<lparr>tm_mon := int i\<rparr>, r)) (read_name full_month_names month_names s)"
  "get_field CHR ''d'' t s = map_option (\<lambda>(i, r). (t\<lparr>tm_mday := int i\<rparr>, r)) (read_number 2 1 31 s)"
  "get_field CHR ''Y'' t s = map_option (\<lambda>(i, r). (t\<lparr>tm_year := int i - 1900\<rparr>, r)) (read_number 4 0 9999 s)"
  "get_field CHR ''H'' t s = map_option (\<lambda>(i, r). (t\<lparr>tm_hour := int i\<rparr>, r)) (read_number 2 0 23 s)"
  "get_field CHR ''M'' t s = map_option (\<lambda>(i, r). (t\<lparr>tm_min := int i\<rparr>, r)) (read_number 2 0 59 s)"
  "get_field CHR ''S'' t s = map_option (\<lambda>(i, r). (t\<lparr>tm_sec := int i\<rparr>, r)) (read_number 2 0 60 s)"
  by (simp_all add: get_field_def)

text \<open>A printed date is read back, up to the year 9999.\<close>

lemma get_time_printed:
  assumes "0 \<le> w" "w < 7" "1 \<le> d" "d \<le> 31" "1 \<le> m" "m \<le> 12" "y \<le> 9999" "0 \<le> h" "h \<le> 23" "0 \<le> mi" "mi \<le> 59" "0 \<le> sec" "sec \<le> 59"
  shows "get_time http_date_format zero_tm (skip_space (day_name w @ CHR '','' # CHR '' '' # two_digits d @ CHR '' '' # month_name m @ CHR '' '' # to_dec y
      @ CHR '' '' # two_digits h @ CHR '':'' # two_digits mi @ CHR '':'' # two_digits sec @ '' GMT''))
    = Some \<lparr>tm_mday = d, tm_mon = m - 1, tm_year = int y - 1900, tm_hour = h, tm_min = mi, tm_sec = sec\<rparr>"
proof -
  note skips = skip_space_one [OF head_not_space(3) [OF assms(1,2)]] skip_space_one [OF head_not_space(2) [OF assms(5,6)]]
    skip_space_one [OF head_not_space(1) [of d]] skip_space_one [OF head_not_space(1) [of h]] skip_space_one [OF head_not_space(4) [of y]]
  note names = read_day_name [OF assms(1,2)] read_month_name [OF assms(5,6)] read_year [OF assms(7)]
  have numbers: "read_number 2 (Suc 0) 31 (two_digits d @ r) = Some (nat d, r)" "read_number 2 0 23 (two_digits h @ r) = Some (nat h, r)"
      "read_number 2 0 59 (two_digits mi @ r) = Some (nat mi, r)" "read_number 2 0 60 (two_digits sec @ r) = Some (nat sec, r)" for r
    using assms by (simp_all add: read_two_digits)
  have gmt: "skip_space '' GMT'' = ''GMT''" by (simp add: skip_space_def c_isspace_def)
  show ?thesis unfolding http_date_format_def
    using assms by (simp add: skips names numbers get_time_steps get_fields gmt zero_tm_def)
qed

lemma date_read_back:
  assumes "0 \<le> t" "t < 253402300800"
  shows "parseHttpDate (toHttpDate t) = Some t"
proof -
  define n s where "n = t div 86400" and "s = t mod 86400"
  have n: "0 \<le> n" "n < 2932897" "t = 86400 * n + s" "0 \<le> s" "s < 86400" using assms by (auto simp: n_def s_def)
  obtain y m d where c: "civil_from_days n = (y, m, d)" by (cases "civil_from_days n")
  then have d: "days_from_civil y m d = n" "1 \<le> m" "m \<le> 12" "1 \<le> d" "d \<le> 31" "0 \<le> y" "y \<le> 9999"
    using civil_days [of n] n(1,2) by auto
  define q where "q = s div 60"
  have h: "s div 3600 = q div 60" using zdiv_zmult2_eq [of 60 s 60] by (simp add: q_def)
  have q: "0 \<le> q" "q < 1440" using n(4,5) by (auto simp: q_def)
  have clock: "0 \<le> s div 3600" "s div 3600 \<le> 23" "0 \<le> s div 60 mod 60" "s div 60 mod 60 \<le> 59" "0 \<le> s mod 60" "s mod 60 \<le> 59"
    unfolding h q_def [symmetric] using q by auto
  have "q div 60 * 60 + q mod 60 = q" "q * 60 + s mod 60 = s" by (simp_all add: q_def)
  then have sum: "s div 3600 * 3600 + s div 60 mod 60 * 60 + s mod 60 = s" unfolding h q_def [symmetric] by linarith
  have w: "0 \<le> (n + 4) mod 7" "(n + 4) mod 7 < 7" by simp_all
  have y: "nat y \<le> 9999" using d(7) by simp
  have "get_time http_date_format zero_tm (skip_space (toHttpDate t)) =
      Some \<lparr>tm_mday = d, tm_mon = m - 1, tm_year = int (nat y) - 1900, tm_hour = s div 3600, tm_min = s div 60 mod 60, tm_sec = s mod 60\<rparr>"
    using get_time_printed [OF w d(4,5,2,3) y clock] c by (simp add: toHttpDate_def Let_def n_def s_def)
  then show ?thesis using d(1,6) sum n(3) by (simp add: parseHttpDate_def timegm_def)
qed

section \<open>Conditional requests\<close>

text \<open>
  What a client learned of a file from \<open>last-modified\<close> and sends back: it is told that its copy is still good exactly when the
  file was not written since.
\<close>

lemma last_modified_sent:
  "find_sub ''no-store'' cc = None \<Longrightarrow> hs_getHeaderLower (addCacheHeaders etag t cc hs) ''last-modified'' = toHttpDate t"
  by (simp add: addCacheHeaders_def Let_def hs_get_after_set)

lemma toHttpDate_nonempty: "toHttpDate t \<noteq> []"
  by (simp add: toHttpDate_def Let_def split: prod.splits)

lemma conditional_since:
  assumes "se_parse_date env = parseHttpDate" "find_sub ''no-store'' cc = None" "getHeaderLower req ''range'' = []"
    and "getHeaderLower req ''if-none-match'' = [] \<or> \<not> etagMatches (getHeaderLower req ''if-none-match'') etag"
    and "getHeaderLower req ''if-modified-since'' = toHttpDate t" "0 \<le> t" "t < 253402300800"
  shows "conditional env req etag lastWrite cc = (if lastWrite \<le> t then Some (not_modified etag lastWrite cc) else None)"
  using assms toHttpDate_nonempty [of t] date_read_back [OF assms(6,7)] by (auto simp: conditional_def Let_def)

text \<open>
  The date decides even when the client sent an entity tag that does not match: a file that was replaced within the same second
  is reported as unchanged, though its entity tag is another one.
\<close>

lemma stale_not_modified:
  assumes "se_parse_date env = parseHttpDate" "find_sub ''no-store'' cc = None" "getHeaderLower req ''range'' = []"
    and "getHeaderLower req ''if-none-match'' \<noteq> []" "\<not> etagMatches (getHeaderLower req ''if-none-match'') etag"
    and "getHeaderLower req ''if-modified-since'' = toHttpDate lastWrite" "0 \<le> lastWrite" "lastWrite < 253402300800"
  shows "conditional env req etag lastWrite cc = Some (not_modified etag lastWrite cc)"
  using conditional_since [OF assms(1-3) disjI2 [OF assms(5)] assms(6-8)] by simp

end
