(* ===== verification/AppModels.thy ===== *)
theory AppModels
  imports ActiveRecords
begin

text \<open>
  The models of the example application, \<open>app/include/models/User.hpp\<close>, \<open>Post.hpp\<close>, \<open>PostLikeUser.hpp\<close> and \<open>Follow.hpp\<close>: the
  values of \<open>model\<close> and \<open>relation\<close> that the mapper is used with. A field is numbered by its place in its class. \<open>timeNow\<close> is the
  clock that \<open>getNowTime\<close> reads, in milliseconds; \<open>junk\<close> is what the integers of a new object hold before they are set.

  The lemmas show that these models meet what the theorems on statements, objects and relations suppose, and what those
  theorems say of them.
\<close>

section \<open>Models\<close>

abbreviation (input) int64 :: raw_type where "int64 \<equiv> TInt 64 True"

text \<open>The key column that each of the models begins with.\<close>

definition id_column :: column where
  "id_column = (new_column 0 ''id'' int64 False)\<lparr>isPrimaryKey := True, autoGenerateMode := DB_INCREMENT\<rparr>"

text \<open>\<open>Email\<close>, a type of the application with its own conversions; in a column it is a text.\<close>

definition email_toDbValue :: "string \<Rightarrow> db_value" where
  "email_toDbValue e = DbText e"

fun email_fromDbValue :: "db_value \<Rightarrow> string result" where
  "email_fromDbValue (DbText s) = Inr s"
| "email_fromDbValue _ = Inl BadAccess"

definition getNowTime :: "int \<Rightarrow> model_obj \<Rightarrow> db_value" where
  "getNowTime timeNow obj = toDbValueImpl (VInt timeNow)"

definition time_columns :: "int \<Rightarrow> nat \<Rightarrow> nat \<Rightarrow> column list" where
  "time_columns timeNow created updated =
     [(new_column created ''created_at'' int64 False)\<lparr>autoGenerateMode := GenDbNow, autoUpdateMode := LOCKED\<rparr>,
      (new_column updated ''updated_at'' int64 False)\<lparr>autoGenerateMode := GenDbNow, autoUpdateMode := UpdCustom,
         customUpdator := Some (getNowTime timeNow)\<rparr>]"

definition User_blank :: "(nat \<Rightarrow> int) \<Rightarrow> nat \<Rightarrow> field_value" where
  "User_blank junk p = (if p \<in> {1, 2, 3, 4, 5, 6} then Optional None else Plain (VInt (junk p)))"

definition User_columns :: "int \<Rightarrow> column list" where
  "User_columns timeNow =
     [id_column, new_column 2 ''email'' TText True, new_column 1 ''name'' TText True, new_column 3 ''age'' int64 True,
      new_column 4 ''best_friend'' int64 True, new_column 5 ''mother'' int64 True, new_column 6 ''password'' TText True]
     @ time_columns timeNow 7 8"

definition User :: "int \<Rightarrow> (nat \<Rightarrow> int) \<Rightarrow> model" where
  "User timeNow junk = \<lparr>model_id = 1, tableName = ''users'', columns = User_columns timeNow, blank = User_blank junk\<rparr>"

definition Post_blank :: "(nat \<Rightarrow> int) \<Rightarrow> nat \<Rightarrow> field_value" where
  "Post_blank junk p =
     (if p = 3 then Optional None else if p \<in> {1, 2} then Plain (VText []) else Plain (VInt (junk p)))"

definition Post :: "int \<Rightarrow> (nat \<Rightarrow> int) \<Rightarrow> model" where
  "Post timeNow junk = \<lparr>model_id = 2, tableName = ''posts'',
     columns = [id_column, new_column 1 ''title'' TText False, new_column 2 ''content'' TText False, new_column 3 ''user_id'' int64 True]
       @ time_columns timeNow 4 5,
     blank = Post_blank junk\<rparr>"

definition PostLike :: "(nat \<Rightarrow> int) \<Rightarrow> model" where
  "PostLike junk = \<lparr>model_id = 3, tableName = ''post_like_user'',
     columns = [id_column, new_column 1 ''user_id'' int64 False, new_column 2 ''post_id'' int64 False,
       (new_column 3 ''liked_at'' int64 False)\<lparr>autoGenerateMode := GenDbNow, autoUpdateMode := LOCKED\<rparr>],
     blank = (\<lambda>p. Plain (VInt (junk p)))\<rparr>"

definition Follow :: "(nat \<Rightarrow> int) \<Rightarrow> model" where
  "Follow junk = \<lparr>model_id = 4, tableName = ''user_follows_user'',
     columns = [id_column, new_column 1 ''followee_id'' int64 False, new_column 2 ''follower_id'' int64 False,
       new_column 3 ''random_num'' int64 True, new_column 4 ''str'' TText True],
     blank = (\<lambda>p. if p \<in> {3, 4} then Optional None else Plain (VInt (junk p)))\<rparr>"

definition Friendship :: "(nat \<Rightarrow> int) \<Rightarrow> model" where
  "Friendship junk = default_through 5 ''user_friend_user'' int64 int64 (\<lambda>p. Plain (VInt (junk p)))"

section \<open>Relations and constraints\<close>

definition User_relations :: "int \<Rightarrow> (nat \<Rightarrow> int) \<Rightarrow> relation list outcome" where
  "User_relations timeNow junk =
     (let U = User timeNow junk in
      andthen (pkFieldPtr U) (\<lambda>pk. andthen (default_through_fields U U) (\<lambda>fs. ok
        [FkRelation MANY_TO_ONE (fk_withRelatedName ''best_friends'' (fk_new U U [4])),
         FkRelation MANY_TO_ONE (fk_withRelatedName ''children'' (fk_new U U [5])),
         ManyToManyRelation (withSymmetryMode DOUBLE_ROW (withRelationName ''friendship'' (m2m_new U U (Friendship junk) fs))),
         ManyToManyRelation (withReciprocalName ''followers'' (withRelationName ''follows'' (m2m_new U U (Follow junk)
           [\<lparr>throughPtr = 1, modelPtr = pk, throughPtrModel = SideA\<rparr>, \<lparr>throughPtr = 2, modelPtr = pk, throughPtrModel = SideB\<rparr>])))])))"

definition Post_relations :: "int \<Rightarrow> (nat \<Rightarrow> int) \<Rightarrow> relation list outcome" where
  "Post_relations timeNow junk =
     (let U = User timeNow junk; P = Post timeNow junk in
      andthen (pkFieldPtr P) (\<lambda>pp. andthen (pkFieldPtr U) (\<lambda>pu. ok
        [FkRelation MANY_TO_ONE (fk_withRelatedName ''user_posts'' (fk_onDelete SET_NULL (fk_new U P [3]))),
         ManyToManyRelation (withRelationName ''likes'' (m2m_new U P (PostLike junk)
           [\<lparr>throughPtr = 2, modelPtr = pp, throughPtrModel = SideB\<rparr>, \<lparr>throughPtr = 1, modelPtr = pu, throughPtrModel = SideA\<rparr>]))])))"

definition PostLike_relations :: "int \<Rightarrow> (nat \<Rightarrow> int) \<Rightarrow> relation list" where
  "PostLike_relations timeNow junk =
     [FkRelation MANY_TO_ONE (fk_withRelatedName ''user_likes'' (fk_onDelete CASCADE (fk_new (User timeNow junk) (PostLike junk) [1]))),
      FkRelation MANY_TO_ONE (fk_withRelatedName ''post_likes'' (fk_onDelete CASCADE (fk_new (Post timeNow junk) (PostLike junk) [2])))]"

definition Follow_relations :: "int \<Rightarrow> (nat \<Rightarrow> int) \<Rightarrow> relation list" where
  "Follow_relations timeNow junk =
     [FkRelation MANY_TO_ONE (fk_withRelatedName ''user_followeds'' (fk_onDelete CASCADE (fk_new (User timeNow junk) (Follow junk) [1]))),
      FkRelation MANY_TO_ONE (fk_withRelatedName ''user_follows'' (fk_onDelete CASCADE (fk_new (User timeNow junk) (Follow junk) [2])))]"

definition relations_got :: "relation list outcome \<Rightarrow> relation list" where
  "relations_got r = (case r of Some (Inr rs) \<Rightarrow> rs | _ \<Rightarrow> [])"

lemma relations_got_ok [simp]: "relations_got (ok rs) = rs"
  by (simp add: relations_got_def ok_def)

text \<open>\<open>Model::relations()\<close> for each of the classes.\<close>

definition app_relations :: "int \<Rightarrow> (nat \<Rightarrow> int) \<Rightarrow> model \<Rightarrow> relation list" where
  "app_relations timeNow junk m =
     (let U = User timeNow junk in
      if same_model m U then relations_got (User_relations timeNow junk)
      else if same_model m (Post timeNow junk) then relations_got (Post_relations timeNow junk)
      else if same_model m (PostLike junk) then PostLike_relations timeNow junk
      else if same_model m (Follow junk) then Follow_relations timeNow junk
      else if same_model m (Friendship junk) then default_through_relations U U (Friendship junk)
      else [])"

definition User_check :: "int \<Rightarrow> (nat \<Rightarrow> int) \<Rightarrow> predicate outcome" where
  "User_check timeNow junk = p_greater check_resolver \<lparr>fp_model = User timeNow junk, fp_field = 3\<rparr> (VInt 1) []"

text \<open>What the tests of the application do with the result of an operation: a failure throws.\<close>

definition expect_result :: "db_error + 'a \<Rightarrow> string \<Rightarrow> unit result" where
  "expect_result cond msg = (case cond of Inl e \<Rightarrow> Inl (RuntimeError msg) | Inr _ \<Rightarrow> Inr ())"

definition unwrap :: "db_error + 'a \<Rightarrow> string \<Rightarrow> 'a result" where
  "unwrap result context' =
     (case result of Inl e \<Rightarrow> Inl (RuntimeError (context' @ '' failed: '' @ error_message e)) | Inr x \<Rightarrow> Inr x)"

section \<open>The models are in order\<close>

named_theorems app_model_defs

declare id_column_def [app_model_defs] time_columns_def [app_model_defs] User_columns_def [app_model_defs] User_def [app_model_defs]
  Post_def [app_model_defs] PostLike_def [app_model_defs] Follow_def [app_model_defs] Friendship_def [app_model_defs]
  default_through_def [app_model_defs] new_column_def [app_model_defs]

definition app_models :: "int \<Rightarrow> (nat \<Rightarrow> int) \<Rightarrow> model list" where
  "app_models timeNow junk = [User timeNow junk, Post timeNow junk, PostLike junk, Follow junk, Friendship junk]"

lemma app_models_insertable: "m \<in> set (app_models timeNow junk) \<Longrightarrow> insertable m"
  by (auto simp: app_models_def insertable_def app_model_defs)

lemma app_models_updatable: "m \<in> set (app_models timeNow junk) \<Longrightarrow> updatable m"
  by (auto simp: app_models_def updatable_def app_model_defs)

lemma app_models_clean: "m \<in> set (app_models timeNow junk) \<Longrightarrow> clean_model m"
  by (auto simp: app_models_def clean_model_def app_model_defs marks_def)

lemma app_models_distinct:
  "m \<in> set (app_models timeNow junk) \<Longrightarrow> distinct (map fieldPtr (columns m)) \<and> distinct (map dbName (columns m))"
  by (auto simp: app_models_def app_model_defs)

lemma app_models_pk: "m \<in> set (app_models timeNow junk) \<Longrightarrow> pkFieldPtr m = ok 0"
  by (auto simp: app_models_def pkFieldPtr_def pkColumns_def app_model_defs)

lemma app_models_ids: "distinct (map model_id (app_models timeNow junk))" "distinct (map tableName (app_models timeNow junk))"
  by (simp_all add: app_models_def app_model_defs)

text \<open>A text that \<open>Email\<close> stored is the text that it reads, and it reads what a text column would.\<close>

lemma email_roundtrip: "email_fromDbValue (email_toDbValue e) = Inr e"
  by (simp add: email_toDbValue_def)

lemma email_as_text: "email_fromDbValue v = Inr e \<longleftrightarrow> fromDbValue TText v = Inr (VText e)"
  by (cases v) auto

text \<open>The constraint of the table of users, as it is in the schema.\<close>

lemma User_check_column:
  "User_check timeNow junk = ok (BasePredicate LEAF ''age'' [] (Some GREATER) [DbInt 1] [] [] [])"
  by (simp add: User_check_def p_greater_def pred_field_def check_resolver_def columnNameOf_def app_model_defs to_int64_def)

section \<open>Lookups of the relations\<close>

definition friendship :: "int \<Rightarrow> (nat \<Rightarrow> int) \<Rightarrow> many_to_many" where
  "friendship timeNow junk = \<lparr>m2m_A = User timeNow junk, m2m_B = User timeNow junk, m2m_through = Friendship junk,
     throughFields = [\<lparr>throughPtr = 1, modelPtr = 0, throughPtrModel = SideA\<rparr>, \<lparr>throughPtr = 2, modelPtr = 0, throughPtrModel = SideB\<rparr>],
     relationName = ''friendship'', reciprocalName = [], symmetryMode = DOUBLE_ROW\<rparr>"

definition follows :: "int \<Rightarrow> (nat \<Rightarrow> int) \<Rightarrow> many_to_many" where
  "follows timeNow junk = \<lparr>m2m_A = User timeNow junk, m2m_B = User timeNow junk, m2m_through = Follow junk,
     throughFields = [\<lparr>throughPtr = 1, modelPtr = 0, throughPtrModel = SideA\<rparr>, \<lparr>throughPtr = 2, modelPtr = 0, throughPtrModel = SideB\<rparr>],
     relationName = ''follows'', reciprocalName = ''followers'', symmetryMode = SymNone\<rparr>"

definition likes :: "int \<Rightarrow> (nat \<Rightarrow> int) \<Rightarrow> many_to_many" where
  "likes timeNow junk = \<lparr>m2m_A = User timeNow junk, m2m_B = Post timeNow junk, m2m_through = PostLike junk,
     throughFields = [\<lparr>throughPtr = 2, modelPtr = 0, throughPtrModel = SideB\<rparr>, \<lparr>throughPtr = 1, modelPtr = 0, throughPtrModel = SideA\<rparr>],
     relationName = ''likes'', reciprocalName = [], symmetryMode = SymNone\<rparr>"

lemma pk_app [simp]: "pkFieldPtr (User timeNow junk) = ok 0" "pkFieldPtr (Post timeNow junk) = ok 0"
  using app_models_pk [of "User timeNow junk" timeNow junk] app_models_pk [of "Post timeNow junk" timeNow junk]
  by (simp_all add: app_models_def)

lemma model_id_app [simp]:
  "model_id (User timeNow junk) = 1" "model_id (Post timeNow junk) = 2" "model_id (PostLike junk) = 3"
  "model_id (Follow junk) = 4" "model_id (Friendship junk) = 5"
  by (simp_all add: app_model_defs)

lemma User_relations_are:
  "app_relations timeNow junk (User timeNow junk) =
     [FkRelation MANY_TO_ONE (fk_withRelatedName ''best_friends'' (fk_new (User timeNow junk) (User timeNow junk) [4])),
      FkRelation MANY_TO_ONE (fk_withRelatedName ''children'' (fk_new (User timeNow junk) (User timeNow junk) [5])),
      ManyToManyRelation (friendship timeNow junk), ManyToManyRelation (follows timeNow junk)]"
  by (simp add: app_relations_def User_relations_def default_through_fields_def Let_def same_model_def friendship_def follows_def
      m2m_new_def withRelationName_def withReciprocalName_def withSymmetryMode_def)

lemma Post_relations_are:
  "app_relations timeNow junk (Post timeNow junk) =
     [FkRelation MANY_TO_ONE (fk_withRelatedName ''user_posts'' (fk_onDelete SET_NULL (fk_new (User timeNow junk) (Post timeNow junk) [3]))),
      ManyToManyRelation (likes timeNow junk)]"
  by (simp add: app_relations_def Post_relations_def Let_def same_model_def likes_def m2m_new_def withRelationName_def)

lemmas lookup_defs = getManyToManyRelation_def getManyToManyRelationByName_def manyToManyRelations_def
  User_relations_are Post_relations_are same_model_def

lemma lookup_friendship:
  "getManyToManyRelation (app_relations timeNow junk) ''friendship'' (User timeNow junk) (User timeNow junk) =
     Some \<lparr>rl_relation = friendship timeNow junk, rl_isReciprocal = False, rl_isSelfRef = True, rl_callerIsA = True, rl_otherIsB = True\<rparr>"
  by (simp add: lookup_defs Let_def friendship_def follows_def)

lemma lookup_follows:
  "getManyToManyRelation (app_relations timeNow junk) ''follows'' (User timeNow junk) (User timeNow junk) =
     Some \<lparr>rl_relation = follows timeNow junk, rl_isReciprocal = False, rl_isSelfRef = True, rl_callerIsA = True, rl_otherIsB = True\<rparr>"
  "getManyToManyRelation (app_relations timeNow junk) ''followers'' (User timeNow junk) (User timeNow junk) =
     Some \<lparr>rl_relation = follows timeNow junk, rl_isReciprocal = True, rl_isSelfRef = True, rl_callerIsA = True, rl_otherIsB = True\<rparr>"
  by (simp_all add: lookup_defs Let_def friendship_def follows_def)

lemma lookup_likes:
  "getManyToManyRelation (app_relations timeNow junk) ''likes'' (User timeNow junk) (Post timeNow junk) =
     Some \<lparr>rl_relation = likes timeNow junk, rl_isReciprocal = False, rl_isSelfRef = False, rl_callerIsA = True, rl_otherIsB = True\<rparr>"
  "getManyToManyRelation (app_relations timeNow junk) ''likes'' (Post timeNow junk) (User timeNow junk) =
     Some \<lparr>rl_relation = likes timeNow junk, rl_isReciprocal = False, rl_isSelfRef = False, rl_callerIsA = False, rl_otherIsB = False\<rparr>"
  by (simp_all add: lookup_defs Let_def friendship_def follows_def likes_def)

lemma lookup_unknown:
  "getManyToManyRelation (app_relations timeNow junk) ''likes'' (User timeNow junk) (User timeNow junk) = None"
  by (simp add: lookup_defs Let_def friendship_def follows_def likes_def)

lemma app_relations_mapped:
  "well_mapped (friendship timeNow junk)" "well_mapped (follows timeNow junk)" "well_mapped (likes timeNow junk)"
  by (simp_all add: well_mapped_def friendship_def follows_def likes_def getThroughFieldPtrs_def isSelfReferential_def same_model_def)

text \<open>\<open>isValid\<close> is checked when a relation is made, before its names and its mode are set; afterwards it rejects both of these.\<close>

lemma isValid_rejects: "\<not> m2m_isValid (friendship timeNow junk)" "\<not> m2m_isValid (follows timeNow junk)"
  by (simp_all add: m2m_isValid_def friendship_def follows_def isSelfReferential_def same_model_def)

lemma isValid_when_made: "m2m_isValid (m2m_new a b through fs)"
  by (simp add: m2m_isValid_def m2m_new_def)

section \<open>What adding a relation stores\<close>

text \<open>A friendship is stored as two rows, each the mirror of the other.\<close>

lemma friendship_rows:
  assumes "getManyToManyRelation (app_relations timeNow junk) ''friendship'' (User timeNow junk) (User timeNow junk) = Some rl"
  shows "obj_field (added_through lt rl x y) 1 = obj_field x 0" "obj_field (added_through lt rl x y) 2 = obj_field y 0"
    and "obj_field (added_mirror rl x y) 1 = obj_field y 0" "obj_field (added_mirror rl x y) 2 = obj_field x 0"
  using assms
  by (auto simp: lookup_friendship friendship_def added_through_def added_mirror_def Let_def side_if_def getThroughFields_def set_fields_def)

lemma friendship_removed:
  assumes "getManyToManyRelation (app_relations timeNow junk) ''friendship'' (User timeNow junk) (User timeNow junk) = Some rl"
    and "removal_query rl x y = ok q" "row_of val ''a'' (Friendship junk) t" "t = added_through lt rl x y \<or> t = added_mirror rl x y"
  shows "\<exists>p. delete_where q = Some p \<and> selects val p"
proof (rule removal_covers_addition [OF assms(1)])
  have r: "rl_relation rl = friendship timeNow junk" using assms(1) by (auto simp: lookup_friendship)
  show "well_mapped (rl_relation rl)" by (simp add: r app_relations_mapped)
  show "row_of val ''a'' (m2m_through (rl_relation rl)) t" using assms(3) by (simp add: r friendship_def)
  show "t = added_through lt rl x y \<or> symmetryMode (rl_relation rl) = DOUBLE_ROW \<and> t = added_mirror rl x y"
    using assms(4) by (auto simp: r friendship_def)
qed (rule assms(2))

text \<open>\<open>x.addRelation<"follows">(y)\<close> makes \<open>x\<close> the one who is followed, and so does \<open>"followers"\<close>.\<close>

lemma follows_sides_swapped:
  assumes "getManyToManyRelation (app_relations timeNow junk) n (User timeNow junk) (User timeNow junk) = Some rl" "n \<in> {''follows'', ''followers''}"
  shows "obj_field (added_through lt rl x y) 1 = obj_field x 0" "obj_field (added_through lt rl x y) 2 = obj_field y 0"
  using assms
  by (auto simp: lookup_follows follows_def added_through_def Let_def side_if_def getThroughFields_def set_fields_def)

text \<open>A like stores the user and the post in their columns, whoever of the two the call is made on.\<close>

lemma likes_row:
  assumes "getManyToManyRelation (app_relations timeNow junk) ''likes'' (User timeNow junk) (Post timeNow junk) = Some rl"
    and "getManyToManyRelation (app_relations timeNow junk) ''likes'' (Post timeNow junk) (User timeNow junk) = Some rl'"
  shows "obj_field (added_through lt rl user post) 1 = obj_field user 0" "obj_field (added_through lt rl user post) 2 = obj_field post 0"
    and "obj_field (added_through lt rl' post user) 1 = obj_field user 0" "obj_field (added_through lt rl' post user) 2 = obj_field post 0"
  using assms
  by (auto simp: lookup_likes likes_def added_through_def Let_def side_if_def getThroughFields_def set_fields_def)

end
