(* ===== verification/ExampleApp.thy ===== *)
theory ExampleApp
  imports Middlewares
begin

text \<open>
  The example application: its error pages (\<open>app/include/errors.hpp\<close>), the settings of its middlewares
  (\<open>app/include/middlewares.hpp\<close>), the handlers of \<open>app/src/routes.cpp\<close> and \<open>app/src/routes\<close>, the table of all its routes, and the
  runner of its tests (\<open>app/include/TestRunner.hpp\<close>).

  The JSON library is the argument \<open>json_lib\<close>: its constructors of values, \<open>parse\<close>, \<open>dump\<close>, which throws on a text that is not
  UTF-8, and the conversions of a value. A handler is \<open>None\<close> where the code does not return, or uses a null pointer or an element that
  is not there. The handlers of the thread pool, of the object mapper and of a multipart upload are arguments of the table.
\<close>

section \<open>Error pages\<close>

definition app_error_response :: "string \<Rightarrow> string \<Rightarrow> int \<Rightarrow> http_response" where
  "app_error_response contentType body code =
     (let response = new_response code in
      setBody body (response\<lparr>resp_headers :=
        hs_setCacheControl ''no-store'' (hs_setHeaderLower ''content-type'' contentType (resp_headers response))\<rparr>))"

definition jsonFormatter :: "(int \<Rightarrow> string \<Rightarrow> string) \<Rightarrow> formatter" where
  "jsonFormatter dump_json code message =
     app_error_response ''application/json'' (dump_json code (if message = [] then statusText code else message)) code"

definition code_text :: "int \<Rightarrow> string" where
  "code_text code = (if code < 0 then ''-'' @ to_dec (nat (- code)) else to_dec (nat code))"

definition html_page :: "int \<Rightarrow> string \<Rightarrow> string" where
  "html_page code msg =
     (let title = code_text code @ '' '' @ statusText code in
      ''<!DOCTYPE html>'' @ ''<html><head><title>'' @ title @ ''</title></head>'' @ ''<body>'' @ ''<h1>'' @ title @ ''</h1>''
      @ ''<p>'' @ msg @ ''</p>'' @ ''</body></html>'')"

definition htmlFormatter :: formatter where
  "htmlFormatter code message =
     app_error_response ''text/html'' (html_page code (if message = [] then statusText code else message)) code"

definition app_error_factory :: "(int \<Rightarrow> string \<Rightarrow> string) \<Rightarrow> error_factory" where
  "app_error_factory dump_json =
     setFormatter ''text/html'' htmlFormatter (setFormatter ''application/json'' (jsonFormatter dump_json) (new_error_factory dump_json))"

section \<open>Middlewares\<close>

definition app_cors :: "string \<Rightarrow> cors" where
  "app_cors host = setCorsMaxAge 10 (setCorsOrigins
     [''http://localhost:8080'', ''https://localhost:8443'', ''http://127.0.0.1:8080'', ''http://'' @ host @ '':8080'',
      ''https://'' @ host @ '':8443''] new_cors)"

definition app_cache_control :: "cache_control result" where
  "app_cache_control =
     bind_result (setRouteCacheControl ''/tests/debug/*'' ''max-age=5, public'' new_cache_control) (\<lambda>m.
       Inr (setDefaultCacheControl ''no-cache, no-store'' (setMimeCacheControl ''text/html'' ''max-age=5, public'' m)))"

section \<open>What handlers are made of\<close>

record 'j json_lib =
  j_null :: 'j
  j_bool :: "bool \<Rightarrow> 'j"
  j_int :: "int \<Rightarrow> 'j"
  j_string :: "string \<Rightarrow> 'j"
  j_array :: "'j list \<Rightarrow> 'j"
  j_object :: "(string \<Rightarrow> 'j option) \<Rightarrow> 'j"
  j_dump :: "'j \<Rightarrow> string result"
  j_parse :: "string \<Rightarrow> 'j result"
  j_at :: "'j \<Rightarrow> string \<Rightarrow> 'j result"
  j_get_string :: "'j \<Rightarrow> string result"

text \<open>An object from a list of pairs, and one from headers, parameters or cookies.\<close>

definition j_fields :: "'j json_lib \<Rightarrow> (string \<times> 'j) list \<Rightarrow> 'j" where
  "j_fields J ps = j_object J (map_of ps)"

definition j_headers :: "'j json_lib \<Rightarrow> headers \<Rightarrow> 'j" where
  "j_headers J ps = j_object J (\<lambda>k. map_option (j_string J) (toJsonObject ps k))"

text \<open>\<open>std::stoi\<close>: leading white space and a sign are read, what follows the digits is not looked at.\<close>

definition stoi :: "string \<Rightarrow> int result" where
  "stoi s =
     (let s1 = dropWhile c_isspace s;
          neg = (s1 \<noteq> [] \<and> hd s1 = CHR ''-'');
          s2 = (if s1 \<noteq> [] \<and> (hd s1 = CHR ''-'' \<or> hd s1 = CHR ''+'') then tl s1 else s1);
          ds = takeWhile (\<lambda>c. digit_val 10 c \<noteq> None) s2;
          v = (if neg then - int (digits_value 10 ds) else int (digits_value 10 ds))
      in if ds = [] then Inl (InvalidArgument ''stoi'')
         else if v < - (2 ^ 31) \<or> 2 ^ 31 \<le> v then Inl OutOfRange
         else Inr v)"

record ('s, 'st) app_world =
  aw_body :: 's
  aw_store :: 'st
  aw_now :: int

record ('j, 's, 'st) app_env =
  app_json :: "'j json_lib"
  app_cfg :: server_config
  app_read :: "'s body_read_fn"
  app_load :: "int \<Rightarrow> string \<Rightarrow> 'st \<Rightarrow> session option \<times> 'st"

text \<open>The state of the lambdas that produce chunks.\<close>

datatype app_gen = GenBasic nat | GenSingle bool | GenEmpty | GenCount nat nat | GenThrow nat | GenEcho nat bytes

type_synonym ('s, 'st) app_handler =
  "http_request \<times> ('s, 'st) app_world \<Rightarrow> (app_gen response result \<times> http_request \<times> ('s, 'st) app_world) option"

text \<open>A handler that reads the request only, one that consumes the body, and one that uses the session.\<close>

definition answers :: "(http_request \<Rightarrow> app_gen response result) \<Rightarrow> ('s, 'st) app_handler" where
  "answers f st = Some (f (fst st), st)"

definition request_body :: "('j, 's, 'st) app_env \<Rightarrow> http_request \<times> ('s, 'st) app_world \<Rightarrow>
    (string result \<times> http_request \<times> ('s, 'st) app_world) option" where
  "request_body env st =
     (case bodyStream (fst st) of
        None \<Rightarrow> None
      | Some b \<Rightarrow>
          (case consumeBody (app_cfg env) (app_read env) b (aw_body (snd st)) of
             None \<Rightarrow> None
           | Some (r, b', s') \<Rightarrow> Some (r, (fst st)\<lparr>bodyStream := Some b'\<rparr>, (snd st)\<lparr>aw_body := s'\<rparr>)))"

definition with_body :: "('j, 's, 'st) app_env \<Rightarrow> (http_request \<Rightarrow> string \<Rightarrow> app_gen response result) \<Rightarrow> ('s, 'st) app_handler" where
  "with_body env f st =
     (case request_body env st of
        None \<Rightarrow> None
      | Some (r, req, w) \<Rightarrow> Some (bind_result r (f req), req, w))"

definition with_session :: "('j, 's, 'st) app_env \<Rightarrow> (http_request \<Rightarrow> session \<Rightarrow> app_gen response result \<times> session) \<Rightarrow>
    ('s, 'st) app_handler" where
  "with_session env f st =
     (case getSession (app_load env) (aw_now (snd st)) (fst st) (aw_store (snd st)) of
        (None, _, _) \<Rightarrow> None
      | (Some s, req, store) \<Rightarrow>
          (case f req s of (r, s') \<Rightarrow>
             Some (r, req\<lparr>sessionHandle := map_option (\<lambda>h. h\<lparr>handle_session := Some s'\<rparr>) (sessionHandle req)\<rparr>,
               (snd st)\<lparr>aw_store := store\<rparr>)))"

text \<open>Responses: with a body, with a type too, with a JSON value, with a JSON value and its type.\<close>

definition typed :: "string \<Rightarrow> http_response \<Rightarrow> http_response" where
  "typed contentType r = r\<lparr>resp_headers := hs_setHeaderLower ''content-type'' contentType (resp_headers r)\<rparr>"

definition json_body :: "'j json_lib \<Rightarrow> 'j \<Rightarrow> http_response result" where
  "json_body J j = bind_result (j_dump J j) (\<lambda>s. Inr (new_response_body 200 s))"

definition json_response :: "'j json_lib \<Rightarrow> 'j \<Rightarrow> http_response result" where
  "json_response J j = bind_result (json_body J j) (\<lambda>r. Inr (typed ''application/json'' r))"

definition plainly :: "http_response result \<Rightarrow> app_gen response result" where
  "plainly r = bind_result r (\<lambda>x. Inr (PlainResponse x))"

text \<open>A query parameter with a default for an empty one.\<close>

definition query_or :: "http_request \<Rightarrow> string \<Rightarrow> string \<Rightarrow> string" where
  "query_or req key dflt = (let v = getQueryParam req key [] in if v = [] then dflt else v)"

section \<open>The routes of \<open>routes.cpp\<close> and \<open>basicTestRoutes.cpp\<close>\<close>

definition random_handler :: "http_request \<Rightarrow> app_gen response result" where
  "random_handler req = Inr (PlainResponse (typed ''text/html'' (new_response 200)))"

definition index_handler :: "http_request \<Rightarrow> app_gen response result" where
  "index_handler req =
     (let response = typed ''text/html'' (new_response 200)
      in Inr (PlainResponse (if req_method req = ''HEAD'' then stripBody response else response)))"

definition greet_handler :: "'j json_lib \<Rightarrow> http_request \<Rightarrow> string \<Rightarrow> app_gen response result" where
  "greet_handler J req body =
     plainly (bind_result (j_parse J body) (\<lambda>data. bind_result (j_at J data ''name'') (\<lambda>v. bind_result (j_get_string J v) (\<lambda>name.
       Inr (typed ''text/plain'' (new_response_body 200 (''Hello, '' @ name @ ''!'')))))))"

definition put_handler :: "http_request \<Rightarrow> string \<Rightarrow> app_gen response result" where
  "put_handler req body = Inr (PlainResponse (new_response_body 200 body))"

definition ping_handler :: "http_request \<Rightarrow> app_gen response result" where
  "ping_handler req = Inr (PlainResponse (new_response_typed 200 ''text/html; charset=utf-8'' ''pong''))"

definition debugRequestHandler :: "'j json_lib \<Rightarrow> http_request \<Rightarrow> string \<Rightarrow> app_gen response result" where
  "debugRequestHandler J req body =
     plainly (json_response J (j_fields J
       [(''method'', j_string J (req_method req)), (''path'', j_string J (req_path req)), (''rawPath'', j_string J (rawPath req)),
        (''headers'', j_headers J (req_headers req)), (''query'', j_headers J (queryParams req)),
        (''cookies'', j_headers J (getCookies req)), (''body'', j_string J body)]))"

definition echo_handler :: "http_request \<Rightarrow> string \<Rightarrow> app_gen response result" where
  "echo_handler req body =
     (let res = new_response_body 200 body; ct = getHeader req ''Content-Type''
      in Inr (PlainResponse (if ct \<noteq> [] then typed ct res else res)))"

definition throw_handler :: "http_request \<Rightarrow> app_gen response result" where
  "throw_handler req = Inl (RuntimeError ''Deliberate test error'')"

section \<open>Cookies\<close>

text \<open>The cookie that the parameters of a request describe; a maximal age that is no number throws.\<close>

definition described_cookie :: "http_request \<Rightarrow> cookie result" where
  "described_cookie req =
     (let c = new_cookie (query_or req ''name'' ''test'') (query_or req ''value'' ''hello'');
          path = getQueryParam req ''path'' []; domain = getQueryParam req ''domain'' [];
          maxage = getQueryParam req ''maxage'' []; samesite = getQueryParam req ''samesite'' [];
          c1 = (if path \<noteq> [] then c\<lparr>ck_path := path\<rparr> else c);
          c2 = (if domain \<noteq> [] then c1\<lparr>ck_domain := domain\<rparr> else c1)
      in bind_result (if maxage \<noteq> [] then bind_result (stoi maxage) (\<lambda>n. Inr (c2\<lparr>maxAge := n\<rparr>)) else Inr c2) (\<lambda>c3.
         let c4 = (if samesite \<noteq> [] then c3\<lparr>sameSite := samesite\<rparr> else c3);
             c5 = (if getQueryParam req ''httponly'' [] \<noteq> [] then c4\<lparr>httpOnly := True\<rparr> else c4)
         in Inr (if getQueryParam req ''secure'' [] \<noteq> [] then c5\<lparr>secure := True\<rparr> else c5)))"

definition cookie_json :: "'j json_lib \<Rightarrow> cookie \<Rightarrow> 'j" where
  "cookie_json J c = j_fields J
     [(''name'', j_string J (ck_name c)), (''value'', j_string J (ck_value c)), (''path'', j_string J (ck_path c)),
      (''domain'', j_string J (ck_domain c)), (''maxAge'', j_int J (maxAge c)), (''sameSite'', j_string J (sameSite c)),
      (''httpOnly'', j_bool J (httpOnly c)), (''secure'', j_bool J (secure c))]"

definition set_cookie_handler :: "'j json_lib \<Rightarrow> http_request \<Rightarrow> app_gen response result" where
  "set_cookie_handler J req =
     plainly (bind_result (described_cookie req) (\<lambda>c. bind_result (json_response J (cookie_json J c)) (\<lambda>res.
       Inr (res\<lparr>resp_cookies := setCookie c (resp_cookies res)\<rparr>))))"

definition read_cookies_handler :: "'j json_lib \<Rightarrow> http_request \<Rightarrow> app_gen response result" where
  "read_cookies_handler J req = plainly (json_response J (j_headers J (getCookies req)))"

definition delete_cookie_handler :: "'j json_lib \<Rightarrow> http_request \<Rightarrow> app_gen response result" where
  "delete_cookie_handler J req =
     (let name = query_or req ''name'' ''test'' in
      plainly (bind_result (json_response J (j_fields J [(''removed'', j_string J name)])) (\<lambda>res.
        Inr (res\<lparr>resp_cookies := deleteCookie name ''/'' (resp_cookies res)\<rparr>))))"

section \<open>Sessions\<close>

definition session_set_handler :: "'j json_lib \<Rightarrow> http_request \<Rightarrow> session \<Rightarrow> app_gen response result \<times> session" where
  "session_set_handler J req s =
     (let key = query_or req ''key'' ''test''; v = query_or req ''value'' ''hello''
      in (plainly (json_body J (j_fields J [(''key'', j_string J key), (''value'', j_string J v)])), session_set key v s))"

definition session_get_handler :: "'j json_lib \<Rightarrow> http_request \<Rightarrow> session \<Rightarrow> app_gen response result \<times> session" where
  "session_get_handler J req s =
     (let key = query_or req ''key'' ''test''; val = session_get key s
      in (plainly (json_body J (j_fields J [(''key'', j_string J key),
            (''value'', case val of Some v \<Rightarrow> j_string J v | None \<Rightarrow> j_null J), (''found'', j_bool J (val \<noteq> None))])), s))"

definition session_all_handler :: "'j json_lib \<Rightarrow> http_request \<Rightarrow> session \<Rightarrow> app_gen response result \<times> session" where
  "session_all_handler J req s = (plainly (json_body J (j_object J (\<lambda>k. map_option (j_string J) (data s k)))), s)"

definition session_delete_handler :: "'j json_lib \<Rightarrow> http_request \<Rightarrow> session \<Rightarrow> app_gen response result \<times> session" where
  "session_delete_handler J req s =
     (let key = query_or req ''key'' ''test''
      in (plainly (json_body J (j_fields J [(''removed'', j_string J key), (''existed'', j_bool J (session_has key s))])),
          session_remove key s))"

definition session_invalidate_handler :: "'j json_lib \<Rightarrow> http_request \<Rightarrow> session \<Rightarrow> app_gen response result \<times> session" where
  "session_invalidate_handler J req s =
     (plainly (json_body J (j_fields J [(''invalidated'', j_bool J True)])), session_invalidate s)"

section \<open>Paths\<close>

text \<open>A handler that answers with some of the path parameters, under names of its own.\<close>

definition params_handler :: "'j json_lib \<Rightarrow> (string \<times> string) list \<Rightarrow> http_request \<Rightarrow> app_gen response result" where
  "params_handler J names req =
     plainly (json_response J (j_fields J (map (\<lambda>(n, p). (n, j_string J (getPathParam req p []))) names)))"

definition user_handler :: "'j json_lib \<Rightarrow> http_request \<Rightarrow> app_gen response result" where
  "user_handler J = params_handler J [(''userId'', ''id'')]"

definition my_posts_handler :: "'j json_lib \<Rightarrow> http_request \<Rightarrow> app_gen response result" where
  "my_posts_handler J req = plainly (json_response J (j_fields J
     [(''user'', j_string J ''me''), (''posts'', j_array J [j_string J ''post1'', j_string J ''post2'', j_string J ''post3''])]))"

definition post_handler :: "'j json_lib \<Rightarrow> http_request \<Rightarrow> app_gen response result" where
  "post_handler J = params_handler J [(''userId'', ''userId''), (''postId'', ''postId'')]"

definition delete_item_handler :: "http_request \<Rightarrow> app_gen response result" where
  "delete_item_handler req = Inr (PlainResponse (new_response 200))"

definition wildcard_handler :: "'j json_lib \<Rightarrow> http_request \<Rightarrow> app_gen response result" where
  "wildcard_handler J = params_handler J [(''path'', ''*'')]"

definition deep_wildcard_handler :: "'j json_lib \<Rightarrow> http_request \<Rightarrow> app_gen response result" where
  "deep_wildcard_handler J = params_handler J [(''path'', ''**'')]"

definition decode_handler :: "'j json_lib \<Rightarrow> http_request \<Rightarrow> app_gen response result" where
  "decode_handler J = params_handler J [(''name'', ''name'')]"

section \<open>Streams\<close>

fun app_next :: "app_gen \<Rightarrow> 'w \<Rightarrow> bytes option result \<times> app_gen \<times> 'w" where
  "app_next (GenBasic i) w =
     (if i \<ge> 4 then (Inr None, GenBasic i, w)
      else (Inr (Some ([''Hello'', '', '', ''World'', ''!''] ! i)), GenBasic (i + 1), w))"
| "app_next (GenSingle d) w = (if d then (Inr None, GenSingle d, w) else (Inr (Some ''hello''), GenSingle True, w))"
| "app_next GenEmpty w = (Inr None, GenEmpty, w)"
| "app_next (GenCount i n) w =
     (if i \<ge> n then (Inr None, GenCount i n, w) else (Inr (Some (''chunk-'' @ to_dec (i + 1))), GenCount (i + 1) n, w))"
| "app_next (GenThrow i) w =
     (if i = 2 then (Inl (RuntimeError ''Deliberate stream error''), GenThrow i, w)
      else (Inr (Some (''chunk-'' @ to_dec (i + 1))), GenThrow (i + 1), w))"
| "app_next (GenEcho offset body) w =
     (if offset \<ge> length body then (Inr None, GenEcho offset body, w)
      else let len = min 4 (length body - offset)
        in (Inr (Some (take len (drop offset body))), GenEcho (offset + len) body, w))"

definition stream_basic_handler :: "http_request \<Rightarrow> app_gen response result" where
  "stream_basic_handler req = Inr (StreamResponse (new_stream_response_typed 200 ''text/plain'' (GenBasic 0)))"

definition stream_single_handler :: "http_request \<Rightarrow> app_gen response result" where
  "stream_single_handler req = Inr (StreamResponse (new_stream_response 200 (GenSingle False)))"

definition stream_empty_handler :: "http_request \<Rightarrow> app_gen response result" where
  "stream_empty_handler req = Inr (StreamResponse (new_stream_response 200 GenEmpty))"

definition stream_count_handler :: "http_request \<Rightarrow> app_gen response result" where
  "stream_count_handler req =
     bind_result (stoi (getPathParam req ''n'' [])) (\<lambda>n.
       Inr (StreamResponse (new_stream_response 200 (GenCount 0 (nat (if n < 0 then 0 else n))))))"

definition stream_throw_handler :: "http_request \<Rightarrow> app_gen response result" where
  "stream_throw_handler req = Inr (StreamResponse (new_stream_response 200 (GenThrow 0)))"

definition stream_echo_handler :: "http_request \<Rightarrow> string \<Rightarrow> app_gen response result" where
  "stream_echo_handler req body =
     (let res = new_stream_response 200 (GenEcho 0 body); ct = getHeader req ''Content-Type''
      in Inr (StreamResponse (if ct \<noteq> [] then res\<lparr>st_headers := hs_setHeaderLower ''content-type'' ct (st_headers res)\<rparr> else res)))"

section \<open>Forms\<close>

definition with_form :: "('j, 's, 'st) app_env \<Rightarrow> (form_data \<Rightarrow> http_response result option) \<Rightarrow> ('s, 'st) app_handler" where
  "with_form env f st =
     (if \<not> starts_with ''application/x-www-form-urlencoded'' (toLowerCase (getContentType (fst st)))
      then map_option (\<lambda>r. (plainly r, st)) (f Map.empty)
      else
        (case bodyStream (fst st) of
           None \<Rightarrow> None
         | Some b \<Rightarrow>
             (case getFormData (app_cfg env) (app_read env) (fst st) b (aw_body (snd st)) of
                None \<Rightarrow> None
              | Some (r, b', s') \<Rightarrow>
                  (case (case r of Inl e \<Rightarrow> Some (Inl e) | Inr fd \<Rightarrow> f fd) of
                     None \<Rightarrow> None
                   | Some res \<Rightarrow> Some (plainly res, (fst st)\<lparr>bodyStream := Some b'\<rparr>, (snd st)\<lparr>aw_body := s'\<rparr>)))))"

text \<open>\<open>formData[k][0]\<close>: a name that is not there has no values, and there is no first one.\<close>

definition first_value :: "form_data \<Rightarrow> string \<Rightarrow> string option" where
  "first_value fd k = (case fd k of Some (v # vs) \<Rightarrow> Some v | _ \<Rightarrow> None)"

definition urlencoded_handler :: "'j json_lib \<Rightarrow> form_data \<Rightarrow> http_response result option" where
  "urlencoded_handler J fd =
     Option.bind (first_value fd ''username'') (\<lambda>u. Option.bind (first_value fd ''password'') (\<lambda>p.
       Some (json_response J (j_fields J [(''username'', j_string J u), (''password'', j_string J p)]))))"

definition checkboxes_handler :: "'j json_lib \<Rightarrow> form_data \<Rightarrow> http_response result option" where
  "checkboxes_handler J fd =
     (let terms = (case fd ''terms'' of Some vs \<Rightarrow> vs | None \<Rightarrow> []) in
      Option.bind (first_value fd ''username'') (\<lambda>u. Option.bind (first_value fd ''password'') (\<lambda>p.
        Some (json_response J (j_fields J [(''username'', j_string J u), (''password'', j_string J p),
          (''terms'', j_array J (map (j_string J) terms))])))))"

definition json_form_handler :: "('j, 's, 'st) app_env \<Rightarrow> ('s, 'st) app_handler" where
  "json_form_handler env st =
     (let J = app_json env;
          reply = (\<lambda>r. plainly (bind_result r (\<lambda>body. bind_result (j_at J body ''username'') (\<lambda>u. bind_result (j_at J body ''password'') (\<lambda>p.
            json_response J (j_fields J [(''username'', u), (''password'', p)]))))))
      in if \<not> starts_with ''application/json'' (toLowerCase (getContentType (fst st)))
         then Some (reply (Inr (j_null J)), st)
         else
           (case bodyStream (fst st) of
              None \<Rightarrow> None
            | Some b \<Rightarrow>
                (case jsonBody (app_cfg env) (j_parse J) (j_null J) (app_read env) (fst st) b (aw_body (snd st)) of
                   None \<Rightarrow> None
                 | Some (r, b', s') \<Rightarrow> Some (reply r, (fst st)\<lparr>bodyStream := Some b'\<rparr>, (snd st)\<lparr>aw_body := s'\<rparr>))))"

section \<open>The table of routes\<close>

text \<open>Registration in order; an exception leaves the function that registers. A route is its pattern, its method and its handler.\<close>

fun register_routes :: "(string \<times> string \<times> 'h) list \<Rightarrow> 'h route_table \<Rightarrow> exn option \<times> 'h route_table" where
  "register_routes [] t = (None, t)"
| "register_routes ((pattern, method, h) # rs) t =
     (case addRoute pattern method h t of
        (Some e, t') \<Rightarrow> (Some e, t')
      | (None, t') \<Rightarrow> register_routes rs t')"

definition registerRoutes :: "('j, 's, 'st) app_env \<Rightarrow> (string \<times> string \<times> ('s, 'st) app_handler) list" where
  "registerRoutes env =
     [(''/random'', ''GET'', answers random_handler), (''/'', ''GET'', answers index_handler),
      (''/'', ''POST'', with_body env (greet_handler (app_json env))), (''/'', ''PUT'', with_body env put_handler)]"

definition registerBasicTestRoutes :: "('j, 's, 'st) app_env \<Rightarrow> (string \<times> string \<times> ('s, 'st) app_handler) list" where
  "registerBasicTestRoutes env =
     [(''/tests/ping'', ''GET'', answers ping_handler),
      (''/tests/debug/request'', ''GET'', with_body env (debugRequestHandler (app_json env))),
      (''/tests/debug/request'', ''POST'', with_body env (debugRequestHandler (app_json env))),
      (''/tests/echo'', ''POST'', with_body env echo_handler), (''/tests/echo'', ''PUT'', with_body env echo_handler),
      (''/tests/error/throw'', ''GET'', answers throw_handler)]"

definition registerCookieTestRoutes :: "('j, 's, 'st) app_env \<Rightarrow> (string \<times> string \<times> ('s, 'st) app_handler) list" where
  "registerCookieTestRoutes env =
     [(''/tests/cookies/set'', ''GET'', answers (set_cookie_handler (app_json env))),
      (''/tests/cookies/read'', ''GET'', answers (read_cookies_handler (app_json env))),
      (''/tests/cookies/delete'', ''GET'', answers (delete_cookie_handler (app_json env)))]"

definition registerSessionTestRoutes :: "('j, 's, 'st) app_env \<Rightarrow> (string \<times> string \<times> ('s, 'st) app_handler) list" where
  "registerSessionTestRoutes env =
     [(''/tests/session/set'', ''GET'', with_session env (session_set_handler (app_json env))),
      (''/tests/session/get'', ''GET'', with_session env (session_get_handler (app_json env))),
      (''/tests/session/all'', ''GET'', with_session env (session_all_handler (app_json env))),
      (''/tests/session/delete'', ''GET'', with_session env (session_delete_handler (app_json env))),
      (''/tests/session/invalidate'', ''GET'', with_session env (session_invalidate_handler (app_json env)))]"

definition registerUrlPathTestRoutes :: "('j, 's, 'st) app_env \<Rightarrow> (string \<times> string \<times> ('s, 'st) app_handler) list" where
  "registerUrlPathTestRoutes env =
     [(''/tests/users/<id>'', ''GET'', answers (user_handler (app_json env))),
      (''/tests/users/me/posts/'', ''GET'', answers (my_posts_handler (app_json env))),
      (''/tests/users/<userId>/posts/<postId>'', ''GET'', answers (post_handler (app_json env))),
      (''/tests/items/<id>'', ''DELETE'', answers delete_item_handler),
      (''/tests/wildcard/*'', ''GET'', answers (wildcard_handler (app_json env))),
      (''/tests/deepwildcard/**'', ''GET'', answers (deep_wildcard_handler (app_json env))),
      (''/tests/decode/path/<name>'', ''GET'', answers (decode_handler (app_json env)))]"

definition registerStreamTestRoutes :: "('j, 's, 'st) app_env \<Rightarrow> (string \<times> string \<times> ('s, 'st) app_handler) list" where
  "registerStreamTestRoutes env =
     [(''/tests/stream/basic'', ''GET'', answers stream_basic_handler), (''/tests/stream/single'', ''GET'', answers stream_single_handler),
      (''/tests/stream/empty'', ''GET'', answers stream_empty_handler), (''/tests/stream/count/<n>'', ''GET'', answers stream_count_handler),
      (''/tests/stream/throw'', ''GET'', answers stream_throw_handler), (''/tests/stream/echo'', ''POST'', with_body env stream_echo_handler)]"

text \<open>\<open>pool\<close>, \<open>upload\<close> and \<open>orm\<close> are the handlers of the thread pool, of a multipart upload and of the object mapper, by pattern.\<close>

definition registerThreadPoolTestRoutes :: "(string \<Rightarrow> 'h) \<Rightarrow> (string \<times> string \<times> 'h) list" where
  "registerThreadPoolTestRoutes pool = map (\<lambda>p. (p, ''GET'', pool p))
     [''/tests/slow'', ''/tests/slowpool'', ''/tests/pool/basic'', ''/tests/pool/exception'', ''/tests/pool/deferred'',
      ''/tests/pool/concurrent'', ''/tests/pool/forget'', ''/tests/pool/unawaited'']"

definition registerFormTestRoutes :: "('j, 's, 'st) app_env \<Rightarrow> ('s, 'st) app_handler \<Rightarrow> (string \<times> string \<times> ('s, 'st) app_handler) list" where
  "registerFormTestRoutes env upload =
     [(''/tests/forms/urlencoded'', ''POST'', with_form env (urlencoded_handler (app_json env))),
      (''/tests/forms/urlencoded/checkboxes'', ''POST'', with_form env (checkboxes_handler (app_json env))),
      (''/tests/forms/json'', ''POST'', json_form_handler env), (''/tests/forms/multipart'', ''POST'', upload)]"

definition registerOrmTestRoutes :: "(string \<Rightarrow> 'h) \<Rightarrow> (string \<times> string \<times> 'h) list" where
  "registerOrmTestRoutes orm = map (\<lambda>p. (p, ''GET'', orm p))
     [''/tests/orm/single_test'', ''/tests/orm/relations_test'', ''/tests/orm/predicates_test'', ''/tests/orm/cte_test'']"

definition registerAllTestRoutes :: "('j, 's, 'st) app_env \<Rightarrow> (string \<Rightarrow> ('s, 'st) app_handler) \<Rightarrow> ('s, 'st) app_handler \<Rightarrow>
    (string \<Rightarrow> ('s, 'st) app_handler) \<Rightarrow> (string \<times> string \<times> ('s, 'st) app_handler) list" where
  "registerAllTestRoutes env pool upload orm =
     registerBasicTestRoutes env @ registerCookieTestRoutes env @ registerSessionTestRoutes env @ registerUrlPathTestRoutes env
     @ registerStreamTestRoutes env @ registerThreadPoolTestRoutes pool @ registerFormTestRoutes env upload @ registerOrmTestRoutes orm"

definition app_routes :: "('j, 's, 'st) app_env \<Rightarrow> (string \<Rightarrow> ('s, 'st) app_handler) \<Rightarrow> ('s, 'st) app_handler \<Rightarrow>
    (string \<Rightarrow> ('s, 'st) app_handler) \<Rightarrow> (string \<times> string \<times> ('s, 'st) app_handler) list" where
  "app_routes env pool upload orm = registerRoutes env @ registerAllTestRoutes env pool upload orm"

section \<open>The test runner\<close>

record step_result =
  step_name :: string
  passed :: bool
  detail :: string

text \<open>\<open>TestRunner::run\<close>; \<open>what\<close> is \<open>e.what()\<close> for a standard exception and \<open>None\<close> for any other.\<close>

definition run_step :: "(exn \<Rightarrow> string option) \<Rightarrow> string \<Rightarrow> ('w \<Rightarrow> unit result \<times> 'w) \<Rightarrow> step_result list \<times> 'w \<Rightarrow> step_result list \<times> 'w" where
  "run_step what name step st =
     (case step (snd st) of
        (Inr _, w) \<Rightarrow> (fst st @ [\<lparr>step_name = name, passed = True, detail = []\<rparr>], w)
      | (Inl e, w) \<Rightarrow>
          (fst st @ [\<lparr>step_name = name, passed = False,
             detail = (case what e of Some m \<Rightarrow> m | None \<Rightarrow> ''unknown exception'')\<rparr>], w))"

fun allPassed :: "step_result list \<Rightarrow> bool" where
  "allPassed [] = True"
| "allPassed (r # rs) = (if \<not> passed r then False else allPassed rs)"

definition runner_toJson :: "'j json_lib \<Rightarrow> step_result list \<Rightarrow> 'j" where
  "runner_toJson J rs = j_fields J
     [(''allPassed'', j_bool J (allPassed rs)),
      (''steps'', j_array J (map (\<lambda>r. j_fields J [(''name'', j_string J (step_name r)), (''passed'', j_bool J (passed r)),
         (''detail'', j_string J (detail r))]) rs))]"

definition expect :: "bool \<Rightarrow> string \<Rightarrow> unit result" where
  "expect cond msg = (if \<not> cond then Inl (RuntimeError msg) else Inr ())"

section \<open>Lemmas: registration\<close>

text \<open>A list of routes is registered without an exception when each pattern is valid and no two have the same segments and
  method; then every handler is at its place, and nothing else has changed.\<close>

definition route_segments :: "string \<Rightarrow> segment list" where
  "route_segments pattern = map classify (str_split (normalizePath pattern) ''/'')"

definition route_valid :: "string \<Rightarrow> bool" where
  "route_valid pattern \<longleftrightarrow> validatePattern (normalizePath pattern) (str_split (normalizePath pattern) ''/'') = None"

definition route_key :: "string \<times> string \<times> 'h \<Rightarrow> segment list \<times> string" where
  "route_key r = (route_segments (fst r), fst (snd r))"

lemma register_routes_ok:
  assumes "\<forall>r \<in> set rs. route_valid (fst r)" "distinct (map route_key rs)"
    and "\<forall>r \<in> set rs. handler_at (pathTreeRoot t) (route_segments (fst r)) (fst (snd r)) = None"
  shows "\<exists>t'. register_routes rs t = (None, t')
    \<and> (\<forall>segs m. handler_at (pathTreeRoot t') segs m =
         (case map_of (map (\<lambda>r. (route_key r, snd (snd r))) rs) (segs, m) of Some h \<Rightarrow> Some h | None \<Rightarrow> handler_at (pathTreeRoot t) segs m))"
  using assms
proof (induction rs arbitrary: t)
  case (Cons r rs)
  obtain pattern verb h where r: "r = (pattern, verb, h)" by (cases r)
  obtain e t1 where a: "addRoute pattern verb h t = (e, t1)" by fastforce
  note eff = addRoute_effect [OF a refl]
  have e: "e = None" using eff Cons.prems(1,3) r by (simp add: route_valid_def route_segments_def)
  have h1: "handler_at (pathTreeRoot t1) segs m =
      (if (segs, m) = (route_segments pattern, verb) then Some h else handler_at (pathTreeRoot t) segs m)" for segs m
    using eff e by (simp add: route_segments_def)
  have "\<exists>t'. register_routes rs t1 = (None, t')
    \<and> (\<forall>segs m. handler_at (pathTreeRoot t') segs m =
         (case map_of (map (\<lambda>r. (route_key r, snd (snd r))) rs) (segs, m) of Some h \<Rightarrow> Some h | None \<Rightarrow> handler_at (pathTreeRoot t1) segs m))"
  proof (rule Cons.IH)
    show "\<forall>x \<in> set rs. handler_at (pathTreeRoot t1) (route_segments (fst x)) (fst (snd x)) = None"
      using Cons.prems(2,3) by (force simp: h1 r route_key_def)
  qed (use Cons.prems in auto)
  then obtain t' where t': "register_routes rs t1 = (None, t')" "\<And>segs m. handler_at (pathTreeRoot t') segs m =
      (case map_of (map (\<lambda>r. (route_key r, snd (snd r))) rs) (segs, m) of Some h \<Rightarrow> Some h | None \<Rightarrow> handler_at (pathTreeRoot t1) segs m)"
    by blast
  have n: "map_of (map (\<lambda>r. (route_key r, snd (snd r))) rs) (route_segments pattern, verb) = None"
    using Cons.prems(2) by (auto simp: map_of_eq_None_iff r route_key_def image_image)
  show ?case using t' a e n by (auto simp: r h1 route_key_def split: option.split)
qed simp

text \<open>The patterns of the application and their methods.\<close>

definition app_patterns :: "(string \<times> string) list" where
  "app_patterns =
     [(''/random'', ''GET''), (''/'', ''GET''), (''/'', ''POST''), (''/'', ''PUT''), (''/tests/ping'', ''GET''),
      (''/tests/debug/request'', ''GET''), (''/tests/debug/request'', ''POST''), (''/tests/echo'', ''POST''), (''/tests/echo'', ''PUT''),
      (''/tests/error/throw'', ''GET''), (''/tests/cookies/set'', ''GET''), (''/tests/cookies/read'', ''GET''),
      (''/tests/cookies/delete'', ''GET''), (''/tests/session/set'', ''GET''), (''/tests/session/get'', ''GET''),
      (''/tests/session/all'', ''GET''), (''/tests/session/delete'', ''GET''), (''/tests/session/invalidate'', ''GET''),
      (''/tests/users/<id>'', ''GET''), (''/tests/users/me/posts/'', ''GET''), (''/tests/users/<userId>/posts/<postId>'', ''GET''),
      (''/tests/items/<id>'', ''DELETE''), (''/tests/wildcard/*'', ''GET''), (''/tests/deepwildcard/**'', ''GET''),
      (''/tests/decode/path/<name>'', ''GET''), (''/tests/stream/basic'', ''GET''), (''/tests/stream/single'', ''GET''),
      (''/tests/stream/empty'', ''GET''), (''/tests/stream/count/<n>'', ''GET''), (''/tests/stream/throw'', ''GET''),
      (''/tests/stream/echo'', ''POST''), (''/tests/slow'', ''GET''), (''/tests/slowpool'', ''GET''), (''/tests/pool/basic'', ''GET''),
      (''/tests/pool/exception'', ''GET''), (''/tests/pool/deferred'', ''GET''), (''/tests/pool/concurrent'', ''GET''),
      (''/tests/pool/forget'', ''GET''), (''/tests/pool/unawaited'', ''GET''), (''/tests/forms/urlencoded'', ''POST''),
      (''/tests/forms/urlencoded/checkboxes'', ''POST''), (''/tests/forms/json'', ''POST''), (''/tests/forms/multipart'', ''POST''),
      (''/tests/orm/single_test'', ''GET''), (''/tests/orm/relations_test'', ''GET''), (''/tests/orm/predicates_test'', ''GET''),
      (''/tests/orm/cte_test'', ''GET'')]"

lemma app_routes_patterns: "map (\<lambda>r. (fst r, fst (snd r))) (app_routes env pool upload orm) = app_patterns"
  by (simp add: app_routes_def registerRoutes_def registerAllTestRoutes_def registerBasicTestRoutes_def registerCookieTestRoutes_def
      registerSessionTestRoutes_def registerUrlPathTestRoutes_def registerStreamTestRoutes_def registerThreadPoolTestRoutes_def
      registerFormTestRoutes_def registerOrmTestRoutes_def app_patterns_def)

lemma app_patterns_valid: "list_all (\<lambda>p. route_valid (fst p)) app_patterns"
  by code_simp

lemma app_patterns_distinct: "distinct (map (\<lambda>p. (route_segments (fst p), snd p)) app_patterns)"
  by code_simp

text \<open>All routes of the application are registered, and each handler is at its place.\<close>

lemma app_registered:
  assumes "register_routes (app_routes env pool upload orm) new_table = (e, t)"
  shows "e = None"
    and "(pattern, method, h) \<in> set (app_routes env pool upload orm) \<Longrightarrow> handler_at (pathTreeRoot t) (route_segments pattern) method = Some h"
proof -
  let ?rs = "app_routes env pool upload orm"
  have k: "map route_key ?rs = map (\<lambda>p. (route_segments (fst p), snd p)) app_patterns"
    by (simp add: route_key_def flip: app_routes_patterns [of env pool upload orm])
  have v: "\<forall>r \<in> set ?rs. route_valid (fst r)"
    using app_patterns_valid unfolding app_routes_patterns [of env pool upload orm, symmetric] by (auto simp: list_all_iff)
  have d: "distinct (map route_key ?rs)" unfolding k by (rule app_patterns_distinct)
  obtain t' where t': "register_routes ?rs new_table = (None, t')" "\<And>segs m. handler_at (pathTreeRoot t') segs m =
      (case map_of (map (\<lambda>r. (route_key r, snd (snd r))) ?rs) (segs, m) of Some h \<Rightarrow> Some h | None \<Rightarrow> handler_at (pathTreeRoot new_table) segs m)"
    using register_routes_ok [OF v d, of new_table] by auto
  show "e = None" using assms t'(1) by simp
  assume m: "(pattern, method, h) \<in> set ?rs"
  have "distinct (map fst (map (\<lambda>r. (route_key r, snd (snd r))) ?rs))" using d by (simp add: comp_def)
  moreover have "((route_segments pattern, method), h) \<in> set (map (\<lambda>r. (route_key r, snd (snd r))) ?rs)"
    using m by (force simp: route_key_def)
  ultimately have "map_of (map (\<lambda>r. (route_key r, snd (snd r))) ?rs) (route_segments pattern, method) = Some h"
    by (rule map_of_is_SomeI)
  then show "handler_at (pathTreeRoot t) (route_segments pattern) method = Some h" using assms t' by simp
qed

text \<open>Which pattern serves a path: the same table, with each pattern as its own handler.\<close>

definition pattern_table :: "string route_table" where
  "pattern_table = snd (register_routes (map (\<lambda>(p, m). (p, m, p)) app_patterns) new_table)"

definition served_by :: "'h route_table \<Rightarrow> string \<Rightarrow> string list \<Rightarrow> 'h option list" where
  "served_by t method paths =
     map (\<lambda>path. Option.bind (findMatchingRouteEntry t (str_split (normalizePath path) ''/'')) (\<lambda>n. map_of (requestHandlers n) method)) paths"

text \<open>The search goes back from the literal \<open>me\<close> to the parameter where it has to, but not from the node of \<open>me\<close> itself, which
  has no handlers: \<open>/tests/users/me\<close> is not served by \<open>/tests/users/<id>\<close>.\<close>

lemma app_served:
  "served_by pattern_table ''GET'' [''/'', ''/tests/users/7'', ''/tests/users/me/posts'', ''/tests/users/me/posts/7'', ''/tests/deepwildcard/a/b'',
     ''/tests/wildcard/a'', ''/tests/wildcard/a/b'', ''/tests/stream/count/3'', ''/tests/users/me''] =
   [Some ''/'', Some ''/tests/users/<id>'', Some ''/tests/users/me/posts/'', Some ''/tests/users/<userId>/posts/<postId>'',
    Some ''/tests/deepwildcard/**'', Some ''/tests/wildcard/*'', None, Some ''/tests/stream/count/<n>'', None]"
  by code_simp

section \<open>Lemmas: handlers\<close>

text \<open>The chunks of the streams, in order.\<close>

lemma stream_basic_gives: "gives (app_next :: app_gen \<Rightarrow> 'w \<Rightarrow> _) (GenBasic 0) [''Hello'', '', '', ''World'', ''!'']"
  by (simp add: numeral_eq_Suc)

lemma stream_empty_gives: "gives (app_next :: app_gen \<Rightarrow> 'w \<Rightarrow> _) GenEmpty []"
  by simp

lemma stream_count_gives: "i \<le> n \<Longrightarrow> gives (app_next :: app_gen \<Rightarrow> 'w \<Rightarrow> _) (GenCount i n) (map (\<lambda>k. ''chunk-'' @ to_dec k) [Suc i..<Suc n])"
proof (induction "n - i" arbitrary: i)
  case (Suc d)
  then have "i < n" by simp
  moreover have "gives (app_next :: app_gen \<Rightarrow> 'w \<Rightarrow> _) (GenCount (Suc i) n) (map (\<lambda>k. ''chunk-'' @ to_dec k) [Suc (Suc i)..<Suc n])"
    by (rule Suc.hyps(1)) (use Suc.hyps(2) \<open>i < n\<close> in auto)
  ultimately show ?case by (simp add: upt_conv_Cons del: upt_Suc)
qed (simp del: upt_Suc)

lemma stream_echo_gives:
  "\<exists>cs. gives (app_next :: app_gen \<Rightarrow> 'w \<Rightarrow> _) (GenEcho offset body) cs \<and> concat cs = drop offset body \<and> (\<forall>c \<in> set cs. 0 < length c \<and> length c \<le> 4)"
proof (induction "length body - offset" arbitrary: offset rule: less_induct)
  case less
  show ?case
  proof (cases "offset < length body")
    case True
    define n where "n = min 4 (length body - offset)"
    have n: "0 < n" "n \<le> 4" "n \<le> length body - offset" using True by (auto simp: n_def)
    have "length body - (offset + n) < length body - offset" using n True by simp
    from less [OF this] obtain cs where cs: "gives (app_next :: app_gen \<Rightarrow> 'w \<Rightarrow> _) (GenEcho (offset + n) body) cs" "concat cs = drop (offset + n) body"
        "\<forall>c \<in> set cs. 0 < length c \<and> length c \<le> 4" by blast
    have "gives (app_next :: app_gen \<Rightarrow> 'w \<Rightarrow> _) (GenEcho offset body) (take n (drop offset body) # cs)"
      using True cs(1) by (auto simp: n_def Let_def)
    moreover have "concat (take n (drop offset body) # cs) = drop offset body"
      using cs(2) by (simp add: add.commute flip: drop_drop)
    ultimately show ?thesis using n cs(3) by (intro exI [of _ "take n (drop offset body) # cs"]) auto
  next
    case False
    then show ?thesis by (intro exI [of _ "[]"]) simp
  qed
qed

text \<open>Two chunks arrive before the stream that throws throws.\<close>

lemma stream_throw_third:
  "app_next (GenThrow 0) w = (Inr (Some (''chunk-'' @ to_dec 1)), GenThrow 1, w)"
  "app_next (GenThrow 1) w = (Inr (Some (''chunk-'' @ to_dec 2)), GenThrow 2, w)"
  "app_next (GenThrow 2) w = (Inl (RuntimeError ''Deliberate stream error''), GenThrow 2, w)"
  by (simp_all add: numeral_2_eq_2)

text \<open>A number is read back from its decimal text, whatever follows it; a text that does not begin like one throws.\<close>

lemma digit_char_code: "digit_val 10 c \<noteq> None \<Longrightarrow> 48 \<le> (of_char c :: nat) \<and> (of_char c :: nat) \<le> 57"
  by (auto simp: digit_val_def Let_def split: if_splits)

lemma digit_not_space: "digit_val 10 c \<noteq> None \<Longrightarrow> \<not> c_isspace c \<and> c \<noteq> CHR ''-'' \<and> c \<noteq> CHR ''+''"
  using digit_char_code [of c] by (auto simp: c_isspace_def)

lemma takeWhile_digits:
  "rest = [] \<or> digit_val 10 (hd rest) = None \<Longrightarrow> takeWhile (\<lambda>c. digit_val 10 c \<noteq> None) (to_dec n @ rest) = to_dec n"
  using to_base_value [of 10 n] by (cases rest) (auto simp: takeWhile_append2 takeWhile_append)

lemma stoi_decimal:
  assumes "n < 2 ^ 31" "rest = [] \<or> digit_val 10 (hd rest) = None"
  shows "stoi (to_dec n @ rest) = Inr (int n)" "stoi (''-'' @ to_dec n @ rest) = Inr (- int n)"
proof -
  have v: "digits_value 10 (to_dec n) = n" "\<forall>c \<in> set (to_dec n). digit_val 10 c \<noteq> None" using to_base_value [of 10 n] by auto
  have "int n < 2 ^ 31" using assms(1) by simp
  note b = this takeWhile_digits [OF assms(2), of n] v(1)
  obtain c cs where c: "to_dec n = c # cs" by (cases "to_dec n") auto
  then have "\<not> c_isspace c" "c \<noteq> CHR ''-''" "c \<noteq> CHR ''+''" using digit_not_space [of c] v(2) by auto
  then show "stoi (to_dec n @ rest) = Inr (int n)" using b by (simp add: stoi_def Let_def c)
  have "\<not> c_isspace CHR ''-''" by (simp add: c_isspace_def)
  then show "stoi (''-'' @ to_dec n @ rest) = Inr (- int n)" using b by (simp add: stoi_def Let_def)
qed

lemma stoi_in_range: "stoi s = Inr n \<Longrightarrow> - (2 ^ 31) \<le> n \<and> n < 2 ^ 31"
  by (auto simp: stoi_def Let_def split: if_splits)

text \<open>The stream of \<open>/tests/stream/count\<close>: as many chunks as the parameter says, none for a negative number.\<close>

lemma stream_count_served:
  assumes "getPathParam req ''n'' [] = to_dec n" "n < 2 ^ 31"
  shows "\<exists>r. stream_count_handler req = Inr (StreamResponse r) \<and> gives (app_next :: app_gen \<Rightarrow> 'w \<Rightarrow> _) (nextChunkFn r) (map (\<lambda>k. ''chunk-'' @ to_dec k) [1..<Suc n])"
  using stoi_decimal(1) [OF assms(2), of "[]"] stream_count_gives [of 0 n] assms(1)
  by (simp add: stream_count_handler_def new_stream_response_def del: upt_Suc)

text \<open>What a session handler needs: without the middleware there is no session, and the pointer is null.\<close>

lemma session_needs_middleware: "sessionHandle (fst st) = None \<Longrightarrow> with_session env f st = None"
  by (simp add: with_session_def getSession_def)

text \<open>A value that was set is the value that is read, in the same session.\<close>

lemma session_set_get:
  assumes "query_or req ''key'' ''test'' = query_or req' ''key'' ''test''"
  shows "fst (session_get_handler J req' (snd (session_set_handler J req s)))
    = plainly (json_body J (j_fields J [(''key'', j_string J (query_or req ''key'' ''test'')),
        (''value'', j_string J (query_or req ''value'' ''hello'')), (''found'', j_bool J True)]))"
  using assms by (simp add: session_get_handler_def session_set_handler_def Let_def session_get_def session_set_def)

text \<open>A form without a user name has no first value of it.\<close>

lemma missing_field_undefined:
  assumes "\<not> starts_with ''application/x-www-form-urlencoded'' (toLowerCase (getContentType (fst st)))"
  shows "with_form env (urlencoded_handler J) st = None"
  using assms by (simp add: with_form_def urlencoded_handler_def first_value_def)

text \<open>The cookie that the parameters describe: its name and value, with the defaults, and no number is out of range.\<close>

lemma described_cookie_fields:
  assumes "described_cookie req = Inr c"
  shows "ck_name c = query_or req ''name'' ''test''" "ck_value c = query_or req ''value'' ''hello''" "- (2 ^ 31) \<le> maxAge c \<and> maxAge c < 2 ^ 31"
proof -
  let ?c = "new_cookie (query_or req ''name'' ''test'') (query_or req ''value'' ''hello'')"
  have "\<exists>n. c = ?c\<lparr>ck_path := ck_path c, ck_domain := ck_domain c, maxAge := n, sameSite := sameSite c, httpOnly := httpOnly c,
      secure := secure c\<rparr> \<and> - (2 ^ 31) \<le> n \<and> n < 2 ^ 31"
  proof (cases "getQueryParam req ''maxage'' [] = []")
    case True
    then show ?thesis using assms by (intro exI [of _ "-1"]) (auto simp: described_cookie_def Let_def new_cookie_def)
  next
    case False
    then obtain n where n: "stoi (getQueryParam req ''maxage'' []) = Inr n"
      using assms by (cases "stoi (getQueryParam req ''maxage'' [])") (auto simp: described_cookie_def Let_def)
    show ?thesis using assms False stoi_in_range [OF n] by (intro exI [of _ n]) (auto simp: n described_cookie_def Let_def new_cookie_def)
  qed
  then obtain n where n: "c = ?c\<lparr>ck_path := ck_path c, ck_domain := ck_domain c, maxAge := n, sameSite := sameSite c, httpOnly := httpOnly c,
      secure := secure c\<rparr>" "- (2 ^ 31) \<le> n" "n < 2 ^ 31" by blast
  show "ck_name c = query_or req ''name'' ''test''" "ck_value c = query_or req ''value'' ''hello''"
    by (subst n(1), simp add: new_cookie_def)+
  show "- (2 ^ 31) \<le> maxAge c \<and> maxAge c < 2 ^ 31" by (subst (1 2) n(1)) (use n(2,3) in simp)
qed

section \<open>Lemmas: settings and error pages\<close>

text \<open>The application lists its origins, and still announces no headers that a request may have.\<close>

lemma app_cors_origins:
  "isOriginAllowed (app_cors host) origin \<longleftrightarrow> origin \<in> {''http://localhost:8080'', ''https://localhost:8443'', ''http://127.0.0.1:8080'',
     ''http://'' @ host @ '':8080'', ''https://'' @ host @ '':8443''}"
  by (auto simp: isOriginAllowed_def app_cors_def setCorsMaxAge_def setCorsOrigins_def)

lemma app_cors_no_headers: "allowedHeaders (app_cors host) = []" "corsMaxAge (app_cors host) = ''10''"
  proof -
  have "to_dec 10 = ''10''" by code_simp
  then show "allowedHeaders (app_cors host) = []" "corsMaxAge (app_cors host) = ''10''"
    by (simp_all add: app_cors_def setCorsMaxAge_def setCorsOrigins_def new_cors_def)
qed

text \<open>The pages for one part below \<open>/tests/debug\<close> may be kept for five seconds, and so may pages of text in HTML.\<close>

lemma app_cache_headers:
  assumes "app_cache_control = Inr m" "hs_getHeaderLower hs ''cache-control'' = []" "status < 400"
  shows "cache_headers m [''tests'', ''debug'', p] status hs = hs_setCacheControl ''max-age=5, public'' hs"
  using assms
  by (auto simp: app_cache_control_def setRouteCacheControl_def setDefaultCacheControl_def Middlewares.setMimeCacheControl_def
      new_cache_control_def cache_headers_def route_pattern_matches_def at_or_nul_def cut_def find_simps)

lemma app_error_status:
  "statusCode (jsonFormatter dump code message) = code" "statusCode (htmlFormatter code message) = code"
  "hs_getHeaderLower (resp_headers (htmlFormatter code message)) ''content-type'' = ''text/html''"
  by (simp_all add: jsonFormatter_def htmlFormatter_def app_error_response_def Let_def setBody_def new_response_def
      hs_get_after_set hs_setCacheControl_def)

text \<open>An error is a page for a client that prefers HTML, and JSON for one that says nothing.\<close>

lemma app_error_default:
  assumes "getHeaders req ''Accept'' = []"
  shows "build strtof_q sort_prefs (app_error_factory dump) req code message = default_formatter dump code message"
  using assms by (simp add: build_def app_error_factory_def setFormatter_def new_error_factory_def)

lemma app_error_html:
  assumes "getHeaders req ''Accept'' = [''text/html'']" "\<And>xs. length xs \<le> 1 \<Longrightarrow> sort_prefs xs = xs"
  shows "build strtof_q sort_prefs (app_error_factory dump) req code message = htmlFormatter code message"
proof -
  have s: "str_split ''text/html,'' '','' = [''text/html'', []]" "cut CHR '';'' ''text/html'' = (''text/html'', None)"
    "trim ''text/html'' = ''text/html''" "cut CHR '';'' [] = ([], None)" "trim [] = []"
    "toLowerCase ''text/html'' = ''text/html''" "toLowerCase ''application/json'' = ''application/json''"
    "\<not> mime_match ''application/json'' ''text/html''" "mime_match ''text/html'' ''text/html''"
    by code_simp+
  have "parseQValues strtof_q ''text/html,'' = ([(''text/html'', q_of strtof_q None)], [])"
    by (simp add: parseQValues_def s Let_def q_of_def q_one_def)
  then show ?thesis using assms s by (simp add: build_def app_error_factory_def setFormatter_def new_error_factory_def Let_def)
qed

end
