(* ===== verification/Spec2Isabelle.thy ===== *)
theory Spec2Isabelle
  imports Config Ranges HeaderStore BodySources Exchange Multipart StaticFiles ActiveRecords EventLoop Tasks Pools ThreadPools Sqlite Streams Compressors HttpServers Deadlines DateParsing AppModels ExampleApp
begin

text \<open>
  RuKh, an HTTP server framework in C++: an executor of coroutines over epoll and io_uring, the HTTP/1.1 layer on top of it,
  a router with middlewares, and an object-relational mapper over SQLite. This development models the framework under
  \<open>rukh/\<close> and, as an instance of it, most of the example application under \<open>app/\<close>.

  \<^bold>\<open>How the program works.\<close> Each worker of \<open>HttpServer\<close> has an executor. Its accept loops spawn one coroutine per connection,
  \<open>HttpConnection::run\<close>: it reads a header into the buffers of \<open>ConnectionIO\<close>, parses it into an \<open>HttpRequest\<close>, attaches a
  \<open>BodyStream\<close> whose callbacks decode the body, has the \<open>Router\<close> find a handler and run it behind the middlewares, and
  writes the response, whole, in chunks or from a file; then it begins again. A coroutine that must wait is suspended in the
  \<open>Executor\<close>, which resumes it on an event, a completion, a deadline, or when a thread of a pool has run its job. Handlers may
  read forms, use sessions, and query a database through models, whose statements run on a pool of connections.

  \<^bold>\<open>Conventions.\<close> A byte is a \<open>char\<close>, a string a list of them. \<open>size_t\<close> is \<open>nat\<close> where the code cannot wrap, and otherwise
  \<open>sz_add\<close>, \<open>sz_sub\<close> (theory \<open>Prelude\<close>), which wrap at \<open>2 ^ 64\<close>; the integers of the database are words of their width. An exception is a
  value of \<open>exn\<close>, and a function that may throw returns \<open>exn + 'a\<close>. The value \<open>None\<close> of an operation is that it does not
  return: loops that may not end are \<open>partial_function (option)\<close>, and that they do end is proved (never assumed). In the ORM
  \<open>None\<close> is also code with no defined behaviour. There is no fuel. Loops over scripts of events (the socket in
  \<open>ConnectionIO\<close>, the splices in \<open>Streams\<close>, \<open>epoll_wait\<close>) are structural in the script or in what is left to do; a
  theorem quantifies over every script. The kernel, the clock, zlib, brotli, OpenSSL, SQLite, the file system and the user's
  handlers are parameters; what the code relies on of them is a named predicate (\<open>deflates\<close>, \<open>encodes\<close>, \<open>echoes\<close>, ...).
  Lookups by hash are maps or association lists, and where the order of an \<open>unordered_set\<close> is seen it is a parameter.

  \<^bold>\<open>The theories\<close>, in the order of the layers.

  Foundations. \<open>Prelude\<close>: bytes, \<open>size_t\<close>, searches, loops that are folds. \<open>Config\<close>: \<open>ServerConfig.hpp\<close>, \<open>Exceptions.hpp\<close>.
  \<open>StringUtils\<close>, \<open>HttpUtils\<close>, \<open>HttpDate\<close>, \<open>DateParsing\<close>, \<open>MimeTypes\<close>: the helpers of the same
  names; dates are printed and read as the standard library does.

  Execution. \<open>EventLoop\<close>: \<open>core/Executor\<close>, \<open>core/EpollInstance\<close> and the awaitables; the state of an executor is one record, a turn of
  \<open>Executor::run\<close> is \<open>loop_turn\<close>. No coroutine is lost or resumed twice, and what a turn can add are null handles, from
  buckets of wake-ups that are never cleared; deadlines are met and stale ones ignored, interest in write events agrees with the kernel. \<open>Tasks\<close>: \<open>core/Task.hpp\<close>; frames, promises and continuations are refined to plain calls. \<open>Pools\<close>:
  \<open>core/AsyncPool.hpp\<close>, \<open>core/PipePool\<close>. \<open>ThreadPools\<close>: \<open>pool/\<close>; the queue and its threads, and the lock-free handshake of a
  job, are step relations with invariants on reachable states. \<open>FileReader\<close>: \<open>core/AsyncFileReader.hpp\<close>, \<open>core/AsyncFileWriter.hpp\<close>.

  Connections. \<open>ConnectionIO\<close>: \<open>net/ConnectionIO.hpp\<close> with the calls of \<open>net/TcpStream\<close>; buffers that erase lazily refine byte queues.
  \<open>Streams\<close>: \<open>net/Socket\<close>, \<open>net/TlsStream\<close>, sending by \<open>mmap\<close> and \<open>splice\<close>. \<open>ChunkDecoder\<close>, \<open>BodyStream\<close>,
  \<open>BodySources\<close>: the decoder of chunked bodies refines a decoder of whole inputs, and the three kinds of bodies are
  interpretations of one contract. \<open>Deadlines\<close>: the two deadlines of a connection.

  HTTP. \<open>HeaderStore\<close>, \<open>CookieStore\<close>, \<open>Session\<close>, \<open>HttpRequest\<close>, \<open>Ranges\<close>, \<open>Response\<close>, \<open>Negotiation\<close> (with \<open>ErrorFactory\<close>): the
  data of requests and responses, their parsers and serialisers; a request that is printed is parsed back, and the computed
  size of a response is the size of its bytes. \<open>RouteTree\<close> and \<open>Dispatch\<close>: \<open>Router\<close>; backtracking finds a node exactly when
  one matches, and the preferred one, even if it has no handlers (\<open>app_served\<close> in \<open>ExampleApp\<close>). \<open>ConnectionRequest\<close>, \<open>HttpConnection\<close>, \<open>Exchange\<close>: \<open>HttpConnection::run\<close>, up to pipelined requests that are
  answered in order. \<open>Middlewares\<close>, \<open>Compressors\<close>, \<open>StaticFiles\<close>, \<open>Multipart\<close>: the middlewares of \<open>http/middleware\<close>, the
  classes of \<open>http/compression\<close>, static files with ranges and conditions, forms with files. \<open>HttpServers\<close>: \<open>HttpServer\<close> and
  \<open>ListenerSocket\<close>.

  Database. \<open>DbValues\<close>: \<open>db/DbValue.hpp\<close>, \<open>db/DbTypes.hpp\<close>. \<open>OrmModel\<close>: models, columns, hydration. \<open>Predicates\<close>, \<open>SelectQueries\<close>,
  \<open>WriteQueries\<close>: the text and the parameters of statements; a condition is rendered with its parameters in order. \<open>ActiveRecords\<close>:
  objects that save and load themselves, and relations; what the statements select is stated over an evaluation of conditions on rows.
  \<open>Sqlite\<close>: \<open>db/sqlite3/\<close> and \<open>db/ScopedTransaction.hpp\<close>; a statement is a job that waits in the queue of the thread pool while
  others use the pools (\<open>sq_others\<close>). Connections are given back whatever the database answers, unless the queue refuses the clean-up job. What
  SQLite gives back for a bound value, with the affinities of columns and a null for NaN, is the hypothesis \<open>echoes\<close>.

  The example application. \<open>AppModels\<close>: its models and relations, which meet what the theorems on the mapper suppose. \<open>ExampleApp\<close>:
  its error pages, settings, handlers and table of routes; every route is registered and is at its place.

  \<^bold>\<open>Interfaces.\<close> \<open>byte_queue\<close> (the read and the write buffer), \<open>header_map\<close> (the header store and the headers of a request),
  \<open>body_source\<close> (chunked, sized and empty bodies), \<open>session_store\<close> (the store in memory), \<open>item_pool\<close> (items and pipes): the clients'
  lemmas are proved from the laws, and each locale is interpreted on the program's own definitions.

  \<^bold>\<open>What the properties say.\<close> The root theory composes the components: bytes that arrive in pieces are parsed and answered;
  bodies are read whole whatever the segmentation; responses decode back; sizes, ranges and limits are exact; coroutines,
  connections, pipes and jobs are neither lost nor used twice; statements carry their parameters in order and select the rows they
  mean; objects survive the way through SQLite. Some lemmas of the component theories state where the code does not do what it
  means to: a multipart body that ends too early is refused or read for ever, according to its length (\<open>truncated_body_never_accepted\<close> below), a reader that resizes after it reads gives zero bytes
  (\<open>FileReader\<close>), an accept error ends its loop and the count of TLS connections is never lowered (\<open>HttpServers\<close>), a woken coroutine's slot
  is used again (\<open>EventLoop\<close>), parameters of a common table expression are lost in a compound query (the \<open>excess\<close> of \<open>SelectQueries\<close>), and others.

  \<^bold>\<open>Bounds.\<close> The limits of \<open>ServerConfig\<close> are the fields of \<open>server_config\<close> and arguments of the definitions, so theorems hold for every
  setting that meets their premises. Where a premise bounds a length (by \<open>2 ^ 31\<close> or \<open>2 ^ 64\<close>), the code's integers would wrap
  without it.

  \<^bold>\<open>Not modelled.\<close> Logging (\<open>logUtils\<close>); \<open>TypeHelpers.hpp\<close> and the other compile-time checks; \<open>toJson\<close> (for \<open>jsonBody\<close> the JSON parser is a
  parameter); \<open>float\<close> fields and user-defined conversions of fields; \<open>getOne\<close>, \<open>getOneOptional\<close> and \<open>getOneOrCreate\<close>, which cannot be instantiated; the
  memory behind buffers that the ring reads and writes; socket options; the memory order of atomics, beyond the
  interleaving of single accesses; the lifetime of a job through its own pointer; and, of the example application,
  the handlers of the thread pool, of a multipart upload and of the tests of the object mapper, and the start in \<open>main.cpp\<close>.
\<close>

section \<open>Concrete inputs\<close>

text \<open>A connection on which a chunked body of three bytes arrives in two segments.\<close>

definition example_io :: conn_io where
  "example_io = \<lparr>readBuffer = ''3'' @ crlf @ ''ab'', readOffset = 0, writeBuffer = [], writeOffset = 0,
     rx = [RxPause, RxData (''c'' @ crlf @ ''0'' @ crlf @ crlf)], tx = [TxTake 100], sent = [],
     tl_timed_out = False\<rparr>"

definition example_env :: body_env where
  "example_env = \<lparr>env_io = example_io, env_decoder = init_decoder, env_request = empty_request\<rparr>"

text \<open>A server with one route, and a connection on which a request arrives in two segments.\<close>

definition example_handler :: "(unit, unit conn_world) handler" where
  "example_handler st = (Inr (PlainResponse (new_response_body 200 ''ok'')), st)"

definition example_table :: "(unit, unit conn_world) handler route_table" where
  "example_table = snd (router_get ''/hi'' example_handler new_table)"

definition example_server :: "(unit, unit) server" where
  "example_server = \<lparr>srv_cfg = default_config, srv_router = \<lparr>routes = example_table, middlewares = []\<rparr>,
     srv_errors = new_error_factory (\<lambda>_ m. m), srv_date = (\<lambda>_. ''Thu, 01 Jan 1970 00:00:00 GMT''),
     srv_shutdown = (\<lambda>_. False), srv_set_order = id, srv_sort_prefs = id, srv_strtof = (\<lambda>_. q_one),
     srv_library_what = (\<lambda>_. []), srv_next_chunk = (\<lambda>g w. (Inr None, g, w)), srv_open = (\<lambda>_ _. Inr 3),
     srv_read_file = (\<lambda>_ _ _ _. None), srv_file = (\<lambda>_ _. []), srv_junk = 0\<rparr>"

text \<open>A server whose streaming responses send two chunks; the state of the generator is the number of chunks sent.\<close>

definition example_stream_server :: "(nat, unit) server" where
  "example_stream_server = \<lparr>srv_cfg = default_config, srv_router = \<lparr>routes = new_table, middlewares = []\<rparr>,
     srv_errors = new_error_factory (\<lambda>_ m. m), srv_date = (\<lambda>_. ''Thu, 01 Jan 1970 00:00:00 GMT''),
     srv_shutdown = (\<lambda>_. False), srv_set_order = id, srv_sort_prefs = id, srv_strtof = (\<lambda>_. q_one),
     srv_library_what = (\<lambda>_. []),
     srv_next_chunk = (\<lambda>g w. if g < 2 then (Inr (Some ([''Hello'', ''World''] ! g)), g + 1, w) else (Inr None, g, w)),
     srv_open = (\<lambda>_ _. Inr 3), srv_read_file = (\<lambda>_ _ _ _. None), srv_file = (\<lambda>_ _. []), srv_junk = 0\<rparr>"

lemma example_stream_yields:
  "yields (srv_next_chunk example_stream_server) (nextChunkFn (new_stream_response 200 0)) [''Hello'', ''World'']"
  by (simp add: example_stream_server_def new_stream_response_def)


definition example_connection :: "bytes \<Rightarrow> unit connection" where
  "example_connection inp = \<lparr>request = empty_request, conn_world = \<lparr>w_io = \<lparr>readBuffer = take 10 inp, readOffset = 0,
     writeBuffer = [], writeOffset = 0, rx = [RxPause, RxData (drop 10 inp)], tx = [TxTake 1000, TxTake 1000], sent = [],
     tl_timed_out = False\<rparr>, w_decoder = init_decoder, w_kind = NoBody, w_user = ()\<rparr>, keepAlive = True\<rparr>"

definition example_world :: "unit conn_world" where
  "example_world = \<lparr>w_io = example_io, w_decoder = init_decoder, w_kind = NoBody, w_user = ()\<rparr>"




lemma example_tree_ok:
  "tree_ok (pathTreeRoot example_table)"
  "\<forall>segs n. node_at (pathTreeRoot example_table) segs = Some n \<longrightarrow> [] \<notin> fst ` set (requestHandlers n) \<and> ''HEAD'' \<notin> fst ` set (requestHandlers n)"
proof -
  show "tree_ok (pathTreeRoot example_table)"
    unfolding example_table_def router_get_def by (rule addRoute_tree_ok) (simp add: new_table_def tree_ok_empty)
  obtain e t' where p: "addRoute ''/hi'' ''GET'' example_handler new_table = (e, t')" by fastforce
  have new: "node_data (pathTreeRoot new_table) segs = ([], [], [])" for segs by (simp add: new_table_def)
  have t: "example_table = t'" by (simp add: example_table_def router_get_def p)
  show "\<forall>segs n. node_at (pathTreeRoot example_table) segs = Some n \<longrightarrow> [] \<notin> fst ` set (requestHandlers n) \<and> ''HEAD'' \<notin> fst ` set (requestHandlers n)"
  proof (intro allI impI)
    fix segs n assume "node_at (pathTreeRoot example_table) segs = Some n"
    then have "node_data (pathTreeRoot t') segs = (requestHandlers n, patternParts n, allowedMethods n)" by (simp add: node_data_def t)
    then have "requestHandlers n \<in> {[], [(''GET'', example_handler)]}"
      using addRoute_frame(1) [OF p refl, of segs] by (auto simp: new split: if_splits)
    then show "[] \<notin> fst ` set (requestHandlers n) \<and> ''HEAD'' \<notin> fst ` set (requestHandlers n)" by auto
  qed
qed







text \<open>A table of users, two of its objects, and a symmetric relation between users with two rows per pair.\<close>

definition example_model :: model where
  "example_model = \<lparr>model_id = 1, tableName = ''users'',
     columns = [(new_column 0 ''id'' (TInt 64 True) False)\<lparr>isPrimaryKey := True, autoGenerateMode := DB_INCREMENT\<rparr>,
       new_column 1 ''name'' TText False, new_column 2 ''boss'' (TInt 64 True) True], blank = (\<lambda>_. Plain (VInt 0))\<rparr>"

definition example_user :: "int \<Rightarrow> string \<Rightarrow> model_obj" where
  "example_user i n = \<lparr>obj_field = (\<lambda>_. Plain (VInt 0))(0 := Plain (VInt i), 1 := Plain (VText n), 2 := Optional None), persisted = True\<rparr>"

definition example_friends :: many_to_many where
  "example_friends = withSymmetryMode DOUBLE_ROW (withRelationName ''friends'' (m2m_new example_model example_model
     (default_through 2 ''friendships'' (TInt 64 True) (TInt 64 True) (\<lambda>_. Plain (VInt 0)))
     [\<lparr>throughPtr = 1, modelPtr = 0, throughPtrModel = SideA\<rparr>, \<lparr>throughPtr = 2, modelPtr = 0, throughPtrModel = SideB\<rparr>]))"

definition example_lookup :: relation_lookup where
  "example_lookup = \<lparr>rl_relation = example_friends, rl_isReciprocal = False, rl_isSelfRef = True, rl_callerIsA = True, rl_otherIsB = True\<rparr>"

lemma example_model_facts: "insertable example_model" "updatable example_model" "clean_model example_model"
  by (simp_all add: insertable_def updatable_def clean_model_def example_model_def new_column_def)

lemmas example_relation_defs = example_lookup_def example_friends_def withSymmetryMode_def withRelationName_def m2m_new_def

lemma example_lookup_found:
  "getManyToManyRelation (\<lambda>_. [ManyToManyRelation example_friends]) ''friends'' example_model example_model = Some example_lookup"
  by (simp add: getManyToManyRelation_def getManyToManyRelationByName_def manyToManyRelations_def same_model_def example_relation_defs)

lemma example_well_mapped: "well_mapped (rl_relation example_lookup)"
  by (simp add: well_mapped_def getThroughFieldPtrs_def isSelfReferential_def same_model_def example_relation_defs)

lemma example_double: "symmetryMode (rl_relation example_lookup) = DOUBLE_ROW"
  by (simp add: example_relation_defs)

lemma example_mirror_row:
  "row_of (\<lambda>c. if c = ''a.pkA'' then DbInt 3 else if c = ''a.pkB'' then DbInt 7 else DbInt 0) ''a'' (m2m_through (rl_relation example_lookup))
     (added_mirror example_lookup (example_user 7 ''ann'') (example_user 3 ''bob''))"
  by (simp add: row_of_def added_mirror_def set_fields_def getThroughFields_def side_if_def default_through_def new_column_def new_obj_def
      example_user_def to_int64_def example_relation_defs)

lemmas example_condition_defs = andthen_eq_ok p_equals_def pred_field_def default_resolver_def model_alias_def get_index_of_def same_model_def
  getAlias_def aliasList_def columnNameOf_def raw_of_def example_user_def new_column_def

lemma example_removal: "\<exists>q. removal_query example_lookup (example_user 7 ''ann'') (example_user 3 ''bob'') = ok q"
  by (simp add: removal_query_def pair_predicate_def and_fields_def getThroughFields_def side_if_def default_through_def Let_def
      example_condition_defs example_relation_defs)

lemma example_ref: "\<exists>q. ref_query example_model (fk_new example_model example_model [2])
    (set_field 2 (Optional (Some (VInt 7))) (example_user 3 ''bob'')) = ok q"
  by (simp add: ref_query_def field_equals_def getFieldPtrPairs_def fk_new_def pkFieldPtrs_def pkColumns_def example_model_def
      example_condition_defs)

lemma example_related: "\<exists>q. related_query example_model (fk_new example_model example_model [2]) (example_user 7 ''ann'') = ok q"
  by (simp add: related_query_def field_equals_def getFieldPtrPairs_def fk_new_def pkFieldPtrs_def pkColumns_def example_model_def
      example_condition_defs)

text \<open>A coroutine that awaits another, which waits for the executor.\<close>

definition example_coro :: "(nat, bool) coro" where
  "example_coro = CoAwait (CoPause (\<lambda>b. if b then CoReturn 2 else CoThrow (RuntimeError [])))
     (\<lambda>r. case r of Inl e \<Rightarrow> CoThrow e | Inr v \<Rightarrow> CoReturn (v + 1))"

definition example_tasks :: "(nat, bool) tasks" where
  "example_tasks = \<lparr>frames = [5 \<mapsto> \<lparr>pr_value = None, continuation = None, pr_ex = None, pr_state = Ready example_coro\<rparr>],
     nextHandle = 6, finished = []\<rparr>"

text \<open>A database library that answers every statement with one row, and a database whose third connection is in use.\<close>

definition example_sqlite :: "unit sqlite" where
  "example_sqlite = \<lparr>sq_prepare = (\<lambda>_ _ _. Inr True), sq_run = (\<lambda>_ _ _ d. Some ([[(Some ''a'', ColInteger 1)]], StepDone, d)),
     sq_changes = (\<lambda>_ _. 0), sq_exec = (\<lambda>_ _ d. d), sq_others = (\<lambda>w. w)\<rparr>"

definition example_db :: "unit db_world" where
  "example_db = \<lparr>connectionPool = new_async_pool [0, 1], statements = (\<lambda>_ _. None), lib = (), threads = new_thread_pool 2,
     locks = [], db_log = []\<rparr>"

lemma example_executed:
  "\<exists>r w'. on_pool example_sqlite (executeOnConnection example_sqlite False c sql params) w = Some (r, w') \<and> threads w' = threads w"
proof -
  have "q @ [()] = () # q" for q by (induction q) simp_all
  then have units: "tl (q @ [()]) = q" for q :: "unit list" by (metis list.sel(3))
  have "\<exists>r w'. executeOnConnection example_sqlite False c sql params w1 = Some (r, w') \<and> threads w' = threads w1" for w1
    by (auto simp: executeOnConnection_def runQuery_def prepared_def example_sqlite_def split: option.splits)
  moreover have "start_job example_sqlite (w\<lparr>threads := (threads w)\<lparr>jobQueue := jobQueue (threads w) @ [()]\<rparr>\<rparr>) = Some w"
    using units [of "jobQueue (threads w)"]
    by (cases "jobQueue (threads w)") (simp_all add: start_job_def worker_turn_def Let_def example_sqlite_def)
  ultimately show ?thesis
    by (auto simp: on_pool_def pool_submit_def pool_enqueue_def) (fastforce simp: example_sqlite_def)
qed

lemma example_op_ends: "\<not> tx_busy t \<Longrightarrow> \<exists>r t' w'. tx_op example_sqlite False opn t w = Some (r, t', w') \<and> threads w' = threads w"
  using example_executed
  by (cases opn) (fastforce simp: tx_begin_def tx_executeQuery_def tx_commit_def tx_rollback_def tx_finish_def with_lock_def
      acquireTransactionLock_def keep_tx_def)+

lemma example_ops_end: "\<not> tx_busy t \<Longrightarrow> \<exists>s' w'. scoped_ops example_sqlite False ops (Some t) w = Some (s', w') \<and> threads w' = threads w"
proof (induction ops arbitrary: t w)
  case (Cons opn ops)
  obtain r t1 w1 where 1: "tx_op example_sqlite False opn t w = Some (r, t1, w1)" "threads w1 = threads w"
    using example_op_ends [OF Cons.prems] by blast
  from tx_op_frame [OF 1(1) Cons.prems] have "\<not> tx_busy t1" by (simp add: tx_frame_def)
  then show ?case using Cons.IH [of t1 w1] 1 by (simp add: forward_def)
qed simp

text \<open>A file system of empty files, and the middleware of static files on it.\<close>

definition example_files :: "unit file_system" where
  "example_files = \<lparr>fs_canonical = (\<lambda>p _. p), fs_exists = (\<lambda>_ _. True), fs_is_directory = (\<lambda>_ _. False), fs_open = (\<lambda>_ _. Inr 3),
     fs_size = (\<lambda>_ _. 0), fs_mtime = (\<lambda>_ _. 0), fs_content = (\<lambda>_ _. []), fs_read = (\<lambda>_ _ _ _. 0), fs_open_tmp = (\<lambda>_ w. (True, w)),
     fs_write_all = (\<lambda>_ _ w. (True, w)), fs_rename = (\<lambda>_ _ w. (True, w)), fs_remove = (\<lambda>_ w. w), fs_tmp_name = (\<lambda>p _. p @ ''.tmp'')\<rparr>"

definition example_static :: "unit static_env" where
  "example_static = \<lparr>se_cfg = default_config, se_fs = example_files, se_strtof = (\<lambda>_. q_one), se_sort_prefs = id, se_sort_ranges = id, se_junk = 0,
     se_build_error = (\<lambda>_ c. new_response c), se_compress = (\<lambda>_ b. Inr b), se_seconds = id, se_parse_date = parseHttpDate, se_thread = ''1''\<rparr>"

text \<open>Columns that follow the rules of affinity; other conversions are left out.\<close>

definition example_echo :: "affinity \<Rightarrow> bound_value \<Rightarrow> column_value" where
  "example_echo a b = (case b of
       BoundInt i \<Rightarrow> if a = AffText then ColText (Some (int_to_string i)) else ColInteger i
     | BoundDouble d \<Rightarrow> if is_nan d then ColNull else ColFloat d
     | BoundText s \<Rightarrow> ColText (Some s) | BoundBlob x \<Rightarrow> ColBlob x | BoundNull \<Rightarrow> ColNull)"

definition example_declared :: "string \<Rightarrow> affinity" where
  "example_declared name = (if name = ''name'' then AffText else AffInteger)"

section \<open>Properties\<close>

text \<open>C1. Chunk decoding refines the one-pass reference decoder \<open>decode\<close>. Whatever the connection holds, in whatever
  pieces it arrives and whatever the size \<open>n\<close> of the caller's span, \<open>readSome\<close> returns (when a read asks for at
  least one byte). If it wrote \<open>w\<close>, then \<open>w\<close> fits into the span, the payload of the whole input is \<open>w\<close> followed by the payload
  that the decoder's new state denotes on what is left, and less than a full span means that the body is done. An error is
  reported only if the reference refuses the input with that error.\<close>

theorem chunk_decoding_refines_reference:
  assumes "0 < SINGLE_READ_BYTES cfg" "io_ok io"
  shows "\<exists>out dec' io'. readSome cfg n dec io = Some (out, dec', io') \<and>
    (case out of
       Wrote w \<Rightarrow> io_ok io' \<and> length w \<le> n \<and> (length w < n \<longrightarrow> state dec' = DONE) \<and>
         fst (decode cfg dec (input io)) = w @ fst (decode cfg dec' (input io')) \<and>
         (state dec' \<noteq> DONE \<longrightarrow> snd (decode cfg dec (input io)) = snd (decode cfg dec' (input io')))
     | Unexpected e \<Rightarrow> snd (decode cfg dec (input io)) = Bad e
     | Threw e \<Rightarrow> True)"
proof -
  obtain out dec' io' where r: "readSome cfg n dec io = Some (out, dec', io')"
    using readSome_total [OF assms] by (metis prod_cases3)
  have "loop_refines cfg n [] dec io (out, dec', io')" using readSome_refines [OF r assms(2)] .
  then show ?thesis
    using r by (cases out; cases "state dec'")
      (auto simp: loop_refines_def decode_after_def decode_def intro!: exI)
qed

theorem chunk_decoding_refines_reference_witness:
  "\<exists>out dec' io'. readSome default_config 2 init_decoder example_io = Some (out, dec', io') \<and>
    (case out of
       Wrote w \<Rightarrow> io_ok io' \<and> length w \<le> 2 \<and> (length w < 2 \<longrightarrow> state dec' = DONE) \<and>
         fst (decode default_config init_decoder (input example_io)) = w @ fst (decode default_config dec' (input io')) \<and>
         (state dec' \<noteq> DONE \<longrightarrow>
            snd (decode default_config init_decoder (input example_io)) = snd (decode default_config dec' (input io')))
     | Unexpected e \<Rightarrow> snd (decode default_config init_decoder (input example_io)) = Bad e
     | Threw e \<Rightarrow> True)"
  by (rule chunk_decoding_refines_reference) (simp_all add: default_config_def KB_def io_ok_def example_io_def)



text \<open>C3. Awaiting a \<open>Task\<close> is a call. The specification is \<open>call\<close>, in which an awaited body runs to its result, which is the value or the
  exception of the \<open>co_await\<close>. The code transfers between frames on a heap: a spawned coroutine ends exactly when \<open>call\<close> has a result, then its promise holds that
  result, \<open>notifyTaskFinished\<close> was called once, for it, and the other frames are as they were; otherwise a coroutine is left waiting.\<close>

theorem awaited_task_is_a_call:
  assumes "fresh_handles ts"
    and "frames ts h = Some \<lparr>pr_value = None, continuation = None, pr_ex = None, pr_state = Ready c\<rparr>"
  shows "case call c as of
      Some (r, as') \<Rightarrow> \<exists>n. drive h as ts = Some (as', None, ts\<lparr>nextHandle := n, finished := finished ts @ [h],
        frames := (frames ts)(h \<mapsto> \<lparr>pr_value = (case r of Inl e \<Rightarrow> None | Inr v \<Rightarrow> Some v), continuation = None,
          pr_ex = (case r of Inl e \<Rightarrow> Some e | Inr v \<Rightarrow> None), pr_state = AtFinal\<rparr>)\<rparr>)
    | None \<Rightarrow> \<exists>h' ts' p k. drive h as ts = Some ([], Some h', ts') \<and> finished ts' = finished ts \<and> \<not> task_done h ts'
        \<and> frames ts' h' = Some p \<and> pr_state p = Paused k"
proof (cases "call c as")
  case None
  then show ?thesis using drive_stays [OF None assms] by (auto simp: stays_def)
next
  case (Some ra)
  obtain r as' where ra: "ra = (r, as')" by (cases ra)
  obtain n where n: "drive h as ts = drive h as' ((set_state h (Ready (ends_with r)) ts)\<lparr>nextHandle := n\<rparr>)"
    using drive_call [of c as r as' ts h] Some ra assms by auto
  let ?ts' = "(set_state h (Ready (ends_with r)) ts)\<lparr>nextHandle := n\<rparr>"
  have "frames ?ts' h = Some \<lparr>pr_value = None, continuation = None, pr_ex = None, pr_state = Ready (ends_with r)\<rparr>"
    using assms(2) by (simp add: set_state_def set_promise_def)
  from drive_spawned_end [OF this, of as'] have "drive h as ts = Some (as', None, ts\<lparr>nextHandle := n, finished := finished ts @ [h],
        frames := (frames ts)(h \<mapsto> \<lparr>pr_value = (case r of Inl e \<Rightarrow> None | Inr v \<Rightarrow> Some v), continuation = None,
          pr_ex = (case r of Inl e \<Rightarrow> Some e | Inr v \<Rightarrow> None), pr_state = AtFinal\<rparr>)\<rparr>)"
    using n by (simp add: set_state_def set_promise_def)
  then show ?thesis using Some ra by auto
qed

theorem awaited_task_is_a_call_witness:
  "\<exists>n. drive 5 [True] example_tasks = Some ([], None, example_tasks\<lparr>nextHandle := n, finished := [5],
     frames := [5 \<mapsto> \<lparr>pr_value = Some (3 :: nat), continuation = None, pr_ex = None, pr_state = AtFinal\<rparr>]\<rparr>)"
proof -
  have f: "fresh_handles example_tasks" "finished example_tasks = []" "frames example_tasks = [5 \<mapsto> the (frames example_tasks 5)]"
    and h: "frames example_tasks 5 = Some \<lparr>pr_value = None, continuation = None, pr_ex = None, pr_state = Ready example_coro\<rparr>"
    by (simp_all add: fresh_handles_def example_tasks_def)
  have c: "call example_coro [True] = Some (Inr 3, [])" by (simp add: example_coro_def)
  have "(frames example_tasks)(5 \<mapsto> p) = [5 \<mapsto> p]" for p using f(3) by (metis fun_upd_upd)
  then show ?thesis using awaited_task_is_a_call [OF f(1) h, of "[True]"] c f(2) by simp
qed



text \<open>C5. Connections do not leak and are not shared. \<open>ops\<close> are any begin, query, commit and rollback operations, each with whatever outcome. If the transaction has ended then, or the thread pool
  takes and runs the clean-up job (\<open>job_started\<close>), the destructor ends, and all that has happened to the pool of connections is what others did (\<open>by_others\<close>) and then one release of the transaction's
  connection; when the others leave the pool alone, it is as after this release. A full queue loses the connection (\<open>full_queue_leaks\<close>); an explicit \<open>abandon\<close> and a move
  assignment are not among the operations (\<open>abandoned_twice\<close>, \<open>move_over_ended_leaks\<close>).\<close>

theorem scoped_connection_returned:
  assumes "\<not> tx_busy t" "scoped_ops sq null_data ops (Some t) w = Some (s', w')"
    and "tx_ended (the s') \<or> job_started sq w' \<noteq> None"
  shows "\<exists>p w''. by_others sq (connectionPool w) p \<and> scoped_destroy sq s' w' = Some w''
    \<and> connectionPool w'' = snd (async_release (tx_conn t) p)
    \<and> ((\<forall>v. connectionPool (sq_others sq v) = connectionPool v) \<longrightarrow> p = connectionPool w)"
  using scoped_returns [OF assms] by_others_alone by metis

theorem scoped_connection_returned_witness:
  "\<exists>s' w' w''. scoped_ops example_sqlite False [OpBegin ''DEFERRED'', OpQuery ''SELECT 1'' [], OpCommit] (Some (new_transaction 2)) example_db = Some (s', w')
     \<and> scoped_destroy example_sqlite s' w' = Some w'' \<and> available (connectionPool w'') = [0, 1, 2]"
proof -
  have b: "\<not> tx_busy (new_transaction 2)" by (simp add: new_transaction_def)
  obtain s' w' where o: "scoped_ops example_sqlite False [OpBegin ''DEFERRED'', OpQuery ''SELECT 1'' [], OpCommit] (Some (new_transaction 2)) example_db = Some (s', w')"
      "threads w' = threads example_db"
    using example_ops_end [OF b] by blast
  have "job_started example_sqlite w' \<noteq> None"
    by (rule job_started_alone) (simp_all add: pool_accepts_def o(2) example_db_def new_thread_pool_def example_sqlite_def)
  from scoped_connection_returned [OF b o(1) disjI2 [OF this]] obtain w'' where
      "scoped_destroy example_sqlite s' w' = Some w''" "connectionPool w'' = snd (async_release 2 (connectionPool example_db))"
    by (auto simp: example_sqlite_def new_transaction_def)
  then show ?thesis using o(1) by (auto simp: example_db_def new_async_pool_def async_release_def)
qed

text \<open>C6. For every script of partial moves, refusals and errors of both splices. What reached the socket is a prefix of the slice: all of it on
  success, strictly less on an error, so that a slice which reaches past the end of the file is never reported as sent. The pipe goes back to the pool exactly when everything was sent, and then nothing is left in it; otherwise it is closed, so that bytes of
  one response cannot end up in another. \<open>pipes_ok\<close> is the invariant of the pool: the pipes that exist are those in use and the free ones, within the limit.\<close>

theorem file_spliced_in_order:
  assumes "sendFileSplice buffer file evs offset cnt (Some q) (p, ex) = Some (r, spliced, pe')" "pipes_ok (Suc used) p"
  shows "spliced = take (length spliced) (drop offset file) \<and> pipes_ok used (fst pe')
    \<and> (case r of Inr n \<Rightarrow> n = cnt \<and> length spliced = cnt \<and> freePipes (fst pe') = freePipes p @ [q]
         | Inl e \<Rightarrow> length spliced < cnt \<and> freePipes (fst pe') = freePipes p)"
  using sendFileSplice_sends [OF assms] sendFileSplice_pipe [OF assms(1)] by (auto split: sum.splits)

theorem file_spliced_in_order_witness:
  "\<exists>r spliced pe'. sendFileSplice 4 ''abcdefgh'' [SpliceMove 3, SpliceAgain, SpliceMove 2, SpliceMove 1, SpliceMove 9, SpliceMove 9] 1 5 (Some \<lparr>pipe_in = 4, pipe_out = 5\<rparr>)
       (new_pipe_pool\<lparr>created := 1\<rparr>, new_executor 0) = Some (r, spliced, pe')
     \<and> spliced = take (length spliced) (drop 1 ''abcdefgh'') \<and> pipes_ok 0 (fst pe')
     \<and> (case r of Inr n \<Rightarrow> n = 5 \<and> length spliced = 5 \<and> freePipes (fst pe') = [\<lparr>pipe_in = 4, pipe_out = 5\<rparr>]
          | Inl e \<Rightarrow> length spliced < 5 \<and> freePipes (fst pe') = [])"
proof -
  have ok: "pipes_ok (Suc 0) (new_pipe_pool\<lparr>created := 1\<rparr>)" by (simp add: pipes_ok_def new_pipe_pool_def sz_limit_def)
  obtain y where y: "sendFileSplice 4 ''abcdefgh'' [SpliceMove 3, SpliceAgain, SpliceMove 2, SpliceMove 1, SpliceMove 9, SpliceMove 9] 1 5 (Some \<lparr>pipe_in = 4, pipe_out = 5\<rparr>)
       (new_pipe_pool\<lparr>created := 1\<rparr>, new_executor 0) = Some y"
    by (simp add: sendFileSplice_def splice_loop.simps empty_pipe.simps Let_def)
  obtain r spliced pe' where y2: "y = (r, spliced, pe')" by (cases y)
  have fresh: "freePipes (new_pipe_pool\<lparr>created := 1\<rparr>) = []" by (simp add: new_pipe_pool_def)
  show ?thesis
    by (intro exI [of _ r] exI [of _ spliced] exI [of _ pe'])
      (use file_spliced_in_order [OF y [unfolded y2] ok] y [unfolded y2] fresh in \<open>cases r; simp\<close>)
qed

text \<open>C7. No coroutine is lost. \<open>held\<close> is the multiset of the handles that an executor has: ready, waiting for an event or a deadline, in a file or splice operation, or
  posted by a thread. The completions keep it, and a turn of the loop, apart from the coroutines it resumes, keeps it up to null handles, for every list of completions and events, every time and
  every room in the ring. The null handles come from keys of the bucket that no longer wait, since a bucket is never cleared; a bucket that is visited for the first time (\<open>first_visit\<close>) adds none.\<close>

theorem turn_conserves_coroutines:
  assumes "executor_ok ex"
  shows "executor_ok (drainCompletions cs ex) \<and> held (drainCompletions cs ex) = held ex
    \<and> executor_ok (after_resumes t ex)
    \<and> (\<exists>n \<le> length (bucket_of ex). held (after_resumes t ex) = held ex + replicate_mset n null_handle)
    \<and> (first_visit t ex \<longrightarrow> held (after_resumes t ex) = held ex)"
  using turn_conserves [OF assms] conservesD [OF drain_conserves assms] by simp

theorem turn_conserves_coroutines_witness:
  "let ex = waitForRead 3 7 100 (wakeMeIn 0 8 (new_executor 4));
       t = \<lparr>turn_shutdown = False, turn_start = 0, completions = [], turn_events = [\<lparr>ev_fd = 3, isError = False, readReady = True, writeReady = False\<rparr>],
         turn_now = 50, ring_room = 8\<rparr> in
   executor_ok (drainCompletions [(0, 5)] ex) \<and> held (drainCompletions [(0, 5)] ex) = held ex
    \<and> executor_ok (after_resumes t ex) \<and> held (after_resumes t ex) = held ex"
proof -
  let ?ex = "waitForRead 3 7 100 (wakeMeIn 0 8 (new_executor 4))"
  let ?t = "\<lparr>turn_shutdown = False, turn_start = 0, completions = [], turn_events = [\<lparr>ev_fd = 3, isError = False, readReady = True, writeReady = False\<rparr>],
         turn_now = 50, ring_room = 8\<rparr>"
  note defs = executor_ok_def first_visit_def bucket_of_def op_ids_def waitForRead_def suspend_until_def wakeMeIn_def take_seq_def take_key_def
       new_executor_def registerReadFd_def epoll_add_def narrow_def MAX_WAKEUP_TURN_def sz_add_def sz_limit_def Let_def
  have "executor_ok ?ex" "first_visit ?t ?ex" by (simp_all add: defs nth_list_update)
  then show ?thesis using turn_conserves_coroutines [of ?ex "[(0, 5)]" ?t] unfolding Let_def by blast
qed

text \<open>C8. The handshake of \<open>PoolJob\<close> and \<open>PoolJobAwaitable\<close>. \<open>r\<close> is what the callable returns or throws, \<open>h\<close> the coroutine. In every state that the interleaved accesses
  of the two sides reach, \<open>h\<close> has been posted at most once, and only if it suspended; once it goes on, \<open>await_resume\<close> gives exactly \<open>r\<close>; after the worker's last access a suspended
  coroutine has been posted (no wake-up is lost); there is always a next step until both are done, and each step uses up fuel, so both get there.\<close>

theorem job_caller_resumed_once:
  assumes "job_reachable r h s"
  shows "posts s = (if wpc s = WEnd \<and> suspended s then [h] else [])
    \<and> (apc s = AResumed \<longrightarrow> job_await_resume (job s) = Some r)
    \<and> (wpc s = WEnd \<and> apc s = AResumed \<or> (\<exists>s'. job_step r h s s'))
    \<and> (\<forall>s'. job_step r h s s' \<longrightarrow> job_fuel s' < job_fuel s)"
proof (intro conjI allI impI)
  have inv: "job_inv r h s" by (rule job_invariant [OF assms])
  then show "posts s = (if wpc s = WEnd \<and> suspended s then [h] else [])" by (simp add: job_inv_def)
  show "job_await_resume (job s) = Some r" if "apc s = AResumed"
    using inv that by (auto simp: job_inv_def)
  show "wpc s = WEnd \<and> apc s = AResumed \<or> (\<exists>s'. job_step r h s s')" using job_progress [OF assms] by blast
  show "job_fuel s' < job_fuel s" if "job_step r h s s'" for s' by (rule job_step_fuel [OF that])
qed

theorem job_caller_resumed_once_witness:
  "\<exists>s. job_reachable (Inr (5 :: nat)) 7 s \<and> suspended s \<and> wpc s = WEnd \<and> posts s = [7] \<and> apc s \<noteq> AResumed"
proof -
  let ?r = "Inr 5 :: nat result"
  note n = job_next [where r = ?r and h = 7]
  have 1: "job_reachable ?r 7 (submitted\<lparr>apc := ASetCaller\<rparr>)"
    by (rule n [OF job_start a_not_ready]) (simp_all add: submitted_def job_await_ready_def new_job_state_def)
  from n [OF this a_set_caller] obtain s2 where 2: "job_reachable ?r 7 s2" "s2 = submitted\<lparr>apc := AExchange, job := set_caller 7 (job submitted)\<rparr>"
    by (simp add: submitted_def)
  have "apc s2 = AExchange" "wpc s2 = WCall" using 2(2) by (simp_all add: submitted_def)
  then obtain s3 where 3: "job_reachable ?r 7 s3" "apc s3 = ASuspended" "wpc s3 = WCall" "suspended s3"
    using n [OF 2(1) a_exchange] by (cases "awaiter_exchange 7 (job s2, posts s2)") fastforce
  then obtain s4 where 4: "job_reachable ?r 7 s4" "apc s4 = ASuspended" "wpc s4 = WDone" "suspended s4"
    using n [OF 3(1) w_call] by fastforce
  then obtain s5 where 5: "job_reachable ?r 7 s5" "apc s5 = ASuspended" "wpc s5 = WExchange" "suspended s5"
    using n [OF 4(1) w_done] by fastforce
  then obtain s6 where 6: "job_reachable ?r 7 s6" "apc s6 = ASuspended" "wpc s6 = WEnd" "suspended s6"
    using n [OF 5(1) w_exchange] by (cases "worker_exchange (job s5, posts s5)") fastforce
  then have "posts s6 = [7]" using job_caller_resumed_once [OF 6(1)] by simp
  then show ?thesis using 6 by auto
qed

text \<open>C9. A client that dribbles its header cannot hold a connection: the deadlines of the connection and the sweep of the executor together. \<open>ts\<close> are the times at which reads brought bytes,
  \<open>i\<close> counts the reads of the header, which began at \<open>t0\<close>; \<open>h\<close> is the coroutine, which waits on the descriptor \<open>fd\<close>.\<close>

theorem slow_header_cut:
  assumes "i \<le> length ts" "sorted (map dl_time (taskDeadlines ex))"
    and "t0 + int (FORMATION_TIMEOUT_S cfg) \<le> timeNow \<or> 0 < i \<and> ts ! (i - 1) + int (INACTIVITY_TIMEOUT_S cfg) \<le> timeNow"
  shows "\<exists>dl. header_deadlines cfg t0 d ts ! i = Some dl
    \<and> (h, True) \<in> set (readyQueue (sweep_deadlines timeNow (EventLoop.waitForRead fd h dl ex)))"
proof -
  obtain dl where dl: "header_deadlines cfg t0 d ts ! i = Some dl" "dl \<le> t0 + int (FORMATION_TIMEOUT_S cfg)"
      "0 < i \<longrightarrow> dl \<le> ts ! (i - 1) + int (INACTIVITY_TIMEOUT_S cfg)"
    using header_bounded [OF assms(1)] by blast
  have "dl \<le> timeNow" using dl(2,3) assms(3) by linarith
  then show ?thesis using read_wait_expires [OF assms(2)] dl(1) by blast
qed

theorem slow_header_cut_witness:
  "\<exists>dl. header_deadlines default_config 0 new_deadlines [19, 38, 57, 76, 95, 114] ! 6 = Some dl
    \<and> (7, True) \<in> set (readyQueue (sweep_deadlines 120 (EventLoop.waitForRead 9 7 dl (new_executor 3))))"
  by (rule slow_header_cut) (simp_all add: new_executor_def registerReadFd_def epoll_add_def default_config_def)

text \<open>C10. Safety against request smuggling. The choice of the framing always returns. If it accepts a request, then either the
  body is chunked and there is no content length, or there is no transfer-encoding and the content length is a number within
  the limit which the body stream is bounded by, or there is neither header and no body; the buffers are untouched.\<close>

theorem one_framing_accepted:
  "\<exists>r c'. body_choice cfg c = Some (r, c') \<and> (r = Go () \<longrightarrow> conn_io_of c' = conn_io_of c \<and>
    (case w_kind (conn_world c') of
      ChunkedBody \<Rightarrow> getHeaderLower (request c) ''content-length'' = [] \<and> icontains (getHeaderLower (request c) ''transfer-encoding'') ''chunked''
        \<and> bodyStream (request c') = Some (new_body_stream 0)
    | SizedBody \<Rightarrow> getHeaderLower (request c) ''transfer-encoding'' = [] \<and>
        (\<exists>n \<le> MAX_CONTENT_LENGTH cfg. fst (getContentLength (request c)) = Inr n \<and> bodyStream (request c') = Some (new_body_stream n))
    | NoBody \<Rightarrow> getHeaderLower (request c) ''transfer-encoding'' = [] \<and> getHeaderLower (request c) ''content-length'' = []
        \<and> bodyStream (request c') = Some (new_body_stream 0)))"
proof -
  obtain r c' where b: "body_choice cfg c = Some (r, c')" using body_choice_returns by fastforce
  then show ?thesis using body_choice_Go [of cfg c c'] by (cases "r = Go ()") auto
qed

theorem one_framing_accepted_witness:
  "\<exists>r c'. body_choice default_config (example_connection []) = Some (r, c') \<and> (r = Go () \<longrightarrow>
    conn_io_of c' = conn_io_of (example_connection []) \<and>
    (case w_kind (conn_world c') of
      ChunkedBody \<Rightarrow> getHeaderLower (request (example_connection [])) ''content-length'' = []
        \<and> icontains (getHeaderLower (request (example_connection [])) ''transfer-encoding'') ''chunked''
        \<and> bodyStream (request c') = Some (new_body_stream 0)
    | SizedBody \<Rightarrow> getHeaderLower (request (example_connection [])) ''transfer-encoding'' = [] \<and>
        (\<exists>n \<le> MAX_CONTENT_LENGTH default_config. fst (getContentLength (request (example_connection []))) = Inr n
          \<and> bodyStream (request c') = Some (new_body_stream n))
    | NoBody \<Rightarrow> getHeaderLower (request (example_connection [])) ''transfer-encoding'' = []
        \<and> getHeaderLower (request (example_connection [])) ''content-length'' = []
        \<and> bodyStream (request c') = Some (new_body_stream 0)))"
  by (rule one_framing_accepted)

text \<open>C11. Route lookup against a declarative specification. A node is found whenever the segments of some path in the tree
  match the request (literals, parameters, one-segment wildcards, deep wildcards), and the node found is at the matching path that
  is first in the lexicographic order literal, parameter, wildcard, deep wildcard (\<open>best\<close>). The nodes of the tree are those of the registered
  patterns and those on the way to them (C23). The entry of a route is found exactly when the best node has handlers; a best node without
  handlers hides every less preferred pattern.\<close>

theorem best_route_matched:
  "(case backtrack (pathTreeRoot t) parts of
     None \<Rightarrow> \<not> (\<exists>segs n. seg_match segs parts \<and> node_at (pathTreeRoot t) segs = Some n)
   | Some n \<Rightarrow> \<exists>segs. seg_match segs parts \<and> node_at (pathTreeRoot t) segs = Some n \<and>
       (\<forall>segs' n'. seg_match segs' parts \<and> node_at (pathTreeRoot t) segs' = Some n' \<longrightarrow> preferred segs segs'))
   \<and> (\<forall>n. findMatchingRouteEntry t parts = Some n \<longleftrightarrow> (\<exists>segs. best (pathTreeRoot t) parts segs n) \<and> requestHandlers n \<noteq> [])"
proof (cases "backtrack (pathTreeRoot t) parts")
  case None
  have "\<not> (\<exists>segs n. seg_match segs parts \<and> node_at (pathTreeRoot t) segs = Some n)"
    using backtrack_complete [where node = "pathTreeRoot t" and parts = parts] None by blast
  then show ?thesis using None route_found_iff [of t parts] by simp
next
  case (Some n)
  obtain segs where b: "best (pathTreeRoot t) parts segs n" using backtrack_best [OF Some] by blast
  then show ?thesis unfolding Some option.case best_def
    by (intro conjI allI route_found_iff [unfolded best_def]) blast
qed

theorem best_route_matched_witness:
  "(case backtrack (pathTreeRoot example_table) [''hi''] of
     None \<Rightarrow> \<not> (\<exists>segs n. seg_match segs [''hi''] \<and> node_at (pathTreeRoot example_table) segs = Some n)
   | Some n \<Rightarrow> \<exists>segs. seg_match segs [''hi''] \<and> node_at (pathTreeRoot example_table) segs = Some n \<and>
       (\<forall>segs' n'. seg_match segs' [''hi''] \<and> node_at (pathTreeRoot example_table) segs' = Some n' \<longrightarrow> preferred segs segs'))
   \<and> (\<forall>n. findMatchingRouteEntry example_table [''hi''] = Some n
      \<longleftrightarrow> (\<exists>segs. best (pathTreeRoot example_table) [''hi''] segs n) \<and> requestHandlers n \<noteq> [])"
  by (rule best_route_matched)

text \<open>C12. \<open>hs\<close>, \<open>etag0\<close> and \<open>cc0\<close> are of the earlier response, which said \<open>t\<close> as the time of the last write; \<open>lastWrite\<close> is the one now. The request has no
  \<open>Range\<close>, and no \<open>If-None-Match\<close> or one that does not match; neither \<open>cc0\<close> nor \<open>cc\<close> is \<open>no-store\<close>. Times are whole seconds, and the entity tag plays no part: a file that
  was replaced within the second of the earlier response is taken for unchanged.\<close>

theorem revalidation_exact:
  assumes "se_parse_date env = parseHttpDate" "0 \<le> t" "t < 253402300800"
    and "find_sub ''no-store'' cc = None" "find_sub ''no-store'' cc0 = None" "getHeaderLower req ''range'' = []"
    and "getHeaderLower req ''if-none-match'' = [] \<or> \<not> etagMatches (getHeaderLower req ''if-none-match'') etag"
    and "getHeaderLower req ''if-modified-since'' = hs_getHeaderLower (addCacheHeaders etag0 t cc0 hs) ''last-modified''"
  shows "parseHttpDate (toHttpDate t) = Some t
    \<and> conditional env req etag lastWrite cc = (if lastWrite \<le> t then Some (not_modified etag lastWrite cc) else None)"
  using date_read_back [OF assms(2,3)] conditional_since [OF assms(1,4,6,7) _ assms(2,3)] assms(8) last_modified_sent [OF assms(5)] by simp

theorem revalidation_exact_witness:
  "conditional example_static (empty_request\<lparr>req_headers := [(''if-modified-since'', ''Tue, 29 Feb 2000 12:34:56 GMT'')]\<rparr>) ''x'' 951827697 ''max-age=5'' = None"
proof -
  have d: "toHttpDate 951827696 = ''Tue, 29 Feb 2000 12:34:56 GMT''" by (rule http_leap_day)
  have s: "hs_getHeaderLower (addCacheHeaders ''x'' 951827696 ''max-age=5'' []) ''last-modified'' = ''Tue, 29 Feb 2000 12:34:56 GMT''"
    using last_modified_sent [of "''max-age=5''" "''x''" 951827696 "[]"] d by (simp add: prefix_def)
  show ?thesis
    using revalidation_exact [of example_static 951827696 "''max-age=5''" "''max-age=5''" "empty_request\<lparr>req_headers := [(''if-modified-since'', ''Tue, 29 Feb 2000 12:34:56 GMT'')]\<rparr>"
        "''x''" "''x''" "[]" 951827697] s
    by (simp add: example_static_def getHeaderLower_def getLastOrDefault_def)
qed

text \<open>C13. From an object to SQLite and back: binding of parameters, reading of columns, the map of column names and the hydration of models together. \<open>echo\<close> is what SQLite gives back for a value that was
  written to a column of some affinity; only its documented behaviour is used (\<open>echoes\<close>): values whose kind is that of the column keep kind and value, and a \<open>double\<close> that is not a number is
  stored as a null. \<open>declared\<close> are the affinities of the columns. \<open>kept_field\<close> excludes \<open>bool\<close>, text with a zero byte, NaN and minus zero, and empty blobs whose pointer is null, which do not come
  back; \<open>storable\<close> excludes unsigned values from \<open>2 ^ 63\<close> on. \<open>rs\<close> are the rows that follow.\<close>

theorem object_through_sqlite:
  assumes "echoes echo" "distinct (map dbName (columns m))"
    and "\<forall>c \<in> set (columns m). declared (dbName c) = affinity_of (field_type c)
      \<and> storable (field_type c) (field_optional c) (obj_field obj (fieldPtr c)) \<and> kept_field null_data (obj_field obj (fieldPtr c))"
  shows "\<exists>obj'. hydrateModelRow m (result_row (columns_of (stored_row echo declared null_data m obj # rs)) (stored_row echo declared null_data m obj)) = ok obj'
    \<and> persisted obj' \<and> (\<forall>p. obj_field obj' p = (if p \<in> fieldPtr ` set (columns m) then obj_field obj p else blank m p))"
  by (rule hydrate_holds [OF stored_row_holds [OF assms]]) simp

theorem object_through_sqlite_witness:
  "let r = stored_row example_echo example_declared True example_model (example_user 7 ''ann'') in
   \<exists>obj'. hydrateModelRow example_model (result_row (columns_of [r]) r) = ok obj'
    \<and> persisted obj' \<and> (\<forall>p. obj_field obj' p = (if p \<in> fieldPtr ` set (columns example_model) then obj_field (example_user 7 ''ann'') p else blank example_model p))"
  unfolding Let_def
proof (rule object_through_sqlite)
  show "echoes example_echo" by (auto simp: echoes_def example_echo_def)
qed (simp_all add: example_model_def new_column_def example_user_def in_range_def example_declared_def)



text \<open>C15. The thread pool. In every reachable state of a pool with \<open>n\<close> threads the jobs that were taken, followed by the queue, are the accepted jobs in their order, the queue is
  within its bound, and what was taken has ended or is running. When all threads have ended, all accepted jobs, also those that running jobs submit during shutdown, have run, each once.\<close>

theorem accepted_jobs_run:
  assumes "pool_reachable n maxQueue s" "0 < n"
  shows "begun s @ jobQueue (pool s) = accepted s \<and> length (jobQueue (pool s)) \<le> maxQueue
    \<and> mset (begun s) = mset (ended s) + running_jobs s
    \<and> (set (workers s) = {Exited} \<longrightarrow> begun s = accepted s \<and> mset (ended s) = mset (accepted s))"
proof (intro conjI impI)
  have inv: "pool_inv n maxQueue s" by (rule pool_invariant [OF assms(1)])
  then show "begun s @ jobQueue (pool s) = accepted s" "length (jobQueue (pool s)) \<le> maxQueue"
    "mset (begun s) = mset (ended s) + running_jobs s" unfolding pool_inv_def by blast+
  assume "set (workers s) = {Exited}"
  then show "begun s = accepted s" "mset (ended s) = mset (accepted s)" using joined_all_run [OF assms] by blast+
qed

theorem accepted_jobs_run_witness:
  "\<exists>s. pool_reachable 1 4 (s :: nat pool_system) \<and> accepted s = [9] \<and> begun s @ jobQueue (pool s) = accepted s"
proof -
  let ?s = "new_pool_system 1 4 :: nat pool_system"
  have "pool_step ?s (?s\<lparr>pool := (pool ?s)\<lparr>jobQueue := [9]\<rparr>, accepted := accepted ?s @ [9]\<rparr>)"
    by (rule enqueue_accepted) (simp_all add: new_pool_system_def setMaxQueueSize_def new_thread_pool_def pool_enqueue_def)
  then have r: "pool_reachable 1 4 (?s\<lparr>pool := (pool ?s)\<lparr>jobQueue := [9]\<rparr>, accepted := accepted ?s @ [9]\<rparr>)" (is "pool_reachable 1 4 ?t")
    by (rule step [OF start])
  moreover have "accepted ?t = [9]" by (simp add: new_pool_system_def)
  moreover have "begun ?t @ jobQueue (pool ?t) = accepted ?t" using accepted_jobs_run [OF r] by simp
  ultimately show ?thesis by blast
qed

text \<open>C16. Conditions with placeholders. \<open>filled p\<close> describes the condition with every value in its place. Rendering a predicate never fails,
  appends the parameters to those already there, and the database, which takes the parameters in order, reads exactly \<open>filled p\<close>.
  Predicates are \<open>bindable\<close>: names have no question mark, text given by the caller or made from a query has one per value, and comparisons have their values. A \<open>BETWEEN\<close> of
  fields is not, and throws (\<open>between_fields_fails\<close>); nor is a subquery whose query has placeholders in excess (C40).\<close>

theorem conditions_bound_in_order:
  assumes "bindable p"
  shows "\<exists>s vs. (\<forall>out. resolvePredicates p out = ok (s, out @ vs)) \<and> bind_params s vs = Some (filled p)"
  by (rule resolve_binds [OF assms])

theorem conditions_bound_in_order_witness:
  "let p = pred_and (pred_column ''a.name'' IN [DbText ''x'', DbText ''y'']) (pred_or (pred_column ''a.age'' GREATER [DbInt 18]) (pred_bool False)) in
   \<exists>s vs. (\<forall>out. resolvePredicates p out = ok (s, out @ vs)) \<and> bind_params s vs = Some (filled p)"
  unfolding Let_def
  by (rule conditions_bound_in_order) (simp add: pred_and_def pred_or_def pred_column_def pred_bool_def pred_type_def)

text \<open>C17. Type invariant of a request, for arbitrary input \<open>h\<close>: if the parser accepts, header names are in lower case and the
  singleton headers (host, content-length, transfer-encoding and so on) occur at most once, the path has no double, leading
  or trailing slash, and its segments are not empty, contain no slash and join to the path.\<close>

theorem parsed_request_well_formed:
  assumes "parseRequestHeader h r0 = (True, r)" "fresh_request r0"
  shows "headers_ok r \<and> normal_path (req_path r) \<and> str_join ''/'' (pathParts r) = req_path r
    \<and> (\<forall>s \<in> set (pathParts r). s \<noteq> [] \<and> CHR ''/'' \<notin> set s)"
  using parseRequestHeader_ok [OF assms] .

theorem parsed_request_well_formed_witness:
  "let r = snd (parseRequestHeader (''GET //a//b/ HTTP/1.1'' @ crlf @ ''Host: x'' @ crlf @ ''host: y'') empty_request) in
   headers_ok r \<and> normal_path (req_path r) \<and> str_join ''/'' (pathParts r) = req_path r
    \<and> (\<forall>s \<in> set (pathParts r). s \<noteq> [] \<and> CHR ''/'' \<notin> set s)"
proof -
  have "fst (parseRequestHeader (''GET //a//b/ HTTP/1.1'' @ crlf @ ''Host: x'' @ crlf @ ''host: y'') empty_request) = True"
    by code_simp
  then show ?thesis unfolding Let_def
    by (intro parsed_request_well_formed [of _ empty_request]) (simp_all add: prod_eq_iff)
qed

text \<open>C18. Termination and safety of the header loop for every behaviour of the socket (data in pieces, pauses, timeouts, end,
  error): it returns; and if it goes on with a position, the first empty line in the buffer is there, nothing was written, and the
  input is the old one without some leading line ends.\<close>

theorem header_wait_ends:
  assumes "0 < SINGLE_READ_BYTES cfg" "io_ok io"
  shows "\<exists>r io'. header_loop cfg io = Some (r, io') \<and> (\<forall>i. r = Go i \<longrightarrow>
    find_sub crlf2 (readView io') = Some i \<and> sent io' = sent io \<and> writeView io' = writeView io
    \<and> (\<exists>n. input io = concat (replicate n crlf) @ input io'))"
proof -
  obtain r io' where "header_loop cfg io = Some (r, io')" using header_loop_total [OF assms(1)] by fastforce
  then show ?thesis using header_loop_Go [OF _ assms(2)] by (auto simp: header_found_def)
qed

theorem header_wait_ends_witness:
  "\<exists>r io'. header_loop default_config example_io = Some (r, io') \<and> (\<forall>i. r = Go i \<longrightarrow>
    find_sub crlf2 (readView io') = Some i \<and> sent io' = sent example_io \<and> writeView io' = writeView example_io
    \<and> (\<exists>n. input example_io = concat (replicate n crlf) @ input io'))"
  by (rule header_wait_ends) (simp_all add: default_config_def KB_def io_ok_def example_io_def)

text \<open>C19. Decoding of encoded chunks through the body stream. The peer sends the chunks \<open>bs\<close> and the last chunk, in any pieces.
  \<open>readAll\<close> returns: either with the concatenation of the chunks and its length, or with an error having read a prefix of it.\<close>

theorem chunked_body_read_whole:
  assumes "\<forall>b \<in> set bs. b \<noteq> [] \<and> length b \<le> MAX_TE_CHUNK_LENGTH cfg" "length (concat bs) \<le> MAX_TE_LENGTH cfg"
    and "MAX_TE_LENGTH cfg < sz_limit" "0 < SINGLE_READ_BYTES cfg" "io_ok (env_io env)" "env_decoder env = init_decoder" "0 < limit"
    and "input (env_io env) = concat (map encode_chunk bs) @ encode_chunk [] @ rest"
  shows "\<exists>r buf b' env'. readAll (chunkReadFn cfg) limit [] (new_body_stream 0) env = Some (r, buf, b', env') \<and>
    (case r of Inr k \<Rightarrow> buf = concat bs \<and> k = length buf
     | Inl e \<Rightarrow> prefix buf (concat bs))"
proof -
  have body: "chunk_body cfg 0 env = concat bs"
    using decode_size_encoded [of bs cfg 0 rest] assms(1-3,6,8) by (simp add: chunk_body_def decode_def init_decoder_def)
  then have good: "chunked.good cfg (new_body_stream 0) env"
    using assms(2-5) by (auto simp: chunked.good_def chunk_ready_def new_body_stream_def intro!: exI [of _ 0])
  obtain r buf b' env' where r: "readAll (chunkReadFn cfg) limit [] (new_body_stream 0) env = Some (r, buf, b', env')"
    using chunked.readAll_returns [OF good] by blast
  have "chunked.left cfg (new_body_stream 0) env = concat bs" "\<not> exhausted (new_body_stream 0)"
    using body by (simp_all add: chunked.left_def new_body_stream_def)
  then show ?thesis using chunked.readAll_delivers [OF r good] r assms(7) by (cases r) auto
qed

theorem chunked_body_read_whole_witness:
  "\<exists>r buf b' env'. readAll (chunkReadFn default_config) 100 [] (new_body_stream 0) example_env = Some (r, buf, b', env') \<and>
    (case r of Inr k \<Rightarrow> buf = concat [''abc''] \<and> k = length buf
     | Inl e \<Rightarrow> prefix buf (concat [''abc'']))"
proof (rule chunked_body_read_whole [where rest = "[]"])
  have e: "encode_chunk ''abc'' = ''3'' @ crlf @ ''abc'' @ crlf" "encode_chunk [] = ''0'' @ crlf @ crlf"
    by code_simp+
  show "input (env_io example_env) = concat (map encode_chunk [''abc'']) @ encode_chunk [] @ []"
    by (simp add: e input_def example_env_def example_io_def readView_def)
qed (simp_all add: default_config_def KB_def MB_def io_ok_def example_env_def example_io_def init_decoder_def sz_limit_def)

text \<open>C20. Streaming responses. The generator yields the non-empty chunks \<open>bs\<close>, within the limits of the decoder, and ends.
  \<open>send_stream\<close> returns, and if it succeeds, then the header and some bytes \<open>body\<close> have left, after everything that was
  pending. If the response is chunked, then decoding \<open>body\<close> gives exactly the chunks, whatever bytes follow; after
  \<open>setChunked(false)\<close> the body is the bare concatenation. (An empty chunk would be read as the end of the body.)\<close>

theorem streamed_chunks_decode_back:
  assumes "yields (srv_next_chunk srv) (nextChunkFn res) bs" "io_ok (conn_io_of c)" "cookies_ok (st_cookies res)"
    and "\<forall>b \<in> set bs. b \<noteq> [] \<and> length b \<le> MAX_TE_CHUNK_LENGTH cfg" "length (concat bs) \<le> MAX_TE_LENGTH cfg"
    "MAX_TE_LENGTH cfg < sz_limit"
  shows "\<exists>r c'. send_stream srv res c = Some (r, c') \<and> (r = Go () \<longrightarrow> (\<exists>body.
    sent (conn_io_of c') = outgoing c
      @ concat (head_pieces (srv_cfg srv) (date_now srv c) (st_statusCode res) (st_headers res) (st_cookies res)) @ body
    \<and> (if isChunked res then \<forall>rest. decode cfg init_decoder (body @ rest) = (concat bs, Trailer (crlf @ rest))
       else body = concat bs)))"
proof -
  obtain r c' where s: "send_stream srv res c = Some (r, c')" and
    w: "r = Go () \<longrightarrow> sent (conn_io_of c') = outgoing c @ stream_head srv res c
      @ concat (map (block (isChunked res)) bs) @ block (isChunked res) []"
    using send_stream_wrote [OF assms(1-3)] by blast
  have bare: "concat (map (block False) bs) @ block False [] = concat bs" by (simp add: block_def [abs_def])
  show ?thesis
    by (intro exI [of _ r] exI [of _ c'] conjI impI exI [of _ "concat (map (block (isChunked res)) bs) @ block (isChunked res) []"])
      (use s w bare stream_body_decodes [OF assms(4-6)] in \<open>simp_all add: stream_head_def\<close>)
qed

theorem streamed_chunks_decode_back_witness:
  "\<exists>r c'. send_stream example_stream_server (new_stream_response 200 0) (example_connection []) = Some (r, c') \<and> (r = Go () \<longrightarrow> (\<exists>body.
    sent (conn_io_of c') = outgoing (example_connection [])
      @ concat (head_pieces (srv_cfg example_stream_server) (date_now example_stream_server (example_connection []))
          (st_statusCode (new_stream_response 200 (0 :: nat))) (st_headers (new_stream_response 200 (0 :: nat)))
          (st_cookies (new_stream_response 200 (0 :: nat)))) @ body
    \<and> (if isChunked (new_stream_response 200 (0 :: nat))
       then \<forall>rest. decode default_config init_decoder (body @ rest) = (concat [''Hello'', ''World''], Trailer (crlf @ rest))
       else body = concat [''Hello'', ''World''])))"
  by (rule streamed_chunks_decode_back)
    (use example_stream_yields in \<open>simp_all add: example_connection_def conn_io_of_def io_ok_def new_stream_response_def
      cookies_ok_def default_config_def MB_def KB_def sz_limit_def\<close>)

text \<open>C21. Memory safety of the response serialiser. The size it computes before it copies is the number of bytes that it copies
  (\<open>None\<close>, a copy outside the buffer or a wrong end, is not reached), for every response whose cookies have expiry dates in
  the range of the calendar; above the limit of the write buffer it returns \<open>False\<close> and leaves the buffer as it was.\<close>

theorem response_size_announced_exactly:
  assumes "cookies_ok (resp_cookies r)"
  shows "\<exists>bs. serializeInto cfg date r buf =
      (if length buf + length bs > MAX_WRITE_BUFFER_BYTES cfg then Some (False, buf) else Some (True, buf @ bs))
    \<and> prefix (getStatusLine (statusCode r)) bs \<and> suffix (if statusCode r \<in> set noBody then crlf else crlf @ resp_body r) bs"
proof (intro exI conjI)
  show "prefix (getStatusLine (statusCode r)) (response_bytes cfg date r)"
    by (simp add: response_bytes_def head_pieces_def Let_def prefix_def)
  show "suffix (if statusCode r \<in> set noBody then crlf else crlf @ resp_body r) (response_bytes cfg date r)"
    by (simp add: response_bytes_def head_pieces_def Let_def suffix_def)
qed (rule serializeInto_exact [OF assms])

theorem response_size_announced_exactly_witness:
  "\<exists>bs. serializeInto default_config ''now'' ((new_response_body 200 ''ok'')\<lparr>resp_cookies := [new_cookie ''a'' ''b'']\<rparr>) ''x'' =
      (if length ''x'' + length bs > MAX_WRITE_BUFFER_BYTES default_config then Some (False, ''x'') else Some (True, ''x'' @ bs))
    \<and> prefix (getStatusLine (statusCode ((new_response_body 200 ''ok'')\<lparr>resp_cookies := [new_cookie ''a'' ''b'']\<rparr>))) bs
    \<and> suffix (if statusCode ((new_response_body 200 ''ok'')\<lparr>resp_cookies := [new_cookie ''a'' ''b'']\<rparr>) \<in> set noBody then crlf
        else crlf @ resp_body ((new_response_body 200 ''ok'')\<lparr>resp_cookies := [new_cookie ''a'' ''b'']\<rparr>)) bs"
  by (rule response_size_announced_exactly) (simp add: cookies_ok_def new_cookie_def)

text \<open>C22. Range requests. For every list of ranges, every file size and every sorting function that sorts by the first
  component, an accepted list is a sequence of disjoint, not even adjacent, intervals in increasing order, each inside the
  file, that together hold exactly the bytes that the client asked for.\<close>

theorem ranges_cleaned_exactly:
  assumes "sorts_by (\<lambda>a b. fst a < fst b) srt" "fs < sz_limit" "validateAndCleanRanges srt junk rs fs = Some out"
  shows "(\<Union>(s, e) \<in> set out. {s..e}) = (\<Union>r \<in> set rs. requested fs r)
    \<and> sorted_wrt (\<lambda>a b. snd a + 1 < fst b) out \<and> (\<forall>(s, e) \<in> set out. s \<le> e \<and> e < fs)"
  using validate_Some [OF assms] by (simp add: bytes_of_def)

theorem ranges_cleaned_exactly_witness:
  "let out = the (validateAndCleanRanges (sort_key fst) 0 [(Some 5, Some 7), (Some 0, Some 4), (None, Some 2)] 20) in
   (\<Union>(s, e) \<in> set out. {s..e}) = (\<Union>r \<in> set [(Some 5, Some 7), (Some 0, Some 4), (None, Some 2)]. requested 20 r)
    \<and> sorted_wrt (\<lambda>a b. snd a + 1 < fst b) out \<and> (\<forall>(s, e) \<in> set out. s \<le> e \<and> e < 20)"
proof -
  have "\<not> (\<exists>r \<in> set [(Some 5, Some 7), (Some 0, Some 4), (None, Some 2)]. requested 20 r = {})"
    by (simp add: requested_def interval_empty)
  then obtain out where v: "validateAndCleanRanges (sort_key fst) 0 [(Some 5, Some 7), (Some 0, Some 4), (None, Some 2)] 20 = Some out"
    using validate_None [of 20 "sort_key fst" 0 "[(Some 5, Some 7), (Some 0, Some 4), (None, Some 2)]"]
    by (cases "validateAndCleanRanges (sort_key fst) 0 [(Some 5, Some 7), (Some 0, Some 4), (None, Some 2)] 20") (auto simp: sz_limit_def)
  show ?thesis unfolding v option.sel Let_def by (rule ranges_cleaned_exactly [OF sort_key_sorts_by _ v]) (simp add: sz_limit_def)
qed

text \<open>C23. Route registration. The exceptions of \<open>addRoute\<close> are characterised, and the handlers of the tree afterwards are those
  before and, on success, the new one. What a node says (\<open>node_data\<close>: its handlers, the pattern its parameters are named by, its text for
  \<open>Allow\<close>) changes at the node of the pattern only, which gets the new handler and the new pattern; the nodes of the tree are those
  before and, on success, those on the way to the pattern; the set of methods grows by the method on success only.\<close>

theorem registration_adds_one_route:
  assumes "addRoute pattern m h t = (e, t')" "own = map classify (str_split (normalizePath pattern) ''/'')"
  shows "(e = None \<longleftrightarrow> validatePattern (normalizePath pattern) (str_split (normalizePath pattern) ''/'') = None \<and>
      handler_at (pathTreeRoot t) own m = None)
    \<and> handler_at (pathTreeRoot t') segs m' =
      (if e = None \<and> segs = own \<and> m' = m then Some h else handler_at (pathTreeRoot t) segs m')
    \<and> node_data (pathTreeRoot t') segs =
      (if e = None \<and> segs = own
       then (case node_data (pathTreeRoot t) segs of (hs, pp, a) \<Rightarrow>
               (hs @ [(m, h)], str_split (normalizePath pattern) ''/'', extend_allowed a m))
       else node_data (pathTreeRoot t) segs)
    \<and> (node_at (pathTreeRoot t') segs \<noteq> None \<longleftrightarrow>
         node_at (pathTreeRoot t) segs \<noteq> None \<or> e = None \<and> (\<exists>more. own = segs @ more))
    \<and> set (registeredMethods t') = (if e = None then insert m (set (registeredMethods t)) else set (registeredMethods t))"
  using addRoute_effect [OF assms(1) refl, of segs m'] addRoute_frame [OF assms(1) refl, of segs] unfolding assms(2) by blast

theorem registration_adds_one_route_witness:
  "let (e, t') = addRoute ''/a/<name>'' ''POST'' 2 (snd (addRoute ''/a/<id>'' ''GET'' (1 :: nat) new_table)) in
   e = None \<and> handler_at (pathTreeRoot t') [Literal ''a'', Param] ''POST'' = Some 2
    \<and> handler_at (pathTreeRoot t') [Literal ''a'', Param] ''GET'' = Some 1
    \<and> node_data (pathTreeRoot t') [Literal ''a'', Param] = ([(''GET'', 1), (''POST'', 2)], [''a'', ''<name>''], ''GET, OPTIONS, HEAD, POST'')
    \<and> node_data (pathTreeRoot t') [Literal ''a''] = ([], [], [])"
proof -
  let ?t = "snd (addRoute ''/a/<id>'' ''GET'' (1 :: nat) new_table)"
  obtain e t' where p: "addRoute ''/a/<name>'' ''POST'' 2 ?t = (e, t')" by fastforce
  have own: "[Literal ''a'', Param] = map classify (str_split (normalizePath ''/a/<name>'') ''/'')"
    "str_split (normalizePath ''/a/<name>'') ''/'' = [''a'', ''<name>'']" by code_simp+
  have old: "node_data (pathTreeRoot ?t) [Literal ''a'', Param] = ([(''GET'', 1)], [''a'', ''<id>''], ''GET, OPTIONS, HEAD'')"
    "node_data (pathTreeRoot ?t) [Literal ''a''] = ([], [], [])" "handler_at (pathTreeRoot ?t) [Literal ''a'', Param] ''POST'' = None"
    "handler_at (pathTreeRoot ?t) [Literal ''a'', Param] ''GET'' = Some 1"
    "validatePattern (normalizePath ''/a/<name>'') [''a'', ''<name>''] = None" "extend_allowed ''GET, OPTIONS, HEAD'' ''POST'' = ''GET, OPTIONS, HEAD, POST''"
    by code_simp+
  have e: "e = None" using registration_adds_one_route [OF p own(1)] old(3,5) own(2) by simp
  show ?thesis
    using registration_adds_one_route [OF p own(1), of "[Literal ''a'', Param]" "''POST''"]
      registration_adds_one_route [OF p own(1), of "[Literal ''a'', Param]" "''GET''"]
      registration_adds_one_route [OF p own(1), of "[Literal ''a'']" "''GET''"] old own(2)
    by (simp only: p e Let_def prod.case) simp
qed

text \<open>C24. Invariant of the route tree: every node's \<open>allowedMethods\<close> is built from exactly its registered methods, which are
  distinct. It holds for the empty table and is kept by every registration. For methods that are non-empty and not \<open>HEAD\<close>, the text is the comma-separated
  \<open>allowed_list\<close> of the methods in the order of their registration: the first one, \<open>OPTIONS\<close>, the others, and \<open>HEAD\<close> with \<open>GET\<close> (\<open>GET, OPTIONS, HEAD\<close> when it came
  first). The list has exactly these elements, each once unless \<open>OPTIONS\<close> was registered (\<open>allowed_list_order\<close>).\<close>

theorem allow_header_invariant:
  "tree_ok (pathTreeRoot (new_table :: 'h route_table)) \<and>
   (tree_ok (pathTreeRoot (t :: 'h route_table)) \<longrightarrow> tree_ok (pathTreeRoot (snd (addRoute pattern m h t)))) \<and>
   (tree_ok (pathTreeRoot t) \<longrightarrow> node_at (pathTreeRoot t) segs = Some n \<longrightarrow> (\<forall>m \<in> fst ` set (requestHandlers n). m \<noteq> [] \<and> m \<noteq> ''HEAD'') \<longrightarrow>
      distinct (map fst (requestHandlers n)) \<and>
      allowedMethods n = str_join '', '' (allowed_list (map fst (requestHandlers n))) \<and>
      (''HEAD'' \<in> set (allowed_list (map fst (requestHandlers n))) \<longleftrightarrow> ''GET'' \<in> fst ` set (requestHandlers n)) \<and>
      (requestHandlers n \<noteq> [] \<longrightarrow> set (allowed_list (map fst (requestHandlers n)))
         = insert ''OPTIONS'' (fst ` set (requestHandlers n) \<union> (if ''GET'' \<in> fst ` set (requestHandlers n) then {''HEAD''} else {}))) \<and>
      (''OPTIONS'' \<notin> fst ` set (requestHandlers n) \<longrightarrow> distinct (allowed_list (map fst (requestHandlers n)))))"
proof (intro conjI impI)
  show "tree_ok (pathTreeRoot (new_table :: 'h route_table))" by (simp add: new_table_def tree_ok_empty)
  show "tree_ok (pathTreeRoot t) \<Longrightarrow> tree_ok (pathTreeRoot (snd (addRoute pattern m h t)))" by (rule addRoute_tree_ok)
  assume t: "tree_ok (pathTreeRoot t)" "node_at (pathTreeRoot t) segs = Some n"
    and m: "\<forall>m \<in> fst ` set (requestHandlers n). m \<noteq> [] \<and> m \<noteq> ''HEAD''"
  have n: "allowedMethods n = foldl extend_allowed [] (map fst (requestHandlers n))"
    and d: "distinct (map fst (requestHandlers n))"
    using t by (auto simp: tree_ok_def node_ok_def)
  show "distinct (map fst (requestHandlers n))" by (rule d)
  show "allowedMethods n = str_join '', '' (allowed_list (map fst (requestHandlers n)))"
    using n foldl_extend_allowed [of "map fst (requestHandlers n)"] m by simp
  have h: "''HEAD'' \<notin> set (map fst (requestHandlers n))" using m by auto
  from HEAD_iff_GET [OF h]
  show "''HEAD'' \<in> set (allowed_list (map fst (requestHandlers n))) \<longleftrightarrow> ''GET'' \<in> fst ` set (requestHandlers n)" by simp
  show "requestHandlers n \<noteq> [] \<Longrightarrow> set (allowed_list (map fst (requestHandlers n)))
      = insert ''OPTIONS'' (fst ` set (requestHandlers n) \<union> (if ''GET'' \<in> fst ` set (requestHandlers n) then {''HEAD''} else {}))"
    using set_allowed_list [of "map fst (requestHandlers n)"] by simp
  show "''OPTIONS'' \<notin> fst ` set (requestHandlers n) \<Longrightarrow> distinct (allowed_list (map fst (requestHandlers n)))"
    using distinct_allowed_list [OF d _ h] by simp
qed

theorem allow_header_invariant_witness:
  "tree_ok (pathTreeRoot (snd (addRoute ''/hi'' ''GET'' (1 :: nat) new_table)))
   \<and> allowedMethods (the (node_at (pathTreeRoot (snd (addRoute ''/hi'' ''GET'' (1 :: nat) new_table))) [Literal ''hi'']))
       = str_join '', '' (allowed_list [''GET''])
   \<and> ''HEAD'' \<in> set (allowed_list [''GET'']) \<and> set (allowed_list [''GET'']) = {''OPTIONS'', ''GET'', ''HEAD''} \<and> distinct (allowed_list [''GET''])"
proof -
  let ?t = "snd (addRoute ''/hi'' ''GET'' (1 :: nat) new_table)"
  have n: "node_at (pathTreeRoot ?t) [Literal ''hi''] = Some (RouteNode [] None None None [(''GET'', 1)] [''hi''] ''GET, OPTIONS, HEAD'')"
    by code_simp
  have t: "tree_ok (pathTreeRoot ?t)"
    using allow_header_invariant [of new_table "''/hi''" "''GET''" "1 :: nat" "[]" empty_node] by simp
  then show ?thesis using allow_header_invariant [of ?t _ _ _ "[Literal ''hi'']"] n by (simp add: insert_commute)
qed

text \<open>C25. Parameter extraction, for every pattern that matches: a parameter \<open><name>\<close> at position \<open>i\<close> gives the pair of its name
  and the percent-decoded segment \<open>i\<close>, and \<open>**\<close> at position \<open>i\<close> the segments from \<open>i\<close> on, joined by slashes.\<close>

theorem path_parameters_bound:
  assumes "seg_match (map classify pats) parts" "i < length pats"
  shows "(is_param (pats ! i) \<longrightarrow> (param_name (pats ! i), percentDecode (parts ! i)) \<in> set (getPathParams pats parts))
    \<and> (pats ! i = ''**'' \<longrightarrow> (''**'', str_join ''/'' (drop i parts)) \<in> set (getPathParams pats parts))"
  by (rule getPathParams_binds [OF assms])

theorem path_parameters_bound_witness:
  "(''id'', ''a b'') \<in> set (getPathParams [''u'', ''<id>'', ''**''] [''u'', ''a%20b'', ''c'', ''d''])
    \<and> (''**'', ''c/d'') \<in> set (getPathParams [''u'', ''<id>'', ''**''] [''u'', ''a%20b'', ''c'', ''d''])"
proof -
  have m: "seg_match (map classify [''u'', ''<id>'', ''**'']) [''u'', ''a%20b'', ''c'', ''d'']" by code_simp
  have e: "is_param ''<id>''" "param_name ''<id>'' = ''id''" "percentDecode ''a%20b'' = ''a b''" "str_join ''/'' [''c'', ''d''] = ''c/d''"
    by code_simp+
  show ?thesis using path_parameters_bound [OF m, of 1] path_parameters_bound [OF m, of 2] e by simp
qed





text \<open>C28. The error branches of the dispatcher, for a tree in which the invariant C24 holds and no middlewares. \<open>TRACE\<close> and \<open>CONNECT\<close> are not implemented. For any other request (but
  \<open>OPTIONS *\<close>, which lists all methods): when no entry is found, the answer is the error factory's 404; when the node found has no
  handler for the method, its 405, or 204 for \<open>OPTIONS\<close>, with the methods of the node in \<open>Allow\<close> (\<open>allowed_list\<close>). The error responses have no body for \<open>HEAD\<close>. No
  answer depends on what a handler does and the state \<open>w\<close> behind the handlers is unchanged.\<close>

theorem wrong_requests_answered:
  assumes "middlewares r = []" "tree_ok (pathTreeRoot (routes r))"
    and "\<forall>segs n. node_at (pathTreeRoot (routes r)) segs = Some n \<longrightarrow> [] \<notin> fst ` set (requestHandlers n) \<and> ''HEAD'' \<notin> fst ` set (requestHandlers n)"
  shows "(req_method req \<in> {''TRACE'', ''CONNECT''} \<longrightarrow>
      dispatch build_error ord r (req, w) = (Inr (PlainResponse (build_error req 501)), req, w))
    \<and> (req_method req \<notin> {''TRACE'', ''CONNECT''} \<and> \<not> (req_method req = ''OPTIONS'' \<and> req_path req = ''*'') \<longrightarrow>
      (findMatchingRouteEntry (routes r) (pathParts req) = None \<longrightarrow>
        dispatch build_error ord r (req, w) = (Inr (PlainResponse (strip_for_head req (build_error req 404))), req, w)
        \<and> strip_for_head req (build_error req 404) = (if req_method req = ''HEAD'' then (build_error req 404)\<lparr>resp_body := []\<rparr> else build_error req 404))
      \<and> (\<forall>n. findMatchingRouteEntry (routes r) (pathParts req) = Some n \<and> map_of (requestHandlers n) (lookup_method req) = None \<longrightarrow>
        (\<exists>res req1. dispatch build_error ord r (req, w) = (Inr (PlainResponse res), req1, w)
          \<and> hs_getHeaderLower (resp_headers res) ''allow'' = str_join '', '' (allowed_list (map fst (requestHandlers n)))
          \<and> set (allowed_list (map fst (requestHandlers n)))
              = insert ''OPTIONS'' (fst ` set (requestHandlers n) \<union> (if ''GET'' \<in> fst ` set (requestHandlers n) then {''HEAD''} else {}))
          \<and> (if req_method req = ''OPTIONS'' then statusCode res = 204
             else statusCode res = statusCode (build_error req1 405)
               \<and> resp_body res = (if req_method req = ''HEAD'' then [] else resp_body (build_error req1 405))))))"
proof (intro conjI impI allI)
  assume "req_method req \<in> {''TRACE'', ''CONNECT''}"
  then show "dispatch build_error ord r (req, w) = (Inr (PlainResponse (build_error req 501)), req, w)"
    by (auto simp: dispatch_def Let_def)
next
  assume m: "req_method req \<notin> {''TRACE'', ''CONNECT''} \<and> \<not> (req_method req = ''OPTIONS'' \<and> req_path req = ''*'')"
  show "strip_for_head req (build_error req 404) = (if req_method req = ''HEAD'' then (build_error req 404)\<lparr>resp_body := []\<rparr> else build_error req 404)"
    by (simp add: strip_for_head_def stripBody_def)
  show "dispatch build_error ord r (req, w) = (Inr (PlainResponse (strip_for_head req (build_error req 404))), req, w)"
    if "findMatchingRouteEntry (routes r) (pathParts req) = None"
    using that m assms(1) by (simp add: dispatch_bare terminal_not_found)
  fix n assume n: "findMatchingRouteEntry (routes r) (pathParts req) = Some n \<and> map_of (requestHandlers n) (lookup_method req) = None"
  have "allowedMethods n = str_join '', '' (allowed_list (map fst (requestHandlers n)))"
    using found_allows [OF assms(2)] assms(3) n by blast
  moreover have "requestHandlers n \<noteq> []" using n route_found_iff by blast
  then have "set (allowed_list (map fst (requestHandlers n)))
      = insert ''OPTIONS'' (fst ` set (requestHandlers n) \<union> (if ''GET'' \<in> fst ` set (requestHandlers n) then {''HEAD''} else {}))"
    using set_allowed_list [of "map fst (requestHandlers n)"] by simp
  ultimately show "\<exists>res req1. dispatch build_error ord r (req, w) = (Inr (PlainResponse res), req1, w)
          \<and> hs_getHeaderLower (resp_headers res) ''allow'' = str_join '', '' (allowed_list (map fst (requestHandlers n)))
          \<and> set (allowed_list (map fst (requestHandlers n)))
              = insert ''OPTIONS'' (fst ` set (requestHandlers n) \<union> (if ''GET'' \<in> fst ` set (requestHandlers n) then {''HEAD''} else {}))
          \<and> (if req_method req = ''OPTIONS'' then statusCode res = 204
             else statusCode res = statusCode (build_error req1 405)
               \<and> resp_body res = (if req_method req = ''HEAD'' then [] else resp_body (build_error req1 405)))"
    using method_refused [of r req n build_error ord w] assms(1) m n by simp
qed

theorem wrong_requests_answered_witness:
  "\<exists>res req1. dispatch (\<lambda>_ code. new_response code) id (srv_router example_server)
        (empty_request\<lparr>req_method := ''PUT'', pathParts := [''hi'']\<rparr>, example_world) = (Inr (PlainResponse res), req1, example_world)
      \<and> statusCode res = 405 \<and> hs_getHeaderLower (resp_headers res) ''allow'' = ''GET, OPTIONS, HEAD''"
proof -
  let ?req = "empty_request\<lparr>req_method := ''PUT'', pathParts := [''hi'']\<rparr>"
  have r: "middlewares (srv_router example_server) = []" "routes (srv_router example_server) = example_table"
    by (simp_all add: example_server_def)
  have "case findMatchingRouteEntry example_table [''hi''] of None \<Rightarrow> False
      | Some n \<Rightarrow> Option.is_none (map_of (requestHandlers n) ''PUT'') \<and> str_join '', '' (allowed_list (map fst (requestHandlers n))) = ''GET, OPTIONS, HEAD''"
    by code_simp
  then obtain n where n: "findMatchingRouteEntry example_table [''hi''] = Some n" "map_of (requestHandlers n) ''PUT'' = None"
    "str_join '', '' (allowed_list (map fst (requestHandlers n))) = ''GET, OPTIONS, HEAD''"
    by (auto simp: Option.is_none_def split: option.splits)
  have q: "req_method ?req = ''PUT''" "pathParts ?req = [''hi'']" "lookup_method ?req = ''PUT''"
    by (simp_all add: empty_request_def lookup_method_def)
  show ?thesis
    using wrong_requests_answered [of "srv_router example_server" ?req "\<lambda>_ code. new_response code" id example_world]
      example_tree_ok n
    by (simp only: r q) (force simp: new_response_def)
qed



text \<open>C30. Cross-origin access. For every next handler: without an \<open>Origin\<close> nothing changes; a preflight never reaches the next handler, and its
  204 response names the origin exactly when the configuration lists it or \<open>*\<close>; a response of the next handler that names no origin itself
  comes out naming the request's origin under the same condition.\<close>

theorem cors_grants_only_allowed:
  "(getHeaderLower req ''origin'' = [] \<longrightarrow> cors_middleware m next (req, w) = next (req, w))
   \<and> (getHeaderLower req ''origin'' \<noteq> [] \<longrightarrow> req_method req = ''OPTIONS'' \<longrightarrow>
       (\<exists>r. cors_middleware m next (req, w) = (Inr (PlainResponse r), req, w) \<and> statusCode r = 204
        \<and> hs_getHeaderLower (resp_headers r) ''access-control-allow-origin'' =
            (if getHeaderLower req ''origin'' \<in> set (allowedOrigins m) \<or> ''*'' \<in> set (allowedOrigins m) then getHeaderLower req ''origin'' else [])))
   \<and> (\<forall>response st'. getHeaderLower req ''origin'' \<noteq> [] \<and> req_method req \<noteq> ''OPTIONS'' \<and> next (req, w) = (Inr response, st')
       \<and> hs_getHeaderLower (headers_of response) ''access-control-allow-origin'' = [] \<longrightarrow>
       (\<exists>response'. cors_middleware m next (req, w) = (Inr response', st') \<and> status_of response' = status_of response
        \<and> hs_getHeaderLower (headers_of response') ''access-control-allow-origin'' =
            (if getHeaderLower req ''origin'' \<in> set (allowedOrigins m) \<or> ''*'' \<in> set (allowedOrigins m) then getHeaderLower req ''origin'' else [])))"
proof (intro conjI impI allI)
  show "getHeaderLower req ''origin'' = [] \<Longrightarrow> cors_middleware m next (req, w) = next (req, w)" by (rule cors_same_origin)
  show "getHeaderLower req ''origin'' \<noteq> [] \<Longrightarrow> req_method req = ''OPTIONS'' \<Longrightarrow>
       \<exists>r. cors_middleware m next (req, w) = (Inr (PlainResponse r), req, w) \<and> statusCode r = 204
        \<and> hs_getHeaderLower (resp_headers r) ''access-control-allow-origin'' =
            (if getHeaderLower req ''origin'' \<in> set (allowedOrigins m) \<or> ''*'' \<in> set (allowedOrigins m) then getHeaderLower req ''origin'' else [])"
    using cors_preflight [of req _ m "next" w, OF refl] unfolding isOriginAllowed_iff by blast
  fix response st'
  assume "getHeaderLower req ''origin'' \<noteq> [] \<and> req_method req \<noteq> ''OPTIONS'' \<and> next (req, w) = (Inr response, st')
       \<and> hs_getHeaderLower (headers_of response) ''access-control-allow-origin'' = []"
  then show "\<exists>response'. cors_middleware m next (req, w) = (Inr response', st') \<and> status_of response' = status_of response
        \<and> hs_getHeaderLower (headers_of response') ''access-control-allow-origin'' =
            (if getHeaderLower req ''origin'' \<in> set (allowedOrigins m) \<or> ''*'' \<in> set (allowedOrigins m) then getHeaderLower req ''origin'' else [])"
    unfolding isOriginAllowed_iff [symmetric] by (simp add: cors_middleware_def cors_origin)
qed

theorem cors_grants_only_allowed_witness:
  "\<exists>r. cors_middleware (setCorsOrigins [''http://a''] new_cors) (\<lambda>st. (Inl BadAccess, st))
       (empty_request\<lparr>req_method := ''OPTIONS'', req_headers := [(''origin'', ''http://b'')]\<rparr>, ()) =
     (Inr (PlainResponse r) :: (unit response) result, empty_request\<lparr>req_method := ''OPTIONS'', req_headers := [(''origin'', ''http://b'')]\<rparr>, ())
     \<and> statusCode r = 204 \<and> hs_getHeaderLower (resp_headers r) ''access-control-allow-origin'' = []"
proof -
  let ?req = "empty_request\<lparr>req_method := ''OPTIONS'', req_headers := [(''origin'', ''http://b'')]\<rparr>"
  have "getHeaderLower ?req ''origin'' = ''http://b''"
    "\<not> (''http://b'' \<in> set (allowedOrigins (setCorsOrigins [''http://a''] new_cors)) \<or> ''*'' \<in> set (allowedOrigins (setCorsOrigins [''http://a''] new_cors)))"
    by code_simp+
  then show ?thesis
    using cors_grants_only_allowed [of ?req "setCorsOrigins [''http://a''] new_cors" "\<lambda>st. (Inl BadAccess, st)" "()"] by simp
qed

text \<open>C31. Compression of streaming responses, for every compressor. The chunks \<open>cs\<close> that the original generator gives are fed in order and
  the compressor is finished once; the pieces that come out are never empty (an empty piece would end a chunked body) and
  their concatenation is the output of the compressor on the whole stream, whatever it holds back in between.\<close>

theorem compression_keeps_stream:
  assumes "gives nxt (cg_orig g) cs" "\<not> cg_finished g"
  shows "\<exists>bs. stream_pieces (compressed_next nxt feedChunk finish) g w bs \<and> [] \<notin> set bs
    \<and> concat bs = feeds feedChunk finish (cg_comp g) cs"
  by (rule compressed_stream [OF assms])

theorem compression_keeps_stream_witness:
  "\<exists>bs. stream_pieces (compressed_next (\<lambda>g w. (Inr (if g = [] then None else Some (hd g)), tl g, w))
        (\<lambda>z c. if length (z @ c) < 4 then ([], z @ c) else (z @ c, [])) (\<lambda>z. (z, [])))
      \<lparr>cg_comp = [], cg_orig = [''ab'', ''cde'', ''f''], cg_finished = False\<rparr> (0 :: nat) bs \<and> [] \<notin> set bs
    \<and> concat bs = feeds (\<lambda>z c. if length (z @ c) < 4 then ([], z @ c) else (z @ c, [])) (\<lambda>z. (z, [])) [] [''ab'', ''cde'', ''f'']"
  using compression_keeps_stream [of "\<lambda>g w. (Inr (if g = [] then None else Some (hd g)), tl g, w)"
      "\<lparr>cg_comp = [], cg_orig = [''ab'', ''cde'', ''f''], cg_finished = False\<rparr>" "[''ab'', ''cde'', ''f'']"
      "\<lambda>z c. if length (z @ c) < 4 then ([], z @ c) else (z @ c, [])" "\<lambda>z. (z, [])" "0 :: nat"]
  by simp

text \<open>C32. The session middleware on the in-memory store. The three outcomes: saved under the id in the cookie and loaded again
 until the time to live has passed (nothing else in the store changes); destroyed; nothing to do. A loaded session keeps the dirty flag it was
  stored with, so the third case is that of a new session that nothing was put in (\<open>loaded_saved_again\<close>).\<close>

theorem session_saved_and_found:
  assumes "session_after sc mem_save mem_destroy now fresh h response st = (response', h', st')"
  shows "case handle_session h of
      None \<Rightarrow> response' = response \<and> st' = st
    | Some s \<Rightarrow>
        if isInvalidated s then (if handle_id h = [] then st' = st
            else \<forall>t. fst (mem_load ttl t (handle_id h) st') = None
              \<and> (\<forall>k. k \<noteq> handle_id h \<longrightarrow> fst (mem_load ttl t k st') = fst (mem_load ttl t k st)))
        else if isDirty s then handle_id h' = (if handle_id h = [] then fresh else handle_id h)
            \<and> session_cookie sc (handle_id h') \<in> set (cookies_of response')
            \<and> (\<forall>t. t - now \<le> ttl \<longrightarrow> fst (mem_load ttl t (handle_id h') st') = Some s)
            \<and> (\<forall>t k. k \<noteq> handle_id h' \<longrightarrow> fst (mem_load ttl t k st') = fst (mem_load ttl t k st))
        else response' = response \<and> st' = st"
proof (cases "handle_session h")
  case None
  then show ?thesis using assms memory.session_after_untouched [of h sc now fresh response st] by simp
next
  case (Some s)
  consider "isInvalidated s" "handle_id h = []" | "isInvalidated s" "handle_id h \<noteq> []" | "\<not> isInvalidated s" "isDirty s" | "\<not> isInvalidated s" "\<not> isDirty s" by blast
  then show ?thesis
  proof cases
    case 2
    then show ?thesis using memory.session_after_invalidated [OF Some 2 assms, of ttl] Some by (simp add: memory.load_result)
  next
    case 3
    then show ?thesis using memory.session_after_saved [OF Some 3(2,1) assms, of ttl] Some
      by (cases "handle_id h = []") (auto simp: memory.load_result)
  next
    case 4
    then show ?thesis using assms memory.session_after_untouched [of h sc now fresh response st] Some by simp
  qed (use Some assms in \<open>simp add: session_after_def\<close>)
qed

theorem session_saved_and_found_witness:
  "let h = (new_handle ''abc'')\<lparr>handle_session := Some (session_set ''k'' ''v'' new_session)\<rparr>;
       (response', h', st') = session_after default_session_config mem_save mem_destroy 5 ''new'' h (PlainResponse (new_response 200) :: unit response) (\<lambda>_. None)
   in fst (mem_load 10 15 ''abc'' st') = Some (session_set ''k'' ''v'' new_session)"
proof -
  let ?s = "session_set ''k'' ''v'' new_session"
  let ?h = "(new_handle ''abc'')\<lparr>handle_session := Some ?s\<rparr>"
  obtain r' h' st' where eq: "session_after default_session_config mem_save mem_destroy 5 ''new'' ?h (PlainResponse (new_response 200) :: unit response) (\<lambda>_. None) = (r', h', st')"
    by (rule prod_cases3)
  have s: "isDirty ?s" "\<not> isInvalidated ?s" by code_simp+
  show ?thesis using session_saved_and_found [OF eq, of 10] s
    by (simp only: Let_def eq) (auto simp: new_handle_def)
qed

text \<open>C33. Multipart range responses. The generator that writes the parts, the delimiters and the closing delimiter yields, in one
  block per range and one more, exactly \<open>total_size\<close> bytes when the ranges are used. The bound \<open>2 ^ 31\<close> is that of the \<open>int\<close> parameter of
  \<open>digitCount\<close>. A further call of the generator is outside of its vector (\<open>None\<close>), where it should say that the stream has ended. When the ranges are
  not to be used (\<open>useRange\<close> is false: a stale \<open>If-Range\<close>), the announced size is that of the file.\<close>

theorem multirange_length_exact:
  assumes "\<forall>r \<in> set ranges. range_fits cfg (new_block_gen fd ranges core sz mime) r" "full_reads rd sz"
    and "sz < 2147483648" "1 < length ranges"
  shows "\<exists>bs g. blocks cfg rd (length ranges + 1) (new_block_gen fd ranges core sz mime) = Some (bs, g)
    \<and> total_size core mime sz useRange ranges = (if useRange then length bs else sz) \<and> nextBlock cfg rd g = None"
  using multi_length [OF assms] multi_without_use_range [OF assms(4)] by fastforce

theorem multirange_length_exact_witness:
  "\<exists>bs g. blocks default_config (\<lambda>off len. int len) (length [(0, 1), (5 :: nat, 9 :: nat)] + 1) (new_block_gen 3 [(0, 1), (5, 9)] ''B'' 20 ''text/plain'') = Some (bs, g)
    \<and> total_size ''B'' ''text/plain'' 20 True [(0, 1), (5, 9)] = (if True then length bs else 20) \<and> nextBlock default_config (\<lambda>off len. int len) g = None"
proof (rule multirange_length_exact)
  have "length (part_head (new_block_gen 3 [(0, 1), (5, 9)] ''B'' 20 ''text/plain'') 0 1) \<le> 200"
    "length (part_head (new_block_gen 3 [(0, 1), (5, 9)] ''B'' 20 ''text/plain'') 5 9) \<le> 200" by code_simp+
  then show "\<forall>r \<in> set [(0, 1), (5, 9)]. range_fits default_config (new_block_gen 3 [(0, 1), (5, 9)] ''B'' 20 ''text/plain'') r"
    by (auto simp: range_fits_def default_config_def KB_def MB_def) (simp_all add: new_block_gen_def)
qed (simp_all add: full_reads_def)

text \<open>C34. File responses with cached content: the step returns; on success the header and the bytes \<open>[offset, offset + len)\<close> have left after
  what was pending; a slice outside of the content, and only that, is answered with 416 and nothing is written.\<close>

theorem cached_file_slice_sent:
  assumes "f_cached f = Some content" "f_contentLength f = Some len" "io_ok (conn_io_of c)" "cookies_ok (f_cookies f)"
  shows "\<exists>r c'. send_opened srv f c = Some (r, c') \<and> (case r of
      Go _ \<Rightarrow> f_offset f + len \<le> length content \<and> sent (conn_io_of c') = outgoing c @ file_head srv f c @ take len (drop (f_offset f) content)
    | Reply code msg \<Rightarrow> code = 416 \<and> \<not> f_offset f + len \<le> length content \<and> c' = c
    | Stop \<Rightarrow> f_offset f + len \<le> length content | Reset \<Rightarrow> False | Escape e \<Rightarrow> False)"
proof -
  obtain r c' where s: "send_opened srv f c = Some (r, c')" using send_cached_total [OF assms(1,4)] by fastforce
  have "r = Stop \<Longrightarrow> f_offset f + len \<le> length content"
    using s assms(1,2) by (auto simp: send_opened_def Let_def split: if_splits)
  then show ?thesis using s send_cached_file [OF assms(1,2) s assms(3,4)]
    by (intro exI [of _ r] exI [of _ c']) (cases r; simp)
qed

theorem cached_file_slice_sent_witness:
  "let f = (new_file_response 206 ''/a'')\<lparr>f_cached := Some ''abcdef'', f_offset := 4, f_contentLength := Some 5\<rparr> in
   \<exists>r c'. send_opened example_server f (example_connection []) = Some (r, c') \<and> (case r of
      Go _ \<Rightarrow> f_offset f + 5 \<le> length ''abcdef'' \<and> sent (conn_io_of c') = outgoing (example_connection []) @ file_head example_server f (example_connection [])
          @ take 5 (drop (f_offset f) ''abcdef'')
    | Reply code msg \<Rightarrow> code = 416 \<and> \<not> f_offset f + 5 \<le> length ''abcdef'' \<and> c' = example_connection []
    | Stop \<Rightarrow> f_offset f + 5 \<le> length ''abcdef'' | Reset \<Rightarrow> False | Escape e \<Rightarrow> False)"
  unfolding Let_def
  by (rule cached_file_slice_sent)
    (simp_all add: new_file_response_def cookies_ok_def io_ok_def example_connection_def conn_io_of_def)

text \<open>C35. The read side of the buffered connection, for every script of socket events: the buffer is extended at its end, its size is
  bounded by the target of the call and by the maximum, and what is buffered and what is still to come are together the same
  bytes as before, unless the stream was closed or failed.\<close>

theorem read_keeps_order_and_bound:
  assumes "io_ok io" "io_read t m io = (r, io')"
  shows "io_ok io' \<and> prefix (readView io) (readView io') \<and> writeView io' = writeView io \<and> sent io' = sent io
    \<and> length (readView io') \<le> max (length (readView io)) (min (length (readView io) + t) m)
    \<and> (r \<notin> {CLOSED, READ_ERROR} \<longrightarrow> readView io' @ rx_data (rx io') = readView io @ rx_data (rx io))"
  using io_read_step [OF assms(1), of t m] assms(2) by (simp add: read_step_def Let_def)

theorem read_keeps_order_and_bound_witness:
  "let (r, io') = io_read 4 100 example_io in
    io_ok io' \<and> prefix (readView example_io) (readView io') \<and> writeView io' = writeView example_io \<and> sent io' = sent example_io
    \<and> length (readView io') \<le> max (length (readView example_io)) (min (length (readView example_io) + 4) 100)
    \<and> (r \<notin> {CLOSED, READ_ERROR} \<longrightarrow> readView io' @ rx_data (rx io') = readView example_io @ rx_data (rx example_io))"
proof (cases "io_read 4 100 example_io")
  case (Pair r io')
  have "io_ok example_io" by (simp add: example_io_def io_ok_def)
  then show ?thesis unfolding Pair Let_def prod.case by (rule read_keeps_order_and_bound [OF _ Pair])
qed

text \<open>C36. Combining conditions. The operators drop operands that are \<open>TRUE\<close> or \<open>FALSE\<close>. Whatever the comparisons evaluate to,
  unknown included, the combined condition has the value of \<open>AND\<close> and \<open>OR\<close> in three-valued logic.\<close>

theorem connectives_sound:
  "truth rho (pred_and p q) = sql_and (truth rho p) (truth rho q)
    \<and> truth rho (pred_or p q) = sql_or (truth rho p) (truth rho q) \<and> truth rho (pred_bool b) = Some b"
  by (simp add: truth_and truth_or)

text \<open>C37. Insertion of several objects. The statement is given exactly; its parameters are the values of the first object, then those
  of the second, and so on, generated values included; the statement has as many placeholders as parameters.\<close>

theorem inserted_rows_exact:
  assumes "insertable m" "clean_model m"
  shows "buildInsert m objs returning = ok (insert_sqlInit m @ '' VALUES ''
        @ comma_list (replicate (length objs) (row_marks (length (insert_columns m)))) @ returning_clause returning @ '';'',
      concat (map (insert_values m) objs))
    \<and> marks (insert_sqlInit m @ '' VALUES '' @ comma_list (replicate (length objs) (row_marks (length (insert_columns m))))
        @ returning_clause returning @ '';'') = length (concat (map (insert_values m) objs))"
  using buildInsert_exact [OF assms, of objs returning] values_exact [OF assms(1), of objs] by (auto simp: buildInsert_def)

theorem inserted_rows_exact_witness:
  "let m = example_model; objs = [example_user 0 ''ann'', example_user 0 ''bob''] in
   buildInsert m objs True = ok (insert_sqlInit m @ '' VALUES ''
        @ comma_list (replicate (length objs) (row_marks (length (insert_columns m)))) @ returning_clause True @ '';'',
      concat (map (insert_values m) objs))
    \<and> marks (insert_sqlInit m @ '' VALUES '' @ comma_list (replicate (length objs) (row_marks (length (insert_columns m))))
        @ returning_clause True @ '';'') = length (concat (map (insert_values m) objs))"
  unfolding Let_def by (rule inserted_rows_exact) (simp_all add: example_model_facts)

text \<open>C38. Many-to-many relations. The deletion that \<open>removeRelation\<close> sends has a condition that selects the row \<open>addRelation\<close> stores for the same two objects,
  and in mode \<open>DOUBLE_ROW\<close> also its mirror. \<open>val\<close> gives the values of the columns of the row \<open>t\<close> under the alias of the statement; \<open>well_mapped\<close> holds when no
  two fields of the relation share a column and only self-referential relations are symmetric.\<close>

theorem removal_undoes_addition:
  assumes "getManyToManyRelation rels n caller related = Some rl" "well_mapped (rl_relation rl)" "removal_query rl self other = ok q"
    and "row_of val ''a'' (m2m_through (rl_relation rl)) t"
    and "t = added_through lt rl self other \<or> symmetryMode (rl_relation rl) = DOUBLE_ROW \<and> t = added_mirror rl self other"
  shows "\<exists>p. delete_where q = Some p \<and> truth (eq_truth val) p = Some True"
  using removal_covers_addition [OF assms] by (simp add: selects_def)

theorem removal_undoes_addition_witness:
  "let rl = example_lookup; self = example_user 7 ''ann''; other = example_user 3 ''bob''; t = added_mirror rl self other;
       val = (\<lambda>c. if c = ''a.pkA'' then DbInt 3 else if c = ''a.pkB'' then DbInt 7 else DbInt 0) in
   \<exists>q p. removal_query rl self other = ok q \<and> delete_where q = Some p \<and> truth (eq_truth val) p = Some True"
proof -
  let ?self = "example_user 7 ''ann''" and ?other = "example_user 3 ''bob''"
  obtain q where q: "removal_query example_lookup ?self ?other = ok q" using example_removal by auto
  show ?thesis unfolding Let_def
    using removal_undoes_addition [OF example_lookup_found example_well_mapped q, of _ "added_mirror example_lookup ?self ?other" "\<lambda>_ _. False",
        OF example_mirror_row] q example_double by blast
qed

text \<open>C39. Foreign keys, in both directions, for keys of any number of columns. \<open>t\<close> is a row of the table that is searched, and \<open>val\<close> gives its values.\<close>

theorem references_found:
  assumes "ref_query target r self = ok q" "row_of val ''a'' target t"
    and "related_query definer r' self' = ok q'" "row_of val' ''a'' definer t'"
  shows "query_selects val q = (\<forall>(fk, pk) \<in> set (getFieldPtrPairs r).
      obj_field self fk \<noteq> Optional None \<and> toDbValue (obj_field t pk) = toDbValue (obj_field self fk))
    \<and> query_selects val' q' = (\<forall>(fk, pk) \<in> set (getFieldPtrPairs r'). toDbValue (obj_field t' fk) = toDbValue (obj_field self' pk))"
  using ref_selects [OF assms(1,2)] related_selects [OF assms(3,4)] by simp

theorem references_found_witness:
  "let r = fk_new example_model example_model [2]; ann = example_user 7 ''ann''; bob = set_field 2 (Optional (Some (VInt 7))) (example_user 3 ''bob'');
       val_ann = (\<lambda>c. if c = ''a.id'' then DbInt 7 else if c = ''a.name'' then DbText ''ann'' else DbNull);
       val_bob = (\<lambda>c. if c = ''a.id'' then DbInt 3 else if c = ''a.name'' then DbText ''bob'' else DbInt 7) in
   \<exists>q q'. ref_query example_model r bob = ok q \<and> query_selects val_ann q \<and> related_query example_model r ann = ok q' \<and> query_selects val_bob q'"
proof -
  let ?r = "fk_new example_model example_model [2]" and ?ann = "example_user 7 ''ann''"
    and ?bob = "set_field 2 (Optional (Some (VInt 7))) (example_user 3 ''bob'')"
  let ?va = "\<lambda>c. if c = ''a.id'' then DbInt 7 else if c = ''a.name'' then DbText ''ann'' else DbNull"
    and ?vb = "\<lambda>c. if c = ''a.id'' then DbInt 3 else if c = ''a.name'' then DbText ''bob'' else DbInt 7"
  obtain q where q: "ref_query example_model ?r ?bob = ok q" using example_ref by auto
  obtain q' where q': "related_query example_model ?r ?ann = ok q'" using example_related by auto
  have "row_of ?va ''a'' example_model ?ann" "row_of ?vb ''a'' example_model ?bob"
    by (simp_all add: row_of_def example_model_def new_column_def example_user_def to_int64_def)
  from references_found [OF q this(1) q' this(2)] show ?thesis unfolding Let_def using q q'
    by (auto simp: getFieldPtrPairs_def fk_new_def pkFieldPtrs_def pkColumns_def example_model_def new_column_def example_user_def)
qed

text \<open>C40. Placeholders of select statements: common table expressions, joins, where and having clauses, and the operands of compound queries, for names without question marks (\<open>clean_query\<close>). The
  text has one placeholder per parameter and those in \<open>excess\<close>: the parameters of the common table expressions of compound queries, which the code overwrites, and what the texts
  that come from elsewhere have too many (or, negative, too few). For a query in excess the database gets too few values. A query in which all texts match their values and no compound query has a common
  table expression with parameters (\<open>balanced\<close>) has exactly one parameter per placeholder.\<close>

theorem select_parameters_counted:
  assumes "clean_model (hd ms)" "clean_query q" "build_select ms depth lim q = ok (sql, params)"
  shows "int (marks sql) = int (length params) + excess q \<and> (balanced q \<longrightarrow> marks sql = length params)"
  using build_select_marks [OF assms(1,3,2)] balanced_no_excess [of q] by auto

theorem select_parameters_counted_witness:
  "let c = \<lparr>cte_name = ''x'', cte_sql = ''SELECT ?'', cte_params = [DbInt 1], cte_recursive = False\<rparr>;
       plain = q_where (pred_column ''a.id'' EQUALS [DbInt 7]) (new_query [example_model]);
       q = map_parts (\<lambda>p. p\<lparr>q_ctes := [c]\<rparr>) (unionQuery [example_model] plain (new_query [example_model])) in
   (\<exists>sql params. build_select [example_model] 0 None q = ok (sql, params) \<and> marks sql = length params + 1)
   \<and> (\<exists>sql params. build_select [example_model] 0 None plain = ok (sql, params) \<and> marks sql = length params)"
proof -
  define c where "c = \<lparr>cte_name = ''x'', cte_sql = ''SELECT ?'', cte_params = [DbInt 1], cte_recursive = False\<rparr>"
  define plain where "plain = q_where (pred_column ''a.id'' EQUALS [DbInt 7]) (new_query [example_model])"
  define q where "q = map_parts (\<lambda>p. p\<lparr>q_ctes := [c]\<rparr>) (unionQuery [example_model] plain (new_query [example_model]))"
  note defs = c_def map_parts_def unionQuery_def set_query_def q_where_def pred_column_def new_query_def new_parts_def where_and_def plain_def
  note build = plain_select_def optional_clause_def group_clause_def column_clause_def model_alias_def get_index_of_def same_model_def
        getAlias_def aliasList_def resolve_leaf_def isGroupOperator_def Let_def
  have "\<exists>sql params. build_select [example_model] 0 None q = ok (sql, params)" by (simp add: q_def defs build)
  then obtain sql params where b: "build_select [example_model] 0 None q = ok (sql, params)" by blast
  have "\<exists>sql params. build_select [example_model] 0 None plain = ok (sql, params)" by (simp add: defs build)
  then obtain sql1 params1 where b1: "build_select [example_model] 0 None plain = ok (sql1, params1)" by blast
  have "clean_query q" "clean_query plain" "balanced plain" by (simp_all add: q_def defs clean_parts_def example_model_def)
  moreover have "excess q = 1"
    by (simp add: q_def defs ctes_excess_def clauses_excess_def option_excess_def text_excess_def)
  ultimately have "marks sql = length params + 1" "marks sql1 = length params1"
    using select_parameters_counted [OF _ _ b] select_parameters_counted [OF _ _ b1] by (simp_all add: example_model_facts)
  then show ?thesis using b b1 unfolding Let_def q_def c_def plain_def by blast
qed

end
